(* ===== verification/Prelude.thy ===== *)
theory Prelude
  imports Main "HOL-Library.Word" "HOL-Library.Monad_Syntax" "HOL-Library.Sublist"
begin

text \<open>
  The vocabulary the components share: the machine integers of the Rust sources, byte slices,
  ASCII text, and the pieces of the Rust standard library the sources call (checked and
  saturating arithmetic, slice access, \<^verbatim>\<open>str::parse\<close>, \<^verbatim>\<open>split_once\<close>, \<^verbatim>\<open>trim\<close> and so on).

  Conventions. A byte is an \<open>8 word\<close>. A \<^verbatim>\<open>usize\<close>, \<^verbatim>\<open>u64\<close>, \<^verbatim>\<open>u32\<close>, \<^verbatim>\<open>u16\<close> counter or length is a
  \<open>nat\<close>; wherever the source checks, saturates or wraps, the bound is written out with the
  constants below (\<^verbatim>\<open>usize\<close> is 64 bits wide: the product targets x64 only). Text is a
  \<open>string\<close>; the databases it comes from are ASCII, so a \<open>char\<close> is one byte of it.
\<close>

named_theorems rust_simps \<open>unfolding rules for the Rust standard library operations\<close>

type_synonym byte = "8 word"
type_synonym bytes = "8 word list"

section \<open>Integer widths\<close>

definition u8_max :: nat where "u8_max = 255"
definition u16_max :: nat where "u16_max = 65535"
definition u32_max :: nat where "u32_max = 4294967295"
definition u64_max :: nat where "u64_max = 18446744073709551615"
definition usize_max :: nat where "usize_max = 18446744073709551615"

lemmas width_defs [rust_simps] =
  u8_max_def u16_max_def u32_max_def u64_max_def usize_max_def

definition checked_sub :: "nat \<Rightarrow> nat \<Rightarrow> nat option" where
  "checked_sub a b = (if b \<le> a then Some (a - b) else None)"

definition checked_add :: "nat \<Rightarrow> nat \<Rightarrow> nat \<Rightarrow> nat option" where
  "checked_add mx a b = (if a + b \<le> mx then Some (a + b) else None)"

definition saturating_add :: "nat \<Rightarrow> nat \<Rightarrow> nat \<Rightarrow> nat" where
  "saturating_add mx a b = min mx (a + b)"

text \<open>Rust's \<^verbatim>\<open>checked_add_signed\<close>: an unsigned position moved by a signed distance.\<close>

definition checked_add_signed :: "nat \<Rightarrow> int \<Rightarrow> nat option" where
  "checked_add_signed a d =
     (if 0 \<le> int a + d \<and> int a + d \<le> int usize_max then Some (nat (int a + d)) else None)"

lemma checked_sub_Some [simp]: "checked_sub a b = Some c \<longleftrightarrow> b \<le> a \<and> c = a - b"
  by (auto simp: checked_sub_def)

lemma checked_sub_None [simp]: "checked_sub a b = None \<longleftrightarrow> a < b"
  by (auto simp: checked_sub_def)

lemma checked_add_Some [simp]: "checked_add mx a b = Some c \<longleftrightarrow> a + b \<le> mx \<and> c = a + b"
  by (auto simp: checked_add_def)

lemma checked_add_None [simp]: "checked_add mx a b = None \<longleftrightarrow> mx < a + b"
  by (auto simp: checked_add_def)

lemma saturating_add_le: "saturating_add mx a b \<le> mx"
  by (simp add: saturating_add_def)

lemma saturating_add_exact: "a + b \<le> mx \<Longrightarrow> saturating_add mx a b = a + b"
  by (simp add: saturating_add_def)

lemma saturating_add_pos: "0 < mx \<Longrightarrow> 0 < saturating_add mx a b \<longleftrightarrow> 0 < a \<or> 0 < b"
  by (auto simp: saturating_add_def)

lemma saturating_add_mono:
  "a \<le> a' \<Longrightarrow> b \<le> b' \<Longrightarrow> saturating_add mx a b \<le> saturating_add mx a' b'"
  by (auto simp: saturating_add_def)

section \<open>Slices\<close>

text \<open>\<^verbatim>\<open>slice.get(i..j)\<close>, and \<^verbatim>\<open>slice.get(i)\<close>.\<close>

definition get_range :: "'a list \<Rightarrow> nat \<Rightarrow> nat \<Rightarrow> 'a list option" where
  "get_range xs i j = (if i \<le> j \<and> j \<le> length xs then Some (take (j - i) (drop i xs)) else None)"

definition get_at :: "'a list \<Rightarrow> nat \<Rightarrow> 'a option" where
  "get_at xs i = (if i < length xs then Some (xs ! i) else None)"

text \<open>The slice \<^verbatim>\<open>xs[i..j]\<close>, for bounds the caller has checked.\<close>

definition slice :: "'a list \<Rightarrow> nat \<Rightarrow> nat \<Rightarrow> 'a list" where
  "slice xs i j = take (j - i) (drop i xs)"

lemma get_range_Some [simp]:
  "get_range xs i j = Some ys \<longleftrightarrow> i \<le> j \<and> j \<le> length xs \<and> ys = slice xs i j"
  by (auto simp: get_range_def slice_def)

lemma get_range_None [simp]: "get_range xs i j = None \<longleftrightarrow> \<not> (i \<le> j \<and> j \<le> length xs)"
  by (auto simp: get_range_def)

lemma get_at_Some [simp]: "get_at xs i = Some x \<longleftrightarrow> i < length xs \<and> x = xs ! i"
  by (auto simp: get_at_def)

lemma get_at_None [simp]: "get_at xs i = None \<longleftrightarrow> length xs \<le> i"
  by (auto simp: get_at_def)

lemma length_slice: "j \<le> length xs \<Longrightarrow> length (slice xs i j) = j - i"
  by (simp add: slice_def)

lemma slice_nth: "j \<le> length xs \<Longrightarrow> k < j - i \<Longrightarrow> slice xs i j ! k = xs ! (i + k)"
  by (simp add: slice_def)

lemma slice_append:
  assumes "i \<le> j" "j \<le> k" "k \<le> length xs"
  shows "slice xs i j @ slice xs j k = slice xs i k"
proof (rule nth_equalityI)
  show "length (slice xs i j @ slice xs j k) = length (slice xs i k)"
    using assms by (simp add: length_slice)
next
  fix n assume "n < length (slice xs i j @ slice xs j k)"
  then show "(slice xs i j @ slice xs j k) ! n = slice xs i k ! n"
    using assms by (auto simp: nth_append length_slice slice_nth add.commute)
qed

text \<open>\<^verbatim>\<open>slice.windows(n)\<close>.\<close>

definition windows :: "nat \<Rightarrow> 'a list \<Rightarrow> 'a list list" where
  "windows n xs = (if n \<le> length xs then map (\<lambda>i. slice xs i (i + n)) [0..<length xs + 1 - n] else [])"

lemma set_windows:
  "w \<in> set (windows n xs) \<longleftrightarrow> (\<exists>i. i + n \<le> length xs \<and> w = slice xs i (i + n))"
proof
  assume "w \<in> set (windows n xs)"
  then obtain i where "n \<le> length xs" "i < length xs + 1 - n" "w = slice xs i (i + n)"
    by (auto simp: windows_def split: if_splits)
  then have "i + n \<le> length xs \<and> w = slice xs i (i + n)" by simp
  then show "\<exists>i. i + n \<le> length xs \<and> w = slice xs i (i + n)" ..
next
  assume "\<exists>i. i + n \<le> length xs \<and> w = slice xs i (i + n)"
  then obtain i where "i + n \<le> length xs" "w = slice xs i (i + n)" by blast
  then have "n \<le> length xs" "i \<in> set [0..<length xs + 1 - n]" by auto
  with \<open>w = slice xs i (i + n)\<close> show "w \<in> set (windows n xs)"
    by (auto simp: windows_def)
qed

definition starts_with :: "'a list \<Rightarrow> 'a list \<Rightarrow> bool" where
  "starts_with xs p \<longleftrightarrow> take (length p) xs = p"

lemma starts_with_prefix: "starts_with xs p \<longleftrightarrow> prefix p xs"
  by (metis append_eq_conv_conj prefix_def starts_with_def)

text \<open>Little-endian reads of two and four bytes.\<close>

definition u16_of_le :: "bytes \<Rightarrow> nat" where
  "u16_of_le bs = unat (bs ! 0) + 256 * unat (bs ! 1)"

definition u32_of_le :: "bytes \<Rightarrow> nat" where
  "u32_of_le bs = unat (bs ! 0) + 256 * unat (bs ! 1) + 65536 * unat (bs ! 2) + 16777216 * unat (bs ! 3)"

lemma unat_byte_less [simp]: "unat (b :: byte) < 256"
  using unsigned_less [of b] by simp

lemma unat_byte_le [simp]: "unat (b :: byte) \<le> 255"
  using unat_byte_less [of b] by linarith

lemma u16_of_le_bound: "u16_of_le bs < 65536"
proof -
  have "unat (bs ! 0) \<le> 255" "unat (bs ! 1) \<le> 255" by simp_all
  then show ?thesis unfolding u16_of_le_def by linarith
qed

lemma u32_of_le_bound: "u32_of_le bs < 4294967296"
proof -
  have "unat (bs ! 0) \<le> 255" "unat (bs ! 1) \<le> 255" "unat (bs ! 2) \<le> 255" "unat (bs ! 3) \<le> 255"
    by simp_all
  then show ?thesis unfolding u32_of_le_def by linarith
qed

section \<open>ASCII text\<close>

definition is_ascii_digit :: "char \<Rightarrow> bool" where
  "is_ascii_digit c \<longleftrightarrow> 48 \<le> (of_char c :: nat) \<and> (of_char c :: nat) \<le> 57"

definition is_whitespace :: "char \<Rightarrow> bool" where
  "is_whitespace c \<longleftrightarrow> (of_char c :: nat) \<in> {9, 10, 11, 12, 13, 32}"

definition trim :: "string \<Rightarrow> string" where
  "trim s = rev (dropWhile is_whitespace (rev (dropWhile is_whitespace s)))"

text \<open>\<^verbatim>\<open>str::split_once\<close> on a character, and on a two-character separator.\<close>

fun split_once :: "char \<Rightarrow> string \<Rightarrow> (string \<times> string) option" where
  "split_once c [] = None"
| "split_once c (x # xs) =
     (if x = c then Some ([], xs)
      else map_option (\<lambda>(l, r). (x # l, r)) (split_once c xs))"

fun split_once2 :: "char \<Rightarrow> char \<Rightarrow> string \<Rightarrow> (string \<times> string) option" where
  "split_once2 c d (x # y # xs) =
     (if x = c \<and> y = d then Some ([], xs)
      else map_option (\<lambda>(l, r). (x # l, r)) (split_once2 c d (y # xs)))"
| "split_once2 c d _ = None"

text \<open>\<^verbatim>\<open>str::split\<close> on a character: always at least one field.\<close>

fun split_on :: "char \<Rightarrow> string \<Rightarrow> string list" where
  "split_on c [] = [[]]"
| "split_on c (x # xs) =
     (if x = c then [] # split_on c xs
      else (case split_on c xs of f # fs \<Rightarrow> (x # f) # fs | [] \<Rightarrow> [[x]]))"

definition strip_prefix :: "string \<Rightarrow> string \<Rightarrow> string option" where
  "strip_prefix p s = (if take (length p) s = p then Some (drop (length p) s) else None)"

lemma split_on_nonempty [simp]: "split_on c s \<noteq> []"
  by (cases s) (auto split: list.splits)

lemma split_once_Some: "split_once c s = Some (l, r) \<longleftrightarrow> s = l @ c # r \<and> c \<notin> set l"
proof (induction s arbitrary: l)
  case Nil
  then show ?case by simp
next
  case (Cons x xs)
  then show ?case by (cases l) auto
qed

lemma split_once_None: "split_once c s = None \<longleftrightarrow> c \<notin> set s"
  by (induction s) auto

text \<open>
  \<^verbatim>\<open>from_str_radix\<close> on an unsigned type: an optional \<open>+\<close>, at least one digit, no overflow. The
  same function reads decimal numbers (\<^verbatim>\<open>str::parse\<close>) and pairs of hexadecimal digits.
\<close>

definition digit_value :: "char \<Rightarrow> nat" where
  "digit_value c = (let n = of_char c in
     if 48 \<le> n \<and> n \<le> 57 then n - 48
     else if 97 \<le> n \<and> n \<le> 102 then n - 87
     else if 65 \<le> n \<and> n \<le> 70 then n - 55 else 99)"

fun digits_value :: "nat \<Rightarrow> nat \<Rightarrow> string \<Rightarrow> nat option" where
  "digits_value radix acc [] = Some acc"
| "digits_value radix acc (c # cs) =
     (if digit_value c < radix then digits_value radix (radix * acc + digit_value c) cs else None)"

definition from_str_radix :: "nat \<Rightarrow> nat \<Rightarrow> string \<Rightarrow> nat option" where
  "from_str_radix radix mx s =
     (let ds = (case s of c # cs \<Rightarrow> if c = CHR ''+'' \<and> cs \<noteq> [] then cs else s | [] \<Rightarrow> s) in
      if ds = [] then None
      else (case digits_value radix 0 ds of
              None \<Rightarrow> None
            | Some n \<Rightarrow> if n \<le> mx then Some n else None))"

definition parse_usize :: "string \<Rightarrow> nat option" where
  "parse_usize = from_str_radix 10 usize_max"

definition parse_u64 :: "string \<Rightarrow> nat option" where
  "parse_u64 = from_str_radix 10 u64_max"

text \<open>\<^verbatim>\<open>str::parse::<isize>\<close>: the sign may be either, and the range is that of \<^verbatim>\<open>isize\<close>.\<close>

definition parse_isize :: "string \<Rightarrow> int option" where
  "parse_isize s =
     (case s of
        c # cs \<Rightarrow>
          if c = CHR ''-'' \<and> cs \<noteq> [] then
            (case digits_value 10 0 cs of
               None \<Rightarrow> None
             | Some n \<Rightarrow> if n \<le> 9223372036854775808 then Some (- int n) else None)
          else map_option int (from_str_radix 10 9223372036854775807 s)
      | [] \<Rightarrow> None)"

lemma from_str_radix_le: "from_str_radix radix mx s = Some n \<Longrightarrow> n \<le> mx"
  by (auto simp: from_str_radix_def Let_def split: option.splits if_splits list.splits)

lemma from_str_radix_nonempty: "from_str_radix radix mx s = Some n \<Longrightarrow> s \<noteq> []"
  by (auto simp: from_str_radix_def)

section \<open>Printing numbers\<close>

definition digit_char :: "nat \<Rightarrow> char" where
  "digit_char n = char_of (48 + n)"

fun show_nat :: "nat \<Rightarrow> string" where
  "show_nat n = (if n < 10 then [digit_char n] else show_nat (n div 10) @ [digit_char (n mod 10)])"

declare show_nat.simps [simp del]

lemma of_char_digit_char: "n < 10 \<Longrightarrow> of_char (digit_char n) = (48 + n :: nat)"
  by (simp add: digit_char_def)

lemma is_ascii_digit_digit_char: "n < 10 \<Longrightarrow> is_ascii_digit (digit_char n)"
  by (simp add: is_ascii_digit_def of_char_digit_char)

lemma digit_value_digit_char: "n < 10 \<Longrightarrow> digit_value (digit_char n) = n"
  by (simp add: digit_value_def of_char_digit_char Let_def)

lemma digits_value_append:
  "digits_value r acc (xs @ ys) = Option.bind (digits_value r acc xs) (\<lambda>a. digits_value r a ys)"
  by (induction xs arbitrary: acc) auto

lemma show_nat_digits: "list_all is_ascii_digit (show_nat n)"
proof (induction n rule: show_nat.induct)
  case (1 n)
  then show ?case
    by (subst show_nat.simps) (auto simp: is_ascii_digit_digit_char)
qed

lemma show_nat_nonempty [simp]: "show_nat n \<noteq> []"
  by (subst show_nat.simps) simp

lemma digits_value_show_nat: "digits_value 10 0 (show_nat n) = Some n"
proof (induction n rule: show_nat.induct)
  case (1 n)
  then show ?case
    by (subst show_nat.simps) (auto simp: digits_value_append digit_value_digit_char)
qed

lemma length_show_nat: "n < 10 ^ k \<Longrightarrow> 0 < k \<Longrightarrow> length (show_nat n) \<le> k"
proof (induction n arbitrary: k rule: show_nat.induct)
  case (1 n)
  show ?case
  proof (cases "n < 10")
    case True
    with 1 show ?thesis by (subst show_nat.simps) simp
  next
    case False
    with "1.prems" obtain k' where k: "k = Suc k'" "0 < k'"
      by (cases k; cases "k - 1") auto
    with "1.prems" have "n div 10 < 10 ^ k'" by (simp add: less_mult_imp_div_less mult.commute)
    with "1.IH" [OF False _ k(2)] have "length (show_nat (n div 10)) \<le> k'" by simp
    with False k show ?thesis by (subst show_nat.simps) simp
  qed
qed

section \<open>ASCII bytes\<close>

definition byte_of :: "char \<Rightarrow> byte" where
  "byte_of c = word_of_nat (of_char c)"

definition bytes_of :: "string \<Rightarrow> bytes" where
  "bytes_of s = map byte_of s"

definition to_ascii_lowercase :: "byte \<Rightarrow> byte" where
  "to_ascii_lowercase b = (if 65 \<le> b \<and> b \<le> 90 then b + 32 else b)"

definition eq_ignore_ascii_case :: "byte \<Rightarrow> byte \<Rightarrow> bool" where
  "eq_ignore_ascii_case a b \<longleftrightarrow> to_ascii_lowercase a = to_ascii_lowercase b"

definition is_ascii_alphanumeric :: "byte \<Rightarrow> bool" where
  "is_ascii_alphanumeric b \<longleftrightarrow>
     (48 \<le> b \<and> b \<le> 57) \<or> (65 \<le> b \<and> b \<le> 90) \<or> (97 \<le> b \<and> b \<le> 122)"

lemma to_ascii_lowercase_idem: "to_ascii_lowercase (to_ascii_lowercase b) = to_ascii_lowercase b"
proof (cases "65 \<le> b \<and> b \<le> 90")
  case True
  then have "\<not> (65 \<le> b + 32 \<and> b + 32 \<le> 90)" by unat_arith
  with True show ?thesis by (simp add: to_ascii_lowercase_def)
next
  case False
  then show ?thesis by (simp add: to_ascii_lowercase_def)
qed

text \<open>A lowercase hexadecimal digit, as \<^verbatim>\<open>{:x}\<close> writes it.\<close>

definition hex_char :: "nat \<Rightarrow> char" where
  "hex_char n = char_of (if n < 10 then 48 + n else 87 + n)"

lemma of_char_hex_char: "n < 16 \<Longrightarrow> of_char (hex_char n) = (if n < 10 then 48 + n else 87 + n :: nat)"
  by (simp add: hex_char_def)

lemma digit_value_hex_char: "n < 16 \<Longrightarrow> digit_value (hex_char n) = n"
  by (simp add: digit_value_def of_char_hex_char Let_def)

lemma nibbles_bound: "unat (b :: byte) div 16 < 16" "unat b mod 16 < 16"
  using unat_byte_less [of b] by (simp_all only: less_mult_imp_div_less mod_less_divisor)

section \<open>Lists\<close>

lemma sum_list_mono_pointwise:
  "(\<And>x. x \<in> set xs \<Longrightarrow> (f x :: nat) \<le> g x) \<Longrightarrow> sum_list (map f xs) \<le> sum_list (map g xs)"
  by (induction xs) (auto intro: add_mono)

lemma sum_list_concat_map:
  "sum_list (map f (concat (map g xs))) = sum_list (map (\<lambda>x. sum_list (map f (g x))) xs)"
  by (induction xs) auto

lemma member_le_sum_list_map: "x \<in> set xs \<Longrightarrow> (f x :: nat) \<le> sum_list (map f xs)"
  by (induction xs) auto

end
