(* ===== verification/Logical.thy ===== *)
theory Logical
  imports Prelude
begin

text \<open>
  The logical expression of a ClamAV \<^verbatim>\<open>.ldb\<close> signature (\<^verbatim>\<open>src/clamdb/logical.rs\<close>): the expression
  type, its recursive-descent parser, its evaluation over sub-signature counts and the bound on
  the fixed bytes it requires. The parser's cursor (\<^verbatim>\<open>bytes\<close>, \<^verbatim>\<open>at\<close>) is the text still to be read;
  every parsing function returns what it read and what is left. Its termination is proved from
  the fact that every atom consumes at least one character.

  The lemmas show that parsing yields well-formed expressions within the limits, that printing
  and parsing are inverse on them, what an expression that holds says about the sub-signatures
  that matched, and when it is monotone in the counts.
\<close>

section \<open>Expressions\<close>

definition MAX_EXPRESSION_BYTES :: nat where "MAX_EXPRESSION_BYTES = 512"
definition MAX_SUBSIGNATURES :: nat where "MAX_SUBSIGNATURES = 64"
definition MAX_DEPTH :: nat where "MAX_DEPTH = 16"

lemmas logical_limits = MAX_EXPRESSION_BYTES_def MAX_SUBSIGNATURES_def MAX_DEPTH_def

datatype compare = Greater | Less | Equal

fun compare_holds :: "compare \<Rightarrow> nat \<Rightarrow> nat \<Rightarrow> bool" where
  "compare_holds Greater v l \<longleftrightarrow> v > l"
| "compare_holds Less v l \<longleftrightarrow> v < l"
| "compare_holds Equal v l \<longleftrightarrow> v = l"

datatype expr =
    Seen nat
  | Count nat compare nat
  | All "expr list"
  | Any "expr list"
  | Total "nat list" compare nat "nat option"

fun subsignatures :: "expr \<Rightarrow> nat list" where
  "subsignatures (Seen s) = [s]"
| "subsignatures (Count s c l) = [s]"
| "subsignatures (All es) = concat (map subsignatures es)"
| "subsignatures (Any es) = concat (map subsignatures es)"
| "subsignatures (Total subs c l d) = subs"

text \<open>A slice read that defaults to zero: \<^verbatim>\<open>counts.get(sub).copied().unwrap_or(0)\<close>.\<close>

definition at0 :: "nat list \<Rightarrow> nat \<Rightarrow> nat" where
  "at0 xs i = (if i < length xs then xs ! i else 0)"

fun holds :: "expr \<Rightarrow> nat list \<Rightarrow> bool" where
  "holds (Seen s) counts \<longleftrightarrow> at0 counts s > 0"
| "holds (Count s c l) counts \<longleftrightarrow> compare_holds c (at0 counts s) l"
| "holds (All es) counts \<longleftrightarrow> (\<forall>e \<in> set es. holds e counts)"
| "holds (Any es) counts \<longleftrightarrow> (\<exists>e \<in> set es. holds e counts)"
| "holds (Total subs c l d) counts \<longleftrightarrow>
     (let total = foldl (\<lambda>sum s. saturating_add u32_max sum (at0 counts s)) 0 subs;
          matched = length (filter (\<lambda>s. at0 counts s > 0) subs) mod 2 ^ 32
      in compare_holds c total l \<and> (case d of None \<Rightarrow> True | Some least \<Rightarrow> matched \<ge> least))"

text \<open>\<^verbatim>\<open>Iterator::min\<close> with \<^verbatim>\<open>unwrap_or(0)\<close>.\<close>

fun min_or_0 :: "nat list \<Rightarrow> nat" where
  "min_or_0 [] = 0"
| "min_or_0 [x] = x"
| "min_or_0 (x # y # ys) = min x (min_or_0 (y # ys))"

fun required_bytes :: "expr \<Rightarrow> nat list \<Rightarrow> nat" where
  "required_bytes (Seen s) fixed = at0 fixed s"
| "required_bytes (Count s c l) fixed =
     (case c of Greater \<Rightarrow> at0 fixed s | Equal \<Rightarrow> (if l > 0 then at0 fixed s else 0) | Less \<Rightarrow> 0)"
| "required_bytes (All es) fixed = sum_list (map (\<lambda>e. required_bytes e fixed) es)"
| "required_bytes (Any es) fixed = min_or_0 (map (\<lambda>e. required_bytes e fixed) es)"
| "required_bytes (Total subs c l d) fixed =
     (case c of Greater \<Rightarrow> min_or_0 (map (at0 fixed) subs) | _ \<Rightarrow> 0)"

section \<open>The parser\<close>

type_synonym 'a parser = "string \<Rightarrow> ('a \<times> string) option"

definition peek :: "string \<Rightarrow> char option" where
  "peek s = (case s of [] \<Rightarrow> None | c # _ \<Rightarrow> Some c)"

definition number :: "nat parser" where
  "number s =
     (let ds = takeWhile is_ascii_digit s in
      if ds = [] \<or> length ds > 9 then None
      else do { n \<leftarrow> from_str_radix 10 u32_max ds; Some (n, drop (length ds) s) })"

definition compare_of :: "char option \<Rightarrow> compare option" where
  "compare_of c =
     (if c = Some (CHR ''>'') then Some Greater
      else if c = Some (CHR ''<'') then Some Less
      else if c = Some (CHR ''='') then Some Equal else None)"

definition comparison :: "(compare \<times> nat \<times> nat option) option parser" where
  "comparison s =
     (case compare_of (peek s) of
        None \<Rightarrow> Some (None, s)
      | Some compare \<Rightarrow>
          do { (limit, s1) \<leftarrow> number (tl s);
               if peek s1 = Some (CHR '','')
               then do { (least, s2) \<leftarrow> number (tl s1);
                         Some (Some (compare, limit, Some least), s2) }
               else Some (Some (compare, limit, None), s1) })"

text \<open>\<^verbatim>\<open>sort_unstable\<close> and \<^verbatim>\<open>dedup\<close> on the collected sub-signatures.\<close>

definition sort_dedup :: "nat list \<Rightarrow> nat list" where
  "sort_dedup xs = remdups_adj (sort xs)"

text \<open>
  \<^verbatim>\<open>expression\<close> reads atoms joined by one kind of operator, \<^verbatim>\<open>more_items\<close> is its \<^verbatim>\<open>while let\<close> loop, and
  \<^verbatim>\<open>atom\<close> a group or a numbered sub-signature, each with an optional comparison.
\<close>

function (sequential)
    expression :: "nat \<Rightarrow> expr parser"
and more_items :: "nat \<Rightarrow> char option \<Rightarrow> expr list \<Rightarrow> (char option \<times> expr list) parser"
and atom :: "nat \<Rightarrow> expr parser" where
  "expression depth s =
     (if depth > MAX_DEPTH then None
      else case atom depth s of
        None \<Rightarrow> None
      | Some (e, s1) \<Rightarrow>
          (case more_items depth None [e] s1 of
             None \<Rightarrow> None
           | Some ((joiner, items), s2) \<Rightarrow>
               (case joiner of
                  None \<Rightarrow> (if items = [] then None else Some (last items, s2))
                | Some c \<Rightarrow> if c = CHR ''&'' then Some (All items, s2) else Some (Any items, s2))))"
| "more_items depth joiner items s =
     (case s of
        [] \<Rightarrow> Some ((joiner, items), s)
      | c # s1 \<Rightarrow>
          if c = CHR ''&'' \<or> c = CHR ''|'' then
            (if joiner \<noteq> None \<and> joiner \<noteq> Some c then None
             else case atom depth s1 of
               None \<Rightarrow> None
             | Some (e, s2) \<Rightarrow> more_items depth (Some c) (items @ [e]) s2)
          else Some ((joiner, items), s))"
| "atom depth s =
     (if peek s = Some (CHR ''('') then
        (case expression (depth + 1) (tl s) of
           None \<Rightarrow> None
         | Some (inner, s1) \<Rightarrow>
             if peek s1 \<noteq> Some (CHR '')'') then None
             else case comparison (tl s1) of
               None \<Rightarrow> None
             | Some (None, s2) \<Rightarrow> Some (inner, s2)
             | Some (Some (compare, limit, least), s2) \<Rightarrow>
                 Some (Total (sort_dedup (subsignatures inner)) compare limit least, s2))
      else case number s of
        None \<Rightarrow> None
      | Some (sub, s1) \<Rightarrow>
          if sub \<ge> MAX_SUBSIGNATURES then None
          else case comparison s1 of
            None \<Rightarrow> None
          | Some (None, s2) \<Rightarrow> Some (Seen sub, s2)
          | Some (Some (_, _, Some _), s2) \<Rightarrow> None
          | Some (Some (compare, limit, None), s2) \<Rightarrow> Some (Count sub compare limit, s2))"
  by pat_completeness auto

lemma number_consumes: "number s = Some (n, r) \<Longrightarrow> length r < length s"
  by (cases s) (auto simp: number_def Let_def bind_eq_Some_conv split: if_splits)

lemma comparison_shrinks: "comparison s = Some (c, r) \<Longrightarrow> length r \<le> length s"
  by (cases s)
     (auto simp: comparison_def peek_def bind_eq_Some_conv split: option.splits if_splits list.splits
       dest!: number_consumes)

lemma atom_consumes_if_inner_does:
  assumes atom: "atom depth s = Some (e, r)"
    and dom: "expression_more_items_atom_dom (Inr (Inr (depth, s)))"
    and inner: "\<And>e' r'. peek s = Some (CHR ''('') \<Longrightarrow>
                 expression (depth + 1) (tl s) = Some (e', r') \<Longrightarrow> length r' < length (tl s)"
  shows "length r < length s"
proof (cases "peek s = Some (CHR ''('')")
  case True
  with atom obtain e' r1 c where e: "expression (depth + 1) (tl s) = Some (e', r1)"
    and c: "comparison (tl r1) = Some (c, r)"
    by (auto simp: atom.psimps [OF dom] split: if_splits option.splits)
  from inner [OF True e] comparison_shrinks [OF c] show ?thesis by simp
next
  case False
  with atom obtain n r1 c where "number s = Some (n, r1)" "comparison r1 = Some (c, r)"
    by (auto simp: atom.psimps [OF dom] split: if_splits option.splits)
  then show ?thesis by (fastforce dest: number_consumes comparison_shrinks)
qed

lemma expression_dom_consumes:
  "expression_more_items_atom_dom (Inl (depth, s)) \<Longrightarrow>
     (\<forall>e r. expression depth s = Some (e, r) \<longrightarrow> length r < length s)"
  "expression_more_items_atom_dom (Inr (Inl (depth, joiner, items, s))) \<Longrightarrow>
     (\<forall>ji r. more_items depth joiner items s = Some (ji, r) \<longrightarrow> length r \<le> length s)"
  "expression_more_items_atom_dom (Inr (Inr (depth, s))) \<Longrightarrow>
     (\<forall>e r. atom depth s = Some (e, r) \<longrightarrow> length r < length s)"
proof (induction rule: expression_more_items_atom.pinduct)
  case (1 depth s)
  show ?case
  proof (intro allI impI)
    fix e r assume "expression depth s = Some (e, r)"
    then obtain a s1 ji where "\<not> depth > MAX_DEPTH" "atom depth s = Some (a, s1)"
      "more_items depth None [a] s1 = Some (ji, r)"
      by (auto simp: expression.psimps [OF 1(1)] split: if_splits option.splits prod.splits)
    with 1(2,3) show "length r < length s" by fastforce
  qed
next
  case (2 depth joiner items s)
  show ?case
  proof (intro allI impI)
    fix ji r assume m: "more_items depth joiner items s = Some (ji, r)"
    show "length r \<le> length s"
    proof (cases "\<exists>c s1. s = c # s1 \<and> (c = CHR ''&'' \<or> c = CHR ''|'')")
      case True
      then obtain c s1 where s: "s = c # s1" "c = CHR ''&'' \<or> c = CHR ''|''" by blast
      with m obtain a s2 where g: "\<not> (joiner \<noteq> None \<and> joiner \<noteq> Some c)" "atom depth s1 = Some (a, s2)"
        "more_items depth (Some c) (items @ [a]) s2 = Some (ji, r)"
        using 2(1) by (auto simp: more_items.psimps split: if_splits option.splits prod.splits)
      have "length s2 < length s1" using 2(2) [OF s g(1)] g(2) by blast
      moreover have "length r \<le> length s2" using 2(3) [OF s g(1) g(2)] g(3) by blast
      ultimately show ?thesis using s by simp
    next
      case False
      with m show ?thesis
        by (auto simp: more_items.psimps [OF 2(1)] split: list.splits)
    qed
  qed
next
  case (3 depth s)
  then show ?case
    using atom_consumes_if_inner_does [OF _ 3(1)] by blast
qed

termination expression
proof (relation "measure (\<lambda>x. case x of
      Inl (depth, s) \<Rightarrow> 2 * length s + 1
    | Inr (Inl (depth, joiner, items, s)) \<Rightarrow> 2 * length s + 1
    | Inr (Inr (depth, s)) \<Rightarrow> 2 * length s)", goal_cases)
  case 1
  then show ?case by simp
next
  case (2 depth s)
  then show ?case by simp
next
  case (3 depth s x a s1)
  then show ?case using expression_dom_consumes(3) [of depth s] by auto
next
  case (4 depth joiner items s c s1)
  then show ?case by simp
next
  case (5 depth joiner items s c s1 x a s2)
  then show ?case using expression_dom_consumes(3) [of depth s1] by auto
next
  case (6 depth s)
  then show ?case by (auto simp: peek_def split: list.splits)
qed

declare expression.simps [simp del] more_items.simps [simp del] atom.simps [simp del]

definition parse :: "string \<Rightarrow> expr option" where
  "parse text =
     (if text = [] \<or> length text > MAX_EXPRESSION_BYTES then None
      else case expression 0 text of
        None \<Rightarrow> None
      | Some (e, rest) \<Rightarrow> if rest = [] then Some e else None)"

text \<open>The rules that evaluate the parser on a concrete text.\<close>

lemmas logical_eval =
  parse_def logical_limits expression.simps more_items.simps atom.simps peek_def number_def
  is_ascii_digit_def from_str_radix_def digit_value_def u32_max_def Let_def comparison_def
  compare_of_def sort_dedup_def

section \<open>What the parser yields\<close>

fun wf_expr :: "expr \<Rightarrow> bool" where
  "wf_expr (Seen s) \<longleftrightarrow> s < MAX_SUBSIGNATURES"
| "wf_expr (Count s c l) \<longleftrightarrow> s < MAX_SUBSIGNATURES \<and> l < 10 ^ 9"
| "wf_expr (All es) \<longleftrightarrow> 2 \<le> length es \<and> (\<forall>e \<in> set es. wf_expr e)"
| "wf_expr (Any es) \<longleftrightarrow> 2 \<le> length es \<and> (\<forall>e \<in> set es. wf_expr e)"
| "wf_expr (Total subs c l d) \<longleftrightarrow>
     subs \<noteq> [] \<and> sorted subs \<and> distinct subs \<and> (\<forall>s \<in> set subs. s < MAX_SUBSIGNATURES) \<and>
     l < 10 ^ 9 \<and> (\<forall>m. d = Some m \<longrightarrow> m < 10 ^ 9)"

text \<open>How deep the parentheses of an expression nest, as an atom and as a whole expression.\<close>

fun atom_nest :: "expr \<Rightarrow> nat" where
  "atom_nest (Seen s) = 0"
| "atom_nest (Count s c l) = 0"
| "atom_nest (All es) = Suc (Max (insert 0 (set (map atom_nest es))))"
| "atom_nest (Any es) = Suc (Max (insert 0 (set (map atom_nest es))))"
| "atom_nest (Total subs c l d) = 1"

definition expr_nest :: "expr \<Rightarrow> nat" where
  "expr_nest e = (case e of All es \<Rightarrow> atom_nest e - 1 | Any es \<Rightarrow> atom_nest e - 1 | _ \<Rightarrow> atom_nest e)"

lemma atom_nest_le_expr_nest: "atom_nest e \<le> Suc (expr_nest e)"
  by (cases e) (auto simp: expr_nest_def)

lemma digits_value_bound:
  "digits_value 10 acc ds = Some n \<Longrightarrow> n < (acc + 1) * 10 ^ length ds"
proof (induction ds arbitrary: acc)
  case Nil
  then show ?case by simp
next
  case (Cons d ds)
  then have "n < (10 * acc + digit_value d + 1) * 10 ^ length ds" "digit_value d < 10"
    by (auto split: if_splits)
  moreover from this have "10 * acc + digit_value d + 1 \<le> (acc + 1) * 10" by simp
  ultimately show ?case
    by (metis (no_types, lifting) length_Cons less_le_trans mult.assoc mult_le_mono1 power_Suc)
qed

lemma digit_not_plus: "is_ascii_digit c \<Longrightarrow> c \<noteq> CHR ''+''"
  by (auto simp: is_ascii_digit_def)

lemma number_bound:
  assumes "number s = Some (n, r)"
  shows "n < 10 ^ 9"
proof -
  define ds where "ds = takeWhile is_ascii_digit s"
  from assms have ds: "ds \<noteq> []" "length ds \<le> 9" and f: "from_str_radix 10 u32_max ds = Some n"
    by (auto simp: number_def ds_def Let_def bind_eq_Some_conv split: if_splits)
  have "is_ascii_digit (hd ds)"
    using ds(1) unfolding ds_def by (meson hd_in_set set_takeWhileD)
  with f ds(1) have "digits_value 10 0 ds = Some n"
    by (auto simp: from_str_radix_def Let_def neq_Nil_conv dest: digit_not_plus
        split: option.splits if_splits)
  from digits_value_bound [OF this] have "n < 10 ^ length ds" by simp
  also have "\<dots> \<le> 10 ^ 9" using ds(2) by (rule power_increasing) simp
  finally show ?thesis .
qed

lemma comparison_bounds:
  "comparison s = Some (Some (c, l, d), r) \<Longrightarrow> l < 10 ^ 9 \<and> (\<forall>m. d = Some m \<longrightarrow> m < 10 ^ 9)"
  by (auto simp: comparison_def bind_eq_Some_conv split: option.splits if_splits
      dest!: number_bound)

lemma sorted_distinct_remdups_adj: "sorted xs \<Longrightarrow> distinct (remdups_adj (xs :: nat list))"
  by (induction xs rule: remdups_adj.induct) (auto simp: less_le)

lemma sorted_distinct_sort_dedup: "sorted (sort_dedup xs) \<and> distinct (sort_dedup xs)"
  by (simp add: sort_dedup_def sorted_distinct_remdups_adj)

lemma set_sort_dedup [simp]: "set (sort_dedup xs) = set xs"
  by (simp add: sort_dedup_def)

lemma sort_dedup_id: "sorted xs \<Longrightarrow> distinct xs \<Longrightarrow> sort_dedup xs = xs"
  by (simp add: sort_dedup_def sorted_sort_id remdups_adj_distinct)

lemma wf_expr_subsignatures:
  "wf_expr e \<Longrightarrow> subsignatures e \<noteq> [] \<and> (\<forall>s \<in> set (subsignatures e). s < MAX_SUBSIGNATURES)"
proof (induction e)
  case (All es)
  then obtain e es' where "es = e # es'" by (cases es) auto
  with All show ?case by auto
next
  case (Any es)
  then obtain e es' where "es = e # es'" by (cases es) auto
  with Any show ?case by auto
qed auto

lemma atom_wf_if_inner_is:
  assumes atom: "atom depth s = Some (e, r)"
    and inner: "\<And>e' r'. peek s = Some (CHR ''('') \<Longrightarrow>
                 expression (depth + 1) (tl s) = Some (e', r') \<Longrightarrow> wf_expr e' \<and> Suc depth + expr_nest e' \<le> MAX_DEPTH"
    and depth: "depth \<le> MAX_DEPTH"
  shows "wf_expr e \<and> depth + atom_nest e \<le> MAX_DEPTH"
proof (cases "peek s = Some (CHR ''('')")
  case True
  with atom obtain e' r1 c where e': "expression (depth + 1) (tl s) = Some (e', r1)"
    and c: "comparison (tl r1) = Some (c, r)"
    and e: "e = (case c of None \<Rightarrow> e' | Some (cmp, l, d) \<Rightarrow>
                  Total (sort_dedup (subsignatures e')) cmp l d)"
    by (auto simp: atom.simps [of depth s] split: if_splits option.splits)
  from inner [OF True e'] have w: "wf_expr e'" "Suc depth + expr_nest e' \<le> MAX_DEPTH" by auto
  show ?thesis
  proof (cases c)
    case None
    with w e atom_nest_le_expr_nest [of e'] show ?thesis by simp
  next
    case (Some t)
    with w e c show ?thesis
      using wf_expr_subsignatures [OF w(1)] sorted_distinct_sort_dedup [of "subsignatures e'"]
        set_sort_dedup [of "subsignatures e'"] comparison_bounds [of "tl r1"]
      by (cases t) (auto simp del: set_sort_dedup)
  qed
next
  case False
  with atom depth show ?thesis
    by (auto simp: atom.simps [of depth s] split: if_splits option.splits dest!: comparison_bounds)
qed

lemma parser_wf:
  "expression depth s = Some (e, r) \<Longrightarrow> wf_expr e \<and> depth + expr_nest e \<le> MAX_DEPTH"
  "more_items depth joiner items s = Some ((j, items'), r) \<Longrightarrow> depth \<le> MAX_DEPTH \<Longrightarrow>
     (\<exists>new. items' = items @ new \<and> (\<forall>e \<in> set new. wf_expr e \<and> depth + atom_nest e \<le> MAX_DEPTH)
        \<and> (new = [] \<longrightarrow> j = joiner) \<and> (j = None \<longrightarrow> new = []))"
  "atom depth s = Some (e, r) \<Longrightarrow> depth \<le> MAX_DEPTH \<Longrightarrow> wf_expr e \<and> depth + atom_nest e \<le> MAX_DEPTH"
proof (induction depth s and depth joiner items s and depth s arbitrary: e r and j items' r and e r
    rule: expression_more_items_atom.induct)
  case (1 depth s)
  from "1.prems" obtain a s1 j items where d: "\<not> MAX_DEPTH < depth"
    and a: "atom depth s = Some (a, s1)"
    and m: "more_items depth None [a] s1 = Some ((j, items), r)"
    and e: "(case j of None \<Rightarrow> items \<noteq> [] \<and> e = last items
             | Some c \<Rightarrow> e = (if c = CHR ''&'' then All items else Any items))"
    by (auto simp: expression.simps [of depth s] split: if_splits option.splits)
  have A: "wf_expr a \<and> depth + atom_nest a \<le> MAX_DEPTH"
    using "1.IH"(1) [OF d a] d by simp
  obtain new where N: "items = [a] @ new" "\<forall>e \<in> set new. wf_expr e \<and> depth + atom_nest e \<le> MAX_DEPTH"
    "new = [] \<longrightarrow> j = None" "j = None \<longrightarrow> new = []"
    using "1.IH"(2) [OF d a refl m] d by (meson not_less)
  show ?case
  proof (cases j)
    case None
    with N e A show ?thesis by (cases a) (auto simp: expr_nest_def)
  next
    case (Some c)
    with N have "new \<noteq> []" by auto
    then have "2 \<le> length items" using N(1) by (cases new) auto
    moreover have "depth + Max (insert 0 (set (map atom_nest items))) \<le> MAX_DEPTH"
    proof -
      have "Max (insert 0 (set (map atom_nest items))) \<le> MAX_DEPTH - depth"
        using A N(1,2) by (subst Max_le_iff) auto
      with d show ?thesis by linarith
    qed
    ultimately show ?thesis using Some e A N(1,2) by (auto simp: expr_nest_def split: if_splits)
  qed
next
  case (2 depth joiner items s)
  show ?case
  proof (cases "\<exists>c s1. s = c # s1 \<and> (c = CHR ''&'' \<or> c = CHR ''|'')")
    case True
    then obtain c s1 where s: "s = c # s1" "c = CHR ''&'' \<or> c = CHR ''|''" by blast
    with "2.prems" obtain a s2 where g: "\<not> (joiner \<noteq> None \<and> joiner \<noteq> Some c)"
      "atom depth s1 = Some (a, s2)"
      "more_items depth (Some c) (items @ [a]) s2 = Some ((j, items'), r)"
      by (auto simp: more_items.simps [of depth joiner items "c # s1"] split: if_splits option.splits)
    obtain new where N: "items' = (items @ [a]) @ new"
      "\<forall>e \<in> set new. wf_expr e \<and> depth + atom_nest e \<le> MAX_DEPTH"
      "new = [] \<longrightarrow> j = Some c" "j = None \<longrightarrow> new = []"
      using "2.IH"(2) [OF s g(1,2) refl g(3) "2.prems"(2)] by blast
    have A: "wf_expr a \<and> depth + atom_nest a \<le> MAX_DEPTH"
      by (rule "2.IH"(1) [OF s g(1,2) "2.prems"(2)])
    have "j \<noteq> None" using N(3,4) by (cases "new = []") auto
    with N(1,2) A show ?thesis by (intro exI [of _ "a # new"]) simp
  next
    case False
    with "2.prems" show ?thesis
      by (auto simp: more_items.simps [of depth joiner items s] split: list.splits)
  qed
next
  case (3 depth s)
  show ?case
  proof (rule atom_wf_if_inner_is [OF "3.prems"(1) _ "3.prems"(2)])
    fix e' r' assume "peek s = Some (CHR ''('')" "expression (depth + 1) (tl s) = Some (e', r')"
    from "3.IH" [OF this] show "wf_expr e' \<and> Suc depth + expr_nest e' \<le> MAX_DEPTH" by simp
  qed
qed

section \<open>Printing\<close>

fun join :: "char \<Rightarrow> string list \<Rightarrow> string" where
  "join c [] = []"
| "join c (x # xs) = x @ concat (map (\<lambda>y. c # y) xs)"

fun show_compare :: "compare \<Rightarrow> char" where
  "show_compare Greater = CHR ''>''"
| "show_compare Less = CHR ''<''"
| "show_compare Equal = CHR ''=''"

definition show_limit :: "compare \<Rightarrow> nat \<Rightarrow> nat option \<Rightarrow> string" where
  "show_limit c l d =
     show_compare c # show_nat l @ (case d of None \<Rightarrow> [] | Some m \<Rightarrow> CHR '','' # show_nat m)"

fun show_atom :: "expr \<Rightarrow> string" where
  "show_atom (Seen s) = show_nat s"
| "show_atom (Count s c l) = show_nat s @ show_limit c l None"
| "show_atom (All es) = CHR ''('' # join (CHR ''&'') (map show_atom es) @ [CHR '')'']"
| "show_atom (Any es) = CHR ''('' # join (CHR ''|'') (map show_atom es) @ [CHR '')'']"
| "show_atom (Total subs c l d) =
     CHR ''('' # join (CHR ''|'') (map show_nat subs) @ CHR '')'' # show_limit c l d"

fun show_expr :: "expr \<Rightarrow> string" where
  "show_expr (All es) = join (CHR ''&'') (map show_atom es)"
| "show_expr (Any es) = join (CHR ''|'') (map show_atom es)"
| "show_expr e = show_atom e"

text \<open>What may follow an atom, and what may follow a whole expression.\<close>

definition after_atom :: "string \<Rightarrow> bool" where
  "after_atom r \<longleftrightarrow> r = [] \<or> hd r \<in> set ''&|)''"

definition after_expr :: "string \<Rightarrow> bool" where
  "after_expr r \<longleftrightarrow> r = [] \<or> hd r = CHR '')''"

lemma takeWhile_show_nat:
  "\<not> (r \<noteq> [] \<and> is_ascii_digit (hd r)) \<Longrightarrow> takeWhile is_ascii_digit (show_nat n @ r) = show_nat n"
  using show_nat_digits [of n]
  by (cases r) (auto simp: list_all_iff takeWhile_append)

lemma hd_show_nat: "is_ascii_digit (hd (show_nat n))"
  using show_nat_digits [of n] by (cases "show_nat n") auto

lemma number_show_nat:
  assumes "n < 10 ^ 9" "\<not> (r \<noteq> [] \<and> is_ascii_digit (hd r))"
  shows "number (show_nat n @ r) = Some (n, r)"
proof -
  have "length (show_nat n) \<le> 9" using assms(1) by (rule length_show_nat) simp
  moreover have "from_str_radix 10 u32_max (show_nat n) = Some n"
    using assms(1) hd_show_nat [of n] digits_value_show_nat [of n]
    by (cases "show_nat n")
       (auto simp: from_str_radix_def Let_def u32_max_def dest: digit_not_plus)
  ultimately show ?thesis
    by (simp add: number_def takeWhile_show_nat [OF assms(2)] Let_def)
qed

lemma after_atom_cases:
  "after_atom r \<Longrightarrow> \<not> (r \<noteq> [] \<and> is_ascii_digit (hd r)) \<and> compare_of (peek r) = None \<and> peek r \<noteq> Some (CHR '','')"
  by (cases r) (auto simp: after_atom_def is_ascii_digit_def compare_of_def peek_def)

lemma comparison_none: "after_atom r \<Longrightarrow> comparison r = Some (None, r)"
  by (simp add: comparison_def after_atom_cases)

lemma comparison_show_limit:
  assumes "l < 10 ^ 9" "\<And>m. d = Some m \<Longrightarrow> m < 10 ^ 9" "after_atom r"
  shows "comparison (show_limit c l d @ r) = Some (Some (c, l, d), r)"
proof (cases d)
  case None
  with assms after_atom_cases [OF assms(3)] show ?thesis
    by (cases c) (auto simp: comparison_def show_limit_def peek_def compare_of_def number_show_nat
        split: list.splits)
next
  case (Some m)
  have "\<not> is_ascii_digit (CHR '','')" by (simp add: is_ascii_digit_def)
  with Some assms after_atom_cases [OF assms(3)] show ?thesis
    by (cases c) (auto simp: comparison_def show_limit_def peek_def compare_of_def number_show_nat)
qed

lemma show_limit_head: "\<not> (show_limit c l d @ r \<noteq> [] \<and> is_ascii_digit (hd (show_limit c l d @ r)))"
  by (cases c) (auto simp: show_limit_def is_ascii_digit_def)

lemma peek_show_nat: "peek (show_nat n @ r) \<noteq> Some (CHR ''('')"
  using hd_show_nat [of n] by (cases "show_nat n") (auto simp: peek_def is_ascii_digit_def)

lemma atom_show_numbered:
  assumes "n < MAX_SUBSIGNATURES" "after_atom r"
  shows "atom depth (show_nat n @ r) = Some (Seen n, r)"
    and "l < 10 ^ 9 \<Longrightarrow> atom depth (show_nat n @ show_limit c l None @ r) = Some (Count n c l, r)"
proof -
  have n: "n < 10 ^ 9" using assms(1) by (simp add: MAX_SUBSIGNATURES_def)
  show "atom depth (show_nat n @ r) = Some (Seen n, r)"
    using assms after_atom_cases [OF assms(2)] n
    by (simp add: atom.simps peek_show_nat number_show_nat comparison_none)
  show "atom depth (show_nat n @ show_limit c l None @ r) = Some (Count n c l, r)" if "l < 10 ^ 9"
    using assms that n show_limit_head [of c l None r] comparison_show_limit [of l None r c]
    by (simp add: atom.simps peek_show_nat number_show_nat)
qed

text \<open>
  Reading items joined by one operator, given that each item's atom reads back: the step every
  group and every top-level expression takes.
\<close>

lemma more_items_show:
  assumes "c = CHR ''&'' \<or> c = CHR ''|''" "after_expr r" "j = None \<or> j = Some c"
    and "\<And>e r'. e \<in> set es \<Longrightarrow> after_atom r' \<Longrightarrow> atom depth (show_atom e @ r') = Some (e, r')"
  shows "more_items depth j items (concat (map (\<lambda>e. c # show_atom e) es) @ r) =
           Some ((if es = [] then j else Some c, items @ es), r)"
  using assms(3,4)
proof (induction es arbitrary: j items)
  case Nil
  then show ?case
    using assms(2) by (auto simp: more_items.simps after_expr_def split: list.splits)
next
  case (Cons e es)
  have aft: "after_atom (concat (map (\<lambda>e. c # show_atom e) es) @ r)"
    using assms(1,2) by (cases es) (auto simp: after_atom_def after_expr_def)
  have step: "atom depth (show_atom e @ concat (map (\<lambda>e. c # show_atom e) es) @ r) =
      Some (e, concat (map (\<lambda>e. c # show_atom e) es) @ r)"
    using Cons.prems(2) [of e, OF _ aft] by simp
  have rest: "more_items depth (Some c) (items @ [e]) (concat (map (\<lambda>e. c # show_atom e) es) @ r) =
      Some ((Some c, (items @ [e]) @ es), r)"
    using Cons.IH [of "Some c" "items @ [e]"] Cons.prems(2) by auto
  from Cons.prems(1) assms(1) step rest show ?case
    by (auto simp: more_items.simps [of depth j items "c # _"])
qed

lemma expression_show_joined:
  assumes "c = CHR ''&'' \<or> c = CHR ''|''" "after_expr r" "2 \<le> length es" "depth \<le> MAX_DEPTH"
    and items: "\<And>e r'. e \<in> set es \<Longrightarrow> after_atom r' \<Longrightarrow> atom depth (show_atom e @ r') = Some (e, r')"
  shows "expression depth (join c (map show_atom es) @ r) =
           Some (if c = CHR ''&'' then All es else Any es, r)"
proof -
  from assms(3) obtain e es' where es: "es = e # es'" "es' \<noteq> []" by (cases es; cases "tl es") auto
  let ?rest = "concat (map (\<lambda>e. c # show_atom e) es') @ r"
  have "after_atom ?rest"
    using es(2) assms(1) by (cases es') (auto simp: after_atom_def)
  then have "atom depth (show_atom e @ ?rest) = Some (e, ?rest)" using items es by simp
  moreover have "more_items depth None [e] ?rest = Some ((Some c, [e] @ es'), r)"
    using more_items_show [OF assms(1,2), of None es' depth "[e]"] items es by auto
  ultimately show ?thesis
    using es assms(4) by (simp add: expression.simps comp_def map_map)
qed

lemma atom_show_group:
  assumes "expression (depth + 1) (body @ CHR '')'' # r) = Some (e, CHR '')'' # r)"
    and "comparison r = Some (c, r')"
  shows "atom depth (CHR ''('' # body @ CHR '')'' # r) =
           Some (case c of None \<Rightarrow> e
                 | Some (cmp, l, d) \<Rightarrow> Total (sort_dedup (subsignatures e)) cmp l d, r')"
  using assms by (auto simp: atom.simps peek_def split: option.splits prod.splits)

lemma expression_show_subs:
  assumes "subs \<noteq> []" "\<forall>s \<in> set subs. s < MAX_SUBSIGNATURES" "after_expr r" "depth \<le> MAX_DEPTH"
  shows "\<exists>e. expression depth (join (CHR ''|'') (map show_nat subs) @ r) = Some (e, r) \<and>
             subsignatures e = subs"
proof (cases "tl subs = []")
  case True
  with assms(1) obtain n where n: "subs = [n]" by (cases subs) auto
  have "after_atom r" using assms(3) by (auto simp: after_atom_def after_expr_def)
  then have "atom depth (show_nat n @ r) = Some (Seen n, r)"
    using assms(2) n by (intro atom_show_numbered) auto
  moreover have "more_items depth None [Seen n] r = Some ((None, [Seen n]), r)"
    using more_items_show [of "CHR ''|''" r None "[]" depth "[Seen n]"] assms(3) by simp
  ultimately show ?thesis using n assms(4) by (simp add: expression.simps)
next
  case False
  let ?es = "map Seen subs"
  have "expression depth (join (CHR ''|'') (map show_atom ?es) @ r) = Some (Any ?es, r)"
  proof -
    have "2 \<le> length ?es" using assms(1) False by (cases subs; cases "tl subs") auto
    moreover have "atom depth (show_atom e @ r') = Some (e, r')"
      if "e \<in> set ?es" "after_atom r'" for e r'
      using that assms(2) atom_show_numbered(1) by auto
    ultimately show ?thesis
      using expression_show_joined [of "CHR ''|''" r ?es depth] assms(3,4) by simp
  qed
  then show ?thesis by (simp add: comp_def concat_map_singleton)
qed

lemma nest_member:
  assumes "d + Max (insert 0 (atom_nest ` set es)) \<le> m" "e \<in> set es"
  shows "d + atom_nest e \<le> m"
proof -
  have "atom_nest e \<le> Max (insert 0 (atom_nest ` set es))"
    by (rule Max_ge) (use assms(2) in auto)
  with assms(1) show ?thesis by linarith
qed

lemma atom_show:
  "wf_expr e \<Longrightarrow> depth + atom_nest e \<le> MAX_DEPTH \<Longrightarrow> after_atom r \<Longrightarrow>
     atom depth (show_atom e @ r) = Some (e, r)"
proof (induction e arbitrary: depth r)
  case (Seen n)
  then show ?case by (simp add: atom_show_numbered)
next
  case (Count n c l)
  then show ?case by (simp add: atom_show_numbered)
next
  case (All es)
  have "atom (depth + 1) (show_atom e @ r') = Some (e, r')" if "e \<in> set es" "after_atom r'" for e r'
    using All.IH [OF that(1), of "depth + 1" r'] All.prems that nest_member [OF _ that(1), of "Suc depth"] by simp
  then have "expression (depth + 1) (join (CHR ''&'') (map show_atom es) @ CHR '')'' # r) =
      Some (All es, CHR '')'' # r)"
    using expression_show_joined [of "CHR ''&''" "CHR '')'' # r" es "depth + 1"] All.prems
    by (auto simp: after_expr_def)
  from atom_show_group [OF this comparison_none [OF All.prems(3)]] show ?case by simp
next
  case (Any es)
  have "atom (depth + 1) (show_atom e @ r') = Some (e, r')" if "e \<in> set es" "after_atom r'" for e r'
    using Any.IH [OF that(1), of "depth + 1" r'] Any.prems that nest_member [OF _ that(1), of "Suc depth"] by simp
  then have "expression (depth + 1) (join (CHR ''|'') (map show_atom es) @ CHR '')'' # r) =
      Some (Any es, CHR '')'' # r)"
    using expression_show_joined [of "CHR ''|''" "CHR '')'' # r" es "depth + 1"] Any.prems
    by (auto simp: after_expr_def)
  from atom_show_group [OF this comparison_none [OF Any.prems(3)]] show ?case by simp
next
  case (Total subs c l d)
  let ?r = "show_limit c l d @ r"
  obtain e where e: "expression (depth + 1) (join (CHR ''|'') (map show_nat subs) @ CHR '')'' # ?r) =
      Some (e, CHR '')'' # ?r)" "subsignatures e = subs"
    using expression_show_subs [of subs "CHR '')'' # ?r" "depth + 1"] Total.prems
    by (auto simp: after_expr_def)
  have "comparison ?r = Some (Some (c, l, d), r)"
    using Total.prems by (intro comparison_show_limit) auto
  from atom_show_group [OF e(1) this] e(2) Total.prems show ?case
    by (simp add: sort_dedup_id)
qed

lemma expression_show:
  assumes "wf_expr e" "depth + expr_nest e \<le> MAX_DEPTH" "after_expr r"
  shows "expression depth (show_expr e @ r) = Some (e, r)"
proof -
  have single: "expression depth (show_atom e @ r) = Some (e, r)"
    if "show_expr e = show_atom e" "depth + atom_nest e \<le> MAX_DEPTH"
  proof -
    have "after_atom r" using assms(3) by (auto simp: after_atom_def after_expr_def)
    with atom_show [OF assms(1) that(2)] have "atom depth (show_atom e @ r) = Some (e, r)" by simp
    moreover have "more_items depth None [e] r = Some ((None, [e]), r)"
      using more_items_show [of "CHR ''|''" r None "[]" depth "[e]"] assms(3) by simp
    ultimately show ?thesis using that by (simp add: expression.simps)
  qed
  have items: "atom depth (show_atom x @ r') = Some (x, r')"
    if "e = All es \<or> e = Any es" "x \<in> set es" "after_atom r'" for es x r'
    using that assms(1,2) nest_member [OF _ that(2), of depth]
    by (intro atom_show) (auto simp: expr_nest_def)
  show ?thesis
  proof (cases e)
    case (All es)
    with items assms show ?thesis
      using expression_show_joined [of "CHR ''&''" r es depth] by auto
  next
    case (Any es)
    with items assms show ?thesis
      using expression_show_joined [of "CHR ''|''" r es depth] by auto
  qed (use single assms in \<open>auto simp: expr_nest_def\<close>)
qed

section \<open>What an expression that holds says\<close>

lemma min_or_0_le: "x \<in> set xs \<Longrightarrow> min_or_0 xs \<le> x"
  by (induction xs rule: min_or_0.induct) auto

lemma min_or_0_Nil: "xs = [] \<Longrightarrow> min_or_0 xs = 0"
  by simp

lemma foldl_saturating_pos:
  "foldl (\<lambda>sum s. saturating_add u32_max sum (f s)) a xs > 0 \<Longrightarrow> a > 0 \<or> (\<exists>s \<in> set xs. f s > 0)"
proof (induction xs arbitrary: a)
  case Nil
  then show ?case by simp
next
  case (Cons x xs)
  then have "saturating_add u32_max a (f x) > 0 \<or> (\<exists>s \<in> set xs. f s > 0)" by force
  then show ?case by (auto simp: saturating_add_pos u32_max_def)
qed

lemma foldl_saturating_mono:
  "(\<And>s. s \<in> set xs \<Longrightarrow> f s \<le> g s) \<Longrightarrow> a \<le> b \<Longrightarrow>
     foldl (\<lambda>sum s. saturating_add mx sum (f s)) a xs \<le> foldl (\<lambda>sum s. saturating_add mx sum (g s)) b xs"
  by (induction xs arbitrary: a b) (auto intro: saturating_add_mono)

text \<open>The fixed bytes of the sub-signatures that matched, over a list of references to them.\<close>

definition seen_bytes :: "nat list \<Rightarrow> nat list \<Rightarrow> nat list \<Rightarrow> nat" where
  "seen_bytes counts fixed subs = sum_list (map (\<lambda>s. if at0 counts s > 0 then at0 fixed s else 0) subs)"

lemma seen_bytes_concat:
  "seen_bytes counts fixed (concat (map f es)) = sum_list (map (\<lambda>e. seen_bytes counts fixed (f e)) es)"
  by (simp add: seen_bytes_def sum_list_concat_map)

lemma seen_bytes_member: "s \<in> set subs \<Longrightarrow> at0 counts s > 0 \<Longrightarrow> at0 fixed s \<le> seen_bytes counts fixed subs"
  using member_le_sum_list_map [of s subs "\<lambda>s. if at0 counts s > 0 then at0 fixed s else 0"]
  by (simp add: seen_bytes_def)

lemma required_bytes_seen:
  "holds e counts \<Longrightarrow> required_bytes e fixed \<le> seen_bytes counts fixed (subsignatures e)"
proof (induction e)
  case (Count s c l)
  then show ?case by (cases c) (auto simp: seen_bytes_def)
next
  case (All es)
  then show ?case by (auto simp: seen_bytes_concat intro: sum_list_mono_pointwise)
next
  case (Any es)
  then obtain e where e: "e \<in> set es" "holds e counts" by auto
  have "min_or_0 (map (\<lambda>e. required_bytes e fixed) es) \<le> required_bytes e fixed"
    using e(1) by (intro min_or_0_le) simp
  also have "\<dots> \<le> seen_bytes counts fixed (subsignatures e)" using Any.IH e by simp
  also have "\<dots> \<le> sum_list (map (\<lambda>e. seen_bytes counts fixed (subsignatures e)) es)"
    using e(1) by (rule member_le_sum_list_map)
  finally show ?case by (simp add: seen_bytes_concat)
next
  case (Total subs c l d)
  show ?case
  proof (cases c)
    case Greater
    with Total have "foldl (\<lambda>sum s. saturating_add u32_max sum (at0 counts s)) 0 subs > 0"
      by (auto simp: Let_def)
    from foldl_saturating_pos [OF this] obtain s where s: "s \<in> set subs" "at0 counts s > 0" by auto
    have "min_or_0 (map (at0 fixed) subs) \<le> at0 fixed s" using s(1) by (intro min_or_0_le) simp
    also have "\<dots> \<le> seen_bytes counts fixed subs" using s by (rule seen_bytes_member)
    finally show ?thesis using Greater by simp
  qed auto
qed (auto simp: seen_bytes_def)

text \<open>
  The strength bound is sound: whenever an expression holds, the sub-signatures it refers to
  that did match carry at least \<open>required_bytes\<close> fixed bytes, each reference counted. So a logical
  signature accepted because \<open>required_bytes\<close> reaches the floor can only convict a file in which
  sub-signatures of that total strength matched.
\<close>

theorem required_bytes_sound:
  "holds e counts \<Longrightarrow> required_bytes e fixed \<le> seen_bytes counts fixed (subsignatures e)"
  by (rule required_bytes_seen)

theorem required_bytes_sound_witness:
  "holds (All [Seen 0, Any [Seen 1, Seen 2]]) [1, 0, 4] \<and>
   required_bytes (All [Seen 0, Any [Seen 1, Seen 2]]) [10, 6, 4] = 14 \<and>
   14 \<le> seen_bytes [1, 0, 4] [10, 6, 4] [0, 1, 2]"
proof -
  have h: "holds (All [Seen 0, Any [Seen 1, Seen 2]]) [1, 0, 4]" by (simp add: at0_def)
  from required_bytes_sound [OF h, of "[10, 6, 4]"] h show ?thesis by (simp add: at0_def)
qed

text \<open>
  Because each reference counts, an expression that names one sub-signature twice is credited
  with twice its bytes: for \<^verbatim>\<open>0&0\<close> the bound is double what a file must contain. The comment on
  \<^verbatim>\<open>required_bytes\<close> calls it the number of fixed bytes a file must contain, which fails here: one
  match of the sub-signature satisfies the expression.
\<close>

theorem required_bytes_counts_references_twice:
  "\<exists>e. parse ''0&0'' = Some e \<and> holds e [1] \<and> required_bytes e [n] = 2 * n"
  by (rule exI [of _ "All [Seen 0, Seen 0]"]) (simp add: logical_eval at0_def)

section \<open>Parsing and printing\<close>

text \<open>
  Whatever \<open>parse\<close> accepts is well formed: every sub-signature number is below the limit, every
  conjunction and disjunction joins at least two items, every group total ranges over a sorted
  list of distinct sub-signatures, limits have at most nine digits, and parentheses nest at most
  \<open>MAX_DEPTH\<close> deep.
\<close>

theorem parse_wf:
  assumes "parse text = Some e"
  shows "wf_expr e \<and> expr_nest e \<le> MAX_DEPTH \<and> length text \<le> MAX_EXPRESSION_BYTES"
proof -
  from assms have "expression 0 text = Some (e, [])" "length text \<le> MAX_EXPRESSION_BYTES"
    by (auto simp: parse_def split: if_splits option.splits)
  with parser_wf(1) [of 0 "text" e "[]"] show ?thesis by simp
qed

theorem parse_wf_witness:
  "parse ''0&(1|2)>3,2'' = Some (All [Seen 0, Total [1, 2] Greater 3 (Some 2)]) \<and>
   wf_expr (All [Seen 0, Total [1, 2] Greater 3 (Some 2)])"
proof -
  have p: "parse ''0&(1|2)>3,2'' = Some (All [Seen 0, Total [1, 2] Greater 3 (Some 2)])"
    by (simp add: logical_eval)
  from parse_wf [OF p] p show ?thesis by simp
qed

text \<open>
  Parsing inverts printing: the text of a well-formed expression within the size and nesting
  limits parses back to exactly that expression, so the parser drops, merges and reorders nothing.
\<close>

theorem parse_show_expr:
  assumes "wf_expr e" "expr_nest e \<le> MAX_DEPTH" "length (show_expr e) \<le> MAX_EXPRESSION_BYTES"
  shows "parse (show_expr e) = Some e"
proof -
  have e: "expression 0 (show_expr e) = Some (e, [])"
    using expression_show [of e 0 "[]"] assms by (simp add: after_expr_def)
  moreover have "show_expr e \<noteq> []"
  proof
    assume "show_expr e = []"
    with e have "expression 0 [] = Some (e, [])" by simp
    then show False by (simp add: expression.simps atom.simps number_def peek_def)
  qed
  ultimately show ?thesis using assms(3) by (simp add: parse_def)
qed

theorem parse_show_expr_witness:
  "show_expr (Any [Seen 3, All [Seen 0, Count 12 Less 7]]) = ''3|(0&12<7)'' \<and>
   parse ''3|(0&12<7)'' = Some (Any [Seen 3, All [Seen 0, Count 12 Less 7]])"
proof -
  have s: "show_expr (Any [Seen 3, All [Seen 0, Count 12 Less 7]]) = ''3|(0&12<7)''"
    by (simp add: show_nat.simps digit_char_def show_limit_def char_of_def bit_0)
  have "wf_expr (Any [Seen 3, All [Seen 0, Count 12 Less 7]])"
    "expr_nest (Any [Seen 3, All [Seen 0, Count 12 Less 7]]) \<le> MAX_DEPTH"
    by (simp_all add: logical_limits expr_nest_def)
  from parse_show_expr [OF this, unfolded s] s show ?thesis by (simp add: logical_limits del: show_expr.simps)
qed

section \<open>Monotonicity\<close>

text \<open>An expression that only asks for matches, never for their absence.\<close>

fun positive :: "expr \<Rightarrow> bool" where
  "positive (Seen s) \<longleftrightarrow> True"
| "positive (Count s c l) \<longleftrightarrow> c = Greater"
| "positive (All es) \<longleftrightarrow> (\<forall>e \<in> set es. positive e)"
| "positive (Any es) \<longleftrightarrow> (\<forall>e \<in> set es. positive e)"
| "positive (Total subs c l d) \<longleftrightarrow> c = Greater \<and> length subs < 2 ^ 32"

lemma length_filter_mono_pred:
  "(\<And>x. x \<in> set xs \<Longrightarrow> P x \<Longrightarrow> Q x) \<Longrightarrow> length (filter P xs) \<le> length (filter Q xs)"
  by (induction xs) auto

text \<open>
  More matches never hide a positive expression: if it holds for some counts it holds for any
  counts that are at least as large, saturation included. Only the negative forms (\<open><\<close>, \<open>=\<close>) make a
  verdict depend on something being absent, which is why a truncated scan must not judge them.
\<close>

theorem holds_mono:
  assumes "positive e" "holds e counts" "\<And>s. at0 counts s \<le> at0 counts' s"
  shows "holds e counts'"
  using assms(1,2)
proof (induction e)
  case (Seen s)
  then show ?case using assms(3) [of s] by simp
next
  case (Count s c l)
  then show ?case using assms(3) [of s] by simp
next
  case (Total subs c l d)
  have "foldl (\<lambda>sum s. saturating_add u32_max sum (at0 counts s)) 0 subs \<le>
      foldl (\<lambda>sum s. saturating_add u32_max sum (at0 counts' s)) 0 subs"
    by (rule foldl_saturating_mono) (auto simp: assms(3))
  moreover have "length (filter (\<lambda>s. at0 counts s > 0) subs) \<le> length (filter (\<lambda>s. at0 counts' s > 0) subs)"
    by (rule length_filter_mono_pred) (use assms(3) order_less_le_trans in blast)
  moreover have "length (filter P subs) mod 2 ^ 32 = length (filter P subs)" for P
    using Total.prems(1) order_le_less_trans [OF length_filter_le] by (intro mod_less) auto
  ultimately show ?case
    using Total.prems by (auto simp: Let_def split: option.splits)
qed auto

theorem holds_mono_witness:
  "holds (All [Seen 0, Total [1, 2] Greater 3 (Some 2)]) [9, 2, 7]"
proof -
  have "positive (All [Seen 0, Total [1, 2] Greater 3 (Some 2)])" by simp
  moreover have "holds (All [Seen 0, Total [1, 2] Greater 3 (Some 2)]) [1, 2, 2]"
    by (simp add: at0_def saturating_add_def u32_max_def Let_def)
  moreover have "at0 [1, 2, 2] s \<le> at0 [9, 2, 7] s" for s
    by (cases s; cases "s - 1"; cases "s - 2") (auto simp: at0_def)
  ultimately show ?thesis by (rule holds_mono)
qed

end
