(* ===== verification/Matcher.thy ===== *)
theory Matcher
  imports Prelude
begin

text \<open>
  The byte-pattern matcher of \<^verbatim>\<open>src/clamdb/pattern.rs\<close>: targets, offsets, the PE layout they are
  relative to, the parts of a signature, and the verification of one candidate
  (\<^verbatim>\<open>bytes_match\<close>, \<^verbatim>\<open>match_right\<close>, \<^verbatim>\<open>match_left\<close>, \<^verbatim>\<open>verify\<close>). The step counter the code threads through a
  mutable reference is returned beside each result; the \<^verbatim>\<open>for skip\<close> loops are the functions
  \<open>gap_right\<close> and \<open>gap_left\<close>.

  The specification is \<open>parts_match\<close>: what it means for a list of parts to cover a stretch of the
  text. The lemmas show that the two searches are sound for it, that they are complete for it as
  long as the step budget lasts, and what follows for \<open>verify\<close>.
\<close>

section \<open>Constants\<close>

definition MIN_ANCHOR :: nat where "MIN_ANCHOR = 4"
definition MIN_FIXED_BYTES :: nat where "MIN_FIXED_BYTES = 8"
definition MAX_UNBOUNDED_GAP :: nat where "MAX_UNBOUNDED_GAP = 2 ^ 20"
definition MAX_VERIFY_STEPS :: nat where "MAX_VERIFY_STEPS = 4 * 2 ^ 20"
definition MAX_SIGNATURE_BYTES :: nat where "MAX_SIGNATURE_BYTES = 4096"
definition MIN_LOGICAL_FIXED_BYTES :: nat where "MIN_LOGICAL_FIXED_BYTES = 16"

lemmas pattern_limits =
  MIN_ANCHOR_def MIN_FIXED_BYTES_def MAX_UNBOUNDED_GAP_def MAX_VERIFY_STEPS_def
  MAX_SIGNATURE_BYTES_def MIN_LOGICAL_FIXED_BYTES_def

section \<open>Targets, offsets, layout\<close>

datatype target = TargetAny | TargetPe | TargetOle2 | TargetElf | TargetPdf

definition target_ALL :: "target list" where
  "target_ALL = [TargetAny, TargetPe, TargetOle2, TargetElf, TargetPdf]"

fun target_index :: "target \<Rightarrow> nat" where
  "target_index TargetAny = 0"
| "target_index TargetPe = 1"
| "target_index TargetOle2 = 2"
| "target_index TargetElf = 3"
| "target_index TargetPdf = 4"

fun applies_to :: "target \<Rightarrow> bytes \<Rightarrow> bool" where
  "applies_to TargetAny content \<longleftrightarrow> True"
| "applies_to TargetPe content \<longleftrightarrow> starts_with content (bytes_of ''MZ'')"
| "applies_to TargetOle2 content \<longleftrightarrow>
     starts_with content [0xD0, 0xCF, 0x11, 0xE0, 0xA1, 0xB1, 0x1A, 0xE1]"
| "applies_to TargetElf content \<longleftrightarrow> starts_with content [0x7F, 0x45, 0x4C, 0x46]"
| "applies_to TargetPdf content \<longleftrightarrow>
     bytes_of ''%PDF'' \<in> set (windows 4 (take (min (length content) 1024) content))"

datatype base =
    Anywhere
  | Absolute nat
  | FromEnd nat
  | EntryPoint int
  | Section "nat option" nat

record offset =
  off_base :: base
  off_shift :: nat

record pe_layout =
  entry_point :: "nat option"
  pe_sections :: "nat list"

definition empty_layout :: pe_layout where
  "empty_layout = \<lparr>entry_point = None, pe_sections = []\<rparr>"

definition u16_at :: "bytes \<Rightarrow> nat \<Rightarrow> nat option" where
  "u16_at content at = map_option u16_of_le (get_range content at (at + 2))"

definition u32_at :: "bytes \<Rightarrow> nat \<Rightarrow> nat option" where
  "u32_at content at = map_option u32_of_le (get_range content at (at + 4))"

text \<open>The loop over the section table of \<^verbatim>\<open>PeLayout::read\<close>.\<close>

fun read_sections :: "bytes \<Rightarrow> nat \<Rightarrow> nat \<Rightarrow> nat list \<Rightarrow> nat option \<Rightarrow> nat list \<Rightarrow>
    (nat option \<times> nat list) option" where
  "read_sections content entry_rva table [] entry secs = Some (entry, secs)"
| "read_sections content entry_rva table (index # rest) entry secs =
     (let at = table + index * 40 in
      do { virtual_size \<leftarrow> u32_at content (at + 8);
           virtual_address \<leftarrow> u32_at content (at + 12);
           raw_size \<leftarrow> u32_at content (at + 16);
           raw_pointer \<leftarrow> u32_at content (at + 20);
           let span = max virtual_size raw_size;
               entry' = (if entry = None \<and> virtual_address \<le> entry_rva \<and>
                            entry_rva < saturating_add usize_max virtual_address span
                         then Some (raw_pointer + (entry_rva - virtual_address)) else entry)
           in read_sections content entry_rva table rest entry' (secs @ [raw_pointer]) })"

definition layout_read :: "bytes \<Rightarrow> pe_layout" where
  "layout_read content =
     (case do { header \<leftarrow> u32_at content 0x3c;
                magic \<leftarrow> get_range content header (header + 4);
                if magic \<noteq> [0x50, 0x45, 0, 0] then None
                else do {
                  section_count \<leftarrow> map_option (min 96) (u16_at content (header + 6));
                  optional_size \<leftarrow> u16_at content (header + 20);
                  let optional = header + 24 in
                  do { entry_rva \<leftarrow> u32_at content (optional + 16);
                       read_sections content entry_rva (optional + optional_size)
                         [0..<section_count] None [] } } }
      of None \<Rightarrow> empty_layout
       | Some (entry, secs) \<Rightarrow> \<lparr>entry_point = entry, pe_sections = secs\<rparr>)"

text \<open>The first position \<^verbatim>\<open>base\<close> allows, if this file has what it is relative to.\<close>

fun resolve :: "pe_layout \<Rightarrow> base \<Rightarrow> nat \<Rightarrow> nat option" where
  "resolve layout Anywhere file_len = Some 0"
| "resolve layout (Absolute position) file_len = Some position"
| "resolve layout (FromEnd distance) file_len = checked_sub file_len distance"
| "resolve layout (EntryPoint delta) file_len =
     do { entry \<leftarrow> entry_point layout; checked_add_signed entry delta }"
| "resolve layout (Section index delta) file_len =
     do { start \<leftarrow> (case index of
                       Some i \<Rightarrow> get_at (pe_sections layout) i
                     | None \<Rightarrow> if pe_sections layout = [] then None
                               else Some (last (pe_sections layout)));
          checked_add usize_max start delta }"

section \<open>Signatures\<close>

datatype part = Bytes "byte option list" | Gap nat "nat option"

record signature =
  sig_name :: string
  sig_target :: target
  sig_offset :: offset
  parts :: "part list"
  anchor_part :: nat
  anchor_start :: nat
  anchor_len :: nat
  piece :: bool
  fold_case :: bool
  fullword :: bool

text \<open>
  The anchor of a signature. The code is unreachable on a gap part; \<open>wf_signature\<close> below rules
  that out for every signature the loader keeps.
\<close>

definition anchor :: "signature \<Rightarrow> bytes" where
  "anchor sg =
     (case parts sg ! anchor_part sg of
        Bytes bs \<Rightarrow> map the (takeWhile (\<lambda>b. b \<noteq> None)
                       (slice bs (anchor_start sg) (anchor_start sg + anchor_len sg)))
      | Gap _ _ \<Rightarrow> [])"

section \<open>Matching\<close>

definition byte_matches :: "bool \<Rightarrow> byte option \<Rightarrow> byte \<Rightarrow> bool" where
  "byte_matches fld wanted actual =
     (case wanted of None \<Rightarrow> True
      | Some w \<Rightarrow> w = actual \<or> (fld \<and> eq_ignore_ascii_case w actual))"

definition bytes_match :: "byte option list \<Rightarrow> bytes \<Rightarrow> bool \<Rightarrow> bool" where
  "bytes_match pattern content fld \<longleftrightarrow>
     length pattern = length content \<and>
     list_all (\<lambda>(wanted, actual). byte_matches fld wanted actual) (zip pattern content)"

text \<open>Whether the bytes just outside \<^verbatim>\<open>start..end\<close> are not letters or digits.\<close>

definition on_word_boundaries :: "bytes \<Rightarrow> nat \<Rightarrow> nat \<Rightarrow> bool" where
  "on_word_boundaries content start en \<longleftrightarrow>
     (let before = do { i \<leftarrow> checked_sub start 1; get_at content i };
          after = get_at content en
      in \<not> (case before of None \<Rightarrow> False | Some b \<Rightarrow> is_ascii_alphanumeric b) \<and>
         \<not> (case after of None \<Rightarrow> False | Some b \<Rightarrow> is_ascii_alphanumeric b))"

definition gap_limit :: "nat option \<Rightarrow> nat" where
  "gap_limit mx = min (case mx of None \<Rightarrow> MAX_UNBOUNDED_GAP | Some m \<Rightarrow> m) MAX_UNBOUNDED_GAP"

function (sequential)
    match_right :: "part list \<Rightarrow> bytes \<Rightarrow> nat \<Rightarrow> nat \<Rightarrow> bool \<Rightarrow> nat option \<times> nat"
and gap_right :: "part list \<Rightarrow> bytes \<Rightarrow> nat \<Rightarrow> nat \<Rightarrow> nat \<Rightarrow> nat \<Rightarrow> bool \<Rightarrow> nat option \<times> nat" where
  "match_right [] content position steps fld = (Some position, steps)"
| "match_right (Bytes bs # rest) content position steps fld =
     (let steps = steps + length bs; en = position + length bs in
      if steps > MAX_VERIFY_STEPS \<or> en > length content \<or> \<not> bytes_match bs (slice content position en) fld
      then (None, steps)
      else match_right rest content en steps fld)"
| "match_right (Gap mn mx # rest) content position steps fld =
     gap_right rest content position mn (gap_limit mx) steps fld"
| "gap_right rest content position skip limit steps fld =
     (if skip > limit then (None, steps)
      else let steps = steps + 1 in
        if steps > MAX_VERIFY_STEPS \<or> position + skip > length content then (None, steps)
        else case match_right rest content (position + skip) steps fld of
          (Some en, steps) \<Rightarrow> (Some en, steps)
        | (None, steps) \<Rightarrow> gap_right rest content position (Suc skip) limit steps fld)"
  by pat_completeness auto
termination
  by (relation "measures [\<lambda>x. case x of Inl (ps, _) \<Rightarrow> length ps | Inr (ps, _) \<Rightarrow> length ps,
                          \<lambda>x. case x of Inl _ \<Rightarrow> 0 | Inr (_, _, _, skip, limit, _) \<Rightarrow> Suc limit - skip]")
     auto

declare gap_right.simps [simp del]

function (sequential)
    match_left :: "part list \<Rightarrow> bytes \<Rightarrow> nat \<Rightarrow> nat \<Rightarrow> bool \<Rightarrow> nat option \<times> nat"
and gap_left :: "part list \<Rightarrow> bytes \<Rightarrow> nat \<Rightarrow> nat \<Rightarrow> nat \<Rightarrow> nat \<Rightarrow> bool \<Rightarrow> nat option \<times> nat" where
  "match_left ps content en steps fld =
     (if ps = [] then (Some en, steps)
      else let rest = butlast ps in
        case last ps of
          Bytes bs \<Rightarrow>
            (let steps = steps + length bs in
             case checked_sub en (length bs) of
               None \<Rightarrow> (None, steps)
             | Some start \<Rightarrow>
                 if steps > MAX_VERIFY_STEPS \<or> \<not> bytes_match bs (slice content start en) fld
                 then (None, steps)
                 else match_left rest content start steps fld)
        | Gap mn mx \<Rightarrow> gap_left rest content en mn (gap_limit mx) steps fld)"
| "gap_left rest content en skip limit steps fld =
     (if skip > limit then (None, steps)
      else let steps = steps + 1 in
        if steps > MAX_VERIFY_STEPS then (None, steps)
        else case checked_sub en skip of
          None \<Rightarrow> (None, steps)
        | Some start \<Rightarrow>
            (case match_left rest content start steps fld of
               (Some found, steps) \<Rightarrow> (Some found, steps)
             | (None, steps) \<Rightarrow> gap_left rest content en (Suc skip) limit steps fld))"
  by pat_completeness auto
termination
  by (relation "measures [\<lambda>x. case x of Inl (ps, _) \<Rightarrow> length ps | Inr (ps, _) \<Rightarrow> length ps,
                          \<lambda>x. case x of Inl _ \<Rightarrow> 0 | Inr (_, _, _, skip, limit, _) \<Rightarrow> Suc limit - skip]")
     auto

declare match_left.simps [simp del] gap_left.simps [simp del]

text \<open>What one candidate is judged in.\<close>

record context_data =
  ctx_text :: bytes
  ctx_file_size :: nat
  ctx_truncated :: bool
  ctx_layout :: pe_layout

text \<open>The offset condition at the end of \<^verbatim>\<open>verify\<close>.\<close>

definition offset_allows :: "offset \<Rightarrow> context_data \<Rightarrow> nat \<Rightarrow> nat \<Rightarrow> bool" where
  "offset_allows off ctx start en \<longleftrightarrow>
     (if off_base off = Anywhere then True
      else if (\<exists>d. off_base off = FromEnd d) \<and>
              (ctx_truncated ctx \<or> ctx_file_size ctx \<noteq> length (ctx_text ctx)) then False
      else case resolve (ctx_layout ctx) (off_base off) (length (ctx_text ctx)) of
        None \<Rightarrow> False
      | Some first \<Rightarrow>
          en \<le> length (ctx_text ctx) \<and> first \<le> start \<and>
          start \<le> saturating_add usize_max first (off_shift off))"

definition verify :: "signature \<Rightarrow> context_data \<Rightarrow> nat \<Rightarrow> nat \<Rightarrow> bool \<times> nat" where
  "verify sg ctx anchor_at steps =
     (let content = ctx_text ctx in
      case parts sg ! anchor_part sg of
        Gap _ _ \<Rightarrow> (False, steps)
      | Bytes anchor_bytes \<Rightarrow>
          (case checked_sub anchor_at (anchor_start sg) of
             None \<Rightarrow> (False, steps)
           | Some part_start \<Rightarrow>
               (let part_end = part_start + length anchor_bytes in
                if part_end > length content then (False, steps)
                else if \<not> bytes_match anchor_bytes (slice content part_start part_end) (fold_case sg)
                then (False, steps)
                else case match_left (take (anchor_part sg) (parts sg)) content part_start steps (fold_case sg) of
                  (None, steps) \<Rightarrow> (False, steps)
                | (Some start, steps) \<Rightarrow>
                    (case match_right (drop (Suc (anchor_part sg)) (parts sg)) content part_end steps (fold_case sg) of
                       (None, steps) \<Rightarrow> (False, steps)
                     | (Some en, steps) \<Rightarrow>
                         if fullword sg \<and> \<not> on_word_boundaries content start en then (False, steps)
                         else (offset_allows (sig_offset sg) ctx start en, steps)))))"

section \<open>Specification\<close>

text \<open>\<open>parts_match fld ps content i j\<close>: the parts cover exactly the bytes \<open>i..j\<close> of the text.\<close>

fun parts_match :: "bool \<Rightarrow> part list \<Rightarrow> bytes \<Rightarrow> nat \<Rightarrow> nat \<Rightarrow> bool" where
  "parts_match fld [] content i j \<longleftrightarrow> i = j"
| "parts_match fld (Bytes bs # ps) content i j \<longleftrightarrow>
     i + length bs \<le> length content \<and> bytes_match bs (slice content i (i + length bs)) fld \<and>
     parts_match fld ps content (i + length bs) j"
| "parts_match fld (Gap mn mx # ps) content i j \<longleftrightarrow>
     (\<exists>k. mn \<le> k \<and> k \<le> gap_limit mx \<and> i + k \<le> length content \<and> parts_match fld ps content (i + k) j)"

lemma parts_match_append:
  "parts_match fld (ps @ qs) content i j \<longleftrightarrow>
     (\<exists>k. parts_match fld ps content i k \<and> parts_match fld qs content k j)"
  by (induction fld ps content i j arbitrary: rule: parts_match.induct) auto

lemma parts_match_le: "parts_match fld ps content i j \<Longrightarrow> i \<le> j"
  by (induction fld ps content i j rule: parts_match.induct) fastforce+

lemma parts_match_end: "parts_match fld ps content i j \<Longrightarrow> i \<le> length content \<Longrightarrow> j \<le> length content"
  by (induction fld ps content i j rule: parts_match.induct) auto

section \<open>Forward search\<close>

lemma match_right_steps:
  "match_right ps content i steps fld = (r, steps') \<Longrightarrow> steps \<le> steps'"
  "gap_right ps content i skip limit steps fld = (r, steps') \<Longrightarrow> steps \<le> steps'"
proof (induction ps content i steps fld and ps content i skip limit steps fld
    arbitrary: r steps' and r steps' rule: match_right_gap_right.induct)
  case (4 rest content position skip limit steps fld)
  then show ?case
    by (auto simp: gap_right.simps [of rest content position skip] Let_def
        split: if_splits prod.splits option.splits) fastforce+
qed (auto simp: Let_def split: if_splits, fastforce)

lemma match_right_sound:
  "match_right ps content i steps fld = (Some j, steps') \<Longrightarrow> parts_match fld ps content i j"
  "gap_right ps content i skip limit steps fld = (Some j, steps') \<Longrightarrow>
     \<exists>k. skip \<le> k \<and> k \<le> limit \<and> i + k \<le> length content \<and> parts_match fld ps content (i + k) j"
proof (induction ps content i steps fld and ps content i skip limit steps fld
    arbitrary: j steps' and j steps' rule: match_right_gap_right.induct)
  case (4 rest content position skip limit steps fld)
  from "4.prems" have g: "\<not> skip > limit" "\<not> (steps + 1 > MAX_VERIFY_STEPS \<or> position + skip > length content)"
    by (auto simp: gap_right.simps [of rest content position skip] Let_def split: if_splits)
  obtain r st where m: "match_right rest content (position + skip) (steps + 1) fld = (r, st)" by fastforce
  show ?case
  proof (cases r)
    case None
    with "4.prems" g m have "gap_right rest content position (Suc skip) limit st fld = (Some j, steps')"
      by (auto simp: gap_right.simps [of rest content position skip] Let_def split: if_splits)
    from "4.IH"(2) [OF g(1) refl g(2) m [symmetric] None this] show ?thesis
      using Suc_leD by blast
  next
    case (Some en)
    with "4.prems" g m have "match_right rest content (position + skip) (steps + 1) fld = (Some j, st)"
      by (auto simp: gap_right.simps [of rest content position skip] Let_def split: if_splits)
    from "4.IH"(1) [OF g(1) refl g(2) this] g show ?thesis by (intro exI [of _ skip]) auto
  qed
next
  case (3 mn mx rest content position steps fld)
  from "3.prems" show ?case by (auto dest: "3.IH")
qed (auto simp: Let_def split: if_splits)

text \<open>The search is exhaustive: within the step budget, a failure means there is no match.\<close>

lemma match_right_complete:
  "match_right ps content i steps fld = (None, steps') \<Longrightarrow> steps' \<le> MAX_VERIFY_STEPS \<Longrightarrow>
     \<not> parts_match fld ps content i j"
  "gap_right ps content i skip limit steps fld = (None, steps') \<Longrightarrow> steps' \<le> MAX_VERIFY_STEPS \<Longrightarrow>
     skip \<le> k \<Longrightarrow> k \<le> limit \<Longrightarrow> i + k \<le> length content \<Longrightarrow> \<not> parts_match fld ps content (i + k) j"
proof (induction ps content i steps fld and ps content i skip limit steps fld
    arbitrary: steps' j and steps' k j rule: match_right_gap_right.induct)
  case (2 bs rest content position steps fld)
  then show ?case by (auto simp: Let_def split: if_splits)
next
  case (3 mn mx rest content position steps fld)
  show ?case
  proof
    assume "parts_match fld (Gap mn mx # rest) content position j"
    then obtain k where "mn \<le> k" "k \<le> gap_limit mx" "position + k \<le> length content"
      "parts_match fld rest content (position + k) j" by auto
    with "3.IH" [OF _ "3.prems"(2), of k j] "3.prems"(1) show False by simp
  qed
next
  case (4 rest content position skip limit steps fld)
  from "4.prems" have g: "\<not> skip > limit" "\<not> (steps + 1 > MAX_VERIFY_STEPS \<or> position + skip > length content)"
    by (auto simp: gap_right.simps [of rest content position skip] Let_def split: if_splits)
  obtain r st where m: "match_right rest content (position + skip) (steps + 1) fld = (r, st)" by fastforce
  with "4.prems"(1) g have r: "r = None"
    and rest: "gap_right rest content position (Suc skip) limit st fld = (None, steps')"
    by (auto simp: gap_right.simps [of rest content position skip] Let_def split: if_splits option.splits)
  show ?case
  proof (cases "k = skip")
    case True
    have "st \<le> MAX_VERIFY_STEPS" using match_right_steps(2) [OF rest] "4.prems"(2) by simp
    with "4.IH"(1) [OF g(1) refl g(2), of st j] m r True show ?thesis by simp
  next
    case False
    with "4.IH"(2) [OF g(1) refl g(2) m [symmetric] r rest "4.prems"(2), of k j] "4.prems" show ?thesis
      by simp
  qed
qed auto

section \<open>Backward search\<close>

lemma match_left_unfold:
  "match_left [] content en steps fld = (Some en, steps)"
  "match_left (ps @ [Bytes bs]) content en steps fld =
     (let steps = steps + length bs in
      case checked_sub en (length bs) of
        None \<Rightarrow> (None, steps)
      | Some start \<Rightarrow>
          if steps > MAX_VERIFY_STEPS \<or> \<not> bytes_match bs (slice content start en) fld
          then (None, steps)
          else match_left ps content start steps fld)"
  "match_left (ps @ [Gap mn mx]) content en steps fld =
     gap_left ps content en mn (gap_limit mx) steps fld"
  by (simp_all add: match_left.simps [of "[]"] match_left.simps [of "ps @ _"] Let_def)

lemma match_left_steps:
  "match_left ps content i steps fld = (r, steps') \<Longrightarrow> steps \<le> steps'"
  "gap_left ps content i skip limit steps fld = (r, steps') \<Longrightarrow> steps \<le> steps'"
proof (induction ps content i steps fld and ps content i skip limit steps fld
    arbitrary: r steps' and r steps' rule: match_left_gap_left.induct)
  case (1 ps content en steps fld)
  show ?case
  proof (cases ps rule: rev_cases)
    case Nil
    with "1.prems" show ?thesis by (simp add: match_left_unfold)
  next
    case (snoc qs p)
    then have ps: "ps \<noteq> []" "qs = butlast ps" "last ps = p" by auto
    show ?thesis
    proof (cases p)
      case (Bytes bs)
      note IH = "1.IH"(1) [OF ps(1,2) ps(3) [unfolded Bytes] refl]
      from "1.prems" show ?thesis unfolding snoc Bytes
        by (auto simp: match_left_unfold Let_def split: option.splits if_splits dest!: IH [rotated 2])
    next
      case (Gap mn mx)
      from "1.prems" show ?thesis unfolding snoc Gap match_left_unfold
        by (rule "1.IH"(2) [OF ps(1,2) ps(3) [unfolded Gap]])
    qed
  qed
next
  case (2 rest content en skip limit steps fld)
  show ?case
  proof (cases "skip > limit \<or> steps + 1 > MAX_VERIFY_STEPS \<or> en < skip")
    case True
    with "2.prems" show ?thesis
      by (auto simp: gap_left.simps [of rest content en skip] Let_def split: if_splits option.splits)
  next
    case False
    then have g: "\<not> skip > limit" "\<not> steps + 1 > MAX_VERIFY_STEPS" "checked_sub en skip = Some (en - skip)"
      by auto
    obtain r1 st where m: "match_left rest content (en - skip) (steps + 1) fld = (r1, st)" by fastforce
    have st: "steps + 1 \<le> st" by (rule "2.IH"(1) [OF g(1) refl g(2,3) m])
    show ?thesis
    proof (cases r1)
      case None
      with "2.prems" g m have "gap_left rest content en (Suc skip) limit st fld = (r, steps')"
        by (simp add: gap_left.simps [of rest content en skip] Let_def)
      from "2.IH"(2) [OF g(1) refl g(2,3) m [symmetric] None this] st show ?thesis by simp
    next
      case (Some found)
      with "2.prems" g m st show ?thesis
        by (simp add: gap_left.simps [of rest content en skip] Let_def)
    qed
  qed
qed

lemma match_left_sound:
  "match_left ps content en steps fld = (Some i, steps') \<Longrightarrow> en \<le> length content \<Longrightarrow>
     parts_match fld ps content i en"
  "gap_left ps content en skip limit steps fld = (Some i, steps') \<Longrightarrow> en \<le> length content \<Longrightarrow>
     \<exists>k. skip \<le> k \<and> k \<le> limit \<and> k \<le> en \<and> parts_match fld ps content i (en - k)"
proof (induction ps content en steps fld and ps content en skip limit steps fld
    arbitrary: i steps' and i steps' rule: match_left_gap_left.induct)
  case (1 ps content en steps fld)
  show ?case
  proof (cases ps rule: rev_cases)
    case Nil
    with "1.prems" show ?thesis by (simp add: match_left_unfold)
  next
    case (snoc qs p)
    then have ps: "ps \<noteq> []" "qs = butlast ps" "last ps = p" by auto
    show ?thesis
    proof (cases p)
      case (Bytes bs)
      from "1.prems" snoc Bytes have b: "length bs \<le> en" "\<not> steps + length bs > MAX_VERIFY_STEPS"
        "bytes_match bs (slice content (en - length bs) en) fld"
        and m: "match_left qs content (en - length bs) (steps + length bs) fld = (Some i, steps')"
        by (auto simp: match_left_unfold Let_def split: option.splits if_splits)
      have "parts_match fld qs content i (en - length bs)"
        by (rule "1.IH"(1) [OF ps(1,2) ps(3) [unfolded Bytes] refl _ _ m]) (use b "1.prems"(2) in auto)
      with b "1.prems"(2) show ?thesis using snoc Bytes by (auto simp: parts_match_append)
    next
      case (Gap mn mx)
      from "1.IH"(2) [OF ps(1,2) ps(3) [unfolded Gap]] "1.prems" [unfolded snoc Gap match_left_unfold]
      obtain k where "mn \<le> k" "k \<le> gap_limit mx" "k \<le> en" "parts_match fld qs content i (en - k)"
        by blast
      with "1.prems"(2) show ?thesis using snoc Gap by (fastforce simp: parts_match_append)
    qed
  qed
next
  case (2 rest content en skip limit steps fld)
  from "2.prems" have g: "\<not> skip > limit" "\<not> steps + 1 > MAX_VERIFY_STEPS" "checked_sub en skip = Some (en - skip)"
    by (auto simp: gap_left.simps [of rest content en skip] Let_def split: if_splits option.splits)
  obtain r st where m: "match_left rest content (en - skip) (steps + 1) fld = (r, st)" by fastforce
  show ?case
  proof (cases r)
    case None
    with "2.prems"(1) g m have "gap_left rest content en (Suc skip) limit st fld = (Some i, steps')"
      by (auto simp: gap_left.simps [of rest content en skip] Let_def split: if_splits)
    from "2.IH"(2) [OF g(1) refl g(2,3) m [symmetric] None this "2.prems"(2)] show ?thesis
      using Suc_leD by blast
  next
    case (Some found)
    with "2.prems"(1) g m have "match_left rest content (en - skip) (steps + 1) fld = (Some i, st)"
      by (auto simp: gap_left.simps [of rest content en skip] Let_def split: if_splits)
    from "2.IH"(1) [OF g(1) refl g(2,3) this] g "2.prems"(2) show ?thesis
      by (intro exI [of _ skip]) auto
  qed
qed

lemma match_left_complete:
  "match_left ps content en steps fld = (None, steps') \<Longrightarrow> steps' \<le> MAX_VERIFY_STEPS \<Longrightarrow>
     \<not> parts_match fld ps content i en"
  "gap_left ps content en skip limit steps fld = (None, steps') \<Longrightarrow> steps' \<le> MAX_VERIFY_STEPS \<Longrightarrow>
     skip \<le> k \<Longrightarrow> k \<le> limit \<Longrightarrow> k \<le> en \<Longrightarrow> \<not> parts_match fld ps content i (en - k)"
proof (induction ps content en steps fld and ps content en skip limit steps fld
    arbitrary: steps' i and steps' k i rule: match_left_gap_left.induct)
  case (1 ps content en steps fld)
  show ?case
  proof (cases ps rule: rev_cases)
    case Nil
    with "1.prems" show ?thesis by (simp add: match_left_unfold)
  next
    case (snoc qs p)
    then have ps: "ps \<noteq> []" "qs = butlast ps" "last ps = p" by auto
    show ?thesis
    proof (cases p)
      case (Bytes bs)
      show ?thesis
      proof
        assume "parts_match fld ps content i en"
        then have q: "length bs \<le> en" "bytes_match bs (slice content (en - length bs) en) fld"
          "parts_match fld qs content i (en - length bs)"
          using snoc Bytes by (auto simp: parts_match_append)
        with "1.prems" snoc Bytes have
          m: "match_left qs content (en - length bs) (steps + length bs) fld = (None, steps')"
          and st: "\<not> steps + length bs > MAX_VERIFY_STEPS"
          by (auto simp: match_left_unfold Let_def split: option.splits if_splits)
        have "\<not> parts_match fld qs content i (en - length bs)"
          by (rule "1.IH"(1) [OF ps(1,2) ps(3) [unfolded Bytes] refl _ _ m "1.prems"(2)]) (use q st in auto)
        with q(3) show False by simp
      qed
    next
      case (Gap mn mx)
      show ?thesis
      proof
        assume "parts_match fld ps content i en"
        then obtain k where "mn \<le> k" "k \<le> gap_limit mx" "k \<le> en" "parts_match fld qs content i (en - k)"
          using snoc Gap by (auto simp: parts_match_append)
        with "1.IH"(2) [OF ps(1,2) ps(3) [unfolded Gap] "1.prems" [unfolded snoc Gap match_left_unfold]]
        show False by blast
      qed
    qed
  qed
next
  case (2 rest content en skip limit steps fld)
  from "2.prems" have g: "\<not> skip > limit" "\<not> steps + 1 > MAX_VERIFY_STEPS" "checked_sub en skip = Some (en - skip)"
    by (auto simp: gap_left.simps [of rest content en skip] Let_def split: if_splits option.splits)
  obtain r st where m: "match_left rest content (en - skip) (steps + 1) fld = (r, st)" by fastforce
  with "2.prems"(1) g have r: "r = None"
    and rest: "gap_left rest content en (Suc skip) limit st fld = (None, steps')"
    by (auto simp: gap_left.simps [of rest content en skip] Let_def split: if_splits option.splits)
  show ?case
  proof (cases "k = skip")
    case True
    have "st \<le> MAX_VERIFY_STEPS" using match_left_steps(2) [OF rest] "2.prems"(2) by simp
    with "2.IH"(1) [OF g(1) refl g(2,3), of st i] m r True show ?thesis by simp
  next
    case False
    with "2.IH"(2) [OF g(1) refl g(2,3) m [symmetric] r rest "2.prems"(2), of k i] "2.prems" show ?thesis
      by simp
  qed
qed

section \<open>Verification of a candidate\<close>

definition wf_signature :: "signature \<Rightarrow> bool" where
  "wf_signature sg \<longleftrightarrow>
     anchor_part sg < length (parts sg) \<and>
     (\<forall>bs. Bytes bs \<in> set (parts sg) \<longrightarrow> bs \<noteq> []) \<and>
     MIN_ANCHOR \<le> anchor_len sg \<and>
     (case parts sg ! anchor_part sg of
        Gap _ _ \<Rightarrow> False
      | Bytes bs \<Rightarrow> anchor_start sg + anchor_len sg \<le> length bs \<and>
          (\<forall>i < anchor_len sg. bs ! (anchor_start sg + i) \<noteq> None))"

text \<open>
  \<open>signature_matches\<close>: the whole signature covers \<open>start..en\<close> of the text, on word boundaries
  if it must be, where its offset allows. \<open>anchored_at\<close> fixes where its anchor part lies.
\<close>

definition signature_matches :: "signature \<Rightarrow> context_data \<Rightarrow> nat \<Rightarrow> nat \<Rightarrow> bool" where
  "signature_matches sg ctx start en \<longleftrightarrow>
     parts_match (fold_case sg) (parts sg) (ctx_text ctx) start en \<and>
     (fullword sg \<longrightarrow> on_word_boundaries (ctx_text ctx) start en) \<and>
     offset_allows (sig_offset sg) ctx start en"

definition anchored_at :: "signature \<Rightarrow> context_data \<Rightarrow> nat \<Rightarrow> nat \<Rightarrow> nat \<Rightarrow> bool" where
  "anchored_at sg ctx anchor_at start en \<longleftrightarrow>
     anchor_start sg \<le> anchor_at \<and>
     parts_match (fold_case sg) (take (anchor_part sg) (parts sg)) (ctx_text ctx) start (anchor_at - anchor_start sg) \<and>
     parts_match (fold_case sg) (drop (anchor_part sg) (parts sg)) (ctx_text ctx) (anchor_at - anchor_start sg) en"

lemma anchored_at_parts_match:
  "anchored_at sg ctx a start en \<Longrightarrow> parts_match (fold_case sg) (parts sg) (ctx_text ctx) start en"
  using parts_match_append [of "fold_case sg" "take (anchor_part sg) (parts sg)" "drop (anchor_part sg) (parts sg)"]
  by (auto simp: anchored_at_def)

lemma wf_signature_anchor_part:
  assumes "wf_signature sg"
  obtains bs where "parts sg ! anchor_part sg = Bytes bs"
    "drop (anchor_part sg) (parts sg) = Bytes bs # drop (Suc (anchor_part sg)) (parts sg)"
    "parts sg = take (anchor_part sg) (parts sg) @ Bytes bs # drop (Suc (anchor_part sg)) (parts sg)"
  using assms id_take_nth_drop [of "anchor_part sg" "parts sg"] Cons_nth_drop_Suc [of "anchor_part sg" "parts sg"]
  by (auto simp: wf_signature_def split: part.splits)

lemma verify_True:
  assumes "wf_signature sg" "verify sg ctx a steps = (True, steps')"
  shows "\<exists>start en. anchored_at sg ctx a start en \<and> signature_matches sg ctx start en"
proof -
  obtain bs where bs: "parts sg ! anchor_part sg = Bytes bs"
    "drop (anchor_part sg) (parts sg) = Bytes bs # drop (Suc (anchor_part sg)) (parts sg)"
    using wf_signature_anchor_part [OF assms(1)] by metis
  let ?p = "a - anchor_start sg"
  from assms(2) bs(1) obtain start en st1 st2 where v: "anchor_start sg \<le> a"
    "?p + length bs \<le> length (ctx_text ctx)"
    "bytes_match bs (slice (ctx_text ctx) ?p (?p + length bs)) (fold_case sg)"
    "match_left (take (anchor_part sg) (parts sg)) (ctx_text ctx) ?p steps (fold_case sg) = (Some start, st1)"
    "match_right (drop (Suc (anchor_part sg)) (parts sg)) (ctx_text ctx) (?p + length bs) st1 (fold_case sg) = (Some en, st2)"
    "fullword sg \<longrightarrow> on_word_boundaries (ctx_text ctx) start en"
    "offset_allows (sig_offset sg) ctx start en"
    by (auto simp: verify_def Let_def split: option.splits if_splits prod.splits)
  from match_left_sound(1) [OF v(4)] v(2)
  have "parts_match (fold_case sg) (take (anchor_part sg) (parts sg)) (ctx_text ctx) start ?p" by simp
  with v match_right_sound(1) [OF v(5)] have "anchored_at sg ctx a start en"
    by (simp add: anchored_at_def bs(2))
  with v(6,7) anchored_at_parts_match show ?thesis unfolding signature_matches_def by blast
qed

definition is_gap :: "part \<Rightarrow> bool" where
  "is_gap p \<longleftrightarrow> (case p of Gap _ _ \<Rightarrow> True | Bytes _ \<Rightarrow> False)"

text \<open>Without gaps a match has one length, so its two ends determine each other.\<close>

lemma parts_match_gap_free:
  "list_all (\<lambda>p. \<not> is_gap p) ps \<Longrightarrow> parts_match fld ps content i j \<Longrightarrow> parts_match fld ps content i' j' \<Longrightarrow>
     j + i' = j' + i"
proof (induction fld ps content i j arbitrary: i' j' rule: parts_match.induct)
  case (2 fld bs ps content i j)
  then have "j + (i' + length bs) = j' + (i + length bs)" by auto
  then show ?case by simp
qed (auto simp: is_gap_def)

text \<open>
  When the first match the search finds settles the candidate: an unconstrained signature, one
  without gaps before its anchor, or one without gaps at all.
\<close>

definition settled :: "signature \<Rightarrow> bool" where
  "settled sg \<longleftrightarrow>
     (\<not> fullword sg \<and> (off_base (sig_offset sg) = Anywhere \<or>
        list_all (\<lambda>p. \<not> is_gap p) (take (anchor_part sg) (parts sg)))) \<or>
     list_all (\<lambda>p. \<not> is_gap p) (parts sg)"

lemma offset_allows_end:
  "offset_allows off ctx start en \<Longrightarrow> en' \<le> length (ctx_text ctx) \<Longrightarrow> offset_allows off ctx start en'"
  by (auto simp: offset_allows_def split: if_splits option.splits)

lemma verify_False:
  assumes "wf_signature sg" "settled sg" "verify sg ctx a steps = (False, steps')" "steps' \<le> MAX_VERIFY_STEPS"
  shows "\<not> (anchored_at sg ctx a start en \<and> signature_matches sg ctx start en)"
proof
  assume m: "anchored_at sg ctx a start en \<and> signature_matches sg ctx start en"
  obtain bs where bs: "parts sg ! anchor_part sg = Bytes bs"
    "drop (anchor_part sg) (parts sg) = Bytes bs # drop (Suc (anchor_part sg)) (parts sg)"
    "parts sg = take (anchor_part sg) (parts sg) @ Bytes bs # drop (Suc (anchor_part sg)) (parts sg)"
    using wf_signature_anchor_part [OF assms(1)] by metis
  let ?p = "a - anchor_start sg" and ?f = "fold_case sg" and ?t = "ctx_text ctx"
  let ?before = "take (anchor_part sg) (parts sg)" and ?after = "drop (Suc (anchor_part sg)) (parts sg)"
  from m bs(2) have A: "anchor_start sg \<le> a" "?p + length bs \<le> length ?t"
    "bytes_match bs (slice ?t ?p (?p + length bs)) ?f"
    "parts_match ?f ?before ?t start ?p" "parts_match ?f ?after ?t (?p + length bs) en"
    by (auto simp: anchored_at_def)
  obtain r1 st1 where l: "match_left ?before ?t ?p steps ?f = (r1, st1)" by fastforce
  obtain r2 st2 where r: "match_right ?after ?t (?p + length bs) st1 ?f = (r2, st2)" by fastforce
  have v: "verify sg ctx a steps =
      (case r1 of None \<Rightarrow> (False, st1) | Some s \<Rightarrow>
        (case r2 of None \<Rightarrow> (False, st2) | Some e \<Rightarrow>
           if fullword sg \<and> \<not> on_word_boundaries ?t s e then (False, st2)
           else (offset_allows (sig_offset sg) ctx s e, st2)))"
    using A(1-3) bs(1) l r by (auto simp: verify_def Let_def split: option.splits)
  from v assms(3,4) l A(4) match_left_complete(1) obtain s where s: "r1 = Some s"
    by (cases r1) auto
  from v s assms(3,4) r A(5) match_right_complete(1) obtain e where e: "r2 = Some e"
    by (cases r2) auto
  have ls: "parts_match ?f ?before ?t s ?p" using match_left_sound(1) l s A(2) by simp
  have re: "parts_match ?f ?after ?t (?p + length bs) e" using match_right_sound(1) r e by simp
  have e_in: "e \<le> length ?t" using parts_match_end [OF re] A(2) by simp
  have fail: "(fullword sg \<and> \<not> on_word_boundaries ?t s e) \<or> \<not> offset_allows (sig_offset sg) ctx s e"
    using v s e assms(3) by (auto split: if_splits)
  have start: "s = start" if "list_all (\<lambda>p. \<not> is_gap p) ?before"
    using parts_match_gap_free [OF that A(4) ls] by simp
  have en: "e = en" if "list_all (\<lambda>p. \<not> is_gap p) ?after"
    using parts_match_gap_free [OF that A(5) re] by simp
  from assms(2) consider "\<not> fullword sg" "off_base (sig_offset sg) = Anywhere"
    | "\<not> fullword sg" "list_all (\<lambda>p. \<not> is_gap p) ?before"
    | "list_all (\<lambda>p. \<not> is_gap p) (parts sg)"
    by (auto simp: settled_def)
  then show False
  proof cases
    case 1
    with fail show ?thesis by (simp add: offset_allows_def)
  next
    case 2
    with m fail start offset_allows_end e_in show ?thesis by (auto simp: signature_matches_def)
  next
    case 3
    have "list_all (\<lambda>p. \<not> is_gap p) ?before" "list_all (\<lambda>p. \<not> is_gap p) ?after"
      using 3 by (auto simp: list_all_iff dest: in_set_takeD in_set_dropD)
    with m fail start en show ?thesis by (auto simp: signature_matches_def)
  qed
qed

section \<open>Properties\<close>

lemmas match_eval =
  match_right.simps gap_right.simps match_left.simps gap_left.simps gap_limit_def bytes_match_def
  byte_matches_def slice_def checked_sub_def pattern_limits Let_def

text \<open>
  (C18) A candidate is confirmed only if the signature is really there: when \<open>verify\<close> answers true,
  some stretch of the text is covered by all of the signature's parts, in order, with the anchor
  where the automaton found it, on word boundaries if \<^verbatim>\<open>::f\<close> asks for them, and starting where the
  signature's offset allows.
\<close>

theorem verify_sound:
  assumes "wf_signature sg" "fst (verify sg ctx a steps)"
  shows "\<exists>start en. anchored_at sg ctx a start en \<and> signature_matches sg ctx start en"
  using verify_True [OF assms(1), of ctx a steps] assms(2)
  by (cases "verify sg ctx a steps") auto

definition example_signature :: signature where
  "example_signature =
     \<lparr>sig_name = ''Example'', sig_target = TargetAny,
      sig_offset = \<lparr>off_base = Anywhere, off_shift = 0\<rparr>,
      parts = [Bytes [Some 1, None], Gap 1 (Some 2), Bytes [Some 5, Some 6, Some 7, Some 8]],
      anchor_part = 2, anchor_start = 0, anchor_len = 4,
      piece = False, fold_case = False, fullword = False\<rparr>"

definition example_context :: "bytes \<Rightarrow> context_data" where
  "example_context content =
     \<lparr>ctx_text = content, ctx_file_size = length content, ctx_truncated = False,
      ctx_layout = empty_layout\<rparr>"

lemma wf_example_signature: "wf_signature example_signature"
  by (auto simp: wf_signature_def example_signature_def MIN_ANCHOR_def less_Suc_eq numeral_eq_Suc)

theorem verify_sound_witness:
  "verify example_signature (example_context [9, 1, 2, 3, 5, 6, 7, 8]) 4 0 = (True, 3) \<and>
   (\<exists>start en. anchored_at example_signature (example_context [9, 1, 2, 3, 5, 6, 7, 8]) 4 start en \<and>
      signature_matches example_signature (example_context [9, 1, 2, 3, 5, 6, 7, 8]) start en)"
proof -
  have v: "verify example_signature (example_context [9, 1, 2, 3, 5, 6, 7, 8]) 4 0 = (True, 3)"
    by (simp add: verify_def example_signature_def example_context_def match_eval offset_allows_def)
  then have "fst (verify example_signature (example_context [9, 1, 2, 3, 5, 6, 7, 8]) 4 0)" by simp
  from verify_sound [OF wf_example_signature this] v show ?thesis by blast
qed

text \<open>
  (C27) A candidate is rejected only if the signature is not there: when \<open>verify\<close> answers false within
  the step budget, and the signature's first match settles it (no gap before the anchor of an
  offset-bound signature, no gap at all under \<^verbatim>\<open>::f\<close>), then no placement of the parts around this
  anchor satisfies the signature.
\<close>

theorem verify_complete:
  assumes "wf_signature sg" "settled sg" "verify sg ctx a steps = (False, steps')"
    "steps' \<le> MAX_VERIFY_STEPS"
  shows "\<not> (\<exists>start en. anchored_at sg ctx a start en \<and> signature_matches sg ctx start en)"
  using verify_False [OF assms] by blast

theorem verify_complete_witness:
  "verify example_signature (example_context [1, 2, 5, 6, 7, 8]) 2 0 = (False, 6) \<and>
   \<not> (\<exists>start en. anchored_at example_signature (example_context [1, 2, 5, 6, 7, 8]) 2 start en \<and>
        signature_matches example_signature (example_context [1, 2, 5, 6, 7, 8]) start en)"
proof -
  have v: "verify example_signature (example_context [1, 2, 5, 6, 7, 8]) 2 0 = (False, 6)"
    by (simp add: verify_def example_signature_def example_context_def match_eval offset_allows_def)
  moreover have "settled example_signature" by (simp add: settled_def example_signature_def)
  ultimately show ?thesis
    using verify_complete [OF wf_example_signature _ v] by (simp add: pattern_limits)
qed

text \<open>
  Outside those conditions the matcher misses real matches: \<open>match_left\<close> returns the nearest
  placement of the parts before the anchor and \<open>verify\<close> checks the offset only for that one. Here
  the signature \<^verbatim>\<open>0:aabb{0-4}0102030405060708\<close> covers the whole text from offset 0, yet \<open>verify\<close>
  rejects it, because a second \<^verbatim>\<open>aabb\<close> sits closer to the anchor.
\<close>

definition offset_bound_signature :: signature where
  "offset_bound_signature =
     \<lparr>sig_name = ''Example'', sig_target = TargetAny,
      sig_offset = \<lparr>off_base = Absolute 0, off_shift = 0\<rparr>,
      parts = [Bytes [Some 0xAA, Some 0xBB], Gap 0 (Some 4),
               Bytes [Some 1, Some 2, Some 3, Some 4, Some 5, Some 6, Some 7, Some 8]],
      anchor_part = 2, anchor_start = 0, anchor_len = 8,
      piece = False, fold_case = False, fullword = False\<rparr>"

theorem verify_misses_farther_placement:
  "let content = [0xAA, 0xBB, 0xAA, 0xBB, 1, 2, 3, 4, 5, 6, 7, 8];
       ctx = example_context content
   in wf_signature offset_bound_signature \<and>
      signature_matches offset_bound_signature ctx 0 12 \<and>
      anchored_at offset_bound_signature ctx 4 0 12 \<and>
      verify offset_bound_signature ctx 4 0 = (False, 3)"
proof -
  have w: "wf_signature offset_bound_signature"
    by (auto simp: wf_signature_def offset_bound_signature_def MIN_ANCHOR_def less_Suc_eq numeral_eq_Suc)
  have "\<exists>k. k \<le> min 4 (MAX_UNBOUNDED_GAP) \<and> 2 + k = 4 \<and> 2 + k \<le> (12::nat)"
    by (rule exI [of _ 2]) (simp add: pattern_limits)
  then show ?thesis using w
    by (simp add: signature_matches_def anchored_at_def offset_bound_signature_def example_context_def
        verify_def match_eval offset_allows_def saturating_add_def)
qed

text \<open>
  The step budget is spent per file, not per candidate: \<open>verify\<close> receives the running total, so
  once the candidates of a file have together used \<open>MAX_VERIFY_STEPS\<close> steps, no signature of more
  than one part can match anywhere in the rest of it. The comment on the constant promises a
  limit on what one candidate may cost.
\<close>

theorem verify_fails_once_budget_spent:
  assumes "wf_signature sg" "2 \<le> length (parts sg)" "MAX_VERIFY_STEPS \<le> steps"
  shows "\<not> fst (verify sg ctx a steps)"
proof -
  have left: "fst (match_left ps content i steps f) = None"
    if "ps \<noteq> []" "\<And>bs. Bytes bs \<in> set ps \<Longrightarrow> bs \<noteq> []" for ps content i f
  proof (cases "last ps")
    case (Bytes bs)
    with that have "0 < length bs" by (metis last_in_set length_greater_0_conv)
    with assms(3) have "MAX_VERIFY_STEPS < steps + length bs" by linarith
    with that Bytes assms(3) show ?thesis
      by (cases ps rule: rev_cases) (auto simp: match_left_unfold Let_def split: option.splits)
  next
    case (Gap mn mx)
    with that assms(3) show ?thesis
      by (cases ps rule: rev_cases) (auto simp: match_left_unfold gap_left.simps Let_def)
  qed
  have right: "fst (match_right ps content i steps f) = None"
    if "ps \<noteq> []" "\<And>bs. Bytes bs \<in> set ps \<Longrightarrow> bs \<noteq> []" for ps content i f
  proof (cases ps)
    case (Cons p qs)
    have "MAX_VERIFY_STEPS < steps + length bs" if "p = Bytes bs" for bs
    proof -
      have "0 < length bs" using \<open>\<And>bs. Bytes bs \<in> set ps \<Longrightarrow> bs \<noteq> []\<close> Cons that by simp
      with assms(3) show ?thesis by linarith
    qed
    with Cons assms(3) show ?thesis
      by (cases p) (auto simp: gap_right.simps Let_def)
  qed (use that in simp)
  have ne: "\<And>bs. Bytes bs \<in> set (parts sg) \<Longrightarrow> bs \<noteq> []" using assms(1) by (simp add: wf_signature_def)
  show ?thesis
  proof (cases "anchor_part sg = 0")
    case False
    with assms(1,2) have "take (anchor_part sg) (parts sg) \<noteq> []" by auto
    then have "fst (match_left (take (anchor_part sg) (parts sg)) content i steps f) = None" for content i f
      by (rule left) (use ne in_set_takeD in fast)
    then show ?thesis
      by (simp add: verify_def Let_def prod.case_eq_if split: part.splits option.splits)
  next
    case True
    with assms(2) have "drop (Suc (anchor_part sg)) (parts sg) \<noteq> []" by simp
    then have "fst (match_right (drop (Suc (anchor_part sg)) (parts sg)) content i steps f) = None" for content i f
      by (rule right) (use ne in_set_dropD in fast)
    then show ?thesis using True
      by (simp add: verify_def Let_def prod.case_eq_if match_left_unfold split: part.splits option.splits)
  qed
qed

theorem verify_fails_once_budget_spent_witness:
  "\<not> fst (verify example_signature (example_context [9, 1, 2, 3, 5, 6, 7, 8]) 4 4194304)"
proof -
  have "2 \<le> length (parts example_signature)" by (simp add: example_signature_def)
  moreover have "MAX_VERIFY_STEPS \<le> 4194304" by (simp add: pattern_limits)
  ultimately show ?thesis by (rule verify_fails_once_budget_spent [OF wf_example_signature])
qed

end
