(* ===== verification/Sigparse.thy ===== *)
theory Sigparse
  imports Matcher
begin

text \<open>
  How \<^verbatim>\<open>src/clamdb/pattern.rs\<close> reads signature lines: the hexadecimal pattern (\<^verbatim>\<open>parse_hex\<close>,
  \<^verbatim>\<open>parse_range\<close>), the offset, the choice of the anchor, and the body (\<^verbatim>\<open>.ndb\<close>) and piece (\<^verbatim>\<open>.ldb\<close>)
  parsers that put them together. The cursor of \<^verbatim>\<open>parse_hex\<close> is the text still to be read. The
  scores of \<^verbatim>\<open>window_score\<close> are multiples of 0.5 far below the precision of an \<^verbatim>\<open>f32\<close>, so they are
  kept here in halves, as naturals.

  The lemmas show that a parsed pattern alternates byte runs and gaps and begins and ends with
  bytes, that the anchor is a window of fixed bytes inside one run, that every signature the
  loader keeps is well formed in the sense the matcher needs, and that printing and parsing a
  pattern are inverse.
\<close>

section \<open>Hexadecimal patterns\<close>

definition parse_range :: "string \<Rightarrow> (nat \<times> nat option) option" where
  "parse_range content =
     do { (mn, mx) \<leftarrow>
            (case split_once (CHR ''-'') content of
               None \<Rightarrow> do { exact \<leftarrow> parse_usize content; Some (exact, Some exact) }
             | Some (l, r) \<Rightarrow>
                 if l = [] then do { mx \<leftarrow> parse_usize r; Some (0, Some mx) }
                 else if r = [] then do { mn \<leftarrow> parse_usize l; Some (mn, None) }
                 else do { mn \<leftarrow> parse_usize l; mx \<leftarrow> parse_usize r; Some (mn, Some mx) });
          if (case mx of None \<Rightarrow> False | Some m \<Rightarrow> m < mn) \<or> mn > MAX_UNBOUNDED_GAP then None
          else Some (mn, mx) }"

definition flush :: "byte option list \<Rightarrow> part list \<Rightarrow> part list" where
  "flush run ps = (if run = [] then ps else ps @ [Bytes run])"

text \<open>Two hexadecimal digits as a byte: \<^verbatim>\<open>u8::from_str_radix(.., 16)\<close>.\<close>

definition hex_pair :: "char \<Rightarrow> char \<Rightarrow> byte option" where
  "hex_pair high low = map_option word_of_nat (from_str_radix 16 u8_max [high, low])"

function hex_loop :: "string \<Rightarrow> byte option list \<Rightarrow> part list \<Rightarrow> part list option" where
  "hex_loop s run ps =
     (case s of
        [] \<Rightarrow> Some (flush run ps)
      | c # cs \<Rightarrow>
          if c = CHR ''*'' then hex_loop cs [] (flush run ps @ [Gap 0 None])
          else if c = CHR ''{'' then
            (case split_once (CHR ''}'') cs of
               None \<Rightarrow> None
             | Some (inner, rest) \<Rightarrow>
                 (case parse_range inner of
                    None \<Rightarrow> None
                  | Some (mn, mx) \<Rightarrow> hex_loop rest [] (flush run ps @ [Gap mn mx])))
          else if c = CHR ''?'' \<and> (case cs of d # _ \<Rightarrow> d = CHR ''?'' | [] \<Rightarrow> False) then
            hex_loop (tl cs) (run @ [None]) ps
          else
            (case cs of
               [] \<Rightarrow> None
             | low # rest \<Rightarrow>
                 (case hex_pair c low of
                    None \<Rightarrow> None
                  | Some v \<Rightarrow> hex_loop rest (run @ [Some v]) ps)))"
  by pat_completeness auto
termination
  by (relation "measure (\<lambda>(s, _). length s)") (auto simp: split_once_Some split: list.splits)

declare hex_loop.simps [simp del]

text \<open>
  Adjacent gaps are merged. The upper bounds are \<^verbatim>\<open>usize\<close> values added without a check, so their sum
  wraps in the release build the product ships.
\<close>

definition merge_max :: "nat option \<Rightarrow> nat option \<Rightarrow> nat option" where
  "merge_max a b = (case (a, b) of (Some l, Some r) \<Rightarrow> Some ((l + r) mod 2 ^ 64) | _ \<Rightarrow> None)"

definition merge_step :: "part list \<Rightarrow> part \<Rightarrow> part list" where
  "merge_step merged p =
     (if merged = [] then [p]
      else case (last merged, p) of
        (Gap mn mx, Gap mn2 mx2) \<Rightarrow> butlast merged @ [Gap (mn + mn2) (merge_max mx mx2)]
      | _ \<Rightarrow> merged @ [p])"

definition is_star :: "part \<Rightarrow> bool" where
  "is_star p \<longleftrightarrow> p = Gap 0 None"

definition parse_hex :: "string \<Rightarrow> part list option" where
  "parse_hex content =
     (if content = [] \<or> length content > MAX_SIGNATURE_BYTES * 2 + 64 then None
      else case hex_loop content [] [] of
        None \<Rightarrow> None
      | Some ps \<Rightarrow>
          (let merged = foldl merge_step [] ps;
               merged = (if merged \<noteq> [] \<and> is_star (hd merged) then tl merged else merged);
               merged = (if merged \<noteq> [] \<and> is_star (last merged) then butlast merged else merged)
           in if merged = [] \<or> is_gap (hd merged) \<or> is_gap (last merged) then None
              else Some merged))"

definition contains :: "string \<Rightarrow> char \<Rightarrow> bool" where
  "contains s c \<longleftrightarrow> c \<in> set s"

text \<open>\<^verbatim>\<open>replace("??", "")\<close>: the left-to-right removal of pairs of question marks.\<close>

fun remove_pairs :: "string \<Rightarrow> string" where
  "remove_pairs (x # y # s) =
     (if x = CHR ''?'' \<and> y = CHR ''?'' then remove_pairs s else x # remove_pairs (y # s))"
| "remove_pairs s = s"

definition hex_reason :: "string \<Rightarrow> string" where
  "hex_reason content =
     (if contains content (CHR ''!'') then ''hex: negated alternatives''
      else if contains content (CHR ''('') then ''hex: alternatives (a|b)''
      else if contains content (CHR ''['') then ''hex: byte-count ranges [n-m]''
      else if contains content (CHR ''?'') \<and> \<not> contains (remove_pairs content) (CHR ''?'')
      then ''hex: other wildcard''
      else if contains content (CHR ''?'') then ''hex: nibble wildcards (a?, ?a)''
      else if contains content (CHR ''{'') \<or> contains content (CHR ''*'') then ''hex: gap form''
      else ''hex: other'')"

section \<open>The anchor\<close>

definition MAX_ANCHOR :: nat where "MAX_ANCHOR = 12"
definition MIN_DISTINCT_BYTES :: nat where "MIN_DISTINCT_BYTES = 3"

text \<open>How rare a byte is in executables, in halves: 0.5 or 1.5.\<close>

definition byte_weight :: "byte \<Rightarrow> nat" where
  "byte_weight b =
     (if b \<in> {0x00, 0xff, 0x90, 0xcc, 0x20, 0x0a, 0x0d} \<or> (0x01 \<le> b \<and> b \<le> 0x04) \<or>
         b \<in> {0x08, 0x10, 0x24} \<or> (0x40 \<le> b \<and> b \<le> 0x5f) \<or>
         b \<in> {0x83, 0x89, 0x8b, 0xe8, 0x0f, 0xc2, 0xc3} then 1 else 3)"

fun window_score_from :: "byte list \<Rightarrow> nat \<Rightarrow> bytes \<Rightarrow> nat" where
  "window_score_from seen score [] = score"
| "window_score_from seen score (b # bs) =
     (if b \<in> set seen then window_score_from seen (score + byte_weight b) bs
      else window_score_from (b # seen) (score + byte_weight b + 1) bs)"

definition window_score :: "bytes \<Rightarrow> nat" where
  "window_score window = window_score_from [] 0 window"

type_synonym best = "(nat \<times> nat \<times> nat \<times> nat) option"

definition distinct_count :: "bytes \<Rightarrow> nat" where
  "distinct_count window = length (remdups window)"

text \<open>One window of a run, the windows of one run, the runs of one part, the parts.\<close>

definition try_window :: "nat \<Rightarrow> nat \<Rightarrow> bytes \<Rightarrow> nat \<Rightarrow> best \<Rightarrow> nat \<Rightarrow> best" where
  "try_window index start run width best off =
     (let window = slice run off (off + width) in
      if distinct_count window < MIN_DISTINCT_BYTES then best
      else let score = window_score window in
        if (case best of None \<Rightarrow> True | Some (best_score, _) \<Rightarrow> score > best_score)
        then Some (score, index, start + off, width) else best)"

definition try_run :: "nat \<Rightarrow> nat \<Rightarrow> bytes \<Rightarrow> best \<Rightarrow> best" where
  "try_run index start run best =
     (if length run \<ge> MIN_ANCHOR then
        (let width = min (length run) MAX_ANCHOR in
         foldl (try_window index start run width) best [0..<length run - width + 1])
      else best)"

definition fixed_run :: "byte option list \<Rightarrow> nat \<Rightarrow> bytes" where
  "fixed_run bs start = map the (takeWhile (\<lambda>b. b \<noteq> None) (drop start bs))"

lemma fixed_run_nonempty: "start < length bs \<Longrightarrow> bs ! start \<noteq> None \<Longrightarrow> fixed_run bs start \<noteq> []"
  by (simp add: fixed_run_def takeWhile_eq_Nil_iff hd_drop_conv_nth)

function scan_runs :: "nat \<Rightarrow> byte option list \<Rightarrow> nat \<Rightarrow> best \<Rightarrow> best" where
  "scan_runs index bs start best =
     (if start < length bs then
        (if bs ! start = None then scan_runs index bs (start + 1) best
         else let run = fixed_run bs start in
           scan_runs index bs (start + length run) (try_run index start run best))
      else best)"
  by pat_completeness auto
termination
proof (relation "measure (\<lambda>(index, bs, start, best). length bs - start)", goal_cases)
  case (3 index bs start best run)
  then have "0 < length run" using fixed_run_nonempty [of start bs] by simp
  with 3 show ?case by (simp del: length_greater_0_conv)
qed auto

declare scan_runs.simps [simp del]

definition scan_part :: "best \<Rightarrow> nat \<times> part \<Rightarrow> best" where
  "scan_part best ip = (case ip of (index, Bytes bs) \<Rightarrow> scan_runs index bs 0 best | (_, Gap _ _) \<Rightarrow> best)"

definition best_anchor :: "part list \<Rightarrow> (nat \<times> nat \<times> nat) option" where
  "best_anchor ps = map_option snd (foldl scan_part None (enumerate 0 ps))"

section \<open>Offsets\<close>

definition parse_base :: "string \<Rightarrow> base option" where
  "parse_base position =
     (if position = ''*'' then Some Anywhere
      else case strip_prefix ''EOF-'' position of
        Some distance \<Rightarrow> map_option FromEnd (parse_usize distance)
      | None \<Rightarrow> (case strip_prefix ''EP+'' position of
        Some delta \<Rightarrow> map_option EntryPoint (parse_isize delta)
      | None \<Rightarrow> (case strip_prefix ''EP-'' position of
        Some delta \<Rightarrow> map_option (\<lambda>d. EntryPoint (if d = - (2 ^ 63) then d else - d)) (parse_isize delta)
      | None \<Rightarrow> (case strip_prefix ''SL+'' position of
        Some delta \<Rightarrow> map_option (Section None) (parse_usize delta)
      | None \<Rightarrow> (case strip_prefix ''S'' position of
        Some rest \<Rightarrow>
          do { (index, delta) \<leftarrow> split_once (CHR ''+'') rest;
               i \<leftarrow> parse_usize index;
               d \<leftarrow> parse_usize delta;
               Some (Section (Some i) d) }
      | None \<Rightarrow> map_option Absolute (parse_usize position))))))"

definition parse_offset :: "string \<Rightarrow> offset option" where
  "parse_offset content =
     do { (position, shift) \<leftarrow>
            (case split_once (CHR '','') content of
               Some (position, shift) \<Rightarrow> do { n \<leftarrow> parse_usize shift; Some (position, n) }
             | None \<Rightarrow> Some (content, 0));
          b \<leftarrow> parse_base position;
          if (b = Anywhere \<and> shift \<noteq> 0) \<or> shift > 2 ^ 16 then None
          else Some \<lparr>off_base = b, off_shift = shift\<rparr> }"

definition is_pe_base :: "base \<Rightarrow> bool" where
  "is_pe_base b = (case b of EntryPoint _ \<Rightarrow> True | Section _ _ \<Rightarrow> True | _ \<Rightarrow> False)"

section \<open>Body signatures\<close>

datatype parsed = Kept signature | Unsupported string | TooWeak

definition part_fixed :: "part \<Rightarrow> nat" where
  "part_fixed p = (case p of Bytes bs \<Rightarrow> length (filter (\<lambda>b. b \<noteq> None) bs) | Gap _ _ \<Rightarrow> 0)"

definition fixed_bytes :: "signature \<Rightarrow> nat" where
  "fixed_bytes sg = sum_list (map part_fixed (parts sg))"

definition build_signature :: "string \<Rightarrow> target \<Rightarrow> offset \<Rightarrow> string \<Rightarrow> nat \<Rightarrow> parsed" where
  "build_signature name targ off hex min_fixed =
     (case parse_hex hex of
        None \<Rightarrow> Unsupported (hex_reason hex)
      | Some ps \<Rightarrow>
          if sum_list (map part_fixed ps) < min_fixed then TooWeak
          else case best_anchor ps of
            None \<Rightarrow> TooWeak
          | Some (ap, as, al) \<Rightarrow>
              Kept \<lparr>sig_name = name, sig_target = targ, sig_offset = off, parts = ps,
                    anchor_part = ap, anchor_start = as, anchor_len = al,
                    piece = False, fold_case = False, fullword = False\<rparr>)"

definition target_of :: "string \<Rightarrow> target option" where
  "target_of s =
     (if s = ''0'' then Some TargetAny
      else if s = ''1'' then Some TargetPe
      else if s = ''2'' then Some TargetOle2
      else if s = ''6'' then Some TargetElf
      else if s = ''10'' then Some TargetPdf else None)"

definition parse_line :: "string \<Rightarrow> parsed" where
  "parse_line line =
     (let fields = split_on (CHR '':'') (trim line) in
      if length fields < 4 then Unsupported ''ndb: malformed line''
      else let name = trim (fields ! 0) in
        if name = [] then Unsupported ''ndb: malformed line''
        else case target_of (trim (fields ! 1)) of
          None \<Rightarrow> Unsupported ''ndb: target type (text, mail, graphics, ...)''
        | Some targ \<Rightarrow>
            (case parse_offset (trim (fields ! 2)) of
               None \<Rightarrow> Unsupported ''ndb: offset form''
             | Some off \<Rightarrow>
                 if is_pe_base (off_base off) \<and> targ \<noteq> TargetPe
                 then Unsupported ''ndb: PE offset on a non-PE target''
                 else build_signature name targ off (trim (fields ! 3)) MIN_FIXED_BYTES))"

section \<open>Pieces of logical signatures\<close>

definition MAX_LOGICAL_SUBSIGNATURES :: nat where "MAX_LOGICAL_SUBSIGNATURES = 64"

fun every_other :: "'a list \<Rightarrow> 'a list" where
  "every_other (x # y # xs) = y # every_other xs"
| "every_other _ = []"

definition fixed_bytes_narrow :: "signature \<Rightarrow> nat" where
  "fixed_bytes_narrow sg =
     (case parts sg of
        Bytes run # _ \<Rightarrow>
          if length run \<ge> 2 \<and> list_all (\<lambda>b. b = Some 0) (every_other run)
          then fixed_bytes sg div 2 else fixed_bytes sg
      | _ \<Rightarrow> fixed_bytes sg)"

fun pairs_to_bytes :: "string \<Rightarrow> bytes option" where
  "pairs_to_bytes (h # l # s) = do { b \<leftarrow> hex_pair h l; bs \<leftarrow> pairs_to_bytes s; Some (b # bs) }"
| "pairs_to_bytes [h] = map_option (\<lambda>n. [word_of_nat n]) (from_str_radix 16 u8_max [h])"
| "pairs_to_bytes [] = Some []"

definition parse_literal :: "string \<Rightarrow> bytes option" where
  "parse_literal hex =
     (if hex = [] \<or> odd (length hex) \<or> length hex > MAX_SIGNATURE_BYTES * 2 then None
      else pairs_to_bytes hex)"

text \<open>One entry of a target block, and the loop over its entries.\<close>

definition target_entry :: "target option \<times> (nat \<times> nat) option \<Rightarrow> string \<Rightarrow>
    (target option \<times> (nat \<times> nat) option) option" where
  "target_entry st entry =
     do { (key, value) \<leftarrow> split_once (CHR '':'') entry;
          if trim key = ''Target'' then
            do { t \<leftarrow> target_of (trim value); Some (Some t, snd st) }
          else if trim key = ''FileSize'' then
            do { (least, most) \<leftarrow> split_once (CHR ''-'') (trim value);
                 l \<leftarrow> parse_u64 least;
                 m \<leftarrow> parse_u64 most;
                 Some (fst st, Some (l, m)) }
          else if trim key = ''Engine'' then Some st
          else None }"

fun target_entries :: "target option \<times> (nat \<times> nat) option \<Rightarrow> string list \<Rightarrow>
    (target option \<times> (nat \<times> nat) option) option" where
  "target_entries st [] = Some st"
| "target_entries st (e # es) = do { st' \<leftarrow> target_entry st e; target_entries st' es }"

definition parse_target_block :: "string \<Rightarrow> (target \<times> (nat \<times> nat) option) option" where
  "parse_target_block content =
     do { (targ, size) \<leftarrow> target_entries (None, None) (split_on (CHR '','') content);
          t \<leftarrow> targ;
          Some (t, size) }"

record modifiers =
  m_fold :: bool
  m_wide :: bool
  m_ascii :: bool
  m_fullword :: bool

fun read_modifiers :: "modifiers \<Rightarrow> string \<Rightarrow> modifiers option" where
  "read_modifiers m [] = Some m"
| "read_modifiers m (c # cs) =
     (if c = CHR ''i'' then read_modifiers (m\<lparr>m_fold := True\<rparr>) cs
      else if c = CHR ''w'' then read_modifiers (m\<lparr>m_wide := True\<rparr>) cs
      else if c = CHR ''a'' then read_modifiers (m\<lparr>m_ascii := True\<rparr>) cs
      else if c = CHR ''f'' then read_modifiers (m\<lparr>m_fullword := True\<rparr>) cs
      else None)"

definition widen :: "bytes \<Rightarrow> bytes" where
  "widen bs = concat (map (\<lambda>b. [b, 0]) bs)"

text \<open>The signatures of the literal forms of a piece; \<open>None\<close> if one has no anchor.\<close>

fun literal_signatures :: "string \<Rightarrow> target \<Rightarrow> offset \<Rightarrow> modifiers \<Rightarrow> bytes list \<Rightarrow> signature list option" where
  "literal_signatures name targ off m [] = Some []"
| "literal_signatures name targ off m (bs # forms) =
     (let ps = [Bytes (map Some bs)] in
      case best_anchor ps of
        None \<Rightarrow> None
      | Some (ap, as, al) \<Rightarrow>
          do { rest \<leftarrow> literal_signatures name targ off m forms;
               Some (\<lparr>sig_name = name, sig_target = targ, sig_offset = off, parts = ps,
                      anchor_part = ap, anchor_start = as, anchor_len = al,
                      piece = False, fold_case = m_fold m, fullword = m_fullword m\<rparr> # rest) })"

text \<open>
  \<^verbatim>\<open>parse_piece\<close>: a piece with its optional offset and modifiers. The first argument of the sum is
  the \<^verbatim>\<open>Err\<close> of the source.
\<close>

definition plain_piece :: "string \<Rightarrow> target \<Rightarrow> offset \<Rightarrow> string \<Rightarrow> modifiers \<Rightarrow> parsed + signature list" where
  "plain_piece name targ off hex m =
     (case build_signature name targ off hex MIN_ANCHOR of
        Kept sg \<Rightarrow> Inr [sg\<lparr>fold_case := m_fold m, fullword := m_fullword m\<rparr>]
      | other \<Rightarrow> Inl other)"

definition no_modifiers :: modifiers where
  "no_modifiers = \<lparr>m_fold = False, m_wide = False, m_ascii = False, m_fullword = False\<rparr>"

definition modified_piece :: "string \<Rightarrow> target \<Rightarrow> offset \<Rightarrow> string \<Rightarrow> modifiers \<Rightarrow> parsed + signature list" where
  "modified_piece name targ off hex m =
     (if m_wide m \<and> m_fullword m then Inl (Unsupported ''ldb piece: fullword on wide text'')
      else if m_wide m \<and> parse_literal hex = None
      then Inl (Unsupported ''ldb piece: wide modifier on a pattern with wildcards'')
      else case parse_literal hex of
        None \<Rightarrow> plain_piece name targ off hex m
      | Some literal \<Rightarrow>
          if length literal < MIN_ANCHOR then Inl TooWeak
          else case literal_signatures name targ off m
                 ((if \<not> m_wide m \<or> m_ascii m then [literal] else []) @
                  (if m_wide m then [widen literal] else [])) of
            None \<Rightarrow> Inl TooWeak
          | Some sgs \<Rightarrow> Inr sgs)"

definition parse_piece :: "string \<Rightarrow> target \<Rightarrow> string \<Rightarrow> parsed + signature list" where
  "parse_piece name targ content =
     (if content = [] then Inl (Unsupported ''ldb: empty piece'')
      else if hd content = CHR ''/'' then Inl (Unsupported ''ldb piece: regular expression'')
      else if contains content (CHR ''$'') then Inl (Unsupported ''ldb piece: macro'')
      else
        (let (body, mods) = (case split_once2 (CHR '':'') (CHR '':'') content of
                               Some (b, m) \<Rightarrow> (b, Some m) | None \<Rightarrow> (content, None))
         in case (case split_once (CHR '':'') body of
                    Some (o_text, hex) \<Rightarrow> map_option (\<lambda>off. (off, hex)) (parse_offset o_text)
                  | None \<Rightarrow> Some (\<lparr>off_base = Anywhere, off_shift = 0\<rparr>, body)) of
              None \<Rightarrow> Inl (Unsupported ''ldb piece: offset form'')
            | Some (off, hex) \<Rightarrow>
                if is_pe_base (off_base off) \<and> targ \<noteq> TargetPe
                then Inl (Unsupported ''ldb piece: PE offset on a non-PE target'')
                else (case mods of
                        None \<Rightarrow> plain_piece name targ off hex no_modifiers
                      | Some ms \<Rightarrow>
                          (case read_modifiers no_modifiers ms of
                             None \<Rightarrow> Inl (Unsupported ''ldb piece: modifier other than i, w, a, f'')
                           | Some m \<Rightarrow> modified_piece name targ off hex m))))"

section \<open>Parsed patterns alternate runs and gaps\<close>

definition nonempty_runs :: "part list \<Rightarrow> bool" where
  "nonempty_runs ps \<longleftrightarrow> (\<forall>bs. Bytes bs \<in> set ps \<longrightarrow> bs \<noteq> [])"

definition wf_parts :: "part list \<Rightarrow> bool" where
  "wf_parts ps \<longleftrightarrow>
     ps \<noteq> [] \<and> \<not> is_gap (hd ps) \<and> \<not> is_gap (last ps) \<and>
     successively (\<lambda>p q. is_gap p \<noteq> is_gap q) ps \<and> nonempty_runs ps"

lemma is_gap_simps [simp]: "is_gap (Gap mn mx)" "\<not> is_gap (Bytes bs)"
  by (simp_all add: is_gap_def)

lemma nonempty_runs_Nil [simp]: "nonempty_runs []"
  by (simp add: nonempty_runs_def)

lemma is_gapE: "is_gap p \<Longrightarrow> (\<And>mn mx. p = Gap mn mx \<Longrightarrow> P) \<Longrightarrow> P"
  by (cases p) auto

text \<open>No two byte runs are adjacent while the pattern is read.\<close>

definition gap_separated :: "part list \<Rightarrow> bool" where
  "gap_separated ps \<longleftrightarrow> successively (\<lambda>p q. is_gap p \<or> is_gap q) ps"

lemma flush_gap_separated:
  "gap_separated ps \<Longrightarrow> ps = [] \<or> is_gap (last ps) \<Longrightarrow> gap_separated (flush run ps)"
  by (auto simp: gap_separated_def flush_def successively_append_iff)

lemma flush_nonempty_runs: "nonempty_runs ps \<Longrightarrow> nonempty_runs (flush run ps)"
  by (auto simp: nonempty_runs_def flush_def)

lemma gap_separated_snoc_gap: "gap_separated ps \<Longrightarrow> gap_separated (ps @ [Gap mn mx])"
  by (auto simp: gap_separated_def successively_append_iff)

lemma nonempty_runs_snoc_gap: "nonempty_runs ps \<Longrightarrow> nonempty_runs (ps @ [Gap mn mx])"
  by (auto simp: nonempty_runs_def)

lemma hex_loop_wf:
  "hex_loop s run ps = Some out \<Longrightarrow> gap_separated ps \<Longrightarrow> nonempty_runs ps \<Longrightarrow> ps = [] \<or> is_gap (last ps) \<Longrightarrow>
     gap_separated out \<and> nonempty_runs out"
proof (induction s run ps arbitrary: out rule: hex_loop.induct)
  case (1 s run ps)
  note pre = flush_gap_separated [OF "1.prems"(2,4), of run] flush_nonempty_runs [OF "1.prems"(3), of run]
  have gap: "gap_separated (flush run ps @ [Gap mn mx])" "nonempty_runs (flush run ps @ [Gap mn mx])" for mn mx
    using pre by (simp_all add: gap_separated_snoc_gap nonempty_runs_snoc_gap)
  show ?case
  proof (cases s)
    case Nil
    with "1.prems" pre show ?thesis by (simp add: hex_loop.simps)
  next
    case (Cons c cs)
    consider "c = CHR ''*''" | "c = CHR ''{''"
      | "c \<noteq> CHR ''*''" "c \<noteq> CHR ''{''" "c = CHR ''?'' \<and> (case cs of d # _ \<Rightarrow> d = CHR ''?'' | [] \<Rightarrow> False)"
      | "c \<noteq> CHR ''*''" "c \<noteq> CHR ''{''" "\<not> (c = CHR ''?'' \<and> (case cs of d # _ \<Rightarrow> d = CHR ''?'' | [] \<Rightarrow> False))"
      by blast
    then show ?thesis
    proof cases
      case 1
      then have "hex_loop cs [] (flush run ps @ [Gap 0 None]) = Some out"
        using "1.prems"(1) Cons by (simp add: hex_loop.simps)
      from "1.IH"(1) [OF Cons 1 this gap] show ?thesis by simp
    next
      case 2
      then obtain inner rest mn mx where i: "split_once (CHR ''}'') cs = Some (inner, rest)"
        "parse_range inner = Some (mn, mx)" "hex_loop rest [] (flush run ps @ [Gap mn mx]) = Some out"
        using "1.prems"(1) Cons by (auto simp: hex_loop.simps [of "CHR ''{'' # cs"] split: option.splits)
      from "1.IH"(2) [OF Cons _ 2 i(1) refl i(2) refl i(3) gap] 2 show ?thesis by simp
    next
      case 3
      then have "hex_loop (tl cs) (run @ [None]) ps = Some out"
        using "1.prems"(1) Cons by (simp add: hex_loop.simps)
      from "1.IH"(3) [OF Cons 3 this "1.prems"(2-4)] show ?thesis .
    next
      case 4
      then obtain low rest v where i: "cs = low # rest" "hex_pair c low = Some v"
        "hex_loop rest (run @ [Some v]) ps = Some out"
        using "1.prems"(1) Cons by (auto simp: hex_loop.simps [of "c # cs"] split: list.splits option.splits if_splits)
      from "1.IH"(4) [OF Cons 4 i "1.prems"(2-4)] show ?thesis .
    qed
  qed
qed

lemma merge_step_gap: "is_gap (last (merge_step merged p)) = is_gap p" "merge_step merged p \<noteq> []"
  by (auto simp: merge_step_def split: part.splits)

lemma merge_step_alternates:
  assumes "successively (\<lambda>p q. is_gap p \<noteq> is_gap q) merged" "merged = [] \<or> is_gap (last merged) \<or> is_gap p"
  shows "successively (\<lambda>p q. is_gap p \<noteq> is_gap q) (merge_step merged p)"
proof (cases merged rule: rev_cases)
  case Nil
  then show ?thesis by (simp add: merge_step_def)
next
  case (snoc ms q)
  then show ?thesis
    using assms by (cases p; cases q) (auto simp: merge_step_def successively_append_iff)
qed

lemma merge_alternates:
  "gap_separated ps \<Longrightarrow>
     successively (\<lambda>p q. is_gap p \<noteq> is_gap q) (foldl merge_step [] ps) \<and>
     (ps \<noteq> [] \<longrightarrow> is_gap (last (foldl merge_step [] ps)) = is_gap (last ps))"
proof (induction ps rule: rev_induct)
  case (snoc p ps)
  then have IH: "successively (\<lambda>p q. is_gap p \<noteq> is_gap q) (foldl merge_step [] ps)"
    "ps \<noteq> [] \<longrightarrow> is_gap (last (foldl merge_step [] ps)) = is_gap (last ps)"
    by (auto simp: gap_separated_def successively_append_iff)
  have "foldl merge_step [] ps = [] \<or> is_gap (last (foldl merge_step [] ps)) \<or> is_gap p"
    using snoc.prems IH(2) by (cases "ps = []") (auto simp: gap_separated_def successively_append_iff)
  from merge_step_alternates [OF IH(1) this] show ?case by (simp add: merge_step_gap)
qed simp

lemma merge_step_nonempty_runs:
  "nonempty_runs merged \<Longrightarrow> nonempty_runs [p] \<Longrightarrow> nonempty_runs (merge_step merged p)"
  by (auto simp: nonempty_runs_def merge_step_def split: part.splits dest: in_set_butlastD)

lemma merge_nonempty_runs: "nonempty_runs ps \<Longrightarrow> nonempty_runs (foldl merge_step [] ps)"
proof (induction ps rule: rev_induct)
  case (snoc p ps)
  then have "nonempty_runs (foldl merge_step [] ps)" "nonempty_runs [p]" by (auto simp: nonempty_runs_def)
  then show ?case by (simp add: merge_step_nonempty_runs)
qed (simp add: nonempty_runs_def)

lemma successively_tl: "successively P xs \<Longrightarrow> successively P (tl xs)"
  by (cases xs; cases "tl xs") auto

lemma successively_butlast: "successively P xs \<Longrightarrow> successively P (butlast xs)"
  by (cases xs rule: rev_cases) (auto simp: successively_append_iff)

lemma nonempty_runs_tl: "nonempty_runs ps \<Longrightarrow> nonempty_runs (tl ps)"
  by (cases ps) (auto simp: nonempty_runs_def)

lemma nonempty_runs_butlast: "nonempty_runs ps \<Longrightarrow> nonempty_runs (butlast ps)"
  by (auto simp: nonempty_runs_def dest: in_set_butlastD)

lemma parse_hex_parts:
  assumes "parse_hex content = Some ps"
  shows "wf_parts ps"
proof -
  from assms obtain raw where "hex_loop content [] [] = Some raw"
    by (auto simp: parse_hex_def split: if_splits option.splits)
  from hex_loop_wf [OF this] have raw: "gap_separated raw" "nonempty_runs raw"
    by (auto simp: gap_separated_def nonempty_runs_def)
  let ?m = "foldl merge_step [] raw"
  have m: "successively (\<lambda>p q. is_gap p \<noteq> is_gap q) ?m" "nonempty_runs ?m"
    using merge_alternates [OF raw(1)] merge_nonempty_runs [OF raw(2)] by auto
  let ?m1 = "if ?m \<noteq> [] \<and> is_star (hd ?m) then tl ?m else ?m"
  let ?m2 = "if ?m1 \<noteq> [] \<and> is_star (last ?m1) then butlast ?m1 else ?m1"
  have "ps = ?m2" "ps \<noteq> []" "\<not> is_gap (hd ps)" "\<not> is_gap (last ps)"
    using assms \<open>hex_loop content [] [] = Some raw\<close>
    by (auto simp: parse_hex_def Let_def split: if_splits)
  moreover have "successively (\<lambda>p q. is_gap p \<noteq> is_gap q) ?m2" "nonempty_runs ?m2"
    using m by (simp_all add: successively_tl successively_butlast nonempty_runs_tl nonempty_runs_butlast)
  ultimately show ?thesis by (simp add: wf_parts_def)
qed

section \<open>The anchor is a window of fixed bytes\<close>

text \<open>A window of \<open>w\<close> fixed bytes at \<open>st\<close> in the run \<open>i\<close>, wide and varied enough to search for.\<close>

definition valid_window :: "part list \<Rightarrow> nat \<Rightarrow> nat \<Rightarrow> nat \<Rightarrow> bool" where
  "valid_window ps i st w \<longleftrightarrow>
     i < length ps \<and> MIN_ANCHOR \<le> w \<and> w \<le> MAX_ANCHOR \<and>
     (case ps ! i of
        Gap _ _ \<Rightarrow> False
      | Bytes bs \<Rightarrow> st + w \<le> length bs \<and> (\<forall>k < w. bs ! (st + k) \<noteq> None) \<and>
          MIN_DISTINCT_BYTES \<le> distinct_count (map the (slice bs st (st + w))))"

definition valid_best :: "part list \<Rightarrow> best \<Rightarrow> bool" where
  "valid_best ps b \<longleftrightarrow> (case b of None \<Rightarrow> True | Some (_, i, st, w) \<Rightarrow> valid_window ps i st w)"

lemma fixed_run_window:
  assumes "off + w \<le> length (fixed_run bs start)"
  shows "start + off + w \<le> length bs \<or> w = 0 \<and> start > length bs"
    and "\<forall>k < w. bs ! (start + off + k) \<noteq> None"
    and "slice (fixed_run bs start) off (off + w) = map the (slice bs (start + off) (start + off + w))"
proof -
  let ?t = "takeWhile (\<lambda>b. b \<noteq> None) (drop start bs)"
  have len: "length (fixed_run bs start) = length ?t" by (simp add: fixed_run_def)
  have le: "length ?t \<le> length bs - start" using length_takeWhile_le [of "\<lambda>b. b \<noteq> None" "drop start bs"] by simp
  show "start + off + w \<le> length bs \<or> w = 0 \<and> start > length bs" using assms len le by linarith
  have nth: "?t ! k = bs ! (start + k)" if "k < length ?t" for k
    using that le by (simp add: takeWhile_nth)
  show "\<forall>k < w. bs ! (start + off + k) \<noteq> None"
  proof (intro allI impI)
    fix k assume "k < w"
    then have "off + k < length ?t" using assms len by simp
    from nth [OF this] nth_mem [OF this] show "bs ! (start + off + k) \<noteq> None"
      by (auto dest!: set_takeWhileD simp: add.assoc)
  qed
  show "slice (fixed_run bs start) off (off + w) = map the (slice bs (start + off) (start + off + w))"
  proof (rule nth_equalityI)
    show "length (slice (fixed_run bs start) off (off + w)) = length (map the (slice bs (start + off) (start + off + w)))"
      using assms len le by (simp add: slice_def)
  next
    fix k assume "k < length (slice (fixed_run bs start) off (off + w))"
    then have k: "k < w" using assms by (simp add: slice_def)
    then have "off + k < length ?t" using assms len by simp
    with k assms len le nth [of "off + k"] show
      "slice (fixed_run bs start) off (off + w) ! k = map the (slice bs (start + off) (start + off + w)) ! k"
      by (simp add: slice_nth length_slice fixed_run_def add.assoc)
  qed
qed

lemma try_window_valid:
  assumes "valid_best ps best" "i < length ps" "ps ! i = Bytes bs" "MIN_ANCHOR \<le> w" "w \<le> MAX_ANCHOR"
    "off + w \<le> length (fixed_run bs start)"
  shows "valid_best ps (try_window i start (fixed_run bs start) w best off)"
proof -
  have "valid_window ps i (start + off) w"
    if "MIN_DISTINCT_BYTES \<le> distinct_count (slice (fixed_run bs start) off (off + w))"
    using assms that fixed_run_window [OF assms(6)]
    by (auto simp: valid_window_def MIN_ANCHOR_def)
  with assms(1) show ?thesis
    by (auto simp: try_window_def valid_best_def Let_def not_less split: option.splits if_splits)
qed

lemma try_run_valid:
  assumes "valid_best ps best" "i < length ps" "ps ! i = Bytes bs"
  shows "valid_best ps (try_run i start (fixed_run bs start) best)"
proof (cases "length (fixed_run bs start) \<ge> MIN_ANCHOR")
  case True
  let ?run = "fixed_run bs start" and ?w = "min (length (fixed_run bs start)) MAX_ANCHOR"
  have w: "MIN_ANCHOR \<le> ?w" "?w \<le> MAX_ANCHOR" "?w \<le> length ?run"
    using True by (auto simp: MIN_ANCHOR_def MAX_ANCHOR_def)
  have "valid_best ps (foldl (try_window i start ?run ?w) b offs)"
    if "valid_best ps b" "\<forall>off \<in> set offs. off + ?w \<le> length ?run" for b offs
    using that
  proof (induction offs arbitrary: b)
    case (Cons off offs)
    with try_window_valid [OF Cons.prems(1) assms(2,3) w(1,2)] show ?case by simp
  qed simp
  moreover have "\<forall>off \<in> set [0..<length ?run - ?w + 1]. off + ?w \<le> length ?run"
    using w(3) by auto
  ultimately have "valid_best ps (foldl (try_window i start ?run ?w) best [0..<length ?run - ?w + 1])"
    using assms(1) by blast
  then show ?thesis using True by (simp only: try_run_def Let_def if_True)
qed (use assms in \<open>simp add: try_run_def\<close>)

lemma scan_runs_valid:
  "valid_best ps best \<Longrightarrow> i < length ps \<Longrightarrow> ps ! i = Bytes bs \<Longrightarrow> valid_best ps (scan_runs i bs start best)"
proof (induction i bs start best rule: scan_runs.induct)
  case (1 i bs start best)
  then show ?case
    using try_run_valid [OF "1.prems"] by (auto simp: scan_runs.simps [of i bs start] Let_def)
qed

lemma scan_part_valid:
  "valid_best ps best \<Longrightarrow> i < length ps \<Longrightarrow> valid_best ps (scan_part best (i, ps ! i))"
  by (cases "ps ! i") (auto simp: scan_part_def intro: scan_runs_valid)

lemma foldl_scan_part_valid:
  "valid_best ps best \<Longrightarrow> \<forall>(i, p) \<in> set ips. i < length ps \<and> p = ps ! i \<Longrightarrow>
     valid_best ps (foldl scan_part best ips)"
  by (induction ips arbitrary: best) (auto intro: scan_part_valid)

lemma best_anchor_window: "best_anchor ps = Some (i, st, w) \<Longrightarrow> valid_window ps i st w"
proof -
  assume "best_anchor ps = Some (i, st, w)"
  moreover have "\<forall>(i, p) \<in> set (enumerate 0 ps). i < length ps \<and> p = ps ! i"
    by (auto simp: in_set_enumerate_eq)
  ultimately show ?thesis
    using foldl_scan_part_valid [of ps None "enumerate 0 ps"] by (auto simp: best_anchor_def valid_best_def)
qed

lemma build_signature_Kept:
  assumes "build_signature name targ off hex m = Kept sg"
  shows "wf_signature sg \<and> wf_parts (parts sg) \<and> m \<le> fixed_bytes sg \<and>
         valid_window (parts sg) (anchor_part sg) (anchor_start sg) (anchor_len sg) \<and>
         sig_name sg = name \<and> sig_target sg = targ \<and> sig_offset sg = off \<and> \<not> piece sg \<and>
         \<not> fold_case sg \<and> \<not> fullword sg \<and> parse_hex hex = Some (parts sg)"
proof -
  from assms obtain ap st al where k: "parse_hex hex = Some (parts sg)"
    "m \<le> sum_list (map part_fixed (parts sg))" "best_anchor (parts sg) = Some (ap, st, al)"
    "sg = \<lparr>sig_name = name, sig_target = targ, sig_offset = off, parts = parts sg,
           anchor_part = ap, anchor_start = st, anchor_len = al,
           piece = False, fold_case = False, fullword = False\<rparr>"
    by (auto simp: build_signature_def split: option.splits if_splits)
  have w: "wf_parts (parts sg)" by (rule parse_hex_parts [OF k(1)])
  have v: "valid_window (parts sg) ap st al" by (rule best_anchor_window [OF k(3)])
  have f: "anchor_part sg = ap" "anchor_start sg = st" "anchor_len sg = al" "sig_name sg = name"
    "sig_target sg = targ" "sig_offset sg = off" "\<not> piece sg" "\<not> fold_case sg" "\<not> fullword sg"
    by (subst k(4), simp)+
  have "wf_signature sg"
    using w v f by (auto simp: wf_signature_def wf_parts_def nonempty_runs_def valid_window_def split: part.splits)
  with w v f k(1,2) show ?thesis by (simp add: fixed_bytes_def)
qed

section \<open>Every pattern with a searchable window gets an anchor\<close>

lemma distinct_count_mono: "set xs \<subseteq> set ys \<Longrightarrow> distinct_count xs \<le> distinct_count ys"
  by (simp add: distinct_count_def length_remdups_card_conv card_mono)

lemma set_slice_mono:
  assumes "o1 \<le> i" "j \<le> o2" "o2 \<le> length xs"
  shows "set (slice xs i j) \<subseteq> set (slice xs o1 o2)"
proof
  fix x assume "x \<in> set (slice xs i j)"
  then obtain k where "k < length (slice xs i j)" "x = slice xs i j ! k" by (metis in_set_conv_nth)
  with assms have k: "k < j - i" "x = xs ! (i + k)" by (auto simp: length_slice slice_nth)
  then have "i - o1 + k < length (slice xs o1 o2)" "x = slice xs o1 o2 ! (i - o1 + k)"
    using assms by (auto simp: length_slice slice_nth)
  then show "x \<in> set (slice xs o1 o2)" by (metis nth_mem)
qed

lemma try_window_keeps: "best \<noteq> None \<Longrightarrow> try_window i start run w best off \<noteq> None"
  by (auto simp: try_window_def Let_def)

lemma foldl_try_window_keeps: "best \<noteq> None \<Longrightarrow> foldl (try_window i start run w) best offs \<noteq> None"
  by (induction offs arbitrary: best) (simp_all add: try_window_keeps del: not_None_eq)

lemma foldl_try_window_finds:
  "off \<in> set offs \<Longrightarrow> MIN_DISTINCT_BYTES \<le> distinct_count (slice run off (off + w)) \<Longrightarrow>
     foldl (try_window i start run w) best offs \<noteq> None"
proof (induction offs arbitrary: best)
  case (Cons o1 offs)
  show ?case
  proof (cases "off = o1")
    case True
    with Cons.prems have "try_window i start run w best o1 \<noteq> None"
      by (cases best) (auto simp: try_window_def Let_def)
    then show ?thesis using foldl_try_window_keeps by simp
  qed (use Cons in simp)
qed simp

lemma try_run_keeps: "best \<noteq> None \<Longrightarrow> try_run i start run best \<noteq> None"
  by (simp add: try_run_def Let_def foldl_try_window_keeps del: not_None_eq upt_Suc)

lemma try_run_finds:
  assumes "MIN_ANCHOR \<le> w" "w \<le> MAX_ANCHOR" "off + w \<le> length run"
    "MIN_DISTINCT_BYTES \<le> distinct_count (slice run off (off + w))"
  shows "try_run i start run best \<noteq> None"
proof -
  let ?W = "min (length run) MAX_ANCHOR"
  let ?o = "min off (length run - ?W)"
  have "w \<le> ?W" using assms(2,3) by simp
  then have "set (slice run off (off + w)) \<subseteq> set (slice run ?o (?o + ?W))"
    using assms(3) by (intro set_slice_mono) auto
  then have "MIN_DISTINCT_BYTES \<le> distinct_count (slice run ?o (?o + ?W))"
    using assms(4) distinct_count_mono le_trans by blast
  moreover have "?o \<in> set [0..<length run - ?W + 1]" by auto
  ultimately have "foldl (try_window i start run ?W) best [0..<length run - ?W + 1] \<noteq> None"
    by (rule foldl_try_window_finds [rotated])
  moreover have "length run \<ge> MIN_ANCHOR" using assms(1,3) by simp
  ultimately show ?thesis by (simp only: try_run_def Let_def if_True not_False_eq_True)
qed

lemma scan_runs_keeps: "best \<noteq> None \<Longrightarrow> scan_runs i bs start best \<noteq> None"
proof (induction i bs start best rule: scan_runs.induct)
  case (1 i bs start best)
  then show ?case
    using try_run_keeps [OF "1.prems", of i start "fixed_run bs start"]
    by (simp add: scan_runs.simps [of i bs start] Let_def del: not_None_eq)
qed

lemma fixed_run_covers:
  assumes "start \<le> st" "st < start + length (fixed_run bs start)" "st + w \<le> length bs"
    "\<forall>k < w. bs ! (st + k) \<noteq> None"
  shows "st + w \<le> start + length (fixed_run bs start)"
proof (rule ccontr)
  let ?L = "length (fixed_run bs start)"
  assume "\<not> st + w \<le> start + ?L"
  then have in_window: "start + ?L - st < w" "start + ?L < length bs" using assms(2,3) by auto
  have "?L = length (takeWhile (\<lambda>b. b \<noteq> None) (drop start bs))" by (simp add: fixed_run_def)
  then have "drop start bs ! ?L = None"
    using in_window(2) nth_length_takeWhile [of "\<lambda>b. b \<noteq> None" "drop start bs"] by simp
  then have "bs ! (start + ?L) = None" using in_window(2) by simp
  moreover have "bs ! (st + (start + ?L - st)) \<noteq> None" using assms(4) in_window(1) by blast
  ultimately show False using assms(2) by simp
qed

lemma scan_runs_finds:
  "start \<le> st \<Longrightarrow> MIN_ANCHOR \<le> w \<Longrightarrow> w \<le> MAX_ANCHOR \<Longrightarrow> st + w \<le> length bs \<Longrightarrow> \<forall>k < w. bs ! (st + k) \<noteq> None \<Longrightarrow>
     MIN_DISTINCT_BYTES \<le> distinct_count (map the (slice bs st (st + w))) \<Longrightarrow>
     scan_runs i bs start best \<noteq> None"
proof (induction i bs start best rule: scan_runs.induct)
  case (1 i bs start best)
  have w: "0 < w" using "1.prems"(2) by (simp add: MIN_ANCHOR_def)
  then have start: "start < length bs" using "1.prems"(1,4) by simp
  show ?case
  proof (cases "bs ! start = None")
    case True
    then have "start \<noteq> st" using "1.prems"(5) w by fastforce
    with "1.IH"(1) [OF start True] "1.prems" have "scan_runs i bs (start + 1) best \<noteq> None" by simp
    then show ?thesis using start True by (simp add: scan_runs.simps [of i bs start])
  next
    case False
    let ?run = "fixed_run bs start"
    have "scan_runs i bs (start + length ?run) (try_run i start ?run best) \<noteq> None"
    proof (cases "st < start + length ?run")
      case True
      have inside: "st - start + w \<le> length ?run"
        using fixed_run_covers [OF "1.prems"(1) True "1.prems"(4,5)] "1.prems"(1) by simp
      have "slice ?run (st - start) (st - start + w) = map the (slice bs st (st + w))"
        using fixed_run_window(3) [OF inside] "1.prems"(1) by simp
      then have "try_run i start ?run best \<noteq> None"
        using try_run_finds [OF "1.prems"(2,3) inside] "1.prems"(6) by simp
      then show ?thesis by (rule scan_runs_keeps)
    next
      case False
      with "1.IH"(2) [OF start \<open>bs ! start \<noteq> None\<close> refl] "1.prems" show ?thesis by simp
    qed
    then show ?thesis using start False by (simp add: scan_runs.simps [of i bs start] Let_def del: not_None_eq)
  qed
qed

lemma scan_part_keeps: "best \<noteq> None \<Longrightarrow> scan_part best ip \<noteq> None"
  by (cases ip; cases "snd ip") (simp_all add: scan_part_def scan_runs_keeps del: not_None_eq)

lemma foldl_scan_part_keeps: "best \<noteq> None \<Longrightarrow> foldl scan_part best ips \<noteq> None"
  by (induction ips arbitrary: best) (simp_all add: scan_part_keeps del: not_None_eq)

lemma foldl_scan_part_finds:
  assumes "(i, Bytes bs) \<in> set ips" "\<And>best. scan_runs i bs 0 best \<noteq> None"
  shows "foldl scan_part best ips \<noteq> None"
  using assms(1)
proof (induction ips arbitrary: best)
  case (Cons ip ips)
  show ?case
  proof (cases "ip = (i, Bytes bs)")
    case True
    then have "scan_part best ip \<noteq> None" using assms(2) by (simp add: scan_part_def)
    then show ?thesis using foldl_scan_part_keeps by simp
  qed (use Cons in auto)
qed simp

lemma best_anchor_exists:
  assumes "valid_window ps i st w"
  shows "best_anchor ps \<noteq> None"
proof -
  from assms obtain bs where bs: "i < length ps" "ps ! i = Bytes bs" "MIN_ANCHOR \<le> w" "w \<le> MAX_ANCHOR"
    "st + w \<le> length bs" "\<forall>k < w. bs ! (st + k) \<noteq> None"
    "MIN_DISTINCT_BYTES \<le> distinct_count (map the (slice bs st (st + w)))"
    by (auto simp: valid_window_def split: part.splits)
  have "scan_runs i bs 0 best \<noteq> None" for best
    by (rule scan_runs_finds [OF _ bs(3-7)]) simp
  moreover have "(i, Bytes bs) \<in> set (enumerate 0 ps)"
    using bs(1,2) by (simp add: in_set_enumerate_eq)
  ultimately have "foldl scan_part None (enumerate 0 ps) \<noteq> None" by (rule foldl_scan_part_finds [rotated])
  then show ?thesis by (simp add: best_anchor_def)
qed

section \<open>Printing patterns\<close>

definition show_byte :: "byte option \<Rightarrow> string" where
  "show_byte b = (case b of None \<Rightarrow> ''??''
                  | Some b \<Rightarrow> [hex_char (unat b div 16), hex_char (unat b mod 16)])"

fun show_part :: "part \<Rightarrow> string" where
  "show_part (Bytes bs) = concat (map show_byte bs)"
| "show_part (Gap mn mx) =
     CHR ''{'' # (show_nat mn @ CHR ''-'' # (case mx of None \<Rightarrow> [] | Some m \<Rightarrow> show_nat m)) @ [CHR ''}'']"

definition show_hex :: "part list \<Rightarrow> string" where
  "show_hex ps = concat (map show_part ps)"

text \<open>The gaps a pattern may carry: at most the longest a search follows, and not empty.\<close>

definition printable_gaps :: "part list \<Rightarrow> bool" where
  "printable_gaps ps \<longleftrightarrow> (\<forall>mn mx. Gap mn mx \<in> set ps \<longrightarrow>
     mn \<le> MAX_UNBOUNDED_GAP \<and> (\<forall>m. mx = Some m \<longrightarrow> mn \<le> m \<and> m \<le> usize_max))"

lemma hex_char_neq:
  assumes "n < 16"
  shows "hex_char n \<noteq> CHR ''*''" "hex_char n \<noteq> CHR ''{''" "hex_char n \<noteq> CHR ''?''" "hex_char n \<noteq> CHR ''+''"
  using of_char_hex_char [OF assms] assms by (auto split: if_splits)

lemma hex_pair_show: "hex_pair (hex_char (unat b div 16)) (hex_char (unat b mod 16)) = Some b"
proof -
  note n = nibbles_bound [of b]
  have "16 * (unat b div 16) + unat b mod 16 = unat b" by (rule mult_div_mod_eq)
  with n hex_char_neq [OF n(1)] have "from_str_radix 16 u8_max [hex_char (unat b div 16), hex_char (unat b mod 16)] = Some (unat b)"
    by (simp add: from_str_radix_def Let_def digit_value_hex_char u8_max_def)
  then show ?thesis by (simp add: hex_pair_def)
qed

lemma hex_loop_show_byte: "hex_loop (show_byte b @ rest) run ps = hex_loop rest (run @ [b]) ps"
proof (cases b)
  case None
  then show ?thesis by (simp add: show_byte_def hex_loop.simps [of "CHR ''?'' # _"])
next
  case (Some v)
  with hex_char_neq [OF nibbles_bound(1) [of v]] show ?thesis
    by (simp add: show_byte_def hex_loop.simps [of "hex_char _ # _"] hex_pair_show)
qed

lemma hex_loop_show_bytes: "hex_loop (concat (map show_byte bs) @ rest) run ps = hex_loop rest (run @ bs) ps"
  by (induction bs arbitrary: run) (simp_all add: hex_loop_show_byte)

lemma parse_usize_show_nat: "n \<le> usize_max \<Longrightarrow> parse_usize (show_nat n) = Some n"
  using show_nat_digits [of n] digits_value_show_nat [of n]
  by (cases "show_nat n") (auto simp: parse_usize_def from_str_radix_def Let_def is_ascii_digit_def)

lemma show_nat_chars: "c \<in> set (show_nat n) \<Longrightarrow> c \<noteq> CHR ''-'' \<and> c \<noteq> CHR ''}''"
  using show_nat_digits [of n] by (auto simp: list_all_iff is_ascii_digit_def)

lemma parse_range_show:
  assumes "mn \<le> MAX_UNBOUNDED_GAP" "\<And>m. mx = Some m \<Longrightarrow> mn \<le> m \<and> m \<le> usize_max"
  shows "parse_range (show_nat mn @ CHR ''-'' # (case mx of None \<Rightarrow> [] | Some m \<Rightarrow> show_nat m)) = Some (mn, mx)"
proof -
  let ?r = "case mx of None \<Rightarrow> [] | Some m \<Rightarrow> show_nat m"
  have "split_once (CHR ''-'') (show_nat mn @ CHR ''-'' # ?r) = Some (show_nat mn, ?r)"
    using show_nat_chars by (auto simp: split_once_Some)
  moreover have "mn \<le> usize_max" using assms(1) by (simp add: usize_max_def MAX_UNBOUNDED_GAP_def)
  ultimately show ?thesis
    using assms by (cases mx) (auto simp: parse_range_def parse_usize_show_nat)
qed

lemma hex_loop_show_gap:
  assumes "mn \<le> MAX_UNBOUNDED_GAP" "\<And>m. mx = Some m \<Longrightarrow> mn \<le> m \<and> m \<le> usize_max"
  shows "hex_loop (show_part (Gap mn mx) @ rest) run ps = hex_loop rest [] (flush run ps @ [Gap mn mx])"
proof -
  let ?inner = "show_nat mn @ CHR ''-'' # (case mx of None \<Rightarrow> [] | Some m \<Rightarrow> show_nat m)"
  have "split_once (CHR ''}'') (?inner @ CHR ''}'' # rest) = Some (?inner, rest)"
    using show_nat_chars by (auto simp: split_once_Some split: option.splits)
  then show ?thesis
    using parse_range_show [OF assms] by (simp add: hex_loop.simps [of "CHR ''{'' # _"])
qed

lemma hex_loop_show_hex:
  "gap_separated ps \<Longrightarrow> nonempty_runs ps \<Longrightarrow> printable_gaps ps \<Longrightarrow> run = [] \<or> ps = [] \<or> is_gap (hd ps) \<Longrightarrow>
     hex_loop (show_hex ps) run acc = Some (flush run acc @ ps)"
proof (induction ps arbitrary: run acc)
  case Nil
  then show ?case by (simp add: show_hex_def hex_loop.simps)
next
  case (Cons p ps)
  have rest: "gap_separated ps" "nonempty_runs ps" "printable_gaps ps" "\<not> is_gap p \<Longrightarrow> ps = [] \<or> is_gap (hd ps)"
    using Cons.prems by (cases ps; auto simp: gap_separated_def nonempty_runs_def printable_gaps_def)+
  show ?case
  proof (cases p)
    case (Bytes bs)
    with Cons.prems have "run = []" "bs \<noteq> []" by (auto simp: nonempty_runs_def)
    with Cons.IH [OF rest(1-3), of bs acc] rest(4) Bytes show ?thesis
      by (simp add: show_hex_def hex_loop_show_bytes flush_def)
  next
    case (Gap mn mx)
    with Cons.prems(3) have g: "mn \<le> MAX_UNBOUNDED_GAP" "\<And>m. mx = Some m \<Longrightarrow> mn \<le> m \<and> m \<le> usize_max"
      by (auto simp: printable_gaps_def)
    show ?thesis
      using Cons.IH [OF rest(1-3), of "[]" "flush run acc @ [Gap mn mx]"] Gap
      by (simp add: show_hex_def hex_loop_show_gap [OF g, simplified] flush_def)
  qed
qed

lemma merge_alternating_id:
  "successively (\<lambda>p q. is_gap p \<noteq> is_gap q) ps \<Longrightarrow> foldl merge_step [] ps = ps"
proof (induction ps rule: rev_induct)
  case (snoc p ps)
  then have IH: "foldl merge_step [] ps = ps" by (simp add: successively_append_iff)
  from snoc.prems have "ps = [] \<or> is_gap (last ps) \<noteq> is_gap p" by (auto simp: successively_append_iff)
  then have "merge_step ps p = ps @ [p]" by (auto simp: merge_step_def split: part.splits)
  with IH show ?case by simp
qed simp

lemma parse_hex_show:
  assumes "wf_parts ps" "printable_gaps ps" "length (show_hex ps) \<le> MAX_SIGNATURE_BYTES * 2 + 64"
  shows "parse_hex (show_hex ps) = Some ps"
proof -
  have w: "ps \<noteq> []" "\<not> is_gap (hd ps)" "\<not> is_gap (last ps)"
    "successively (\<lambda>p q. is_gap p \<noteq> is_gap q) ps" "nonempty_runs ps"
    using assms(1) by (auto simp: wf_parts_def)
  have "gap_separated ps"
    using w(4) unfolding gap_separated_def by (rule successively_mono) auto
  from hex_loop_show_hex [OF this w(5) assms(2), of "[]" "[]"]
  have h: "hex_loop (show_hex ps) [] [] = Some ps" by (simp add: flush_def)
  have "show_hex ps \<noteq> []"
  proof
    assume "show_hex ps = []"
    with h have "ps = []" by (simp add: hex_loop.simps flush_def)
    with w(1) show False by simp
  qed
  moreover have "\<not> is_star (hd ps)" "\<not> is_star (last ps)" using w(2,3) by (auto simp: is_star_def)
  ultimately show ?thesis
    using assms(3) h w by (simp add: parse_hex_def merge_alternating_id Let_def)
qed

section \<open>Properties\<close>

text \<open>
  A pattern that parses is in the form the matcher relies on: it starts and ends with bytes,
  byte runs and gaps alternate, and no byte run is empty. Adjacent gaps are merged and a leading
  or trailing \<^verbatim>\<open>*\<close> is dropped.
\<close>

theorem parse_hex_wf: "parse_hex content = Some ps \<Longrightarrow> wf_parts ps"
  by (rule parse_hex_parts)

lemmas hex_eval =
  parse_hex_def hex_loop.simps parse_range_def hex_pair_def from_str_radix_def parse_usize_def
  digit_value_def width_defs pattern_limits flush_def merge_step_def merge_max_def is_star_def Let_def

theorem parse_hex_wf_witness:
  "parse_hex ''*ab??{2-3}{1}cd'' = Some [Bytes [Some 0xab, None], Gap 3 (Some 4), Bytes [Some 0xcd]] \<and>
   wf_parts [Bytes [Some 0xab, None], Gap 3 (Some 4), Bytes [Some 0xcd]]"
proof -
  have "parse_hex ''*ab??{2-3}{1}cd'' = Some [Bytes [Some 0xab, None], Gap 3 (Some 4), Bytes [Some 0xcd]]"
    by (simp add: hex_eval)
  from parse_hex_wf [OF this] this show ?thesis by simp
qed

text \<open>
  Parsing a pattern inverts printing it: a pattern in normal form with gaps within the limits,
  written out in hexadecimal, is read back unchanged, byte for byte and gap for gap.
\<close>

theorem parse_hex_show_hex:
  assumes "wf_parts ps" "printable_gaps ps" "length (show_hex ps) \<le> MAX_SIGNATURE_BYTES * 2 + 64"
  shows "parse_hex (show_hex ps) = Some ps"
  using assms by (rule parse_hex_show)

theorem parse_hex_show_hex_witness:
  "parse_hex (show_hex [Bytes [Some 0xDE, None], Gap 2 None, Bytes [Some 0x0F]]) =
     Some [Bytes [Some 0xDE, None], Gap 2 None, Bytes [Some 0x0F]]"
proof (rule parse_hex_show_hex)
  show "wf_parts [Bytes [Some 0xDE, None], Gap 2 None, Bytes [Some 0x0F]]"
    by (auto simp: wf_parts_def nonempty_runs_def)
  show "printable_gaps [Bytes [Some 0xDE, None], Gap 2 None, Bytes [Some 0x0F]]"
    by (auto simp: printable_gaps_def pattern_limits)
  show "length (show_hex [Bytes [Some 0xDE, None], Gap 2 None, Bytes [Some 0x0F]]) \<le> MAX_SIGNATURE_BYTES * 2 + 64"
    by (simp add: show_hex_def show_byte_def show_nat.simps pattern_limits)
qed

text \<open>
  The upper bounds of adjacent gaps are added without a check, so in a release build the sum
  wraps: of the two gaps below, together any one to \<open>2\<^sup>64 + 1\<close> bytes, what remains is a gap whose
  maximum is below its minimum, and the signature can never match.
\<close>

theorem merged_gap_wraps:
  "parse_hex ''aa{1-18446744073709551615}{1-2}bb'' =
     Some [Bytes [Some 0xaa], Gap 2 (Some 1), Bytes [Some 0xbb]] \<and>
   (\<forall>fld content i j. \<not> parts_match fld [Bytes [Some 0xaa], Gap 2 (Some 1), Bytes [Some 0xbb]] content i j)"
  by (auto simp: hex_eval gap_limit_def)

text \<open>
  The anchor search is exact: it picks a window if and only if the pattern has one worth searching
  for, that is, at least \<open>MIN_ANCHOR\<close> consecutive fixed bytes of one run, at least
  \<open>MIN_DISTINCT_BYTES\<close> of them different; and what it picks is such a window.
\<close>

theorem best_anchor_exact:
  "(best_anchor ps \<noteq> None \<longleftrightarrow> (\<exists>i st w. valid_window ps i st w)) \<and>
   (\<forall>i st w. best_anchor ps = Some (i, st, w) \<longrightarrow> valid_window ps i st w)"
  using best_anchor_exists [of ps] best_anchor_window [of ps]
  by (metis not_None_eq prod_cases3)

lemmas anchor_eval =
  best_anchor_def scan_part_def scan_runs.simps fixed_run_def try_run_def try_window_def
  distinct_count_def window_score_def byte_weight_def MAX_ANCHOR_def MIN_DISTINCT_BYTES_def
  MIN_ANCHOR_def slice_def Let_def

theorem best_anchor_exact_witness:
  "\<exists>i st w. best_anchor [Bytes [None, Some 1, Some 2, Some 3, Some 4]] = Some (i, st, w) \<and>
     valid_window [Bytes [None, Some 1, Some 2, Some 3, Some 4]] i st w"
proof -
  have "valid_window [Bytes [None, Some 1, Some 2, Some 3, Some 4]] 0 1 4"
    by (simp add: valid_window_def MIN_ANCHOR_def MAX_ANCHOR_def MIN_DISTINCT_BYTES_def distinct_count_def
        slice_def numeral_eq_Suc less_Suc_eq)
  with best_anchor_exact [of "[Bytes [None, Some 1, Some 2, Some 3, Some 4]]"] show ?thesis
    by (metis not_None_eq prod_cases3)
qed

text \<open>
  (C28) Every body signature the loader keeps is safe to search with: it has a name, at least
  \<open>MIN_FIXED_BYTES\<close> fixed bytes, an anchor inside one of its byte runs (so the unreachable arm of
  \<^verbatim>\<open>Signature::anchor\<close> is unreachable), and offsets relative to PE structures only on PE targets.
\<close>

theorem parse_line_Kept_wf:
  assumes "parse_line line = Kept sg"
  shows "wf_signature sg \<and> wf_parts (parts sg) \<and> MIN_FIXED_BYTES \<le> fixed_bytes sg \<and> sig_name sg \<noteq> [] \<and>
         \<not> piece sg \<and> (is_pe_base (off_base (sig_offset sg)) \<longrightarrow> sig_target sg = TargetPe)"
proof -
  from assms obtain name targ off hex where
    "build_signature name targ off hex MIN_FIXED_BYTES = Kept sg" "name \<noteq> []"
    "\<not> (is_pe_base (off_base off) \<and> targ \<noteq> TargetPe)"
    by (auto simp: parse_line_def Let_def split: if_splits option.splits)
  with build_signature_Kept [of name targ off hex MIN_FIXED_BYTES sg] show ?thesis by auto
qed

definition example_line_signature :: signature where
  "example_line_signature =
     \<lparr>sig_name = ''A.B'', sig_target = TargetPe, sig_offset = \<lparr>off_base = EntryPoint 4, off_shift = 0\<rparr>,
      parts = [Bytes [Some 0xde, Some 0xad, Some 0xbe, Some 0xef, Some 0, Some 0x11, Some 0x22, Some 0x33]],
      anchor_part = 0, anchor_start = 0, anchor_len = 8,
      piece = False, fold_case = False, fullword = False\<rparr>"

lemma parse_example_line: "parse_line ''A.B:1:EP+4:deadbeef00112233'' = Kept example_line_signature"
proof -
  let ?ps = "[Bytes [Some 0xde, Some 0xad, Some 0xbe, Some 0xef, Some 0, Some 0x11, Some 0x22, Some 0x33]]"
  have hex: "parse_hex ''deadbeef00112233'' = Some ?ps"
    by (simp add: hex_eval)
  have anchor: "best_anchor ?ps = Some (0, 0, 8)"
    by (simp add: anchor_eval)
  have offset: "parse_offset ''EP+4'' = Some \<lparr>off_base = EntryPoint 4, off_shift = 0\<rparr>"
    by (simp add: parse_offset_def parse_base_def strip_prefix_def parse_isize_def from_str_radix_def
        digit_value_def Let_def)
  show ?thesis
    by (simp add: parse_line_def trim_def is_whitespace_def target_of_def offset is_pe_base_def
        build_signature_def part_fixed_def hex anchor MIN_FIXED_BYTES_def example_line_signature_def Let_def)
qed

theorem parse_line_Kept_wf_witness:
  "parse_line ''A.B:1:EP+4:deadbeef00112233'' = Kept example_line_signature \<and>
   wf_signature example_line_signature"
  using parse_line_Kept_wf [OF parse_example_line] parse_example_line by simp

end
