(* ===== verification/Counting.thy ===== *)
theory Counting
  imports Prelude
begin

text \<open>
  Counting layouts. Two components group entries by a small number with the same two loops: count
  the entries of each group one place to the right, then add up, so that place \<open>k\<close> holds how many
  entries belong to groups before \<open>k\<close> (\<^verbatim>\<open>PatternSet::build\<close> in \<^verbatim>\<open>src/clamdb/pattern.rs\<close> and
  \<^verbatim>\<open>SignatureDatabase::replace_compact_sha256\<close> in \<^verbatim>\<open>src/engine.rs\<close>).
\<close>

fun count_starts :: "nat list \<Rightarrow> (nat \<times> 'b) list \<Rightarrow> nat list" where
  "count_starts starts [] = starts"
| "count_starts starts ((p, _) # refs) = count_starts (starts[p + 1 := starts ! (p + 1) + 1]) refs"

fun prefix_sums :: "nat list \<Rightarrow> nat list \<Rightarrow> nat list" where
  "prefix_sums starts [] = starts"
| "prefix_sums starts (i # is) = prefix_sums (starts[i := starts ! i + starts ! (i - 1)]) is"

text \<open>
  The array is laid out by counting: \<open>below refs k\<close> references go to pieces before \<open>k\<close>, and the
  users of \<open>p\<close> are, in order, \<open>selected p refs\<close>.
\<close>

definition below :: "(nat \<times> 'b) list \<Rightarrow> nat \<Rightarrow> nat" where
  "below refs k = length (filter (\<lambda>r. fst r < k) refs)"

definition selected :: "nat \<Rightarrow> (nat \<times> 'b) list \<Rightarrow> 'b list" where
  "selected p refs = map snd (filter (\<lambda>r. fst r = p) refs)"

lemma selected_simps [simp]:
  "selected p [] = []"
  "selected p (xs @ ys) = selected p xs @ selected p ys"
  "selected p ((q, i) # ys) = (if q = p then i # selected p ys else selected p ys)"
  by (simp_all add: selected_def)

lemma selected_concat: "selected p (concat xss) = concat (map (selected p) xss)"
  by (induction xss) auto

lemma below_0 [simp]: "below refs 0 = 0"
  by (simp add: below_def)

lemma below_Suc: "below refs (Suc k) = below refs k + length (selected k refs)"
proof (induction refs)
  case (Cons r refs)
  then show ?case by (cases r) (auto simp: below_def less_Suc_eq)
qed (simp add: below_def)

lemma below_mono: "k \<le> k' \<Longrightarrow> below refs k \<le> below refs k'"
  by (induction rule: dec_induct) (auto simp: below_Suc)

lemma below_all: "\<forall>r \<in> set refs. fst r < n \<Longrightarrow> below refs n = length refs"
  by (simp add: below_def)

lemma selected_end_le: "p < p' \<Longrightarrow> below refs p + length (selected p refs) \<le> below refs p'"
  using below_mono [of "Suc p" p' refs] by (simp add: below_Suc)

lemma length_count_starts [simp]: "length (count_starts ss refs) = length ss"
  by (induction ss refs rule: count_starts.induct) auto

lemma count_starts_nth:
  "\<forall>r \<in> set refs. Suc (fst r) < length ss \<Longrightarrow> k < length ss \<Longrightarrow>
     count_starts ss refs ! k = ss ! k + (if k = 0 then 0 else length (selected (k - 1) refs))"
proof (induction ss refs rule: count_starts.induct)
  case (2 starts p i refs)
  then show ?case by (cases k) (auto simp: nth_list_update)
qed simp

lemma length_prefix_sums [simp]: "length (prefix_sums ss is) = length ss"
  by (induction ss "is" rule: prefix_sums.induct) auto

lemma prefix_sums_snoc:
  "prefix_sums ss (is @ [i]) =
     (prefix_sums ss is)[i := prefix_sums ss is ! i + prefix_sums ss is ! (i - 1)]"
  by (induction ss "is" rule: prefix_sums.induct) auto

lemma prefix_sums_nth:
  "m \<le> length ss \<Longrightarrow> 0 < m \<Longrightarrow> k < length ss \<Longrightarrow>
     prefix_sums ss [1..<m] ! k = (if k < m then sum_list (take (Suc k) ss) else ss ! k)"
proof (induction m arbitrary: k)
  case (Suc m)
  show ?case
  proof (cases "m = 0")
    case True
    with Suc.prems show ?thesis by (cases ss) auto
  next
    case False
    then have step: "prefix_sums ss [1..<Suc m] =
        (prefix_sums ss [1..<m])[m := prefix_sums ss [1..<m] ! m + prefix_sums ss [1..<m] ! (m - 1)]"
      by (simp add: prefix_sums_snoc)
    have IH: "prefix_sums ss [1..<m] ! j = (if j < m then sum_list (take (Suc j) ss) else ss ! j)"
      if "j < length ss" for j
      using Suc.IH [OF _ _ that] Suc.prems False by simp
    have sums: "sum_list (take (Suc m) ss) = ss ! m + sum_list (take m ss)"
      using Suc.prems by (simp add: take_Suc_conv_app_nth)
    show ?thesis
    proof (cases "k = m")
      case True
      with False Suc.prems show ?thesis
        unfolding step using IH [of m] IH [of "m - 1"] sums by simp
    next
      case other: False
      with Suc.prems show ?thesis unfolding step using IH [of k] by simp
    qed
  qed
qed simp

lemma starts_nth:
  assumes refs: "\<forall>r \<in> set refs. fst r < n" and k: "k \<le> n"
  shows "prefix_sums (count_starts (replicate (n + 1) 0) refs) [1..<n + 1] ! k = below refs k"
proof -
  let ?ss = "count_starts (replicate (n + 1) 0) refs"
  have "prefix_sums ?ss [1..<n + 1] ! k = sum_list (take (Suc k) ?ss)"
    using k by (subst prefix_sums_nth) auto
  also have "\<dots> = below refs k"
    using k
  proof (induction k)
    case 0
    have "take (Suc 0) ?ss = [?ss ! 0]" by (simp add: take_Suc_conv_app_nth)
    then show ?case using refs by (simp add: count_starts_nth)
  next
    case (Suc k)
    have "take (Suc (Suc k)) ?ss = take (Suc k) ?ss @ [?ss ! Suc k]"
      using Suc.prems by (simp add: take_Suc_conv_app_nth)
    then show ?case using refs Suc by (simp add: count_starts_nth below_Suc)
  qed
  finally show ?thesis .
qed

end
