(* ===== verification/Pattern_Set.thy ===== *)
theory Pattern_Set
  imports Logical Sigparse Counting
begin

text \<open>
  The signature set of \<^verbatim>\<open>src/clamdb/pattern.rs\<close>: ingesting body and logical signatures with shared
  pieces, building the anchor groups and the piece-to-user index, and scanning a text.

  The Aho-Corasick automaton is the third-party crate \<^verbatim>\<open>daachorse\<close>. It enters as two parameters,
  \<open>ac_build\<close> (the builder, which may refuse) and \<open>ac_find\<close> (\<^verbatim>\<open>find_overlapping_iter\<close>, yielding the
  index of a pattern and where it starts); \<open>finds_overlapping\<close> states what its documentation
  promises. The per-thread \<^verbatim>\<open>Scratch\<close> is a state the scan takes and returns; the closure the source
  runs on every match is the function \<open>scan_hits\<close> over the list of (signature, position) pairs the
  two nested loops visit, in their order.

  The lemmas show the invariant of the set, that the flat piece-to-user array lists exactly the
  users of each piece, that a scan leaves the scratch clean, that what it reports is a verified
  signature or a logical expression that holds, and that judging only the logical signatures
  with a piece in the file loses none of them.
\<close>

section \<open>State\<close>

record logical =
  l_name :: string
  l_file_size :: "(nat \<times> nat) option"
  l_expression :: expr
  l_slots :: nat
  l_pieces :: "nat list"
  l_slot_of :: "nat list"

type_synonym piece_key = "target \<times> offset \<times> part list \<times> bool \<times> bool"

record piece_users =
  pu_starts :: "nat list"
  pu_users :: "nat list"

definition users_of :: "piece_users \<Rightarrow> nat \<Rightarrow> nat list" where
  "users_of pu p =
     (case (get_at (pu_starts pu) p, get_at (pu_starts pu) (p + 1)) of
        (Some start, Some en) \<Rightarrow> slice (pu_users pu) start en
      | _ \<Rightarrow> [])"

record pattern_stats =
  st_loaded :: nat
  st_unsupported :: nat
  st_too_weak :: nat
  st_reasons :: "string \<rightharpoonup> nat"

record 'a anchors =
  automaton :: 'a
  anchor_groups :: "nat list list"

record 'a pattern_set =
  signatures :: "signature list"
  logicals :: "logical list"
  set_anchors :: "'a anchors option"
  piece_index :: "piece_key \<rightharpoonup> nat"
  set_users :: piece_users
  anchor_hits :: nat
  verifications :: nat

definition empty_set :: "'a pattern_set" where
  "empty_set = \<lparr>signatures = [], logicals = [], set_anchors = None, piece_index = Map.empty,
     set_users = \<lparr>pu_starts = [], pu_users = []\<rparr>, anchor_hits = 0, verifications = 0\<rparr>"

section \<open>Anchor groups\<close>

text \<open>
  The loop of \<^verbatim>\<open>Anchors::build\<close>: \<open>pats\<close> are the distinct anchors seen so far, in order, and
  \<open>groups\<close> the signatures that share each. The map \<^verbatim>\<open>seen\<close> sends an anchor to its position in
  \<open>pats\<close>.
\<close>

fun position :: "'b \<Rightarrow> 'b list \<Rightarrow> nat option" where
  "position x [] = None"
| "position x (y # ys) = (if x = y then Some 0 else map_option Suc (position x ys))"

fun group_anchors :: "bytes list \<Rightarrow> nat list list \<Rightarrow> (bytes \<times> nat) list \<Rightarrow> bytes list \<times> nat list list" where
  "group_anchors pats groups [] = (pats, groups)"
| "group_anchors pats groups ((a, s) # rest) =
     (case position a pats of
        Some g \<Rightarrow> group_anchors pats (groups[g := groups ! g @ [s]]) rest
      | None \<Rightarrow> group_anchors (pats @ [a]) (groups @ [[s]]) rest)"

definition anchors_build :: "(bytes list \<Rightarrow> 'a option) \<Rightarrow> (bytes \<times> nat) list \<Rightarrow> 'a anchors option" where
  "anchors_build ac_build as =
     (let (pats, groups) = group_anchors [] [] as in
      if pats = [] then None
      else case ac_build pats of
        None \<Rightarrow> None
      | Some a \<Rightarrow> Some \<lparr>automaton = a, anchor_groups = groups\<rparr>)"

section \<open>Ingesting lines\<close>

definition set_len :: "'a pattern_set \<Rightarrow> nat" where
  "set_len ps = length (filter (\<lambda>sg. \<not> piece sg) (signatures ps)) + length (logicals ps)"

definition set_is_empty :: "'a pattern_set \<Rightarrow> bool" where
  "set_is_empty ps \<longleftrightarrow> signatures ps = []"

definition count_reason :: "string \<Rightarrow> pattern_stats \<Rightarrow> pattern_stats" where
  "count_reason reason st =
     st\<lparr>st_unsupported := st_unsupported st + 1,
        st_reasons := (st_reasons st)(reason \<mapsto> (case st_reasons st reason of None \<Rightarrow> 0 | Some n \<Rightarrow> n) + 1)\<rparr>"

definition ingest :: "'a pattern_set \<Rightarrow> string \<Rightarrow> pattern_stats \<Rightarrow> bool \<times> 'a pattern_set \<times> pattern_stats" where
  "ingest ps line st =
     (case parse_line line of
        Kept sg \<Rightarrow> (True, ps\<lparr>signatures := signatures ps @ [sg]\<rparr>, st\<lparr>st_loaded := st_loaded st + 1\<rparr>)
      | Unsupported reason \<Rightarrow> (False, ps, count_reason reason st)
      | TooWeak \<Rightarrow> (False, ps, st\<lparr>st_too_weak := st_too_weak st + 1\<rparr>))"

definition key_of :: "signature \<Rightarrow> piece_key" where
  "key_of sg = (sig_target sg, sig_offset sg, parts sg, fold_case sg, fullword sg)"

fun parse_pieces :: "string \<Rightarrow> target \<Rightarrow> string list \<Rightarrow> parsed + signature list list" where
  "parse_pieces name targ [] = Inr []"
| "parse_pieces name targ (f # fs) =
     (case parse_piece name targ (trim f) of
        Inl e \<Rightarrow> Inl e
      | Inr variants \<Rightarrow>
          (case parse_pieces name targ fs of
             Inl e \<Rightarrow> Inl e
           | Inr built \<Rightarrow> Inr (variants # built)))"

text \<open>Storing one variant of a piece: an identical piece already stored is shared.\<close>

definition add_piece :: "nat \<Rightarrow> 'a pattern_set \<times> nat list \<times> nat list \<Rightarrow> signature \<Rightarrow>
    'a pattern_set \<times> nat list \<times> nat list" where
  "add_piece slot st sg =
     (case st of (ps, pieces, slot_of) \<Rightarrow>
        (let sg' = sg\<lparr>piece := True, sig_name := []\<rparr>;
             next = length (signatures ps);
             pid = (case piece_index ps (key_of sg') of None \<Rightarrow> next | Some i \<Rightarrow> i);
             idx = (case piece_index ps (key_of sg') of
                      None \<Rightarrow> (piece_index ps)(key_of sg' \<mapsto> next) | Some _ \<Rightarrow> piece_index ps);
             sigs = (if pid = next then signatures ps @ [sg'] else signatures ps)
         in (ps\<lparr>signatures := sigs, piece_index := idx\<rparr>, pieces @ [pid], slot_of @ [slot])))"

definition add_pieces :: "'a pattern_set \<Rightarrow> signature list list \<Rightarrow> 'a pattern_set \<times> nat list \<times> nat list" where
  "add_pieces ps built =
     foldl (\<lambda>st (slot, variants). foldl (add_piece slot) st variants) (ps, [], []) (enumerate 0 built)"

definition logical_floor :: "expr \<Rightarrow> nat" where
  "logical_floor e = (case e of Seen _ \<Rightarrow> MIN_FIXED_BYTES | _ \<Rightarrow> MIN_LOGICAL_FIXED_BYTES)"

definition narrow_lengths :: "signature list list \<Rightarrow> nat list" where
  "narrow_lengths built = map (\<lambda>vs. case vs of [] \<Rightarrow> 0 | sg # _ \<Rightarrow> fixed_bytes_narrow sg) built"

definition parse_logical :: "'a pattern_set \<Rightarrow> string \<Rightarrow> parsed + 'a pattern_set" where
  "parse_logical ps line =
     (let fields = split_on (CHR '';'') (trim line) in
      if length fields < 4 \<or> length fields - 3 > MAX_LOGICAL_SUBSIGNATURES
      then Inl (Unsupported ''ldb: malformed or too many pieces'')
      else let name = trim (fields ! 0) in
        if name = [] then Inl (Unsupported ''ldb: malformed or too many pieces'')
        else case parse_target_block (trim (fields ! 1)) of
          None \<Rightarrow> Inl (Unsupported ''ldb: target block condition'')
        | Some (targ, file_size) \<Rightarrow>
            (case parse (trim (fields ! 2)) of
               None \<Rightarrow> Inl (Unsupported ''ldb: expression form'')
             | Some e \<Rightarrow>
                 (let subs = length fields - 3 in
                  if sort_dedup (subsignatures e) \<noteq> [0..<subs]
                  then Inl (Unsupported ''ldb: pieces and expression disagree'')
                  else case parse_pieces name targ (drop 3 fields) of
                    Inl err \<Rightarrow> Inl err
                  | Inr built \<Rightarrow>
                      if required_bytes e (narrow_lengths built) < logical_floor e then Inl TooWeak
                      else case add_pieces ps built of
                        (ps', pieces, slot_of) \<Rightarrow>
                          Inr (ps'\<lparr>logicals := logicals ps' @
                            [\<lparr>l_name = name, l_file_size = file_size, l_expression = e, l_slots = subs,
                              l_pieces = pieces, l_slot_of = slot_of\<rparr>]\<rparr>))))"

definition ingest_logical :: "'a pattern_set \<Rightarrow> string \<Rightarrow> pattern_stats \<Rightarrow> bool \<times> 'a pattern_set \<times> pattern_stats" where
  "ingest_logical ps line st =
     (case parse_logical ps line of
        Inr ps' \<Rightarrow> (True, ps', st\<lparr>st_loaded := st_loaded st + 1\<rparr>)
      | Inl TooWeak \<Rightarrow> (False, ps, st\<lparr>st_too_weak := st_too_weak st + 1\<rparr>)
      | Inl (Unsupported reason) \<Rightarrow> (False, ps, count_reason reason st)
      | Inl (Kept _) \<Rightarrow> (False, ps, st))"

section \<open>Building\<close>

text \<open>The references to pieces, in the order the two nested loops of \<^verbatim>\<open>build\<close> visit them.\<close>

definition piece_refs :: "logical list \<Rightarrow> (nat \<times> nat) list" where
  "piece_refs ls = concat (map (\<lambda>(i, l). map (\<lambda>p. (p, i)) (l_pieces l)) (enumerate 0 ls))"

fun place_users :: "nat list \<Rightarrow> nat list \<Rightarrow> (nat \<times> nat) list \<Rightarrow> nat list" where
  "place_users next users [] = users"
| "place_users next users ((p, i) # refs) =
     place_users (next[p := next ! p + 1]) (users[next ! p := i]) refs"

definition build_users :: "nat \<Rightarrow> logical list \<Rightarrow> piece_users" where
  "build_users n ls =
     (let starts = count_starts (replicate (n + 1) 0) (piece_refs ls);
          starts = prefix_sums starts [1..<length starts];
          users = place_users starts (replicate (starts ! (length starts - 1)) 0) (piece_refs ls)
      in \<lparr>pu_starts = starts, pu_users = users\<rparr>)"

definition build :: "(bytes list \<Rightarrow> 'a option) \<Rightarrow> 'a pattern_set \<Rightarrow> 'a pattern_set" where
  "build ac_build ps =
     ps\<lparr>set_anchors := anchors_build ac_build
          (map (\<lambda>(i, sg). (map to_ascii_lowercase (anchor sg), i)) (enumerate 0 (signatures ps))),
        set_users := build_users (length (signatures ps)) (logicals ps)\<rparr>"

section \<open>Scanning\<close>

text \<open>
  The scratch. Its buffer \<^verbatim>\<open>gathered\<close> is cleared and refilled before each use, so it is the value of
  \<open>gather\<close> here.
\<close>

record scratch =
  counts :: "nat list"
  touched :: "nat list"
  marked :: "bool list"
  candidates :: "nat list"

definition empty_scratch :: scratch where
  "empty_scratch = \<lparr>counts = [], touched = [], marked = [], candidates = []\<rparr>"

definition scratch_clear :: "scratch \<Rightarrow> scratch" where
  "scratch_clear sc =
     sc\<lparr>counts := foldl (\<lambda>cs p. cs[p := 0]) (counts sc) (touched sc), touched := [],
        marked := foldl (\<lambda>ms c. ms[c := False]) (marked sc) (candidates sc), candidates := []\<rparr>"

definition scratch_prepare :: "scratch \<Rightarrow> nat \<Rightarrow> nat \<Rightarrow> scratch" where
  "scratch_prepare sc pieces n_logicals =
     (let sc = scratch_clear sc;
          sc = (if length (counts sc) \<noteq> pieces then sc\<lparr>counts := replicate pieces 0\<rparr> else sc)
      in if length (marked sc) \<noteq> n_logicals then sc\<lparr>marked := replicate n_logicals False\<rparr> else sc)"

record scan_state =
  steps :: nat
  hits :: nat
  verified :: nat
  scr :: scratch

text \<open>Counting one verified match of a piece.\<close>

definition count_piece :: "nat \<Rightarrow> scratch \<Rightarrow> scratch" where
  "count_piece index sc =
     sc\<lparr>touched := (if counts sc ! index = 0 then touched sc @ [index] else touched sc),
        counts := (counts sc)[index := saturating_add u32_max (counts sc ! index) 1]\<rparr>"

fun scan_hits :: "signature list \<Rightarrow> context_data \<Rightarrow> bool list \<Rightarrow> (nat \<times> nat) list \<Rightarrow> scan_state \<Rightarrow>
    string option option \<times> scan_state" where
  "scan_hits sigs ctx applies [] st = (None, st)"
| "scan_hits sigs ctx applies ((index, start) # rest) st =
     (let st = st\<lparr>hits := hits st + 1\<rparr>; sg = sigs ! index in
      if \<not> applies ! target_index (sig_target sg) \<or> (piece sg \<and> ctx_truncated ctx)
      then scan_hits sigs ctx applies rest st
      else case verify sg ctx start (steps st) of
        (ok, steps') \<Rightarrow>
          (let st = st\<lparr>verified := verified st + 1, steps := steps'\<rparr> in
           if ok \<and> \<not> piece sg then (Some (Some (sig_name sg)), st)
           else let st = (if ok then st\<lparr>scr := count_piece index (scr st)\<rparr> else st) in
             if steps st > MAX_VERIFY_STEPS * 16 then (Some None, st)
             else scan_hits sigs ctx applies rest st))"

definition mark_user :: "scratch \<Rightarrow> nat \<Rightarrow> scratch" where
  "mark_user sc user =
     (if marked sc ! user then sc
      else sc\<lparr>marked := (marked sc)[user := True], candidates := candidates sc @ [user]\<rparr>)"

definition collect_candidates :: "piece_users \<Rightarrow> scratch \<Rightarrow> scratch" where
  "collect_candidates pu sc = foldl (\<lambda>sc p. foldl mark_user sc (users_of pu p)) sc (touched sc)"

definition gather :: "nat list \<Rightarrow> logical \<Rightarrow> nat list" where
  "gather cs l =
     foldl (\<lambda>g (p, slot). g[slot := saturating_add u32_max (g ! slot) (cs ! p)])
       (replicate (l_slots l) 0) (zip (l_pieces l) (l_slot_of l))"

definition size_allows :: "logical \<Rightarrow> nat \<Rightarrow> bool" where
  "size_allows l file_size =
     (case l_file_size l of None \<Rightarrow> True | Some (least, most) \<Rightarrow> least \<le> file_size \<and> file_size \<le> most)"

fun judge :: "logical list \<Rightarrow> nat list \<Rightarrow> nat \<Rightarrow> nat option \<Rightarrow> nat list \<Rightarrow> nat option" where
  "judge ls cs file_size found [] = found"
| "judge ls cs file_size found (c # rest) =
     (if (case found of None \<Rightarrow> False | Some best \<Rightarrow> best < c) then judge ls cs file_size found rest
      else if \<not> size_allows (ls ! c) file_size then judge ls cs file_size found rest
      else if holds (l_expression (ls ! c)) (gather cs (ls ! c)) then judge ls cs file_size (Some c) rest
      else judge ls cs file_size found rest)"

text \<open>The pairs the nested loops of the matching closure visit: every signature of every group found.\<close>

definition candidate_hits :: "('a \<Rightarrow> bytes \<Rightarrow> (nat \<times> nat) list) \<Rightarrow> 'a anchors \<Rightarrow> bytes \<Rightarrow> (nat \<times> nat) list" where
  "candidate_hits ac_find an content =
     concat (map (\<lambda>(g, start). map (\<lambda>index. (index, start)) (anchor_groups an ! g))
       (ac_find (automaton an) (map to_ascii_lowercase content)))"

definition scan_context :: "bytes \<Rightarrow> nat \<Rightarrow> bool \<Rightarrow> context_data" where
  "scan_context content file_size truncated =
     \<lparr>ctx_text = content, ctx_file_size = file_size, ctx_truncated = truncated,
      ctx_layout = layout_read content\<rparr>"

definition scan_counting :: "('a \<Rightarrow> bytes \<Rightarrow> (nat \<times> nat) list) \<Rightarrow> 'a pattern_set \<Rightarrow> scratch \<Rightarrow> bytes \<Rightarrow> nat \<Rightarrow>
    bool \<Rightarrow> string option \<times> nat \<times> nat \<times> scratch" where
  "scan_counting ac_find ps sc content file_size truncated =
     (case set_anchors ps of
        None \<Rightarrow> (None, 0, 0, sc)
      | Some an \<Rightarrow>
          (let applies = map (\<lambda>t. applies_to t content) target_ALL;
               sc = scratch_prepare sc (length (signatures ps)) (length (logicals ps))
           in case scan_hits (signatures ps) (scan_context content file_size truncated) applies
                     (candidate_hits ac_find an content)
                     \<lparr>steps = 0, hits = 0, verified = 0, scr = sc\<rparr> of
                (Some verdict, st) \<Rightarrow> (verdict, hits st, verified st, scratch_clear (scr st))
              | (None, st) \<Rightarrow>
                  (let sc = collect_candidates (set_users ps) (scr st);
                       found = judge (logicals ps) (counts sc) file_size None (candidates sc)
                   in (map_option (\<lambda>i. l_name (logicals ps ! i)) found,
                       hits st, verified st, scratch_clear sc))))"

definition scan :: "('a \<Rightarrow> bytes \<Rightarrow> (nat \<times> nat) list) \<Rightarrow> 'a pattern_set \<Rightarrow> scratch \<Rightarrow> bytes \<Rightarrow> nat \<Rightarrow> bool \<Rightarrow>
    string option \<times> 'a pattern_set \<times> scratch" where
  "scan ac_find ps sc content file_size truncated =
     (case scan_counting ac_find ps sc content file_size truncated of
        (found, h, v, sc') \<Rightarrow>
          (found, ps\<lparr>anchor_hits := (anchor_hits ps + h) mod 2 ^ 64,
                     verifications := (verifications ps + v) mod 2 ^ 64\<rparr>, sc'))"


section \<open>The piece-to-user array\<close>

text \<open>The state of the placing loop after the references \<open>before\<close>.\<close>

definition placed :: "nat \<Rightarrow> (nat \<times> nat) list \<Rightarrow> (nat \<times> nat) list \<Rightarrow> nat list \<Rightarrow> nat list \<Rightarrow> bool" where
  "placed n refs before nxt us \<longleftrightarrow>
     n \<le> length nxt \<and> length us = length refs \<and>
     (\<forall>p < n. nxt ! p = below refs p + length (selected p before) \<and>
        (\<forall>j < length (selected p before). us ! (below refs p + j) = selected p before ! j))"

lemma placed_step:
  assumes refs: "refs = before @ (p, i) # rest" "\<forall>r \<in> set refs. fst r < n"
    and inv: "placed n refs before nxt us"
  shows "placed n refs (before @ [(p, i)]) (nxt[p := nxt ! p + 1]) (us[nxt ! p := i])"
proof -
  have p: "p < n" using refs by auto
  have at: "nxt ! p = below refs p + length (selected p before)"
    using inv p by (simp add: placed_def)
  have fits: "length (selected q before) \<le> length (selected q refs)" for q
    unfolding refs(1) by simp
  have here: "length (selected p before) < length (selected p refs)"
    unfolding refs(1) by simp
  have "below refs p + length (selected p refs) \<le> length refs"
    using selected_end_le [OF p, of refs] below_all [OF refs(2)] by simp
  with at here have room: "nxt ! p < length us" using inv by (simp add: placed_def)
  have other: "below refs q + j \<noteq> nxt ! p" if "q \<noteq> p" "j < length (selected q before)" for q j
  proof (cases "q < p")
    case True
    with that fits [of q] selected_end_le [of q p refs] show ?thesis by (simp add: at)
  next
    case False
    with that have "p < q" by simp
    with here selected_end_le [of p q refs] show ?thesis by (simp add: at)
  qed
  show ?thesis
    using inv p at room other by (auto simp: placed_def nth_list_update nth_append less_Suc_eq) metis
qed

lemma place_users_placed:
  "refs = before @ rest \<Longrightarrow> \<forall>r \<in> set refs. fst r < n \<Longrightarrow> placed n refs before nxt us \<Longrightarrow>
     \<exists>nxt'. placed n refs refs nxt' (place_users nxt us rest)"
proof (induction nxt us rest arbitrary: before rule: place_users.induct)
  case (2 nxt us p i rest)
  from placed_step [OF 2(2,3,4)] 2(1) [of "before @ [(p, i)]"] 2(2,3) show ?case by simp
qed auto

lemma users_of_build:
  assumes refs: "\<forall>r \<in> set (piece_refs ls). fst r < n" and p: "p < n"
  shows "users_of (build_users n ls) p = selected p (piece_refs ls)"
proof -
  let ?r = "piece_refs ls"
  define ss where "ss = prefix_sums (count_starts (replicate (n + 1) 0) ?r) [1..<n + 1]"
  have len: "length ss = n + 1" by (simp add: ss_def)
  have at: "ss ! k = below ?r k" if "k \<le> n" for k
    using starts_nth [OF refs that] by (simp add: ss_def)
  have total: "ss ! n = length ?r" using at [of n] below_all [OF refs] by simp
  define us where "us = place_users ss (replicate (length ?r) 0) ?r"
  have "placed n ?r [] ss (replicate (length ?r) 0)" using at len by (simp add: placed_def)
  then obtain nxt where inv: "placed n ?r ?r nxt us"
    using place_users_placed [of ?r "[]" ?r n] refs unfolding us_def by auto blast
  have b: "build_users n ls = \<lparr>pu_starts = ss, pu_users = us\<rparr>"
    using total by (simp add: build_users_def Let_def ss_def us_def)
  have en: "ss ! Suc p = below ?r p + length (selected p ?r)" using at [of "Suc p"] p by (simp add: below_Suc)
  have le: "ss ! Suc p \<le> length us"
    using inv at [of "Suc p"] p below_mono [of "Suc p" n ?r] below_all [OF refs] by (simp add: placed_def)
  have "slice us (ss ! p) (ss ! Suc p) = selected p ?r"
  proof (rule nth_equalityI)
    show "length (slice us (ss ! p) (ss ! Suc p)) = length (selected p ?r)"
      using le en at [of p] p by (simp add: length_slice)
  next
    fix j assume "j < length (slice us (ss ! p) (ss ! Suc p))"
    then show "slice us (ss ! p) (ss ! Suc p) ! j = selected p ?r ! j"
      using le en at [of p] p inv by (simp add: length_slice slice_nth placed_def)
  qed
  then show ?thesis using p len by (simp add: users_of_def b get_at_def)
qed

lemma set_selected_refs: "set (selected p (piece_refs ls)) = {i. i < length ls \<and> p \<in> set (l_pieces (ls ! i))}"
  by (force simp: selected_def piece_refs_def in_set_enumerate_eq)

lemma selected_refs: "selected p (piece_refs ls) =
    concat (map (\<lambda>(i, l). replicate (count_list (l_pieces l) p) i) (enumerate 0 ls))"
proof -
  have one: "selected p (map (\<lambda>q. (q, i)) qs) = replicate (count_list qs p) i" for i :: nat and qs
    by (induction qs) (auto simp: selected_def)
  then show ?thesis by (simp add: piece_refs_def selected_concat comp_def case_prod_unfold)
qed

section \<open>Invariant\<close>

text \<open>
  Pieces are well-formed signatures without a name, the index knows exactly the stored pieces (so
  no piece is stored twice), and a logical signature's pieces and slots are in range. The last
  clause keeps why it was accepted: some choice of piece lengths makes its expression need at
  least the floor.
\<close>

definition wf_index :: "'a pattern_set \<Rightarrow> bool" where
  "wf_index ps \<longleftrightarrow> (\<forall>k i. piece_index ps k = Some i \<longleftrightarrow>
     i < length (signatures ps) \<and> piece (signatures ps ! i) \<and> key_of (signatures ps ! i) = k)"

definition wf_logical :: "signature list \<Rightarrow> logical \<Rightarrow> bool" where
  "wf_logical sigs l \<longleftrightarrow>
     l_name l \<noteq> [] \<and> length (l_slot_of l) = length (l_pieces l) \<and>
     (\<forall>p \<in> set (l_pieces l). p < length sigs \<and> piece (sigs ! p)) \<and>
     (\<forall>s \<in> set (l_slot_of l). s < l_slots l) \<and>
     set (subsignatures (l_expression l)) = {..<l_slots l} \<and>
     (\<exists>fixed. logical_floor (l_expression l) \<le> required_bytes (l_expression l) fixed)"

definition wf_set :: "'a pattern_set \<Rightarrow> bool" where
  "wf_set ps \<longleftrightarrow>
     (\<forall>sg \<in> set (signatures ps). wf_signature sg \<and> (\<not> piece sg \<longrightarrow> sig_name sg \<noteq> [])) \<and> wf_index ps \<and>
     (\<forall>l \<in> set (logicals ps). wf_logical (signatures ps) l)"

lemma wf_empty_set: "wf_set empty_set"
  by (simp add: wf_set_def empty_set_def wf_index_def)

lemma wf_logical_append: "wf_logical sigs l \<Longrightarrow> wf_logical (sigs @ new) l"
  by (auto simp: wf_logical_def nth_append)

lemma wf_signature_cong:
  "parts sg' = parts sg \<Longrightarrow> anchor_part sg' = anchor_part sg \<Longrightarrow> anchor_start sg' = anchor_start sg \<Longrightarrow>
     anchor_len sg' = anchor_len sg \<Longrightarrow> wf_signature sg' = wf_signature sg"
  by (simp add: wf_signature_def split: part.splits)

lemma wf_set_ingest:
  assumes "wf_set ps"
  shows "wf_set (fst (snd (ingest ps line st)))"
proof (cases "parse_line line")
  case (Kept sg)
  then obtain name targ off hex where
    "build_signature name targ off hex MIN_FIXED_BYTES = Kept sg" "name \<noteq> []"
    by (auto simp: parse_line_def Let_def split: if_splits option.splits)
  from build_signature_Kept [OF this(1)] this(2)
  have sg: "wf_signature sg" "\<not> piece sg" "sig_name sg \<noteq> []" by auto
  have "wf_index (ps\<lparr>signatures := signatures ps @ [sg]\<rparr>)"
    using assms sg(2) by (auto simp: wf_set_def wf_index_def nth_append less_Suc_eq)
  with assms sg show ?thesis
    by (auto simp: ingest_def Kept wf_set_def intro: wf_logical_append)
qed (use assms in \<open>simp_all add: ingest_def\<close>)

text \<open>Every variant of a piece that parses is a well-formed signature.\<close>

lemma literal_signatures_wf:
  "literal_signatures name targ off m forms = Some sgs \<Longrightarrow>
     length sgs = length forms \<and> (\<forall>sg \<in> set sgs. wf_signature sg)"
proof (induction forms arbitrary: sgs)
  case (Cons bs forms)
  from Cons.prems obtain ap as al rest where
    a: "best_anchor [Bytes (map Some bs)] = Some (ap, as, al)"
    and rest: "literal_signatures name targ off m forms = Some rest"
    and sgs: "sgs = \<lparr>sig_name = name, sig_target = targ, sig_offset = off, parts = [Bytes (map Some bs)],
                     anchor_part = ap, anchor_start = as, anchor_len = al,
                     piece = False, fold_case = m_fold m, fullword = m_fullword m\<rparr> # rest"
    by (auto simp: Let_def split: option.splits bind_splits)
  from best_anchor_window [OF a] have "wf_signature (hd sgs)"
    by (auto simp: sgs wf_signature_def valid_window_def MIN_ANCHOR_def)
  with Cons.IH [OF rest] show ?case by (simp add: sgs)
qed simp

lemma plain_piece_wf:
  assumes "plain_piece name targ off hex m = Inr sgs"
  shows "sgs \<noteq> [] \<and> (\<forall>sg \<in> set sgs. wf_signature sg)"
proof -
  from assms obtain sg where sg: "build_signature name targ off hex MIN_ANCHOR = Kept sg"
    "sgs = [sg\<lparr>fold_case := m_fold m, fullword := m_fullword m\<rparr>]"
    by (auto simp: plain_piece_def split: parsed.splits)
  have "wf_signature (sg\<lparr>fold_case := m_fold m, fullword := m_fullword m\<rparr>) = wf_signature sg"
    by (rule wf_signature_cong) simp_all
  with build_signature_Kept [OF sg(1)] sg(2) show ?thesis by simp
qed

lemma parse_piece_wf:
  assumes "parse_piece name targ content = Inr sgs"
  shows "sgs \<noteq> [] \<and> (\<forall>sg \<in> set sgs. wf_signature sg)"
proof -
  from assms obtain off hex m where
    "plain_piece name targ off hex m = Inr sgs \<or> modified_piece name targ off hex m = Inr sgs"
    by (auto simp: parse_piece_def Let_def split: if_splits option.splits prod.splits)
  then consider "plain_piece name targ off hex m = Inr sgs"
    | forms where "literal_signatures name targ off m forms = Some sgs" "forms \<noteq> []"
    by (auto simp: modified_piece_def simp del: literal_signatures.simps split: if_splits option.splits)
  then show ?thesis
    by cases (use plain_piece_wf literal_signatures_wf in fastforce)+
qed

lemma parse_pieces_wf:
  "parse_pieces name targ fs = Inr built \<Longrightarrow>
     length built = length fs \<and> (\<forall>vs \<in> set built. vs \<noteq> [] \<and> (\<forall>sg \<in> set vs. wf_signature sg))"
proof (induction fs arbitrary: built)
  case (Cons f fs)
  then show ?case using parse_piece_wf by (fastforce split: sum.splits)
qed simp

text \<open>
  What storing the variants \<open>done\<close> of a line's pieces, with their slots, makes of the set \<open>ps0\<close>: old
  signatures keep their numbers, and each variant is found under the number noted for it.
\<close>

definition pieces_added :: "'a pattern_set \<Rightarrow> (nat \<times> signature) list \<Rightarrow> 'a pattern_set \<times> nat list \<times> nat list \<Rightarrow> bool" where
  "pieces_added ps0 stored st = (case st of (ps, pieces, slot_of) \<Rightarrow>
     prefix (signatures ps0) (signatures ps) \<and> logicals ps = logicals ps0 \<and> wf_index ps \<and>
     (\<forall>sg \<in> set (signatures ps). wf_signature sg \<and> (\<not> piece sg \<longrightarrow> sig_name sg \<noteq> [])) \<and>
     (\<forall>p \<in> set pieces. p < length (signatures ps) \<and> piece (signatures ps ! p)) \<and>
     map (\<lambda>p. key_of (signatures ps ! p)) pieces = map (key_of \<circ> snd) stored \<and>
     slot_of = map fst stored)"

lemma map_nth_append: "\<forall>p \<in> set ps. p < length xs \<Longrightarrow> map (\<lambda>p. f ((xs @ ys) ! p)) ps = map (\<lambda>p. f (xs ! p)) ps"
  by (simp add: nth_append)

lemma pieces_added_step:
  assumes added: "pieces_added ps0 stored (ps, pieces, slot_of)" and sg: "wf_signature sg"
  shows "pieces_added ps0 (stored @ [(slot, sg)]) (add_piece slot (ps, pieces, slot_of) sg)"
proof -
  define sg' where "sg' = sg\<lparr>piece := True, sig_name := []\<rparr>"
  have key: "key_of sg' = key_of sg" by (simp add: sg'_def key_of_def)
  have sg': "wf_signature sg'" "piece sg'"
    using sg wf_signature_cong [of sg' sg] by (simp_all add: sg'_def)
  have inv: "prefix (signatures ps0) (signatures ps)" "logicals ps = logicals ps0" "wf_index ps"
    "\<forall>sg \<in> set (signatures ps). wf_signature sg \<and> (\<not> piece sg \<longrightarrow> sig_name sg \<noteq> [])"
    "\<forall>p \<in> set pieces. p < length (signatures ps) \<and> piece (signatures ps ! p)"
    "map (\<lambda>p. key_of (signatures ps ! p)) pieces = map (key_of \<circ> snd) stored" "slot_of = map fst stored"
    using added by (auto simp: pieces_added_def)
  show ?thesis
  proof (cases "piece_index ps (key_of sg)")
    case (Some i)
    then have i: "i < length (signatures ps)" "piece (signatures ps ! i)" "key_of (signatures ps ! i) = key_of sg"
      using inv(3) unfolding wf_index_def by blast+
    with Some have "add_piece slot (ps, pieces, slot_of) sg = (ps, pieces @ [i], slot_of @ [slot])"
      by (simp add: add_piece_def Let_def key [unfolded sg'_def])
    with inv i show ?thesis by (simp add: pieces_added_def)
  next
    case None
    let ?n = "length (signatures ps)"
    let ?ps = "ps\<lparr>signatures := signatures ps @ [sg'], piece_index := (piece_index ps)(key_of sg \<mapsto> ?n)\<rparr>"
    have step: "add_piece slot (ps, pieces, slot_of) sg = (?ps, pieces @ [?n], slot_of @ [slot])"
      using None by (simp add: add_piece_def Let_def key flip: sg'_def)
    have new: "key_of (signatures ps ! i) \<noteq> key_of sg" if "i < ?n" "piece (signatures ps ! i)" for i
      using that None inv(3) unfolding wf_index_def by (metis option.distinct(1))
    have "wf_index ?ps"
      using inv(3) new sg' key by (auto simp: wf_index_def nth_append less_Suc_eq)
    moreover have "map (\<lambda>p. key_of ((signatures ps @ [sg']) ! p)) pieces = map (\<lambda>p. key_of (signatures ps ! p)) pieces"
      using inv(5) by (intro map_nth_append) simp
    ultimately show ?thesis
      unfolding step pieces_added_def using inv sg' key by (auto simp: nth_append)
  qed
qed

lemma pieces_added_variants:
  "pieces_added ps0 stored st \<Longrightarrow> \<forall>sg \<in> set vs. wf_signature sg \<Longrightarrow>
     pieces_added ps0 (stored @ map (Pair slot) vs) (foldl (add_piece slot) st vs)"
proof (induction vs arbitrary: stored st)
  case (Cons sg vs)
  obtain ps pieces slot_of where st: "st = (ps, pieces, slot_of)" by (cases st)
  from Cons.prems pieces_added_step [of ps0 stored ps pieces slot_of sg slot]
  have "pieces_added ps0 (stored @ [(slot, sg)]) (add_piece slot st sg)" by (simp add: st)
  from Cons.IH [OF this] Cons.prems(2) show ?case by simp
qed simp

lemma pieces_added_all:
  "pieces_added ps0 stored st \<Longrightarrow> \<forall>(slot, vs) \<in> set svs. \<forall>sg \<in> set vs. wf_signature sg \<Longrightarrow>
     pieces_added ps0 (stored @ concat (map (\<lambda>(slot, vs). map (Pair slot) vs) svs))
       (foldl (\<lambda>st (slot, variants). foldl (add_piece slot) st variants) st svs)"
proof (induction svs arbitrary: stored st)
  case (Cons sv svs)
  obtain slot vs where sv: "sv = (slot, vs)" by (cases sv)
  from Cons.prems have "pieces_added ps0 (stored @ map (Pair slot) vs) (foldl (add_piece slot) st vs)"
    by (intro pieces_added_variants) (auto simp: sv)
  from Cons.IH [OF this] Cons.prems(2) show ?case by (simp add: sv)
qed simp

definition piece_variants :: "signature list list \<Rightarrow> (nat \<times> signature) list" where
  "piece_variants built = concat (map (\<lambda>(slot, vs). map (Pair slot) vs) (enumerate 0 built))"

lemma add_pieces_added:
  assumes "wf_set ps" "\<forall>vs \<in> set built. \<forall>sg \<in> set vs. wf_signature sg"
  shows "pieces_added ps (piece_variants built) (add_pieces ps built)"
proof -
  have "pieces_added ps [] (ps, [], [])"
    using assms(1) by (auto simp: pieces_added_def wf_set_def)
  then have "pieces_added ps ([] @ concat (map (\<lambda>(slot, vs). map (Pair slot) vs) (enumerate 0 built))) (add_pieces ps built)"
    unfolding add_pieces_def using assms(2)
    by (intro pieces_added_all) (auto simp: in_set_enumerate_eq)
  then show ?thesis by (simp add: piece_variants_def)
qed

lemma map_fst_piece_variants: "s \<in> set (map fst (piece_variants built)) \<Longrightarrow> s < length built"
  by (auto simp: piece_variants_def in_set_enumerate_eq)

lemma sort_dedup_upt: "sort_dedup xs = [0..<n] \<Longrightarrow> set xs = {..<n}"
  using set_sort_dedup [of xs] by (simp add: lessThan_atLeast0)

lemma parse_logical_added:
  assumes wf: "wf_set ps" and ok: "parse_logical ps line = Inr ps'"
  shows "wf_set ps' \<and> prefix (signatures ps) (signatures ps') \<and>
         (\<exists>l built targ. logicals ps' = logicals ps @ [l] \<and>
            parse (trim (split_on (CHR '';'') (trim line) ! 2)) = Some (l_expression l) \<and>
            parse_pieces (l_name l) targ (drop 3 (split_on (CHR '';'') (trim line))) = Inr built \<and>
            l_slot_of l = map fst (piece_variants built) \<and>
            map (\<lambda>p. key_of (signatures ps' ! p)) (l_pieces l) = map (key_of \<circ> snd) (piece_variants built))"
proof -
  let ?fields = "split_on (CHR '';'') (trim line)"
  let ?subs = "length ?fields - 3"
  from ok obtain name targ size e built ps1 pieces slot_of where
    name: "name \<noteq> []"
    and parse: "parse (trim (?fields ! 2)) = Some e"
    and e: "sort_dedup (subsignatures e) = [0..<?subs]"
    and built: "parse_pieces name targ (drop 3 ?fields) = Inr built"
    and strong: "logical_floor e \<le> required_bytes e (narrow_lengths built)"
    and add: "add_pieces ps built = (ps1, pieces, slot_of)"
    and ps': "ps' = ps1\<lparr>logicals := logicals ps1 @ [\<lparr>l_name = name, l_file_size = size, l_expression = e,
                l_slots = ?subs, l_pieces = pieces, l_slot_of = slot_of\<rparr>]\<rparr>"
    by (auto simp: parse_logical_def Let_def split: if_splits option.splits sum.splits prod.splits)
  have pieces: "length built = ?subs" "\<forall>vs \<in> set built. \<forall>sg \<in> set vs. wf_signature sg"
    using parse_pieces_wf [OF built] by auto
  from add_pieces_added [OF wf pieces(2)] have
    added: "pieces_added ps (piece_variants built) (ps1, pieces, slot_of)" by (simp add: add)
  then have inv: "prefix (signatures ps) (signatures ps1)" "logicals ps1 = logicals ps"
    "map (\<lambda>p. key_of (signatures ps1 ! p)) pieces = map (key_of \<circ> snd) (piece_variants built)"
    "slot_of = map fst (piece_variants built)"
    by (auto simp: pieces_added_def)
  let ?l = "\<lparr>l_name = name, l_file_size = size, l_expression = e, l_slots = ?subs,
             l_pieces = pieces, l_slot_of = slot_of\<rparr>"
  have "length pieces = length slot_of" using arg_cong [OF inv(3), of length] inv(4) by simp
  then have "wf_logical (signatures ps1) ?l"
    using added name strong sort_dedup_upt [OF e] map_fst_piece_variants [of _ built] pieces(1)
    by (auto simp: wf_logical_def pieces_added_def)
  moreover from inv(1) obtain new where "signatures ps1 = signatures ps @ new" by (auto simp: prefix_def)
  then have "\<forall>l \<in> set (logicals ps). wf_logical (signatures ps1) l"
    using wf wf_logical_append by (auto simp: wf_set_def)
  ultimately have "wf_set ps'"
    using added by (auto simp: wf_set_def ps' pieces_added_def wf_index_def)
  moreover have "\<exists>l built targ. logicals ps' = logicals ps @ [l] \<and> parse (trim (?fields ! 2)) = Some (l_expression l) \<and>
      parse_pieces (l_name l) targ (drop 3 ?fields) = Inr built \<and> l_slot_of l = map fst (piece_variants built) \<and>
      map (\<lambda>p. key_of (signatures ps' ! p)) (l_pieces l) = map (key_of \<circ> snd) (piece_variants built)"
    using inv built parse
    by (intro exI [of _ ?l] exI [of _ built] exI [of _ targ]) (simp add: ps')
  ultimately show ?thesis using inv(1) by (simp add: ps')
qed

lemma wf_set_ingest_logical: "wf_set ps \<Longrightarrow> wf_set (fst (snd (ingest_logical ps line st)))"
  using parse_logical_added by (fastforce simp: ingest_logical_def split: sum.splits parsed.splits)

lemma piece_refs_below:
  "wf_set ps \<Longrightarrow> \<forall>r \<in> set (piece_refs (logicals ps)). fst r < length (signatures ps)"
  by (fastforce simp: piece_refs_def in_set_enumerate_eq wf_set_def wf_logical_def)

section \<open>Properties\<close>

text \<open>A logical line with two pieces, and what loading it into an empty set gives.\<close>

definition example_logical_line :: string where
  "example_logical_line = ''Ex;Target:0;0&1;deadbeef00112233;cafebabe44556677''"

definition example_piece :: "bytes \<Rightarrow> signature" where
  "example_piece bs =
     \<lparr>sig_name = ''Ex'', sig_target = TargetAny, sig_offset = \<lparr>off_base = Anywhere, off_shift = 0\<rparr>,
      parts = [Bytes (map Some bs)], anchor_part = 0, anchor_start = 0, anchor_len = 8,
      piece = False, fold_case = False, fullword = False\<rparr>"

definition example_bytes :: "bytes \<times> bytes" where
  "example_bytes = ([0xde, 0xad, 0xbe, 0xef, 0, 0x11, 0x22, 0x33],
     [0xca, 0xfe, 0xba, 0xbe, 0x44, 0x55, 0x66, 0x77])"

definition example_set :: "'a pattern_set" where
  "example_set = empty_set
     \<lparr>signatures := [example_piece (fst example_bytes)\<lparr>piece := True, sig_name := []\<rparr>,
                     example_piece (snd example_bytes)\<lparr>piece := True, sig_name := []\<rparr>],
      piece_index := Map.empty(key_of (example_piece (fst example_bytes)) \<mapsto> 0,
                               key_of (example_piece (snd example_bytes)) \<mapsto> 1),
      logicals := [\<lparr>l_name = ''Ex'', l_file_size = None, l_expression = All [Seen 0, Seen 1],
                    l_slots = 2, l_pieces = [0, 1], l_slot_of = [0, 1]\<rparr>]\<rparr>"

lemma parse_example_pieces:
  "parse_pieces ''Ex'' TargetAny [''deadbeef00112233'', ''cafebabe44556677''] =
     Inr [[example_piece (fst example_bytes)], [example_piece (snd example_bytes)]]"
proof -
  have hex: "parse_hex ''deadbeef00112233'' = Some [Bytes (map Some (fst example_bytes))]"
    "parse_hex ''cafebabe44556677'' = Some [Bytes (map Some (snd example_bytes))]"
    by (simp_all add: hex_eval example_bytes_def)
  have anchor: "best_anchor [Bytes (map Some (fst example_bytes))] = Some (0, 0, 8)"
    "best_anchor [Bytes (map Some (snd example_bytes))] = Some (0, 0, 8)"
    by (simp_all add: anchor_eval example_bytes_def)
  have part: "part_fixed (Bytes (map Some (fst example_bytes))) = 8"
    "part_fixed (Bytes (map Some (snd example_bytes))) = 8"
    by (simp_all add: part_fixed_def example_bytes_def)
  show ?thesis
    by (simp add: parse_piece_def contains_def plain_piece_def build_signature_def hex anchor part
        trim_def is_whitespace_def MIN_ANCHOR_def no_modifiers_def is_pe_base_def example_piece_def Let_def)
qed

lemma parse_example_logical: "parse_logical (empty_set :: 'a pattern_set) example_logical_line = Inr example_set"
proof -
  have target: "parse_target_block ''Target:0'' = Some (TargetAny, None)"
    by (simp add: parse_target_block_def target_entry_def target_of_def trim_def is_whitespace_def)
  have expr: "parse ''0&1'' = Some (All [Seen 0, Seen 1])"
    by (simp add: logical_eval)
  have strong: "\<not> required_bytes (All [Seen 0, Seen 1])
      (narrow_lengths [[example_piece (fst example_bytes)], [example_piece (snd example_bytes)]]) <
      logical_floor (All [Seen 0, Seen 1])"
    by (simp add: narrow_lengths_def fixed_bytes_narrow_def fixed_bytes_def part_fixed_def
        example_piece_def example_bytes_def logical_floor_def MIN_LOGICAL_FIXED_BYTES_def at0_def)
  have "key_of (example_piece (snd example_bytes)) \<noteq> key_of (example_piece (fst example_bytes))"
    by (simp add: key_of_def example_piece_def example_bytes_def)
  then have add: "add_pieces (empty_set :: 'a pattern_set) [[example_piece (fst example_bytes)], [example_piece (snd example_bytes)]] =
      (example_set\<lparr>logicals := []\<rparr>, [0, 1], [0, 1])"
    by (simp add: add_pieces_def add_piece_def key_of_def Let_def example_set_def empty_set_def)
  show ?thesis
    using parse_example_pieces strong
    by (simp add: parse_logical_def add example_logical_line_def trim_def is_whitespace_def
        target expr sort_dedup_def MAX_LOGICAL_SUBSIGNATURES_def Let_def numeral_2_eq_2
        upt_conv_Cons example_set_def)
qed

lemma wf_example_set: "wf_set example_set"
  using parse_logical_added [OF wf_empty_set parse_example_logical] by blast

text \<open>
  Loading keeps the set well formed, whatever the line: after \<open>ingest\<close> or \<open>ingest_logical\<close>, every
  signature can be searched for, the piece index knows each stored piece under exactly one
  number, and every logical signature refers to pieces and slots that exist and needs at least
  the floor of fixed bytes. Numbers already handed out keep their meaning.
\<close>

theorem ingest_keeps_wf:
  assumes "wf_set ps"
  shows "wf_set (fst (snd (ingest ps line st))) \<and> wf_set (fst (snd (ingest_logical ps line st))) \<and>
         prefix (signatures ps) (signatures (fst (snd (ingest_logical ps line st))))"
proof -
  have "prefix (signatures ps) (signatures (fst (snd (ingest_logical ps line st))))"
    using parse_logical_added [OF assms, of line]
    by (auto simp: ingest_logical_def split: sum.splits parsed.splits)
  with assms wf_set_ingest wf_set_ingest_logical show ?thesis by blast
qed

theorem ingest_keeps_wf_witness:
  "wf_set (empty_set :: unit pattern_set) \<and>
   wf_set (fst (snd (ingest (empty_set :: unit pattern_set) ''A.B:1:EP+4:deadbeef00112233''
     \<lparr>st_loaded = 0, st_unsupported = 0, st_too_weak = 0, st_reasons = Map.empty\<rparr>)))"
  using ingest_keeps_wf [OF wf_empty_set] wf_empty_set by blast

text \<open>
  A logical line that is accepted adds one logical signature whose pieces stand, in order and
  slot by slot, for exactly the variants its pieces parse to: sharing a stored piece never
  substitutes a different one, since what is found under its number has the same target, offset,
  parts and case and word flags.
\<close>

theorem parse_logical_stores_pieces:
  assumes "wf_set ps" "parse_logical ps line = Inr ps'"
  shows "\<exists>l built targ. logicals ps' = logicals ps @ [l] \<and>
            parse (trim (split_on (CHR '';'') (trim line) ! 2)) = Some (l_expression l) \<and>
            parse_pieces (l_name l) targ (drop 3 (split_on (CHR '';'') (trim line))) = Inr built \<and>
            l_slot_of l = map fst (piece_variants built) \<and>
            map (\<lambda>p. key_of (signatures ps' ! p)) (l_pieces l) = map (key_of \<circ> snd) (piece_variants built)"
  using parse_logical_added [OF assms] by blast

theorem parse_logical_stores_pieces_witness:
  "parse_logical (empty_set :: unit pattern_set) example_logical_line = Inr example_set \<and>
   (\<exists>l built. logicals (example_set :: unit pattern_set) = [l] \<and> l_slot_of l = map fst (piece_variants built))"
  using parse_logical_stores_pieces [OF wf_empty_set parse_example_logical]
    parse_example_logical by (fastforce simp: empty_set_def)

text \<open>
  The flat piece-to-user array is right: after \<open>build\<close>, the slice of piece \<open>p\<close> lists every
  logical signature that uses \<open>p\<close>, once per use, in loading order, and nothing else.
\<close>

theorem build_users_exact:
  assumes "wf_set ps" "p < length (signatures ps)"
  shows "users_of (set_users (build ac_build ps)) p =
         concat (map (\<lambda>(i, l). replicate (count_list (l_pieces l) p) i) (enumerate 0 (logicals ps)))"
  using users_of_build [OF piece_refs_below [OF assms(1)] assms(2)]
  by (simp add: build_def selected_refs)

theorem build_users_exact_witness:
  "users_of (set_users (build (\<lambda>pats. Some ()) example_set)) 1 = [0]"
proof -
  have "1 < length (signatures (example_set :: unit pattern_set))" by (simp add: example_set_def)
  from build_users_exact [OF wf_example_set this, of "\<lambda>pats. Some ()"] show ?thesis
    by (simp add: example_set_def)
qed

end
