(* ===== verification/Collections.thy ===== *)
theory Collections
  imports Prelude
begin

text \<open>
  The keyed collections of the Rust standard library the components use, as association lists.
  A \<^verbatim>\<open>HashMap\<close> is a list of entries with distinct keys whose order means nothing; a \<^verbatim>\<open>BTreeMap\<close> is a
  list of entries in strictly ascending key order, so \<^verbatim>\<open>pop_first\<close> takes its head.
\<close>

named_theorems map_simps \<open>lookups after updates of the standard collections\<close>

section \<open>Hash maps\<close>

definition hm_get :: "('k \<times> 'v) list \<Rightarrow> 'k \<Rightarrow> 'v option" where
  "hm_get m k = map_of m k"

definition hm_remove :: "'k \<Rightarrow> ('k \<times> 'v) list \<Rightarrow> ('k \<times> 'v) list" where
  "hm_remove k m = filter (\<lambda>e. fst e \<noteq> k) m"

definition hm_insert :: "'k \<Rightarrow> 'v \<Rightarrow> ('k \<times> 'v) list \<Rightarrow> ('k \<times> 'v) list" where
  "hm_insert k v m = (k, v) # hm_remove k m"

definition hm_wf :: "('k \<times> 'v) list \<Rightarrow> bool" where
  "hm_wf m \<longleftrightarrow> distinct (map fst m)"

text \<open>\<^verbatim>\<open>collect\<close> into a map: a later entry replaces an earlier one with the same key.\<close>

definition hm_collect :: "('k \<times> 'v) list \<Rightarrow> ('k \<times> 'v) list" where
  "hm_collect es = foldl (\<lambda>m (k, v). hm_insert k v m) [] es"

lemma hm_get_Nil [simp, map_simps]: "hm_get [] k = None"
  by (simp add: hm_get_def)

lemma hm_get_Cons [map_simps]: "hm_get (e # m) k = (if fst e = k then Some (snd e) else hm_get m k)"
  by (simp add: hm_get_def)

lemma hm_get_remove [simp, map_simps]: "hm_get (hm_remove k m) k' = (if k' = k then None else hm_get m k')"
  by (induction m) (auto simp: hm_get_def hm_remove_def)

lemma hm_get_insert [simp, map_simps]: "hm_get (hm_insert k v m) k' = (if k' = k then Some v else hm_get m k')"
  using hm_get_remove [of k m k'] by (simp add: hm_insert_def hm_get_Cons)

lemma set_hm_remove [simp]: "set (hm_remove k m) = {e \<in> set m. fst e \<noteq> k}"
  by (auto simp: hm_remove_def)

lemma keys_hm_remove [map_simps]: "fst ` set (hm_remove k m) = fst ` set m - {k}"
  by (auto simp: image_iff)

lemma keys_hm_insert [map_simps]: "fst ` set (hm_insert k v m) = insert k (fst ` set m)"
  by (auto simp: hm_insert_def image_iff)

lemma hm_wf_Nil [simp]: "hm_wf []"
  by (simp add: hm_wf_def)

lemma hm_wf_remove [simp]: "hm_wf m \<Longrightarrow> hm_wf (hm_remove k m)"
  by (simp add: hm_wf_def hm_remove_def distinct_map_filter)

lemma hm_wf_insert [simp]: "hm_wf m \<Longrightarrow> hm_wf (hm_insert k v m)"
  using hm_wf_remove [of m k] by (auto simp: hm_wf_def hm_insert_def)

lemma hm_get_iff: "hm_wf m \<Longrightarrow> hm_get m k = Some v \<longleftrightarrow> (k, v) \<in> set m"
  by (simp add: hm_wf_def hm_get_def)

lemma hm_get_None: "hm_get m k = None \<longleftrightarrow> k \<notin> fst ` set m"
  by (simp add: hm_get_def map_of_eq_None_iff)

lemma hm_remove_absent: "hm_get m k = None \<Longrightarrow> hm_remove k m = m"
  by (auto simp: hm_get_None hm_remove_def filter_id_conv)

lemma length_hm_remove: "hm_wf m \<Longrightarrow> hm_get m k = Some v \<Longrightarrow> length (hm_remove k m) = length m - 1"
proof (induction m)
  case (Cons e m)
  show ?case
  proof (cases "fst e = k")
    case True
    with Cons.prems(1) have "hm_get m k = None" by (simp add: hm_wf_def hm_get_None)
    with True hm_remove_absent [of m k] show ?thesis by (simp add: hm_remove_def)
  next
    case False
    with Cons have "hm_get m k = Some v" "hm_wf m" by (simp_all add: hm_get_Cons hm_wf_def)
    moreover have "m \<noteq> []" using \<open>hm_get m k = Some v\<close> by auto
    ultimately show ?thesis using Cons.IH False by (cases m) (simp_all add: hm_remove_def)
  qed
qed simp

lemma length_hm_remove_le: "length (hm_remove k m) \<le> length m"
  by (simp add: hm_remove_def)

lemma hm_wf_foldl_insert: "hm_wf m \<Longrightarrow> hm_wf (foldl (\<lambda>m (k, v). hm_insert k v m) m es)"
  by (induction es arbitrary: m) auto

lemma hm_wf_collect [simp]: "hm_wf (hm_collect es)"
  by (simp add: hm_collect_def hm_wf_foldl_insert)

lemma length_hm_collect: "length (hm_collect es) \<le> length es"
proof -
  have "length (foldl (\<lambda>m (k, v). hm_insert k v m) m es) \<le> length m + length es" for m
  proof (induction es arbitrary: m)
    case (Cons e es)
    obtain k v where "e = (k, v)" by (cases e)
    moreover have "length (hm_insert k v m) \<le> Suc (length m)"
      by (simp add: hm_insert_def length_hm_remove_le)
    ultimately show ?case using Cons.IH [of "hm_insert k v m"] by simp
  qed simp
  from this [of "[]"] show ?thesis by (simp add: hm_collect_def)
qed

lemma hm_get_collect: "hm_get (hm_collect es) k = map_of (rev es) k"
proof -
  have "hm_get (foldl (\<lambda>m (k, v). hm_insert k v m) m es) k =
      (case map_of (rev es) k of None \<Rightarrow> hm_get m k | Some v \<Rightarrow> Some v)" for m
  proof (induction es arbitrary: m)
    case (Cons e es)
    obtain k' v' where "e = (k', v')" by (cases e)
    with Cons show ?case by (auto simp: map_add_def split: option.splits)
  qed simp
  then show ?thesis by (auto simp: hm_collect_def split: option.splits)
qed

section \<open>Ordered maps\<close>

fun bt_insert :: "'k :: linorder \<Rightarrow> 'v \<Rightarrow> ('k \<times> 'v) list \<Rightarrow> ('k \<times> 'v) list" where
  "bt_insert k v [] = [(k, v)]"
| "bt_insert k v ((k', v') # m) =
     (if k < k' then (k, v) # (k', v') # m
      else if k = k' then (k, v) # m else (k', v') # bt_insert k v m)"

definition bt_wf :: "('k :: linorder \<times> 'v) list \<Rightarrow> bool" where
  "bt_wf m \<longleftrightarrow> sorted_wrt (<) (map fst m)"

lemma set_bt_insert: "bt_wf m \<Longrightarrow> set (bt_insert k v m) = insert (k, v) {e \<in> set m. fst e \<noteq> k}"
  by (induction k v m rule: bt_insert.induct) (auto simp: bt_wf_def)

lemma bt_wf_insert: "bt_wf m \<Longrightarrow> bt_wf (bt_insert k v m)"
proof (induction k v m rule: bt_insert.induct)
  case (2 k v k' v' m)
  then show ?case using set_bt_insert [of m k v] by (auto simp: bt_wf_def)
qed (simp add: bt_wf_def)

text \<open>A key above all others goes to the end.\<close>

lemma bt_insert_last: "\<forall>e \<in> set m. fst e < k \<Longrightarrow> bt_insert k v m = m @ [(k, v)]"
  by (induction k v m rule: bt_insert.induct) auto

lemma bt_wf_filter: "bt_wf m \<Longrightarrow> bt_wf (filter P m)"
  by (simp add: bt_wf_def sorted_wrt_map sorted_wrt_filter)

lemma bt_wf_remove: "bt_wf m \<Longrightarrow> bt_wf (hm_remove k m)"
  by (simp add: hm_remove_def bt_wf_filter)

lemma bt_wf_hm_wf: "bt_wf m \<Longrightarrow> hm_wf m"
  by (simp add: bt_wf_def hm_wf_def strict_sorted_iff)

end
