(* ===== verification/Engine_Types.thy ===== *)
theory Engine_Types
  imports Collections
begin

text \<open>
  The vocabulary of \<^verbatim>\<open>src/engine.rs\<close>: verdicts, kinds of content, evidence and reports. The
  human-readable \<^verbatim>\<open>description\<close> of an evidence item and the report's \<^verbatim>\<open>error\<close> text are left out: no
  decision of the program reads them. The report's entropy is left out too; the one decision it
  takes part in is a parameter of the analysis (see \<^verbatim>\<open>Engine\<close>).
\<close>

datatype verdict = Clean | Suspicious | Malicious | Error

datatype script_language = PowerShell | Batch | JavaScript | VisualBasic | Shell | Python | Generic

datatype content_type = Empty | Pe32 | Pe64 | PeUnknown | Script script_language | Text | Pdf | Zip
  | Gzip | SevenZip | Rar | OleCompound | Lnk | Elf | MachO | Binary | Unknown

datatype analysis_completeness = Complete | PrefixOnly | PrefixAndTargetedRegions
  | ResourceLimitReached | ChangedDuringScan | TimedOut | UnsupportedFormat

datatype evidence_severity = Informational | Low | Medium | High | Critical

record evidence_item =
  code :: string
  severity :: evidence_severity
  risk_points :: nat

record scan_report =
  r_verdict :: verdict
  r_content_type :: content_type
  r_risk_score :: nat
  r_confidence :: nat
  r_sha256 :: "string option"
  r_file_size :: nat
  r_bytes_scanned :: nat
  r_truncated :: bool
  r_completeness :: analysis_completeness
  r_evidence :: "evidence_item list"
  r_error :: bool

text \<open>\<^verbatim>\<open>EvidenceSeverity\<close> derives its order from the order of its variants.\<close>

fun severity_rank :: "evidence_severity \<Rightarrow> nat" where
  "severity_rank Informational = 0"
| "severity_rank Low = 1"
| "severity_rank Medium = 2"
| "severity_rank High = 3"
| "severity_rank Critical = 4"

lemma severity_rank_inject [simp]: "severity_rank a = severity_rank b \<longleftrightarrow> a = b"
  by (cases a; cases b) simp_all

instantiation evidence_severity :: linorder
begin

definition less_eq_evidence_severity :: "evidence_severity \<Rightarrow> evidence_severity \<Rightarrow> bool" where
  "less_eq_evidence_severity a b \<longleftrightarrow> severity_rank a \<le> severity_rank b"

definition less_evidence_severity :: "evidence_severity \<Rightarrow> evidence_severity \<Rightarrow> bool" where
  "less_evidence_severity a b \<longleftrightarrow> severity_rank a < severity_rank b"

instance
  by standard (auto simp: less_eq_evidence_severity_def less_evidence_severity_def)

end

definition error_report :: "nat \<Rightarrow> nat \<Rightarrow> scan_report" where
  "error_report file_size bytes_scanned =
     \<lparr>r_verdict = Error, r_content_type = Unknown, r_risk_score = 0, r_confidence = 0, r_sha256 = None,
      r_file_size = file_size, r_bytes_scanned = bytes_scanned, r_truncated = False,
      r_completeness = ResourceLimitReached,
      r_evidence = [\<lparr>code = ''scan.io_error'', severity = High, risk_points = 0\<rparr>], r_error = True\<rparr>"

definition push_evidence :: "string \<Rightarrow> evidence_severity \<Rightarrow> nat \<Rightarrow> evidence_item list \<Rightarrow> evidence_item list" where
  "push_evidence c s p ev = ev @ [\<lparr>code = c, severity = s, risk_points = p\<rparr>]"

end
