(* ===== verification/Verdict_Cache.thy ===== *)
theory Verdict_Cache
  imports Engine_Types
begin

text \<open>
  The verdict cache of \<^verbatim>\<open>src/verdict_cache.rs\<close>: entries by file identity with the tick of their last
  use, and the keys by tick, oldest first. Times are in nanoseconds; the current time is an
  argument. The 64-bit tick wraps, so the results hold for the first \<open>2^64 - 1\<close> operations: the
  predicate \<open>cache_ok n\<close> says the cache is consistent and has room for \<open>n\<close> more ticks.

  The contract is the locale \<open>lru_store\<close>: a bounded list of entries, least recently used first. Its
  lemmas are about any store with that contract; the interpretation \<open>vc\<close> shows that the cache is
  one.
\<close>

section \<open>Model\<close>

datatype cache_verdict = CacheClean | CacheMalicious | CacheSuspicious | CacheScanError

record verdict_cache_key =
  volume_serial :: nat
  file_id :: nat
  key_file_size :: nat
  content_generation :: nat
  change_time :: int

record cached_verdict =
  cv_verdict :: cache_verdict
  cv_risk_score :: nat
  cv_confidence :: nat
  cv_threat_name :: "string option"
  cv_sha256 :: "string option"
  cv_file_size :: nat
  cv_bytes_scanned :: nat
  cv_truncated :: bool
  cv_definition_generation :: nat
  cv_scanned_at :: int
  cv_completeness :: analysis_completeness
  cv_automatic_quarantine_eligible :: bool
  cv_execution_block_eligible :: bool

definition is_cacheable :: "cached_verdict \<Rightarrow> bool" where
  "is_cacheable v =
     (if cv_verdict v = CacheScanError then False
      else if cv_verdict v = CacheClean
      then cv_completeness v = Complete \<and> \<not> cv_truncated v \<and> cv_sha256 v \<noteq> None
      else True)"

record verdict_cache =
  capacity :: nat
  entries :: "(verdict_cache_key \<times> cached_verdict \<times> nat) list"
  recency :: "(nat \<times> verdict_cache_key) list"
  tick :: nat

definition cache_new :: "nat \<Rightarrow> verdict_cache" where
  "cache_new cap = \<lparr>capacity = cap, entries = [], recency = [], tick = 0\<rparr>"

text \<open>\<^verbatim>\<open>num_hours\<close> of a duration: whole hours, rounded towards zero.\<close>

definition num_hours :: "int \<Rightarrow> int" where
  "num_hours d = sgn d * (\<bar>d\<bar> div 3600000000000)"

definition is_fresh :: "nat \<Rightarrow> int \<Rightarrow> cached_verdict \<Rightarrow> bool" where
  "is_fresh generation now v \<longleftrightarrow>
     num_hours (now - cv_scanned_at v) < 24 \<and> cv_definition_generation v = generation"

definition next_tick :: "nat \<Rightarrow> nat" where
  "next_tick t = (t + 1) mod 2 ^ 64"

definition cache_get :: "verdict_cache \<Rightarrow> verdict_cache_key \<Rightarrow> nat \<Rightarrow> int \<Rightarrow> cached_verdict option \<times> verdict_cache" where
  "cache_get c key generation now =
     (case hm_get (entries c) key of
        None \<Rightarrow> (None, c)
      | Some (cached, last_used) \<Rightarrow>
          (let c = c\<lparr>recency := hm_remove last_used (recency c)\<rparr> in
           if \<not> is_fresh generation now cached
           then (None, c\<lparr>entries := hm_remove key (entries c)\<rparr>)
           else let t = next_tick (tick c) in
             (Some cached, c\<lparr>tick := t, recency := bt_insert t key (recency c),
                             entries := hm_insert key (cached, t) (entries c)\<rparr>)))"

definition cache_insert :: "verdict_cache \<Rightarrow> verdict_cache_key \<Rightarrow> cached_verdict \<Rightarrow> bool \<times> verdict_cache" where
  "cache_insert c key v =
     (if \<not> is_cacheable v then (False, c)
      else
        (let c = (case hm_get (entries c) key of
                    Some (_, last_used) \<Rightarrow>
                      c\<lparr>entries := hm_remove key (entries c), recency := hm_remove last_used (recency c)\<rparr>
                  | None \<Rightarrow>
                      if length (entries c) \<ge> capacity c then
                        (case recency c of
                           [] \<Rightarrow> c
                         | (_, oldest) # rest \<Rightarrow>
                             c\<lparr>recency := rest, entries := hm_remove oldest (entries c)\<rparr>)
                      else c);
             t = next_tick (tick c)
         in (True, c\<lparr>tick := t, recency := bt_insert t key (recency c),
                     entries := hm_insert key (v, t) (entries c)\<rparr>)))"

section \<open>The contract\<close>

text \<open>A list of entries, least recently used first, at most \<open>cap\<close> of them (one if \<open>cap\<close> is zero).\<close>

definition lru_put :: "nat \<Rightarrow> 'k \<Rightarrow> 'v \<Rightarrow> ('k \<times> 'v) list \<Rightarrow> ('k \<times> 'v) list" where
  "lru_put cap k v cs =
     (if hm_get cs k \<noteq> None then hm_remove k cs else if length cs \<ge> cap then tl cs else cs) @ [(k, v)]"

definition lru_use :: "('v \<Rightarrow> bool) \<Rightarrow> 'k \<Rightarrow> ('k \<times> 'v) list \<Rightarrow> 'v option \<times> ('k \<times> 'v) list" where
  "lru_use usable k cs =
     (case hm_get cs k of
        None \<Rightarrow> (None, cs)
      | Some v \<Rightarrow> if usable v then (Some v, hm_remove k cs @ [(k, v)]) else (None, hm_remove k cs))"

text \<open>What the clients do: look an entry up, given what makes it usable, or offer one.\<close>

datatype ('k, 'v, 'u) store_op = Look 'k 'u | Offer 'k 'v

fun run_ops :: "('s \<Rightarrow> 'k \<Rightarrow> 'u \<Rightarrow> 'v option \<times> 's) \<Rightarrow> ('s \<Rightarrow> 'k \<Rightarrow> 'v \<Rightarrow> bool \<times> 's) \<Rightarrow> 's \<Rightarrow>
    ('k, 'v, 'u) store_op list \<Rightarrow> 'v option list \<times> 's" where
  "run_ops look offer s [] = ([], s)"
| "run_ops look offer s (Look k u # ops) =
     (case look s k u of (r, s') \<Rightarrow> case run_ops look offer s' ops of (rs, s'') \<Rightarrow> (r # rs, s''))"
| "run_ops look offer s (Offer k v # ops) =
     (case offer s k v of (_, s') \<Rightarrow> case run_ops look offer s' ops of (rs, s'') \<Rightarrow> (None # rs, s''))"

definition lru_offer :: "nat \<Rightarrow> ('v \<Rightarrow> bool) \<Rightarrow> ('k \<times> 'v) list \<Rightarrow> 'k \<Rightarrow> 'v \<Rightarrow> bool \<times> ('k \<times> 'v) list" where
  "lru_offer cap admits cs k v = (admits v, if admits v then lru_put cap k v cs else cs)"

definition lru_look :: "('u \<Rightarrow> 'v \<Rightarrow> bool) \<Rightarrow> ('k \<times> 'v) list \<Rightarrow> 'k \<Rightarrow> 'u \<Rightarrow> 'v option \<times> ('k \<times> 'v) list" where
  "lru_look usable cs k u = lru_use (usable u) k cs"

text \<open>The last admissible entry offered under a key, and the keys a run mentions.\<close>

fun last_offer :: "('v \<Rightarrow> bool) \<Rightarrow> 'k \<Rightarrow> ('k, 'v, 'u) store_op list \<Rightarrow> 'v option" where
  "last_offer admits k [] = None"
| "last_offer admits k (Look _ _ # ops) = last_offer admits k ops"
| "last_offer admits k (Offer k' v # ops) =
     (case last_offer admits k ops of
        Some v' \<Rightarrow> Some v'
      | None \<Rightarrow> if k' = k \<and> admits v then Some v else None)"

fun op_key :: "('k, 'v, 'u) store_op \<Rightarrow> 'k" where
  "op_key (Look k _) = k"
| "op_key (Offer k _) = k"

section \<open>Laws of the list\<close>

lemma hm_get_append: "hm_get (xs @ ys) k = (case hm_get xs k of None \<Rightarrow> hm_get ys k | Some v \<Rightarrow> Some v)"
  by (induction xs) (auto simp: hm_get_Cons)

lemma hm_remove_append: "hm_remove k (xs @ ys) = hm_remove k xs @ hm_remove k ys"
  by (simp add: hm_remove_def)

lemma hm_wf_append: "hm_wf (xs @ ys) \<longleftrightarrow> hm_wf xs \<and> hm_wf ys \<and> fst ` set xs \<inter> fst ` set ys = {}"
  by (auto simp: hm_wf_def)

lemma in_set_tl: "x \<in> set (tl xs) \<Longrightarrow> x \<in> set xs"
  by (cases xs) auto

lemma hm_wf_tl: "hm_wf m \<Longrightarrow> hm_wf (tl m)"
  by (simp add: hm_wf_def map_tl distinct_tl)

lemma hm_get_tl: "hm_wf m \<Longrightarrow> hm_get (tl m) k = Some v \<Longrightarrow> hm_get m k = Some v"
  by (cases m) (auto simp: hm_get_Cons hm_wf_def hm_get_iff dest: map_of_SomeD simp: hm_get_def image_iff)

lemma lru_put_wf: "hm_wf cs \<Longrightarrow> hm_wf (lru_put cap k v cs)"
proof -
  assume wf: "hm_wf cs"
  let ?rest = "if hm_get cs k \<noteq> None then hm_remove k cs else if length cs \<ge> cap then tl cs else cs"
  have "hm_wf ?rest" using wf hm_wf_tl by auto
  moreover have "k \<notin> fst ` set ?rest"
    by (auto simp: hm_get_None image_iff dest: in_set_tl)
  ultimately show "hm_wf (lru_put cap k v cs)"
    unfolding lru_put_def hm_wf_append by (auto simp: hm_wf_def)
qed

lemma lru_put_get: "hm_wf cs \<Longrightarrow> hm_get (lru_put cap k v cs) k = Some v"
  using lru_put_wf [of cs cap k v] by (simp add: hm_get_iff) (simp add: lru_put_def)

lemma lru_put_other:
  "hm_wf cs \<Longrightarrow> hm_get (lru_put cap k v cs) k' = Some v' \<Longrightarrow> k' \<noteq> k \<Longrightarrow> hm_get cs k' = Some v'"
  by (auto simp: lru_put_def hm_get_append hm_get_Cons hm_get_tl split: option.splits if_splits)

lemma lru_put_length:
  assumes "hm_wf cs" "length cs \<le> max 1 cap"
  shows "length (lru_put cap k v cs) \<le> max 1 cap"
  using assms length_hm_remove [of cs k] hm_get_None [of cs k]
  by (cases cs) (auto simp: lru_put_def max_def split: if_splits)

lemma lru_use_wf: "hm_wf cs \<Longrightarrow> hm_wf (snd (lru_use usable k cs))"
  by (auto simp: lru_use_def hm_wf_append split: option.splits) (simp_all add: hm_wf_def)

lemma lru_use_get:
  "hm_wf cs \<Longrightarrow> hm_get (snd (lru_use usable k cs)) k' = Some v' \<Longrightarrow> hm_get cs k' = Some v'"
  by (auto simp: lru_use_def hm_get_append hm_get_Cons split: option.splits if_splits)

lemma lru_use_length: "hm_wf cs \<Longrightarrow> length (snd (lru_use usable k cs)) \<le> length cs"
proof (cases "hm_get cs k")
  case (Some v)
  assume "hm_wf cs"
  then have "length (hm_remove k cs) = length cs - 1" using Some by (rule length_hm_remove)
  moreover have "cs \<noteq> []" using Some by auto
  ultimately show ?thesis using Some by (cases cs) (auto simp: lru_use_def)
qed (simp add: lru_use_def)

text \<open>An entry keeps its place while fewer keys than the capacity are mentioned after it.\<close>

definition followed_by :: "'k set \<Rightarrow> 'k \<Rightarrow> 'v \<Rightarrow> ('k \<times> 'v) list \<Rightarrow> bool" where
  "followed_by ks k v cs \<longleftrightarrow> (\<exists>before after. cs = before @ (k, v) # after \<and> fst ` set after \<subseteq> ks)"

lemma followed_by_remove:
  "followed_by ks k v cs \<Longrightarrow> k' \<noteq> k \<Longrightarrow> followed_by ks k v (hm_remove k' cs)"
  unfolding followed_by_def
proof (elim exE conjE)
  fix before after assume "cs = before @ (k, v) # after" "fst ` set after \<subseteq> ks" "k' \<noteq> k"
  then have "hm_remove k' cs = hm_remove k' before @ (k, v) # hm_remove k' after \<and> fst ` set (hm_remove k' after) \<subseteq> ks"
    by (auto simp: hm_remove_def)
  then show "\<exists>before after. hm_remove k' cs = before @ (k, v) # after \<and> fst ` set after \<subseteq> ks" by blast
qed

lemma followed_by_snoc: "followed_by ks k v cs \<Longrightarrow> k' \<in> ks \<Longrightarrow> followed_by ks k v (cs @ [(k', v')])"
  by (force simp: followed_by_def)

lemma followed_by_put:
  assumes f: "followed_by ks k v cs" and wf: "hm_wf cs" and k': "k' \<in> ks" "k' \<noteq> k"
    and few: "finite ks" "card ks < cap"
  shows "followed_by ks k v (lru_put cap k' v' cs)"
proof (cases "hm_get cs k' \<noteq> None \<or> length cs < cap")
  case True
  then show ?thesis
    using f k' followed_by_remove [OF f k'(2)] followed_by_snoc by (auto simp: lru_put_def)
next
  case False
  obtain before after where cs: "cs = before @ (k, v) # after" "fst ` set after \<subseteq> ks"
    using f by (auto simp: followed_by_def)
  have "k' \<notin> fst ` set after" using False cs by (auto simp: hm_get_None)
  then have "fst ` set after \<subset> ks" using cs k' by blast
  then have "card (fst ` set after) < card ks" using few by (simp add: psubset_card_mono)
  moreover have "card (fst ` set after) = length after"
    using wf distinct_card [of "map fst after"] by (simp add: cs hm_wf_def)
  ultimately have "before \<noteq> []" using False few by (auto simp: cs)
  then have "tl cs = tl before @ (k, v) # after" by (simp add: cs tl_append split: list.splits)
  then have "followed_by ks k v (tl cs)" using cs(2) by (auto simp: followed_by_def)
  with False k' show ?thesis by (auto simp: lru_put_def intro: followed_by_snoc)
qed

lemma followed_by_use:
  assumes "followed_by ks k v cs" "k' \<in> ks" "k' \<noteq> k"
  shows "followed_by ks k v (snd (lru_use usable k' cs))"
  using assms followed_by_remove [OF assms(1,3)] by (auto simp: lru_use_def intro: followed_by_snoc split: option.splits)

section \<open>What every such store guarantees\<close>

locale lru_store =
  fixes ok :: "nat \<Rightarrow> 's \<Rightarrow> bool"
    and cap :: "'s \<Rightarrow> nat"
    and contents :: "'s \<Rightarrow> ('k \<times> 'v) list"
    and admits :: "'v \<Rightarrow> bool"
    and usable :: "'u \<Rightarrow> 'v \<Rightarrow> bool"
    and look :: "'s \<Rightarrow> 'k \<Rightarrow> 'u \<Rightarrow> 'v option \<times> 's"
    and offer :: "'s \<Rightarrow> 'k \<Rightarrow> 'v \<Rightarrow> bool \<times> 's"
  assumes ok_less: "ok (n + m) s \<Longrightarrow> ok n s"
    and contents_wf: "ok n s \<Longrightarrow> hm_wf (contents s)"
    and look_refines: "ok (Suc n) s \<Longrightarrow> look s k u = (r, s') \<Longrightarrow>
      ok n s' \<and> cap s' = cap s \<and> (r, contents s') = lru_use (usable u) k (contents s)"
    and offer_refines: "ok (Suc n) s \<Longrightarrow> offer s k v = (b, s') \<Longrightarrow>
      ok n s' \<and> cap s' = cap s \<and> b = admits v \<and>
      contents s' = (if admits v then lru_put (cap s) k v (contents s) else contents s)"
begin

lemma run_refines:
  "ok (length ops + n) s \<Longrightarrow> run_ops look offer s ops = (rs, s') \<Longrightarrow>
     ok n s' \<and> cap s' = cap s \<and>
     run_ops (lru_look usable) (lru_offer (cap s) admits) (contents s) ops = (rs, contents s')"
proof (induction ops arbitrary: s rs)
  case (Cons op ops)
  show ?case
  proof (cases op)
    case (Look k u)
    obtain r s1 where l: "look s k u = (r, s1)" by fastforce
    obtain rs1 where r: "run_ops look offer s1 ops = (rs1, s')" "rs = r # rs1"
      using Cons.prems(2) by (auto simp: Look l split: prod.splits)
    have ok: "ok (Suc (length ops + n)) s" using Cons.prems(1) by simp
    from look_refines [OF ok l] have s1: "ok (length ops + n) s1" "cap s1 = cap s"
      "lru_look usable (contents s) k u = (r, contents s1)" by (auto simp: lru_look_def)
    from Cons.IH [OF s1(1) r(1)] s1 r(2) show ?thesis by (simp add: Look)
  next
    case (Offer k v)
    obtain b s1 where l: "offer s k v = (b, s1)" by fastforce
    obtain rs1 where r: "run_ops look offer s1 ops = (rs1, s')" "rs = None # rs1"
      using Cons.prems(2) by (auto simp: Offer l split: prod.splits)
    have ok: "ok (Suc (length ops + n)) s" using Cons.prems(1) by simp
    from offer_refines [OF ok l] have s1: "ok (length ops + n) s1" "cap s1 = cap s"
      "lru_offer (cap s) admits (contents s) k v = (b, contents s1)" by (auto simp: lru_offer_def)
    from Cons.IH [OF s1(1) r(1)] s1 r(2) show ?thesis by (simp add: Offer)
  qed
qed simp

lemma run_bounded:
  "ok (length ops) s \<Longrightarrow> length (contents s) \<le> max 1 (cap s) \<Longrightarrow>
     length (contents (snd (run_ops look offer s ops))) \<le> max 1 (cap s)"
proof (induction ops arbitrary: s)
  case (Cons op ops)
  from Cons.prems(1) have ok: "ok (Suc (length ops)) s" by simp
  show ?case
  proof (cases op)
    case (Look k u)
    obtain r s1 where l: "look s k u = (r, s1)" by fastforce
    from look_refines [OF ok l] have s1: "ok (length ops) s1" "cap s1 = cap s"
      "contents s1 = snd (lru_use (usable u) k (contents s))" by (auto dest: arg_cong [of _ _ snd])
    with Cons.IH [OF s1(1)] Cons.prems(2) lru_use_length [OF contents_wf [OF ok]]
    show ?thesis by (fastforce simp: Look l split: prod.splits intro: order_trans)
  next
    case (Offer k v)
    obtain b s1 where l: "offer s k v = (b, s1)" by fastforce
    from offer_refines [OF ok l] have s1: "ok (length ops) s1" "cap s1 = cap s"
      "contents s1 = (if admits v then lru_put (cap s) k v (contents s) else contents s)" by auto
    with Cons.IH [OF s1(1)] Cons.prems(2) lru_put_length [OF contents_wf [OF ok]]
    show ?thesis by (auto simp: Offer l split: prod.splits)
  qed
qed simp

lemma run_origin:
  "ok (length ops) s \<Longrightarrow> hm_get (contents (snd (run_ops look offer s ops))) k = Some v \<Longrightarrow>
     last_offer admits k ops = Some v \<or> (last_offer admits k ops = None \<and> hm_get (contents s) k = Some v)"
proof (induction ops arbitrary: s)
  case (Cons op ops)
  from Cons.prems(1) have ok: "ok (Suc (length ops)) s" by simp
  note wf = contents_wf [OF ok]
  show ?case
  proof (cases op)
    case (Look k' u)
    obtain r s1 where l: "look s k' u = (r, s1)" by fastforce
    from look_refines [OF ok l] have s1: "ok (length ops) s1"
      "contents s1 = snd (lru_use (usable u) k' (contents s))" by (auto dest: arg_cong [of _ _ snd])
    from Cons.IH [OF s1(1)] Cons.prems(2) lru_use_get [OF wf, of "usable u" k' k v]
    show ?thesis by (auto simp: Look l s1(2) split: prod.splits)
  next
    case (Offer k' v')
    obtain b s1 where l: "offer s k' v' = (b, s1)" by fastforce
    from offer_refines [OF ok l] have s1: "ok (length ops) s1"
      "contents s1 = (if admits v' then lru_put (cap s) k' v' (contents s) else contents s)" by auto
    from Cons.IH [OF s1(1)] Cons.prems(2) lru_put_get [OF wf, of "cap s" k' v'] lru_put_other [OF wf, of "cap s" k' v' k v]
    show ?thesis by (auto simp: Offer l s1(2) split: prod.splits if_splits)
  qed
qed simp

lemma look_answers_last_offer:
  assumes "ok (Suc (length ops)) s" "contents s = []"
    and "run_ops look offer s ops = (rs, s1)" "look s1 k u = (Some v, s2)"
  shows "usable u v \<and> last_offer admits k ops = Some v"
proof -
  from assms(1,3) have ok: "ok (Suc 0) s1" using run_refines [of ops 1 s rs s1] by simp
  from look_refines [OF ok assms(4)] have "hm_get (contents s1) k = Some v" "usable u v"
    by (auto simp: lru_use_def split: option.splits if_splits)
  moreover have "ok (length ops) s" using assms(1) ok_less [of "length ops" 1] by simp
  ultimately show ?thesis using run_origin [of ops s k v] assms(2,3) by simp
qed

lemma run_keeps_recent:
  "ok (length ops) s \<Longrightarrow> followed_by ks k v (contents s) \<Longrightarrow> finite ks \<Longrightarrow> card ks < cap s \<Longrightarrow>
     \<forall>op \<in> set ops. op_key op \<in> ks \<and> op_key op \<noteq> k \<Longrightarrow>
     followed_by ks k v (contents (snd (run_ops look offer s ops)))"
proof (induction ops arbitrary: s)
  case (Cons op ops)
  from Cons.prems(1) have ok: "ok (Suc (length ops)) s" by simp
  note wf = contents_wf [OF ok]
  have key: "op_key op \<in> ks" "op_key op \<noteq> k" using Cons.prems(5) by auto
  show ?case
  proof (cases op)
    case (Look k' u)
    obtain r s1 where l: "look s k' u = (r, s1)" by fastforce
    from look_refines [OF ok l] have s1: "ok (length ops) s1" "cap s1 = cap s"
      "contents s1 = snd (lru_use (usable u) k' (contents s))" by (auto dest: arg_cong [of _ _ snd])
    with Cons.IH [OF s1(1)] Cons.prems key followed_by_use [of ks k v "contents s" k' "usable u"]
    show ?thesis by (auto simp: Look l split: prod.splits)
  next
    case (Offer k' v')
    obtain b s1 where l: "offer s k' v' = (b, s1)" by fastforce
    from offer_refines [OF ok l] have s1: "ok (length ops) s1" "cap s1 = cap s"
      "contents s1 = (if admits v' then lru_put (cap s) k' v' (contents s) else contents s)" by auto
    have "followed_by ks k v (contents s1)"
      using followed_by_put [OF Cons.prems(2) wf _ _ Cons.prems(3,4), of k' v'] Cons.prems(2) key
      by (simp add: s1(3) Offer)
    from Cons.IH [OF s1(1) this Cons.prems(3)] Cons.prems(4,5) s1(2) show ?thesis
      by (auto simp: Offer l split: prod.splits)
  qed
qed simp

lemma look_finds_recent:
  assumes ok: "ok (length ops + 2) s" and o: "offer s k v = (True, s1)"
    and ops: "run_ops look offer s1 ops = (rs, s2)" "\<forall>op \<in> set ops. op_key op \<noteq> k"
    and few: "card (op_key ` set ops) < cap s" and u: "usable u v"
  shows "fst (look s2 k u) = Some v"
proof -
  have "ok (Suc (length ops + 1)) s" using ok by simp
  from offer_refines [OF this o] have s1: "ok (length ops + 1) s1" "cap s1 = cap s"
    "contents s1 = lru_put (cap s) k v (contents s)" by auto
  have "followed_by (op_key ` set ops) k v (contents s1)" by (force simp: s1(3) lru_put_def followed_by_def)
  with s1 ops few run_keeps_recent [of ops s1 "op_key ` set ops" k v] ok_less [of "length ops" 1 s1]
  have f: "followed_by (op_key ` set ops) k v (contents s2)" by simp
  from run_refines [OF s1(1) ops(1)] have ok2: "ok (Suc 0) s2" by simp
  have "(k, v) \<in> set (contents s2)" using f by (auto simp: followed_by_def)
  then have g: "hm_get (contents s2) k = Some v" using hm_get_iff [OF contents_wf [OF ok2]] by simp
  obtain r s3 where l: "look s2 k u = (r, s3)" by fastforce
  from look_refines [OF ok2 l] g u l show ?thesis by (simp add: lru_use_def)
qed

end

section \<open>The cache is such a store\<close>

definition consistent :: "verdict_cache \<Rightarrow> bool" where
  "consistent c \<longleftrightarrow>
     hm_wf (entries c) \<and> bt_wf (recency c) \<and>
     (\<lambda>(k, v, t). (t, k)) ` set (entries c) = set (recency c) \<and>
     (\<forall>e \<in> set (recency c). fst e \<le> tick c)"

definition cache_ok :: "nat \<Rightarrow> verdict_cache \<Rightarrow> bool" where
  "cache_ok n c \<longleftrightarrow> consistent c \<and> tick c + n < 2 ^ 64"

definition cache_contents :: "verdict_cache \<Rightarrow> (verdict_cache_key \<times> cached_verdict) list" where
  "cache_contents c = map (\<lambda>(t, k). (k, fst (the (hm_get (entries c) k)))) (recency c)"

definition cache_look :: "verdict_cache \<Rightarrow> verdict_cache_key \<Rightarrow> nat \<times> int \<Rightarrow> cached_verdict option \<times> verdict_cache" where
  "cache_look c k u = cache_get c k (fst u) (snd u)"

definition cache_usable :: "nat \<times> int \<Rightarrow> cached_verdict \<Rightarrow> bool" where
  "cache_usable u v = is_fresh (fst u) (snd u) v"

lemma consistentD:
  assumes "consistent c"
  shows "hm_get (entries c) k = Some (v, t) \<Longrightarrow> (t, k) \<in> set (recency c)"
    and "(t, k) \<in> set (recency c) \<Longrightarrow> \<exists>v. hm_get (entries c) k = Some (v, t)"
proof -
  assume "hm_get (entries c) k = Some (v, t)"
  with assms have "(k, v, t) \<in> set (entries c)" by (simp add: consistent_def hm_get_iff)
  with assms show "(t, k) \<in> set (recency c)" by (force simp: consistent_def)
next
  assume "(t, k) \<in> set (recency c)"
  with assms obtain v where "(k, v, t) \<in> set (entries c)" by (force simp: consistent_def)
  with assms show "\<exists>v. hm_get (entries c) k = Some (v, t)" by (auto simp: consistent_def hm_get_iff)
qed

lemma consistent_recency_keys:
  assumes "consistent c" "(t, k) \<in> set (recency c)" "(t', k') \<in> set (recency c)"
  shows "t = t' \<longleftrightarrow> k = k'"
proof
  assume "k = k'"
  then show "t = t'" using consistentD(2) [OF assms(1)] assms(2,3) by (metis Pair_inject option.inject)
next
  assume "t = t'"
  moreover have "hm_wf (recency c)" using assms(1) bt_wf_hm_wf by (auto simp: consistent_def)
  ultimately show "k = k'" using assms(2,3) hm_get_iff by (metis option.inject)
qed

lemma cache_contents_wf: "consistent c \<Longrightarrow> hm_wf (cache_contents c)"
proof -
  assume c: "consistent c"
  then have "distinct (map fst (recency c))" using bt_wf_hm_wf by (auto simp: consistent_def hm_wf_def)
  then have "distinct (recency c)" by (simp add: distinct_map)
  moreover have "inj_on snd (set (recency c))" using consistent_recency_keys [OF c] by (auto simp: inj_on_def)
  ultimately have "distinct (map snd (recency c))" by (simp add: distinct_map)
  then show "hm_wf (cache_contents c)" by (simp add: hm_wf_def cache_contents_def case_prod_unfold comp_def)
qed

lemma cache_contents_get:
  assumes c: "consistent c"
  shows "hm_get (cache_contents c) k = map_option fst (hm_get (entries c) k)"
proof (cases "hm_get (entries c) k")
  case None
  then have "(t, k) \<notin> set (recency c)" for t using consistentD(2) [OF c] by fastforce
  then have "k \<notin> fst ` set (cache_contents c)" by (auto simp: cache_contents_def)
  with None show ?thesis using hm_get_None by fastforce
next
  case (Some vt)
  obtain v t where vt: "vt = (v, t)" by (cases vt)
  then have "(t, k) \<in> set (recency c)" using consistentD(1) [OF c] Some by simp
  then have "(k, v) \<in> set (cache_contents c)" using Some vt by (force simp: cache_contents_def)
  with Some vt hm_get_iff [OF cache_contents_wf [OF c]] show ?thesis by simp
qed

lemma length_cache_contents: "consistent c \<Longrightarrow> length (cache_contents c) = length (entries c)"
proof -
  assume c: "consistent c"
  have "distinct (entries c)" using c by (auto simp: consistent_def hm_wf_def distinct_map)
  moreover have "inj_on (\<lambda>(k, v, t). (t, k)) (set (entries c))"
    using c by (auto simp: consistent_def inj_on_def hm_wf_def dest: eq_key_imp_eq_value)
  ultimately have "length (entries c) = card (set (recency c))"
    using c card_image distinct_card by (fastforce simp: consistent_def)
  moreover have "distinct (recency c)" using c bt_wf_hm_wf by (auto simp: consistent_def hm_wf_def distinct_map)
  ultimately show ?thesis by (simp add: cache_contents_def distinct_card)
qed

lemma hm_insert_remove [simp]: "hm_insert k v (hm_remove k m) = hm_insert k v m"
  by (simp add: hm_insert_def hm_remove_def)

lemma drop_key:
  assumes c: "consistent c" and k: "hm_get (entries c) k = Some (v, t)"
    and c': "c' = c\<lparr>entries := hm_remove k (entries c), recency := hm_remove t (recency c)\<rparr>"
  shows "consistent c'" and "cache_contents c' = hm_remove k (cache_contents c)"
proof -
  have t: "(t, k) \<in> set (recency c)" by (rule consistentD(1) [OF c k])
  have same: "fst e \<noteq> t \<longleftrightarrow> snd e \<noteq> k" if "e \<in> set (recency c)" for e
    using consistent_recency_keys [OF c t] that by (cases e) auto
  have "hm_remove t (recency c) = filter (\<lambda>e. snd e \<noteq> k) (recency c)"
    unfolding hm_remove_def using same by (simp cong: filter_cong)
  then show "cache_contents c' = hm_remove k (cache_contents c)"
    unfolding cache_contents_def c' by (auto simp: hm_remove_def [of k] filter_map comp_def case_prod_unfold
        hm_get_remove [unfolded hm_remove_def])
  have im: "(\<lambda>(k, v, t). (t, k)) ` set (entries c) = set (recency c)"
    and wf: "hm_wf (entries c)" "bt_wf (recency c)" "\<forall>e \<in> set (recency c). fst e \<le> tick c"
    using c by (auto simp: consistent_def)
  have "(\<lambda>(k, v, t). (t, k)) ` {e \<in> set (entries c). fst e \<noteq> k} = {e \<in> set (recency c). snd e \<noteq> k}"
    unfolding im [symmetric] by force
  also have "\<dots> = {e \<in> set (recency c). fst e \<noteq> t}" using same by blast
  finally show "consistent c'"
    using wf by (simp add: consistent_def c' bt_wf_remove)
qed

lemma drop_oldest:
  assumes c: "consistent c" and r: "recency c = (t, k) # rest"
    and c': "c' = c\<lparr>recency := rest, entries := hm_remove k (entries c)\<rparr>"
  shows "consistent c'" and "cache_contents c' = tl (cache_contents c)"
proof -
  obtain v where k: "hm_get (entries c) k = Some (v, t)" using consistentD(2) [OF c, of t k] r by auto
  have "bt_wf (recency c)" using c by (simp add: consistent_def)
  then have rest: "hm_remove t (recency c) = rest"
    by (auto simp: r bt_wf_def hm_remove_def filter_id_conv)
  then have c'': "c' = c\<lparr>entries := hm_remove k (entries c), recency := hm_remove t (recency c)\<rparr>"
    by (simp add: c')
  show "consistent c'" by (rule drop_key(1) [OF c k c''])
  have "cache_contents c = (k, v) # map (\<lambda>(t, k). (k, fst (the (hm_get (entries c) k)))) rest"
    by (simp add: cache_contents_def r k)
  moreover from this cache_contents_wf [OF c] have "k \<notin> fst ` set (tl (cache_contents c))"
    by (simp add: hm_wf_def image_image)
  ultimately have "hm_remove k (cache_contents c) = tl (cache_contents c)"
    using hm_remove_absent [of "tl (cache_contents c)" k] by (simp add: hm_remove_def hm_get_None)
  then show "cache_contents c' = tl (cache_contents c)" using drop_key(2) [OF c k c''] by simp
qed

lemma add_key:
  assumes c: "consistent c" and k: "hm_get (entries c) k = None" and room: "tick c + 1 < 2 ^ 64"
    and t: "t = next_tick (tick c)"
    and c': "c' = c\<lparr>tick := t, recency := bt_insert t k (recency c), entries := hm_insert k (v, t) (entries c)\<rparr>"
  shows "consistent c'" and "cache_contents c' = cache_contents c @ [(k, v)]" and "tick c' = tick c + 1"
proof -
  have t: "t = tick c + 1" using room by (simp add: t next_tick_def)
  then show "tick c' = tick c + 1" by (simp add: c')
  have above: "\<forall>e \<in> set (recency c). fst e < t" using c t by (auto simp: consistent_def le_imp_less_Suc)
  have ins: "bt_insert t k (recency c) = recency c @ [(t, k)]" by (rule bt_insert_last [OF above])
  have new: "snd e \<noteq> k" if "e \<in> set (recency c)" for e
    using consistentD(2) [OF c, of "fst e" "snd e"] that k by (cases e) auto
  have kept: "hm_remove k (entries c) = entries c" by (rule hm_remove_absent [OF k])
  show "cache_contents c' = cache_contents c @ [(k, v)]"
    using new by (auto simp: cache_contents_def c' ins)
  have c'_simps: "recency c' = recency c @ [(t, k)]" "entries c' = (k, v, t) # entries c" "tick c' = t"
    by (simp_all add: c' ins hm_insert_def kept)
  have "bt_wf (recency c')" "hm_wf (entries c')"
    using c bt_wf_insert [of "recency c" t k] hm_wf_insert [of "entries c" k "(v, t)"]
    by (simp_all add: consistent_def c' ins)
  then show "consistent c'"
    using c above by (auto simp: consistent_def c'_simps less_imp_le)
qed

lemma cache_get_refines:
  assumes ok: "cache_ok (Suc n) c" and g: "cache_look c k u = (r, c')"
  shows "cache_ok n c' \<and> capacity c' = capacity c \<and> (r, cache_contents c') = lru_use (cache_usable u) k (cache_contents c)"
proof -
  have c: "consistent c" and room: "tick c + 1 < 2 ^ 64" using ok by (auto simp: cache_ok_def)
  show ?thesis
  proof (cases "hm_get (entries c) k")
    case None
    with g ok cache_contents_get [OF c, of k] show ?thesis
      by (auto simp: cache_look_def cache_get_def lru_use_def cache_ok_def)
  next
    case (Some vt)
    obtain v t where vt: "hm_get (entries c) k = Some (v, t)" using Some by (cases vt) auto
    let ?d = "c\<lparr>entries := hm_remove k (entries c), recency := hm_remove t (recency c)\<rparr>"
    note d = drop_key [OF c vt refl]
    show ?thesis
    proof (cases "cache_usable u v")
      case False
      then have "c' = ?d" "r = None" using g vt
        by (auto simp: cache_look_def cache_get_def cache_usable_def Let_def)
      with d ok cache_contents_get [OF c, of k] vt False show ?thesis
        by (simp add: lru_use_def cache_ok_def)
    next
      case True
      let ?t = "next_tick (tick ?d)"
      have c': "c' = ?d\<lparr>tick := ?t, recency := bt_insert ?t k (recency ?d), entries := hm_insert k (v, ?t) (entries ?d)\<rparr>"
        and r: "r = Some v"
        using g vt True by (auto simp: cache_look_def cache_get_def cache_usable_def Let_def)
      have "hm_get (entries ?d) k = None" "tick ?d + 1 < 2 ^ 64" using room by auto
      note a = add_key [OF d(1) this refl c']
      have "cache_contents c' = hm_remove k (cache_contents c) @ [(k, v)]" using a(2) d(2) by simp
      with a(1,3) ok cache_contents_get [OF c, of k] vt True r c' show ?thesis
        by (simp add: lru_use_def cache_ok_def)
    qed
  qed
qed

lemma cache_insert_refines:
  assumes ok: "cache_ok (Suc n) c" and i: "cache_insert c k v = (b, c')"
  shows "cache_ok n c' \<and> capacity c' = capacity c \<and> b = is_cacheable v \<and>
    cache_contents c' = (if is_cacheable v then lru_put (capacity c) k v (cache_contents c) else cache_contents c)"
proof (cases "is_cacheable v")
  case False
  with i ok show ?thesis by (auto simp: cache_insert_def cache_ok_def)
next
  case True
  have c: "consistent c" and room: "tick c + 1 < 2 ^ 64" using ok by (auto simp: cache_ok_def)
  define d where "d = (case hm_get (entries c) k of
      Some (_, last_used) \<Rightarrow> c\<lparr>entries := hm_remove k (entries c), recency := hm_remove last_used (recency c)\<rparr>
    | None \<Rightarrow> if length (entries c) \<ge> capacity c then
        (case recency c of [] \<Rightarrow> c
         | (_, oldest) # rest \<Rightarrow> c\<lparr>recency := rest, entries := hm_remove oldest (entries c)\<rparr>) else c)"
  have d: "consistent d \<and> tick d = tick c \<and> capacity d = capacity c \<and> hm_get (entries d) k = None \<and>
      cache_contents d @ [(k, v)] = lru_put (capacity c) k v (cache_contents c)"
  proof (cases "hm_get (entries c) k")
    case None
    have len: "length (cache_contents c) = length (entries c)" by (rule length_cache_contents [OF c])
    show ?thesis
    proof (cases "recency c")
      case Nil
      with None c len cache_contents_get [OF c, of k] show ?thesis
        by (simp add: d_def lru_put_def cache_contents_def)
    next
      case (Cons tk rest)
      obtain t oldest where tk: "tk = (t, oldest)" by (cases tk)
      from drop_oldest [OF c Cons [unfolded tk] refl] None c len cache_contents_get [OF c, of k] show ?thesis
        by (auto simp: d_def lru_put_def Cons tk)
    qed
  next
    case (Some vt)
    obtain w t where vt: "hm_get (entries c) k = Some (w, t)" using Some by (cases vt) auto
    from drop_key [OF c vt refl] cache_contents_get [OF c, of k] vt show ?thesis
      by (simp add: d_def lru_put_def)
  qed
  let ?t = "next_tick (tick d)"
  have c': "c' = d\<lparr>tick := ?t, recency := bt_insert ?t k (recency d), entries := hm_insert k (v, ?t) (entries d)\<rparr>"
    and b: "b" using i True by (auto simp: cache_insert_def Let_def d_def)
  have "hm_get (entries d) k = None" "tick d + 1 < 2 ^ 64" using d room by auto
  note a = add_key [OF _ this refl c']
  from a d ok b c' True show ?thesis by (simp add: cache_ok_def)
qed

interpretation vc: lru_store cache_ok capacity cache_contents is_cacheable cache_usable cache_look cache_insert
proof
  show "cache_ok (n + m) c \<Longrightarrow> cache_ok n c" for n m c by (simp add: cache_ok_def)
  show "cache_ok n c \<Longrightarrow> hm_wf (cache_contents c)" for n c by (simp add: cache_ok_def cache_contents_wf)
qed (rule cache_get_refines cache_insert_refines, assumption+)+

lemma cache_new_ok: "n < 2 ^ 64 \<Longrightarrow> cache_ok n (cache_new cap)" "cache_contents (cache_new cap) = []"
  "capacity (cache_new cap) = cap"
  by (simp_all add: cache_ok_def consistent_def cache_new_def cache_contents_def bt_wf_def)

lemma num_hours_less: "0 < h \<Longrightarrow> num_hours d < h \<longleftrightarrow> d < h * 3600000000000"
proof (cases "0 \<le> d")
  case True
  then have "num_hours d = d div 3600000000000"
    by (cases "d = 0") (simp_all add: num_hours_def)
  then show ?thesis by (auto simp: div_less_iff_less_mult)
next
  case False
  assume "0 < h"
  moreover have "num_hours d \<le> 0" using False by (simp add: num_hours_def pos_imp_zdiv_nonneg_iff)
  ultimately show ?thesis using False by (auto intro: order_less_le_trans)
qed

lemma last_offer_admitted: "last_offer admits k ops = Some v \<Longrightarrow> admits v"
  by (induction admits k ops rule: last_offer.induct) (auto split: option.splits if_splits)

section \<open>Properties\<close>

text \<open>
  (C24) The cache is a least-recently-used store. Over any run of look-ups and inserts from an empty
  cache, its answers and its contents in order of last use are those of a plain list in which an
  insert drops the least recently used entry when the store is full and each hit moves its entry
  to the end. The two indexes stay consistent and never hold more than the capacity (one entry
  when the capacity is zero).
\<close>

theorem cache_refines_lru:
  assumes "length ops < 2 ^ 64" "run_ops cache_look cache_insert (cache_new cap) ops = (rs, c)"
  shows "run_ops (lru_look cache_usable) (lru_offer cap is_cacheable) [] ops = (rs, cache_contents c) \<and>
         consistent c \<and> length (entries c) \<le> max 1 cap"
proof -
  have ok: "cache_ok (length ops + 0) (cache_new cap)" using assms(1) by (simp add: cache_new_ok)
  from vc.run_refines [OF ok assms(2)] have
    r: "cache_ok 0 c" "run_ops (lru_look cache_usable) (lru_offer cap is_cacheable) [] ops = (rs, cache_contents c)"
    by (simp_all add: cache_new_ok)
  from vc.run_bounded [of ops "cache_new cap"] ok assms(2)
  have "length (cache_contents c) \<le> max 1 cap" by (simp add: cache_new_ok)
  with r length_cache_contents [of c] show ?thesis by (simp add: cache_ok_def)
qed

text \<open>
  A cached answer is never stale or misattributed: a verdict returned for a file identity is the
  last cacheable verdict inserted under exactly that identity, was reached with the current
  definitions, and is less than 24 hours old; a clean one came from a complete, untruncated,
  hashed scan.
\<close>

theorem cached_answer_is_last_insert:
  assumes "length ops + 1 < 2 ^ 64" "run_ops cache_look cache_insert (cache_new cap) ops = (rs, c)"
    and "cache_get c key generation now = (Some v, c')"
  shows "last_offer is_cacheable key ops = Some v \<and> cv_definition_generation v = generation \<and>
         now - cv_scanned_at v < 24 * 3600000000000 \<and> cv_verdict v \<noteq> CacheScanError \<and>
         (cv_verdict v = CacheClean \<longrightarrow> cv_completeness v = Complete \<and> \<not> cv_truncated v \<and> cv_sha256 v \<noteq> None)"
proof -
  have "cache_ok (Suc (length ops)) (cache_new cap)" using assms(1) by (simp add: cache_new_ok)
  from vc.look_answers_last_offer [OF this cache_new_ok(2) assms(2), of key "(generation, now)" v c'] assms(3)
  have v: "cache_usable (generation, now) v" "last_offer is_cacheable key ops = Some v"
    by (simp_all add: cache_look_def)
  with last_offer_admitted [OF v(2)] show ?thesis
    by (auto simp: cache_usable_def is_fresh_def num_hours_less is_cacheable_def split: if_splits)
qed

text \<open>
  Recently used verdicts survive: after a cacheable verdict is inserted, and as long as fewer
  other file identities than the capacity are looked up or inserted, a look-up under its identity
  still returns it, if it is fresh.
\<close>

theorem recent_verdict_kept:
  assumes "length before + length after + 2 < 2 ^ 64"
    and "run_ops cache_look cache_insert (cache_new cap) before = (rs, c)"
    and "cache_insert c key v = (True, c1)"
    and "run_ops cache_look cache_insert c1 after = (rs', c2)" "\<forall>op \<in> set after. op_key op \<noteq> key"
    and "card (op_key ` set after) < cap" "is_fresh generation now v"
  shows "fst (cache_get c2 key generation now) = Some v"
proof -
  have ok: "cache_ok (length before + (length after + 2)) (cache_new cap)" using assms(1) by (simp add: cache_new_ok)
  from vc.run_refines [OF ok assms(2)] have c: "cache_ok (length after + 2) c" "capacity c = cap"
    by (simp_all add: cache_new_ok)
  from vc.look_finds_recent [OF c(1) assms(3-5), of "(generation, now)"] assms(6,7) c(2)
  show ?thesis by (simp add: cache_usable_def cache_look_def)
qed

section \<open>Witnesses\<close>

definition example_key :: "nat \<Rightarrow> verdict_cache_key" where
  "example_key n = \<lparr>volume_serial = 1, file_id = n, key_file_size = 3, content_generation = 4, change_time = 5\<rparr>"

definition example_verdict :: cached_verdict where
  "example_verdict = \<lparr>cv_verdict = CacheClean, cv_risk_score = 0, cv_confidence = 90, cv_threat_name = None,
     cv_sha256 = Some ''00'', cv_file_size = 1, cv_bytes_scanned = 1, cv_truncated = False,
     cv_definition_generation = 1, cv_scanned_at = 0, cv_completeness = Complete,
     cv_automatic_quarantine_eligible = False, cv_execution_block_eligible = False\<rparr>"

definition example_ops :: "(verdict_cache_key, cached_verdict, nat \<times> int) store_op list" where
  "example_ops = [Offer (example_key 1) example_verdict, Offer (example_key 2) example_verdict,
     Look (example_key 1) (1, 10), Offer (example_key 3) example_verdict]"

lemmas cache_eval =
  cache_new_def cache_look_def cache_get_def cache_insert_def is_cacheable_def is_fresh_def num_hours_def
  next_tick_def hm_get_def hm_remove_def hm_insert_def example_key_def example_verdict_def

lemma example_run:
  "run_ops cache_look cache_insert (cache_new 2) example_ops =
     ([None, None, Some example_verdict, None],
      \<lparr>capacity = 2, entries = [(example_key 3, example_verdict, 4), (example_key 1, example_verdict, 3)],
       recency = [(3, example_key 1), (4, example_key 3)], tick = 4\<rparr>)"
  by (simp add: example_ops_def cache_eval)

theorem cache_refines_lru_witness:
  "snd (run_ops (lru_look cache_usable) (lru_offer 2 is_cacheable) [] example_ops) =
     [(example_key 1, example_verdict), (example_key 3, example_verdict)]"
  using cache_refines_lru [OF _ example_run]
  by (simp add: example_ops_def cache_contents_def hm_get_def example_key_def)

theorem cached_answer_is_last_insert_witness:
  "last_offer is_cacheable (example_key 1) example_ops = Some example_verdict \<and>
   (10::int) - cv_scanned_at example_verdict < 24 * 3600000000000"
proof -
  have "cache_get \<lparr>capacity = 2, entries = [(example_key 3, example_verdict, 4), (example_key 1, example_verdict, 3)],
       recency = [(3, example_key 1), (4, example_key 3)], tick = 4\<rparr> (example_key 1) 1 10 =
     (Some example_verdict, \<lparr>capacity = 2,
        entries = [(example_key 1, example_verdict, 5), (example_key 3, example_verdict, 4)],
        recency = [(4, example_key 3), (5, example_key 1)], tick = 5\<rparr>)"
    by (simp add: cache_eval)
  from cached_answer_is_last_insert [OF _ example_run this] show ?thesis by (simp add: example_ops_def)
qed

theorem recent_verdict_kept_witness:
  "fst (cache_get \<lparr>capacity = 2, entries = [(example_key 2, example_verdict, 2), (example_key 1, example_verdict, 1)],
      recency = [(1, example_key 1), (2, example_key 2)], tick = 2\<rparr> (example_key 1) 1 10) = Some example_verdict"
proof -
  let ?after = "[Offer (example_key 2) example_verdict] :: (verdict_cache_key, cached_verdict, nat \<times> int) store_op list"
  have b: "run_ops cache_look cache_insert (cache_new 2) [] = ([], cache_new 2)" by simp
  have i: "cache_insert (cache_new 2) (example_key 1) example_verdict =
      (True, \<lparr>capacity = 2, entries = [(example_key 1, example_verdict, 1)], recency = [(1, example_key 1)], tick = 1\<rparr>)"
    by (simp add: cache_eval)
  have a: "run_ops cache_look cache_insert \<lparr>capacity = 2, entries = [(example_key 1, example_verdict, 1)],
        recency = [(1, example_key 1)], tick = 1\<rparr> ?after =
      ([None], \<lparr>capacity = 2, entries = [(example_key 2, example_verdict, 2), (example_key 1, example_verdict, 1)],
        recency = [(1, example_key 1), (2, example_key 2)], tick = 2\<rparr>)"
    by (simp add: cache_eval)
  have "is_fresh 1 10 example_verdict" "\<forall>op \<in> set ?after. op_key op \<noteq> example_key 1" "card (op_key ` set ?after) < 2"
    by (simp_all add: cache_eval)
  from recent_verdict_kept [OF _ b i a this(2,3,1)] show ?thesis by simp
qed

end
