(* ===== verification/Unicode.thy ===== *)
theory Unicode
  imports Prelude
begin

text \<open>
  Text as Rust holds it. A \<^verbatim>\<open>String\<close> is its UTF-8 bytes; \<open>chars\<close> are its code points. The decoders are
  those of the standard library the sources call: \<^verbatim>\<open>str::from_utf8\<close> (strict: overlong forms,
  surrogates and values above \<^verbatim>\<open>10FFFF\<close> are refused) and \<^verbatim>\<open>String::from_utf16_lossy\<close> (an unpaired
  surrogate becomes \<^verbatim>\<open>FFFD\<close>). Searching is on bytes, where the sources search.
\<close>

section \<open>UTF-8\<close>

definition is_scalar :: "nat \<Rightarrow> bool" where
  "is_scalar c \<longleftrightarrow> c < 0xD800 \<or> (0xE000 \<le> c \<and> c < 0x110000)"

definition mk_byte :: "nat \<Rightarrow> byte" where
  "mk_byte n = word_of_nat n"

definition utf8_encode :: "nat \<Rightarrow> bytes" where
  "utf8_encode c =
     (if c < 0x80 then [mk_byte c]
      else if c < 0x800 then [mk_byte (0xC0 + c div 64), mk_byte (0x80 + c mod 64)]
      else if c < 0x10000
      then [mk_byte (0xE0 + c div 4096), mk_byte (0x80 + c div 64 mod 64), mk_byte (0x80 + c mod 64)]
      else [mk_byte (0xF0 + c div 262144), mk_byte (0x80 + c div 4096 mod 64),
            mk_byte (0x80 + c div 64 mod 64), mk_byte (0x80 + c mod 64)])"

definition string_of_chars :: "nat list \<Rightarrow> bytes" where
  "string_of_chars cs = concat (map utf8_encode cs)"

text \<open>The value of a continuation byte.\<close>

definition cont :: "byte \<Rightarrow> nat option" where
  "cont b = (if 0x80 \<le> unat b \<and> unat b < 0xC0 then Some (unat b - 0x80) else None)"

text \<open>The first character of a byte string, and the rest.\<close>

definition utf8_head :: "bytes \<Rightarrow> (nat \<times> bytes) option" where
  "utf8_head bs =
     (case bs of
        [] \<Rightarrow> None
      | b0 # r0 \<Rightarrow>
          let n = unat b0 in
          if n < 0x80 then Some (n, r0)
          else if 0xC2 \<le> n \<and> n < 0xE0 then
            (case r0 of
               b1 # r1 \<Rightarrow> do { x1 \<leftarrow> cont b1; Some ((n - 0xC0) * 64 + x1, r1) }
             | _ \<Rightarrow> None)
          else if 0xE0 \<le> n \<and> n < 0xF0 then
            (case r0 of
               b1 # b2 # r2 \<Rightarrow>
                 do { x1 \<leftarrow> cont b1; x2 \<leftarrow> cont b2;
                      let c = (n - 0xE0) * 4096 + x1 * 64 + x2 in
                      if 0x800 \<le> c \<and> is_scalar c then Some (c, r2) else None }
             | _ \<Rightarrow> None)
          else if 0xF0 \<le> n \<and> n < 0xF5 then
            (case r0 of
               b1 # b2 # b3 # r3 \<Rightarrow>
                 do { x1 \<leftarrow> cont b1; x2 \<leftarrow> cont b2; x3 \<leftarrow> cont b3;
                      let c = (n - 0xF0) * 262144 + x1 * 4096 + x2 * 64 + x3 in
                      if 0x10000 \<le> c \<and> is_scalar c then Some (c, r3) else None }
             | _ \<Rightarrow> None)
          else None)"

lemma utf8_head_shorter: "utf8_head bs = Some (c, rest) \<Longrightarrow> length rest < length bs"
  by (auto simp: utf8_head_def Let_def split: list.splits if_splits bind_splits)

function utf8_chars :: "bytes \<Rightarrow> nat list option" where
  "utf8_chars bs =
     (if bs = [] then Some []
      else case utf8_head bs of
        None \<Rightarrow> None
      | Some (c, rest) \<Rightarrow> map_option (Cons c) (utf8_chars rest))"
  by pat_completeness auto
termination by (relation "measure length") (auto dest: utf8_head_shorter)

declare utf8_chars.simps [simp del]

definition chars :: "bytes \<Rightarrow> nat list" where
  "chars s = (case utf8_chars s of None \<Rightarrow> [] | Some cs \<Rightarrow> cs)"

lemma unat_mk_byte: "n < 256 \<Longrightarrow> unat (mk_byte n) = n"
  by (simp add: mk_byte_def unat_of_nat take_bit_nat_eq_self)

lemma cont_byte: "x < 64 \<Longrightarrow> cont (mk_byte (0x80 + x)) = Some x"
  by (simp add: cont_def unat_mk_byte)

lemma utf8_head_encode:
  assumes "is_scalar c"
  shows "utf8_head (utf8_encode c @ rest) = Some (c, rest)"
proof -
  have c: "c = 64 * (c div 64) + c mod 64" by simp
  have c64: "c div 64 = 64 * (c div 4096) + c div 64 mod 64"
    using mult_div_mod_eq [of 64 "c div 64"] div_mult2_eq [of c 64 64] by simp
  have c4096: "c div 4096 = 64 * (c div 262144) + c div 4096 mod 64"
    using mult_div_mod_eq [of 64 "c div 4096"] div_mult2_eq [of c 4096 64] by simp
  have low: "c mod 64 < 64" "c div 64 mod 64 < 64" "c div 4096 mod 64 < 64" by simp_all
  consider "c < 0x80" | "0x80 \<le> c" "c < 0x800" | "0x800 \<le> c" "c < 0x10000" | "0x10000 \<le> c" "c < 0x110000"
    using assms unfolding is_scalar_def by linarith
  then show ?thesis
  proof cases
    case 1
    then show ?thesis by (simp add: utf8_encode_def utf8_head_def unat_mk_byte)
  next
    case 2
    then have "c div 64 < 32" "2 \<le> c div 64" by auto
    with 2 low show ?thesis
      by (simp add: utf8_encode_def utf8_head_def unat_mk_byte cont_byte Let_def)
  next
    case 3
    then have d: "c div 4096 < 16" by auto
    have "c div 4096 * 4096 + c div 64 mod 64 * 64 + c mod 64 = c" using c c64 by linarith
    moreover have "utf8_encode c =
        [mk_byte (0xE0 + c div 4096), mk_byte (0x80 + c div 64 mod 64), mk_byte (0x80 + c mod 64)]"
      using 3 by (simp add: utf8_encode_def)
    ultimately show ?thesis
      using 3 d low assms by (simp add: utf8_head_def unat_mk_byte cont_byte Let_def)
  next
    case 4
    then have d: "c div 262144 < 5" by auto
    have "c div 262144 * 262144 + c div 4096 mod 64 * 4096 + c div 64 mod 64 * 64 + c mod 64 = c"
      using c c64 c4096 by linarith
    moreover have "utf8_encode c = [mk_byte (0xF0 + c div 262144), mk_byte (0x80 + c div 4096 mod 64),
        mk_byte (0x80 + c div 64 mod 64), mk_byte (0x80 + c mod 64)]"
      using 4 by (simp add: utf8_encode_def)
    ultimately show ?thesis
      using 4 d low assms by (simp add: utf8_head_def unat_mk_byte cont_byte Let_def)
  qed
qed

lemma utf8_encode_nonempty: "utf8_encode c \<noteq> []"
  by (simp add: utf8_encode_def)

lemma utf8_chars_string: "list_all is_scalar cs \<Longrightarrow> utf8_chars (string_of_chars cs) = Some cs"
proof (induction cs)
  case Nil
  then show ?case by (simp add: string_of_chars_def utf8_chars.simps)
next
  case (Cons c cs)
  then show ?case
    using utf8_head_encode [of c "string_of_chars cs"] utf8_encode_nonempty [of c]
    by (simp add: string_of_chars_def utf8_chars.simps [of "utf8_encode c @ _"])
qed

section \<open>UTF-16\<close>

fun u16_units :: "bytes \<Rightarrow> nat list" where
  "u16_units (a # b # bs) = (unat a + 256 * unat b) # u16_units bs"
| "u16_units _ = []"

fun from_utf16_lossy :: "nat list \<Rightarrow> nat list" where
  "from_utf16_lossy [] = []"
| "from_utf16_lossy [u] = [if 0xD800 \<le> u \<and> u < 0xE000 then 0xFFFD else u]"
| "from_utf16_lossy (u # v # us) =
     (if 0xD800 \<le> u \<and> u < 0xDC00 \<and> 0xDC00 \<le> v \<and> v < 0xE000
      then (0x10000 + (u - 0xD800) * 0x400 + (v - 0xDC00)) # from_utf16_lossy us
      else (if 0xD800 \<le> u \<and> u < 0xE000 then 0xFFFD else u) # from_utf16_lossy (v # us))"

lemma u16_units_bound: "u \<in> set (u16_units bs) \<Longrightarrow> u < 65536"
proof (induction bs rule: u16_units.induct)
  case (1 a b bs)
  have "unat a < 256" "unat b < 256" by (rule unat_byte_less)+
  then have "unat a + 256 * unat b < 65536" by linarith
  with 1 show ?case by auto
qed auto

lemma from_utf16_lossy_scalar: "\<forall>u \<in> set us. u < 65536 \<Longrightarrow> list_all is_scalar (from_utf16_lossy us)"
  by (induction us rule: from_utf16_lossy.induct) (auto simp: is_scalar_def)

section \<open>Searching\<close>

fun contains_bytes :: "bytes \<Rightarrow> bytes \<Rightarrow> bool" where
  "contains_bytes [] needle \<longleftrightarrow> needle = []"
| "contains_bytes (b # bs) needle \<longleftrightarrow> starts_with (b # bs) needle \<or> contains_bytes bs needle"

lemma contains_bytes_sublist: "contains_bytes hay needle \<longleftrightarrow> sublist needle hay"
  by (induction hay) (auto simp: starts_with_prefix sublist_Cons_right)

text \<open>\<^verbatim>\<open>match_indices\<close>: where a non-empty needle occurs, left to right, without overlaps.\<close>

function match_indices_from :: "nat \<Rightarrow> bytes \<Rightarrow> bytes \<Rightarrow> nat list" where
  "match_indices_from i hay needle =
     (if hay = [] \<or> needle = [] then []
      else if starts_with hay needle then i # match_indices_from (i + length needle) (drop (length needle) hay) needle
      else match_indices_from (i + 1) (tl hay) needle)"
  by pat_completeness auto
termination by (relation "measure (\<lambda>(i, hay, needle). length hay)") auto

declare match_indices_from.simps [simp del]

definition match_indices :: "bytes \<Rightarrow> bytes \<Rightarrow> nat list" where
  "match_indices hay needle = match_indices_from 0 hay needle"

definition is_control_char :: "nat \<Rightarrow> bool" where
  "is_control_char c \<longleftrightarrow> c < 0x20 \<or> (0x7F \<le> c \<and> c < 0xA0)"

definition is_whitespace_char :: "nat \<Rightarrow> bool" where
  "is_whitespace_char c \<longleftrightarrow>
     (9 \<le> c \<and> c \<le> 13) \<or> c = 0x20 \<or> c = 0x85 \<or> c = 0xA0 \<or> c = 0x1680 \<or> (0x2000 \<le> c \<and> c \<le> 0x200A) \<or>
     c = 0x2028 \<or> c = 0x2029 \<or> c = 0x202F \<or> c = 0x205F \<or> c = 0x3000"

end
