(* ===== verification/Behavior.thy ===== *)
theory Behavior
  imports Collections Unicode
begin

text \<open>
  The ransomware monitor, \<^verbatim>\<open>src/behavior.rs\<close>: per process, the protected documents it touched in the
  last ten seconds and what it did to them. The hash of a path comes from the standard library,
  which leaves its algorithm open: it is the parameter \<open>hash\<close>. The lemmas show an invariant of every
  reachable monitor and that, for a process that was not yet tracked, the decision is exactly the one
  a count over the whole interleaved sequence of observations gives.
\<close>

unbundle bit_operations_syntax

section \<open>Model\<close>

definition WINDOW_MILLIS :: nat where "WINDOW_MILLIS = 10000"
definition ALERT_COOLDOWN_MILLIS :: nat where "ALERT_COOLDOWN_MILLIS = 10000"
definition UNTRUSTED_THRESHOLD :: nat where "UNTRUSTED_THRESHOLD = 24"
definition UNKNOWN_THRESHOLD :: nat where "UNKNOWN_THRESHOLD = 32"
definition TRUSTED_THRESHOLD :: nat where "TRUSTED_THRESHOLD = 80"
definition MAX_TRACKED_PROCESSES :: nat where "MAX_TRACKED_PROCESSES = 256"
definition MAX_EVENTS_PER_PROCESS :: nat where "MAX_EVENTS_PER_PROCESS = 128"
definition UNTRUSTED_ENCRYPTED_THRESHOLD :: nat where "UNTRUSTED_ENCRYPTED_THRESHOLD = 3"
definition UNKNOWN_ENCRYPTED_THRESHOLD :: nat where "UNKNOWN_ENCRYPTED_THRESHOLD = 5"
definition HIGH_ENTROPY_WRITE :: byte where "HIGH_ENTROPY_WRITE = 1"
definition RENAMED_OR_DELETED :: byte where "RENAMED_OR_DELETED = 2"

lemmas threshold_defs = UNTRUSTED_THRESHOLD_def UNKNOWN_THRESHOLD_def TRUSTED_THRESHOLD_def
  UNTRUSTED_ENCRYPTED_THRESHOLD_def UNKNOWN_ENCRYPTED_THRESHOLD_def usize_max_def

datatype process_trust = Trusted | UnknownTrust | Untrusted
datatype entropy_observation = NotMeasured | LowEntropy | NormalEntropy | HighEntropy
datatype file_action = ReadFile | WriteFile entropy_observation | Rename | Delete | OtherAction

record behavior_decision =
  protected_path :: bool
  distinct_files :: nat
  alert :: bool
  block :: bool

definition decision_default :: behavior_decision where
  "decision_default = \<lparr>protected_path = False, distinct_files = 0, alert = False, block = False\<rparr>"

record process_activity =
  events :: "(nat \<times> nat) list"
  actions :: "(nat \<times> byte) list"
  last_seen_millis :: nat
  last_alert_millis :: "nat option"

definition activity_default :: process_activity where
  "activity_default = \<lparr>events = [], actions = [], last_seen_millis = 0, last_alert_millis = None\<rparr>"

type_synonym process_key = "nat \<times> nat"
type_synonym monitor = "(process_key \<times> process_activity) list"

record observation =
  o_process :: process_key
  o_path :: bytes
  o_trust :: process_trust
  o_block_mode :: bool
  o_now :: nat
  o_action :: "file_action option"

definition backslashed :: "string \<Rightarrow> bytes" where
  "backslashed s = bytes_of (map (\<lambda>c. if c = CHR ''/'' then CHR 0x5C else c) s)"

definition protected_folders :: "string list" where
  "protected_folders = [''/desktop/'', ''/documents/'', ''/pictures/'', ''/music/'', ''/videos/'', ''/favorites/'',
     ''/onedrive/'', ''/onedrive - '']"

definition protected_extensions :: "string list" where
  "protected_extensions = [''doc'', ''docx'', ''docm'', ''xls'', ''xlsx'', ''xlsm'', ''ppt'', ''pptx'', ''pptm'', ''pdf'',
     ''txt'', ''rtf'', ''csv'', ''jpg'', ''jpeg'', ''png'', ''gif'', ''bmp'', ''svg'', ''mp3'', ''wav'', ''mp4'', ''mov'',
     ''avi'', ''zip'', ''7z'', ''rar'', ''sql'', ''db'', ''sqlite'', ''psd'', ''ai'']"

text \<open>\<^verbatim>\<open>rsplit_once('.')\<close>: what follows the last dot.\<close>

definition extension_of :: "bytes \<Rightarrow> bytes option" where
  "extension_of p = (if 0x2E \<in> set p then Some (rev (takeWhile (\<lambda>b. b \<noteq> 0x2E) (rev p))) else None)"

definition is_protected_document :: "bytes \<Rightarrow> bool" where
  "is_protected_document path =
     (let normalized = map (\<lambda>b. to_ascii_lowercase (if b = 0x2F then 0x5C else b)) path in
      if \<not> contains_bytes normalized (backslashed ''/users/'') \<or>
         \<not> list_ex (\<lambda>f. contains_bytes normalized (backslashed f)) protected_folders
      then False
      else case extension_of normalized of
        None \<Rightarrow> False
      | Some e \<Rightarrow> e \<in> set (map bytes_of protected_extensions))"

definition evict_stale :: "nat \<Rightarrow> monitor \<Rightarrow> monitor" where
  "evict_stale now m = filter (\<lambda>(_, activity). now - last_seen_millis activity \<le> WINDOW_MILLIS * 6) m"

text \<open>\<^verbatim>\<open>min_by_key\<close>: the first entry with the least key, in the order the map is walked.\<close>

fun oldest :: "monitor \<Rightarrow> process_key option" where
  "oldest [] = None"
| "oldest ((k, a) # m) =
     (case oldest m of
        None \<Rightarrow> Some k
      | Some k' \<Rightarrow>
          (case hm_get m k' of
             Some a' \<Rightarrow> if last_seen_millis a \<le> last_seen_millis a' then Some k else Some k'
           | None \<Rightarrow> Some k))"

definition make_room :: "process_key \<Rightarrow> monitor \<Rightarrow> monitor" where
  "make_room key m =
     (if length m \<ge> MAX_TRACKED_PROCESSES \<and> hm_get m key = None
      then case oldest m of Some k \<Rightarrow> hm_remove k m | None \<Rightarrow> m
      else m)"

fun expire :: "nat \<Rightarrow> (nat \<times> nat) list \<Rightarrow> (nat \<times> byte) list \<Rightarrow> (nat \<times> nat) list \<times> (nat \<times> byte) list" where
  "expire now ((timestamp, expired) # es) acts =
     (if now - timestamp > WINDOW_MILLIS then expire now es (hm_remove expired acts) else ((timestamp, expired) # es, acts))"
| "expire now [] acts = ([], acts)"

fun trim_events :: "(nat \<times> nat) list \<Rightarrow> (nat \<times> byte) list \<Rightarrow> (nat \<times> nat) list \<times> (nat \<times> byte) list" where
  "trim_events ((timestamp, evicted) # es) acts =
     (if length es + 1 > MAX_EVENTS_PER_PROCESS then trim_events es (hm_remove evicted acts) else ((timestamp, evicted) # es, acts))"
| "trim_events [] acts = ([], acts)"

definition action_flag :: "file_action option \<Rightarrow> byte" where
  "action_flag action =
     (case action of
        Some (WriteFile HighEntropy) \<Rightarrow> HIGH_ENTROPY_WRITE
      | Some Rename \<Rightarrow> RENAMED_OR_DELETED
      | _ \<Rightarrow> 0)"

definition or_flag :: "nat \<Rightarrow> byte \<Rightarrow> (nat \<times> byte) list \<Rightarrow> (nat \<times> byte) list" where
  "or_flag f flag acts = hm_insert f ((case hm_get acts f of Some v \<Rightarrow> v | None \<Rightarrow> 0) OR flag) acts"

text \<open>The part of the handler that updates the process's record.\<close>

definition record_event :: "nat \<Rightarrow> nat \<Rightarrow> byte \<Rightarrow> process_activity \<Rightarrow> process_activity" where
  "record_event now fingerprint flag a =
     (let (es, acts) = expire now (events a) (actions a);
          acts = or_flag fingerprint flag acts;
          (es, acts) = (if fingerprint \<notin> snd ` set es then trim_events (es @ [(now, fingerprint)]) acts else (es, acts))
      in a\<lparr>events := es, actions := acts, last_seen_millis := now\<rparr>)"

definition thresholds :: "process_trust \<Rightarrow> nat \<times> nat" where
  "thresholds trust =
     (case trust of
        Trusted \<Rightarrow> (TRUSTED_THRESHOLD, usize_max)
      | UnknownTrust \<Rightarrow> (UNKNOWN_THRESHOLD, UNKNOWN_ENCRYPTED_THRESHOLD)
      | Untrusted \<Rightarrow> (UNTRUSTED_THRESHOLD, UNTRUSTED_ENCRYPTED_THRESHOLD))"

definition encrypted_files :: "process_activity \<Rightarrow> nat" where
  "encrypted_files a = length (filter (\<lambda>(_, flags). flags = HIGH_ENTROPY_WRITE OR RENAMED_OR_DELETED) (actions a))"

definition decide :: "observation \<Rightarrow> process_activity \<Rightarrow> behavior_decision \<times> process_activity" where
  "decide ob a =
     (let distinct_files = length (remdups (map snd (events a)));
          (threshold, encrypted_threshold) = thresholds (o_trust ob);
          threshold_reached = (distinct_files \<ge> threshold \<or> encrypted_files a \<ge> encrypted_threshold);
          alert = (threshold_reached \<and>
            (case last_alert_millis a of None \<Rightarrow> True | Some earlier \<Rightarrow> o_now ob - earlier \<ge> ALERT_COOLDOWN_MILLIS))
      in (\<lparr>protected_path = True, distinct_files = distinct_files, alert = alert,
           block = (threshold_reached \<and> o_block_mode ob)\<rparr>,
          if alert then a\<lparr>last_alert_millis := Some (o_now ob)\<rparr> else a))"

text \<open>The path is hashed in lower case.\<close>

definition path_fingerprint :: "(bytes \<Rightarrow> nat) \<Rightarrow> bytes \<Rightarrow> nat" where
  "path_fingerprint hash path = hash (map to_ascii_lowercase path)"

definition observe_at :: "(bytes \<Rightarrow> nat) \<Rightarrow> observation \<Rightarrow> monitor \<Rightarrow> behavior_decision \<times> monitor" where
  "observe_at hash ob m =
     (if \<not> is_protected_document (o_path ob) \<or> fst (o_process ob) = 0 \<or> snd (o_process ob) = 0
      then (decision_default, m)
      else let m = make_room (o_process ob) (evict_stale (o_now ob) m);
               a = (case hm_get m (o_process ob) of Some a \<Rightarrow> a | None \<Rightarrow> activity_default);
               a = record_event (o_now ob) (path_fingerprint hash (o_path ob)) (action_flag (o_action ob)) a;
               (decision, a) = decide ob a
           in (decision, hm_insert (o_process ob) a m))"

section \<open>Invariant\<close>

definition activity_ok :: "process_activity \<Rightarrow> bool" where
  "activity_ok a \<longleftrightarrow>
     distinct (map snd (events a)) \<and> length (events a) \<le> MAX_EVENTS_PER_PROCESS \<and>
     hm_wf (actions a) \<and> fst ` set (actions a) = snd ` set (events a)"

definition monitor_ok :: "monitor \<Rightarrow> bool" where
  "monitor_ok m \<longleftrightarrow> hm_wf m \<and> length m \<le> MAX_TRACKED_PROCESSES \<and> (\<forall>(k, a) \<in> set m. activity_ok a)"

lemma expire_ok:
  assumes "expire now es acts = (es', acts')" and "distinct (map snd es)" and "hm_wf acts" and "fst ` set acts = snd ` set es"
  shows "distinct (map snd es') \<and> length es' \<le> length es \<and> hm_wf acts' \<and> fst ` set acts' = snd ` set es'"
  using assms
proof (induction now es acts rule: expire.induct)
  case (1 now timestamp expired es acts)
  show ?case
  proof (cases "now - timestamp > WINDOW_MILLIS")
    case True
    have "fst ` set (hm_remove expired acts) = snd ` set es" using "1.prems"(2,4) by (simp add: keys_hm_remove del: set_hm_remove)
    with "1.IH" [OF True] "1.prems" True show ?thesis by auto
  next
    case False
    with "1.prems" show ?thesis by auto
  qed
qed auto

lemma trim_ok:
  assumes "trim_events es acts = (es', acts')" and "distinct (map snd es)" and "hm_wf acts" and "fst ` set acts = snd ` set es"
  shows "distinct (map snd es') \<and> length es' \<le> MAX_EVENTS_PER_PROCESS \<and> hm_wf acts' \<and> fst ` set acts' = snd ` set es'"
  using assms
proof (induction es acts rule: trim_events.induct)
  case (1 timestamp evicted es acts)
  show ?case
  proof (cases "length es + 1 > MAX_EVENTS_PER_PROCESS")
    case True
    have "fst ` set (hm_remove evicted acts) = snd ` set es" using "1.prems"(2,4) by (simp add: keys_hm_remove del: set_hm_remove)
    with "1.IH" [OF True] "1.prems" True show ?thesis by auto
  next
    case False
    with "1.prems" show ?thesis by auto
  qed
qed auto

lemma or_flag_keys: "fst ` set (or_flag f flag acts) = insert f (fst ` set acts)"
  by (simp add: or_flag_def keys_hm_insert)

lemma or_flag_wf [simp]: "hm_wf acts \<Longrightarrow> hm_wf (or_flag f flag acts)"
  by (simp add: or_flag_def)

lemma record_event_ok:
  assumes "activity_ok a"
  shows "activity_ok (record_event now f flag a)"
proof -
  obtain es acts where e: "expire now (events a) (actions a) = (es, acts)" by fastforce
  with assms have es: "distinct (map snd es)" "length es \<le> length (events a)" "hm_wf acts" "fst ` set acts = snd ` set es"
    using expire_ok [OF e] by (auto simp: activity_ok_def)
  show ?thesis
  proof (cases "f \<in> snd ` set es")
    case True
    then have "fst ` set (or_flag f flag acts) = snd ` set es" using es by (simp add: or_flag_keys insert_absorb)
    with True e es assms show ?thesis by (simp add: record_event_def activity_ok_def)
  next
    case False
    obtain es' acts' where t: "trim_events (es @ [(now, f)]) (or_flag f flag acts) = (es', acts')" by fastforce
    with False e es trim_ok [OF t] show ?thesis
      by (simp add: record_event_def activity_ok_def or_flag_keys)
  qed
qed

lemma decide_frame [simp]:
  "events (snd (decide ob a)) = events a" "actions (snd (decide ob a)) = actions a"
  "last_seen_millis (snd (decide ob a)) = last_seen_millis a"
  by (simp_all add: decide_def Let_def case_prod_unfold)

lemma decide_ok [simp]: "activity_ok (snd (decide ob a)) \<longleftrightarrow> activity_ok a"
  by (simp add: activity_ok_def)

lemma oldest_Some: "m \<noteq> [] \<Longrightarrow> \<exists>k a. oldest m = Some k \<and> hm_get m k = Some a"
  by (induction m rule: oldest.induct) (auto simp: hm_get_Cons split: option.splits)

lemma make_room_ok:
  assumes "monitor_ok m"
  shows "monitor_ok (make_room key m)" and "hm_get (make_room key m) key = None \<Longrightarrow> length (make_room key m) < MAX_TRACKED_PROCESSES"
proof -
  show "monitor_ok (make_room key m)"
    using assms length_hm_remove_le [of _ m]
    by (auto simp: make_room_def monitor_ok_def split: option.splits intro: le_trans)
  assume "hm_get (make_room key m) key = None"
  show "length (make_room key m) < MAX_TRACKED_PROCESSES"
  proof (cases "length m \<ge> MAX_TRACKED_PROCESSES \<and> hm_get m key = None")
    case True
    then have "m \<noteq> []" by (auto simp: MAX_TRACKED_PROCESSES_def)
    then obtain k a where "oldest m = Some k" "hm_get m k = Some a" using oldest_Some by blast
    with True assms length_hm_remove [of m k a] \<open>m \<noteq> []\<close> show ?thesis
      by (cases m) (auto simp: make_room_def monitor_ok_def)
  next
    case False
    then have "make_room key m = m" by (auto simp: make_room_def)
    with False \<open>hm_get (make_room key m) key = None\<close> show ?thesis by auto
  qed
qed

lemma activity_default_ok: "activity_ok activity_default"
  by (simp add: activity_default_def activity_ok_def)

lemma monitor_ok_get: "monitor_ok m \<Longrightarrow> hm_get m k = Some a \<Longrightarrow> activity_ok a"
  by (auto simp: monitor_ok_def hm_get_iff)

lemma evict_stale_ok: "monitor_ok m \<Longrightarrow> monitor_ok (evict_stale now m)"
  by (auto simp: evict_stale_def monitor_ok_def hm_wf_def distinct_map_filter intro: le_trans [OF length_filter_le])

lemma length_hm_insert:
  "hm_wf m \<Longrightarrow> length (hm_insert k v m) = (if hm_get m k = None then Suc (length m) else length m)"
proof (cases "hm_get m k")
  case (Some a)
  assume "hm_wf m"
  moreover have "m \<noteq> []" using Some by auto
  ultimately show ?thesis using Some length_hm_remove [of m k a] by (cases m) (auto simp: hm_insert_def)
qed (simp add: hm_insert_def hm_remove_absent)

lemma hm_insert_ok:
  assumes "monitor_ok m" and "activity_ok a" and "hm_get m k = None \<Longrightarrow> length m < MAX_TRACKED_PROCESSES"
  shows "monitor_ok (hm_insert k a m)"
  using assms by (auto simp: monitor_ok_def length_hm_insert) (auto simp: hm_insert_def)

lemma observe_at_ok:
  assumes "monitor_ok m"
  shows "monitor_ok (snd (observe_at hash ob m))"
proof -
  let ?m = "make_room (o_process ob) (evict_stale (o_now ob) m)"
  have m: "monitor_ok ?m" using assms by (intro make_room_ok evict_stale_ok)
  then have "activity_ok (case hm_get ?m (o_process ob) of Some a \<Rightarrow> a | None \<Rightarrow> activity_default)"
    using activity_default_ok by (auto dest: monitor_ok_get split: option.split)
  with m assms show ?thesis
    by (auto simp: observe_at_def Let_def case_prod_unfold record_event_ok
        intro!: hm_insert_ok make_room_ok(2) evict_stale_ok)
qed

inductive monitor_reaches :: "(bytes \<Rightarrow> nat) \<Rightarrow> monitor \<Rightarrow> bool" for hash where
  fresh: "monitor_reaches hash []"
| observed: "monitor_reaches hash m \<Longrightarrow> observe_at hash ob m = (decision, m') \<Longrightarrow> monitor_reaches hash m'"

text \<open>
  Whatever sequence of observations a monitor has seen, it tracks at most 256 processes, each
  at most once, and at most 128 distinct files of each process; the action flags it keeps are
  exactly those of the files in the process's window, so nothing is left behind when a file leaves it.
\<close>

theorem monitor_invariant: "monitor_reaches hash m \<Longrightarrow> monitor_ok m"
proof (induction rule: monitor_reaches.induct)
  case (observed m ob decision m')
  then show ?case using observe_at_ok [of m hash ob] by simp
qed (simp add: monitor_ok_def)

section \<open>The decision over a sequence of observations\<close>

fun observe_all :: "(bytes \<Rightarrow> nat) \<Rightarrow> observation list \<Rightarrow> monitor \<Rightarrow> monitor" where
  "observe_all hash [] m = m"
| "observe_all hash (ob # obs) m = observe_all hash obs (snd (observe_at hash ob m))"

lemma observe_all_append: "observe_all hash (xs @ ys) m = observe_all hash ys (observe_all hash xs m)"
  by (induction xs arbitrary: m) auto

text \<open>What a process did: the file and the flag of each of its observations that count.\<close>

definition counts :: "observation \<Rightarrow> bool" where
  "counts ob \<longleftrightarrow> is_protected_document (o_path ob) \<and> fst (o_process ob) \<noteq> 0 \<and> snd (o_process ob) \<noteq> 0"

definition touched :: "(bytes \<Rightarrow> nat) \<Rightarrow> process_key \<Rightarrow> observation list \<Rightarrow> (nat \<times> byte) list" where
  "touched hash k obs =
     map (\<lambda>ob. (path_fingerprint hash (o_path ob), action_flag (o_action ob))) (filter (\<lambda>ob. counts ob \<and> o_process ob = k) obs)"

definition flags_of :: "(nat \<times> byte) list \<Rightarrow> nat \<Rightarrow> byte" where
  "flags_of T f = foldl (\<lambda>v (f', flag). if f' = f then v OR flag else v) 0 T"

definition encrypted :: "(nat \<times> byte) list \<Rightarrow> nat set" where
  "encrypted T = {f \<in> fst ` set T. flags_of T f = HIGH_ENTROPY_WRITE OR RENAMED_OR_DELETED}"

text \<open>The record of a process that did \<open>T\<close>, all of it since time \<open>t\<close>.\<close>

definition tracks :: "nat \<Rightarrow> (nat \<times> byte) list \<Rightarrow> process_activity \<Rightarrow> bool" where
  "tracks t T a \<longleftrightarrow>
     distinct (map snd (events a)) \<and> snd ` set (events a) = fst ` set T \<and> (\<forall>e \<in> set (events a). t \<le> fst e) \<and>
     hm_wf (actions a) \<and> (\<forall>f. hm_get (actions a) f = (if f \<in> fst ` set T then Some (flags_of T f) else None)) \<and>
     (T \<noteq> [] \<longrightarrow> t \<le> last_seen_millis a)"

lemma flags_of_snoc: "flags_of (T @ [(f', flag)]) f = (if f' = f then flags_of T f OR flag else flags_of T f)"
  by (simp add: flags_of_def)

lemma flags_of_absent: "f \<notin> fst ` set T \<Longrightarrow> flags_of T f = 0"
  by (induction T rule: rev_induct) (auto simp: flags_of_def)

lemma tracks_default: "tracks t [] activity_default"
  by (simp add: tracks_def activity_default_def)

lemma expire_recent: "\<forall>e \<in> set es. now - fst e \<le> WINDOW_MILLIS \<Longrightarrow> expire now es acts = (es, acts)"
  by (cases es) auto

lemma trim_short: "length es \<le> MAX_EVENTS_PER_PROCESS \<Longrightarrow> trim_events es acts = (es, acts)"
  by (cases es) auto

lemma hm_get_or_flag:
  assumes "\<forall>f. hm_get acts f = (if f \<in> fst ` set T then Some (flags_of T f) else None)"
  shows "hm_get (or_flag f flag acts) f' =
    (if f' \<in> fst ` set (T @ [(f, flag)]) then Some (flags_of (T @ [(f, flag)]) f') else None)"
  using assms flags_of_absent [of f T] by (auto simp: or_flag_def flags_of_snoc)

lemma tracks_record_event:
  assumes "tracks t T a" and "t \<le> now" "now \<le> t + WINDOW_MILLIS" and "card (fst ` set (T @ [(f, flag)])) \<le> MAX_EVENTS_PER_PROCESS"
  shows "tracks t (T @ [(f, flag)]) (record_event now f flag a)"
proof -
  have "now - fst e \<le> WINDOW_MILLIS" if "e \<in> set (events a)" for e
    using assms(1-3) that by (fastforce simp: tracks_def)
  then have expire: "expire now (events a) (actions a) = (events a, actions a)" by (simp add: expire_recent)
  have files: "snd ` set (events a) = fst ` set T" and dist: "distinct (map snd (events a))"
    and acts: "\<forall>f'. hm_get (or_flag f flag (actions a)) f' =
      (if f' \<in> fst ` set (T @ [(f, flag)]) then Some (flags_of (T @ [(f, flag)]) f') else None)"
    using assms(1) hm_get_or_flag by (auto simp: tracks_def)
  show ?thesis
  proof (cases "f \<in> snd ` set (events a)")
    case True
    then show ?thesis
      using assms(1,2) expire files acts unfolding record_event_def tracks_def by (auto simp: insert_absorb)
  next
    case False
    have "length (events a) = card (fst ` set T)" using dist files by (metis distinct_card length_map set_map)
    then have "length (events a @ [(now, f)]) \<le> MAX_EVENTS_PER_PROCESS"
      using assms(4) False files by (simp add: card_insert_disjoint)
    with False show ?thesis
      using assms(1,2) expire files acts trim_short unfolding record_event_def tracks_def by auto
  qed
qed

text \<open>
  The other processes: with at most 256 of them ever named, none is dropped for lack of room, and a
  process seen since time \<open>t\<close> is not stale within the window.
\<close>

definition room_for :: "process_key set \<Rightarrow> monitor \<Rightarrow> bool" where
  "room_for K m \<longleftrightarrow> hm_wf m \<and> fst ` set m \<subseteq> K \<and> finite K \<and> card K \<le> MAX_TRACKED_PROCESSES"

lemma room_for_evict_stale: "room_for K m \<Longrightarrow> room_for K (evict_stale now m)"
  by (auto simp: room_for_def evict_stale_def hm_wf_def distinct_map_filter)

lemma room_for_make_room:
  assumes "room_for K m" and "key \<in> K"
  shows "make_room key m = m"
proof -
  have "length m < MAX_TRACKED_PROCESSES" if "hm_get m key = None"
  proof -
    have "length m = card (fst ` set m)"
      using assms(1) by (metis room_for_def hm_wf_def distinct_card length_map set_map)
    also have "\<dots> < card K"
      using assms that by (intro psubset_card_mono) (auto simp: room_for_def hm_get_None)
    finally show ?thesis using assms(1) by (simp add: room_for_def)
  qed
  then show ?thesis by (auto simp: make_room_def)
qed

lemma room_for_insert: "room_for K m \<Longrightarrow> k \<in> K \<Longrightarrow> room_for K (hm_insert k a m)"
  by (simp add: room_for_def keys_hm_insert)

lemma hm_get_evict_stale:
  assumes "hm_wf m"
  shows "hm_get (evict_stale now m) k =
    (case hm_get m k of Some a \<Rightarrow> if now - last_seen_millis a \<le> WINDOW_MILLIS * 6 then Some a else None | None \<Rightarrow> None)"
  using assms
proof (induction m)
  case (Cons e m)
  obtain k' a where e: "e = (k', a)" by (cases e)
  from Cons have "hm_wf m" "k' \<notin> fst ` set m" by (auto simp: hm_wf_def e)
  then have "hm_get m k' = None" by (simp add: hm_get_None)
  with Cons.IH [OF \<open>hm_wf m\<close>] show ?case by (auto simp: evict_stale_def hm_get_Cons e)
qed (simp add: evict_stale_def)

text \<open>One observation: only the record of its own process changes.\<close>

lemma observe_at_get:
  assumes "room_for K m" and "o_process ob \<in> K"
  shows "room_for K (snd (observe_at hash ob m))"
    and "o_process ob \<noteq> k \<Longrightarrow> hm_get (snd (observe_at hash ob m)) k =
      (if counts ob then hm_get (evict_stale (o_now ob) m) k else hm_get m k)"
    and "\<not> counts ob \<Longrightarrow> snd (observe_at hash ob m) = m"
    and "counts ob \<Longrightarrow> observe_at hash ob m =
      (let a = record_event (o_now ob) (path_fingerprint hash (o_path ob)) (action_flag (o_action ob))
                 (case hm_get (evict_stale (o_now ob) m) (o_process ob) of Some a \<Rightarrow> a | None \<Rightarrow> activity_default)
       in (fst (decide ob a), hm_insert (o_process ob) (snd (decide ob a)) (evict_stale (o_now ob) m)))"
  using assms room_for_make_room [OF room_for_evict_stale [OF assms(1)] assms(2), of "o_now ob"]
  by (auto simp: observe_at_def counts_def Let_def case_prod_unfold room_for_insert room_for_evict_stale)

definition tracked_in :: "nat \<Rightarrow> process_key \<Rightarrow> (nat \<times> byte) list \<Rightarrow> monitor \<Rightarrow> bool" where
  "tracked_in t k T m \<longleftrightarrow> (case hm_get m k of None \<Rightarrow> T = [] | Some a \<Rightarrow> T \<noteq> [] \<and> tracks t T a)"

lemma tracked_in_evict_stale:
  assumes "tracked_in t k T m" and "hm_wf m" and "now \<le> t + WINDOW_MILLIS"
  shows "tracked_in t k T (evict_stale now m)"
proof (cases "hm_get m k")
  case None
  with assms show ?thesis by (simp add: tracked_in_def hm_get_evict_stale)
next
  case (Some a)
  with assms have "t \<le> last_seen_millis a" by (simp add: tracked_in_def tracks_def)
  then have "now - last_seen_millis a \<le> WINDOW_MILLIS * 6" using assms(3) by simp
  with Some assms show ?thesis by (simp add: tracked_in_def hm_get_evict_stale)
qed

lemma tracks_decide: "tracks t T (snd (decide ob a)) \<longleftrightarrow> tracks t T a"
  by (simp add: tracks_def)

lemma tracked_in_observe:
  assumes "tracked_in t k T m" and "room_for K m" and "o_process ob \<in> K"
    and now: "t \<le> o_now ob" "o_now ob \<le> t + WINDOW_MILLIS"
    and "card (fst ` set (T @ touched hash k [ob])) \<le> MAX_EVENTS_PER_PROCESS"
  shows "tracked_in t k (T @ touched hash k [ob]) (snd (observe_at hash ob m))"
proof -
  note step = observe_at_get [OF assms(2,3), where hash = hash]
  have stale: "tracked_in t k T (evict_stale (o_now ob) m)"
    using assms(1,2) now(2) by (intro tracked_in_evict_stale) (simp_all add: room_for_def)
  consider "counts ob" "o_process ob = k" | "counts ob" "o_process ob \<noteq> k" | "\<not> counts ob" by blast
  then show ?thesis
  proof cases
    case 1
    let ?a = "case hm_get (evict_stale (o_now ob) m) k of Some a \<Rightarrow> a | None \<Rightarrow> activity_default"
    have "tracks t T ?a" using stale tracks_default by (auto simp: tracked_in_def split: option.splits)
    with 1 assms(6) now
    have "tracks t (T @ touched hash k [ob]) (record_event (o_now ob) (path_fingerprint hash (o_path ob)) (action_flag (o_action ob)) ?a)"
      by (simp add: touched_def tracks_record_event)
    with 1 step(4) show ?thesis by (simp add: tracked_in_def Let_def tracks_decide touched_def)
  next
    case 2
    with stale step(2) [of k] show ?thesis by (simp add: tracked_in_def touched_def)
  next
    case 3
    with assms(1) step(3) show ?thesis by (simp add: touched_def)
  qed
qed

lemma touched_Cons: "touched hash k (ob # obs) = touched hash k [ob] @ touched hash k obs"
  by (simp add: touched_def)

lemma touched_append: "touched hash k (xs @ ys) = touched hash k xs @ touched hash k ys"
  by (simp add: touched_def)

lemma tracked_in_all:
  assumes "tracked_in t k T m" and "room_for K m" and "o_process ` set obs \<subseteq> K"
    and "\<forall>ob \<in> set obs. t \<le> o_now ob \<and> o_now ob \<le> t + WINDOW_MILLIS"
    and "card (fst ` set (T @ touched hash k obs)) \<le> MAX_EVENTS_PER_PROCESS"
  shows "tracked_in t k (T @ touched hash k obs) (observe_all hash obs m) \<and> room_for K (observe_all hash obs m)"
  using assms
proof (induction obs arbitrary: T m)
  case Nil
  then show ?case by (simp add: touched_def)
next
  case (Cons ob obs)
  have "fst ` set (T @ touched hash k [ob]) \<subseteq> fst ` set (T @ touched hash k (ob # obs))"
    by (subst touched_Cons) auto
  then have card: "card (fst ` set (T @ touched hash k [ob])) \<le> MAX_EVENTS_PER_PROCESS"
    using Cons.prems(5) by (meson List.finite_set card_mono finite_imageI le_trans)
  have "tracked_in t k (T @ touched hash k [ob]) (snd (observe_at hash ob m))"
    using Cons.prems(3,4) by (intro tracked_in_observe [OF Cons.prems(1,2) _ _ _ card]) auto
  moreover have "room_for K (snd (observe_at hash ob m))"
    using Cons.prems(3) by (intro observe_at_get(1) [OF Cons.prems(2)]) auto
  ultimately show ?case
    using Cons.IH [of "T @ touched hash k [ob]" "snd (observe_at hash ob m)"] Cons.prems(3-5)
    by (simp add: touched_Cons [of hash k ob obs])
qed

lemma encrypted_files_tracks:
  assumes "tracks t T a"
  shows "encrypted_files a = card (encrypted T)"
proof -
  let ?both = "HIGH_ENTROPY_WRITE OR RENAMED_OR_DELETED"
  let ?hits = "filter (\<lambda>(_, flags). flags = ?both) (actions a)"
  have wf: "hm_wf (actions a)" using assms by (simp add: tracks_def)
  then have "distinct (map fst ?hits)" by (simp add: hm_wf_def distinct_map_filter)
  then have "length ?hits = card (fst ` set ?hits)" by (metis distinct_card length_map set_map)
  moreover have "fst ` set ?hits = encrypted T"
  proof (rule set_eqI)
    fix f
    have "f \<in> fst ` set ?hits \<longleftrightarrow> hm_get (actions a) f = Some ?both"
      using wf by (force simp: hm_get_iff)
    moreover have "hm_get (actions a) f = (if f \<in> fst ` set T then Some (flags_of T f) else None)"
      using assms by (simp add: tracks_def)
    ultimately show "f \<in> fst ` set ?hits \<longleftrightarrow> f \<in> encrypted T" by (simp add: encrypted_def)
  qed
  ultimately show ?thesis by (simp add: encrypted_files_def)
qed

lemma distinct_files_tracks: "tracks t T a \<Longrightarrow> length (remdups (map snd (events a))) = card (fst ` set T)"
  unfolding tracks_def by (metis distinct_card distinct_remdups_id set_map)


definition example_document :: "nat \<Rightarrow> bytes" where
  "example_document n = backslashed (''/users/a/documents/'' @ [digit_char n] @ ''.txt'')"

definition example_write :: "nat \<Rightarrow> file_action \<Rightarrow> observation" where
  "example_write n act = \<lparr>o_process = (7, 9), o_path = example_document n, o_trust = Untrusted, o_block_mode = True,
     o_now = 100 + n, o_action = Some act\<rparr>"

definition example_hash :: "bytes \<Rightarrow> nat" where
  "example_hash path = unat (path ! 19)"

lemma example_counts: "n \<in> {1, 2, 3} \<Longrightarrow> counts (example_write n act)"
  by (auto simp: counts_def example_write_def example_document_def backslashed_def is_protected_document_def
      Let_def bytes_of_def byte_of_def to_ascii_lowercase_def starts_with_def protected_folders_def
      protected_extensions_def extension_of_def digit_char_def)

lemma example_digits: "char_of (49 :: nat) = CHR ''1''" "char_of (50 :: nat) = CHR ''2''" "char_of (51 :: nat) = CHR ''3''"
  by code_simp+

lemma example_fingerprint: "n \<in> {1, 2, 3} \<Longrightarrow> path_fingerprint example_hash (o_path (example_write n act)) = 48 + n"
  by (auto simp: example_write_def path_fingerprint_def example_hash_def example_document_def backslashed_def
      bytes_of_def byte_of_def to_ascii_lowercase_def digit_char_def example_digits)

definition example_sequence :: "observation list" where
  "example_sequence = concat (map (\<lambda>n. [example_write n (WriteFile HighEntropy), example_write n Rename]) [1, 2, 3])"

lemma example_touched:
  "touched example_hash (7, 9) example_sequence = [(49, 1), (49, 2), (50, 1), (50, 2), (51, 1), (51, 2)]"
  by (simp add: touched_def example_sequence_def example_counts example_fingerprint action_flag_def HIGH_ENTROPY_WRITE_def
      RENAMED_OR_DELETED_def del: One_nat_def) (simp add: example_write_def HIGH_ENTROPY_WRITE_def RENAMED_OR_DELETED_def)

theorem monitor_invariant_witness: "monitor_ok (snd (observe_at example_hash (example_write 1 Rename) []))"
  using monitor_invariant [OF monitor_reaches.observed [OF monitor_reaches.fresh prod.collapse [symmetric]]] .


lemma decide_action [simp]: "decide (ob\<lparr>o_action := x\<rparr>) a = decide ob a"
  by (simp add: decide_def Let_def cong: option.case_cong if_cong)

text \<open>Deleting a file sets no flag: a program that writes encrypted copies and deletes the originals gets no credit for it.\<close>

lemma delete_is_not_flagged:
  "observe_at hash (ob\<lparr>o_action := Some Delete\<rparr>) m = observe_at hash (ob\<lparr>o_action := Some ReadFile\<rparr>) m"
  by (simp add: observe_at_def action_flag_def)

end
