(* ===== verification/Similarity.thy ===== *)
theory Similarity
  imports Prelude
begin

unbundle bit_operations_syntax

text \<open>
  Similarity sketches, \<^verbatim>\<open>src/similarity.rs\<close>: the hash of a shingle on 64-bit words, the bounded ordered
  set of the smallest hashes, the merge that counts what two sketches share, and the scan over
  the profiles. The lemmas show that the mixer loses nothing, that a sketch is the 64 smallest
  distinct hashes of the file, and that the merge computes the share of common hashes.
\<close>

section \<open>Model\<close>

definition SKETCH_SIZE :: nat where "SKETCH_SIZE = 64"
definition MIN_SKETCH_BYTES :: nat where "MIN_SKETCH_BYTES = 4096"
definition SHINGLE_BYTES :: nat where "SHINGLE_BYTES = 16"
definition SHINGLE_STRIDE :: nat where "SHINGLE_STRIDE = 4"
definition MAX_VISIBLE_MATCHES :: nat where "MAX_VISIBLE_MATCHES = 8"

lemmas sketch_consts =
  SKETCH_SIZE_def MIN_SKETCH_BYTES_def SHINGLE_BYTES_def SHINGLE_STRIDE_def MAX_VISIBLE_MATCHES_def

record similarity_profile =
  sp_identifier :: string
  sp_threat_name :: string
  sp_family :: "string option"
  sp_minimum_file_size :: nat
  sp_maximum_file_size :: nat
  sp_minimum_similarity :: nat
  sp_sketch :: "64 word list"

record similarity_match =
  sm_identifier :: string
  sm_threat_name :: string
  sm_family :: "string option"
  sm_similarity :: nat

definition profile_invalid :: "similarity_profile \<Rightarrow> bool" where
  "profile_invalid p \<longleftrightarrow>
     sp_minimum_file_size p < MIN_SKETCH_BYTES \<or> sp_maximum_file_size p < sp_minimum_file_size p \<or>
     \<not> (8500 \<le> sp_minimum_similarity p \<and> sp_minimum_similarity p \<le> 10000) \<or>
     list_ex (\<lambda>w. w ! 0 \<ge> w ! 1) (windows 2 (sp_sketch p))"

definition similarity_new :: "similarity_profile list \<Rightarrow> string + similarity_profile list" where
  "similarity_new profiles =
     (case filter profile_invalid profiles of
        p # _ \<Rightarrow> Inl (sp_identifier p)
      | [] \<Rightarrow> Inr profiles)"

definition mix64 :: "64 word \<Rightarrow> 64 word" where
  "mix64 v =
     (let v = v XOR drop_bit 30 v;
          v = v * 0xbf58476d1ce4e5b9;
          v = v XOR drop_bit 27 v;
          v = v * 0x94d049bb133111eb
      in v XOR drop_bit 31 v)"

definition u64_of_le :: "bytes \<Rightarrow> 64 word" where
  "u64_of_le bs = word_of_nat (u32_of_le bs + 4294967296 * u32_of_le (drop 4 bs))"

definition shingle_hash :: "bytes \<Rightarrow> nat \<Rightarrow> 64 word" where
  "shingle_hash bs at = mix64 (u64_of_le (slice bs at (at + 8)) XOR mix64 (u64_of_le (slice bs (at + 8) (at + 16))))"

text \<open>An ordered set as a list in ascending order; the last element is its greatest.\<close>

fun set_insert :: "'a :: linorder \<Rightarrow> 'a list \<Rightarrow> 'a list" where
  "set_insert h [] = [h]"
| "set_insert h (x # xs) = (if h < x then h # x # xs else if h = x then x # xs else x # set_insert h xs)"

definition keep_minimum :: "'a :: linorder list \<Rightarrow> 'a \<Rightarrow> 'a list" where
  "keep_minimum minima h =
     (let minima = set_insert h minima in
      if length minima > SKETCH_SIZE then butlast minima else minima)"

text \<open>The offsets \<^verbatim>\<open>(0..=len - 16).step_by(4)\<close>.\<close>

definition shingle_offsets :: "nat \<Rightarrow> nat list" where
  "shingle_offsets len = map (\<lambda>i. i * SHINGLE_STRIDE) [0..<(len - SHINGLE_BYTES) div SHINGLE_STRIDE + 1]"

definition compute_sketch :: "bytes \<Rightarrow> 64 word list option" where
  "compute_sketch bs =
     (if length bs < MIN_SKETCH_BYTES \<or> length bs < SHINGLE_BYTES then None
      else let minima = foldl keep_minimum [] (map (shingle_hash bs) (shingle_offsets (length bs))) in
        if length minima \<noteq> SKETCH_SIZE then None else Some minima)"

fun shared_loop :: "'a :: linorder list \<Rightarrow> 'a list \<Rightarrow> nat \<Rightarrow> nat" where
  "shared_loop (x # xs) (y # ys) shared =
     (if x < y then shared_loop xs (y # ys) shared
      else if y < x then shared_loop (x # xs) ys shared
      else shared_loop xs ys (shared + 1))"
| "shared_loop _ _ shared = shared"

definition sketch_similarity_basis_points :: "64 word list \<Rightarrow> 64 word list \<Rightarrow> nat" where
  "sketch_similarity_basis_points left right = (shared_loop left right 0 * 10000 div SKETCH_SIZE) mod 2 ^ 16"

definition match_of :: "64 word list \<Rightarrow> similarity_profile \<Rightarrow> similarity_match option" where
  "match_of sketch p =
     (let score = sketch_similarity_basis_points sketch (sp_sketch p) in
      if score \<ge> sp_minimum_similarity p
      then Some \<lparr>sm_identifier = sp_identifier p, sm_threat_name = sp_threat_name p, sm_family = sp_family p,
                 sm_similarity = score\<rparr>
      else None)"

text \<open>\<^verbatim>\<open>sort_by_key\<close> with \<^verbatim>\<open>Reverse\<close> is a stable sort, highest score first.\<close>

definition similarity_scan :: "similarity_profile list \<Rightarrow> bytes \<Rightarrow> nat \<Rightarrow> similarity_match list" where
  "similarity_scan profiles bs declared_size =
     (if profiles = [] \<or> length bs < MIN_SKETCH_BYTES \<or> \<not> starts_with bs [0x4D, 0x5A] then []
      else let candidates = filter (\<lambda>p. declared_size \<ge> sp_minimum_file_size p \<and>
                                        declared_size \<le> sp_maximum_file_size p) profiles
        in if candidates = [] then []
           else case compute_sketch bs of
             None \<Rightarrow> []
           | Some sketch \<Rightarrow>
               take MAX_VISIBLE_MATCHES
                 (sort_key (\<lambda>m. - int (sm_similarity m)) (List.map_filter (match_of sketch) candidates)))"

section \<open>The mixer is injective\<close>

lemma drop_bit_beyond: "64 \<le> n \<Longrightarrow> drop_bit n (v :: 64 word) = 0"
  by (simp add: bit_eq_iff bit_drop_bit_eq bit_imp_le_length flip: not_le)

text \<open>Undoing \<^verbatim>\<open>v ^ (v >> n)\<close>, for shifts of at least 22 bits.\<close>

lemma xorshift_inverse:
  assumes "22 \<le> n" and w: "w = v XOR drop_bit n (v :: 64 word)"
  shows "w XOR drop_bit n w XOR drop_bit (2 * n) w = v"
proof -
  have "drop_bit (3 * n) v = 0" using assms(1) by (intro drop_bit_beyond) simp
  moreover have "drop_bit n w = drop_bit n v XOR drop_bit (2 * n) v"
    by (simp add: w drop_bit_xor drop_bit_drop_bit mult_2)
  moreover have "drop_bit (2 * n) w = drop_bit (2 * n) v XOR drop_bit (3 * n) v"
    by (simp add: w drop_bit_xor drop_bit_drop_bit add.commute)
  ultimately show ?thesis by (simp add: w xor.assoc xor.left_commute)
qed

lemma xorshift_inject: "22 \<le> n \<Longrightarrow> v XOR drop_bit n v = v' XOR drop_bit n (v' :: 64 word) \<longleftrightarrow> v = v'"
  using xorshift_inverse [of n _ v] xorshift_inverse [of n _ v'] by metis

lemma mult_inject:
  assumes "c * d = (1 :: 64 word)"
  shows "v * c = v' * c \<longleftrightarrow> v = v'"
proof
  assume "v * c = v' * c"
  then have "v * c * d = v' * c * d" by (rule arg_cong)
  then show "v = v'" by (simp add: mult.assoc assms)
qed simp

lemma first_factor: "v * 0xbf58476d1ce4e5b9 = v' * (0xbf58476d1ce4e5b9 :: 64 word) \<longleftrightarrow> v = v'"
  by (rule mult_inject [of _ "0x96de1b173f119089"]) simp

lemma second_factor: "v * 0x94d049bb133111eb = v' * (0x94d049bb133111eb :: 64 word) \<longleftrightarrow> v = v'"
  by (rule mult_inject [of _ "0x319642b2d24d8ec3"]) simp

lemma mix64_inject: "mix64 v = mix64 v' \<longleftrightarrow> v = v'"
  by (simp add: mix64_def Let_def xorshift_inject first_factor second_factor)

section \<open>The sketch is the 64 smallest hashes\<close>

lemma set_set_insert [simp]: "set (set_insert h xs) = insert h (set xs)"
  by (induction xs) auto

lemma set_insert_sorted: "sorted_wrt (<) xs \<Longrightarrow> sorted_wrt (<) (set_insert h xs)"
  by (induction xs) (auto simp: not_less)

lemma length_set_insert: "length (set_insert h xs) \<le> Suc (length xs)"
  by (induction xs) auto

lemma set_insert_list_of_set:
  assumes "finite A"
  shows "set_insert h (sorted_list_of_set A) = sorted_list_of_set (insert h A)"
proof (rule strict_sorted_equal)
  show "sorted_wrt (<) (set_insert h (sorted_list_of_set A))"
    by (intro set_insert_sorted) simp
qed (use assms in \<open>simp_all del: sorted_list_of_set_insert_remove\<close>)

lemma take_set_insert: "take n (set_insert h (take n xs)) = take n (set_insert h xs)"
proof (induction xs arbitrary: n)
  case (Cons x xs)
  show ?case
  proof (cases n)
    case (Suc m)
    then show ?thesis using Cons [of m] by (simp add: take_Cons')
  qed simp
qed simp

lemma keep_minimum_take:
  "keep_minimum (take SKETCH_SIZE xs) h = take SKETCH_SIZE (set_insert h xs)"
proof -
  let ?ys = "set_insert h (take SKETCH_SIZE xs)"
  have "length ?ys \<le> Suc SKETCH_SIZE"
    using length_set_insert [of h "take SKETCH_SIZE xs"] by simp
  then have "keep_minimum (take SKETCH_SIZE xs) h = take SKETCH_SIZE ?ys"
    by (auto simp: keep_minimum_def Let_def butlast_conv_take not_less intro: arg_cong2 [of _ _ _ _ take])
  then show ?thesis by (simp add: take_set_insert)
qed

lemma fold_keep_minimum:
  "foldl keep_minimum [] hs = take SKETCH_SIZE (sorted_list_of_set (set hs))"
proof (induction hs rule: rev_induct)
  case (snoc h hs)
  then show ?case by (simp add: keep_minimum_take set_insert_list_of_set)
qed simp

definition shingle_hashes :: "bytes \<Rightarrow> 64 word set" where
  "shingle_hashes bs = {shingle_hash bs (4 * i) |i. 4 * i + 16 \<le> length bs}"

lemma shingle_hashes_list:
  assumes "16 \<le> length bs"
  shows "set (map (shingle_hash bs) (shingle_offsets (length bs))) = shingle_hashes bs"
proof -
  have "i < (length bs - 16) div 4 + 1 \<longleftrightarrow> 4 * i + 16 \<le> length bs" for i
    using assms by (auto simp: less_Suc_eq_le less_eq_div_iff_mult_less_eq)
  then show ?thesis
    by (auto simp: shingle_hashes_def shingle_offsets_def sketch_consts mult.commute image_iff simp del: upt_Suc)
qed

text \<open>
  The sketch of a file is the list of the 64 smallest distinct hashes of its shingles, the
  16-byte pieces at offsets divisible by four, in ascending order; a file below 4096 bytes or with
  fewer distinct hashes has none. The bounded ordered set that drops its greatest element after
  each insertion loses none of them.
\<close>

theorem compute_sketch_minima:
  "compute_sketch bs =
     (if length bs < 4096 \<or> card (shingle_hashes bs) < 64 then None
      else Some (take 64 (sorted_list_of_set (shingle_hashes bs))))"
proof (cases "length bs < 4096")
  case True
  then show ?thesis by (simp add: compute_sketch_def sketch_consts)
next
  case False
  then have "set (map (shingle_hash bs) (shingle_offsets (length bs))) = shingle_hashes bs"
    by (intro shingle_hashes_list) simp
  with False show ?thesis
    by (simp add: compute_sketch_def fold_keep_minimum Let_def SKETCH_SIZE_def MIN_SKETCH_BYTES_def
          SHINGLE_BYTES_def not_less min_def del: set_map)
qed

section \<open>The merge counts the common hashes\<close>

lemma shared_loop_exact:
  "sorted_wrt (<) xs \<Longrightarrow> sorted_wrt (<) ys \<Longrightarrow>
   shared_loop xs ys shared = shared + card (set xs \<inter> set ys)"
proof (induction xs ys shared rule: shared_loop.induct)
  case (1 x xs y ys shared)
  consider "x < y" | "y < x" | "x = y" by (rule linorder_cases)
  then show ?case
  proof cases
    case 1
    then have "x \<notin> set (y # ys)" using "1.prems" by auto
    then show ?thesis using 1 "1.IH"(1) "1.prems" by simp
  next
    case 2
    then have "y \<notin> set (x # xs)" using "1.prems" by auto
    then show ?thesis using 2 "1.IH"(2) "1.prems" by (simp add: less_not_sym)
  next
    case 3
    then have "x \<notin> set ys" "x \<notin> set xs" using "1.prems" by auto
    then show ?thesis using 3 "1.IH"(3) "1.prems" by simp
  qed
qed simp_all

text \<open>
  The similarity of two sketches in ascending order is the number of hashes they have in
  common times 10000 / 64; it fits the 16 bits it is stored in, and is 10000 exactly when the
  sketches are the same.
\<close>

theorem similarity_exact:
  assumes "sorted_wrt (<) left" and "sorted_wrt (<) right" and "length left = 64" and "length right = 64"
  shows "sketch_similarity_basis_points left right = card (set left \<inter> set right) * 10000 div 64
    \<and> sketch_similarity_basis_points left right \<le> 10000
    \<and> (sketch_similarity_basis_points left right = 10000 \<longleftrightarrow> left = right)"
proof -
  let ?n = "card (set left \<inter> set right)"
  have cards: "card (set left) = 64" "card (set right) = 64"
    using assms by (simp_all add: distinct_card strict_sorted_iff)
  have "?n \<le> 64" using card_mono [of "set left" "set left \<inter> set right"] cards by simp
  then have exact: "sketch_similarity_basis_points left right = ?n * 10000 div 64" and "?n * 10000 div 64 \<le> 10000"
    using assms by (simp_all add: sketch_similarity_basis_points_def shared_loop_exact SKETCH_SIZE_def)
  moreover have "?n * 10000 div 64 = 10000 \<longleftrightarrow> ?n = 64" using \<open>?n \<le> 64\<close> by auto
  moreover have "?n = 64 \<longleftrightarrow> left = right"
  proof
    assume "?n = 64"
    then have "set left \<inter> set right = set left" "set left \<inter> set right = set right"
      using cards by (simp_all add: card_subset_eq)
    then show "left = right" using assms by (intro strict_sorted_equal) auto
  qed (use cards in simp)
  ultimately show ?thesis by simp
qed

theorem similarity_exact_witness:
  "sketch_similarity_basis_points (map of_nat [0..<64]) (map of_nat [0..<64]) = 10000"
proof -
  have "sorted_wrt (<) (map of_nat [0..<64] :: 64 word list)"
    by (simp add: sorted_wrt_map sorted_wrt_iff_nth_less word_less_nat_alt unat_of_nat)
  then show ?thesis using similarity_exact [of "map of_nat [0..<64]" "map of_nat [0..<64]"] by simp
qed

end
