(* ===== verification/Detection_Types.thy ===== *)
theory Detection_Types
  imports Engine_Types Similarity
begin

text \<open>
  The types the detection pipeline shares: verdicts, rule matches (\<^verbatim>\<open>src/rules.rs\<close>), the AMSI answer
  (\<^verbatim>\<open>src/amsi.rs\<close>), findings inside containers (\<^verbatim>\<open>src/archive.rs\<close>) and the detection report
  (\<^verbatim>\<open>src/detection.rs\<close>). Durations, the cache marker and human-readable texts are left out.
\<close>

datatype detection_verdict = DClean | DSuspicious | DMalicious | DError

section \<open>AMSI\<close>

datatype amsi_verdict = AmsiClean | NotDetected | BlockedByAdministrator | MalwareDetected

definition AMSI_RESULT_CLEAN :: nat where "AMSI_RESULT_CLEAN = 0"
definition AMSI_RESULT_BLOCKED_BY_ADMIN_START :: nat where "AMSI_RESULT_BLOCKED_BY_ADMIN_START = 0x4000"
definition AMSI_RESULT_BLOCKED_BY_ADMIN_END :: nat where "AMSI_RESULT_BLOCKED_BY_ADMIN_END = 0x4FFF"
definition AMSI_RESULT_DETECTED :: nat where "AMSI_RESULT_DETECTED = 0x8000"

definition amsi_from_raw :: "nat \<Rightarrow> amsi_verdict" where
  "amsi_from_raw result =
     (if result \<ge> AMSI_RESULT_DETECTED then MalwareDetected
      else if AMSI_RESULT_BLOCKED_BY_ADMIN_START \<le> result \<and> result \<le> AMSI_RESULT_BLOCKED_BY_ADMIN_END
      then BlockedByAdministrator
      else if result = AMSI_RESULT_CLEAN then AmsiClean
      else NotDetected)"

definition is_provider_detection :: "amsi_verdict \<Rightarrow> bool" where
  "is_provider_detection v \<longleftrightarrow> v = MalwareDetected"

definition should_block_execution :: "amsi_verdict \<Rightarrow> bool" where
  "should_block_execution v \<longleftrightarrow> v = MalwareDetected \<or> v = BlockedByAdministrator"

section \<open>Rules\<close>

datatype rule_disposition = InformationalRule | SuspiciousRule | MaliciousRule
datatype rule_provenance = EmbeddedTrustedTest | EmbeddedHeuristic | PublisherAuthenticated
datatype enforcement_authority = AlertOnly | ExecutionDeny

record rule_match =
  rm_identifier :: string
  rm_namespace :: string
  rm_disposition :: rule_disposition
  rm_risk_score :: nat
  rm_threat_name :: string
  rm_provenance :: rule_provenance
  rm_authority :: enforcement_authority

section \<open>Containers\<close>

record embedded_finding =
  ef_path :: bytes
  ef_depth :: nat
  ef_verdict :: detection_verdict
  ef_risk_score :: nat
  ef_threat_name :: "string option"
  ef_sha256 :: "string option"
  ef_quarantine :: bool
  ef_block :: bool

definition verdict_rank :: "detection_verdict \<Rightarrow> nat" where
  "verdict_rank v = (case v of DClean \<Rightarrow> 0 | DError \<Rightarrow> 1 | DSuspicious \<Rightarrow> 2 | DMalicious \<Rightarrow> 3)"

record container_inspection =
  scanned_entries :: nat
  expanded_bytes :: nat
  encrypted_entries :: nat
  macro_projects :: nat
  executable_attachments :: nat
  external_relationships :: nat
  rejected_paths :: nat
  limit_triggered :: bool
  incomplete :: bool
  malformed :: bool
  findings :: "embedded_finding list"

definition inspection_default :: container_inspection where
  "inspection_default = \<lparr>scanned_entries = 0, expanded_bytes = 0, encrypted_entries = 0, macro_projects = 0,
     executable_attachments = 0, external_relationships = 0, rejected_paths = 0, limit_triggered = False,
     incomplete = False, malformed = False, findings = []\<rparr>"

definition structural_risk_score :: "container_inspection \<Rightarrow> nat" where
  "structural_risk_score c =
     (if limit_triggered c then 60
      else if macro_projects c > 0 \<and> (executable_attachments c > 0 \<or> external_relationships c > 0) then 65
      else if rejected_paths c > 0 \<or> malformed c then 35
      else 0)"

section \<open>Reports\<close>

record detection_report =
  d_verdict :: detection_verdict
  d_risk_score :: nat
  d_confidence :: nat
  d_threat_name :: "string option"
  d_sha256 :: "string option"
  d_file_size :: nat
  d_bytes_scanned :: nat
  d_truncated :: bool
  d_completeness :: analysis_completeness
  d_static_report :: "scan_report option"
  d_rule_matches :: "rule_match list"
  d_similarity :: "similarity_match list"
  d_container :: "container_inspection option"
  d_amsi :: "amsi_verdict option"
  d_error :: bool
  d_quarantine_eligible :: bool
  d_block_eligible :: bool

definition should_quarantine :: "detection_report \<Rightarrow> bool" where
  "should_quarantine r \<longleftrightarrow> d_verdict r = DMalicious \<and> d_quarantine_eligible r"

definition should_block :: "detection_report \<Rightarrow> bool" where
  "should_block r \<longleftrightarrow> d_block_eligible r"

definition detection_error :: detection_report where
  "detection_error = \<lparr>d_verdict = DError, d_risk_score = 0, d_confidence = 0, d_threat_name = None, d_sha256 = None,
     d_file_size = 0, d_bytes_scanned = 0, d_truncated = False, d_completeness = ResourceLimitReached,
     d_static_report = None, d_rule_matches = [], d_similarity = [], d_container = None, d_amsi = None, d_error = True,
     d_quarantine_eligible = False, d_block_eligible = False\<rparr>"

definition ransomware_behavior :: "bool \<Rightarrow> detection_report" where
  "ransomware_behavior blocked = \<lparr>d_verdict = DSuspicious, d_risk_score = 95, d_confidence = 90,
     d_threat_name = Some ''Behavior.Ransomware.MassModification'', d_sha256 = None, d_file_size = 0,
     d_bytes_scanned = 0, d_truncated = False, d_completeness = Complete, d_static_report = None,
     d_rule_matches = [], d_similarity = [], d_container = None, d_amsi = None, d_error = False,
     d_quarantine_eligible = False, d_block_eligible = blocked\<rparr>"

end
