(* ===== verification/Search.thy ===== *)
theory Search
  imports Prelude "HOL-Library.List_Lexorder"
begin

text \<open>
  Searching sorted slices: \<^verbatim>\<open>slice::binary_search\<close> as the Rust standard library implements it (halving
  the sz, keeping the upper half unless the middle is greater) and \<^verbatim>\<open>partition_point\<close>. Byte arrays
  compare lexicographically, which is the order of \<^verbatim>\<open>List_Lexorder\<close>.
\<close>

function bs_loop :: "('a \<Rightarrow> 'k :: linorder) \<Rightarrow> 'k \<Rightarrow> 'a list \<Rightarrow> nat \<Rightarrow> nat \<Rightarrow> nat" where
  "bs_loop key k xs base sz =
     (if sz \<le> 1 then base
      else let half = sz div 2; mid = base + half in
        bs_loop key k xs (if k < key (xs ! mid) then base else mid) (sz - half))"
  by pat_completeness auto
termination by (relation "measure (\<lambda>(key, k, xs, base, sz). sz)") auto

declare bs_loop.simps [simp del]

text \<open>The position \<^verbatim>\<open>Ok\<close> carries, if the search succeeds.\<close>

definition binary_search_by_key :: "('a \<Rightarrow> 'k :: linorder) \<Rightarrow> 'k \<Rightarrow> 'a list \<Rightarrow> nat option" where
  "binary_search_by_key key k xs =
     (if xs = [] then None
      else let base = bs_loop key k xs 0 (length xs) in if key (xs ! base) = k then Some base else None)"

definition partition_point :: "('a \<Rightarrow> bool) \<Rightarrow> 'a list \<Rightarrow> nat" where
  "partition_point P xs = length (takeWhile P xs)"

lemma bs_loop_range:
  assumes sorted: "sorted (map key xs)"
  shows "0 < sz \<Longrightarrow> base + sz \<le> length xs \<Longrightarrow> base = 0 \<or> key (xs ! base) \<le> k \<Longrightarrow>
     \<forall>i < length xs. base + sz \<le> i \<longrightarrow> k < key (xs ! i) \<Longrightarrow>
     let b = bs_loop key k xs base sz in
       b < length xs \<and> (b = 0 \<or> key (xs ! b) \<le> k) \<and> (\<forall>i < length xs. b < i \<longrightarrow> k < key (xs ! i))"
proof (induction sz arbitrary: base rule: less_induct)
  case (less sz)
  show ?case
  proof (cases "sz \<le> 1")
    case True
    with less.prems show ?thesis by (auto simp: bs_loop.simps [of key k xs base sz] Let_def)
  next
    case False
    let ?half = "sz div 2"
    have h: "0 < ?half" "?half < sz" using False by auto
    have up: "k < key (xs ! i)" if "k < key (xs ! (base + ?half))" "base + ?half \<le> i" "i < length xs" for i
      using that sorted_nth_mono [of "map key xs" "base + ?half" i] sorted by (simp add: less_le_trans)
    have "let b = bs_loop key k xs (if k < key (xs ! (base + ?half)) then base else base + ?half) (sz - ?half) in
        b < length xs \<and> (b = 0 \<or> key (xs ! b) \<le> k) \<and> (\<forall>i < length xs. b < i \<longrightarrow> k < key (xs ! i))"
    proof (rule less.IH)
      show "sz - ?half < sz" "0 < sz - ?half" using h by auto
      show "(if k < key (xs ! (base + ?half)) then base else base + ?half) + (sz - ?half) \<le> length xs"
        using less.prems(2) h by auto
      show "(if k < key (xs ! (base + ?half)) then base else base + ?half) = 0 \<or>
          key (xs ! (if k < key (xs ! (base + ?half)) then base else base + ?half)) \<le> k"
        using less.prems(3) by auto
      have "sz - ?half \<ge> ?half" by simp
      then show "\<forall>i < length xs. (if k < key (xs ! (base + ?half)) then base else base + ?half) + (sz - ?half) \<le> i \<longrightarrow> k < key (xs ! i)"
        using less.prems(4) up h by auto
    qed
    then show ?thesis using False by (simp add: bs_loop.simps [of key k xs base sz] Let_def)
  qed
qed

lemma binary_search_by_key_Some:
  assumes "sorted (map key xs)" "binary_search_by_key key k xs = Some i"
  shows "i < length xs \<and> key (xs ! i) = k"
  using assms(2) bs_loop_range [OF assms(1), of "length xs" 0 k]
  by (auto simp: binary_search_by_key_def Let_def split: if_splits)

lemma binary_search_by_key_None:
  assumes "sorted (map key xs)" "binary_search_by_key key k xs = None"
  shows "k \<notin> key ` set xs"
proof
  assume "k \<in> key ` set xs"
  then obtain i where i: "i < length xs" "key (xs ! i) = k" by (auto simp: in_set_conv_nth)
  let ?b = "bs_loop key k xs 0 (length xs)"
  have "xs \<noteq> []" using i by auto
  with bs_loop_range [OF assms(1), of "length xs" 0 k] i(1)
  have b: "?b < length xs" "?b = 0 \<or> key (xs ! ?b) \<le> k" "\<forall>j < length xs. ?b < j \<longrightarrow> k < key (xs ! j)"
    by (auto simp: Let_def)
  from b(3) i have "i \<le> ?b" by (metis less_irrefl not_le)
  then have "k \<le> key (xs ! ?b)" using i b(1) assms(1) sorted_nth_mono [of "map key xs" i ?b] by simp
  with b(2) i \<open>i \<le> ?b\<close> have "key (xs ! ?b) = k" by auto
  with \<open>xs \<noteq> []\<close> show False using assms(2) by (simp add: binary_search_by_key_def Let_def)
qed

lemma binary_search_by_key_iff:
  "sorted (map key xs) \<Longrightarrow> binary_search_by_key key k xs \<noteq> None \<longleftrightarrow> k \<in> key ` set xs"
  using binary_search_by_key_Some [of key xs k] binary_search_by_key_None [of key xs k] by force

end
