(* ===== verification/Rules.thy ===== *)
theory Rules
  imports Detection_Types Search
begin

text \<open>
  The rule engine, \<^verbatim>\<open>src/rules.rs\<close>: the policies of built-in and authenticated rules and what a match of
  the rule scanner becomes. Compiling and running the rules is the third-party crate \<^verbatim>\<open>yara_x\<close>: whether
  a bundle's source compiles and which rules match a file are parameters. The per-thread scanner cache
  is left out, it only saves the construction of a scanner.
\<close>

section \<open>Model\<close>

definition BUILTIN_NAMESPACE :: string where "BUILTIN_NAMESPACE = ''blackshard_builtin''"

record rule_policy =
  rp_identifier :: string
  rp_disposition :: rule_disposition
  rp_risk_score :: nat
  rp_threat_name :: string

record rule_bundle =
  rb_namespace :: string
  rb_source :: string
  rb_policies :: "rule_policy list"

text \<open>The policies, keyed by namespace and identifier with a zero character between them.\<close>

record 'r rule_engine =
  re_rules :: 'r
  re_policies :: "(string \<times> rule_policy) list"

definition policy_key :: "string \<Rightarrow> string \<Rightarrow> string" where
  "policy_key namespace identifier = namespace @ [CHR 0x00] @ identifier"

definition is_namespace_char :: "char \<Rightarrow> bool" where
  "is_namespace_char c \<longleftrightarrow> is_ascii_alphanumeric (byte_of c) \<or> c = CHR ''_'' \<or> c = CHR ''-''"

definition validate_namespace :: "string \<Rightarrow> bool" where
  "validate_namespace namespace \<longleftrightarrow>
     namespace \<noteq> [] \<and> length namespace \<le> 64 \<and> list_all is_namespace_char namespace"

definition builtin_policy :: "string \<Rightarrow> rule_disposition \<Rightarrow> nat \<Rightarrow> string \<Rightarrow> string \<times> rule_policy" where
  "builtin_policy identifier disposition score name =
     (policy_key BUILTIN_NAMESPACE identifier,
      \<lparr>rp_identifier = identifier, rp_disposition = disposition, rp_risk_score = score, rp_threat_name = name\<rparr>)"

definition builtin_policies :: "(string \<times> rule_policy) list" where
  "builtin_policies = hm_collect
     [builtin_policy ''blackshard_harmless_self_test'' MaliciousRule 100 ''blackshard-self-test'',
      builtin_policy ''blackshard_powershell_obfuscated_download_execute'' SuspiciousRule 45 ''Suspicious.PowerShell.DownloadExecute'',
      builtin_policy ''blackshard_powershell_amsi_bypass_sequence'' SuspiciousRule 55 ''Suspicious.PowerShell.AMSIBypass'',
      builtin_policy ''blackshard_lolbin_remote_execution_command'' SuspiciousRule 40 ''Suspicious.LOLBin.RemoteExecution'',
      builtin_policy ''blackshard_lolbin_transfer_or_decode'' SuspiciousRule 30 ''Suspicious.LOLBin.TransferOrDecode'',
      builtin_policy ''blackshard_office_macro_autoexec_shell_chain'' SuspiciousRule 45 ''Suspicious.Office.AutoExecShell'']"

definition insert_policies :: "rule_bundle \<Rightarrow> (string \<times> rule_policy) list \<Rightarrow> (string \<times> rule_policy) list" where
  "insert_policies b m =
     foldl (\<lambda>m p. hm_insert (policy_key (rb_namespace b) (rp_identifier p)) (p\<lparr>rp_risk_score := min (rp_risk_score p) 100\<rparr>) m)
       m (rb_policies b)"

text \<open>
  \<open>compiles\<close> says whether the compiler takes a source into its namespace after the earlier ones, and
  \<open>built\<close> is what it builds from all of them.
\<close>

fun add_bundles :: "((string \<times> string) list \<Rightarrow> bool) \<Rightarrow> rule_bundle list \<Rightarrow> (string \<times> string) list \<Rightarrow>
    (string \<times> rule_policy) list \<Rightarrow> ((string \<times> string) list \<times> (string \<times> rule_policy) list) option" where
  "add_bundles compiles [] sources m = Some (sources, m)"
| "add_bundles compiles (b # bs) sources m =
     (if \<not> validate_namespace (rb_namespace b) then None
      else let sources = sources @ [(rb_namespace b, rb_source b)] in
        if \<not> compiles sources then None else add_bundles compiles bs sources (insert_policies b m))"

definition rules_compile :: "string \<Rightarrow> ((string \<times> string) list \<Rightarrow> bool) \<Rightarrow> ((string \<times> string) list \<Rightarrow> 'r) \<Rightarrow>
    rule_bundle list \<Rightarrow> 'r rule_engine option" where
  "rules_compile builtin_source compiles built bundles =
     (let sources = [(BUILTIN_NAMESPACE, builtin_source)] in
      if \<not> compiles sources then None
      else case add_bundles compiles bundles sources builtin_policies of
        None \<Rightarrow> None
      | Some (sources, m) \<Rightarrow> Some \<lparr>re_rules = built sources, re_policies = m\<rparr>)"

definition provenance_for :: "string \<Rightarrow> string \<Rightarrow> rule_provenance" where
  "provenance_for namespace identifier =
     (if namespace \<noteq> BUILTIN_NAMESPACE then PublisherAuthenticated
      else if identifier = ''blackshard_harmless_self_test'' then EmbeddedTrustedTest
      else EmbeddedHeuristic)"

definition enforcement_authority_for :: "string \<Rightarrow> string \<Rightarrow> enforcement_authority" where
  "enforcement_authority_for namespace identifier =
     (if namespace = BUILTIN_NAMESPACE \<and> identifier = ''blackshard_harmless_self_test'' then ExecutionDeny
      else AlertOnly)"

definition rule_match_of :: "(string \<times> rule_policy) list \<Rightarrow> string \<times> string \<Rightarrow> rule_match" where
  "rule_match_of policies matched =
     (let (namespace, identifier) = matched;
          policy = (case hm_get policies (policy_key namespace identifier) of
            Some p \<Rightarrow> p
          | None \<Rightarrow> \<lparr>rp_identifier = identifier, rp_disposition = SuspiciousRule, rp_risk_score = 25,
                      rp_threat_name = ''YARA.'' @ identifier\<rparr>)
      in \<lparr>rm_identifier = identifier, rm_namespace = namespace, rm_disposition = rp_disposition policy,
          rm_risk_score = rp_risk_score policy, rm_threat_name = rp_threat_name policy,
          rm_provenance = provenance_for namespace identifier,
          rm_authority = enforcement_authority_for namespace identifier\<rparr>)"

text \<open>\<open>yara\<close> is the scanner: the namespaces and identifiers of the matching rules, or a failure.\<close>

definition rules_scan :: "('r \<Rightarrow> bytes \<Rightarrow> (string \<times> string) list option) \<Rightarrow> 'r rule_engine \<Rightarrow> bytes \<Rightarrow> rule_match list option" where
  "rules_scan yara e bs = map_option (map (rule_match_of (re_policies e))) (yara (re_rules e) bs)"

section \<open>What a downloaded bundle can and cannot do\<close>

lemma namespace_no_separator:
  assumes "validate_namespace ns"
  shows "CHR 0x00 \<notin> set ns"
  using assms by (auto simp: validate_namespace_def is_namespace_char_def is_ascii_alphanumeric_def byte_of_def list_all_iff)

text \<open>Keys of different namespaces differ, because a namespace has no zero character.\<close>

lemma policy_key_inject:
  assumes "CHR 0x00 \<notin> set ns" and "CHR 0x00 \<notin> set ns'" and "policy_key ns i = policy_key ns' i'"
  shows "ns = ns' \<and> i = i'"
proof -
  have "takeWhile (\<lambda>c. c \<noteq> CHR 0x00) (policy_key n j) = n" if "CHR 0x00 \<notin> set n" for n j
    using that by (induction n) (auto simp: policy_key_def)
  with assms have "ns = ns'" by metis
  with assms(3) show ?thesis by (simp add: policy_key_def)
qed

lemma insert_policies_other:
  assumes "validate_namespace (rb_namespace b)" and "rb_namespace b \<noteq> ns" and "CHR 0x00 \<notin> set ns"
  shows "hm_get (insert_policies b m) (policy_key ns i) = hm_get m (policy_key ns i)"
proof -
  have "policy_key ns i \<noteq> policy_key (rb_namespace b) j" for j
    using policy_key_inject [of ns "rb_namespace b" i j] assms namespace_no_separator by blast
  then have "hm_get (foldl (\<lambda>m p. hm_insert (policy_key (rb_namespace b) (rp_identifier p)) (f p) m) m ps) (policy_key ns i) =
      hm_get m (policy_key ns i)" for ps f
    by (induction ps arbitrary: m) simp_all
  then show ?thesis by (simp add: insert_policies_def)
qed

lemma builtin_namespace_valid: "CHR 0x00 \<notin> set BUILTIN_NAMESPACE"
  by (simp add: BUILTIN_NAMESPACE_def)

lemma add_bundles_builtin:
  assumes "add_bundles compiles bundles sources m = Some (sources', m')"
    and "list_all (\<lambda>b. rb_namespace b \<noteq> BUILTIN_NAMESPACE) bundles"
  shows "hm_get m' (policy_key BUILTIN_NAMESPACE i) = hm_get m (policy_key BUILTIN_NAMESPACE i)"
  using assms
proof (induction compiles bundles sources m rule: add_bundles.induct)
  case (2 compiles b bs sources m)
  then show ?case
    by (auto simp: Let_def insert_policies_other builtin_namespace_valid split: if_splits)
qed simp

definition capped :: "(string \<times> rule_policy) list \<Rightarrow> bool" where
  "capped m \<longleftrightarrow> (\<forall>k p. hm_get m k = Some p \<longrightarrow> rp_risk_score p \<le> 100)"

lemma capped_insert: "capped m \<Longrightarrow> rp_risk_score p \<le> 100 \<Longrightarrow> capped (hm_insert k p m)"
  by (simp add: capped_def)

lemma capped_insert_policies: "capped m \<Longrightarrow> capped (insert_policies b m)"
proof -
  have "capped m \<Longrightarrow> capped (foldl (\<lambda>m p. hm_insert (f p) (p\<lparr>rp_risk_score := min (rp_risk_score p) 100\<rparr>) m) m ps)" for f ps
    by (induction ps arbitrary: m) (simp_all add: capped_insert)
  then show "capped m \<Longrightarrow> capped (insert_policies b m)" by (simp add: insert_policies_def)
qed

lemma capped_add_bundles:
  "add_bundles compiles bundles sources m = Some (sources', m') \<Longrightarrow> capped m \<Longrightarrow> capped m'"
  by (induction compiles bundles sources m rule: add_bundles.induct)
    (auto simp: Let_def capped_insert_policies split: if_splits)

lemma capped_builtin: "capped builtin_policies"
  by (auto simp: capped_def builtin_policies_def builtin_policy_def hm_get_collect split: if_splits)


definition example_bundle :: rule_bundle where
  "example_bundle = \<lparr>rb_namespace = ''ext'', rb_source = ''rule r'',
     rb_policies = [\<lparr>rp_identifier = ''r'', rp_disposition = MaliciousRule, rp_risk_score = 250, rp_threat_name = ''Bad''\<rparr>]\<rparr>"

definition example_policies :: "(string \<times> rule_policy) list" where
  "example_policies = insert_policies example_bundle builtin_policies"


end
