(* ===== verification/Engine_Text.thy ===== *)
theory Engine_Text
  imports Engine_Types Unicode Search
begin

text \<open>
  The text side of \<^verbatim>\<open>src/engine.rs\<close>: decoding a sample that looks like text, naming its script
  language, and the searches the heuristics are built from. A \<^verbatim>\<open>String\<close> is its UTF-8 bytes, so the
  byte offsets of \<^verbatim>\<open>match_indices\<close> are list positions. The lemmas show that the window search of
  \<^verbatim>\<open>near\<close> finds exactly the pairs of occurrences that lie close together.
\<close>

section \<open>Decoding\<close>

definition looks_utf16_le :: "bytes \<Rightarrow> bool" where
  "looks_utf16_le bs =
     (if length bs < 8 then False
      else let pairs = take 256 (u16_units bs);
               total = length pairs;
               zero_high = length (filter (\<lambda>u. u div 256 = 0 \<and> u mod 256 \<noteq> 0) pairs)
           in total \<ge> 4 \<and> zero_high * 100 div total \<ge> 60)"

text \<open>A text is given by its code points here.\<close>

definition is_probable_text :: "nat list \<Rightarrow> bool" where
  "is_probable_text cs =
     (if cs = [] then True
      else let seen = take 4096 cs;
               acceptable = length (filter (\<lambda>c. \<not> is_control_char c \<or> c \<in> {10, 13, 9}) seen);
               total = length seen
           in total \<noteq> 0 \<and> acceptable * 100 div total \<ge> 90)"

definition decode_probable_text :: "bytes \<Rightarrow> bytes option" where
  "decode_probable_text bs =
     (if bs = [] then Some []
      else if starts_with bs [0xFF, 0xFE] \<or> looks_utf16_le bs then
        (let start = (if starts_with bs [0xFF, 0xFE] then 1 else 0) * 2;
             cs = from_utf16_lossy (u16_units (drop start bs))
         in if is_probable_text cs then Some (string_of_chars cs) else None)
      else case utf8_chars bs of
        None \<Rightarrow> None
      | Some cs \<Rightarrow>
          let cs = dropWhile (\<lambda>c. c = 0xFEFF) cs in
          if is_probable_text cs then Some (string_of_chars cs) else None)"

definition lowercase :: "bytes \<Rightarrow> bytes" where
  "lowercase = map to_ascii_lowercase"

section \<open>Script languages\<close>

definition contains_any :: "bytes \<Rightarrow> string list \<Rightarrow> bool" where
  "contains_any hay needles = list_ex (\<lambda>n. contains_bytes hay (bytes_of n)) needles"

text \<open>\<^verbatim>\<open>lines().next()\<close>: up to the line feed, less a carriage return in front of it.\<close>

definition first_line :: "bytes \<Rightarrow> bytes" where
  "first_line s =
     (let l = takeWhile (\<lambda>b. b \<noteq> 10) s in
      if length l < length s \<and> l \<noteq> [] \<and> last l = 13 then butlast l else l)"

definition identify_script_language :: "bytes \<Rightarrow> script_language option" where
  "identify_script_language lower =
     (if starts_with lower (bytes_of ''#!'') then
        (let line = first_line lower in
         if contains_bytes line (bytes_of ''powershell'') \<or> contains_bytes line (bytes_of ''pwsh'')
         then Some PowerShell
         else if contains_bytes line (bytes_of ''python'') then Some Python
         else if contains_bytes line (bytes_of ''sh'') then Some Shell
         else Some Generic)
      else if contains_any lower [''invoke-expression'', ''invoke-webrequest'', ''write-output'', ''new-object '',
          ''get-childitem'', ''set-executionpolicy'', ''$env:'', ''param('']
      then Some PowerShell
      else if contains_any lower [''@echo off'', ''setlocal'', ''%~dp0'', ''cmd.exe /c''] then Some Batch
      else if contains_any lower [''wscript.createobject'', ''createobject('' @ [CHR 0x22] @ ''wscript'',
          ''sub main'', ''end sub'']
      then Some VisualBasic
      else if contains_any lower [''function '', ''=>'', ''document.'', ''require('', ''wscript.''] \<and>
          contains_any lower [''var '', ''let '', ''const '', ''function '', ''wscript.'']
      then Some JavaScript
      else None)"

section \<open>Searches\<close>

definition MOST_POSITIONS :: nat where "MOST_POSITIONS = 200000"

definition near_positions :: "bytes \<Rightarrow> string list \<Rightarrow> nat list" where
  "near_positions hay needles =
     sort (take MOST_POSITIONS (concat (map (\<lambda>n. match_indices hay (bytes_of n)) needles)))"

definition near :: "bytes \<Rightarrow> string list \<Rightarrow> string list \<Rightarrow> nat \<Rightarrow> bool" where
  "near hay left right window =
     (let left = near_positions hay left; right = near_positions hay right in
      list_ex (\<lambda>at.
        let nearest = partition_point (\<lambda>other. other < at) right in
        (case get_at right nearest of Some other \<Rightarrow> other - at \<le> window | None \<Rightarrow> False) \<or>
        (case checked_sub nearest 1 of
           None \<Rightarrow> False
         | Some before \<Rightarrow> (case get_at right before of Some other \<Rightarrow> at - other \<le> window | None \<Rightarrow> False)))
        left)"

text \<open>\<^verbatim>\<open>str::split\<close> by a test on characters, and the test that separates base-64 tokens.\<close>

fun split_by :: "('a \<Rightarrow> bool) \<Rightarrow> 'a list \<Rightarrow> 'a list list" where
  "split_by P [] = [[]]"
| "split_by P (x # xs) =
     (if P x then [] # split_by P xs
      else case split_by P xs of [] \<Rightarrow> [[x]] | t # ts \<Rightarrow> (x # t) # ts)"

definition is_base64_byte :: "byte \<Rightarrow> bool" where
  "is_base64_byte b \<longleftrightarrow> is_ascii_alphanumeric b \<or> b = 0x2B \<or> b = 0x2F \<or> b = 0x3D"

definition contains_long_base64_token :: "bytes \<Rightarrow> nat \<Rightarrow> bool" where
  "contains_long_base64_token s minimum_length =
     list_ex (\<lambda>token. length token \<ge> minimum_length \<and> length token mod 4 = 0 \<and> list_all is_base64_byte token)
       (split_by (\<lambda>b. \<not> is_base64_byte b) s)"

definition find_subslice :: "bytes \<Rightarrow> bytes \<Rightarrow> nat option" where
  "find_subslice hay needle =
     (case filter (\<lambda>i. slice hay i (i + length needle) = needle)
             (if length needle \<le> length hay then [0..<length hay + 1 - length needle] else []) of
        [] \<Rightarrow> None
      | i # _ \<Rightarrow> Some i)"

section \<open>What the searches find\<close>

definition occurs_at :: "bytes \<Rightarrow> bytes \<Rightarrow> nat \<Rightarrow> bool" where
  "occurs_at hay needle i \<longleftrightarrow> starts_with (drop i hay) needle"

text \<open>No proper prefix of the needle is also a suffix, so its occurrences cannot overlap.\<close>

definition unbordered :: "bytes \<Rightarrow> bool" where
  "unbordered n \<longleftrightarrow> n \<noteq> [] \<and> list_all (\<lambda>k. drop k n \<noteq> take (length n - k) n) [1..<length n]"

lemma occurs_at_bound: "occurs_at hay needle i \<Longrightarrow> needle \<noteq> [] \<Longrightarrow> i < length hay"
  by (rule ccontr) (simp add: occurs_at_def starts_with_def)

lemma occurs_at_Cons: "occurs_at (b # bs) needle (Suc i) \<longleftrightarrow> occurs_at bs needle i"
  by (simp add: occurs_at_def)

lemma occurs_at_drop: "occurs_at (drop k hay) needle i \<longleftrightarrow> occurs_at hay needle (k + i)"
  by (simp add: occurs_at_def add.commute)

lemma unbordered_gap:
  assumes "unbordered n" "starts_with hay n" "0 < j" "j < length n"
  shows "\<not> occurs_at hay n j"
proof
  assume "occurs_at hay n j"
  then have "take (length n - j) (take (length n) (drop j hay)) = take (length n - j) n"
    by (simp add: occurs_at_def starts_with_def)
  moreover have "drop j (take (length n) hay) = drop j n"
    using assms(2) by (simp add: starts_with_def)
  ultimately have "drop j n = take (length n - j) n" by (simp add: drop_take min_def)
  moreover have "j \<in> set [1..<length n]" using assms by simp
  ultimately show False using assms(1) unfolding unbordered_def list_all_iff by blast
qed

lemma match_indices_from_exact:
  assumes "unbordered n"
  shows "set (match_indices_from k hay n) = {k + i |i. occurs_at hay n i}"
  using assms
proof (induction k hay n rule: match_indices_from.induct)
  case (1 k hay n)
  note unfold = match_indices_from.simps [of k hay n]
  have n: "n \<noteq> []" using "1.prems" by (simp add: unbordered_def)
  consider "hay = []" | "hay \<noteq> []" "starts_with hay n" | "hay \<noteq> []" "\<not> starts_with hay n" by blast
  then show ?case
  proof cases
    case 1
    with n show ?thesis by (auto simp: match_indices_from.simps [of k "[]" n] dest: occurs_at_bound)
  next
    case 2
    have "occurs_at hay n i \<longleftrightarrow> i = 0 \<or> (\<exists>j. i = length n + j \<and> occurs_at (drop (length n) hay) n j)" for i
    proof (cases "i < length n")
      case True
      then show ?thesis
        using 2(2) unbordered_gap [OF "1.prems" 2(2), of i] by (cases "i = 0") (auto simp: occurs_at_def)
    next
      case False
      then show ?thesis using n by (auto simp: occurs_at_drop le_iff_add not_less)
    qed
    then have "{k + i |i. occurs_at hay n i} =
        insert k {k + length n + j |j. occurs_at (drop (length n) hay) n j}"
      by (auto simp: add.assoc)
    with 2 n "1.IH"(1) "1.prems" show ?thesis by (simp add: unfold)
  next
    case 3
    then have "occurs_at hay n i \<longleftrightarrow> (\<exists>j. i = Suc j \<and> occurs_at (tl hay) n j)" for i
      by (cases hay; cases i) (auto simp: occurs_at_def)
    then have "{k + i |i. occurs_at hay n i} = {k + 1 + j |j. occurs_at (tl hay) n j}" by auto
    with 3 n "1.IH"(2) "1.prems" show ?thesis by (simp add: unfold)
  qed
qed

lemma match_indices_exact: "unbordered n \<Longrightarrow> set (match_indices hay n) = {i. occurs_at hay n i}"
  by (simp add: match_indices_def match_indices_from_exact)

lemma near_positions_exact:
  assumes "list_all (unbordered \<circ> bytes_of) needles"
    and "length (concat (map (\<lambda>n. match_indices hay (bytes_of n)) needles)) \<le> MOST_POSITIONS"
  shows "set (near_positions hay needles) = {i. \<exists>n \<in> set needles. occurs_at hay (bytes_of n) i}"
  using assms by (auto simp: near_positions_def list_all_iff match_indices_exact)

text \<open>On sorted positions, looking at both neighbours of the insertion point is enough.\<close>

lemma neighbour_exact:
  fixes window :: nat
  assumes "sorted xs"
  shows "(let k = partition_point (\<lambda>o'. o' < at) xs in
      (case get_at xs k of Some other \<Rightarrow> other - at \<le> window | None \<Rightarrow> False) \<or>
      (case checked_sub k 1 of None \<Rightarrow> False
       | Some before \<Rightarrow> (case get_at xs before of Some other \<Rightarrow> at - other \<le> window | None \<Rightarrow> False)))
    \<longleftrightarrow> (\<exists>other \<in> set xs. other \<le> at + window \<and> at \<le> other + window)"
    (is "?found \<longleftrightarrow> ?close")
proof -
  define k where "k = length (takeWhile (\<lambda>o'. o' < at) xs)"
  have below: "xs ! i < at" if "i < k" for i
    using that nth_mem [of i "takeWhile (\<lambda>o'. o' < at) xs"] set_takeWhileD [of "xs ! i" _ xs]
    by (metis k_def takeWhile_nth)
  have above: "at \<le> xs ! k" if "k < length xs"
    using that nth_length_takeWhile [of "\<lambda>o'. o' < at" xs] by (simp add: k_def not_less)
  have le: "k \<le> length xs" by (simp add: k_def length_takeWhile_le)
  have found: "?found \<longleftrightarrow> (k < length xs \<and> xs ! k - at \<le> window) \<or> (0 < k \<and> at - xs ! (k - 1) \<le> window)"
    using le by (auto simp: partition_point_def Let_def checked_sub_def get_at_def simp flip: k_def)
  show ?thesis
  proof
    assume ?found
    then consider "k < length xs" "xs ! k - at \<le> window" | "0 < k" "at - xs ! (k - 1) \<le> window"
      unfolding found by blast
    then show ?close
    proof cases
      case 1
      then show ?thesis using above by (intro bexI [of _ "xs ! k"]) auto
    next
      case 2
      then have "xs ! (k - 1) < at" "k - 1 < length xs" using below [of "k - 1"] le by simp_all
      then show ?thesis using 2 by (intro bexI [of _ "xs ! (k - 1)"]) auto
    qed
  next
    assume ?close
    then obtain i where i: "i < length xs" "xs ! i \<le> at + window" "at \<le> xs ! i + window"
      by (auto simp: in_set_conv_nth)
    show ?found
    proof (cases "i < k")
      case True
      then have "xs ! i \<le> xs ! (k - 1)" using le assms by (intro sorted_nth_mono) auto
      then show ?thesis using i True unfolding found by auto
    next
      case False
      then have "k < length xs" "xs ! k \<le> xs ! i" using i assms by (auto intro: sorted_nth_mono)
      then show ?thesis using i unfolding found by auto
    qed
  qed
qed

text \<open>
  The window search \<^verbatim>\<open>near\<close> is exact: for needles that cannot overlap themselves (all the
  needles of the heuristics are of this kind) and fewer than 200000 occurrences on each side, it
  answers yes exactly when some needle of the left list and some needle of the right list occur
  in the text at positions at most the window apart.
\<close>

theorem near_exact:
  assumes "list_all (unbordered \<circ> bytes_of) left" and "list_all (unbordered \<circ> bytes_of) right"
    and "length (concat (map (\<lambda>n. match_indices hay (bytes_of n)) left)) \<le> MOST_POSITIONS"
    and "length (concat (map (\<lambda>n. match_indices hay (bytes_of n)) right)) \<le> MOST_POSITIONS"
  shows "near hay left right window \<longleftrightarrow>
    (\<exists>l \<in> set left. \<exists>r \<in> set right. \<exists>i j. occurs_at hay (bytes_of l) i \<and> occurs_at hay (bytes_of r) j \<and>
       i \<le> j + window \<and> j \<le> i + window)"
proof -
  have sorted: "sorted (near_positions hay right)" by (simp add: near_positions_def)
  show ?thesis
    unfolding near_def Let_def list_ex_iff neighbour_exact [OF sorted, unfolded Let_def]
      near_positions_exact [OF assms(1,3)] near_positions_exact [OF assms(2,4)]
    by blast
qed

lemma example_occurrences:
  "match_indices (bytes_of ''eval(http://'') (bytes_of ''eval('') = [0]"
  "match_indices (bytes_of ''eval(http://'') (bytes_of ''http://'') = [5]"
  by (simp_all add: match_indices_def match_indices_from.simps bytes_of_def byte_of_def starts_with_def)

theorem near_exact_witness:
  "near (bytes_of ''eval(http://'') [''eval(''] [''http://''] 600 \<longleftrightarrow>
    (\<exists>l \<in> set [''eval('']. \<exists>r \<in> set [''http://'']. \<exists>i j. occurs_at (bytes_of ''eval(http://'') (bytes_of l) i \<and>
       occurs_at (bytes_of ''eval(http://'') (bytes_of r) j \<and> i \<le> j + 600 \<and> j \<le> i + 600)"
proof (rule near_exact)
  show "list_all (unbordered \<circ> bytes_of) [''eval('']" "list_all (unbordered \<circ> bytes_of) [''http://'']"
    by (simp_all add: unbordered_def bytes_of_def byte_of_def upt_rec)
qed (simp_all add: example_occurrences MOST_POSITIONS_def)

end
