(* ===== verification/Entropy.thy ===== *)
theory Entropy
  imports Complex_Main Prelude
begin

text \<open>
  The byte entropy of \<^verbatim>\<open>src/engine.rs\<close>, over the real numbers: \<^verbatim>\<open>f64\<close> rounding is not modelled, the
  threshold 7.35 is far coarser than it. Counting is the loop of the source; the lemmas show that
  the result lies between 0 and 8 bits, so the threshold is a test that can go both ways.
\<close>

section \<open>Model\<close>

definition HIGH_ENTROPY_THRESHOLD :: real where "HIGH_ENTROPY_THRESHOLD = 735 / 100"

definition byte_frequencies :: "bytes \<Rightarrow> nat list" where
  "byte_frequencies bs = foldl (\<lambda>f b. f[unat b := f ! unat b + 1]) (replicate 256 0) bs"

definition shannon_entropy :: "bytes \<Rightarrow> real" where
  "shannon_entropy bs =
     (if bs = [] then 0
      else sum_list (map (\<lambda>count. let probability = real count / real (length bs) in - probability * log 2 probability)
             (filter (\<lambda>count. count \<noteq> 0) (byte_frequencies bs))))"

section \<open>Bounds\<close>

lemma length_byte_frequencies [simp]: "length (byte_frequencies bs) = 256"
proof -
  have "length (foldl (\<lambda>f b. f[unat b := f ! unat b + 1]) f bs) = length f" for f :: "nat list"
    by (induction bs arbitrary: f) simp_all
  then show ?thesis by (simp add: byte_frequencies_def)
qed

lemma sum_list_increment: "i < length f \<Longrightarrow> sum_list (f[i := Suc (f ! i)]) = Suc (sum_list f)"
  using member_le_sum_list [of "f ! i" f] by (simp add: sum_list_update)

lemma sum_list_nonzero: "sum_list (filter (\<lambda>c. c \<noteq> 0) xs) = sum_list (xs :: nat list)"
  by (induction xs) auto

lemma sum_byte_frequencies: "sum_list (byte_frequencies bs) = length bs"
proof -
  have "length f = 256 \<Longrightarrow> sum_list (foldl (\<lambda>f b. f[unat b := f ! unat b + 1]) f bs) = sum_list f + length bs" for f :: "nat list"
    by (induction bs arbitrary: f) (simp_all add: sum_list_increment)
  then show ?thesis by (simp add: byte_frequencies_def sum_list_replicate)
qed

text \<open>One symbol's share, against the tangent of the logarithm at the uniform distribution.\<close>

lemma entropy_term_nonneg: "0 < p \<Longrightarrow> p \<le> 1 \<Longrightarrow> 0 \<le> - p * log 2 (p :: real)"
  by (simp add: mult_nonneg_nonpos)

lemma entropy_term_upper:
  assumes "0 < (p :: real)"
  shows "- p * log 2 p \<le> 8 * p + (1 / 256 - p) / ln 2"
proof -
  have "ln (1 / (256 * p)) \<le> 1 / (256 * p) - 1" using assms by (intro ln_le_minus_one) simp
  then have "p * ln (1 / (256 * p)) \<le> p * (1 / (256 * p) - 1)" using assms by simp
  then have "p * ln (1 / (256 * p)) \<le> 1 / 256 - p" using assms by (simp add: algebra_simps)
  then have "p * ln (1 / (256 * p)) / ln 2 \<le> (1 / 256 - p) / ln 2" by (simp add: divide_right_mono)
  moreover have "ln (1 / (256 * p)) = - (8 * ln 2) - ln p"
    using assms ln_realpow [of 2 8] by (simp add: ln_div ln_mult)
  moreover have "- p * log 2 p = 8 * p + p * (- (8 * ln 2) - ln p) / ln 2"
    by (simp add: log_def field_simps)
  ultimately show ?thesis by simp
qed

text \<open>
  The entropy of any byte string lies between 0 and 8 bits per byte.
\<close>

theorem shannon_entropy_bounds: "0 \<le> shannon_entropy bs \<and> shannon_entropy bs \<le> 8"
proof (cases "bs = []")
  case False
  define n where "n = real (length bs)"
  define cs where "cs = filter (\<lambda>count. count \<noteq> 0) (byte_frequencies bs)"
  have n: "0 < n" using False by (simp add: n_def)
  have H: "shannon_entropy bs = (\<Sum>c\<leftarrow>cs. - (real c / n) * log 2 (real c / n))"
    using False by (simp add: shannon_entropy_def cs_def n_def Let_def)
  have "sum_list cs = sum_list (byte_frequencies bs)"
    unfolding cs_def by (rule sum_list_nonzero)
  then have total: "sum_list cs = length bs" by (simp add: sum_byte_frequencies)
  have p: "0 < real c / n" "real c / n \<le> 1" if "c \<in> set cs" for c
    using that n member_le_sum_list [of c cs] total by (auto simp: cs_def n_def divide_le_eq_1)
  have "0 \<le> shannon_entropy bs"
    unfolding H using p entropy_term_nonneg by (intro sum_list_nonneg) fastforce
  moreover have "shannon_entropy bs \<le> (\<Sum>c\<leftarrow>cs. 8 * (real c / n) + (1 / 256 - real c / n) / ln 2)"
    unfolding H using p by (intro sum_list_mono entropy_term_upper)
  moreover have "(\<Sum>c\<leftarrow>cs. 8 * (real c / n) + (1 / 256 - real c / n) / ln 2) =
      8 * (real (sum_list cs) / n) + (real (length cs) / 256 - real (sum_list cs) / n) / ln 2"
    by (induction cs) (simp_all add: add_divide_distrib diff_divide_distrib distrib_left)
  moreover have "(real (length cs) / 256 - 1) / ln 2 \<le> 0"
    using length_filter_le [of _ "byte_frequencies bs"] by (simp add: cs_def divide_le_0_iff)
  ultimately show ?thesis using n by (simp add: total n_def)
qed (simp add: shannon_entropy_def)

end
