(* ===== verification/Lnk.thy ===== *)
theory Lnk
  imports Unicode
begin

text \<open>
  Windows shortcuts, \<^verbatim>\<open>src/lnk.rs\<close>: the header test, the cursor with its checked reads, and the parser
  that extracts what a shortcut runs. A cursor is the position in the bytes, passed along. The
  lemmas show that a shortcut written in the format parses back to its target and arguments.
\<close>

section \<open>Model\<close>

definition HEADER_SIZE :: nat where "HEADER_SIZE = 0x4c"

definition SHELL_LINK_CLSID :: bytes where
  "SHELL_LINK_CLSID = [0x01, 0x14, 0x02, 0x00, 0x00, 0x00, 0x00, 0x00, 0xc0, 0x00, 0x00, 0x00, 0x00, 0x00, 0x00, 0x46]"

text \<open>The flags, by bit number.\<close>

definition HAS_TARGET_ID_LIST :: nat where "HAS_TARGET_ID_LIST = 0"
definition HAS_LINK_INFO :: nat where "HAS_LINK_INFO = 1"
definition HAS_NAME :: nat where "HAS_NAME = 2"
definition HAS_RELATIVE_PATH :: nat where "HAS_RELATIVE_PATH = 3"
definition HAS_WORKING_DIR :: nat where "HAS_WORKING_DIR = 4"
definition HAS_ARGUMENTS :: nat where "HAS_ARGUMENTS = 5"
definition HAS_ICON_LOCATION :: nat where "HAS_ICON_LOCATION = 6"
definition IS_UNICODE :: nat where "IS_UNICODE = 7"

definition SHOW_MINIMIZED :: "nat list" where "SHOW_MINIMIZED = [2, 7]"

lemmas lnk_consts =
  HEADER_SIZE_def SHELL_LINK_CLSID_def HAS_TARGET_ID_LIST_def HAS_LINK_INFO_def HAS_NAME_def
  HAS_RELATIVE_PATH_def HAS_WORKING_DIR_def HAS_ARGUMENTS_def HAS_ICON_LOCATION_def IS_UNICODE_def
  SHOW_MINIMIZED_def

definition has_flag :: "nat \<Rightarrow> nat \<Rightarrow> bool" where
  "has_flag flags k \<longleftrightarrow> odd (flags div 2 ^ k)"

record shortcut =
  sc_target :: bytes
  sc_arguments :: bytes
  sc_minimized :: bool

definition is_shortcut :: "bytes \<Rightarrow> bool" where
  "is_shortcut bs \<longleftrightarrow>
     length bs \<ge> HEADER_SIZE \<and> starts_with bs [word_of_nat HEADER_SIZE, 0, 0, 0] \<and>
     slice bs 4 20 = SHELL_LINK_CLSID"

definition cursor_take :: "bytes \<Rightarrow> nat \<Rightarrow> nat \<Rightarrow> (bytes \<times> nat) option" where
  "cursor_take bs at len =
     do { en \<leftarrow> checked_add usize_max at len;
          s \<leftarrow> get_range bs at en;
          Some (s, en) }"

definition cursor_u16 :: "bytes \<Rightarrow> nat \<Rightarrow> (nat \<times> nat) option" where
  "cursor_u16 bs at = do { (s, at) \<leftarrow> cursor_take bs at 2; Some (u16_of_le s, at) }"

definition cursor_u32 :: "bytes \<Rightarrow> nat \<Rightarrow> (nat \<times> nat) option" where
  "cursor_u32 bs at = do { (s, at) \<leftarrow> cursor_take bs at 4; Some (u32_of_le s, at) }"

text \<open>\<^verbatim>\<open>char::from(byte)\<close> is the code point with the byte's value.\<close>

definition latin1 :: "bytes \<Rightarrow> bytes" where
  "latin1 bs = string_of_chars (map unat bs)"

definition cursor_string :: "bytes \<Rightarrow> bool \<Rightarrow> nat \<Rightarrow> (bytes \<times> nat) option" where
  "cursor_string bs unicode at =
     do { (characters, at) \<leftarrow> cursor_u16 bs at;
          if unicode then
            do { (raw, at) \<leftarrow> cursor_take bs at (characters * 2);
                 Some (string_of_chars (from_utf16_lossy (u16_units raw)), at) }
          else
            do { (raw, at) \<leftarrow> cursor_take bs at characters;
                 Some (latin1 raw, at) } }"

definition local_base_path :: "bytes \<Rightarrow> bytes option" where
  "local_base_path info =
     do { raw \<leftarrow> get_range info 8 12;
          if even (u32_of_le raw) then None
          else do {
            raw \<leftarrow> get_range info 16 20;
            let at = u32_of_le raw in
            if at > length info then None
            else Some (latin1 (takeWhile (\<lambda>b. b \<noteq> 0) (drop at info))) } }"

text \<open>An optional string: read when its flag is set.\<close>

definition flagged_string :: "bytes \<Rightarrow> nat \<Rightarrow> nat \<Rightarrow> nat \<Rightarrow> (bytes \<times> nat) option" where
  "flagged_string bs flags k at =
     (if has_flag flags k then cursor_string bs (has_flag flags IS_UNICODE) at else Some ([], at))"

definition skip_id_list :: "bytes \<Rightarrow> nat \<Rightarrow> nat \<Rightarrow> nat option" where
  "skip_id_list bs flags at =
     (if has_flag flags HAS_TARGET_ID_LIST then
        do { (sz, at) \<leftarrow> cursor_u16 bs at; (_, at) \<leftarrow> cursor_take bs at sz; Some at }
      else Some at)"

definition read_link_info :: "bytes \<Rightarrow> nat \<Rightarrow> nat \<Rightarrow> (bytes \<times> nat) option" where
  "read_link_info bs flags start =
     (if has_flag flags HAS_LINK_INFO then
        do { (sz, _) \<leftarrow> cursor_u32 bs start;
             en \<leftarrow> checked_add usize_max start sz;
             info \<leftarrow> get_range bs start en;
             Some (case local_base_path info of None \<Rightarrow> [] | Some p \<Rightarrow> p, start + sz) }
      else Some ([], start))"

definition lnk_parse :: "bytes \<Rightarrow> shortcut option" where
  "lnk_parse bs =
     (if \<not> is_shortcut bs then None
      else do {
        let flags = u32_of_le (slice bs 20 24);
        let show = u32_of_le (slice bs 60 64);
        at \<leftarrow> skip_id_list bs flags HEADER_SIZE;
        (target, at) \<leftarrow> read_link_info bs flags at;
        (_, at) \<leftarrow> flagged_string bs flags HAS_NAME at;
        (relative, at) \<leftarrow> flagged_string bs flags HAS_RELATIVE_PATH at;
        (_, at) \<leftarrow> flagged_string bs flags HAS_WORKING_DIR at;
        (arguments, at) \<leftarrow> flagged_string bs flags HAS_ARGUMENTS at;
        Some \<lparr>sc_target = (if target = [] then relative else target), sc_arguments = arguments,
              sc_minimized = (show \<in> set SHOW_MINIMIZED)\<rparr> })"

section \<open>Writing a shortcut\<close>

definition u16_to_le :: "nat \<Rightarrow> bytes" where
  "u16_to_le n = [mk_byte (n mod 256), mk_byte (n div 256 mod 256)]"

definition u32_to_le :: "nat \<Rightarrow> bytes" where
  "u32_to_le n = [mk_byte (n mod 256), mk_byte (n div 256 mod 256), mk_byte (n div 65536 mod 256),
     mk_byte (n div 16777216 mod 256)]"

definition utf16_encode :: "nat \<Rightarrow> nat list" where
  "utf16_encode c =
     (if c < 0x10000 then [c]
      else [0xD800 + (c - 0x10000) div 0x400, 0xDC00 + (c - 0x10000) mod 0x400])"

definition write_string :: "nat list \<Rightarrow> bytes" where
  "write_string cs =
     (let us = concat (map utf16_encode cs) in u16_to_le (length us) @ concat (map u16_to_le us))"

text \<open>A shortcut with a relative path and arguments, both in UTF-16.\<close>

definition lnk_write :: "nat list \<Rightarrow> nat list \<Rightarrow> nat \<Rightarrow> bytes" where
  "lnk_write relative arguments show =
     u32_to_le HEADER_SIZE @ SHELL_LINK_CLSID @ u32_to_le (2 ^ HAS_RELATIVE_PATH + 2 ^ HAS_ARGUMENTS + 2 ^ IS_UNICODE) @
     replicate 36 0 @ u32_to_le show @ replicate 12 0 @ write_string relative @ write_string arguments"

lemma u16_of_to_le: "n < 65536 \<Longrightarrow> u16_of_le (u16_to_le n) = n"
  by (simp add: u16_of_le_def u16_to_le_def unat_mk_byte)

lemma u32_of_to_le:
  assumes "n < 4294967296"
  shows "u32_of_le (u32_to_le n) = n"
proof -
  have "n = n mod 256 + 256 * (n div 256)" by simp
  moreover have "n div 256 = n div 256 mod 256 + 256 * (n div 65536)"
    using mod_mult_div_eq [of "n div 256" 256] div_mult2_eq [of n 256 256] by simp
  moreover have "n div 65536 = n div 65536 mod 256 + 256 * (n div 16777216)"
    using mod_mult_div_eq [of "n div 65536" 256] div_mult2_eq [of n 65536 256] by simp
  moreover have "n div 16777216 mod 256 = n div 16777216" using assms by simp
  ultimately have "n mod 256 + 256 * (n div 256 mod 256) + 65536 * (n div 65536 mod 256) +
      16777216 * (n div 16777216 mod 256) = n" by linarith
  moreover have "unat (mk_byte (x mod 256)) = x mod 256" for x by (simp add: unat_mk_byte)
  ultimately show ?thesis
    by (simp only: u32_of_le_def u32_to_le_def One_nat_def numeral_2_eq_2 numeral_3_eq_3 nth_Cons_0 nth_Cons_Suc)
qed

lemma from_utf16_lossy_encode:
  assumes "is_scalar c"
  shows "from_utf16_lossy (utf16_encode c @ us) = c # from_utf16_lossy us"
proof (cases "c < 0x10000")
  case True
  then show ?thesis using assms by (cases us) (auto simp: utf16_encode_def is_scalar_def)
next
  case False
  let ?d = "c - 0x10000"
  have "?d < 0x100000" using assms False by (auto simp: is_scalar_def)
  then have "?d div 0x400 < 0x400" "?d mod 0x400 < 0x400" by auto
  moreover have "?d div 0x400 * 0x400 + ?d mod 0x400 = ?d" by (rule div_mult_mod_eq)
  ultimately show ?thesis using False by (simp add: utf16_encode_def)
qed

lemma from_utf16_lossy_encode_all:
  "list_all is_scalar cs \<Longrightarrow> from_utf16_lossy (concat (map utf16_encode cs)) = cs"
  by (induction cs) (simp_all add: from_utf16_lossy_encode)

lemma utf16_encode_bound: "is_scalar c \<Longrightarrow> u \<in> set (utf16_encode c) \<Longrightarrow> u < 65536"
  by (auto simp: utf16_encode_def is_scalar_def split: if_splits)

lemma u16_units_write: "\<forall>u \<in> set us. u < 65536 \<Longrightarrow> u16_units (concat (map u16_to_le us)) = us"
proof (induction us)
  case (Cons u us)
  then have "u div 256 < 256" by (auto intro: less_mult_imp_div_less)
  then have "u div 256 mod 256 = u div 256" by simp
  moreover have "u mod 256 + 256 * (u div 256) = u" by simp
  ultimately show ?case using Cons by (simp add: u16_to_le_def unat_mk_byte)
qed simp

lemma length_write_units [simp]: "length (concat (map u16_to_le us)) = 2 * length us"
  by (induction us) (simp_all add: u16_to_le_def)

lemma cursor_take_append:
  "length (pre @ s @ post) \<le> usize_max \<Longrightarrow> at = length pre \<Longrightarrow> n = length s \<Longrightarrow>
     cursor_take (pre @ s @ post) at n = Some (s, at + n)"
  by (simp add: cursor_take_def checked_add_def get_range_def)

lemma cursor_string_write:
  assumes small: "length (pre @ write_string cs @ post) \<le> usize_max" and cs: "list_all is_scalar cs"
    and units: "length (concat (map utf16_encode cs)) < 65536" and at: "at = length pre"
  shows "cursor_string (pre @ write_string cs @ post) True at =
    Some (string_of_chars cs, at + length (write_string cs))"
proof -
  let ?us = "concat (map utf16_encode cs)"
  let ?bs = "pre @ write_string cs @ post"
  have w: "write_string cs = u16_to_le (length ?us) @ concat (map u16_to_le ?us)" by (simp add: write_string_def Let_def)
  have "cursor_take ?bs at 2 = Some (u16_to_le (length ?us), at + 2)"
    using cursor_take_append [of pre "u16_to_le (length ?us)" "concat (map u16_to_le ?us) @ post" at 2] small at
    by (simp add: w u16_to_le_def)
  then have count: "cursor_u16 ?bs at = Some (length ?us, at + 2)"
    using units by (simp add: cursor_u16_def u16_of_to_le)
  have "cursor_take ?bs (at + 2) (length ?us * 2) = Some (concat (map u16_to_le ?us), at + 2 + length ?us * 2)"
    using cursor_take_append [of "pre @ u16_to_le (length ?us)" "concat (map u16_to_le ?us)" post "at + 2" "length ?us * 2"]
      small at by (simp add: w u16_to_le_def)
  moreover have "\<forall>u \<in> set ?us. u < 65536" using cs utf16_encode_bound by (fastforce simp: list_all_iff)
  moreover have "length (write_string cs) = 2 + length ?us * 2" by (simp add: w u16_to_le_def)
  ultimately show ?thesis
    using cs by (simp add: cursor_string_def count u16_units_write from_utf16_lossy_encode_all)
qed

section \<open>Properties\<close>

text \<open>
  Reading a shortcut gives back what it runs: for any relative path and argument text of at most
  65535 UTF-16 units each, any show command and any bytes after them, the shortcut file written
  from them parses, with that target, those arguments, and the minimised flag exactly for the two
  show commands that hide the window.
\<close>

theorem lnk_parse_write:
  assumes "list_all is_scalar relative" "list_all is_scalar arguments"
    and "length (concat (map utf16_encode relative)) < 65536" "length (concat (map utf16_encode arguments)) < 65536"
    and "show < 4294967296" "length (lnk_write relative arguments show @ extra) \<le> usize_max"
  shows "lnk_parse (lnk_write relative arguments show @ extra) =
    Some \<lparr>sc_target = string_of_chars relative, sc_arguments = string_of_chars arguments,
          sc_minimized = (show = 2 \<or> show = 7)\<rparr>"
proof -
  let ?flags = "2 ^ 3 + 2 ^ 5 + 2 ^ 7 :: nat"
  let ?head = "u32_to_le HEADER_SIZE @ SHELL_LINK_CLSID @ u32_to_le ?flags @ replicate 36 0 @ u32_to_le show @ replicate 12 0"
  let ?bs = "lnk_write relative arguments show @ extra"
  have bs: "?bs = ?head @ write_string relative @ (write_string arguments @ extra)"
    by (simp add: lnk_write_def lnk_consts)
  have head: "length ?head = HEADER_SIZE" by (simp add: lnk_consts u32_to_le_def)
  have u32: "length (u32_to_le n) = 4" for n by (simp add: u32_to_le_def)
  have link: "is_shortcut ?bs"
    unfolding bs by (simp add: is_shortcut_def starts_with_def slice_def lnk_consts u32_to_le_def mk_byte_def)
  have flags: "u32_of_le (slice ?bs 20 24) = ?flags"
  proof -
    have "slice ?bs 20 24 = u32_to_le ?flags" unfolding bs by (simp add: slice_def u32 lnk_consts)
    then show ?thesis using u32_of_to_le [of ?flags] by simp
  qed
  have window: "u32_of_le (slice ?bs 60 64) = show"
  proof -
    have "slice ?bs 60 64 = u32_to_le show" unfolding bs by (simp add: slice_def u32 lnk_consts)
    then show ?thesis using u32_of_to_le assms(5) by simp
  qed
  have rel: "cursor_string ?bs True HEADER_SIZE = Some (string_of_chars relative, HEADER_SIZE + length (write_string relative))"
    using cursor_string_write [of ?head relative "write_string arguments @ extra" HEADER_SIZE] assms head bs by simp
  have args: "cursor_string ?bs True (HEADER_SIZE + length (write_string relative)) =
      Some (string_of_chars arguments, HEADER_SIZE + length (write_string relative) + length (write_string arguments))"
    using cursor_string_write [of "?head @ write_string relative" arguments extra "HEADER_SIZE + length (write_string relative)"]
      assms head bs by simp
  have bits: "has_flag ?flags k \<longleftrightarrow> k \<in> {3, 5, 7}" if "k \<in> {0, 1, 2, 3, 4, 5, 6, 7}" for k
    using that by (auto simp: has_flag_def)
  show ?thesis
    using link flags window rel args bits
    by (simp add: lnk_parse_def Let_def skip_id_list_def read_link_info_def flagged_string_def
        HAS_TARGET_ID_LIST_def HAS_LINK_INFO_def HAS_NAME_def HAS_RELATIVE_PATH_def HAS_WORKING_DIR_def
        HAS_ARGUMENTS_def IS_UNICODE_def SHOW_MINIMIZED_def)
qed

theorem lnk_parse_write_witness:
  "lnk_parse (lnk_write [99, 109, 100] [47, 99, 0x1F600] 7 @ [1, 2]) =
     Some \<lparr>sc_target = string_of_chars [99, 109, 100], sc_arguments = string_of_chars [47, 99, 0x1F600],
           sc_minimized = True\<rparr>"
proof -
  have "length (lnk_write [99, 109, 100] [47, 99, 0x1F600] 7 @ [1, 2]) = 96"
    by (simp add: lnk_write_def write_string_def utf16_encode_def u16_to_le_def u32_to_le_def lnk_consts Let_def)
  with lnk_parse_write [of "[99, 109, 100]" "[47, 99, 0x1F600]" 7 "[1, 2]"] show ?thesis
    by (simp add: is_scalar_def utf16_encode_def usize_max_def)
qed

end
