(* ===== verification/Engine_Heuristics.thy ===== *)
theory Engine_Heuristics
  imports Engine_Text Entropy Lnk
begin

text \<open>
  The executable, script and shortcut heuristics of \<^verbatim>\<open>src/engine.rs\<close>. Parsing a PE image is the
  third-party crate \<^verbatim>\<open>goblin\<close>: its result, as far as the sources read it, is the record
  \<open>pe_image\<close>, and the parser is the parameter \<open>pe_parse\<close>. The lemmas show that a file of which only the
  beginning was read is never called malformed for what lies beyond that beginning.
\<close>

unbundle bit_operations_syntax

section \<open>Executables\<close>

record pe_section =
  s_name :: "bytes option"
  s_virtual_size :: nat
  s_virtual_address :: nat
  s_size_of_raw_data :: nat
  s_pointer_to_raw_data :: nat
  s_characteristics :: "32 word"

record pe_image =
  pe_is_64 :: bool
  pe_entry :: nat
  pe_sections :: "pe_section list"
  pe_imports :: "bytes list"

definition IMAGE_SCN_MEM_EXECUTE :: "32 word" where "IMAGE_SCN_MEM_EXECUTE = 0x20000000"
definition IMAGE_SCN_MEM_WRITE :: "32 word" where "IMAGE_SCN_MEM_WRITE = 0x80000000"
definition MIN_SECTION_ENTROPY_BYTES :: nat where "MIN_SECTION_ENTROPY_BYTES = 4 * 1024"

definition is_packer_section_name :: "bytes \<Rightarrow> bool" where
  "is_packer_section_name name \<longleftrightarrow>
     name \<in> bytes_of ` {''upx0'', ''upx1'', ''upx2'', ''.upx0'', ''.upx1'', ''.packed'', ''.aspack'', ''.adata'',
       ''.vmp0'', ''.vmp1'', ''.themida''}"

text \<open>\<^verbatim>\<open>trim_matches('\0')\<close>, then lower case.\<close>

definition section_name :: "pe_section \<Rightarrow> bytes" where
  "section_name s =
     (let name = (case s_name s of None \<Rightarrow> [] | Some n \<Rightarrow> n) in
      lowercase (rev (dropWhile (\<lambda>b. b = 0) (rev (dropWhile (\<lambda>b. b = 0) name)))))"

record pe_walk =
  entry_section_found :: bool
  executable_high_entropy :: bool
  packed_section_name :: bool
  last_raw_end :: nat
  w_evidence :: "evidence_item list"

definition walk_push :: "string \<Rightarrow> evidence_severity \<Rightarrow> nat \<Rightarrow> pe_walk \<Rightarrow> pe_walk" where
  "walk_push c s p w = w\<lparr>w_evidence := push_evidence c s p (w_evidence w)\<rparr>"

text \<open>The part of the loop body that looks at the headers of a section.\<close>

definition walk_header :: "nat \<Rightarrow> pe_section \<Rightarrow> pe_walk \<Rightarrow> pe_walk" where
  "walk_header entry s w =
     (let executable = (s_characteristics s AND IMAGE_SCN_MEM_EXECUTE \<noteq> 0);
          writable = (s_characteristics s AND IMAGE_SCN_MEM_WRITE \<noteq> 0);
          virtual_span = max (s_virtual_size s) (s_size_of_raw_data s);
          w = (if entry \<ge> s_virtual_address s \<and>
                  entry < saturating_add usize_max (s_virtual_address s) virtual_span
               then let w = w\<lparr>entry_section_found := True\<rparr> in
                 if writable then walk_push ''pe.entrypoint_writable'' High 20 w else w
               else w);
          w = (if executable \<and> writable then walk_push ''pe.writable_executable_section'' Medium 18 w else w)
      in if is_packer_section_name (section_name s)
         then walk_push ''pe.packer_section_name'' Medium 20 (w\<lparr>packed_section_name := True\<rparr>) else w)"

text \<open>The part that looks at its data.\<close>

definition walk_data :: "bytes \<Rightarrow> nat \<Rightarrow> pe_section \<Rightarrow> pe_walk \<Rightarrow> pe_walk" where
  "walk_data bs file_size s w =
     (let raw_start = s_pointer_to_raw_data s; raw_size = s_size_of_raw_data s in
      case checked_add usize_max raw_start raw_size of
        None \<Rightarrow> walk_push ''pe.invalid_section_bounds'' High 25 w
      | Some raw_end \<Rightarrow>
          let w = w\<lparr>last_raw_end := max (last_raw_end w) raw_end\<rparr> in
          if raw_end > length bs \<and> raw_end \<le> file_size then w
          else if raw_end > length bs then walk_push ''pe.invalid_section_bounds'' High 25 w
          else if s_characteristics s AND IMAGE_SCN_MEM_EXECUTE \<noteq> 0 \<and> raw_size \<ge> MIN_SECTION_ENTROPY_BYTES \<and>
             shannon_entropy (slice bs raw_start raw_end) \<ge> HIGH_ENTROPY_THRESHOLD
          then walk_push ''pe.high_entropy_executable_section'' Medium 15 (w\<lparr>executable_high_entropy := True\<rparr>)
          else w)"

definition walk_section :: "bytes \<Rightarrow> nat \<Rightarrow> nat \<Rightarrow> pe_walk \<Rightarrow> pe_section \<Rightarrow> pe_walk" where
  "walk_section bs file_size entry w s = walk_data bs file_size s (walk_header entry s w)"

definition new_header_offset :: "bytes \<Rightarrow> nat option" where
  "new_header_offset bs =
     (case get_range bs 0x3C 0x40 of
        None \<Rightarrow> None
      | Some raw \<Rightarrow> let offset = u32_of_le raw in if offset \<ge> 0x40 then Some offset else None)"

definition legacy_executable_kind :: "bytes \<Rightarrow> string option" where
  "legacy_executable_kind bs =
     do { offset \<leftarrow> new_header_offset bs;
          end' \<leftarrow> checked_add usize_max offset 2;
          sig \<leftarrow> get_range bs offset end';
          if sig = bytes_of ''NE'' then Some ''16-bit Windows (NE)''
          else if sig = bytes_of ''LE'' \<or> sig = bytes_of ''LX'' then Some ''OS/2 or VxD (LE/LX)''
          else None }"

definition pe_headers_are_plausible :: "bytes \<Rightarrow> bool" where
  "pe_headers_are_plausible bs =
     (case new_header_offset bs of
        None \<Rightarrow> False
      | Some offset \<Rightarrow>
          (case get_range bs offset (saturating_add usize_max offset 24) of
             None \<Rightarrow> False
           | Some coff \<Rightarrow>
               if take 4 coff \<noteq> [0x50, 0x45, 0, 0] then False
               else let sections = u16_of_le (drop 6 coff);
                        optional = u16_of_le (drop 20 coff);
                        table_end = saturating_add usize_max
                          (saturating_add usize_max (saturating_add usize_max offset 24) optional)
                          (min usize_max (sections * 40))
                 in 1 \<le> sections \<and> sections \<le> 96 \<and> optional \<ge> 96 \<and> table_end \<le> length bs))"

definition has_import :: "bytes list \<Rightarrow> string list \<Rightarrow> bool" where
  "has_import imports names = list_ex (\<lambda>n. bytes_of n \<in> set imports) names"

definition count_true :: "bool list \<Rightarrow> nat" where
  "count_true bs = length (filter (\<lambda>b. b) bs)"

definition injection_stages :: "bytes list \<Rightarrow> nat" where
  "injection_stages imports = count_true
     [has_import imports [''virtualallocex'', ''ntallocatevirtualmemory''],
      has_import imports [''writeprocessmemory'', ''ntwritevirtualmemory''],
      has_import imports [''createremotethread'', ''ntcreatethreadex'', ''queueuserapc'', ''setthreadcontext'']]"

definition analyze_import_set :: "bytes list \<Rightarrow> evidence_item list \<Rightarrow> evidence_item list" where
  "analyze_import_set imports ev =
     (let ev = (if imports = [] then push_evidence ''pe.no_imports'' Low 6 ev else ev);
          stages = injection_stages imports;
          ev = (if stages \<ge> 2
                then push_evidence ''pe.process_injection_capability'' High (if stages = 3 then 38 else 25) ev else ev);
          downloads = has_import imports [''urldownloadtofilea'', ''urldownloadtofilew'', ''internetreadfile'',
            ''winhttpreaddata'', ''wininetreadfile''];
          executes = has_import imports [''createprocessa'', ''createprocessw'', ''winexec'', ''shellexecutea'',
            ''shellexecutew''];
          ev = (if downloads \<and> executes
                then push_evidence ''pe.download_and_execute_capability'' Medium 22 ev else ev);
          ev = (if has_import imports [''getasynckeystate'', ''getkeystate''] \<and>
                   has_import imports [''setwindowshookexa'', ''setwindowshookexw'', ''getforegroundwindow'']
                then push_evidence ''pe.input_capture_capability'' Medium 18 ev else ev);
          anti_debug_count = count_true (map (\<lambda>n. bytes_of n \<in> set imports) [''isdebuggerpresent'',
            ''checkremotedebuggerpresent'', ''ntqueryinformationprocess'', ''outputdebugstringa'', ''outputdebugstringw''])
      in if anti_debug_count \<ge> 2 then push_evidence ''pe.anti_debug_cluster'' Low 10 ev else ev)"

text \<open>The names are collected into a \<^verbatim>\<open>HashSet\<close>; only membership in it matters.\<close>

definition analyze_pe_imports :: "pe_image \<Rightarrow> evidence_item list \<Rightarrow> evidence_item list" where
  "analyze_pe_imports pe ev = analyze_import_set (remdups (map lowercase (pe_imports pe))) ev"

definition unparsed_pe :: "bytes \<Rightarrow> nat \<Rightarrow> evidence_item list \<Rightarrow> evidence_item list" where
  "unparsed_pe bs file_size ev =
     (if file_size > length bs then push_evidence ''pe.unparsed_prefix'' Informational 0 ev
      else if legacy_executable_kind bs \<noteq> None then push_evidence ''pe.legacy_executable'' Informational 0 ev
      else if pe_headers_are_plausible bs then push_evidence ''pe.structure_unreadable'' Low 30 ev
      else push_evidence ''pe.malformed'' High 55 ev)"

definition section_count_evidence :: "pe_image \<Rightarrow> evidence_item list \<Rightarrow> evidence_item list" where
  "section_count_evidence pe ev =
     (if pe_sections pe = [] then push_evidence ''pe.no_sections'' High 35 ev
      else if length (pe_sections pe) > 32 then push_evidence ''pe.excessive_sections'' Medium 15 ev else ev)"

definition overlay_evidence :: "bytes \<Rightarrow> pe_walk \<Rightarrow> evidence_item list \<Rightarrow> evidence_item list" where
  "overlay_evidence bs w ev =
     (if last_raw_end w < length bs then
        (let overlay_size = length bs - last_raw_end w in
         if overlay_size \<ge> 1024 * 1024 \<and> overlay_size * 100 div max (length bs) 1 \<ge> 30 \<and>
            (packed_section_name w \<or> executable_high_entropy w)
         then push_evidence ''pe.large_overlay_with_packing'' Low 8 ev else ev)
      else ev)"

definition analyze_pe :: "(bytes \<Rightarrow> pe_image option) \<Rightarrow> bytes \<Rightarrow> nat \<Rightarrow> evidence_item list \<Rightarrow>
    content_type \<times> evidence_item list" where
  "analyze_pe pe_parse bs file_size ev =
     (case pe_parse bs of
        None \<Rightarrow> (PeUnknown, unparsed_pe bs file_size ev)
      | Some pe \<Rightarrow>
          let w = foldl (walk_section bs file_size (pe_entry pe))
                    \<lparr>entry_section_found = (pe_entry pe = 0), executable_high_entropy = False,
                     packed_section_name = False, last_raw_end = 0,
                     w_evidence = section_count_evidence pe ev\<rparr> (pe_sections pe);
              ev = w_evidence w;
              ev = (if \<not> entry_section_found w
                    then push_evidence ''pe.entrypoint_outside_sections'' High 25 ev else ev)
          in (if pe_is_64 pe then Pe64 else Pe32,
              analyze_pe_imports pe (overlay_evidence bs w ev)))"

section \<open>Scripts\<close>

definition EXECUTION :: "string list" where
  "EXECUTION = [''invoke-expression'', ''iex('', ''eval('', ''execute('', ''executeglobal('']"

definition NETWORK :: "string list" where
  "NETWORK = [''downloadstring('', ''downloadfile('', ''invoke-webrequest'', ''invoke-restmethod'', ''xmlhttp'',
     ''winhttp.winhttprequest'', ''http://'', ''https://'']"

definition ENCODED :: "string list" where
  "ENCODED = [''-encodedcommand'', ''-encoded command'', ''frombase64string('']"

definition LOLBINS :: "string list" where
  "LOLBINS = [''mshta'', ''regsvr32'', ''rundll32'', ''certutil'', ''bitsadmin'']"

definition NEARBY :: nat where "NEARBY = 600"

definition analyze_script :: "bytes \<Rightarrow> nat \<Rightarrow> evidence_item list \<Rightarrow> evidence_item list" where
  "analyze_script bs sample_limit ev =
     (case decode_probable_text (take sample_limit bs) of
        None \<Rightarrow> ev
      | Some t \<Rightarrow>
          let lower = lowercase t;
              has_long_encoded_payload = contains_any lower [''powershell'', ''pwsh''] \<and> contains_long_base64_token t 200;
              has_encoded_command = contains_any lower ENCODED \<or> has_long_encoded_payload;
              ev = (if has_encoded_command then push_evidence ''script.encoded_payload'' Medium 22 ev else ev);
              expression_execution = contains_any lower EXECUTION;
              download_and_execute = near lower EXECUTION NETWORK NEARBY;
              decode_and_execute = near lower EXECUTION ENCODED NEARBY;
              ev = (if download_and_execute then push_evidence ''script.download_and_execute'' High 42 ev
                    else if decode_and_execute then push_evidence ''script.decode_and_execute'' High 34 ev else ev);
              stealth_switches = count_true (map (\<lambda>n. contains_bytes lower (bytes_of n))
                [''-executionpolicy bypass'', ''-windowstyle hidden'', ''-noninteractive'', ''-noprofile'']);
              ev = (if stealth_switches \<ge> 2 then push_evidence ''script.stealth_switch_cluster'' Medium 15 ev else ev);
              lolbin_delivery = (near lower LOLBINS NETWORK NEARBY \<or> near lower LOLBINS ENCODED NEARBY);
              ev = (if lolbin_delivery then push_evidence ''script.lolbin_delivery'' High 28 ev else ev);
              obfuscation_characters = length (filter (\<lambda>c. c = 0x60 \<or> c = 0x5E) (chars t));
              ev = (if obfuscation_characters \<ge> 16 \<and> expression_execution \<and>
                       (download_and_execute \<or> decode_and_execute \<or> has_encoded_command)
                    then push_evidence ''script.token_obfuscation'' Low 10 ev else ev)
          in if near lower EXECUTION [''[char[]]'', ''[char]'', ''-join''] NEARBY
             then push_evidence ''script.constructed_expression'' Medium 18 ev else ev)"

section \<open>Shortcuts\<close>

definition LAUNCHERS :: "string list" where
  "LAUNCHERS = [''cmd.exe'', ''powershell'', ''pwsh'', ''mshta'', ''wscript'', ''cscript'', ''rundll32'',
     ''regsvr32'', ''forfiles'', ''certutil'', ''bitsadmin'', ''curl'']"

definition FETCH :: "string list" where
  "FETCH = [''http://'', ''https://'', ''ftp://'', ''downloadstring'', ''downloadfile'', ''invoke-webrequest'',
     ''iwr '', ''-urlcache'', ''bitsadmin'', [CHR 0x5C, CHR 0x5C]]"

definition DECODE :: "string list" where
  "DECODE = [''-enc '', ''-e '', ''-ec '', ''-encodedcommand'', ''frombase64string'', ''-windowstyle hidden'',
     ''-w hidden'']"

definition RUN :: "string list" where
  "RUN = [''iex'', ''invoke-expression'', ''start-process'', ''mshta'', ''wscript'']"

definition PADDED_ARGUMENTS :: nat where "PADDED_ARGUMENTS = 1024"
definition WHITESPACE_RUN :: nat where "WHITESPACE_RUN = 120"

text \<open>The loop's pair is the length of the current run of blanks and of the longest.\<close>

definition longest_blank_run :: "nat list \<Rightarrow> nat" where
  "longest_blank_run cs =
     snd (foldl (\<lambda>(run, longest) c. if is_whitespace_char c then (run + 1, max longest (run + 1)) else (0, longest))
            (0, 0) cs)"

definition analyze_lnk :: "bytes \<Rightarrow> evidence_item list \<Rightarrow> evidence_item list" where
  "analyze_lnk bs ev =
     (case lnk_parse bs of
        None \<Rightarrow> ev
      | Some shortcut \<Rightarrow>
          let target' = lowercase (sc_target shortcut); arguments' = lowercase (sc_arguments shortcut) in
          if \<not> contains_any target' LAUNCHERS then ev
          else let fetches = contains_any arguments' FETCH;
                   decodes = contains_any arguments' DECODE;
                   runs = contains_any arguments' RUN;
                   ev = (if (fetches \<and> (decodes \<or> runs)) \<or> (decodes \<and> runs) then
                           let ev = push_evidence ''lnk.script_launch'' High 45 ev in
                           if sc_minimized shortcut then push_evidence ''lnk.hidden_window'' Low 10 ev else ev
                         else ev)
            in if length (sc_arguments shortcut) \<ge> PADDED_ARGUMENTS \<and>
                  longest_blank_run (chars (sc_arguments shortcut)) \<ge> WHITESPACE_RUN
               then push_evidence ''lnk.padded_arguments'' Medium 30 ev else ev)"

section \<open>A prefix is not called malformed\<close>

text \<open>The evidence that says the file's structure is broken.\<close>

definition structural :: "evidence_item list \<Rightarrow> evidence_item list" where
  "structural ev = filter (\<lambda>e. code e \<in> {''pe.malformed'', ''pe.structure_unreadable'', ''pe.invalid_section_bounds''}) ev"

definition ends_within :: "nat \<Rightarrow> pe_section \<Rightarrow> bool" where
  "ends_within file_size s \<longleftrightarrow> s_pointer_to_raw_data s + s_size_of_raw_data s \<le> file_size"

lemma structural_push:
  "c \<notin> {''pe.malformed'', ''pe.structure_unreadable'', ''pe.invalid_section_bounds''} \<Longrightarrow>
   structural (push_evidence c s p ev) = structural ev"
  by (simp add: structural_def push_evidence_def)

lemma structural_walk_push:
  "c \<notin> {''pe.malformed'', ''pe.structure_unreadable'', ''pe.invalid_section_bounds''} \<Longrightarrow>
   structural (w_evidence (walk_push c s p w)) = structural (w_evidence w)"
  using structural_push [of c] by (simp add: walk_push_def)

lemma structural_walk_header: "structural (w_evidence (walk_header entry s w)) = structural (w_evidence w)"
  by (simp add: walk_header_def Let_def structural_walk_push)

lemma structural_walk_data:
  assumes "ends_within file_size s" and "file_size \<le> usize_max"
  shows "structural (w_evidence (walk_data bs file_size s w)) = structural (w_evidence w)"
  using assms by (simp add: walk_data_def ends_within_def Let_def structural_walk_push checked_add_def)

lemma structural_walk:
  assumes "list_all (ends_within file_size) ss" and "file_size \<le> usize_max"
  shows "structural (w_evidence (foldl (walk_section bs file_size entry) w ss)) = structural (w_evidence w)"
  using assms(1)
proof (induction ss arbitrary: w)
  case (Cons s ss)
  then show ?case
    using assms(2) by (simp add: walk_section_def structural_walk_data structural_walk_header)
qed simp

lemma structural_rest:
  "structural (analyze_pe_imports pe ev) = structural ev"
  "structural (overlay_evidence bs w ev) = structural ev"
  "structural (section_count_evidence pe ev) = structural ev"
  by (simp_all add: analyze_pe_imports_def analyze_import_set_def overlay_evidence_def section_count_evidence_def
        Let_def structural_push)

text \<open>
  A large executable is not called malformed because only its beginning was read. When the
  bytes analysed are a proper prefix of the file and the sections the parser reports end within
  the file, the analysis adds no evidence of a broken structure, whether the prefix parses on its
  own or not.
\<close>

theorem prefix_not_malformed:
  assumes "n < length file" and "length file \<le> usize_max"
    and "case pe_parse (take n file) of
        Some pe \<Rightarrow> list_all (ends_within (length file)) (pe_sections pe) | None \<Rightarrow> True"
  shows "structural (snd (analyze_pe pe_parse (take n file) (length file) ev)) = structural ev"
proof (cases "pe_parse (take n file)")
  case None
  with assms(1) show ?thesis by (simp add: analyze_pe_def unparsed_pe_def structural_push)
next
  case (Some pe)
  with assms show ?thesis
    by (simp add: analyze_pe_def Let_def structural_rest structural_push structural_walk)
qed

definition example_image :: pe_image where
  "example_image =
     \<lparr>pe_is_64 = True, pe_entry = 16,
      pe_sections = [\<lparr>s_name = None, s_virtual_size = 64, s_virtual_address = 0, s_size_of_raw_data = 90,
        s_pointer_to_raw_data = 10, s_characteristics = 0\<rparr>],
      pe_imports = []\<rparr>"

theorem prefix_not_malformed_witness:
  "structural (snd (analyze_pe (\<lambda>_. Some example_image) (take 64 (replicate 100 0)) (length (replicate 100 (0 :: byte))) [])) = []"
  using prefix_not_malformed [of 64 "replicate 100 0" "\<lambda>_. Some example_image" "[]"]
  by (simp add: example_image_def ends_within_def usize_max_def structural_def)

end
