(* ===== verification/Native_Index.thy ===== *)
theory Native_Index
  imports Pattern_Set Search Engine_Heuristics
begin

text \<open>
  The hash databases, \<^verbatim>\<open>src/clamdb/native_index.rs\<close>: loading database files line by line, sorted tables
  of digests, allowlists, and the evaluation of a file. Hexadecimal decoding (crate \<^verbatim>\<open>hex\<close>), SHA-256,
  MD5 and the PE parser are parameters; a database file is its extension and the lines reading it
  yields, up to a read error. The lemmas show that the binary search finds what a linear search over
  the loaded lines would, and that the digests the index saves itself never change an answer.
\<close>

section \<open>Tables of digests\<close>

record hash_entry =
  he_hash :: bytes
  he_size :: "nat option"
  he_name :: string

type_synonym hash_table = "hash_entry list"

definition ht_push :: "bytes \<Rightarrow> nat option \<Rightarrow> string \<Rightarrow> hash_table \<Rightarrow> hash_table" where
  "ht_push hash sz name t = t @ [\<lparr>he_hash = hash, he_size = sz, he_name = name\<rparr>]"

definition ht_sort :: "hash_table \<Rightarrow> hash_table" where
  "ht_sort t = sort_key he_hash t"

fun size_matches :: "nat option \<Rightarrow> nat option \<Rightarrow> bool" where
  "size_matches None _ = True"
| "size_matches (Some expected) (Some actual) = (expected = actual)"
| "size_matches (Some _) None = False"

fun walk_low :: "hash_table \<Rightarrow> bytes \<Rightarrow> nat \<Rightarrow> nat" where
  "walk_low t hash 0 = 0"
| "walk_low t hash (Suc low) = (if he_hash (t ! low) = hash then walk_low t hash low else Suc low)"

definition ht_lookup :: "hash_table \<Rightarrow> bytes \<Rightarrow> nat option \<Rightarrow> string option" where
  "ht_lookup t hash sz =
     (case binary_search_by_key he_hash hash t of
        None \<Rightarrow> None
      | Some found \<Rightarrow>
          map_option he_name
            (List.find (\<lambda>e. size_matches (he_size e) sz)
               (takeWhile (\<lambda>e. he_hash e = hash) (drop (walk_low t hash found) t))))"

section \<open>The index\<close>

record section_digest =
  sd_size :: nat
  sd_md5 :: bytes
  sd_sha256 :: bytes

datatype match_origin = WholeFile | PeSection | PatternMatch

record index_match =
  im_threat_name :: string
  im_origin :: match_origin

record 'a native_index =
  file_sha256 :: hash_table
  file_md5 :: hash_table
  section_sha256 :: hash_table
  section_md5 :: hash_table
  allow_sha256 :: "bytes list"
  allow_md5 :: "bytes list"
  md5_sizes :: "nat list"
  md5_any_size :: bool
  section_sizes :: "nat list"
  section_any_size :: bool
  patterns :: "'a pattern_set"

definition index_new :: "'a native_index" where
  "index_new = \<lparr>file_sha256 = [], file_md5 = [], section_sha256 = [], section_md5 = [], allow_sha256 = [], allow_md5 = [],
     md5_sizes = [], md5_any_size = False, section_sizes = [], section_any_size = False, patterns = empty_set\<rparr>"

definition index_len :: "'a native_index \<Rightarrow> nat" where
  "index_len ix = length (file_sha256 ix) + length (file_md5 ix) + length (section_sha256 ix) +
     length (section_md5 ix) + set_len (patterns ix)"

definition allowlist_len :: "'a native_index \<Rightarrow> nat" where
  "allowlist_len ix = length (allow_sha256 ix) + length (allow_md5 ix)"

datatype family = FileHash | SectionHash | Allowlist

record load_stats =
  ls_file_hashes :: nat
  ls_section_hashes :: nat
  ls_allowlist_entries :: nat
  ls_patterns :: nat
  ls_patterns_skipped :: nat

definition no_stats :: load_stats where
  "no_stats = \<lparr>ls_file_hashes = 0, ls_section_hashes = 0, ls_allowlist_entries = 0, ls_patterns = 0, ls_patterns_skipped = 0\<rparr>"

definition add_stats :: "load_stats \<Rightarrow> load_stats \<Rightarrow> load_stats" where
  "add_stats a b =
     \<lparr>ls_file_hashes = ls_file_hashes a + ls_file_hashes b, ls_section_hashes = ls_section_hashes a + ls_section_hashes b,
      ls_allowlist_entries = ls_allowlist_entries a + ls_allowlist_entries b,
      ls_patterns = ls_patterns a + ls_patterns b, ls_patterns_skipped = ls_patterns_skipped a + ls_patterns_skipped b\<rparr>"

definition note_md5_size :: "nat option \<Rightarrow> 'a native_index \<Rightarrow> 'a native_index" where
  "note_md5_size sz ix =
     (case sz of Some n \<Rightarrow> ix\<lparr>md5_sizes := List.insert n (md5_sizes ix)\<rparr> | None \<Rightarrow> ix\<lparr>md5_any_size := True\<rparr>)"

definition note_section_size :: "nat option \<Rightarrow> 'a native_index \<Rightarrow> 'a native_index" where
  "note_section_size sz ix =
     (case sz of Some n \<Rightarrow> ix\<lparr>section_sizes := List.insert n (section_sizes ix)\<rparr> | None \<Rightarrow> ix\<lparr>section_any_size := True\<rparr>)"

text \<open>The fields of a line: digest, size (\<open>None\<close> for the wildcard) and name.\<close>

definition parse_hash_line :: "(string \<Rightarrow> bytes option) \<Rightarrow> bool \<Rightarrow> string \<Rightarrow> (bytes \<times> nat option \<times> string) option" where
  "parse_hash_line unhex hash_first line =
     do { (first, rest) \<leftarrow> split_once (CHR '':'') line;
          (second, third) \<leftarrow> split_once (CHR '':'') rest;
          let (hash_text, size_text) = (if hash_first then (first, second) else (second, first));
          let name = trim third;
          if name = [] then None
          else do {
            sz \<leftarrow> (if trim size_text = ''*'' then Some None else map_option Some (parse_u64 (trim size_text)));
            bs \<leftarrow> unhex (trim hash_text);
            Some (bs, sz, name) } }"

definition store_hash :: "family \<Rightarrow> bytes \<Rightarrow> nat option \<Rightarrow> string \<Rightarrow> 'a native_index \<Rightarrow> bool \<times> 'a native_index" where
  "store_hash family bs sz name ix =
     (case family of
        FileHash \<Rightarrow>
          if length bs = 32 then (True, ix\<lparr>file_sha256 := ht_push bs sz name (file_sha256 ix)\<rparr>)
          else if length bs = 16 then (True, note_md5_size sz (ix\<lparr>file_md5 := ht_push bs sz name (file_md5 ix)\<rparr>))
          else (False, ix)
      | SectionHash \<Rightarrow>
          if length bs = 32 then (True, note_section_size sz (ix\<lparr>section_sha256 := ht_push bs sz name (section_sha256 ix)\<rparr>))
          else if length bs = 16 then (True, note_section_size sz (ix\<lparr>section_md5 := ht_push bs sz name (section_md5 ix)\<rparr>))
          else (False, ix)
      | Allowlist \<Rightarrow>
          if length bs = 32 then (True, ix\<lparr>allow_sha256 := List.insert bs (allow_sha256 ix)\<rparr>)
          else if length bs = 16 then (True, note_md5_size sz (ix\<lparr>allow_md5 := List.insert bs (allow_md5 ix)\<rparr>))
          else (False, ix))"

definition index_ingest :: "(string \<Rightarrow> bytes option) \<Rightarrow> string \<Rightarrow> family \<Rightarrow> bool \<Rightarrow> 'a native_index \<Rightarrow> bool \<times> 'a native_index" where
  "index_ingest unhex line family hash_first ix =
     (case parse_hash_line unhex hash_first line of
        None \<Rightarrow> (False, ix)
      | Some (bs, sz, name) \<Rightarrow> store_hash family bs sz name ix)"

section \<open>Loading\<close>

definition MAX_LINE_BYTES :: nat where "MAX_LINE_BYTES = 16 * 1024"

record db_file =
  db_extension :: string
  db_opens :: bool
  db_lines :: "string list"
  db_fails :: bool

text \<open>The line a loop iteration works on, if any: not too long, not blank, no comment.\<close>

definition useful_line :: "string \<Rightarrow> string option" where
  "useful_line line =
     (if length line > MAX_LINE_BYTES then None
      else let line = trim line in if line = [] \<or> hd line = CHR ''#'' then None else Some line)"

fun load_hash_lines :: "(string \<Rightarrow> bytes option) \<Rightarrow> family \<Rightarrow> bool \<Rightarrow> string list \<Rightarrow> nat \<times> 'a native_index \<Rightarrow> nat \<times> 'a native_index" where
  "load_hash_lines unhex family hash_first [] acc = acc"
| "load_hash_lines unhex family hash_first (raw # lines) (n, ix) =
     (case useful_line raw of
        None \<Rightarrow> load_hash_lines unhex family hash_first lines (n, ix)
      | Some line \<Rightarrow>
          (case index_ingest unhex line family hash_first ix of
             (stored, ix) \<Rightarrow> load_hash_lines unhex family hash_first lines (if stored then n + 1 else n, ix)))"

fun load_pattern_lines :: "bool \<Rightarrow> string list \<Rightarrow> pattern_stats \<times> 'a pattern_set \<Rightarrow> pattern_stats \<times> 'a pattern_set" where
  "load_pattern_lines logical [] acc = acc"
| "load_pattern_lines logical (raw # lines) (st, ps) =
     (if length raw > MAX_LINE_BYTES
      then load_pattern_lines logical lines (st\<lparr>st_unsupported := st_unsupported st + 1\<rparr>, ps)
      else case useful_line raw of
        None \<Rightarrow> load_pattern_lines logical lines (st, ps)
      | Some line \<Rightarrow>
          (case (if logical then ingest_logical ps line st else ingest ps line st) of
             (_, ps, st) \<Rightarrow> load_pattern_lines logical lines (st, ps)))"

definition load_patterns :: "db_file \<Rightarrow> bool \<Rightarrow> 'a native_index \<Rightarrow> load_stats option \<times> 'a native_index" where
  "load_patterns file logical ix =
     (if \<not> db_opens file then (None, ix)
      else case load_pattern_lines logical (db_lines file)
                  (\<lparr>st_loaded = 0, st_unsupported = 0, st_too_weak = 0, st_reasons = Map.empty\<rparr>, patterns ix) of
        (st, ps) \<Rightarrow>
          let ix = ix\<lparr>patterns := ps\<rparr> in
          if db_fails file then (None, ix)
          else (Some (no_stats\<lparr>ls_patterns := st_loaded st, ls_patterns_skipped := st_unsupported st + st_too_weak st\<rparr>), ix))"

definition hash_family :: "string \<Rightarrow> (family \<times> bool) option" where
  "hash_family ext =
     (if ext \<in> {''hdb'', ''hdu'', ''hsb'', ''hsu''} then Some (FileHash, True)
      else if ext \<in> {''mdb'', ''mdu'', ''msb'', ''msu''} then Some (SectionHash, False)
      else if ext \<in> {''fp'', ''sfp''} then Some (Allowlist, True)
      else None)"

definition family_stats :: "family \<Rightarrow> nat \<Rightarrow> load_stats" where
  "family_stats family n =
     (case family of
        FileHash \<Rightarrow> no_stats\<lparr>ls_file_hashes := n\<rparr>
      | SectionHash \<Rightarrow> no_stats\<lparr>ls_section_hashes := n\<rparr>
      | Allowlist \<Rightarrow> no_stats\<lparr>ls_allowlist_entries := n\<rparr>)"

definition load_file :: "(string \<Rightarrow> bytes option) \<Rightarrow> (bytes list \<Rightarrow> 'a option) \<Rightarrow> db_file \<Rightarrow> bool \<Rightarrow> 'a native_index \<Rightarrow>
    load_stats option \<times> 'a native_index" where
  "load_file unhex ac_build file finish ix =
     (let ext = db_extension file in
      if ext \<in> {''ndb'', ''ldb'', ''ldu'', ''ndu''} then
        (case load_patterns file (hd ext = CHR ''l'') ix of
           (None, ix) \<Rightarrow> (None, ix)
         | (Some stats, ix) \<Rightarrow> (Some stats, if finish then ix\<lparr>patterns := build ac_build (patterns ix)\<rparr> else ix))
      else case hash_family ext of
        None \<Rightarrow> (Some no_stats, ix)
      | Some (family, hash_first) \<Rightarrow>
          if \<not> db_opens file then (None, ix)
          else case load_hash_lines unhex family hash_first (db_lines file) (0, ix) of
            (n, ix) \<Rightarrow> (if db_fails file then None else Some (family_stats family n), ix))"

definition load_from_file :: "(string \<Rightarrow> bytes option) \<Rightarrow> (bytes list \<Rightarrow> 'a option) \<Rightarrow> db_file \<Rightarrow> 'a native_index \<Rightarrow>
    load_stats option \<times> 'a native_index" where
  "load_from_file unhex ac_build file ix = load_file unhex ac_build file True ix"

definition index_sort :: "'a native_index \<Rightarrow> 'a native_index" where
  "index_sort ix = ix\<lparr>file_sha256 := ht_sort (file_sha256 ix), file_md5 := ht_sort (file_md5 ix),
     section_sha256 := ht_sort (section_sha256 ix), section_md5 := ht_sort (section_md5 ix)\<rparr>"

text \<open>The files a directory walk yields, \<open>None\<close> where the walk fails.\<close>

fun load_entries :: "(string \<Rightarrow> bytes option) \<Rightarrow> (bytes list \<Rightarrow> 'a option) \<Rightarrow> bool \<Rightarrow> db_file option list \<Rightarrow> load_stats \<Rightarrow>
    'a native_index \<Rightarrow> load_stats option \<times> 'a native_index" where
  "load_entries unhex ac_build include_pua [] stats ix = (Some stats, ix)"
| "load_entries unhex ac_build include_pua (None # es) stats ix = (None, ix)"
| "load_entries unhex ac_build include_pua (Some file # es) stats ix =
     (let ext = db_extension file in
      if \<not> include_pua \<and> ext \<noteq> [] \<and> last ext = CHR ''u'' \<and> ext \<noteq> ''sfp''
      then load_entries unhex ac_build include_pua es stats ix
      else case load_file unhex ac_build file False ix of
        (None, ix) \<Rightarrow> (None, ix)
      | (Some added, ix) \<Rightarrow> load_entries unhex ac_build include_pua es (add_stats stats added) ix)"

definition load_from_directory :: "(string \<Rightarrow> bytes option) \<Rightarrow> (bytes list \<Rightarrow> 'a option) \<Rightarrow> bool \<Rightarrow> db_file option list \<Rightarrow>
    'a native_index \<Rightarrow> load_stats option \<times> 'a native_index" where
  "load_from_directory unhex ac_build include_pua entries ix =
     (case load_entries unhex ac_build include_pua entries no_stats ix of
        (None, ix) \<Rightarrow> (None, ix)
      | (Some stats, ix) \<Rightarrow>
          let ix = index_sort ix in (Some stats, ix\<lparr>patterns := build ac_build (patterns ix)\<rparr>))"

section \<open>Evaluation\<close>

definition is_allowlisted :: "'a native_index \<Rightarrow> bytes \<Rightarrow> bytes option \<Rightarrow> bool" where
  "is_allowlisted ix sha md5 \<longleftrightarrow>
     sha \<in> set (allow_sha256 ix) \<or> (case md5 of Some digest \<Rightarrow> digest \<in> set (allow_md5 ix) | None \<Rightarrow> False)"

definition wants_file_md5 :: "'a native_index \<Rightarrow> nat \<Rightarrow> bool" where
  "wants_file_md5 ix file_size \<longleftrightarrow> md5_any_size ix \<or> file_size \<in> set (md5_sizes ix)"

fun evaluate_sections :: "'a native_index \<Rightarrow> section_digest list \<Rightarrow> index_match option" where
  "evaluate_sections ix [] = None"
| "evaluate_sections ix (s # ss) =
     (case ht_lookup (section_sha256 ix) (sd_sha256 s) (Some (sd_size s)) of
        Some name \<Rightarrow> Some \<lparr>im_threat_name = name, im_origin = PeSection\<rparr>
      | None \<Rightarrow>
          (case ht_lookup (section_md5 ix) (sd_md5 s) (Some (sd_size s)) of
             Some name \<Rightarrow> Some \<lparr>im_threat_name = name, im_origin = PeSection\<rparr>
           | None \<Rightarrow> evaluate_sections ix ss))"

definition evaluate :: "'a native_index \<Rightarrow> bytes \<Rightarrow> bytes option \<Rightarrow> nat option \<Rightarrow> section_digest list \<Rightarrow> index_match option" where
  "evaluate ix sha md5 file_size sections =
     (if is_allowlisted ix sha md5 then None
      else case ht_lookup (file_sha256 ix) sha file_size of
        Some name \<Rightarrow> Some \<lparr>im_threat_name = name, im_origin = WholeFile\<rparr>
      | None \<Rightarrow>
          (case (case md5 of Some digest \<Rightarrow> ht_lookup (file_md5 ix) digest file_size | None \<Rightarrow> None) of
             Some name \<Rightarrow> Some \<lparr>im_threat_name = name, im_origin = WholeFile\<rparr>
           | None \<Rightarrow> evaluate_sections ix sections))"

definition evaluate_sha256 :: "'a native_index \<Rightarrow> bytes \<Rightarrow> nat option \<Rightarrow> string option" where
  "evaluate_sha256 ix sha file_size =
     (if length sha \<noteq> 32 \<or> sha \<in> set (allow_sha256 ix) then None else ht_lookup (file_sha256 ix) sha file_size)"

definition evaluate_patterns :: "('a \<Rightarrow> bytes \<Rightarrow> (nat \<times> nat) list) \<Rightarrow> scratch \<Rightarrow> 'a native_index \<Rightarrow> bytes \<Rightarrow> nat \<Rightarrow> bytes \<Rightarrow>
    bytes option \<Rightarrow> index_match option" where
  "evaluate_patterns ac_find sc ix sample file_size sha md5 =
     (if set_is_empty (patterns ix) \<or> is_allowlisted ix sha md5 then None
      else map_option (\<lambda>name. \<lparr>im_threat_name = name, im_origin = PatternMatch\<rparr>)
        (fst (scan ac_find (patterns ix) sc sample file_size (file_size > length sample))))"

text \<open>The body of the loop over the sections.\<close>

definition section_digest_of :: "(bytes \<Rightarrow> bytes) \<Rightarrow> (bytes \<Rightarrow> bytes) \<Rightarrow> (nat \<Rightarrow> bool) \<Rightarrow> bytes \<Rightarrow> pe_section \<Rightarrow>
    section_digest option" where
  "section_digest_of md5 sha wanted bs s =
     (let start = s_pointer_to_raw_data s; len = s_size_of_raw_data s in
      if len = 0 \<or> \<not> wanted len then None
      else do { end' \<leftarrow> checked_add usize_max start len;
                body \<leftarrow> get_range bs start end';
                Some \<lparr>sd_size = len, sd_md5 = md5 body, sd_sha256 = sha body\<rparr> })"

definition section_digests_where :: "(bytes \<Rightarrow> pe_image option) \<Rightarrow> (bytes \<Rightarrow> bytes) \<Rightarrow> (bytes \<Rightarrow> bytes) \<Rightarrow> (nat \<Rightarrow> bool) \<Rightarrow>
    bytes \<Rightarrow> section_digest list" where
  "section_digests_where pe_parse md5 sha wanted bs =
     (case pe_parse bs of
        None \<Rightarrow> []
      | Some pe \<Rightarrow> List.map_filter (section_digest_of md5 sha wanted bs) (pe_sections pe))"

definition pe_section_digests :: "(bytes \<Rightarrow> pe_image option) \<Rightarrow> (bytes \<Rightarrow> bytes) \<Rightarrow> (bytes \<Rightarrow> bytes) \<Rightarrow> bytes \<Rightarrow>
    section_digest list" where
  "pe_section_digests pe_parse md5 sha bs = section_digests_where pe_parse md5 sha (\<lambda>_. True) bs"

definition section_digests :: "(bytes \<Rightarrow> pe_image option) \<Rightarrow> (bytes \<Rightarrow> bytes) \<Rightarrow> (bytes \<Rightarrow> bytes) \<Rightarrow> 'a native_index \<Rightarrow>
    bytes \<Rightarrow> section_digest list" where
  "section_digests pe_parse md5 sha ix bs =
     (if section_sha256 ix = [] \<and> section_md5 ix = [] then []
      else section_digests_where pe_parse md5 sha (\<lambda>sz. section_any_size ix \<or> sz \<in> set (section_sizes ix)) bs)"

section \<open>The search finds what was loaded\<close>

definition linear_lookup :: "hash_table \<Rightarrow> bytes \<Rightarrow> nat option \<Rightarrow> string option" where
  "linear_lookup t hash sz =
     map_option he_name (List.find (\<lambda>e. he_hash e = hash \<and> size_matches (he_size e) sz) t)"

lemma find_filter: "List.find P (filter Q xs) = List.find (\<lambda>x. Q x \<and> P x) xs"
  by (induction xs) auto

lemma takeWhile_sorted_eq:
  "sorted (map f xs) \<Longrightarrow> \<forall>x \<in> set xs. h \<le> f x \<Longrightarrow> takeWhile (\<lambda>x. f x = h) xs = filter (\<lambda>x. f x = h) xs"
proof (induction xs)
  case (Cons a xs)
  show ?case
  proof (cases "f a = h")
    case False
    with Cons.prems have "\<forall>x \<in> set xs. f x \<noteq> h" by (auto dest: antisym)
    then have "filter (\<lambda>x. f x = h) xs = []" by (rule filter_False)
    with False show ?thesis by simp
  qed (use Cons in simp)
qed simp

lemma walk_low_spec:
  assumes "he_hash (t ! found) = h" and "low = walk_low t h found"
  shows "low \<le> found \<and> he_hash (t ! low) = h \<and> (low = 0 \<or> he_hash (t ! (low - 1)) \<noteq> h)"
  using assms
proof (induction t h found arbitrary: low rule: walk_low.induct)
  case (2 t h found)
  then show ?case by (cases "he_hash (t ! found) = h") auto
qed simp

lemma ht_lookup_sorted:
  assumes sorted: "sorted (map he_hash t)"
  shows "ht_lookup t h sz = linear_lookup t h sz"
proof (cases "binary_search_by_key he_hash h t")
  case None
  with binary_search_by_key_None [OF sorted None] show ?thesis
    by (auto simp: ht_lookup_def linear_lookup_def find_None_iff)
next
  case (Some found)
  define low where "low = walk_low t h found"
  have f: "found < length t" "he_hash (t ! found) = h" using binary_search_by_key_Some [OF sorted Some] by auto
  have low: "low \<le> found" "he_hash (t ! low) = h" "low = 0 \<or> he_hash (t ! (low - 1)) \<noteq> h"
    using walk_low_spec [OF f(2) low_def] by auto
  have below: "he_hash x \<noteq> h" if x: "x \<in> set (take low t)" for x
  proof -
    obtain i where i: "i < low" "x = t ! i" using x by (auto simp: in_set_conv_nth)
    then have "he_hash x \<le> he_hash (t ! (low - 1))" "he_hash (t ! (low - 1)) \<le> h"
      using sorted_nth_mono [OF sorted, of i "low - 1"] sorted_nth_mono [OF sorted, of "low - 1" low] f low by auto
    then show ?thesis using low(3) i by (auto dest: antisym)
  qed
  have above: "h \<le> he_hash x" if x: "x \<in> set (drop low t)" for x
  proof -
    obtain i where "i < length t - low" "x = t ! (low + i)" using x by (auto simp: in_set_conv_nth)
    then show ?thesis using sorted_nth_mono [OF sorted, of low "low + i"] f low by auto
  qed
  have "sorted (map he_hash (drop low t))" using sorted by (simp add: drop_map [symmetric] sorted_wrt_drop)
  then have "takeWhile (\<lambda>e. he_hash e = h) (drop low t) = filter (\<lambda>e. he_hash e = h) (drop low t)"
    using above by (intro takeWhile_sorted_eq) auto
  also have "\<dots> = filter (\<lambda>e. he_hash e = h) (take low t @ drop low t)" using below by (simp add: filter_empty_conv del: append_take_drop_id)
  finally have "takeWhile (\<lambda>e. he_hash e = h) (drop low t) = filter (\<lambda>e. he_hash e = h) t" by simp
  with Some show ?thesis by (simp add: ht_lookup_def linear_lookup_def find_filter low_def)
qed

lemma find_sort_key:
  assumes "\<And>x. P x \<Longrightarrow> f x = k"
  shows "List.find P (sort_key f xs) = List.find P xs"
proof -
  have "List.find P ys = List.find P (filter (\<lambda>y. f y = k) ys)" for ys
    unfolding find_filter using assms by (intro find_cong) auto
  from this [of "sort_key f xs"] this [of xs] show ?thesis by (simp add: sort_key_stable)
qed

lemma ht_lookup_exact: "ht_lookup (ht_sort t) h sz = linear_lookup t h sz"
proof -
  have "List.find (\<lambda>e. he_hash e = h \<and> size_matches (he_size e) sz) (sort_key he_hash t) =
      List.find (\<lambda>e. he_hash e = h \<and> size_matches (he_size e) sz) t"
    by (rule find_sort_key [where k = h]) simp
  then show ?thesis using ht_lookup_sorted [of "ht_sort t" h sz] by (simp add: ht_sort_def linear_lookup_def)
qed

text \<open>The answer by linear search, in the order of loading.\<close>

fun linear_sections :: "'a native_index \<Rightarrow> section_digest list \<Rightarrow> string option" where
  "linear_sections ix [] = None"
| "linear_sections ix (s # ss) =
     (case linear_lookup (section_sha256 ix) (sd_sha256 s) (Some (sd_size s)) of
        Some name \<Rightarrow> Some name
      | None \<Rightarrow>
          (case linear_lookup (section_md5 ix) (sd_md5 s) (Some (sd_size s)) of
             Some name \<Rightarrow> Some name | None \<Rightarrow> linear_sections ix ss))"

definition linear_evaluate :: "'a native_index \<Rightarrow> bytes \<Rightarrow> bytes option \<Rightarrow> nat option \<Rightarrow> section_digest list \<Rightarrow>
    index_match option" where
  "linear_evaluate ix sha md5 file_size sections =
     (let whole = (case linear_lookup (file_sha256 ix) sha file_size of
                     Some name \<Rightarrow> Some name
                   | None \<Rightarrow> Option.bind md5 (\<lambda>digest. linear_lookup (file_md5 ix) digest file_size))
      in if is_allowlisted ix sha md5 then None
         else case whole of
           Some name \<Rightarrow> Some \<lparr>im_threat_name = name, im_origin = WholeFile\<rparr>
         | None \<Rightarrow> map_option (\<lambda>name. \<lparr>im_threat_name = name, im_origin = PeSection\<rparr>) (linear_sections ix sections))"

lemma evaluate_sections_sorted:
  "section_sha256 ix' = ht_sort (section_sha256 ix) \<Longrightarrow> section_md5 ix' = ht_sort (section_md5 ix) \<Longrightarrow>
   evaluate_sections ix' ss =
     map_option (\<lambda>name. \<lparr>im_threat_name = name, im_origin = PeSection\<rparr>) (linear_sections ix ss)"
  by (induction ss) (auto simp: ht_lookup_exact split: option.splits)

text \<open>
  (C17) Evaluating a file against the loaded databases is exact: after a directory has been loaded,
  the index answers what a linear search through all loaded lines in the order of loading answers,
  with the allowlists before everything, whole-file digests before section digests and SHA-256
  before MD5. Several signatures with one digest and different sizes are all considered.
\<close>

theorem evaluate_exact:
  assumes "load_entries unhex ac_build pua entries no_stats ix = (Some stats, loaded)"
  shows "evaluate (snd (load_from_directory unhex ac_build pua entries ix)) sha md5 file_size sections =
    linear_evaluate loaded sha md5 file_size sections"
proof -
  let ?ix = "snd (load_from_directory unhex ac_build pua entries ix)"
  have t: "file_sha256 ?ix = ht_sort (file_sha256 loaded)" "file_md5 ?ix = ht_sort (file_md5 loaded)"
      "section_sha256 ?ix = ht_sort (section_sha256 loaded)" "section_md5 ?ix = ht_sort (section_md5 loaded)"
      "is_allowlisted ?ix sha md5 = is_allowlisted loaded sha md5"
    using assms by (simp_all add: load_from_directory_def index_sort_def is_allowlisted_def Let_def split: option.split)
  show ?thesis
    unfolding evaluate_def linear_evaluate_def t(1,2,5) evaluate_sections_sorted [OF t(3,4)] ht_lookup_exact Let_def
    by (cases md5) (auto split: option.splits)
qed

section \<open>The digests that are saved\<close>

definition noted :: "nat list \<Rightarrow> bool \<Rightarrow> hash_table \<Rightarrow> bool" where
  "noted sizes any_size t \<longleftrightarrow>
     (\<forall>e \<in> set t. case he_size e of None \<Rightarrow> any_size | Some n \<Rightarrow> n \<in> set sizes)"

text \<open>Every size a stored entry asks for is on record.\<close>

definition index_ok :: "'a native_index \<Rightarrow> bool" where
  "index_ok ix \<longleftrightarrow>
     noted (md5_sizes ix) (md5_any_size ix) (file_md5 ix) \<and>
     noted (section_sizes ix) (section_any_size ix) (section_sha256 ix) \<and>
     noted (section_sizes ix) (section_any_size ix) (section_md5 ix)"

lemma noted_mono:
  "noted sizes any_size t \<Longrightarrow> noted (List.insert n sizes) any_size t"
  "noted sizes any_size t \<Longrightarrow> noted sizes True t"
  by (auto simp: noted_def split: option.splits)

lemma noted_push:
  "noted (List.insert n sizes) any_size (ht_push h (Some n) name t) \<longleftrightarrow> noted (List.insert n sizes) any_size t"
  "noted sizes True (ht_push h None name t) \<longleftrightarrow> noted sizes True t"
  by (auto simp: noted_def ht_push_def)

lemma store_hash_ok: "index_ok ix \<Longrightarrow> index_ok (snd (store_hash family bs sz name ix))"
  by (cases family; cases sz)
    (auto simp: store_hash_def index_ok_def note_md5_size_def note_section_size_def noted_push intro: noted_mono)

lemma index_ingest_ok: "index_ok ix \<Longrightarrow> index_ok (snd (index_ingest unhex line family hash_first ix))"
  by (auto simp: index_ingest_def store_hash_ok split: option.splits)

lemma load_hash_lines_ok:
  "index_ok (snd acc) \<Longrightarrow> index_ok (snd (load_hash_lines unhex family hash_first lines acc))"
proof (induction unhex family hash_first lines acc rule: load_hash_lines.induct)
  case (2 unhex family hash_first raw lines n ix)
  show ?case
  proof (cases "useful_line raw")
    case None
    with "2.IH"(1) "2.prems" show ?thesis by simp
  next
    case (Some line)
    obtain stored ix' where i: "index_ingest unhex line family hash_first ix = (stored, ix')" by fastforce
    then have "index_ok ix'" using index_ingest_ok [of ix unhex line family hash_first] "2.prems" by simp
    with "2.IH"(2) [OF Some i [symmetric]] Some i show ?thesis by simp
  qed
qed simp

lemma index_ok_patterns [simp]: "index_ok (ix\<lparr>patterns := ps\<rparr>) \<longleftrightarrow> index_ok ix"
  by (simp add: index_ok_def)

lemma load_file_ok:
  assumes "index_ok ix"
  shows "index_ok (snd (load_file unhex ac_build file finish ix))"
proof (cases "db_extension file \<in> {''ndb'', ''ldb'', ''ldu'', ''ndu''}")
  case True
  with assms show ?thesis
    by (auto simp: load_file_def load_patterns_def Let_def split: prod.splits option.splits if_splits)
next
  case False
  have "index_ok (snd (load_hash_lines unhex f first (db_lines file) (0, ix)))" for f first
    using assms by (intro load_hash_lines_ok) simp
  with False assms show ?thesis
    by (auto simp: load_file_def Let_def split: prod.splits option.splits) (metis snd_conv)+
qed

lemma load_entries_ok: "index_ok ix \<Longrightarrow> index_ok (snd (load_entries unhex ac_build pua entries stats ix))"
proof (induction unhex ac_build pua entries stats ix rule: load_entries.induct)
  case (3 unhex ac_build pua f es stats ix)
  then show ?case
    using load_file_ok [of ix unhex ac_build f False] by (auto simp: Let_def split: prod.splits option.splits)
qed simp_all

lemma noted_sort [simp]: "noted sizes any_size (ht_sort t) \<longleftrightarrow> noted sizes any_size t"
  by (simp add: noted_def ht_sort_def)

lemma load_from_directory_ok: "index_ok ix \<Longrightarrow> index_ok (snd (load_from_directory unhex ac_build pua entries ix))"
  using load_entries_ok [of ix unhex ac_build pua entries no_stats]
  by (auto simp: load_from_directory_def index_sort_def index_ok_def Let_def split: prod.splits option.splits)

lemma ht_lookup_needs_size:
  assumes "noted sizes any_size t" and "\<not> any_size" and "n \<notin> set sizes"
  shows "ht_lookup t h (Some n) = None"
proof -
  have "\<not> size_matches (he_size e) (Some n)" if "e \<in> set t" for e
    using assms that by (cases "he_size e") (auto simp: noted_def)
  then show ?thesis
    by (auto simp: ht_lookup_def find_None_iff split: option.splits dest!: set_takeWhileD in_set_dropD)
qed

lemma section_digest_of_size:
  "section_digest_of md5 sha wanted bs s = Some d \<Longrightarrow> sd_size d = s_size_of_raw_data s \<and> wanted (sd_size d)"
  by (auto simp: section_digest_of_def Let_def split: if_splits bind_splits)

lemma section_digest_of_wanted:
  "wanted (s_size_of_raw_data s) \<Longrightarrow>
   section_digest_of md5 sha wanted bs s = section_digest_of md5 sha (\<lambda>_. True) bs s"
  by (simp add: section_digest_of_def Let_def)

lemma section_digest_of_unwanted:
  "\<not> wanted (s_size_of_raw_data s) \<Longrightarrow> section_digest_of md5 sha wanted bs s = None"
  by (simp add: section_digest_of_def Let_def)

lemma evaluate_sections_wanted:
  fixes wanted
  assumes "index_ok ix" and wanted: "wanted = (\<lambda>sz. section_any_size ix \<or> sz \<in> set (section_sizes ix))"
  shows "evaluate_sections ix (List.map_filter (section_digest_of md5 sha wanted bs) ss) =
    evaluate_sections ix (List.map_filter (section_digest_of md5 sha (\<lambda>_. True) bs) ss)"
proof (induction ss)
  case (Cons s ss)
  show ?case
  proof (cases "wanted (s_size_of_raw_data s)")
    case True
    with Cons show ?thesis
      by (cases "section_digest_of md5 sha (\<lambda>_. True) bs s")
        (simp_all add: map_filter_simps section_digest_of_wanted [of wanted, OF True] cong: option.case_cong)
  next
    case False
    have "ht_lookup (section_sha256 ix) h (Some (s_size_of_raw_data s)) = None"
        "ht_lookup (section_md5 ix) h (Some (s_size_of_raw_data s)) = None" for h
      using False assms by (auto simp: index_ok_def intro: ht_lookup_needs_size)
    with Cons show ?thesis
      by (cases "section_digest_of md5 sha (\<lambda>_. True) bs s")
        (auto simp: map_filter_simps section_digest_of_unwanted [of wanted, OF False] dest: section_digest_of_size)
  qed
qed (simp add: map_filter_simps)

lemma section_digests_enough:
  assumes "index_ok ix"
  shows "evaluate_sections ix (section_digests pe_parse md5 sha ix bs) =
    evaluate_sections ix (pe_section_digests pe_parse md5 sha bs)"
proof (cases "section_sha256 ix = [] \<and> section_md5 ix = []")
  case True
  then have "evaluate_sections ix ds = None" for ds
    by (induction ds) (simp_all add: ht_lookup_def binary_search_by_key_def)
  then show ?thesis by simp
next
  case False
  then show ?thesis
    using evaluate_sections_wanted [OF assms refl]
    by (auto simp: section_digests_def pe_section_digests_def section_digests_where_def split: option.splits)
qed

text \<open>
  What the index saves itself never changes an answer. In an index filled by loading, hashing
  only the sections whose size some signature names gives the same answer as hashing all sections;
  and where the index says that an MD5 of a file of some size cannot matter, leaving it out gives
  the same answer as any MD5 that the allowlist does not name.
\<close>

theorem saved_digests_do_not_matter:
  fixes sha md5
  assumes "ix = snd (load_from_directory unhex ac_build pua entries index_new)"
  shows "evaluate ix d m sz (section_digests pe_parse md5 sha ix bs) = evaluate ix d m sz (pe_section_digests pe_parse md5 sha bs)
    \<and> (\<not> wants_file_md5 ix n \<and> m' \<notin> set (allow_md5 ix) \<longrightarrow> evaluate ix d (Some m') (Some n) ss = evaluate ix d None (Some n) ss)"
proof -
  have "index_ok (index_new :: 'a native_index)" by (simp add: index_ok_def index_new_def noted_def)
  then have ok: "index_ok ix" unfolding assms by (rule load_from_directory_ok)
  have "ht_lookup (file_md5 ix) m' (Some n) = None" if "\<not> wants_file_md5 ix n"
    using ok that by (auto simp: index_ok_def wants_file_md5_def intro: ht_lookup_needs_size)
  then have "\<not> wants_file_md5 ix n \<Longrightarrow> m' \<notin> set (allow_md5 ix) \<Longrightarrow>
      evaluate ix d (Some m') (Some n) ss = evaluate ix d None (Some n) ss"
    by (simp add: evaluate_def is_allowlisted_def split: option.split)
  moreover have "evaluate ix d m sz (section_digests pe_parse md5 sha ix bs) =
      evaluate ix d m sz (pe_section_digests pe_parse md5 sha bs)"
    unfolding evaluate_def section_digests_enough [OF ok, of pe_parse md5 sha bs] ..
  ultimately show ?thesis by blast
qed

section \<open>Examples\<close>

definition example_unhex :: "string \<Rightarrow> bytes option" where
  "example_unhex s = Some (replicate 32 (byte_of (hd s)))"

definition example_file :: db_file where
  "example_file = \<lparr>db_extension = ''hsb'', db_opens = True,
     db_lines = [''b:7:Second'', ''a:7:First'', ''a:8:Third''], db_fails = False\<rparr>"

definition example_loaded :: "unit native_index" where
  "example_loaded = index_new\<lparr>file_sha256 :=
     [\<lparr>he_hash = replicate 32 98, he_size = Some 7, he_name = ''Second''\<rparr>,
      \<lparr>he_hash = replicate 32 97, he_size = Some 7, he_name = ''First''\<rparr>,
      \<lparr>he_hash = replicate 32 97, he_size = Some 8, he_name = ''Third''\<rparr>]\<rparr>"

lemma example_load:
  "load_file example_unhex ac_build example_file finish (index_new :: unit native_index) =
     (Some (no_stats\<lparr>ls_file_hashes := 3\<rparr>), example_loaded)"
  by (simp add: load_file_def example_file_def hash_family_def useful_line_def MAX_LINE_BYTES_def trim_def is_whitespace_def
      index_ingest_def parse_hash_line_def example_unhex_def parse_u64_def from_str_radix_def digit_value_def u64_max_def
      store_hash_def ht_push_def byte_of_def family_stats_def example_loaded_def index_new_def)

lemma example_extension: "db_extension example_file = ''hsb''"
  by (simp add: example_file_def)

lemma example_md5_fields: "md5_sizes example_loaded = []" "\<not> md5_any_size example_loaded" "allow_md5 example_loaded = []"
  by (simp_all add: example_loaded_def index_new_def)

lemma example_order: "replicate 32 (97 :: byte) < replicate 32 98" "\<not> replicate 32 (98 :: byte) < replicate 32 97"
proof -
  have "replicate 32 (a :: byte) = a # replicate 31 a" for a by (simp add: numeral_eq_Suc)
  then show "replicate 32 (97 :: byte) < replicate 32 98" "\<not> replicate 32 (98 :: byte) < replicate 32 97" by simp_all
qed

theorem evaluate_exact_witness:
  "evaluate (snd (load_from_directory example_unhex (\<lambda>_. None) False [Some example_file] (index_new :: unit native_index)))
     (replicate 32 98) None (Some 7) [] = Some \<lparr>im_threat_name = ''Second'', im_origin = WholeFile\<rparr>"
proof -
  have "load_entries example_unhex (\<lambda>_. None) False [Some example_file] no_stats (index_new :: unit native_index) =
      (Some (no_stats\<lparr>ls_file_hashes := 3\<rparr>), example_loaded)"
    using example_load [of "\<lambda>_. None" False] by (simp add: add_stats_def no_stats_def example_extension)
  from evaluate_exact [OF this] show ?thesis
    by (simp add: linear_evaluate_def is_allowlisted_def linear_lookup_def example_loaded_def index_new_def)
qed

theorem saved_digests_do_not_matter_witness:
  "evaluate (snd (load_from_directory example_unhex (\<lambda>_. None) False [Some example_file] (index_new :: unit native_index)))
      (replicate 32 1) (Some (replicate 16 2)) (Some 7) [] =
   evaluate (snd (load_from_directory example_unhex (\<lambda>_. None) False [Some example_file] (index_new :: unit native_index)))
      (replicate 32 1) None (Some 7) []"
proof -
  let ?ix = "snd (load_from_directory example_unhex (\<lambda>_. None) False [Some example_file] (index_new :: unit native_index))"
  have "md5_sizes ?ix = []" "\<not> md5_any_size ?ix" "allow_md5 ?ix = []"
    by (simp_all add: load_from_directory_def example_load example_extension index_sort_def Let_def example_md5_fields)
  then show ?thesis
    by (intro mp [OF conjunct2 [OF saved_digests_do_not_matter [OF refl]]]) (simp add: wants_file_md5_def)
qed

text \<open>
  Loading a single database file leaves its tables in the order of the lines, and the binary search
  then misses digests that are there.
\<close>

lemma load_from_file_misses:
  "evaluate (snd (load_from_file example_unhex (\<lambda>_. None) example_file (index_new :: unit native_index)))
     (replicate 32 98) None (Some 7) [] = None"
proof -
  have "binary_search_by_key he_hash (replicate 32 98) (file_sha256 example_loaded) = None"
    by (simp add: binary_search_by_key_def example_loaded_def bs_loop.simps example_order less_not_sym)
  then have "ht_lookup (file_sha256 example_loaded) (replicate 32 98) (Some 7) = None" by (simp add: ht_lookup_def)
  then show ?thesis
    by (simp add: load_from_file_def example_load evaluate_def is_allowlisted_def)
qed

end
