(* ===== verification/Cascade.thy ===== *)
theory Cascade
  imports Rules Native_Index "HOL-Library.Product_Lexorder"
begin

text \<open>
  How the evidence of a scan becomes one verdict: \<^verbatim>\<open>EvidenceCascade::resolve\<close> and
  \<^verbatim>\<open>record_rule_failure\<close> of \<^verbatim>\<open>src/detection.rs\<close>. The lemmas say which sources convict a file, which of
  them may remove it, and that a file reported clean is never stopped. Scores and confidences are
  naturals with the saturation and wrap-around of \<^verbatim>\<open>u8\<close> written out; texts of errors are left out.
\<close>

section \<open>Model\<close>

text \<open>\<^verbatim>\<open>Iterator::max_by_key\<close>: among equal keys the last element wins.\<close>

definition max_by_key :: "('a \<Rightarrow> 'k :: linorder) \<Rightarrow> 'a list \<Rightarrow> 'a option" where
  "max_by_key key xs =
     foldl (\<lambda>best x. case best of None \<Rightarrow> Some x | Some b \<Rightarrow> if key x < key b then Some b else Some x) None xs"

record evidence_cascade =
  c_static :: scan_report
  c_native :: "index_match option"
  c_shard :: "string option"
  c_rules :: "rule_match list"
  c_similarity :: "similarity_match list"
  c_amsi :: "amsi_verdict option"

definition has_evidence :: "string \<Rightarrow> scan_report \<Rightarrow> bool" where
  "has_evidence c s \<longleftrightarrow> list_ex (\<lambda>item. code item = c) (r_evidence s)"

definition quarantine_eligible :: "evidence_cascade \<Rightarrow> bool" where
  "quarantine_eligible c \<longleftrightarrow>
     r_sha256 (c_static c) \<noteq> None \<and>
     ((r_verdict (c_static c) = Malicious \<and> has_evidence ''signature.exact_sha256'' (c_static c)) \<or>
      c_native c \<noteq> None \<or> c_shard c \<noteq> None)"

definition reputation_block_eligible :: "evidence_cascade \<Rightarrow> bool" where
  "reputation_block_eligible c \<longleftrightarrow>
     r_verdict (c_static c) = Malicious \<and> r_sha256 (c_static c) \<noteq> None \<and>
     has_evidence ''signature.reputation_sha256'' (c_static c)"

definition strongest_rule :: "rule_disposition \<Rightarrow> rule_match list \<Rightarrow> rule_match option" where
  "strongest_rule d rules = max_by_key rm_risk_score (filter (\<lambda>m. rm_disposition m = d) rules)"

definition suspicious_rule_score :: "rule_match list \<Rightarrow> nat" where
  "suspicious_rule_score rules =
     foldl max 0 (map rm_risk_score (filter (\<lambda>m. rm_disposition m = SuspiciousRule) rules))"

definition similarity_score :: "similarity_match list \<Rightarrow> nat" where
  "similarity_score ms =
     foldl max 0 (map (\<lambda>m. min 94 (saturating_add u8_max 82 (((sm_similarity m - 8500) div 125) mod 256))) ms)"

definition origin_score :: "match_origin \<Rightarrow> nat" where
  "origin_score origin = (case origin of WholeFile \<Rightarrow> 100 | PeSection \<Rightarrow> 95 | PatternMatch \<Rightarrow> 92)"

text \<open>Verdict, risk score, confidence, threat name, and whether execution is blocked.\<close>

type_synonym decision = "detection_verdict \<times> nat \<times> nat \<times> string option \<times> bool"

definition suspicious_decision :: "evidence_cascade \<Rightarrow> bool \<Rightarrow> decision" where
  "suspicious_decision c block =
     (let s = c_static c;
          rule_score = suspicious_rule_score (c_rules c);
          bonus = (if r_verdict s = Suspicious \<and> rule_score > 0 then 10 else 0)
      in (DSuspicious,
          min 99 (saturating_add u8_max (max (max (r_risk_score s) rule_score) (similarity_score (c_similarity c))) bonus),
          max (r_confidence s) 75,
          (case strongest_rule SuspiciousRule (c_rules c) of
             Some m \<Rightarrow> Some (rm_threat_name m)
           | None \<Rightarrow> (case c_similarity c of m # _ \<Rightarrow> Some (sm_threat_name m) | [] \<Rightarrow> Some ''Suspicious.StaticAnalysis'')),
          block))"

definition decide_cascade :: "evidence_cascade \<Rightarrow> decision" where
  "decide_cascade c =
     (let s = c_static c;
          amsi_detection = (case c_amsi c of Some v \<Rightarrow> is_provider_detection v | None \<Rightarrow> False);
          amsi_block = (case c_amsi c of Some v \<Rightarrow> should_block_execution v | None \<Rightarrow> False);
          block = (quarantine_eligible c \<or> reputation_block_eligible c \<or> amsi_block)
      in if r_verdict s = Malicious
         then (DMalicious, 100, max (r_confidence s) 99, Some ''Known.Malware.ExactSignature'', True)
         else case c_native c of
           Some m \<Rightarrow> (DMalicious, origin_score (im_origin m), origin_score (im_origin m), Some (im_threat_name m), True)
         | None \<Rightarrow>
             case c_shard c of
               Some name \<Rightarrow> (DMalicious, 100, 100, Some name, True)
             | None \<Rightarrow>
                 if amsi_detection then (DMalicious, 99, 99, Some ''AMSI.Provider.MalwareDetected'', True)
                 else case strongest_rule MaliciousRule (c_rules c) of
                   Some m \<Rightarrow> (DMalicious, max (rm_risk_score m) 95, 99, Some (rm_threat_name m), rm_authority m = ExecutionDeny)
                 | None \<Rightarrow>
                     if amsi_block then (DSuspicious, 90, 99, Some ''AMSI.Policy.BlockedByAdministrator'', block)
                     else if r_verdict s = Error then (DError, 0, 0, None, block)
                     else if r_verdict s = Suspicious \<or> suspicious_rule_score (c_rules c) > 0 \<or>
                        similarity_score (c_similarity c) > 0
                     then suspicious_decision c block
                     else (DClean, r_risk_score s, r_confidence s, None, block))"

definition resolve_cascade :: "evidence_cascade \<Rightarrow> detection_report" where
  "resolve_cascade c =
     (let s = c_static c; (verdict, risk, confidence, name, block) = decide_cascade c
      in \<lparr>d_verdict = verdict, d_risk_score = risk, d_confidence = confidence, d_threat_name = name,
          d_sha256 = r_sha256 s, d_file_size = r_file_size s, d_bytes_scanned = r_bytes_scanned s,
          d_truncated = r_truncated s, d_completeness = r_completeness s, d_static_report = Some s,
          d_rule_matches = c_rules c, d_similarity = c_similarity c, d_container = None, d_amsi = c_amsi c,
          d_error = r_error s, d_quarantine_eligible = quarantine_eligible c, d_block_eligible = block\<rparr>)"

definition record_rule_failure :: "bool \<Rightarrow> detection_report \<Rightarrow> detection_report" where
  "record_rule_failure failed r = (if failed then r\<lparr>d_completeness := TimedOut, d_error := True\<rparr> else r)"

section \<open>The largest key\<close>

lemma max_by_key_snoc:
  "max_by_key key (xs @ [x]) =
     (case max_by_key key xs of None \<Rightarrow> Some x | Some b \<Rightarrow> if key x < key b then Some b else Some x)"
  by (simp add: max_by_key_def)

lemma max_by_key_Nil [simp]: "max_by_key key [] = None"
  by (simp add: max_by_key_def)

lemma max_by_key_None [simp]: "max_by_key key xs = None \<longleftrightarrow> xs = []"
  by (induction xs rule: rev_induct) (auto simp: max_by_key_snoc split: option.split)

lemma max_by_key_Some:
  "max_by_key key xs = Some b \<Longrightarrow> b \<in> set xs \<and> (\<forall>x \<in> set xs. key x \<le> key b)"
proof (induction xs arbitrary: b rule: rev_induct)
  case (snoc x xs)
  show ?case
  proof (cases "max_by_key key xs")
    case None
    then show ?thesis using snoc.prems max_by_key_snoc [of key "[]" x] by simp
  next
    case (Some m)
    with snoc.IH have m: "m \<in> set xs" "\<forall>y \<in> set xs. key y \<le> key m" by auto
    with snoc.prems Some show ?thesis by (auto simp: max_by_key_snoc split: if_splits intro: order_trans)
  qed
qed simp

lemma foldl_max_le: "foldl max (a :: nat) xs \<le> k \<longleftrightarrow> a \<le> k \<and> (\<forall>x \<in> set xs. x \<le> k)"
  by (induction xs arbitrary: a) auto

lemma foldl_max_pos: "0 < foldl max (a :: nat) xs \<longleftrightarrow> 0 < a \<or> (\<exists>x \<in> set xs. 0 < x)"
  using foldl_max_le [of a xs 0] by auto

lemma similarity_score_pos [simp]: "0 < similarity_score ms \<longleftrightarrow> ms \<noteq> []"
proof -
  have "0 < min 94 (saturating_add u8_max 82 x)" for x by (simp add: saturating_add_def u8_max_def)
  then show ?thesis unfolding similarity_score_def foldl_max_pos by (cases ms) simp_all
qed

lemma similarity_score_le: "similarity_score ms \<le> 94"
  by (auto simp: similarity_score_def foldl_max_le)

lemma strongest_rule_None [simp]: "strongest_rule d rules = None \<longleftrightarrow> (\<forall>m \<in> set rules. rm_disposition m \<noteq> d)"
  by (auto simp: strongest_rule_def filter_empty_conv)

lemma strongest_rule_Some:
  "strongest_rule d rules = Some m \<Longrightarrow> m \<in> set rules \<and> rm_disposition m = d"
  unfolding strongest_rule_def by (auto dest: max_by_key_Some)

section \<open>The verdict\<close>

abbreviation convicts :: "evidence_cascade \<Rightarrow> bool" where
  "convicts c \<equiv> r_verdict (c_static c) = Malicious \<or> c_native c \<noteq> None \<or> c_shard c \<noteq> None \<or>
     c_amsi c = Some MalwareDetected \<or> (\<exists>m \<in> set (c_rules c). rm_disposition m = MaliciousRule)"

lemma resolve_fields [simp]:
  "d_verdict (resolve_cascade c) = fst (decide_cascade c)"
  "d_block_eligible (resolve_cascade c) = snd (snd (snd (snd (decide_cascade c))))"
  "d_quarantine_eligible (resolve_cascade c) = quarantine_eligible c"
  "d_risk_score (resolve_cascade c) = fst (snd (decide_cascade c))"
  "d_confidence (resolve_cascade c) = fst (snd (snd (decide_cascade c)))"
  "d_sha256 (resolve_cascade c) = r_sha256 (c_static c)"
  "d_rule_matches (resolve_cascade c) = c_rules c"
  "d_static_report (resolve_cascade c) = Some (c_static c)"
  "d_truncated (resolve_cascade c) = r_truncated (c_static c)"
  by (simp_all add: resolve_cascade_def case_prod_unfold Let_def)

text \<open>The branches of the cascade, in order.\<close>

lemma decide_cascade_cases:
  obtains (static) "r_verdict (c_static c) = Malicious"
      "decide_cascade c = (DMalicious, 100, max (r_confidence (c_static c)) 99, Some ''Known.Malware.ExactSignature'', True)"
  | (native) m where "c_native c = Some m" "r_verdict (c_static c) \<noteq> Malicious"
      "decide_cascade c = (DMalicious, origin_score (im_origin m), origin_score (im_origin m), Some (im_threat_name m), True)"
  | (shard) name where "c_shard c = Some name" "decide_cascade c = (DMalicious, 100, 100, Some name, True)"
  | (provider) "c_amsi c = Some MalwareDetected"
      "decide_cascade c = (DMalicious, 99, 99, Some ''AMSI.Provider.MalwareDetected'', True)"
  | (rule) m where "r_verdict (c_static c) \<noteq> Malicious" "c_native c = None" "c_shard c = None"
      "c_amsi c \<noteq> Some MalwareDetected" "strongest_rule MaliciousRule (c_rules c) = Some m"
      "decide_cascade c = (DMalicious, max (rm_risk_score m) 95, 99, Some (rm_threat_name m), rm_authority m = ExecutionDeny)"
  | (policy) "\<not> convicts c" "c_amsi c = Some BlockedByAdministrator"
      "decide_cascade c = (DSuspicious, 90, 99, Some ''AMSI.Policy.BlockedByAdministrator'', True)"
  | (failed) "\<not> convicts c" "c_amsi c \<noteq> Some BlockedByAdministrator" "r_verdict (c_static c) = Error"
      "decide_cascade c = (DError, 0, 0, None, False)"
  | (suspicious) "\<not> convicts c" "c_amsi c \<noteq> Some BlockedByAdministrator"
      "r_verdict (c_static c) = Suspicious \<or> suspicious_rule_score (c_rules c) > 0 \<or> c_similarity c \<noteq> []"
      "r_verdict (c_static c) \<noteq> Error" "decide_cascade c = suspicious_decision c False"
  | (clean) "\<not> convicts c" "c_amsi c \<noteq> Some BlockedByAdministrator" "r_verdict (c_static c) = Clean"
      "suspicious_rule_score (c_rules c) = 0" "c_similarity c = []"
      "decide_cascade c = (DClean, r_risk_score (c_static c), r_confidence (c_static c), None, False)"
proof -
  let ?s = "r_verdict (c_static c)"
  note eq = decide_cascade_def [of c, unfolded Let_def]
  consider "?s = Malicious" | m where "?s \<noteq> Malicious" "c_native c = Some m"
    | name where "?s \<noteq> Malicious" "c_native c = None" "c_shard c = Some name"
    | "?s \<noteq> Malicious" "c_native c = None" "c_shard c = None" "c_amsi c = Some MalwareDetected"
    | m where "?s \<noteq> Malicious" "c_native c = None" "c_shard c = None" "c_amsi c \<noteq> Some MalwareDetected"
        "strongest_rule MaliciousRule (c_rules c) = Some m"
    | "\<not> convicts c"
    using strongest_rule_None [of MaliciousRule "c_rules c"] by blast
  then show thesis
  proof cases
    case 6
    then have none: "?s \<noteq> Malicious" "c_native c = None" "c_shard c = None" "strongest_rule MaliciousRule (c_rules c) = None"
        "\<not> quarantine_eligible c" "\<not> reputation_block_eligible c"
        "\<not> (case c_amsi c of None \<Rightarrow> False | Some v \<Rightarrow> is_provider_detection v)"
      by (auto simp: quarantine_eligible_def reputation_block_eligible_def is_provider_detection_def split: option.splits)
    have amsi: "(case c_amsi c of None \<Rightarrow> False | Some v \<Rightarrow> should_block_execution v) \<longleftrightarrow> c_amsi c = Some BlockedByAdministrator"
      using 6 by (auto simp: should_block_execution_def split: option.splits)
    note eq = eq [unfolded amsi, simplified none, simplified]
    show ?thesis
      using 6 policy failed suspicious clean eq
      by (cases "c_amsi c = Some BlockedByAdministrator"; cases ?s) (auto split: if_splits)
  qed (use static native shard provider rule in
      \<open>simp add: eq is_provider_detection_def split: option.splits\<close>)+
qed

text \<open>The sources that stop an execution.\<close>

definition blocks :: "evidence_cascade \<Rightarrow> bool" where
  "blocks c \<longleftrightarrow>
     r_verdict (c_static c) = Malicious \<or> c_native c \<noteq> None \<or> c_shard c \<noteq> None \<or> c_amsi c = Some MalwareDetected \<or>
     (case strongest_rule MaliciousRule (c_rules c) of
        Some m \<Rightarrow> rm_authority m = ExecutionDeny
      | None \<Rightarrow> c_amsi c = Some BlockedByAdministrator)"

lemma decide_cascade_block: "snd (snd (snd (snd (decide_cascade c)))) = blocks c"
  by (cases rule: decide_cascade_cases [of c])
    (auto simp: blocks_def suspicious_decision_def Let_def split: option.split dest: strongest_rule_Some)

lemma decide_cascade_convicts: "fst (decide_cascade c) = DMalicious \<longleftrightarrow> convicts c"
  by (cases rule: decide_cascade_cases [of c])
    (auto simp: suspicious_decision_def Let_def dest: strongest_rule_Some)

lemma quarantine_convicts: "quarantine_eligible c \<Longrightarrow> convicts c \<and> blocks c"
  by (auto simp: quarantine_eligible_def blocks_def)

text \<open>
  (C15) The verdict on a file is malicious exactly when one of five sources convicts it: a known
  digest, the ClamAV index, a learned shard, an AMSI provider or a malicious rule. It is removed
  exactly when its digest is known and an identifying source (an exact signature, the index or a
  shard) convicts it, and then its execution is stopped as well; what is reported clean is never
  stopped.
\<close>

theorem resolve_exact:
  "let r = resolve_cascade c in
     (d_verdict r = DMalicious \<longleftrightarrow> convicts c) \<and>
     (should_quarantine r \<longleftrightarrow> d_sha256 r \<noteq> None \<and>
        (r_verdict (c_static c) = Malicious \<and> has_evidence ''signature.exact_sha256'' (c_static c) \<or>
         c_native c \<noteq> None \<or> c_shard c \<noteq> None)) \<and>
     (should_block r \<longleftrightarrow> blocks c) \<and>
     (should_quarantine r \<longrightarrow> should_block r) \<and>
     (d_verdict r = DClean \<longrightarrow> \<not> should_block r)"
proof -
  have "fst (decide_cascade c) = DClean \<Longrightarrow> \<not> blocks c"
    by (cases rule: decide_cascade_cases [of c]) (auto simp: decide_cascade_block [symmetric] suspicious_decision_def Let_def)
  then show ?thesis
    using quarantine_convicts [of c]
    by (auto simp: should_quarantine_def should_block_def Let_def decide_cascade_block decide_cascade_convicts quarantine_eligible_def)
qed

definition example_static :: scan_report where
  "example_static = \<lparr>r_verdict = Clean, r_content_type = Binary, r_risk_score = 0, r_confidence = 75, r_sha256 = Some ''ab'',
     r_file_size = 4, r_bytes_scanned = 4, r_truncated = False, r_completeness = Complete, r_evidence = [], r_error = False\<rparr>"

definition example_cascade :: evidence_cascade where
  "example_cascade = \<lparr>c_static = example_static, c_native = Some \<lparr>im_threat_name = ''Win.Test'', im_origin = PeSection\<rparr>,
     c_shard = None, c_rules = [], c_similarity = [], c_amsi = None\<rparr>"

lemma example_cascade_fields [simp]:
  "c_static example_cascade = example_static" "c_native example_cascade \<noteq> None" "c_rules example_cascade = []"
  "r_sha256 example_static = Some ''ab''" "r_risk_score example_static = 0" "r_confidence example_static = 75"
  by (simp_all add: example_cascade_def example_static_def)

theorem resolve_exact_witness:
  "should_quarantine (resolve_cascade example_cascade) \<and> should_block (resolve_cascade example_cascade)"
  using resolve_exact [of example_cascade] by (simp add: Let_def) blast

text \<open>
  Scores stay in range and agree with the verdict: with scores and confidences of at most 100
  coming in, none above 100 goes out; a conviction scores at least 92 with a confidence of at least
  92, a suspicion at most 99, an error nothing.
\<close>

theorem resolve_scores:
  assumes "r_risk_score (c_static c) \<le> 100" and "r_confidence (c_static c) \<le> 100"
    and "list_all (\<lambda>m. rm_risk_score m \<le> 100) (c_rules c)"
  shows "let r = resolve_cascade c in d_risk_score r \<le> 100 \<and> d_confidence r \<le> 100 \<and>
    (case d_verdict r of
       DMalicious \<Rightarrow> 92 \<le> d_risk_score r \<and> 92 \<le> d_confidence r
     | DSuspicious \<Rightarrow> d_risk_score r \<le> 99 \<and> 75 \<le> d_confidence r
     | DError \<Rightarrow> d_risk_score r = 0 \<and> d_confidence r = 0
     | DClean \<Rightarrow> d_risk_score r = r_risk_score (c_static c))"
proof -
  have origin: "92 \<le> origin_score o'" "origin_score o' \<le> 100" for o'
    by (simp_all add: origin_score_def split: match_origin.split)
  have rule: "rm_risk_score m \<le> 100" if "strongest_rule MaliciousRule (c_rules c) = Some m" for m
    using strongest_rule_Some [OF that] assms(3) by (auto simp: list_all_iff)
  show ?thesis
    by (cases rule: decide_cascade_cases [of c])
      (use assms(1,2) origin rule in \<open>auto simp: Let_def suspicious_decision_def\<close>)
qed

theorem resolve_scores_witness:
  "d_risk_score (resolve_cascade example_cascade) \<le> 100 \<and> 92 \<le> d_risk_score (resolve_cascade example_cascade)"
  using resolve_scores [of example_cascade] decide_cascade_convicts [of example_cascade]
  by (simp add: Let_def)

text \<open>
  A malicious rule that may only alert takes away the block an administrator's AMSI policy asks
  for: with the rule the execution is allowed, without it it is stopped.
\<close>

lemma alert_rule_lifts_policy_block:
  assumes "rm_disposition m = MaliciousRule" and "rm_authority m = AlertOnly"
    and "c = \<lparr>c_static = s, c_native = None, c_shard = None, c_rules = rules, c_similarity = [],
              c_amsi = Some BlockedByAdministrator\<rparr>"
    and "r_verdict s \<noteq> Malicious" and "rules = [m]"
  shows "\<not> should_block (resolve_cascade c) \<and> should_block (resolve_cascade (c\<lparr>c_rules := []\<rparr>))"
  using assms
  by (simp add: should_block_def decide_cascade_block blocks_def strongest_rule_def max_by_key_def)

end
