(* ===== verification/Trailing_Zip.thy ===== *)
theory Trailing_Zip
  imports Prelude
begin

text \<open>
  \<^verbatim>\<open>has_trailing_zip\<close> of \<^verbatim>\<open>src/detection.rs\<close>: does a file end with a ZIP end-of-central-directory record,
  whatever comes before it? The search runs backwards over the last bytes of the file. The theorem
  says exactly which records it finds; the lemma after it shows the ones its loop guard misses.
\<close>

section \<open>Model\<close>

definition EOCD_SIGNATURE :: bytes where "EOCD_SIGNATURE = [0x50, 0x4B, 5, 6]"
definition EOCD_RECORD :: nat where "EOCD_RECORD = 22"

text \<open>\<^verbatim>\<open>Iterator::rposition\<close>.\<close>

definition rposition :: "('a \<Rightarrow> bool) \<Rightarrow> 'a list \<Rightarrow> nat option" where
  "rposition P xs = (let hits = filter (\<lambda>i. P (xs ! i)) [0..<length xs] in if hits = [] then None else Some (last hits))"

text \<open>The checks on a record found at a position of the tail.\<close>

definition record_points_back :: "nat \<Rightarrow> bytes \<Rightarrow> nat \<Rightarrow> bool" where
  "record_points_back window_start tail found \<longleftrightarrow>
     found + EOCD_RECORD \<le> length tail \<and>
     (let record = slice tail found (found + EOCD_RECORD);
          comment = u16_of_le (slice record 20 22);
          directory_size = u32_of_le (slice record 12 16);
          directory_offset = u32_of_le (slice record 16 20)
      in found + EOCD_RECORD + comment = length tail \<and>
         directory_offset + directory_size \<le> window_start + found \<and> directory_size > 0)"

lemma rposition_less: "rposition P xs = Some i \<Longrightarrow> i < length xs \<and> P (xs ! i)"
  using last_in_set [of "filter (\<lambda>i. P (xs ! i)) [0..<length xs]"] by (auto simp: rposition_def Let_def split: if_splits)

function trailing_scan :: "nat \<Rightarrow> bytes \<Rightarrow> nat \<Rightarrow> bool" where
  "trailing_scan window_start tail search_end =
     (if search_end < EOCD_RECORD then False
      else case rposition (\<lambda>w. w = EOCD_SIGNATURE) (windows 4 (take search_end tail)) of
        None \<Rightarrow> False
      | Some found \<Rightarrow>
          record_points_back window_start tail found \<or> trailing_scan window_start tail (found + 4 - 1))"
  by pat_completeness auto

lemma length_windows: "length (windows n xs) = (if n \<le> length xs then length xs + 1 - n else 0)"
  by (simp add: windows_def)

termination trailing_scan
proof (relation "measure (\<lambda>(ws, tail, search_end). search_end)", goal_cases)
  case (2 ws tail search_end found)
  then show ?case using rposition_less [OF 2(2)] by (auto simp: length_windows EOCD_RECORD_def split: if_splits)
qed simp

declare trailing_scan.simps [simp del]

definition has_trailing_zip :: "bytes \<Rightarrow> bool" where
  "has_trailing_zip bs =
     (let window_start = length bs - (EOCD_RECORD + u16_max); tail = drop window_start bs
      in trailing_scan window_start tail (length tail))"

section \<open>What the search finds\<close>

definition sig_at :: "bytes \<Rightarrow> nat \<Rightarrow> bool" where
  "sig_at bs p \<longleftrightarrow> p + 4 \<le> length bs \<and> slice bs p (p + 4) = EOCD_SIGNATURE"

lemma rposition_None: "rposition P xs = None \<longleftrightarrow> (\<forall>i < length xs. \<not> P (xs ! i))"
  by (auto simp: rposition_def Let_def filter_empty_conv)

lemma sorted_last_max: "sorted xs \<Longrightarrow> (x :: nat) \<in> set xs \<Longrightarrow> x \<le> last xs"
  by (induction xs) (auto split: if_splits)

lemma rposition_max: "rposition P xs = Some i \<Longrightarrow> j < length xs \<Longrightarrow> P (xs ! j) \<Longrightarrow> j \<le> i"
  using sorted_last_max [of "filter (\<lambda>i. P (xs ! i)) [0..<length xs]" j]
  by (auto simp: rposition_def Let_def sorted_wrt_filter split: if_splits)

text \<open>The windows of a prefix of the tail that equal the signature.\<close>

lemma window_sig:
  assumes "e \<le> length tail"
  shows "i < length (windows 4 (take e tail)) \<and> windows 4 (take e tail) ! i = EOCD_SIGNATURE \<longleftrightarrow> i + 4 \<le> e \<and> sig_at tail i"
proof -
  have "slice (take e tail) i (i + 4) = slice tail i (i + 4)" if "i + 4 \<le> e"
    using that by (simp add: slice_def take_drop)
  then have "windows 4 (take e tail) ! i = slice tail i (i + 4)" if "i + 4 \<le> e"
    using assms that nth_upt [of 0 i "e - 3"] by (simp add: windows_def)
  moreover have "i < length (windows 4 (take e tail)) \<longleftrightarrow> i + 4 \<le> e"
    using assms by (auto simp: length_windows)
  ultimately show ?thesis using assms by (auto simp: sig_at_def)
qed

lemma rposition_sig:
  assumes "e \<le> length tail"
  shows "case rposition (\<lambda>w. w = EOCD_SIGNATURE) (windows 4 (take e tail)) of
      None \<Rightarrow> \<forall>q. q + 4 \<le> e \<longrightarrow> \<not> sig_at tail q
    | Some i \<Rightarrow> i + 4 \<le> e \<and> sig_at tail i \<and> (\<forall>q. q + 4 \<le> e \<longrightarrow> sig_at tail q \<longrightarrow> q \<le> i)"
proof (cases "rposition (\<lambda>w. w = EOCD_SIGNATURE) (windows 4 (take e tail))")
  case None
  then have "\<forall>q. q + 4 \<le> e \<longrightarrow> \<not> sig_at tail q" using window_sig [OF assms] unfolding rposition_None by blast
  with None show ?thesis by simp
next
  case (Some i)
  then show ?thesis using rposition_less [OF Some] rposition_max [OF Some] window_sig [OF assms] by auto
qed

lemma trailing_scan_exact:
  assumes "search_end \<le> length tail"
  shows "trailing_scan ws tail search_end \<longleftrightarrow> EOCD_RECORD \<le> search_end \<and>
    (\<exists>p. p + 4 \<le> search_end \<and> sig_at tail p \<and> record_points_back ws tail p \<and>
       (\<forall>q > p. q + 4 \<le> search_end \<longrightarrow> sig_at tail q \<longrightarrow> EOCD_RECORD \<le> q + 3))"
  using assms
proof (induction ws tail search_end rule: trailing_scan.induct)
  case (1 ws tail e)
  let ?hit = "rposition (\<lambda>w. w = EOCD_SIGNATURE) (windows 4 (take e tail))"
  note unfold = trailing_scan.simps [of ws tail e]
  consider "e < EOCD_RECORD" | "EOCD_RECORD \<le> e" "?hit = None" | i where "EOCD_RECORD \<le> e" "?hit = Some i" by fastforce
  then show ?case
  proof cases
    case 1
    then show ?thesis by (simp add: unfold)
  next
    case 2
    then show ?thesis using rposition_sig [OF "1.prems"] by (auto simp: unfold)
  next
    case (3 i)
    then have i: "i + 4 \<le> e" "sig_at tail i" and "\<forall>q. q + 4 \<le> e \<longrightarrow> sig_at tail q \<longrightarrow> q \<le> i"
      using rposition_sig [OF "1.prems"] by auto
    then have max: "q \<le> i" if "q + 4 \<le> e" "sig_at tail q" for q using that by blast
    show ?thesis
    proof (cases "record_points_back ws tail i")
      case True
      have "\<forall>q > i. q + 4 \<le> e \<longrightarrow> sig_at tail q \<longrightarrow> EOCD_RECORD \<le> q + 3" using max by fastforce
      with True 3 i show ?thesis by (auto simp: unfold)
    next
      case False
      have IH: "trailing_scan ws tail (i + 3) \<longleftrightarrow> EOCD_RECORD \<le> i + 3 \<and>
          (\<exists>p. p + 4 \<le> i + 3 \<and> sig_at tail p \<and> record_points_back ws tail p \<and>
             (\<forall>q > p. q + 4 \<le> i + 3 \<longrightarrow> sig_at tail q \<longrightarrow> EOCD_RECORD \<le> q + 3))"
        using "1.IH" [OF _ 3(2)] 3(1) i "1.prems" by (simp add: add.commute)
      let ?reached = "\<lambda>e p. p + 4 \<le> e \<and> sig_at tail p \<and> record_points_back ws tail p \<and>
          (\<forall>q > p. q + 4 \<le> e \<longrightarrow> sig_at tail q \<longrightarrow> EOCD_RECORD \<le> q + 3)"
      have "?reached e p \<longleftrightarrow> EOCD_RECORD \<le> i + 3 \<and> ?reached (i + 3) p" for p
      proof
        assume p: "?reached e p"
        with False max [of p] have "p < i" by (cases "p = i") auto
        with p i show "EOCD_RECORD \<le> i + 3 \<and> ?reached (i + 3) p" by auto
      next
        assume p: "EOCD_RECORD \<le> i + 3 \<and> ?reached (i + 3) p"
        have "EOCD_RECORD \<le> q + 3" if q: "p < q" "q + 4 \<le> e" "sig_at tail q" for q
          using max [OF q(2,3)] p q by (cases "q = i") auto
        with p i show "?reached e p" by auto
      qed
      with 3 False IH show ?thesis by (simp add: unfold add.commute)
    qed
  qed
qed

text \<open>A well-formed record at a position of the file, with nothing after it but its own comment.\<close>

definition eocd_at :: "bytes \<Rightarrow> nat \<Rightarrow> bool" where
  "eocd_at bs p \<longleftrightarrow>
     sig_at bs p \<and> p + 22 + u16_of_le (slice bs (p + 20) (p + 22)) = length bs \<and>
     0 < u32_of_le (slice bs (p + 12) (p + 16)) \<and>
     u32_of_le (slice bs (p + 16) (p + 20)) + u32_of_le (slice bs (p + 12) (p + 16)) \<le> p"

lemma slice_drop: "slice (drop k xs) i j = slice xs (k + i) (k + j)"
  by (simp add: slice_def drop_take add.commute)

lemma slice_slice: "j \<le> b \<Longrightarrow> slice (slice xs a (a + b)) i j = slice xs (a + i) (a + j)"
  by (simp add: slice_def drop_take add.commute)

lemma sig_at_drop: "k \<le> length bs \<Longrightarrow> sig_at (drop k bs) p \<longleftrightarrow> sig_at bs (k + p)"
  unfolding sig_at_def slice_drop add.assoc by auto

lemma record_points_back_slices:
  "record_points_back k tail p \<longleftrightarrow>
     p + 22 + u16_of_le (slice tail (p + 20) (p + 22)) = length tail \<and>
     u32_of_le (slice tail (p + 16) (p + 20)) + u32_of_le (slice tail (p + 12) (p + 16)) \<le> k + p \<and>
     0 < u32_of_le (slice tail (p + 12) (p + 16))"
  by (auto simp: record_points_back_def Let_def EOCD_RECORD_def slice_slice)

lemma record_points_back_eocd:
  assumes "k \<le> length bs"
  shows "sig_at (drop k bs) p \<and> record_points_back k (drop k bs) p \<longleftrightarrow> eocd_at bs (k + p)"
proof -
  have "p + 22 + n = length (drop k bs) \<longleftrightarrow> k + p + 22 + n = length bs" for n using assms by auto
  then show ?thesis
    unfolding record_points_back_slices eocd_at_def sig_at_drop [OF assms] slice_drop add.assoc [symmetric] by auto
qed

text \<open>
  The search for an appended archive finds a record exactly when a well-formed
  end-of-central-directory record ends the file and every later occurrence of the signature lies at
  least 19 bytes into the window that is searched. So it never takes a file without such a record
  for an archive, and a record with no later signature is always found.
\<close>

theorem has_trailing_zip_exact:
  "has_trailing_zip bs \<longleftrightarrow>
     (\<exists>p. eocd_at bs p \<and> (\<forall>q > p. sig_at bs q \<longrightarrow> 19 \<le> q - (length bs - (22 + 65535))))"
proof -
  define k where "k = length bs - (22 + 65535)"
  have k: "k \<le> length bs" by (simp add: k_def)
  have window: "k \<le> p" if "eocd_at bs p" for p
    using that u16_of_le_bound [of "slice bs (p + 20) (p + 22)"] by (auto simp: eocd_at_def k_def)
  have "has_trailing_zip bs \<longleftrightarrow> EOCD_RECORD \<le> length (drop k bs) \<and>
     (\<exists>p. p + 4 \<le> length (drop k bs) \<and> sig_at (drop k bs) p \<and> record_points_back k (drop k bs) p \<and>
       (\<forall>q > p. q + 4 \<le> length (drop k bs) \<longrightarrow> sig_at (drop k bs) q \<longrightarrow> EOCD_RECORD \<le> q + 3))"
    unfolding has_trailing_zip_def Let_def EOCD_RECORD_def u16_max_def k_def [symmetric]
    by (subst trailing_scan_exact) (simp_all add: EOCD_RECORD_def)
  also have "\<dots> \<longleftrightarrow> 22 \<le> length bs - k \<and> (\<exists>p. eocd_at bs (k + p) \<and>
      (\<forall>q > p. q + 4 \<le> length bs - k \<longrightarrow> sig_at bs (k + q) \<longrightarrow> 22 \<le> q + 3))"
    unfolding record_points_back_eocd [OF k, symmetric] sig_at_drop [OF k, symmetric] EOCD_RECORD_def
    by (auto simp: sig_at_def)
  also have "\<dots> \<longleftrightarrow> (\<exists>p. eocd_at bs p \<and> (\<forall>q > p. sig_at bs q \<longrightarrow> 19 \<le> q - k))" (is "?l \<longleftrightarrow> ?r")
  proof
    assume ?l
    then obtain p where p: "eocd_at bs (k + p)" "\<forall>q > p. q + 4 \<le> length bs - k \<longrightarrow> sig_at bs (k + q) \<longrightarrow> 22 \<le> q + 3" by blast
    have "19 \<le> q - k" if q: "k + p < q" "sig_at bs q" for q
    proof -
      obtain r where "q = k + r" using q(1) le_Suc_ex [of k q] by auto
      then show ?thesis using p(2) [rule_format, of r] q by (auto simp: sig_at_def)
    qed
    with p(1) show ?r by blast
  next
    assume ?r
    then obtain p where p: "eocd_at bs p" "\<forall>q > p. sig_at bs q \<longrightarrow> 19 \<le> q - k" by blast
    then have "k \<le> p" "p + 22 \<le> length bs" using window [OF p(1)] by (auto simp: eocd_at_def)
    with p(1) have "eocd_at bs (k + (p - k))" "22 \<le> length bs - k" by auto
    moreover have "22 \<le> q + 3" if "p - k < q" "sig_at bs (k + q)" for q
      using p(2) [rule_format, of "k + q"] that by auto
    ultimately show ?l by blast
  qed
  finally show ?thesis by (simp add: k_def)
qed

definition example_tail :: bytes where
  "example_tail = 0 # EOCD_SIGNATURE @ [0, 0, 0, 0, 0, 0, 0, 0, 1, 0, 0, 0, 0, 0, 0, 0, 0, 0]"

lemma sig_at_check:
  assumes "length bs = 23"
  shows "sig_at bs q \<longleftrightarrow> q \<in> set (filter (\<lambda>q. slice bs q (q + 4) = EOCD_SIGNATURE) [0..<20])"
  using assms by (auto simp: sig_at_def)

lemma example_tail_sig: "sig_at example_tail q \<longleftrightarrow> q = 1"
  by (subst sig_at_check) (simp_all add: example_tail_def EOCD_SIGNATURE_def slice_def upt_rec)

lemma example_tail_eocd: "eocd_at example_tail 1"
  by (simp add: eocd_at_def example_tail_sig) (simp add: example_tail_def EOCD_SIGNATURE_def slice_def u16_of_le_def u32_of_le_def)

theorem has_trailing_zip_exact_witness: "has_trailing_zip example_tail"
  unfolding has_trailing_zip_exact using example_tail_eocd by (intro exI [of _ 1]) (simp add: example_tail_sig)

text \<open>
  The loop goes on only while 22 bytes are left to search, although a record may begin in them:
  when the bytes of the record itself hold the signature once more near the start of the window, the
  record before it is not looked at.
\<close>

definition hidden_tail :: bytes where
  "hidden_tail = 0 # EOCD_SIGNATURE @ EOCD_SIGNATURE @ [0, 0, 0, 0, 1, 0, 0, 0, 0, 0, 0, 0, 0, 0]"

lemma hidden_tail_sig: "sig_at hidden_tail q \<longleftrightarrow> q = 1 \<or> q = 5"
  by (subst sig_at_check) (auto simp: hidden_tail_def EOCD_SIGNATURE_def slice_def upt_rec)

lemma has_trailing_zip_misses: "eocd_at hidden_tail 1 \<and> \<not> has_trailing_zip hidden_tail"
proof -
  have [simp]: "length hidden_tail = 23" by (simp add: hidden_tail_def EOCD_SIGNATURE_def)
  have "\<not> record_points_back 0 hidden_tail 5" by (simp add: record_points_back_def EOCD_RECORD_def)
  then have "\<not> trailing_scan 0 hidden_tail 23"
    by (subst trailing_scan_exact) (auto simp: hidden_tail_sig EOCD_RECORD_def dest!: spec [of _ 5])
  moreover have "eocd_at hidden_tail 1"
    by (simp add: eocd_at_def hidden_tail_sig) (simp add: hidden_tail_def EOCD_SIGNATURE_def slice_def u16_of_le_def u32_of_le_def)
  ultimately show ?thesis by (simp add: has_trailing_zip_def EOCD_RECORD_def u16_max_def)
qed

end
