(* ===== verification/Vba.thy ===== *)
theory Vba
  imports Prelude
begin

text \<open>
  The VBA container decompressor, \<^verbatim>\<open>src/vba.rs\<close>. Each \<^verbatim>\<open>Err\<close> is a constructor of \<open>vba_error\<close>. The three
  nested loops are three functions: the copies of one token, the eight bits of one flag byte, and
  the flag bytes of one chunk; the outermost loop goes over the chunks. The lemmas show that the
  decompressor always returns, never exceeds the output limit it is given, and restores data
  stored in raw chunks.
\<close>

section \<open>Model\<close>

datatype vba_error = InvalidContainer | TruncatedHeader | InvalidChunk | OffsetOverflow | InvalidRaw
  | OutputLimit | MissingFlags | TruncatedToken | BeforeLiteral | InvalidCopy | CopyUnderflow

text \<open>The number of significant bits of a number, \<^verbatim>\<open>BITS - leading_zeros\<close>.\<close>

fun bit_length :: "nat \<Rightarrow> nat" where
  "bit_length n = (if n = 0 then 0 else Suc (bit_length (n div 2)))"

declare bit_length.simps [simp del]

definition offset_bits :: "nat \<Rightarrow> nat" where
  "offset_bits produced = min 12 (max 4 (bit_length (produced - 1)))"

fun copy_loop :: "nat \<Rightarrow> nat \<Rightarrow> bytes \<Rightarrow> vba_error + bytes" where
  "copy_loop 0 distance out = Inr out"
| "copy_loop (Suc n) distance out =
     (case checked_sub (length out) distance of
        None \<Rightarrow> Inl CopyUnderflow
      | Some source \<Rightarrow>
          (case get_at out source of
             None \<Rightarrow> Inl CopyUnderflow
           | Some v \<Rightarrow> copy_loop n distance (out @ [v])))"

definition copy_token :: "bytes \<Rightarrow> nat \<Rightarrow> nat \<Rightarrow> nat \<times> bytes \<Rightarrow> vba_error + nat \<times> bytes" where
  "copy_token inp start maximum st =
     (case st of (off, out) \<Rightarrow>
        case get_range inp off (off + 2) of
          None \<Rightarrow> Inl TruncatedToken
        | Some raw \<Rightarrow>
            (let token = u16_of_le raw; produced = length out - start in
             if produced = 0 then Inl BeforeLiteral
             else let length_bits = 16 - offset_bits produced;
                      len = token mod 2 ^ length_bits + 3;
                      distance = token div 2 ^ length_bits + 1
               in if distance > produced \<or> saturating_add usize_max (length out) len > maximum \<or>
                     saturating_add usize_max (length out) len > saturating_add usize_max start 4096
                  then Inl InvalidCopy
                  else case copy_loop len distance out of
                    Inl e \<Rightarrow> Inl e
                  | Inr out' \<Rightarrow> Inr (off + 2, out')))"

text \<open>The bits of one flag byte, from the lowest.\<close>

fun flag_bits :: "bytes \<Rightarrow> nat \<Rightarrow> nat \<Rightarrow> nat \<Rightarrow> nat \<Rightarrow> nat list \<Rightarrow> nat \<times> bytes \<Rightarrow> vba_error + nat \<times> bytes" where
  "flag_bits inp chunk_end start maximum flags [] st = Inr st"
| "flag_bits inp chunk_end start maximum flags (b # bs) (off, out) =
     (if off \<ge> chunk_end then Inr (off, out)
      else if even (flags div 2 ^ b) then
        (if length out \<ge> maximum then Inl OutputLimit
         else flag_bits inp chunk_end start maximum flags bs (off + 1, out @ [inp ! off]))
      else case copy_token inp start maximum (off, out) of
        Inl e \<Rightarrow> Inl e
      | Inr st' \<Rightarrow> flag_bits inp chunk_end start maximum flags bs st')"

lemma flag_bits_offset: "flag_bits inp chunk_end start maximum flags bs st = Inr (off', out') \<Longrightarrow> fst st \<le> off'"
proof (induction inp chunk_end start maximum flags bs st rule: flag_bits.induct)
  case (2 inp chunk_end start maximum flags b bs off out)
  then show ?case
    by (auto simp: copy_token_def Let_def split: if_splits sum.splits option.splits)
qed simp

function chunk_tokens :: "bytes \<Rightarrow> nat \<Rightarrow> nat \<Rightarrow> nat \<Rightarrow> nat \<times> bytes \<Rightarrow> vba_error + bytes" where
  "chunk_tokens inp chunk_end start maximum (off, out) =
     (if off < chunk_end then
        (case get_at inp off of
           None \<Rightarrow> Inl MissingFlags
         | Some flags \<Rightarrow>
             (case flag_bits inp chunk_end start maximum (unat flags) [0..<8] (off + 1, out) of
                Inl e \<Rightarrow> Inl e
              | Inr st' \<Rightarrow> chunk_tokens inp chunk_end start maximum st'))
      else Inr out)"
  by pat_completeness auto
termination
  by (relation "measure (\<lambda>(inp, chunk_end, start, maximum, off, out). chunk_end - off)")
     (auto dest!: flag_bits_offset)

declare chunk_tokens.simps [simp del]

text \<open>The header of one chunk: its end and whether it is compressed.\<close>

definition chunk_header :: "bytes \<Rightarrow> nat \<Rightarrow> vba_error + nat \<times> bool" where
  "chunk_header inp off =
     (case get_range inp off (off + 2) of
        None \<Rightarrow> Inl TruncatedHeader
      | Some raw \<Rightarrow>
          (let header = u16_of_le raw in
           if header div 4096 mod 8 \<noteq> 3 then Inl InvalidChunk
           else case checked_add usize_max off (saturating_add usize_max (header mod 4096) 3) of
             None \<Rightarrow> Inl OffsetOverflow
           | Some en \<Rightarrow> Inr (min en (length inp), header \<ge> 32768)))"

lemma chunk_header_advances: "chunk_header inp off = Inr (en, c) \<Longrightarrow> off + 2 \<le> en \<and> en \<le> length inp"
  by (auto simp: chunk_header_def Let_def saturating_add_def usize_max_def split: option.splits if_splits)

function chunks :: "bytes \<Rightarrow> nat \<Rightarrow> nat \<times> bytes \<Rightarrow> vba_error + bytes" where
  "chunks inp maximum (off, out) =
     (if off < length inp then
        (case chunk_header inp off of
           Inl e \<Rightarrow> Inl e
         | Inr (chunk_end, compressed) \<Rightarrow>
             if \<not> compressed then
               (case get_range inp (off + 2) chunk_end of
                  None \<Rightarrow> Inl InvalidRaw
                | Some raw \<Rightarrow>
                    if saturating_add usize_max (length out) (length raw) > maximum then Inl OutputLimit
                    else chunks inp maximum (chunk_end, out @ raw))
             else
               (case chunk_tokens inp chunk_end (length out) maximum (off + 2, out) of
                  Inl e \<Rightarrow> Inl e
                | Inr out' \<Rightarrow> chunks inp maximum (chunk_end, out')))
      else Inr out)"
  by pat_completeness auto
termination
  by (relation "measure (\<lambda>(inp, maximum, off, out). length inp - off)")
     (auto dest!: chunk_header_advances)

declare chunks.simps [simp del]

definition decompress :: "bytes \<Rightarrow> nat \<Rightarrow> vba_error + bytes" where
  "decompress inp maximum =
     (if inp = [] \<or> hd inp \<noteq> 1 then Inl InvalidContainer else chunks inp maximum (1, []))"

section \<open>The output limit\<close>

lemma copy_loop_length: "copy_loop n distance out = Inr out' \<Longrightarrow> length out' = length out + n \<and> prefix out out'"
  by (induction n distance out rule: copy_loop.induct) (auto split: option.splits simp: prefix_def)

lemma copy_token_bound:
  assumes "copy_token inp start maximum (off, out) = Inr (off', out')" "maximum < usize_max"
  shows "length out' \<le> maximum \<and> prefix out out'"
  using assms by (auto simp: copy_token_def Let_def saturating_add_def min_def split: option.splits if_splits sum.splits
      dest!: copy_loop_length)

lemma flag_bits_bound:
  "flag_bits inp chunk_end start maximum flags bs (off, out) = Inr (off', out') \<Longrightarrow> maximum < usize_max \<Longrightarrow>
     length out \<le> maximum \<Longrightarrow> length out' \<le> maximum \<and> prefix out out'"
proof (induction bs arbitrary: off out)
  case (Cons b bs)
  show ?case
  proof (cases "off < chunk_end \<and> odd (flags div 2 ^ b)")
    case True
    with Cons.prems(1) obtain off1 out1 where t: "copy_token inp start maximum (off, out) = Inr (off1, out1)"
      "flag_bits inp chunk_end start maximum flags bs (off1, out1) = Inr (off', out')"
      by (auto split: sum.splits if_splits)
    from copy_token_bound [OF t(1) Cons.prems(2)] Cons.IH [OF t(2) Cons.prems(2)] show ?thesis
      using prefix_order.order_trans by blast
  next
    case False
    with Cons.prems Cons.IH [of "off + 1" "out @ [inp ! off]"] show ?thesis
      by (auto split: if_splits dest: append_prefixD)
  qed
qed simp

lemma chunk_tokens_bound:
  "chunk_tokens inp chunk_end start maximum st = Inr out' \<Longrightarrow> maximum < usize_max \<Longrightarrow>
     length (snd st) \<le> maximum \<Longrightarrow> length out' \<le> maximum \<and> prefix (snd st) out'"
proof (induction inp chunk_end start maximum st rule: chunk_tokens.induct)
  case (1 inp chunk_end start maximum off out)
  show ?case
  proof (cases "off < chunk_end")
    case True
    with 1(2) obtain flags off1 out1 where
      f: "get_at inp off = Some flags" "flag_bits inp chunk_end start maximum (unat flags) [0..<8] (off + 1, out) = Inr (off1, out1)"
      "chunk_tokens inp chunk_end start maximum (off1, out1) = Inr out'"
      by (auto simp: chunk_tokens.simps [of inp chunk_end start maximum off out] simp del: get_at_Some upt.simps
          split: option.splits sum.splits)
    from flag_bits_bound [OF f(2) 1(3)] 1(1) [OF True f(1,2,3) 1(3)] 1(4) show ?thesis
      using prefix_order.order_trans by fastforce
  next
    case False
    with 1(2-) show ?thesis by (simp add: chunk_tokens.simps [of inp chunk_end start maximum off out])
  qed
qed

lemma chunks_bound:
  "chunks inp maximum st = Inr out' \<Longrightarrow> maximum < usize_max \<Longrightarrow> length (snd st) \<le> maximum \<Longrightarrow>
     length out' \<le> maximum \<and> prefix (snd st) out'"
proof (induction inp maximum st rule: chunks.induct)
  case (1 inp maximum off out)
  show ?case
  proof (cases "off < length inp")
    case True
    with 1(3) obtain chunk_end compressed where h: "chunk_header inp off = Inr (chunk_end, compressed)"
      by (auto simp: chunks.simps [of inp maximum off out] split: sum.splits)
    show ?thesis
    proof (cases compressed)
      case True
      with 1(3) \<open>off < length inp\<close> h obtain out1 where
        t: "chunk_tokens inp chunk_end (length out) maximum (off + 2, out) = Inr out1"
        "chunks inp maximum (chunk_end, out1) = Inr out'"
        by (auto simp: chunks.simps [of inp maximum off out] split: sum.splits)
      from chunk_tokens_bound [OF t(1) 1(4)] 1(5) have "length out1 \<le> maximum" "prefix out out1" by simp_all
      with 1(2) [OF \<open>off < length inp\<close> h refl _ t(1,2) 1(4)] True show ?thesis
        using prefix_order.order_trans by fastforce
    next
      case False
      with 1(3) \<open>off < length inp\<close> h obtain raw where
        r: "get_range inp (off + 2) chunk_end = Some raw" "\<not> saturating_add usize_max (length out) (length raw) > maximum"
        "chunks inp maximum (chunk_end, out @ raw) = Inr out'"
        by (auto simp: chunks.simps [of inp maximum off out] simp del: get_range_Some split: option.splits if_splits)
      then have "length (out @ raw) \<le> maximum" using 1(4) by (auto simp: saturating_add_def min_def split: if_splits)
      with 1(1) [OF \<open>off < length inp\<close> h refl False r(1,2,3) 1(4)] show ?thesis by (auto dest: append_prefixD)
    qed
  next
    case False
    with 1(3-) show ?thesis by (simp add: chunks.simps [of inp maximum off out])
  qed
qed

section \<open>Storing without compression\<close>

text \<open>Data cut into raw chunks of up to 4096 bytes, as the format stores it uncompressed.\<close>

function raw_chunks :: "bytes \<Rightarrow> bytes" where
  "raw_chunks content =
     (if content = [] then []
      else let n = min 4096 (length content) in
        word_of_nat ((n - 1) mod 256) # word_of_nat (48 + (n - 1) div 256) # take n content @ raw_chunks (drop n content))"
  by pat_completeness auto
termination by (relation "measure length") auto

declare raw_chunks.simps [simp del]

definition vba_store :: "bytes \<Rightarrow> bytes" where
  "vba_store content = 1 # raw_chunks content"

lemma raw_header:
  assumes n: "0 < n" "n \<le> 4096"
    and inp: "inp = pre @ word_of_nat ((n - 1) mod 256) # word_of_nat (48 + (n - 1) div 256) # rest"
    and rest: "n \<le> length rest" and small: "length inp < usize_max"
  shows "chunk_header inp (length pre) = Inr (length pre + 2 + n, False)"
proof -
  let ?a = "(n - 1) mod 256" and ?b = "48 + (n - 1) div 256"
  have "(n - 1) div 256 < 16" using n by auto
  then have un: "unat (word_of_nat ?a :: byte) = ?a" "unat (word_of_nat ?b :: byte) = ?b"
    by (simp_all add: unat_of_nat take_bit_nat_eq_self del: of_nat_add of_nat_mod)
  have raw: "get_range inp (length pre) (length pre + 2) = Some [word_of_nat ?a, word_of_nat ?b]"
    by (simp add: inp get_range_def del: of_nat_add)
  have header: "u16_of_le [word_of_nat ?a, word_of_nat ?b] = 0x3000 + (n - 1)"
    using un mod_mult_div_eq [of "n - 1" 256] by (simp add: u16_of_le_def del: of_nat_add of_nat_mod)
  have m: "(0x3000 + (n - 1)) div 4096 mod 8 = 3" "(0x3000 + (n - 1)) mod 4096 = n - 1"
    using n mod_mult_self1 [of "n - 1" 3 4096] by (auto simp: add.commute)
  have len: "saturating_add usize_max (n - 1) 3 = n + 2" using n by (simp add: saturating_add_def usize_max_def)
  have add: "checked_add usize_max (length pre) (n + 2) = Some (length pre + 2 + n)"
    using small rest by (simp add: checked_add_def inp)
  show ?thesis
    unfolding chunk_header_def raw option.case header Let_def m len add
    using n rest by (simp add: inp)
qed

lemma chunks_raw:
  "inp = pre @ raw_chunks content \<Longrightarrow> length inp < usize_max \<Longrightarrow> maximum < usize_max \<Longrightarrow>
     length out + length content \<le> maximum \<Longrightarrow>
     chunks inp maximum (length pre, out) = Inr (out @ content)"
proof (induction content arbitrary: pre out rule: raw_chunks.induct)
  case (1 content)
  show ?case
  proof (cases "content = []")
    case True
    with 1(2) show ?thesis by (simp add: raw_chunks.simps [of "[]"] chunks.simps)
  next
    case False
    define n where "n = min 4096 (length content)"
    let ?h = "[word_of_nat ((n - 1) mod 256), word_of_nat (48 + (n - 1) div 256)] :: bytes"
    have n: "0 < n" "n \<le> 4096" "n \<le> length content" using False by (auto simp: n_def)
    have inp: "inp = pre @ ?h @ take n content @ raw_chunks (drop n content)"
      using 1(2) False by (simp add: raw_chunks.simps [of content] n_def Let_def)
    have header: "chunk_header inp (length pre) = Inr (length pre + 2 + n, False)"
      by (rule raw_header [OF n(1,2) _ _ 1(3), of pre "take n content @ raw_chunks (drop n content)"]) (use inp n in simp_all)
    have raw: "get_range inp (length pre + 2) (length pre + 2 + n) = Some (take n content)"
      using n by (simp add: inp get_range_def)
    have "chunks inp maximum (length (pre @ ?h @ take n content), out @ take n content) =
        Inr ((out @ take n content) @ drop n content)"
    proof (rule 1(1) [OF False])
      show "inp = (pre @ ?h @ take n content) @ raw_chunks (drop n content)" by (simp add: inp)
      show "length (out @ take n content) + length (drop n content) \<le> maximum" using 1(5) n by simp
    qed (use 1(3,4) n_def in auto)
    moreover have "saturating_add usize_max (length out) n \<le> maximum" using 1(4,5) n by (simp add: saturating_add_def)
    ultimately show ?thesis
      using header raw n by (simp add: chunks.simps [of inp maximum "length pre" out] inp [symmetric] add.assoc
          del: get_range_Some of_nat_add) (simp add: inp)
  qed
qed

section \<open>Properties\<close>

text \<open>
  Decompression is bounded: whatever the input, the decompressor returns (it is total), and when
  it succeeds the output is at most the limit the caller set. Hostile copy tokens cannot expand
  past it.
\<close>

theorem decompress_bounded:
  assumes "maximum < usize_max" "decompress inp maximum = Inr out"
  shows "length out \<le> maximum"
  using assms chunks_bound [of inp maximum "(1, [])" out] by (auto simp: decompress_def split: if_splits)

text \<open>
  Stored data comes back: a container made of raw chunks decompresses to the data, as long as
  the data fits the output limit.
\<close>

theorem decompress_store:
  assumes "length content \<le> maximum" "maximum < usize_max" "length (vba_store content) < usize_max"
  shows "decompress (vba_store content) maximum = Inr content"
  using assms chunks_raw [of "vba_store content" "[1]" content maximum "[]"]
  by (simp add: decompress_def vba_store_def)

lemma copy_loop_numeral [simp]:
  "copy_loop (numeral k) distance out =
     (case checked_sub (length out) distance of
        None \<Rightarrow> Inl CopyUnderflow
      | Some source \<Rightarrow>
          (case get_at out source of
             None \<Rightarrow> Inl CopyUnderflow
           | Some v \<Rightarrow> copy_loop (pred_numeral k) distance (out @ [v])))"
  by (simp add: numeral_eq_Suc)

lemma upt_0_8: "[0..<8] = [0, 1, 2, 3, 4, 5, 6, 7 :: nat]"
  by (simp add: upt_conv_Cons)

lemmas vba_eval =
  upt_0_8 decompress_def chunks.simps chunk_header_def chunk_tokens.simps copy_token_def offset_bits_def bit_length.simps
  get_range_def get_at_def u16_of_le_def saturating_add_def checked_add_def checked_sub_def usize_max_def Let_def

theorem decompress_bounded_witness:
  "decompress [1, 0x04, 0xb0, 0x04, 0x61, 0x62, 0x00, 0x00] 100 = Inr [0x61, 0x62, 0x62, 0x62, 0x62] \<and>
   length [0x61, 0x62, 0x62, 0x62, 0x62 :: byte] \<le> 100"
proof -
  have d: "decompress [1, 0x04, 0xb0, 0x04, 0x61, 0x62, 0x00, 0x00] 100 = Inr [0x61, 0x62, 0x62, 0x62, 0x62]"
    by (simp add: vba_eval)
  with decompress_bounded [OF _ d] show ?thesis by (simp add: usize_max_def)
qed

theorem decompress_store_witness: "decompress (vba_store [1, 2, 3]) 4096 = Inr [1, 2, 3]"
proof -
  have "length (vba_store [1, 2, 3]) = 6"
    by (simp add: vba_store_def raw_chunks.simps Let_def)
  with decompress_store [of "[1, 2, 3]" 4096] show ?thesis by (simp add: usize_max_def)
qed

end
