(* ===== verification/Archive.thy ===== *)
theory Archive
  imports Detection_Types Vba Engine_Text
begin

text \<open>
  Containers, \<^verbatim>\<open>src/archive.rs\<close>: the bounded walk through ZIP archives, OLE compound files and gzip
  streams that hands every embedded file to the scanner. The container readers are the third-party
  crates \<^verbatim>\<open>zip\<close>, \<^verbatim>\<open>cfb\<close> and \<^verbatim>\<open>flate2\<close>, gathered in \<open>archive_env\<close>; so is the clock, which says for the
  n-th time the code looks whether its time is up. The scanner is a function with a state of its own,
  because scanning one embedded file may influence how the next is judged. Names are UTF-8 bytes.
\<close>

section \<open>Model\<close>

definition MAX_ARCHIVE_DEPTH :: nat where "MAX_ARCHIVE_DEPTH = 3"
definition MAX_ARCHIVE_ENTRIES :: nat where "MAX_ARCHIVE_ENTRIES = 256"
definition MAX_ENTRY_BYTES :: nat where "MAX_ENTRY_BYTES = 16 * 1024 * 1024"
definition MAX_TOTAL_EXPANDED_BYTES :: nat where "MAX_TOTAL_EXPANDED_BYTES = 64 * 1024 * 1024"
definition MAX_COMPRESSION_RATIO :: nat where "MAX_COMPRESSION_RATIO = 200"
definition MAX_ENTRY_NAME_CHARS :: nat where "MAX_ENTRY_NAME_CHARS = 512"
definition MAX_FINDINGS :: nat where "MAX_FINDINGS = 32"

record zip_entry =
  ze_is_file :: bool
  ze_enclosed_name :: "bytes option"
  ze_encrypted :: bool
  ze_size :: nat
  ze_compressed :: nat
  ze_read :: "nat \<Rightarrow> bytes option"

record ole_stream =
  os_path :: bytes
  os_name :: bytes
  os_size :: nat
  os_read :: "(nat \<Rightarrow> bytes option) option"

text \<open>
  \<open>None\<close> stands for a container that does not open and for an entry that cannot be read; the argument
  of a reader is the limit \<^verbatim>\<open>Read::take\<close> puts on it.
\<close>

record archive_env =
  zip_open :: "bytes \<Rightarrow> zip_entry option list option"
  ole_open :: "bytes \<Rightarrow> ole_stream list option"
  gunzip :: "bytes \<Rightarrow> nat \<Rightarrow> bytes option"
  late :: "nat \<Rightarrow> bool"

record 's walk =
  w_report :: container_inspection
  w_checks :: nat
  w_leaf :: 's

type_synonym 's scan_leaf = "bytes \<Rightarrow> 's \<Rightarrow> detection_report \<times> 's"

definition on_report :: "(container_inspection \<Rightarrow> container_inspection) \<Rightarrow> 's walk \<Rightarrow> 's walk" where
  "on_report f w = w\<lparr>w_report := f (w_report w)\<rparr>"

abbreviation set_incomplete :: "container_inspection \<Rightarrow> container_inspection" where
  "set_incomplete r \<equiv> r\<lparr>incomplete := True\<rparr>"

abbreviation set_malformed :: "container_inspection \<Rightarrow> container_inspection" where
  "set_malformed r \<equiv> r\<lparr>malformed := True\<rparr>"

abbreviation set_limit_triggered :: "container_inspection \<Rightarrow> container_inspection" where
  "set_limit_triggered r \<equiv> r\<lparr>limit_triggered := True\<rparr>"

abbreviation reject_path :: "container_inspection \<Rightarrow> container_inspection" where
  "reject_path r \<equiv> r\<lparr>rejected_paths := rejected_paths r + 1\<rparr>"

definition record_finding :: "bytes \<Rightarrow> nat \<Rightarrow> detection_report \<Rightarrow> container_inspection \<Rightarrow> container_inspection" where
  "record_finding path depth report r =
     (if d_verdict report \<noteq> DClean \<and> length (findings r) < MAX_FINDINGS
      then r\<lparr>findings := findings r @
             [\<lparr>ef_path = path, ef_depth = depth, ef_verdict = d_verdict report, ef_risk_score = d_risk_score report,
               ef_threat_name = d_threat_name report, ef_sha256 = d_sha256 report,
               ef_quarantine = d_quarantine_eligible report, ef_block = d_block_eligible report\<rparr>]\<rparr>
      else r)"

definition scan_and_record :: "'s scan_leaf \<Rightarrow> bytes \<Rightarrow> nat \<Rightarrow> bytes \<Rightarrow> 's walk \<Rightarrow> 's walk" where
  "scan_and_record scan_leaf path depth contents w =
     (case scan_leaf contents (w_leaf w) of
        (report, leaf) \<Rightarrow> w\<lparr>w_report := record_finding path depth report (w_report w), w_leaf := leaf\<rparr>)"

definition slashes :: "bytes \<Rightarrow> bytes" where
  "slashes = map (\<lambda>b. if b = 0x5C then 0x2F else b)"

definition ends_with :: "bytes \<Rightarrow> bytes \<Rightarrow> bool" where
  "ends_with s suf \<longleftrightarrow> starts_with (rev s) (rev suf)"

definition observe_office_structure :: "bytes \<Rightarrow> container_inspection \<Rightarrow> container_inspection" where
  "observe_office_structure name r =
     (let lower = lowercase name;
          r = (if ends_with lower (bytes_of ''vbaproject.bin'') \<or> contains_bytes lower (bytes_of ''/macros/'')
               then r\<lparr>macro_projects := macro_projects r + 1\<rparr> else r)
      in if contains_bytes lower (bytes_of ''/embeddings/'') \<or>
            list_ex (\<lambda>e. ends_with lower (bytes_of e)) [''.exe'', ''.dll'', ''.scr'', ''.js'', ''.vbs'', ''.ps1'']
         then r\<lparr>executable_attachments := executable_attachments r + 1\<rparr> else r)"

text \<open>
  The source decodes lossily first; that replaces only bytes outside ASCII, which no needle has.
\<close>

definition count_external_relationships :: "bytes \<Rightarrow> nat" where
  "count_external_relationships bs =
     (let lower = lowercase bs in
      length (match_indices lower (bytes_of (''targetmode='' @ [CHR 0x22] @ ''external'' @ [CHR 0x22]))) +
      length (match_indices lower (bytes_of (''targetmode='' @ [CHR 0x27] @ ''external'' @ [CHR 0x27]))))"

section \<open>OLE compound files\<close>

definition is_vba_stream :: "bytes \<Rightarrow> bytes \<Rightarrow> bool" where
  "is_vba_stream path name \<longleftrightarrow>
     contains_bytes (lowercase path) (bytes_of ''/vba/'') \<or>
     lowercase name = lowercase (bytes_of ''_VBA_PROJECT'') \<or> lowercase name = lowercase (bytes_of ''dir'')"

text \<open>The first of at most sixteen places where a VBA container may start and that holds module text.\<close>

definition vba_source :: "bytes \<Rightarrow> bytes option" where
  "vba_source contents =
     (let offsets = take 16 (filter (\<lambda>i. contents ! i = 1) [0..<length contents]);
          sources = List.map_filter (\<lambda>i.
            case decompress (drop i contents) (4 * 1024 * 1024) of
              Inr t \<Rightarrow> if contains_bytes t (bytes_of ''Attribute VB_'') then Some t else None
            | Inl _ \<Rightarrow> None) offsets
      in case sources of [] \<Rightarrow> None | t # _ \<Rightarrow> Some t)"

definition ole_stream_step :: "'s scan_leaf \<Rightarrow> nat \<Rightarrow> ole_stream \<Rightarrow> 's walk \<Rightarrow> 's walk" where
  "ole_stream_step scan_leaf max_expanded s w =
     (let w = on_report (\<lambda>r. r\<lparr>scanned_entries := scanned_entries r + 1\<rparr>) w in
      if os_size s > MAX_ENTRY_BYTES \<or> saturating_add u64_max (expanded_bytes (w_report w)) (os_size s) > max_expanded
      then on_report set_incomplete w
      else let path = slashes (os_path s) in
        if length (chars path) > MAX_ENTRY_NAME_CHARS then on_report reject_path w
        else let vba = is_vba_stream path (os_name s);
                 w = (if vba then on_report (\<lambda>r. r\<lparr>macro_projects := macro_projects r + 1\<rparr>) w else w)
          in case os_read s of
               None \<Rightarrow> on_report set_malformed w
             | Some reader \<Rightarrow>
                 (case map_option (take (MAX_ENTRY_BYTES + 1)) (reader (MAX_ENTRY_BYTES + 1)) of
                    None \<Rightarrow> on_report set_malformed w
                  | Some contents \<Rightarrow>
                      if length contents \<noteq> os_size s then on_report set_malformed w
                      else let w = on_report (\<lambda>r. r\<lparr>expanded_bytes :=
                                     saturating_add u64_max (expanded_bytes r) (length contents)\<rparr>) w;
                               w = scan_and_record scan_leaf path 1 contents w
                        in if vba then
                             (case vba_source contents of
                                Some t \<Rightarrow> scan_and_record scan_leaf (path @ bytes_of ''#decompressed-vba'') 1 t w
                              | None \<Rightarrow> w)
                           else w))"

fun ole_streams :: "(nat \<Rightarrow> bool) \<Rightarrow> 's scan_leaf \<Rightarrow> nat \<Rightarrow> ole_stream list \<Rightarrow> 's walk \<Rightarrow> 's walk" where
  "ole_streams is_late scan_leaf max_expanded [] w = w"
| "ole_streams is_late scan_leaf max_expanded (s # ss) w =
     (let now = w_checks w; w = w\<lparr>w_checks := now + 1\<rparr> in
      if is_late now then on_report set_incomplete w
      else ole_streams is_late scan_leaf max_expanded ss (ole_stream_step scan_leaf max_expanded s w))"

text \<open>The inspection of a compound file starts a report of its own.\<close>

definition inspect_ole_with_limit :: "archive_env \<Rightarrow> 's scan_leaf \<Rightarrow> nat \<Rightarrow> bytes \<Rightarrow> 's walk \<Rightarrow> 's walk" where
  "inspect_ole_with_limit env scan_leaf max_expanded bs w =
     (let w = w\<lparr>w_report := inspection_default\<rparr> in
      case ole_open env bs of
        None \<Rightarrow> on_report set_malformed w
      | Some entries \<Rightarrow>
          let w = (if length entries > MAX_ARCHIVE_ENTRIES then on_report set_incomplete w else w)
          in ole_streams (late env) scan_leaf max_expanded (take MAX_ARCHIVE_ENTRIES entries) w)"

definition start_walk :: "'s \<Rightarrow> 's walk" where
  "start_walk leaf = \<lparr>w_report = inspection_default, w_checks = 0, w_leaf = leaf\<rparr>"

definition inspect_ole :: "archive_env \<Rightarrow> 's scan_leaf \<Rightarrow> bytes \<Rightarrow> 's \<Rightarrow> container_inspection \<times> 's" where
  "inspect_ole env scan_leaf bs leaf =
     (let w = inspect_ole_with_limit env scan_leaf MAX_TOTAL_EXPANDED_BYTES bs (start_walk leaf)
      in (w_report w, w_leaf w))"

section \<open>Gzip\<close>

definition inspect_gzip :: "archive_env \<Rightarrow> 's scan_leaf \<Rightarrow> bytes \<Rightarrow> 's \<Rightarrow> container_inspection \<times> 's" where
  "inspect_gzip env scan_leaf bs leaf =
     (case map_option (take (MAX_ENTRY_BYTES + 1)) (gunzip env bs (MAX_ENTRY_BYTES + 1)) of
        None \<Rightarrow> (set_malformed inspection_default, leaf)
      | Some contents \<Rightarrow>
          if length contents > MAX_ENTRY_BYTES then (set_incomplete inspection_default, leaf)
          else if length contents > 1024 * 1024 \<and>
             (bs = [] \<or> length contents div max (length bs) 1 > MAX_COMPRESSION_RATIO)
          then (set_limit_triggered inspection_default, leaf)
          else let w = scan_and_record scan_leaf (bytes_of ''gzip:/payload'') 1 contents
                         (on_report (\<lambda>r. r\<lparr>scanned_entries := 1, expanded_bytes := length contents\<rparr>) (start_walk leaf))
               in (w_report w, w_leaf w))"

section \<open>ZIP archives\<close>

fun merge_findings :: "bytes \<Rightarrow> nat \<Rightarrow> embedded_finding list \<Rightarrow> embedded_finding list \<Rightarrow> embedded_finding list" where
  "merge_findings path parent_depth [] fs = fs"
| "merge_findings path parent_depth (f # nested) fs =
     (if length fs \<ge> MAX_FINDINGS then fs
      else merge_findings path parent_depth nested
             (fs @ [f\<lparr>ef_path := path @ bytes_of ''!/'' @ ef_path f, ef_depth := saturating_add u8_max parent_depth (ef_depth f)\<rparr>]))"

definition merge_nested_inspection :: "bytes \<Rightarrow> nat \<Rightarrow> container_inspection \<Rightarrow> container_inspection \<Rightarrow> container_inspection" where
  "merge_nested_inspection path parent_depth n r =
     \<lparr>scanned_entries = saturating_add usize_max (scanned_entries r) (scanned_entries n),
      expanded_bytes = saturating_add u64_max (expanded_bytes r) (expanded_bytes n),
      encrypted_entries = saturating_add usize_max (encrypted_entries r) (encrypted_entries n),
      macro_projects = saturating_add usize_max (macro_projects r) (macro_projects n),
      executable_attachments = saturating_add usize_max (executable_attachments r) (executable_attachments n),
      external_relationships = saturating_add usize_max (external_relationships r) (external_relationships n),
      rejected_paths = saturating_add usize_max (rejected_paths r) (rejected_paths n),
      limit_triggered = (limit_triggered r \<or> limit_triggered n),
      incomplete = (incomplete r \<or> incomplete n),
      malformed = (malformed r \<or> malformed n),
      findings = merge_findings path parent_depth (findings n) (findings r)\<rparr>"

text \<open>
  What happens with the contents of an entry that was read: relationships are counted, the file is
  scanned, and a nested container is walked. \<open>nested\<close> is the walk of a nested archive.
\<close>

definition enter_entry :: "archive_env \<Rightarrow> 's scan_leaf \<Rightarrow> (bytes \<Rightarrow> bytes \<Rightarrow> 's walk \<Rightarrow> 's walk) \<Rightarrow> nat \<Rightarrow> bytes \<Rightarrow> bytes \<Rightarrow> bytes \<Rightarrow>
    's walk \<Rightarrow> 's walk" where
  "enter_entry env scan_leaf nested depth entry_name full_name contents w =
     (let w = on_report (\<lambda>r. r\<lparr>expanded_bytes := saturating_add u64_max (expanded_bytes r) (length contents)\<rparr>) w;
          w = (if ends_with entry_name (bytes_of ''.rels'')
               then on_report (\<lambda>r. r\<lparr>external_relationships :=
                      saturating_add usize_max (external_relationships r) (count_external_relationships contents)\<rparr>) w
               else w);
          w = scan_and_record scan_leaf full_name depth contents w
      in if starts_with contents [0x50, 0x4B, 3, 4] then
           (if depth = MAX_ARCHIVE_DEPTH then on_report set_limit_triggered w else nested contents full_name w)
         else if starts_with contents [0xD0, 0xCF, 0x11, 0xE0, 0xA1, 0xB1, 0x1A, 0xE1] then
           (let remaining = MAX_TOTAL_EXPANDED_BYTES - expanded_bytes (w_report w) in
            if remaining = 0 then on_report set_incomplete w
            else let w' = inspect_ole_with_limit env scan_leaf remaining contents w
                 in w'\<lparr>w_report := merge_nested_inspection full_name depth (w_report w') (w_report w)\<rparr>)
         else w)"

definition zip_entry_step :: "archive_env \<Rightarrow> 's scan_leaf \<Rightarrow> (bytes \<Rightarrow> bytes \<Rightarrow> 's walk \<Rightarrow> 's walk) \<Rightarrow> bytes \<Rightarrow> nat \<Rightarrow>
    zip_entry option \<Rightarrow> 's walk \<Rightarrow> 's walk" where
  "zip_entry_step env scan_leaf nested path depth entry w =
     (case entry of
        None \<Rightarrow> on_report set_malformed w
      | Some e \<Rightarrow>
          if \<not> ze_is_file e then w
          else let w = on_report (\<lambda>r. r\<lparr>scanned_entries := scanned_entries r + 1\<rparr>) w in
            (case ze_enclosed_name e of
               None \<Rightarrow> on_report reject_path w
             | Some enclosed \<Rightarrow>
                 let entry_name = slashes enclosed in
                 if length (chars entry_name) > MAX_ENTRY_NAME_CHARS then on_report reject_path w
                 else let full_name = (if path = [] then entry_name else path @ bytes_of ''!/'' @ entry_name);
                          w = on_report (observe_office_structure entry_name) w;
                          expanded = ze_size e; compressed = ze_compressed e
                   in if ze_encrypted e then on_report (\<lambda>r. r\<lparr>encrypted_entries := encrypted_entries r + 1\<rparr>) w
                      else if expanded > 1024 * 1024 \<and>
                         (compressed = 0 \<or> expanded div max compressed 1 > MAX_COMPRESSION_RATIO)
                      then on_report set_limit_triggered w
                      else if expanded > MAX_ENTRY_BYTES \<or>
                         saturating_add u64_max (expanded_bytes (w_report w)) expanded > MAX_TOTAL_EXPANDED_BYTES
                      then on_report set_incomplete w
                      else (case map_option (take (MAX_ENTRY_BYTES + 1)) (ze_read e (MAX_ENTRY_BYTES + 1)) of
                              None \<Rightarrow> on_report set_malformed w
                            | Some contents \<Rightarrow>
                                if length contents \<noteq> expanded then on_report set_malformed w
                                else enter_entry env scan_leaf nested depth entry_name full_name contents w)))"

fun zip_entries :: "archive_env \<Rightarrow> 's scan_leaf \<Rightarrow> (bytes \<Rightarrow> bytes \<Rightarrow> 's walk \<Rightarrow> 's walk) \<Rightarrow> bytes \<Rightarrow> nat \<Rightarrow>
    zip_entry option list \<Rightarrow> 's walk \<Rightarrow> 's walk" where
  "zip_entries env scan_leaf nested path depth [] w = w"
| "zip_entries env scan_leaf nested path depth (e # es) w =
     (if scanned_entries (w_report w) \<ge> MAX_ARCHIVE_ENTRIES then on_report set_incomplete w
      else let now = w_checks w; w = w\<lparr>w_checks := now + 1\<rparr> in
        if late env now then on_report set_incomplete w
        else zip_entries env scan_leaf nested path depth es (zip_entry_step env scan_leaf nested path depth e w))"

function walk_zip :: "archive_env \<Rightarrow> 's scan_leaf \<Rightarrow> bytes \<Rightarrow> bytes \<Rightarrow> nat \<Rightarrow> 's walk \<Rightarrow> 's walk" where
  "walk_zip env scan_leaf bs path depth w =
     (if depth > MAX_ARCHIVE_DEPTH then on_report set_limit_triggered w
      else let now = w_checks w; w = w\<lparr>w_checks := now + 1\<rparr> in
        if late env now then on_report set_incomplete w
        else case zip_open env bs of
          None \<Rightarrow> on_report set_malformed w
        | Some entries \<Rightarrow>
            let w = (if length entries > MAX_ARCHIVE_ENTRIES - scanned_entries (w_report w)
                     then on_report set_incomplete w else w)
            in zip_entries env scan_leaf (\<lambda>contents name w. walk_zip env scan_leaf contents name (depth + 1) w)
                 path depth entries w)"
  by pat_completeness auto
termination by (relation "measure (\<lambda>(env, scan_leaf, bs, path, depth, w). MAX_ARCHIVE_DEPTH + 1 - depth)") auto

declare walk_zip.simps [simp del]

definition inspect_zip :: "archive_env \<Rightarrow> 's scan_leaf \<Rightarrow> bytes \<Rightarrow> 's \<Rightarrow> container_inspection \<times> 's" where
  "inspect_zip env scan_leaf bs leaf =
     (let w = walk_zip env scan_leaf bs [] 1 (start_walk leaf) in (w_report w, w_leaf w))"

section \<open>The walk is bounded\<close>

definition bounded :: "nat \<Rightarrow> 's walk \<Rightarrow> bool" where
  "bounded limit w \<longleftrightarrow> expanded_bytes (w_report w) \<le> limit \<and> length (findings (w_report w)) \<le> MAX_FINDINGS"

lemma w_report_on_report [simp]: "w_report (on_report f w) = f (w_report w)"
  by (simp add: on_report_def)

lemma bounded_flags [simp]:
  "bounded limit (w\<lparr>w_checks := n\<rparr>) \<longleftrightarrow> bounded limit w"
  "bounded limit (on_report set_incomplete w) \<longleftrightarrow> bounded limit w"
  "bounded limit (on_report set_malformed w) \<longleftrightarrow> bounded limit w"
  "bounded limit (on_report set_limit_triggered w) \<longleftrightarrow> bounded limit w"
  by (simp_all add: bounded_def)

lemma observe_office_frame [simp]:
  "expanded_bytes (observe_office_structure name r) = expanded_bytes r"
  "findings (observe_office_structure name r) = findings r"
  by (simp_all add: observe_office_structure_def Let_def)

lemma record_finding_frame [simp]:
  "expanded_bytes (record_finding path depth report r) = expanded_bytes r"
  "length (findings r) \<le> MAX_FINDINGS \<Longrightarrow> length (findings (record_finding path depth report r)) \<le> MAX_FINDINGS"
  by (auto simp: record_finding_def)

lemma bounded_scan_and_record: "bounded limit w \<Longrightarrow> bounded limit (scan_and_record scan_leaf path depth contents w)"
  by (simp add: bounded_def scan_and_record_def split: prod.split)

lemma scan_and_record_expanded [simp]:
  "expanded_bytes (w_report (scan_and_record scan_leaf path depth contents w)) = expanded_bytes (w_report w)"
  by (simp add: scan_and_record_def split: prod.split)

lemma bounded_ole_step:
  assumes "bounded limit w"
  shows "bounded limit (ole_stream_step scan_leaf limit s w)"
proof -
  note scan = bounded_scan_and_record [of limit]
  show ?thesis
    using assms unfolding ole_stream_step_def Let_def
    by (auto split: option.splits intro!: scan) (auto simp: bounded_def)
qed

lemma bounded_ole_streams: "bounded limit w \<Longrightarrow> bounded limit (ole_streams is_late scan_leaf limit ss w)"
  by (induction is_late scan_leaf limit ss w rule: ole_streams.induct)
    (auto simp: Let_def bounded_ole_step)

lemma bounded_inspect_ole: "bounded limit (inspect_ole_with_limit env scan_leaf limit bs w)"
proof -
  have "bounded limit (w\<lparr>w_report := inspection_default\<rparr>)"
    by (simp add: bounded_def inspection_default_def)
  then show ?thesis by (simp add: inspect_ole_with_limit_def Let_def bounded_ole_streams split: option.splits)
qed

lemma length_merge_findings: "length fs \<le> MAX_FINDINGS \<Longrightarrow> length (merge_findings path depth nested fs) \<le> MAX_FINDINGS"
  by (induction path depth nested fs rule: merge_findings.induct) auto

lemma bounded_enter_entry:
  assumes "bounded MAX_TOTAL_EXPANDED_BYTES w" and nested: "\<And>c n w. bounded MAX_TOTAL_EXPANDED_BYTES w \<Longrightarrow> bounded MAX_TOTAL_EXPANDED_BYTES (nested c n w)"
    and "saturating_add u64_max (expanded_bytes (w_report w)) (length contents) \<le> MAX_TOTAL_EXPANDED_BYTES"
  shows "bounded MAX_TOTAL_EXPANDED_BYTES (enter_entry env scan_leaf nested depth entry_name full_name contents w)"
proof -
  define w1 where "w1 = scan_and_record scan_leaf full_name depth contents
    (if ends_with entry_name (bytes_of ''.rels'')
     then on_report (\<lambda>r. r\<lparr>external_relationships :=
            saturating_add usize_max (external_relationships r) (count_external_relationships contents)\<rparr>)
          (on_report (\<lambda>r. r\<lparr>expanded_bytes := saturating_add u64_max (expanded_bytes r) (length contents)\<rparr>) w)
     else on_report (\<lambda>r. r\<lparr>expanded_bytes := saturating_add u64_max (expanded_bytes r) (length contents)\<rparr>) w)"
  have w1: "bounded MAX_TOTAL_EXPANDED_BYTES w1"
    unfolding w1_def using assms(1,3) by (intro bounded_scan_and_record) (auto simp: bounded_def)
  let ?rest = "MAX_TOTAL_EXPANDED_BYTES - expanded_bytes (w_report w1)"
  define w2 where "w2 = inspect_ole_with_limit env scan_leaf ?rest contents w1"
  have "bounded ?rest w2" unfolding w2_def by (rule bounded_inspect_ole)
  then have "bounded MAX_TOTAL_EXPANDED_BYTES
      (w2\<lparr>w_report := merge_nested_inspection full_name depth (w_report w2) (w_report w1)\<rparr>)"
    using w1 by (auto simp: bounded_def merge_nested_inspection_def saturating_add_def length_merge_findings)
  then show ?thesis
    using w1 nested [OF w1] unfolding enter_entry_def Let_def w1_def [symmetric] w2_def [symmetric]
    by (auto simp: bounded_def)
qed

text \<open>The report admits that something was not looked into.\<close>

definition flagged :: "container_inspection \<Rightarrow> bool" where
  "flagged r \<longleftrightarrow> incomplete r \<or> malformed r \<or> limit_triggered r \<or> 0 < rejected_paths r \<or> 0 < encrypted_entries r"

lemma flagged_observe_office [simp]: "flagged (observe_office_structure name r) = flagged r"
  by (simp add: flagged_def observe_office_structure_def Let_def)

text \<open>A change of the report that only admits a gap; it leaves the counted bytes and the findings alone.\<close>

definition marks :: "(container_inspection \<Rightarrow> container_inspection) \<Rightarrow> bool" where
  "marks f \<longleftrightarrow> (\<forall>r. flagged (f r) \<and> expanded_bytes (f r) = expanded_bytes r \<and> findings (f r) = findings r)"

lemma marks_basic:
  "marks set_malformed" "marks set_incomplete" "marks set_limit_triggered" "marks reject_path"
  "marks (\<lambda>r. r\<lparr>encrypted_entries := encrypted_entries r + 1\<rparr>)"
  by (simp_all add: marks_def flagged_def)

lemma marks_after:
  assumes "marks f" and "\<And>r. expanded_bytes (g r) = expanded_bytes r" and "\<And>r. findings (g r) = findings r"
  shows "marks (f \<circ> g)"
  using assms by (simp add: marks_def)

abbreviation counted :: "container_inspection \<Rightarrow> container_inspection" where
  "counted r \<equiv> r\<lparr>scanned_entries := scanned_entries r + 1\<rparr>"

lemma on_report_comp: "on_report f (on_report g w) = on_report (f \<circ> g) w"
  by (simp add: on_report_def)

definition bomb :: "zip_entry \<Rightarrow> bool" where
  "bomb e \<longleftrightarrow> ze_size e > 1024 * 1024 \<and> (ze_compressed e = 0 \<or> ze_size e div max (ze_compressed e) 1 > MAX_COMPRESSION_RATIO)"

definition too_large :: "zip_entry \<Rightarrow> 's walk \<Rightarrow> bool" where
  "too_large e w \<longleftrightarrow> ze_size e > MAX_ENTRY_BYTES \<or>
     saturating_add u64_max (expanded_bytes (w_report w)) (ze_size e) > MAX_TOTAL_EXPANDED_BYTES"

lemma marks_prepared: "marks f \<Longrightarrow> marks (f \<circ> (observe_office_structure n \<circ> counted))"
  by (rule marks_after) simp_all

text \<open>The step on a file whose name is acceptable.\<close>

lemma zip_entry_step_named:
  assumes "ze_is_file e" and "ze_enclosed_name e = Some name" and "\<not> MAX_ENTRY_NAME_CHARS < length (chars (slashes name))"
  shows "zip_entry_step env scan_leaf nested path depth (Some e) w =
    (let n = slashes name; prep = observe_office_structure n \<circ> counted in
     if ze_encrypted e then on_report ((\<lambda>r. r\<lparr>encrypted_entries := encrypted_entries r + 1\<rparr>) \<circ> prep) w
     else if bomb e then on_report (set_limit_triggered \<circ> prep) w
     else if too_large e (on_report prep w) then on_report (set_incomplete \<circ> prep) w
     else case map_option (take (MAX_ENTRY_BYTES + 1)) (ze_read e (MAX_ENTRY_BYTES + 1)) of
       None \<Rightarrow> on_report (set_malformed \<circ> prep) w
     | Some contents \<Rightarrow>
         if length contents \<noteq> ze_size e then on_report (set_malformed \<circ> prep) w
         else enter_entry env scan_leaf nested depth n (if path = [] then n else path @ bytes_of ''!/'' @ n) contents (on_report prep w))"
  unfolding bomb_def too_large_def using assms(3)
  by (simp only: zip_entry_step_def assms(1,2) option.case Let_def on_report_comp comp_assoc if_False if_True
      not_True_eq_False simp_thms)

text \<open>The three ways an entry is dealt with: it is no file, its gap is admitted, or its contents are entered.\<close>

lemma zip_entry_step_named_cases:
  assumes ok: "ze_is_file e" "ze_enclosed_name e = Some name" "\<not> MAX_ENTRY_NAME_CHARS < length (chars (slashes name))"
  obtains (marked) f where "marks f" "zip_entry_step env scan_leaf nested path depth (Some e) w = on_report f w"
  | (entered) c n full where "ze_read e (Suc MAX_ENTRY_BYTES) = Some c"
      "min (length c) (Suc MAX_ENTRY_BYTES) = ze_size e" "\<not> too_large e w"
      "zip_entry_step env scan_leaf nested path depth (Some e) w =
         enter_entry env scan_leaf nested depth n full (take (Suc MAX_ENTRY_BYTES) c) (on_report (observe_office_structure n) (on_report counted w))"
proof -
  note eq = zip_entry_step_named [OF ok, of env scan_leaf nested path depth w, unfolded Let_def]
  have large: "too_large e (on_report (observe_office_structure (slashes name) \<circ> counted) w) = too_large e w"
    by (simp add: too_large_def)
  note marked = marked [OF marks_prepared [where n = "slashes name"]]
  consider (encrypted) "ze_encrypted e" | (bomb) "\<not> ze_encrypted e" "bomb e" | (large) "\<not> ze_encrypted e" "\<not> bomb e" "too_large e w"
    | (unread) "\<not> ze_encrypted e" "\<not> bomb e" "\<not> too_large e w" "ze_read e (MAX_ENTRY_BYTES + 1) = None"
    | (short) c where "\<not> ze_encrypted e" "\<not> bomb e" "\<not> too_large e w" "ze_read e (MAX_ENTRY_BYTES + 1) = Some c"
        "length (take (MAX_ENTRY_BYTES + 1) c) \<noteq> ze_size e"
    | (whole) c where "\<not> ze_encrypted e" "\<not> bomb e" "\<not> too_large e w" "ze_read e (MAX_ENTRY_BYTES + 1) = Some c"
        "length (take (MAX_ENTRY_BYTES + 1) c) = ze_size e"
    by blast
  then show ?thesis
  proof cases
    case encrypted
    show ?thesis by (rule marked [OF marks_basic(5)]) (simp only: eq encrypted if_True)
  next
    case bomb
    show ?thesis by (rule marked [OF marks_basic(3)]) (simp only: eq bomb if_True if_False)
  next
    case large: large
    show ?thesis by (rule marked [OF marks_basic(2)]) (simp only: eq large(1,2,3) \<open>too_large e _ = _\<close> if_True if_False)
  next
    case unread
    show ?thesis by (rule marked [OF marks_basic(1)]) (simp only: eq large unread if_False option.map option.case)
  next
    case (short c)
    show ?thesis by (rule marked [OF marks_basic(1)])
        (simp only: eq large short if_True if_False option.map option.case simp_thms)
  next
    case (whole c)
    then have "ze_read e (Suc MAX_ENTRY_BYTES) = Some c" "min (length c) (Suc MAX_ENTRY_BYTES) = ze_size e" by simp_all
    then show ?thesis using whole(3)
      by (rule entered) (simp only: eq large whole if_False option.map option.case on_report_comp Suc_eq_plus1 simp_thms)
  qed
qed

lemma zip_entry_step_cases:
  obtains (skipped) e where "entry = Some e" "\<not> ze_is_file e" "zip_entry_step env scan_leaf nested path depth entry w = w"
  | (marked) f where "marks f" "zip_entry_step env scan_leaf nested path depth entry w = on_report f w"
  | (entered) e c n full where "entry = Some e" "ze_read e (Suc MAX_ENTRY_BYTES) = Some c"
      "min (length c) (Suc MAX_ENTRY_BYTES) = ze_size e" "\<not> too_large e w"
      "zip_entry_step env scan_leaf nested path depth entry w =
         enter_entry env scan_leaf nested depth n full (take (Suc MAX_ENTRY_BYTES) c) (on_report (observe_office_structure n) (on_report counted w))"
proof (cases entry)
  case None
  then show ?thesis using marked [OF marks_basic(1)] by (simp add: zip_entry_step_def)
next
  case e: (Some e)
  consider (skip) "\<not> ze_is_file e"
    | (rejected) "ze_is_file e" "ze_enclosed_name e = None \<or> length (chars (slashes (the (ze_enclosed_name e)))) > MAX_ENTRY_NAME_CHARS"
    | (named) name where "ze_is_file e" "ze_enclosed_name e = Some name" "\<not> length (chars (slashes name)) > MAX_ENTRY_NAME_CHARS"
    by (cases "ze_enclosed_name e") auto
  then show ?thesis
  proof cases
    case skip
    then show ?thesis using skipped [OF e] e by (simp add: zip_entry_step_def)
  next
    case rejected
    have "marks (reject_path \<circ> counted)" by (rule marks_after [OF marks_basic(4)]) simp_all
    then show ?thesis using rejected e
      by (intro marked) (auto simp: zip_entry_step_def on_report_comp Let_def split: option.splits)
  next
    case (named name)
    then show ?thesis using marked entered [OF e] unfolding e by (rule zip_entry_step_named_cases) assumption+
  qed
qed

lemma bounded_zip_entry_step:
  assumes "bounded MAX_TOTAL_EXPANDED_BYTES w" and nested: "\<And>c n w. bounded MAX_TOTAL_EXPANDED_BYTES w \<Longrightarrow> bounded MAX_TOTAL_EXPANDED_BYTES (nested c n w)"
  shows "bounded MAX_TOTAL_EXPANDED_BYTES (zip_entry_step env scan_leaf nested path depth entry w)"
proof (cases rule: zip_entry_step_cases [of entry env scan_leaf nested path depth w])
  case (marked f)
  then show ?thesis using assms(1) by (simp add: bounded_def marks_def)
next
  case (entered e c n full)
  have "bounded MAX_TOTAL_EXPANDED_BYTES (on_report (observe_office_structure n) (on_report counted w))"
    using assms(1) by (simp add: bounded_def)
  then show ?thesis using bounded_enter_entry [OF _ nested] entered(3,4,5) by (simp add: too_large_def)
qed (use assms(1) in simp)

lemma bounded_zip_entries:
  assumes nested: "\<And>c n w. bounded MAX_TOTAL_EXPANDED_BYTES w \<Longrightarrow> bounded MAX_TOTAL_EXPANDED_BYTES (nested c n w)"
  shows "bounded MAX_TOTAL_EXPANDED_BYTES w \<Longrightarrow> bounded MAX_TOTAL_EXPANDED_BYTES (zip_entries env scan_leaf nested path depth es w)"
proof (induction es arbitrary: w)
  case (Cons e es)
  then show ?case using bounded_zip_entry_step [OF _ nested] by (simp add: Let_def)
qed simp

lemma bounded_walk_zip: "bounded MAX_TOTAL_EXPANDED_BYTES w \<Longrightarrow> bounded MAX_TOTAL_EXPANDED_BYTES (walk_zip env scan_leaf bs path depth w)"
proof (induction env scan_leaf bs path depth w rule: walk_zip.induct)
  case (1 env scan_leaf bs path depth w)
  note unfold = walk_zip.simps [of env scan_leaf bs path depth w]
  show ?case
  proof (cases "depth > MAX_ARCHIVE_DEPTH \<or> late env (w_checks w) \<or> zip_open env bs = None")
    case True
    with "1.prems" show ?thesis by (auto simp: unfold Let_def)
  next
    case False
    then obtain entries where e: "zip_open env bs = Some entries" by auto
    have "bounded MAX_TOTAL_EXPANDED_BYTES (walk_zip env scan_leaf c n (depth + 1) w')"
      if "bounded MAX_TOTAL_EXPANDED_BYTES w'" for c n w'
      using "1.IH" [OF _ refl refl _ e refl that] False by simp
    from bounded_zip_entries [OF this] False e "1.prems" show ?thesis by (simp add: unfold Let_def)
  qed
qed


text \<open>
  Once 32 findings are kept, a further one is dropped, however serious: an archive whose first 32
  files are merely suspicious hides what follows.
\<close>

lemma finding_dropped:
  "length (findings r) = 32 \<Longrightarrow> d_verdict report = DMalicious \<Longrightarrow> record_finding path depth report r = r"
  by (simp add: record_finding_def MAX_FINDINGS_def)

section \<open>Nothing is skipped silently\<close>

text \<open>A scanner that keeps a list of what it was given.\<close>

definition logging :: "(bytes \<Rightarrow> detection_report) \<Rightarrow> bytes list scan_leaf" where
  "logging f bs log = (f bs, log @ [bs])"

definition progress :: "bytes list walk \<Rightarrow> bytes list walk \<Rightarrow> bool" where
  "progress w w' \<longleftrightarrow> (flagged (w_report w) \<longrightarrow> flagged (w_report w')) \<and> set (w_leaf w) \<subseteq> set (w_leaf w')"

lemma progress_refl [simp]: "progress w w"
  by (simp add: progress_def)

lemma progress_trans: "progress w w' \<Longrightarrow> progress w' w'' \<Longrightarrow> progress w w''"
  by (auto simp: progress_def)

lemma w_leaf_on_report [simp]: "w_leaf (on_report f w) = w_leaf w"
  by (simp add: on_report_def)

lemma flagged_record_finding [simp]: "flagged (record_finding path depth report r) = flagged r"
  by (simp add: flagged_def record_finding_def)

lemma scan_and_record_log [simp]:
  "w_leaf (scan_and_record (logging f) path depth contents w) = w_leaf w @ [contents]"
  "flagged (w_report (scan_and_record (logging f) path depth contents w)) = flagged (w_report w)"
  by (simp_all add: scan_and_record_def logging_def)

lemma flagged_simps [simp]:
  "flagged (r\<lparr>scanned_entries := n\<rparr>) = flagged r" "flagged (r\<lparr>expanded_bytes := n\<rparr>) = flagged r"
  "flagged (r\<lparr>macro_projects := n\<rparr>) = flagged r" "flagged (r\<lparr>external_relationships := n\<rparr>) = flagged r"
  "flagged (r\<lparr>incomplete := True\<rparr>)" "flagged (r\<lparr>malformed := True\<rparr>)" "flagged (r\<lparr>limit_triggered := True\<rparr>)"
  "flagged (r\<lparr>rejected_paths := Suc n\<rparr>)" "flagged (r\<lparr>encrypted_entries := Suc n\<rparr>)"
  by (simp_all add: flagged_def)

lemma flagged_merge [simp]: "flagged (merge_nested_inspection path depth n r) \<longleftrightarrow> flagged r \<or> flagged n"
  by (auto simp: flagged_def merge_nested_inspection_def saturating_add_def usize_max_def)

lemma ole_step_progress: "progress w (ole_stream_step (logging f) limit s w)"
  by (auto simp: progress_def ole_stream_step_def Let_def split: option.split)

lemma ole_streams_log: "set (w_leaf w) \<subseteq> set (w_leaf (ole_streams is_late (logging f) limit ss w))"
proof (induction ss arbitrary: w)
  case (Cons s ss)
  let ?w = "w\<lparr>w_checks := Suc (w_checks w)\<rparr>"
  have "set (w_leaf w) \<subseteq> set (w_leaf (ole_stream_step (logging f) limit s ?w))"
    using ole_step_progress [of ?w f limit s] by (simp add: progress_def)
  with Cons [of "ole_stream_step (logging f) limit s ?w"] show ?case by (auto simp: Let_def)
qed simp

lemma inspect_ole_log: "set (w_leaf w) \<subseteq> set (w_leaf (inspect_ole_with_limit env (logging f) limit bs w))"
proof -
  have "set (w_leaf w) \<subseteq> set (w_leaf (ole_streams is_late (logging f) limit ss w'))" if "w_leaf w' = w_leaf w" for is_late ss w'
    using ole_streams_log [of w'] that by simp
  then show ?thesis by (simp add: inspect_ole_with_limit_def Let_def split: option.split)
qed

lemma enter_entry_progress:
  assumes nested: "\<And>c n w. progress w (nested c n w)"
  shows "progress w (enter_entry env (logging f) nested depth entry_name full_name contents w)
    \<and> contents \<in> set (w_leaf (enter_entry env (logging f) nested depth entry_name full_name contents w))"
proof -
  define w1 where "w1 = scan_and_record (logging f) full_name depth contents
    (if ends_with entry_name (bytes_of ''.rels'')
     then on_report (\<lambda>r. r\<lparr>external_relationships :=
            saturating_add usize_max (external_relationships r) (count_external_relationships contents)\<rparr>)
          (on_report (\<lambda>r. r\<lparr>expanded_bytes := saturating_add u64_max (expanded_bytes r) (length contents)\<rparr>) w)
     else on_report (\<lambda>r. r\<lparr>expanded_bytes := saturating_add u64_max (expanded_bytes r) (length contents)\<rparr>) w)"
  have w1: "progress w w1" "contents \<in> set (w_leaf w1)" by (auto simp: w1_def progress_def)
  have "progress w1 (enter_entry env (logging f) nested depth entry_name full_name contents w)"
    using nested [of w1 contents full_name] inspect_ole_log [of w1]
    unfolding enter_entry_def Let_def w1_def [symmetric] by (auto simp: progress_def)
  with w1 show ?thesis using progress_trans [of w w1] by (auto simp: progress_def)
qed

text \<open>An entry counts as dealt with when it is no file or its contents were scanned.\<close>

definition dealt_with :: "bytes list \<Rightarrow> zip_entry option \<Rightarrow> bool" where
  "dealt_with log entry \<longleftrightarrow>
     (case entry of
        None \<Rightarrow> False
      | Some e \<Rightarrow> ze_is_file e \<longrightarrow> (\<exists>contents. ze_read e (MAX_ENTRY_BYTES + 1) = Some contents \<and> contents \<in> set log))"

lemma dealt_with_mono: "dealt_with log entry \<Longrightarrow> set log \<subseteq> set log' \<Longrightarrow> dealt_with log' entry"
  by (auto simp: dealt_with_def split: option.splits)

lemma enter_entry_dealt:
  assumes nested: "\<And>c n w. progress w (nested c n w)" and "progress w w'"
    and "ze_read e (Suc MAX_ENTRY_BYTES) = Some c" and "min (length c) (Suc MAX_ENTRY_BYTES) = ze_size e" and "\<not> MAX_ENTRY_BYTES < ze_size e"
  shows "progress w (enter_entry env (logging f) nested depth name full (take (Suc MAX_ENTRY_BYTES) c) w')"
    and "dealt_with (w_leaf (enter_entry env (logging f) nested depth name full (take (Suc MAX_ENTRY_BYTES) c) w')) (Some e)"
proof -
  have "take (Suc MAX_ENTRY_BYTES) c = c" using assms(4,5) by auto
  with enter_entry_progress [where nested = nested and contents = c and w = w', OF nested] assms(3)
  show "dealt_with (w_leaf (enter_entry env (logging f) nested depth name full (take (Suc MAX_ENTRY_BYTES) c) w')) (Some e)"
    by (auto simp: dealt_with_def)
  show "progress w (enter_entry env (logging f) nested depth name full (take (Suc MAX_ENTRY_BYTES) c) w')"
    using enter_entry_progress [where nested = nested, OF nested] progress_trans [OF assms(2)] by blast
qed

lemma zip_entry_step_progress:
  assumes nested: "\<And>c n w. progress w (nested c n w)"
  shows "progress w (zip_entry_step env (logging f) nested path depth entry w)"
    and "flagged (w_report (zip_entry_step env (logging f) nested path depth entry w))
       \<or> dealt_with (w_leaf (zip_entry_step env (logging f) nested path depth entry w)) entry"
proof -
  have w: "progress w (on_report (observe_office_structure n) (on_report counted w))" for n
    by (simp add: progress_def)
  note enter = enter_entry_dealt [where nested = nested, OF nested w]
  show "progress w (zip_entry_step env (logging f) nested path depth entry w)"
  proof (cases rule: zip_entry_step_cases [of entry env "logging f" nested path depth w])
    case (marked g)
    then show ?thesis by (simp add: progress_def marks_def)
  next
    case (entered e c n full)
    have "\<not> MAX_ENTRY_BYTES < ze_size e" using entered(4) by (simp add: too_large_def)
    from enter(1) [OF entered(2,3) this] show ?thesis unfolding entered(5) .
  qed simp
  show "flagged (w_report (zip_entry_step env (logging f) nested path depth entry w))
      \<or> dealt_with (w_leaf (zip_entry_step env (logging f) nested path depth entry w)) entry"
  proof (cases rule: zip_entry_step_cases [of entry env "logging f" nested path depth w])
    case (skipped e)
    then show ?thesis by (simp add: dealt_with_def)
  next
    case (marked g)
    then show ?thesis by (simp add: marks_def)
  next
    case (entered e c n full)
    have "\<not> MAX_ENTRY_BYTES < ze_size e" using entered(4) by (simp add: too_large_def)
    from enter(2) [OF entered(2,3) this] show ?thesis unfolding entered(1) unfolding entered(5) [unfolded entered(1)] by blast
  qed
qed

lemma zip_entries_progress:
  assumes nested: "\<And>c n w. progress w (nested c n w)"
  shows "progress w (zip_entries env (logging f) nested path depth es w)
    \<and> (flagged (w_report (zip_entries env (logging f) nested path depth es w))
       \<or> list_all (dealt_with (w_leaf (zip_entries env (logging f) nested path depth es w))) es)"
proof (induction es arbitrary: w)
  case (Cons e es)
  let ?w = "w\<lparr>w_checks := Suc (w_checks w)\<rparr>"
  let ?w1 = "zip_entry_step env (logging f) nested path depth e ?w"
  have "progress w ?w" by (simp add: progress_def)
  then have w1: "progress w ?w1" using zip_entry_step_progress(1) [where nested = nested, OF nested] progress_trans by blast
  have e: "flagged (w_report ?w1) \<or> dealt_with (w_leaf ?w1) e" by (rule zip_entry_step_progress(2) [where nested = nested, OF nested])
  let ?w2 = "zip_entries env (logging f) nested path depth es ?w1"
  have "progress w ?w2" using progress_trans [OF w1] Cons by blast
  moreover have "flagged (w_report ?w2) \<or> list_all (dealt_with (w_leaf ?w2)) (e # es)"
    using Cons [of ?w1] e dealt_with_mono [of "w_leaf ?w1" e "w_leaf ?w2"] by (auto simp: progress_def)
  ultimately show ?case by (auto simp: Let_def progress_def)
qed simp

lemma walk_zip_progress: "progress w (walk_zip env (logging f) bs path depth w)"
proof (induction env "logging f" bs path depth w rule: walk_zip.induct)
  case (1 env bs path depth w)
  note unfold = walk_zip.simps [of env "logging f" bs path depth w]
  show ?case
  proof (cases "depth > MAX_ARCHIVE_DEPTH \<or> late env (w_checks w) \<or> zip_open env bs = None")
    case True
    then show ?thesis by (auto simp: unfold Let_def progress_def)
  next
    case False
    then obtain entries where e: "zip_open env bs = Some entries" by auto
    have "progress w' (walk_zip env (logging f) c n (depth + 1) w')" for c n w'
      using "1.hyps" [OF _ refl refl _ e refl] False by simp
    then have step: "progress v (zip_entries env (logging f) (\<lambda>c n. walk_zip env (logging f) c n (depth + 1)) path depth entries v)" for v
      using zip_entries_progress [where nested = "\<lambda>c n. walk_zip env (logging f) c n (depth + 1)"] by blast
    have "progress w (w\<lparr>w_checks := Suc (w_checks w)\<rparr>)" "progress w (on_report set_incomplete (w\<lparr>w_checks := Suc (w_checks w)\<rparr>))"
      by (auto simp: progress_def)
    then show ?thesis using False e progress_trans step by (auto simp: unfold Let_def)
  qed
qed

text \<open>
  (C30) Nothing in an archive is skipped silently: when the inspection of an archive ends without
  saying that it was incomplete, malformed, over a limit, or that it rejected a path or met an
  encrypted entry, the contents of every file in the archive were given to the scanner.
\<close>

theorem inspect_zip_complete:
  assumes "zip_open env bs = Some entries" and "inspect_zip env (logging f) bs [] = (r, log)" and "\<not> flagged r"
  shows "list_all (dealt_with log) entries"
proof -
  let ?nested = "\<lambda>c n. walk_zip env (logging f) c n (Suc (Suc 0))"
  let ?run = "zip_entries env (logging f) ?nested [] 1 entries"
  have "\<not> late env 0"
    using assms(2,3) by (auto simp: inspect_zip_def walk_zip.simps [of env "logging f" bs "[]" "Suc 0"] start_walk_def
        MAX_ARCHIVE_DEPTH_def Let_def)
  then have "\<exists>v. inspect_zip env (logging f) bs [] = (w_report (?run v), w_leaf (?run v))"
    using assms(1) by (auto simp: inspect_zip_def walk_zip.simps [of env "logging f" bs "[]" "Suc 0"]
        start_walk_def inspection_default_def MAX_ARCHIVE_DEPTH_def Let_def)
  then obtain v where "r = w_report (?run v)" "log = w_leaf (?run v)"
    using assms(2) by auto
  moreover have "flagged (w_report (?run v)) \<or> list_all (dealt_with (w_leaf (?run v))) entries"
    using zip_entries_progress [where nested = ?nested, OF walk_zip_progress] by blast
  ultimately show ?thesis using assms(3) by auto
qed

definition example_entry :: zip_entry where
  "example_entry = \<lparr>ze_is_file = True, ze_enclosed_name = Some [0x61], ze_encrypted = False, ze_size = 2,
     ze_compressed = 2, ze_read = (\<lambda>_. Some [7, 8])\<rparr>"

definition example_archives :: archive_env where
  "example_archives = \<lparr>zip_open = (\<lambda>_. Some [Some example_entry]), ole_open = (\<lambda>_. None), gunzip = (\<lambda>_ _. None),
     late = (\<lambda>_. False)\<rparr>"

theorem inspect_zip_complete_witness:
  "list_all (dealt_with (snd (inspect_zip example_archives (logging (\<lambda>_. detection_error)) [0] []))) [Some example_entry]"
proof -
  let ?run = "inspect_zip example_archives (logging (\<lambda>_. detection_error)) [0] []"
  have "chars [0x61] = [0x61]"
    by (simp add: chars_def utf8_chars.simps utf8_head_def)
  then have "\<not> flagged (fst ?run)"
    by (simp add: inspect_zip_def walk_zip.simps [of _ _ _ _ "Suc 0"] example_archives_def example_entry_def start_walk_def
        inspection_default_def MAX_ARCHIVE_DEPTH_def MAX_ARCHIVE_ENTRIES_def zip_entry_step_def slashes_def
        MAX_ENTRY_NAME_CHARS_def MAX_ENTRY_BYTES_def MAX_TOTAL_EXPANDED_BYTES_def saturating_add_def u64_max_def
        enter_entry_def starts_with_def Let_def on_report_def scan_and_record_def logging_def flagged_def
        observe_office_structure_def record_finding_def MAX_FINDINGS_def)
  then show ?thesis
    using inspect_zip_complete [of example_archives "[0]" "[Some example_entry]" "\<lambda>_. detection_error" "fst ?run" "snd ?run"]
    by (simp add: example_archives_def)
qed

end
