(* ===== verification/Shards.thy ===== *)
theory Shards
  imports Collections "HOL-Library.Multiset"
begin

text \<open>
  The shards a machine has learned, \<^verbatim>\<open>src/shards.rs\<close>: a set of digests that convict, kept in memory and
  written to one file. The file's JSON encoding is the third-party crate \<^verbatim>\<open>serde_json\<close>; a file is
  the list of shards it decodes to. The clock and whether a write to disk succeeds are inputs of the
  operations. A lock guards every operation, so they are sequential.
\<close>

section \<open>Model\<close>

definition MAX_SHARDS :: nat where "MAX_SHARDS = 10000"
definition MAX_FILE_BYTES :: nat where "MAX_FILE_BYTES = 4 * 1024 * 1024"

record shard =
  sh_sha256 :: string
  sh_threat_name :: string
  sh_learned_at :: nat

text \<open>\<open>disk\<close> is what the file at the store's path decodes to.\<close>

record shard_store =
  persistent :: bool
  by_digest :: "(string \<times> shard) list"
  disk :: "shard list"

datatype shard_error = NotADigest | StoreFull | FileTooLarge | IoError

definition lower_char :: "char \<Rightarrow> char" where
  "lower_char c = (let n = of_char c :: nat in if 65 \<le> n \<and> n \<le> 90 then char_of (n + 32) else c)"

definition lower :: "string \<Rightarrow> string" where
  "lower s = map lower_char s"

definition is_hexdigit_char :: "char \<Rightarrow> bool" where
  "is_hexdigit_char c = (let n = of_char c :: nat in (48 \<le> n \<and> n \<le> 57) \<or> (65 \<le> n \<and> n \<le> 70) \<or> (97 \<le> n \<and> n \<le> 102))"

definition is_sha256_hex :: "string \<Rightarrow> bool" where
  "is_sha256_hex s \<longleftrightarrow> length s = 64 \<and> list_all is_hexdigit_char s"

datatype shard_file = Missing | Unreadable | Present nat "shard list option"

text \<open>A file that is there has a size and, if it decodes, a list of shards.\<close>

definition shards_load :: "shard_file \<Rightarrow> shard_store \<Rightarrow> shard_error + (nat \<times> shard_store)" where
  "shards_load file st =
     (let loaded =
        (case file of
           Present len content \<Rightarrow>
             if len > MAX_FILE_BYTES then Inl FileTooLarge
             else (case content of Some shards \<Rightarrow> Inr shards | None \<Rightarrow> Inl IoError)
         | Missing \<Rightarrow> Inr []
         | Unreadable \<Rightarrow> Inl IoError)
      in case loaded of
           Inl e \<Rightarrow> Inl e
         | Inr shards \<Rightarrow>
             let m = hm_collect (map (\<lambda>s. (lower (sh_sha256 s), s))
                       (take MAX_SHARDS (filter (\<lambda>s. is_sha256_hex (sh_sha256 s)) shards)))
             in Inr (length m, st\<lparr>persistent := True, by_digest := m, disk := shards\<rparr>))"

definition shards_lookup :: "shard_store \<Rightarrow> string \<Rightarrow> string option" where
  "shards_lookup st sha256 =
     (if by_digest st = [] then None else map_option sh_threat_name (hm_get (by_digest st) (lower sha256)))"

text \<open>\<^verbatim>\<open>persist\<close>: the shards in order of learning, if there is a path; \<open>writes\<close> says whether the disk takes it.\<close>

definition persist :: "bool \<Rightarrow> shard_store \<Rightarrow> bool \<times> shard_store" where
  "persist writes st =
     (if \<not> persistent st then (True, st)
      else if writes then (True, st\<lparr>disk := sort_key sh_learned_at (map snd (by_digest st))\<rparr>)
      else (False, st))"

definition learn :: "nat \<Rightarrow> bool \<Rightarrow> string \<Rightarrow> string \<Rightarrow> shard_store \<Rightarrow> (shard_error + bool) \<times> shard_store" where
  "learn now writes sha256 threat_name st =
     (if \<not> is_sha256_hex sha256 then (Inl NotADigest, st)
      else let key = lower sha256 in
        if hm_get (by_digest st) key \<noteq> None then (Inr False, st)
        else if length (by_digest st) \<ge> MAX_SHARDS then (Inl StoreFull, st)
        else let st = st\<lparr>by_digest := hm_insert key
                   \<lparr>sh_sha256 = key, sh_threat_name = threat_name, sh_learned_at = now\<rparr> (by_digest st)\<rparr>
             in (Inr True, snd (persist writes st)))"

definition forget :: "bool \<Rightarrow> string \<Rightarrow> shard_store \<Rightarrow> (shard_error + bool) \<times> shard_store" where
  "forget writes sha256 st =
     (if hm_get (by_digest st) (lower sha256) = None then (Inr False, st)
      else let (saved, st) = persist writes (st\<lparr>by_digest := hm_remove (lower sha256) (by_digest st)\<rparr>)
           in (if saved then Inr True else Inl IoError, st))"

section \<open>The interface the detection engine relies on\<close>

text \<open>
  A store of convictions: keyed by digests up to letter case, what was learned is found until it
  is forgotten, nothing else is, and learning never overwrites.
\<close>

locale conviction_store =
  fixes valid :: "'s \<Rightarrow> bool"
    and find :: "'s \<Rightarrow> string \<Rightarrow> string option"
    and add :: "nat \<Rightarrow> bool \<Rightarrow> string \<Rightarrow> string \<Rightarrow> 's \<Rightarrow> (shard_error + bool) \<times> 's"
    and remove :: "bool \<Rightarrow> string \<Rightarrow> 's \<Rightarrow> (shard_error + bool) \<times> 's"
  assumes find_case: "lower d = lower d' \<Longrightarrow> find s d = find s d'"
    and add_valid: "valid s \<Longrightarrow> valid (snd (add now w d n s))"
    and remove_valid: "valid s \<Longrightarrow> valid (snd (remove w d s))"
    and add_new: "valid s \<Longrightarrow> fst (add now w d n s) = Inr True \<Longrightarrow>
      find (snd (add now w d n s)) d' = (if lower d' = lower d then Some n else find s d') \<and> find s d = None"
    and add_old: "valid s \<Longrightarrow> fst (add now w d n s) \<noteq> Inr True \<Longrightarrow> find (snd (add now w d n s)) d' = find s d'"
    and remove_find: "valid s \<Longrightarrow> find (snd (remove w d s)) d' = (if lower d' = lower d then None else find s d')"
begin

lemma added_until_removed:
  assumes "valid s" and "fst (add now w d n s) = Inr True" and "lower e \<noteq> lower d"
  shows "find (snd (remove w' e (snd (add now w d n s)))) d = Some n"
  using add_new [OF assms(1,2), of d] remove_find [OF add_valid [OF assms(1)], of w' e now w d n d] assms(3) by auto

lemma add_keeps_conviction:
  assumes "valid s" and "find s d = Some n"
  shows "find (snd (add now w d' n' s)) d = Some n"
proof (cases "fst (add now w d' n' s) = Inr True")
  case True
  then have "lower d \<noteq> lower d'" using add_new [OF assms(1) True, of d'] assms(2) find_case [of d d' s] by auto
  with add_new [OF assms(1) True, of d] assms(2) show ?thesis by simp
qed (use add_old [OF assms(1)] assms(2) in auto)

end

section \<open>The store keeps the laws\<close>

definition shards_ok :: "shard_store \<Rightarrow> bool" where
  "shards_ok st \<longleftrightarrow>
     hm_wf (by_digest st) \<and> length (by_digest st) \<le> MAX_SHARDS \<and>
     (\<forall>(k, s) \<in> set (by_digest st). k = lower (sh_sha256 s) \<and> is_sha256_hex (sh_sha256 s))"

lemma lower_char_idem: "lower_char (lower_char c) = lower_char c"
  by (simp add: lower_char_def Let_def)

lemma lower_idem [simp]: "lower (lower s) = lower s"
  by (simp add: lower_def lower_char_idem)

lemma is_hexdigit_lower_char: "is_hexdigit_char c \<Longrightarrow> is_hexdigit_char (lower_char c)"
  by (auto simp: is_hexdigit_char_def lower_char_def Let_def)

lemma is_sha256_hex_lower: "is_sha256_hex s \<Longrightarrow> is_sha256_hex (lower s)"
  by (auto simp: is_sha256_hex_def lower_def list_all_iff is_hexdigit_lower_char)

lemma persist_frame [simp]:
  "by_digest (snd (persist w st)) = by_digest st" "persistent (snd (persist w st)) = persistent st"
  by (simp_all add: persist_def)

lemma shards_lookup_get: "shards_lookup st d = map_option sh_threat_name (hm_get (by_digest st) (lower d))"
  by (simp add: shards_lookup_def)

lemma learn_cases:
  obtains (new) "is_sha256_hex d" "hm_get (by_digest st) (lower d) = None" "length (by_digest st) < MAX_SHARDS"
      "fst (learn now w d n st) = Inr True"
      "by_digest (snd (learn now w d n st)) =
         hm_insert (lower d) \<lparr>sh_sha256 = lower d, sh_threat_name = n, sh_learned_at = now\<rparr> (by_digest st)"
    | (same) "fst (learn now w d n st) \<noteq> Inr True" "snd (learn now w d n st) = st"
proof -
  consider "\<not> is_sha256_hex d \<or> hm_get (by_digest st) (lower d) \<noteq> None \<or> MAX_SHARDS \<le> length (by_digest st)"
    | "is_sha256_hex d" "hm_get (by_digest st) (lower d) = None" "length (by_digest st) < MAX_SHARDS" by fastforce
  then show thesis
  proof cases
    case 1
    then show ?thesis by (intro same) (auto simp: learn_def Let_def)
  next
    case 2
    then show ?thesis by (intro new) (simp_all add: learn_def Let_def)
  qed
qed

lemma learn_ok: "shards_ok st \<Longrightarrow> shards_ok (snd (learn now w d n st))"
proof (cases rule: learn_cases [of d st now w n])
  case new
  assume "shards_ok st"
  with new show ?thesis
    unfolding shards_ok_def new(5)
    by (simp add: is_sha256_hex_lower) (auto simp: hm_insert_def hm_remove_absent is_sha256_hex_lower)
qed simp

lemma forget_by_digest: "by_digest (snd (forget w d st)) = hm_remove (lower d) (by_digest st)"
  by (simp add: forget_def case_prod_unfold hm_remove_absent Let_def)

lemma forget_ok: "shards_ok st \<Longrightarrow> shards_ok (snd (forget w d st))"
  using length_hm_remove_le [of "lower d" "by_digest st"]
  by (auto simp: shards_ok_def forget_by_digest)

interpretation local_shards: conviction_store shards_ok shards_lookup learn forget
proof
  show "lower d = lower d' \<Longrightarrow> shards_lookup st d = shards_lookup st d'" for d d' st
    by (simp add: shards_lookup_get)
  show "shards_ok st \<Longrightarrow> fst (learn now w d n st) = Inr True \<Longrightarrow>
      shards_lookup (snd (learn now w d n st)) d' = (if lower d' = lower d then Some n else shards_lookup st d') \<and>
      shards_lookup st d = None" for st now w d n d'
    by (cases rule: learn_cases [of d st now w n]) (auto simp: shards_lookup_get)
  show "shards_ok st \<Longrightarrow> fst (learn now w d n st) \<noteq> Inr True \<Longrightarrow>
      shards_lookup (snd (learn now w d n st)) d' = shards_lookup st d'" for st now w d n d'
    by (cases rule: learn_cases [of d st now w n]) auto
  show "shards_ok st \<Longrightarrow> shards_lookup (snd (forget w d st)) d' =
      (if lower d' = lower d then None else shards_lookup st d')" for st w d d'
    by (simp add: shards_lookup_get forget_by_digest)
qed (simp_all add: learn_ok forget_ok)

section \<open>A restart\<close>

lemma shards_load_ok:
  assumes "shards_load file st = Inr (n, st')"
  shows "shards_ok st'"
proof -
  obtain shards where m: "by_digest st' = hm_collect (map (\<lambda>s. (lower (sh_sha256 s), s))
      (take MAX_SHARDS (filter (\<lambda>s. is_sha256_hex (sh_sha256 s)) shards)))" (is "_ = hm_collect ?es")
    using assms by (auto simp: shards_load_def Let_def split: sum.splits)
  have "(k, s) \<in> set ?es" if "(k, s) \<in> set (by_digest st')" for k s
  proof -
    have "hm_get (by_digest st') k = Some s" using that hm_wf_collect by (simp add: hm_get_iff m)
    then show ?thesis unfolding m hm_get_collect by (metis map_of_SomeD set_rev)
  qed
  moreover have "\<forall>(k, s) \<in> set ?es. k = lower (sh_sha256 s) \<and> is_sha256_hex (sh_sha256 s)"
    by (auto dest: in_set_takeD)
  ultimately have "\<forall>(k, s) \<in> set (by_digest st'). k = lower (sh_sha256 s) \<and> is_sha256_hex (sh_sha256 s)" by blast
  moreover have "length (by_digest st') \<le> MAX_SHARDS" unfolding m by (rule le_trans [OF length_hm_collect]) simp
  moreover have "hm_wf (by_digest st')" by (simp add: m)
  ultimately show ?thesis unfolding shards_ok_def by blast
qed

lemma collect_saved:
  assumes "shards_ok st"
  shows "hm_get (hm_collect (map (\<lambda>s. (lower (sh_sha256 s), s)) (sort_key sh_learned_at (map snd (by_digest st))))) k =
    hm_get (by_digest st) k"
proof -
  let ?es = "map (\<lambda>s. (lower (sh_sha256 s), s)) (sort_key sh_learned_at (map snd (by_digest st)))"
  have restore: "map (\<lambda>s. (lower (sh_sha256 s), s)) (map snd (by_digest st)) = by_digest st"
    using assms by (auto simp: shards_ok_def comp_def intro!: map_idI)
  have "mset ?es = mset (by_digest st)" using arg_cong [OF restore, of mset] by (simp add: image_mset.compositionality)
  then have es: "set ?es = set (by_digest st)" "mset (map fst ?es) = mset (map fst (by_digest st))"
    by (rule mset_eq_setD) (simp only: mset_map [of fst] \<open>mset ?es = mset (by_digest st)\<close>)
  have "distinct (map fst (by_digest st))" using assms by (simp add: shards_ok_def hm_wf_def)
  with mset_eq_imp_distinct_iff [OF es(2)] have d: "distinct (map fst ?es)" by blast
  then have "map_of (rev ?es) = map_of (by_digest st)"
    using es(1) \<open>distinct (map fst (by_digest st))\<close> by (intro map_of_inject_set [THEN iffD2]) (simp_all add: rev_map [symmetric])
  then show ?thesis by (simp only: hm_get_collect) (simp add: hm_get_def)
qed

text \<open>
  A learned shard survives a restart. When a machine with a shard file learns a digest and the
  write succeeds, loading that file again, into whatever store, gives a store that answers every
  digest as before, and the learned digest, in either letter case, with its threat name.
\<close>

theorem learned_shard_survives_restart:
  assumes "shards_ok st" and "persistent st" and "learn now True d n st = (Inr True, st')" and "len \<le> MAX_FILE_BYTES"
  shows "\<exists>count st''. shards_load (Present len (Some (disk st'))) st0 = Inr (count, st'')
    \<and> (\<forall>d'. shards_lookup st'' d' = shards_lookup st' d') \<and> (\<forall>d'. lower d' = lower d \<longrightarrow> shards_lookup st'' d' = Some n)"
proof -
  have ok: "shards_ok st'" using learn_ok [OF assms(1), of now True d n] assms(3) by simp
  have disk: "disk st' = sort_key sh_learned_at (map snd (by_digest st'))"
    using assms(2,3) by (auto simp: learn_def Let_def persist_def split: if_splits)
  have all: "filter (\<lambda>s. is_sha256_hex (sh_sha256 s)) (disk st') = disk st'" "length (disk st') \<le> MAX_SHARDS"
    using ok by (auto simp: disk shards_ok_def filter_id_conv)
  let ?m = "hm_collect (map (\<lambda>s. (lower (sh_sha256 s), s)) (disk st'))"
  have "shards_load (Present len (Some (disk st'))) st0 =
      Inr (length ?m, st0\<lparr>persistent := True, by_digest := ?m, disk := disk st'\<rparr>)"
    using assms(4) all by (simp add: shards_load_def Let_def)
  moreover have "hm_get ?m k = hm_get (by_digest st') k" for k
    using collect_saved [OF ok] by (simp add: disk)
  moreover have "lower d' = lower d \<Longrightarrow> shards_lookup st' d' = Some n" for d'
    using local_shards.add_new [OF assms(1), of now True d n d'] assms(3) by simp
  ultimately show ?thesis by (auto simp: shards_lookup_get)
qed

definition example_digest :: string where
  "example_digest = replicate 64 (CHR ''A'')"

theorem learned_shard_survives_restart_witness:
  "\<exists>count st''. shards_load (Present 200 (Some (disk (snd (learn 5 True example_digest ''Shard.Test''
        \<lparr>persistent = True, by_digest = [], disk = []\<rparr>))))) \<lparr>persistent = False, by_digest = [], disk = []\<rparr> = Inr (count, st'')
    \<and> shards_lookup st'' (replicate 64 (CHR ''a'')) = Some ''Shard.Test''"
proof -
  let ?st = "\<lparr>persistent = True, by_digest = [], disk = []\<rparr>"
  have "shards_ok ?st" by (simp add: shards_ok_def)
  moreover have "learn 5 True example_digest ''Shard.Test'' ?st =
      (Inr True, snd (learn 5 True example_digest ''Shard.Test'' ?st))"
    by (simp add: learn_def Let_def example_digest_def is_sha256_hex_def is_hexdigit_char_def MAX_SHARDS_def list_all_iff)
  moreover have "char_of (97 :: nat) = CHR ''a''" by code_simp
  then have "lower (replicate 64 (CHR ''a'')) = lower example_digest"
    by (simp add: lower_def lower_char_def example_digest_def)
  ultimately show ?thesis
    using learned_shard_survives_restart [of ?st 5 example_digest "''Shard.Test''" _ 200]
    by (fastforce simp: MAX_FILE_BYTES_def)
qed

end
