(* ===== verification/Breaker.thy ===== *)
theory Breaker
  imports Prelude
begin

text \<open>
  The circuit breaker of \<^verbatim>\<open>src/definitions.rs\<close> that stops externally supplied definitions once they
  match too large a share of the files: a sliding window of outcomes with a running count. The
  lemmas show that the window and the count are those of the last observations, and that the breaker
  is tripped exactly when some moment of its history exceeded the permitted rate.
\<close>

section \<open>Model\<close>

record match_rate_limits =
  window_samples :: nat
  minimum_samples :: nat
  maximum_match_rate_basis_points :: nat

definition limits_default :: match_rate_limits where
  "limits_default = \<lparr>window_samples = 1024, minimum_samples = 128, maximum_match_rate_basis_points = 2500\<rparr>"

datatype match_rate_state = Monitoring nat nat | Healthy nat nat | Tripped nat nat

record breaker =
  limits :: match_rate_limits
  observations :: "bool list"
  matches :: nat
  tripped :: bool

definition breaker_new :: "match_rate_limits \<Rightarrow> breaker option" where
  "breaker_new l =
     (if window_samples l = 0 \<or> window_samples l > 65536 \<or> minimum_samples l = 0 \<or>
         minimum_samples l > window_samples l \<or> maximum_match_rate_basis_points l > 10000
      then None
      else Some \<lparr>limits = l, observations = [], matches = 0, tripped = False\<rparr>)"

definition breaker_state :: "breaker \<Rightarrow> match_rate_state" where
  "breaker_state b =
     (if tripped b then Tripped (length (observations b)) (matches b)
      else if length (observations b) < minimum_samples (limits b) then Monitoring (length (observations b)) (matches b)
      else Healthy (length (observations b)) (matches b))"

definition slide :: "breaker \<Rightarrow> breaker" where
  "slide b =
     (if length (observations b) = window_samples (limits b) then
        (case observations b of
           [] \<Rightarrow> b
         | front # rest \<Rightarrow> b\<lparr>observations := rest, matches := (if front then matches b - 1 else matches b)\<rparr>)
      else b)"

definition observe_external_match :: "bool \<Rightarrow> breaker \<Rightarrow> match_rate_state \<times> breaker" where
  "observe_external_match external_match b =
     (let b = slide b;
          b = b\<lparr>observations := observations b @ [external_match],
                matches := matches b + (if external_match then 1 else 0)\<rparr>;
          b = (if \<not> tripped b \<and> length (observations b) \<ge> minimum_samples (limits b)
               then b\<lparr>tripped := matches b * 10000 >
                       length (observations b) * maximum_match_rate_basis_points (limits b)\<rparr>
               else b)
      in (breaker_state b, b))"

definition reset_for_new_sequence :: "breaker \<Rightarrow> breaker" where
  "reset_for_new_sequence b = b\<lparr>observations := [], matches := 0, tripped := False\<rparr>"

section \<open>The window\<close>

definition last_n :: "nat \<Rightarrow> 'a list \<Rightarrow> 'a list" where
  "last_n n xs = drop (length xs - n) xs"

definition observe_list :: "bool list \<Rightarrow> breaker \<Rightarrow> breaker" where
  "observe_list obs b = foldl (\<lambda>b ob. snd (observe_external_match ob b)) b obs"

text \<open>The rate over the last observations is too high.\<close>

definition rate_exceeded :: "match_rate_limits \<Rightarrow> bool list \<Rightarrow> bool" where
  "rate_exceeded l obs \<longleftrightarrow>
     (let recent = last_n (window_samples l) obs in
      minimum_samples l \<le> length recent \<and>
      length recent * maximum_match_rate_basis_points l < length (filter id recent) * 10000)"

lemma length_last_n [simp]: "length (last_n n xs) = min n (length xs)"
  by (auto simp: last_n_def)

lemma last_n_snoc:
  "0 < n \<Longrightarrow> last_n n (xs @ [x]) = (if length xs < n then last_n n xs else tl (last_n n xs)) @ [x]"
  by (cases "length xs < n") (auto simp: last_n_def tl_drop drop_Suc Suc_diff_le simp flip: drop_Suc)

text \<open>What the breaker holds after the observations \<open>obs\<close> since it was created or reset.\<close>

definition breaker_after :: "match_rate_limits \<Rightarrow> bool list \<Rightarrow> breaker \<Rightarrow> bool" where
  "breaker_after l obs b \<longleftrightarrow>
     limits b = l \<and> observations b = last_n (window_samples l) obs \<and>
     matches b = length (filter id (last_n (window_samples l) obs)) \<and>
     (tripped b \<longleftrightarrow> (\<exists>k \<le> length obs. 0 < k \<and> rate_exceeded l (take k obs)))"

lemma slide_window:
  assumes "0 < window_samples (limits b)" and "observations b = last_n (window_samples (limits b)) obs"
    and "matches b = length (filter id (observations b))"
  shows "observations (slide b) @ [x] = last_n (window_samples (limits b)) (obs @ [x])"
    and "matches (slide b) + (if x then 1 else 0) = length (filter id (observations (slide b) @ [x]))"
    and "limits (slide b) = limits b" and "tripped (slide b) = tripped b"
  using assms by (auto simp: slide_def last_n_snoc min_def split: list.split)

lemma observe_fields:
  "limits (snd (observe_external_match x b)) = limits (slide b)"
  "observations (snd (observe_external_match x b)) = observations (slide b) @ [x]"
  "matches (snd (observe_external_match x b)) = matches (slide b) + (if x then 1 else 0)"
  "tripped (snd (observe_external_match x b)) \<longleftrightarrow> tripped (slide b) \<or>
     (minimum_samples (limits (slide b)) \<le> length (observations (slide b) @ [x]) \<and>
      length (observations (slide b) @ [x]) * maximum_match_rate_basis_points (limits (slide b)) <
        (matches (slide b) + (if x then 1 else 0)) * 10000)"
  by (auto simp: observe_external_match_def Let_def)

lemma observe_step:
  assumes "breaker_after l obs b" and "0 < window_samples l"
  shows "breaker_after l (obs @ [x]) (snd (observe_external_match x b))"
proof -
  have b: "limits b = l" "observations b = last_n (window_samples (limits b)) obs"
      "matches b = length (filter id (observations b))"
      "tripped b \<longleftrightarrow> (\<exists>k \<le> length obs. 0 < k \<and> rate_exceeded l (take k obs))"
    using assms(1) by (auto simp: breaker_after_def)
  have "0 < window_samples (limits b)" using assms(2) b(1) by simp
  note w = slide_window(1,2) [OF this b(2,3), where x = x, unfolded b(1)]
    slide_window(3,4) [OF this b(2,3), unfolded b(1)]
  have "(\<exists>k \<le> length (obs @ [x]). 0 < k \<and> rate_exceeded l (take k (obs @ [x]))) \<longleftrightarrow>
      tripped b \<or> rate_exceeded l (obs @ [x])"
    unfolding b(4) by (auto simp: le_Suc_eq)
  then show ?thesis
    unfolding breaker_after_def observe_fields w rate_exceeded_def Let_def by simp
qed

text \<open>
  A breaker is tripped exactly when, at some point since it was created, at least the minimum
  number of outcomes had been seen and the share of matches among the last window of them was above
  the permitted rate; it then stays tripped. Its count is always the number of matches in the window.
\<close>

theorem breaker_trips_exactly:
  assumes "breaker_new l = Some b"
  shows "breaker_after l obs (observe_list obs b)"
proof -
  have "0 < window_samples l" "breaker_after l [] b"
    using assms by (auto simp: breaker_new_def breaker_after_def last_n_def split: if_splits)
  then show ?thesis
    unfolding observe_list_def by (induction obs rule: rev_induct) (auto intro: observe_step)
qed

theorem breaker_trips_exactly_witness:
  "breaker_after \<lparr>window_samples = 3, minimum_samples = 2, maximum_match_rate_basis_points = 5000\<rparr> [True, False, True]
     (observe_list [True, False, True]
        \<lparr>limits = \<lparr>window_samples = 3, minimum_samples = 2, maximum_match_rate_basis_points = 5000\<rparr>,
         observations = [], matches = 0, tripped = False\<rparr>)"
  by (rule breaker_trips_exactly) (simp add: breaker_new_def)

end
