(* ===== verification/Engine_Pdf.thy ===== *)
theory Engine_Pdf
  imports Engine_Text
begin

text \<open>
  The PDF analysis of \<^verbatim>\<open>src/engine.rs\<close>: name escapes, the search for compressed streams with its
  three limits, and the evidence drawn from the names found. Inflating is the third-party crate
  \<^verbatim>\<open>flate2\<close>, a parameter \<open>inflate\<close>: what its decoder yields from a stream when at most the given number of
  bytes is asked of it. The limit itself is \<^verbatim>\<open>Read::take\<close> of the standard library and modelled here,
  so the bound on what an expansion may hold is a theorem for every decoder.
\<close>

section \<open>Model\<close>

definition MAX_PDF_STREAM_BYTES :: nat where "MAX_PDF_STREAM_BYTES = 4 * 1024 * 1024"
definition MAX_PDF_EXPANDED_BYTES :: nat where "MAX_PDF_EXPANDED_BYTES = 16 * 1024 * 1024"
definition MAX_PDF_STREAMS :: nat where "MAX_PDF_STREAMS = 512"

lemmas pdf_limits = MAX_PDF_STREAM_BYTES_def MAX_PDF_EXPANDED_BYTES_def MAX_PDF_STREAMS_def

text \<open>The two characters after a \<^verbatim>\<open>#\<close>, read by \<^verbatim>\<open>u8::from_str_radix\<close>.\<close>

definition escape_value :: "byte \<Rightarrow> byte \<Rightarrow> byte option" where
  "escape_value h l =
     (if utf8_chars [h, l] = None then None
      else map_option mk_byte (from_str_radix 16 u8_max [char_of (unat h), char_of (unat l)]))"

fun decode_names :: "bytes \<Rightarrow> bytes" where
  "decode_names (a # h # l # rest) =
     (if a = 0x23 then
        (case escape_value h l of
           Some b \<Rightarrow> b # decode_names rest
         | None \<Rightarrow> a # decode_names (h # l # rest))
      else a # decode_names (h # l # rest))"
| "decode_names bs = bs"

text \<open>
  The body of the stream loop after a keyword was found: what is skipped, and where the data of a
  compressed stream starts.
\<close>

definition stream_start :: "bytes \<Rightarrow> nat \<Rightarrow> nat option" where
  "stream_start bs keyword =
     (if keyword \<ge> 3 \<and> slice bs (keyword - 3) keyword = bytes_of ''end'' then None
      else let start = keyword + 6;
               start = (if get_at bs start = Some 13 then start + 1 else start)
        in if get_at bs start = Some 10 then
             (let dictionary = slice bs (keyword - 512) keyword in
              if find_subslice dictionary (bytes_of ''/FlateDecode'') = None \<and>
                 find_subslice dictionary (bytes_of ''/Fl '') = None
              then None else Some (start + 1))
           else None)"

text \<open>What is inflated from the stream that starts there, within what is left of the limits.\<close>

definition inflated_stream :: "(bytes \<Rightarrow> nat \<Rightarrow> bytes) \<Rightarrow> bytes \<Rightarrow> nat \<Rightarrow> nat \<Rightarrow> bytes" where
  "inflated_stream inflate bs start expanded =
     (let end' = (case find_subslice (drop start bs) (bytes_of ''endstream'') of
                    None \<Rightarrow> length bs | Some n \<Rightarrow> start + n);
          budget = min MAX_PDF_STREAM_BYTES (MAX_PDF_EXPANDED_BYTES - expanded)
      in take budget (inflate (slice bs start end') budget))"

function pdf_streams :: "(bytes \<Rightarrow> nat \<Rightarrow> bytes) \<Rightarrow> bytes \<Rightarrow> nat \<Rightarrow> nat \<Rightarrow> nat \<Rightarrow> bytes \<Rightarrow> bytes" where
  "pdf_streams inflate bs search expanded streams out =
     (case find_subslice (drop search bs) (bytes_of ''stream'') of
        None \<Rightarrow> out
      | Some found \<Rightarrow>
          let keyword = search + found; search' = keyword + 6 in
          (case stream_start bs keyword of
             None \<Rightarrow> pdf_streams inflate bs search' expanded streams out
           | Some start \<Rightarrow>
               let streams = streams + 1 in
               if streams > MAX_PDF_STREAMS \<or> expanded \<ge> MAX_PDF_EXPANDED_BYTES then out
               else let inflated = inflated_stream inflate bs start expanded
                 in pdf_streams inflate bs search' (expanded + length inflated) streams (out @ [10] @ inflated)))"
  by pat_completeness auto

lemma find_subslice_Some:
  assumes "find_subslice hay needle = Some i"
  shows "i + length needle \<le> length hay" and "slice hay i (i + length needle) = needle"
proof -
  obtain rest where "filter (\<lambda>i. slice hay i (i + length needle) = needle)
      (if length needle \<le> length hay then [0..<length hay + 1 - length needle] else []) = i # rest"
    using assms by (auto simp: find_subslice_def split: list.splits)
  then have "i \<in> set (filter (\<lambda>i. slice hay i (i + length needle) = needle)
      (if length needle \<le> length hay then [0..<length hay + 1 - length needle] else []))"
    by (simp only: list.set_intros)
  then show "i + length needle \<le> length hay" "slice hay i (i + length needle) = needle"
    by (auto split: if_splits)
qed

termination pdf_streams
proof (relation "measure (\<lambda>(inflate, bs, search, expanded, streams, out). length bs - search)", goal_cases)
  case (2 inflate bs search expanded streams out found)
  from find_subslice_Some(1) [OF 2(1)] have "found + 6 \<le> length bs - search" by (simp add: bytes_of_def)
  with 2(2,3) show ?case by simp
next
  case (3 inflate bs search expanded streams out found)
  from find_subslice_Some(1) [OF 3(1)] have "found + 6 \<le> length bs - search" by (simp add: bytes_of_def)
  with 3(2,3) show ?case by simp
qed simp

declare pdf_streams.simps [simp del]

definition expand_pdf :: "(bytes \<Rightarrow> nat \<Rightarrow> bytes) \<Rightarrow> bytes \<Rightarrow> bytes" where
  "expand_pdf inflate bs = pdf_streams inflate bs 0 0 0 (decode_names bs)"

definition is_ascii_whitespace :: "byte \<Rightarrow> bool" where
  "is_ascii_whitespace b \<longleftrightarrow> b = 32 \<or> b = 9 \<or> b = 10 \<or> b = 12 \<or> b = 13"

definition contains_pdf_name :: "bytes \<Rightarrow> string \<Rightarrow> bool" where
  "contains_pdf_name bs name =
     (let token_length = length name + 1 in
      list_ex (\<lambda>(offset, token).
          hd token = 0x2F \<and>
          list_all (\<lambda>(l, r). eq_ignore_ascii_case l r) (zip (tl token) (bytes_of name)) \<and>
          (case get_at bs (offset + token_length) of
             None \<Rightarrow> True
           | Some next' \<Rightarrow> is_ascii_whitespace next' \<or> next' \<in> set (bytes_of ''()<>[]{}/%'')))
        (List.enumerate 0 (windows token_length bs)))"

definition analyze_pdf :: "(bytes \<Rightarrow> nat \<Rightarrow> bytes) \<Rightarrow> bytes \<Rightarrow> evidence_item list \<Rightarrow> evidence_item list" where
  "analyze_pdf inflate bs ev =
     (let bs = expand_pdf inflate bs;
          javascript = contains_pdf_name bs ''JavaScript'' \<or> contains_pdf_name bs ''JS'';
          automatic_action = contains_pdf_name bs ''OpenAction'' \<or> contains_pdf_name bs ''AA'';
          ev = (if javascript \<and> automatic_action then push_evidence ''pdf.automatic_javascript'' High 60 ev
                else if javascript then push_evidence ''pdf.javascript'' Low 15 ev else ev);
          ev = (if contains_pdf_name bs ''Launch'' then push_evidence ''pdf.launch_action'' High 55 ev else ev)
      in if contains_pdf_name bs ''EmbeddedFile'' \<and> contains_pdf_name bs ''Filespec''
         then push_evidence ''pdf.embedded_file'' Low 10 ev else ev)"

section \<open>An expansion is bounded\<close>

lemma length_decode_names: "length (decode_names bs) \<le> length bs"
  by (induction bs rule: decode_names.induct) (auto split: option.splits)

text \<open>
  What the loop still may add: the bytes left of the expansion limit, and a line feed per stream.
\<close>

lemma pdf_streams_bound:
  "expanded \<le> MAX_PDF_EXPANDED_BYTES \<Longrightarrow> streams \<le> MAX_PDF_STREAMS \<Longrightarrow>
   length (pdf_streams inflate bs search expanded streams out) \<le>
     length out + (MAX_PDF_EXPANDED_BYTES - expanded) + (MAX_PDF_STREAMS - streams)"
proof (induction inflate bs search expanded streams out rule: pdf_streams.induct)
  case (1 inflate bs search expanded streams out)
  note unfold = pdf_streams.simps [of inflate bs search expanded streams out]
  show ?case
  proof (cases "find_subslice (drop search bs) (bytes_of ''stream'')")
    case None
    then show ?thesis by (simp add: unfold)
  next
    case (Some found)
    show ?thesis
    proof (cases "stream_start bs (search + found)")
      case None
      with Some show ?thesis using "1.IH"(1) [OF Some refl refl None] "1.prems" by (simp add: unfold)
    next
      case start: (Some start)
      show ?thesis
      proof (cases "streams + 1 > MAX_PDF_STREAMS \<or> expanded \<ge> MAX_PDF_EXPANDED_BYTES")
        case True
        with Some start show ?thesis by (simp add: unfold Let_def)
      next
        case False
        define inflated where "inflated = inflated_stream inflate bs start expanded"
        have "length inflated \<le> MAX_PDF_EXPANDED_BYTES - expanded"
          by (simp add: inflated_def inflated_stream_def Let_def)
        with False "1.IH"(2) [OF Some refl refl start refl False inflated_def]
        have "length (pdf_streams inflate bs (search + found + 6) (expanded + length inflated) (streams + 1) (out @ [10] @ inflated))
            \<le> length out + (MAX_PDF_EXPANDED_BYTES - expanded) + (MAX_PDF_STREAMS - streams)" by simp linarith
        with False show ?thesis by (simp add: unfold Some start Let_def inflated_def)
      qed
    qed
  qed
qed

text \<open>
  Whatever the decoder makes of the compressed streams, the expansion of a PDF holds at most
  the bytes of the file, 16 MiB of inflated data and one line feed for each of at most 512 streams;
  the search over the streams always ends.
\<close>

theorem expand_pdf_bounded:
  "length (expand_pdf inflate bs) \<le> length bs + 16777216 + 512"
  using pdf_streams_bound [of 0 0 inflate bs 0 "decode_names bs"] length_decode_names [of bs]
  by (simp add: expand_pdf_def pdf_limits)

end
