(* ===== verification/Signature_Db.thy ===== *)
theory Signature_Db
  imports Search Counting Collections
begin

text \<open>
  The exact-digest signatures of \<^verbatim>\<open>src/engine.rs\<close>: the hexadecimal form of a SHA-256 digest, the map of
  named digests, and the compact corpus, a sorted array with an index by the first two bytes.
  The lemmas show that reading a printed digest gives it back and that the indexed binary search
  finds exactly the digests of the corpus.
\<close>

section \<open>Digests in hexadecimal\<close>

datatype signature_error = DigestLength | DigestDigit nat | CorpusNotSorted | CorpusTooLarge

definition hex_sha256 :: "bytes \<Rightarrow> string" where
  "hex_sha256 digest = concat (map (\<lambda>b. [hex_char (unat b div 16), hex_char (unat b mod 16)]) digest)"

definition hex_nibble :: "char \<Rightarrow> nat option" where
  "hex_nibble c = (let n = of_char c in
     if 48 \<le> n \<and> n \<le> 57 then Some (n - 48)
     else if 97 \<le> n \<and> n \<le> 102 then Some (n - 97 + 10)
     else if 65 \<le> n \<and> n \<le> 70 then Some (n - 65 + 10) else None)"

text \<open>The loop over the pairs of digits; \<open>index\<close> is the number of bytes read so far.\<close>

fun parse_pairs :: "nat \<Rightarrow> string \<Rightarrow> signature_error + bytes" where
  "parse_pairs index (h # l # rest) =
     (case hex_nibble h of
        None \<Rightarrow> Inl (DigestDigit (index * 2))
      | Some high \<Rightarrow>
          (case hex_nibble l of
             None \<Rightarrow> Inl (DigestDigit (index * 2 + 1))
           | Some low \<Rightarrow>
               (case parse_pairs (index + 1) rest of
                  Inl e \<Rightarrow> Inl e
                | Inr bs \<Rightarrow> Inr (word_of_nat (high * 16 + low) # bs))))"
| "parse_pairs index _ = Inr []"

definition parse_sha256_hex :: "string \<Rightarrow> signature_error + bytes" where
  "parse_sha256_hex value =
     (if length value \<noteq> 64 then Inl DigestLength else parse_pairs 0 value)"

section \<open>The database\<close>

record exact_signature =
  es_name :: string
  es_family :: "string option"
  es_automatic_quarantine_eligible :: bool

record signature_database =
  exact_sha256 :: "(bytes \<times> exact_signature) list"
  compact_sha256 :: "bytes list"
  compact_prefix_offsets :: "nat list"
  compact_signature :: "exact_signature option"

definition db_empty :: signature_database where
  "db_empty = \<lparr>exact_sha256 = [], compact_sha256 = [], compact_prefix_offsets = [], compact_signature = None\<rparr>"

definition db_len :: "signature_database \<Rightarrow> nat" where
  "db_len db = length (exact_sha256 db) + length (compact_sha256 db)"

definition db_is_empty :: "signature_database \<Rightarrow> bool" where
  "db_is_empty db \<longleftrightarrow> exact_sha256 db = [] \<and> compact_sha256 db = []"

definition insert_sha256_hex :: "signature_database \<Rightarrow> string \<Rightarrow> string \<Rightarrow> string option \<Rightarrow>
    signature_error + exact_signature option \<times> signature_database" where
  "insert_sha256_hex db digest name family =
     (case parse_sha256_hex digest of
        Inl e \<Rightarrow> Inl e
      | Inr d \<Rightarrow> Inr (hm_get (exact_sha256 db) d,
          db\<lparr>exact_sha256 := bt_insert d \<lparr>es_name = name, es_family = family,
               es_automatic_quarantine_eligible = True\<rparr> (exact_sha256 db)\<rparr>))"

text \<open>The first two bytes of a digest, most significant first.\<close>

definition digest_prefix :: "bytes \<Rightarrow> nat" where
  "digest_prefix d = unat (d ! 0) * 256 + unat (d ! 1)"

definition db_lookup :: "signature_database \<Rightarrow> bytes \<Rightarrow> exact_signature option" where
  "db_lookup db digest =
     (case hm_get (exact_sha256 db) digest of
        Some sg \<Rightarrow> Some sg
      | None \<Rightarrow>
          (case get_range (compact_prefix_offsets db) (digest_prefix digest) (digest_prefix digest + 2) of
             None \<Rightarrow> None
           | Some offsets \<Rightarrow>
               (case binary_search_by_key (\<lambda>d. d) digest (slice (compact_sha256 db) (offsets ! 0) (offsets ! 1)) of
                  None \<Rightarrow> None
                | Some _ \<Rightarrow> compact_signature db)))"

definition replace_compact_sha256 :: "signature_database \<Rightarrow> bytes list \<Rightarrow> string \<Rightarrow> string option \<Rightarrow>
    signature_error + signature_database" where
  "replace_compact_sha256 db digests name family =
     (if list_ex (\<lambda>w. w ! 0 \<ge> w ! 1) (windows 2 digests) then Inl CorpusNotSorted
      else if length digests > u32_max then Inl CorpusTooLarge
      else
        (let offsets = count_starts (replicate 65537 0) (map (\<lambda>d. (digest_prefix d, ())) digests);
             offsets = prefix_sums offsets [1..<length offsets]
         in Inr (db\<lparr>compact_sha256 := digests, compact_prefix_offsets := offsets,
                    compact_signature := Some \<lparr>es_name = name, es_family = family,
                      es_automatic_quarantine_eligible = False\<rparr>\<rparr>)))"

definition BLACKSHARD_SELF_TEST_SHA256 :: string where
  "BLACKSHARD_SELF_TEST_SHA256 = ''e316cf90429b8ac181a7006de57c3f4af0c75642caf24589b86f63c8798294f8''"

text \<open>The source expects the built-in digest to be valid; \<open>db_default_ok\<close> below shows that it is.\<close>

definition db_default :: signature_database where
  "db_default =
     (case insert_sha256_hex db_empty BLACKSHARD_SELF_TEST_SHA256 ''blackshard-harmless-self-test'' (Some ''Test'') of
        Inl _ \<Rightarrow> db_empty
      | Inr (_, db) \<Rightarrow> db)"

section \<open>Reading and writing digests\<close>

lemma hex_nibble_hex_char: "n < 16 \<Longrightarrow> hex_nibble (hex_char n) = Some n"
  by (simp add: hex_nibble_def of_char_hex_char Let_def)

lemma length_hex_sha256: "length (hex_sha256 digest) = 2 * length digest"
  by (induction digest) (simp_all add: hex_sha256_def)

lemma parse_pairs_hex: "parse_pairs index (hex_sha256 digest) = Inr digest"
proof (induction digest arbitrary: index)
  case (Cons b digest)
  have "unat b div 16 * 16 + unat b mod 16 = unat b" by simp
  then have "(word_of_nat (unat b div 16 * 16 + unat b mod 16) :: byte) = b" by simp
  with Cons show ?case by (simp add: hex_sha256_def hex_nibble_hex_char nibbles_bound)
qed (simp add: hex_sha256_def)

section \<open>The compact corpus\<close>

text \<open>A digest is found among those with its own first two bytes.\<close>

lemma windows_2_sorted:
  "\<not> list_ex (\<lambda>w. w ! 0 \<ge> w ! 1) (windows 2 (ds :: bytes list)) \<longleftrightarrow> sorted_wrt (<) ds"
proof -
  have pair: "slice ds i (i + 2) ! 0 = ds ! i" "slice ds i (i + 2) ! 1 = ds ! Suc i" if "i + 2 \<le> length ds" for i
    using that by (simp_all add: slice_nth)
  have found: "list_ex (\<lambda>w. w ! 0 \<ge> w ! 1) (windows 2 ds) \<longleftrightarrow> (\<exists>i. i + 2 \<le> length ds \<and> \<not> ds ! i < ds ! Suc i)"
    unfolding list_ex_iff not_less using set_windows [of _ 2 ds] pair by metis
  have sorted: "sorted_wrt (<) ds \<longleftrightarrow> (\<forall>i. i + 2 \<le> length ds \<longrightarrow> ds ! i < ds ! Suc i)"
    by (auto simp: sorted_wrt_iff_nth_Suc_transp)
  show ?thesis unfolding found sorted by blast
qed

lemma filter_less_sorted:
  "sorted (map f xs) \<Longrightarrow> xs = filter (\<lambda>x. f x < (k :: nat)) xs @ filter (\<lambda>x. \<not> f x < k) xs"
proof (induction xs)
  case (Cons x xs)
  show ?case
  proof (cases "f x < k")
    case True
    with Cons show ?thesis by simp
  next
    case False
    then have "\<forall>y \<in> set xs. \<not> f y < k" using Cons.prems by fastforce
    then have "filter (\<lambda>x. f x < k) xs = []" by simp
    with False Cons show ?thesis by simp
  qed
qed simp

lemma slice_sorted:
  assumes "sorted (map f xs)"
  shows "slice xs (length (filter (\<lambda>x. f x < (k :: nat)) xs)) (length (filter (\<lambda>x. f x < Suc k) xs)) =
    filter (\<lambda>x. f x = k) xs"
proof -
  let ?lo = "filter (\<lambda>x. f x < k) xs" and ?eq = "filter (\<lambda>x. f x = k) xs" and ?hi = "filter (\<lambda>x. \<not> f x < Suc k) xs"
  have "filter (\<lambda>x. f x < Suc k) xs = ?lo @ ?eq"
  proof -
    have "(\<lambda>x. f x < Suc k \<and> f x < k) = (\<lambda>x. f x < k)" "(\<lambda>x. f x < Suc k \<and> \<not> f x < k) = (\<lambda>x. f x = k)"
      by auto
    then show ?thesis
      using filter_less_sorted [of f "filter (\<lambda>x. f x < Suc k) xs" k] assms by (simp add: sorted_filter conj_commute)
  qed
  moreover from this filter_less_sorted [OF assms, of "Suc k"] have "?lo @ ?eq @ ?hi = xs" by simp
  moreover have "slice (as @ bs @ cs) (length as) (length (as @ bs)) = bs" for as bs cs :: "'a list"
    by (simp add: slice_def)
  ultimately show ?thesis by metis
qed

lemma digest_prefix_mono:
  assumes "2 \<le> length d" "2 \<le> length d'" "d \<le> d'"
  shows "digest_prefix d \<le> digest_prefix d'"
proof -
  obtain a b r a' b' r' where d: "d = a # b # r" "d' = a' # b' # r'"
    using assms(1,2) by (auto simp: numeral_2_eq_2 Suc_le_length_iff)
  from assms(3) have "a < a' \<or> a = a' \<and> b \<le> b'" by (auto simp: d)
  then show ?thesis
  proof
    assume "a < a'"
    then have "unat a + 1 \<le> unat a'" by (simp add: word_less_nat_alt)
    moreover have "unat b < 256" by (rule unat_byte_less)
    ultimately have "unat a * 256 + unat b \<le> unat a' * 256 + unat b'" by linarith
    then show ?thesis by (simp add: d digest_prefix_def)
  qed (auto simp: d digest_prefix_def word_le_nat_alt)
qed

lemma digest_prefix_bound: "digest_prefix d < 65536"
proof -
  have "unat (d ! 0) < 256" "unat (d ! 1) < 256" by (rule unat_byte_less)+
  then have "unat (d ! 0) * 256 + unat (d ! 1) < 65536" by linarith
  then show ?thesis by (simp only: digest_prefix_def)
qed

lemma lookup_compact:
  assumes sorted: "sorted_wrt (<) digests" and len: "\<forall>d \<in> set digests. 2 \<le> length d" "2 \<le> length digest"
    and small: "length digests \<le> u32_max"
    and db': "replace_compact_sha256 db digests name family = Inr db'"
  shows "db_lookup db' digest =
    (case hm_get (exact_sha256 db) digest of
       Some sg \<Rightarrow> Some sg
     | None \<Rightarrow> if digest \<in> set digests
               then Some \<lparr>es_name = name, es_family = family, es_automatic_quarantine_eligible = False\<rparr> else None)"
proof -
  let ?refs = "map (\<lambda>d. (digest_prefix d, ())) digests" and ?k = "digest_prefix digest"
  obtain n :: nat where n: "n = 65536" by blast
  define offs where "offs = prefix_sums (count_starts (replicate (n + 1) 0) ?refs) [1..<n + 1]"
  have len_offs: "length offs = n + 1" by (simp add: offs_def)
  have refs: "\<forall>r \<in> set ?refs. fst r < n" unfolding n by (auto simp: digest_prefix_bound)
  have at: "offs ! k = length (filter (\<lambda>d. digest_prefix d < k) digests)" if "k \<le> n" for k
    using starts_nth [OF refs that] by (simp add: offs_def below_def filter_map comp_def)
  have k: "?k < n" unfolding n by (rule digest_prefix_bound)
  have mono: "sorted (map digest_prefix digests)"
    unfolding sorted_wrt_map
    by (rule sorted_wrt_mono_rel [OF _ sorted]) (simp add: len(1) digest_prefix_mono less_imp_le)
  have "slice digests (offs ! ?k) (offs ! Suc ?k) = filter (\<lambda>d. digest_prefix d = ?k) digests"
    using slice_sorted [OF mono, of ?k] at [of ?k] at [of "Suc ?k"] k by simp
  moreover have "sorted (map (\<lambda>d. d) (filter (\<lambda>d. digest_prefix d = ?k) digests))"
    using sorted by (simp add: strict_sorted_imp_sorted sorted_wrt_filter)
  ultimately have found: "binary_search_by_key (\<lambda>d. d) digest (slice digests (offs ! ?k) (offs ! Suc ?k)) \<noteq> None \<longleftrightarrow>
      digest \<in> set digests"
    using binary_search_by_key_iff [of "\<lambda>d. d" "filter (\<lambda>d. digest_prefix d = ?k) digests" digest] by auto
  have db'_eq: "db' = db\<lparr>compact_sha256 := digests, compact_prefix_offsets := offs, compact_signature :=
      Some \<lparr>es_name = name, es_family = family, es_automatic_quarantine_eligible = False\<rparr>\<rparr>"
  proof -
    have "replicate 65537 (0 :: nat) = replicate (n + 1) 0" unfolding n by simp
    then show ?thesis
      using db' by (auto simp: replace_compact_sha256_def offs_def Let_def split: if_splits)
  qed
  have "get_range offs ?k (?k + 2) = Some (slice offs ?k (?k + 2))" using k len_offs by simp
  moreover have "slice offs ?k (?k + 2) ! 0 = offs ! ?k" "slice offs ?k (?k + 2) ! 1 = offs ! Suc ?k"
    using k len_offs by (simp_all add: slice_nth)
  ultimately show ?thesis
    using found by (auto simp: db_lookup_def db'_eq simp del: get_range_Some split: option.splits)
qed

lemma db_default_ok: "db_len db_default = 1"
proof -
  obtain d where "parse_sha256_hex BLACKSHARD_SELF_TEST_SHA256 = Inr d"
    by (simp add: parse_sha256_hex_def BLACKSHARD_SELF_TEST_SHA256_def hex_nibble_def)
  then show ?thesis by (simp add: db_default_def insert_sha256_hex_def db_empty_def db_len_def)
qed

section \<open>Properties\<close>

text \<open>
  Digests survive their printed form: reading the 64 hexadecimal digits written for any digest
  gives the digest back, and reading accepts upper-case digits as well, so a digest is stored
  under one key whatever its case.
\<close>

theorem parse_hex_sha256:
  assumes "length digest = 32"
  shows "parse_sha256_hex (hex_sha256 digest) = Inr digest"
  using assms by (simp add: parse_sha256_hex_def length_hex_sha256 parse_pairs_hex)

text \<open>
  The compact corpus is searched exactly. A strictly sorted corpus is accepted, and afterwards a
  look-up answers the named signature of the digest if there is one, else the corpus signature if
  and only if the digest is in the corpus; any other corpus is refused and changes nothing.
\<close>

theorem compact_lookup_exact:
  assumes "\<forall>d \<in> set digests. length d = 32" "length digest = 32" "length digests \<le> u32_max"
  shows "if sorted_wrt (<) digests
         then \<exists>db'. replace_compact_sha256 db digests name family = Inr db' \<and>
           db_lookup db' digest =
             (case hm_get (exact_sha256 db) digest of
                Some sg \<Rightarrow> Some sg
              | None \<Rightarrow> if digest \<in> set digests
                  then Some \<lparr>es_name = name, es_family = family, es_automatic_quarantine_eligible = False\<rparr>
                  else None)
         else replace_compact_sha256 db digests name family = Inl CorpusNotSorted"
proof (cases "sorted_wrt (<) digests")
  case True
  then obtain db' where db': "replace_compact_sha256 db digests name family = Inr db'"
    using assms(3) windows_2_sorted [of digests] by (auto simp: replace_compact_sha256_def Let_def)
  from lookup_compact [OF True _ _ assms(3) db', of digest] assms(1,2) True db' show ?thesis by simp
next
  case False
  then show ?thesis using windows_2_sorted [of digests] by (simp add: replace_compact_sha256_def)
qed

theorem parse_hex_sha256_witness:
  "parse_sha256_hex (hex_sha256 (replicate 32 0xab)) = Inr (replicate 32 0xab)"
  by (rule parse_hex_sha256) simp

theorem compact_lookup_exact_witness:
  "\<exists>db'. replace_compact_sha256 db_empty [replicate 32 1, replicate 32 2] ''Corpus'' None = Inr db' \<and>
     db_lookup db' (replicate 32 2) =
       Some \<lparr>es_name = ''Corpus'', es_family = None, es_automatic_quarantine_eligible = False\<rparr>"
proof -
  have r: "replicate 32 (x :: byte) = x # replicate 31 x" for x by (simp add: numeral_eq_Suc)
  have "sorted_wrt (<) [replicate 32 (1 :: byte), replicate 32 2]" by (simp add: r)
  with compact_lookup_exact [of "[replicate 32 1, replicate 32 2]" "replicate 32 2" db_empty "''Corpus''" None]
  show ?thesis by (simp add: u32_max_def db_empty_def hm_get_def)
qed

end
