(* ===== verification/Engine.thy ===== *)
theory Engine
  imports Engine_Heuristics Engine_Pdf Signature_Db
begin

text \<open>
  The scan engine of \<^verbatim>\<open>src/engine.rs\<close>: configuration, content classification, the reading loop and
  the analysis that turns evidence into a verdict. The code the engine takes from other crates is
  gathered in \<open>engine_env\<close>: the PE parser, the inflater and SHA-256. A reader is the sequence of what its
  \<^verbatim>\<open>read\<close> calls have to offer, so a theorem for every sequence covers every way the operating system
  may cut a file into pieces.
\<close>

section \<open>Configuration\<close>

record engine_env =
  pe_parse :: "bytes \<Rightarrow> pe_image option"
  inflate :: "bytes \<Rightarrow> nat \<Rightarrow> bytes"
  sha256 :: "bytes \<Rightarrow> bytes"

record scan_config =
  max_read_bytes :: nat
  max_script_sample_bytes :: nat
  suspicious_threshold :: nat

definition DEFAULT_MAX_READ_BYTES :: nat where "DEFAULT_MAX_READ_BYTES = 64 * 1024 * 1024"
definition DEFAULT_SCRIPT_SAMPLE_BYTES :: nat where "DEFAULT_SCRIPT_SAMPLE_BYTES = 1024 * 1024"
definition DEFAULT_SUSPICIOUS_THRESHOLD :: nat where "DEFAULT_SUSPICIOUS_THRESHOLD = 55"

definition config_default :: scan_config where
  "config_default = \<lparr>max_read_bytes = DEFAULT_MAX_READ_BYTES, max_script_sample_bytes = DEFAULT_SCRIPT_SAMPLE_BYTES,
     suspicious_threshold = DEFAULT_SUSPICIOUS_THRESHOLD\<rparr>"

datatype config_error = BadReadBytes | BadSampleBytes | BadThreshold

definition config_validate :: "scan_config \<Rightarrow> config_error + unit" where
  "config_validate c =
     (if max_read_bytes c = 0 \<or> max_read_bytes c = usize_max then Inl BadReadBytes
      else if max_script_sample_bytes c = 0 then Inl BadSampleBytes
      else if suspicious_threshold c = 0 \<or> suspicious_threshold c > 100 then Inl BadThreshold
      else Inr ())"

record scan_engine =
  config :: scan_config
  signatures :: signature_database

definition engine_new :: "scan_config \<Rightarrow> signature_database \<Rightarrow> config_error + scan_engine" where
  "engine_new c db =
     (case config_validate c of Inl e \<Rightarrow> Inl e | Inr _ \<Rightarrow> Inr \<lparr>config = c, signatures = db\<rparr>)"

section \<open>Content types\<close>

definition u32_of_be :: "bytes \<Rightarrow> nat" where
  "u32_of_be bs = 16777216 * unat (bs ! 0) + 65536 * unat (bs ! 1) + 256 * unat (bs ! 2) + unat (bs ! 3)"

definition classify_text :: "bytes \<Rightarrow> content_type" where
  "classify_text sample =
     (case decode_probable_text sample of
        None \<Rightarrow> Binary
      | Some t \<Rightarrow> (case identify_script_language (lowercase t) of Some language \<Rightarrow> Script language | None \<Rightarrow> Text))"

definition classify_content :: "(bytes \<Rightarrow> pe_image option) \<Rightarrow> bytes \<Rightarrow> nat \<Rightarrow> content_type" where
  "classify_content parse bs text_limit =
     (if bs = [] then Empty
      else if starts_with bs (bytes_of ''MZ'') then
        (case parse bs of Some pe \<Rightarrow> if pe_is_64 pe then Pe64 else Pe32 | None \<Rightarrow> PeUnknown)
      else if starts_with bs (bytes_of ''%PDF-'') then Pdf
      else if is_shortcut bs then Lnk
      else if starts_with bs [0x50, 0x4B, 3, 4] \<or> starts_with bs [0x50, 0x4B, 5, 6] \<or> starts_with bs [0x50, 0x4B, 7, 8]
      then Zip
      else if starts_with bs [0x1F, 0x8B] then Gzip
      else if starts_with bs [0x37, 0x7A, 0xBC, 0xAF, 0x27, 0x1C] then SevenZip
      else if starts_with bs (bytes_of ''Rar!'' @ [0x1A, 7, 0]) \<or> starts_with bs (bytes_of ''Rar!'' @ [0x1A, 7, 1, 0])
      then Rar
      else if starts_with bs [0xD0, 0xCF, 0x11, 0xE0, 0xA1, 0xB1, 0x1A, 0xE1] then OleCompound
      else if starts_with bs (0x7F # bytes_of ''ELF'') then Elf
      else if length bs \<ge> 4 \<and> u32_of_be bs \<in> {0xFEEDFACE, 0xFEEDFACF, 0xCEFAEDFE, 0xCFFAEDFE} then MachO
      else classify_text (take text_limit bs))"

section \<open>Analysis\<close>

definition verdict_confidence :: "verdict \<Rightarrow> nat \<Rightarrow> nat \<Rightarrow> bool \<Rightarrow> evidence_item list \<Rightarrow> nat" where
  "verdict_confidence verdict heuristic_score threshold truncated ev =
     (case verdict of
        Malicious \<Rightarrow> 100
      | Suspicious \<Rightarrow>
          let corroboration = (length (filter (\<lambda>item. risk_points item > 0) ev) - 1) mod 256 in
          min (saturating_add u8_max
                 (saturating_add u8_max 70 (min u8_max (corroboration * 5)))
                 ((heuristic_score - threshold) div 5)) 95
      | Clean \<Rightarrow> if truncated then 30 else 75
      | Error \<Rightarrow> 0)"

definition signature_evidence :: "signature_database \<Rightarrow> bytes option \<Rightarrow> bool \<times> evidence_item list" where
  "signature_evidence db full_digest =
     (case full_digest of
        Some digest \<Rightarrow>
          (case db_lookup db digest of
             Some signature \<Rightarrow>
               (True, push_evidence (if es_automatic_quarantine_eligible signature then ''signature.exact_sha256''
                        else ''signature.reputation_sha256'') Critical 100 [])
           | None \<Rightarrow> (False, []))
      | None \<Rightarrow> (False, push_evidence ''scan.truncated'' Informational 0 []))"

definition content_evidence :: "engine_env \<Rightarrow> scan_config \<Rightarrow> bytes \<Rightarrow> nat \<Rightarrow> content_type \<Rightarrow> evidence_item list \<Rightarrow>
    content_type \<times> evidence_item list" where
  "content_evidence env c bs file_size content ev =
     (case content of
        Pe32 \<Rightarrow> analyze_pe (pe_parse env) bs file_size ev
      | Pe64 \<Rightarrow> analyze_pe (pe_parse env) bs file_size ev
      | PeUnknown \<Rightarrow> analyze_pe (pe_parse env) bs file_size ev
      | Script _ \<Rightarrow> (content, analyze_script bs (max_script_sample_bytes c) ev)
      | Pdf \<Rightarrow> (content, analyze_pdf (inflate env) bs ev)
      | Lnk \<Rightarrow> (content, analyze_lnk bs ev)
      | _ \<Rightarrow> (content,
          if shannon_entropy bs \<ge> HIGH_ENTROPY_THRESHOLD \<and> length bs \<ge> MIN_SECTION_ENTROPY_BYTES
          then push_evidence ''entropy.high_uncontextualized'' Informational 0 ev else ev))"

definition heuristic_score :: "evidence_item list \<Rightarrow> nat" where
  "heuristic_score ev =
     min 100 (foldl (\<lambda>total item. saturating_add u16_max total (risk_points item)) 0
       (filter (\<lambda>item. code item \<noteq> ''signature.exact_sha256'') ev))"

definition analyze_internal :: "engine_env \<Rightarrow> scan_engine \<Rightarrow> bytes \<Rightarrow> nat \<Rightarrow> nat \<Rightarrow> bool \<Rightarrow> bytes option \<Rightarrow>
    analysis_completeness \<Rightarrow> scan_report" where
  "analyze_internal env e bs file_size bytes_scanned truncated full_digest completeness =
     (let content = classify_content (pe_parse env) bs (max_script_sample_bytes (config e));
          (exact_match, ev) = signature_evidence (signatures e) full_digest;
          (content, ev) = content_evidence env (config e) bs file_size content ev;
          score = heuristic_score ev;
          verdict = (if exact_match then Malicious
                     else if score \<ge> suspicious_threshold (config e) then Suspicious else Clean)
      in \<lparr>r_verdict = verdict, r_content_type = content, r_risk_score = (if exact_match then 100 else score),
          r_confidence = verdict_confidence verdict score (suspicious_threshold (config e)) truncated ev,
          r_sha256 = map_option hex_sha256 full_digest, r_file_size = file_size, r_bytes_scanned = bytes_scanned,
          r_truncated = truncated, r_completeness = completeness, r_evidence = ev, r_error = False\<rparr>)"

section \<open>Scanning\<close>

definition scan_sample :: "engine_env \<Rightarrow> scan_engine \<Rightarrow> bytes \<Rightarrow> nat \<Rightarrow> scan_report" where
  "scan_sample env e bs declared_size =
     (let sample = take (max_read_bytes (config e)) bs;
          file_size = max declared_size (length bs);
          truncated_prefix = (length bs > max_read_bytes (config e) \<or> file_size > length bs);
          full_digest = (if \<not> truncated_prefix then Some (sha256 env bs) else None)
      in analyze_internal env e sample file_size (length bs) truncated_prefix full_digest
           (if truncated_prefix then PrefixAndTargetedRegions else Complete))"

definition scan_bytes :: "engine_env \<Rightarrow> scan_engine \<Rightarrow> bytes \<Rightarrow> scan_report" where
  "scan_bytes env e bs = scan_sample env e bs (length bs)"

definition scan_sample_with_digest :: "engine_env \<Rightarrow> scan_engine \<Rightarrow> bytes \<Rightarrow> nat \<Rightarrow> bytes \<Rightarrow> scan_report" where
  "scan_sample_with_digest env e sample file_size whole_file_sha256 =
     (let sample = take (max_read_bytes (config e)) sample;
          file_size = max file_size (length sample);
          truncated = (file_size > length sample)
      in analyze_internal env e sample file_size (length sample) truncated (Some whole_file_sha256)
           (if truncated then PrefixAndTargetedRegions else Complete))"

datatype read_step = Data bytes | Fail

text \<open>
  One \<^verbatim>\<open>read\<close> through \<^verbatim>\<open>Read::take\<close> into a buffer: nothing once the limit is used up, an error passed
  on, otherwise a non-empty piece, at most as long as the buffer and the limit allow.
\<close>

fun bounded_read :: "nat \<Rightarrow> read_step list \<Rightarrow> (bytes \<times> read_step list) option" where
  "bounded_read cap [] = Some ([], [])"
| "bounded_read cap (step # steps) =
     (if cap = 0 then Some ([], step # steps)
      else case step of
        Fail \<Rightarrow> None
      | Data d \<Rightarrow> Some (take cap d, if length d \<le> cap then steps else Data (drop cap d) # steps))"

record read_state =
  hashed :: bytes
  prefix :: bytes
  total_read :: nat
  io_error :: bool

definition READ_BUFFER :: nat where "READ_BUFFER = 64 * 1024"

text \<open>What the loop does with a piece: the hasher sees all of it, the prefix takes what it has room for.\<close>

definition absorb :: "nat \<Rightarrow> bytes \<Rightarrow> read_state \<Rightarrow> read_state" where
  "absorb max_bytes d st =
     st\<lparr>hashed := hashed st @ d,
        prefix := (if length (prefix st) < max_bytes then prefix st @ take (max_bytes - length (prefix st)) d else prefix st),
        total_read := total_read st + length d\<rparr>"

function read_loop :: "nat \<Rightarrow> nat \<Rightarrow> read_step list \<Rightarrow> read_state \<Rightarrow> read_state" where
  "read_loop max_bytes limit steps st =
     (case bounded_read (min limit READ_BUFFER) steps of
        None \<Rightarrow> st\<lparr>io_error := True\<rparr>
      | Some (d, rest) \<Rightarrow>
          if d = [] then st
          else read_loop max_bytes (limit - length d) rest (absorb max_bytes d st))"
  by pat_completeness auto

lemma bounded_read_le: "bounded_read cap steps = Some (d, rest) \<Longrightarrow> length d \<le> cap"
  by (cases steps) (auto split: if_splits read_step.splits)

termination read_loop
proof (relation "measure (\<lambda>(max_bytes, limit, steps, st). limit)", goal_cases)
  case (2 max_bytes limit steps st outcome d rest)
  then show ?case using bounded_read_le [of "min limit READ_BUFFER" steps d rest] by (cases d) auto
qed simp

declare read_loop.simps [simp del]

definition scan_reader :: "engine_env \<Rightarrow> scan_engine \<Rightarrow> read_step list \<Rightarrow> nat option \<Rightarrow> scan_report" where
  "scan_reader env e reader declared_size =
     (let max_bytes = max_read_bytes (config e);
          st = read_loop max_bytes (max_bytes + 1) reader
                 \<lparr>hashed = [], prefix = [], total_read = 0, io_error = False\<rparr>
      in if io_error st \<and> prefix st = []
         then error_report (case declared_size of Some n \<Rightarrow> n | None \<Rightarrow> total_read st) 0
         else let file_size = (case declared_size of Some n \<Rightarrow> max n (total_read st) | None \<Rightarrow> total_read st);
                  truncated_prefix = (total_read st > max_bytes);
                  full_digest = (if \<not> io_error st \<and> \<not> truncated_prefix then Some (sha256 env (hashed st)) else None);
                  completeness = (if io_error st then ResourceLimitReached
                                  else if truncated_prefix then PrefixOnly else Complete)
              in analyze_internal env e (prefix st) file_size (length (prefix st)) truncated_prefix full_digest completeness)"

definition scan_path :: "engine_env \<Rightarrow> scan_engine \<Rightarrow> (read_step list \<times> nat option) option \<Rightarrow> scan_report" where
  "scan_path env e opened =
     (case opened of
        None \<Rightarrow> error_report 0 0
      | Some (file, declared_size) \<Rightarrow> scan_reader env e file declared_size)"

section \<open>Verdicts\<close>

lemma foldl_saturating_sum:
  "acc \<le> mx \<Longrightarrow> foldl (\<lambda>total x. saturating_add mx total (f x)) acc xs = min mx (acc + sum_list (map f xs))"
  by (induction xs arbitrary: acc) (auto simp: saturating_add_def min_def)

lemma heuristic_score_sum:
  "heuristic_score ev =
     min 100 (sum_list (map risk_points (filter (\<lambda>item. code item \<noteq> ''signature.exact_sha256'') ev)))"
  by (simp add: heuristic_score_def foldl_saturating_sum u16_max_def min_def)

lemma verdict_confidence_le: "verdict_confidence v score threshold truncated ev \<le> 100"
  by (auto simp: verdict_confidence_def Let_def split: verdict.split)

definition known_digest :: "signature_database \<Rightarrow> bytes option \<Rightarrow> bool" where
  "known_digest db full_digest \<longleftrightarrow> (\<exists>digest. full_digest = Some digest \<and> db_lookup db digest \<noteq> None)"

lemma signature_evidence_known: "fst (signature_evidence db full_digest) = known_digest db full_digest"
  by (auto simp: signature_evidence_def known_digest_def split: option.splits)

lemma signature_evidence_points:
  "\<not> known_digest db full_digest \<Longrightarrow> sum_list (map risk_points (snd (signature_evidence db full_digest))) = 0"
  by (auto simp: signature_evidence_def known_digest_def push_evidence_def split: option.splits)

lemmas analyze_unfold = analyze_internal_def Let_def case_prod_unfold signature_evidence_known

text \<open>
  The verdict of an analysis is decided by the evidence in the report: malicious exactly when
  the digest of the whole file is a known signature, suspicious exactly when it is not and the
  points of the evidence reach the configured threshold, otherwise clean. The score is 100 for a
  known digest and the points, capped at 100, otherwise; score and confidence never exceed 100.
\<close>

theorem analyze_verdict:
  "let r = analyze_internal env e bs file_size bytes_scanned truncated full_digest completeness;
       known = known_digest (signatures e) full_digest;
       points = sum_list (map risk_points (filter (\<lambda>item. code item \<noteq> ''signature.exact_sha256'') (r_evidence r)))
   in r_verdict r = (if known then Malicious
                     else if suspicious_threshold (config e) \<le> min 100 points then Suspicious else Clean)
    \<and> r_risk_score r = (if known then 100 else min 100 points)
    \<and> r_risk_score r \<le> 100 \<and> r_confidence r \<le> 100"
  by (simp add: analyze_unfold heuristic_score_sum verdict_confidence_le)

text \<open>Content of a kind the heuristics do not look into.\<close>

definition opaque :: "content_type \<Rightarrow> bool" where
  "opaque content \<longleftrightarrow> \<not> (content \<in> {Pe32, Pe64, PeUnknown, Pdf, Lnk} \<or> (\<exists>l. content = Script l))"

lemma content_evidence_opaque:
  "opaque content \<Longrightarrow>
   sum_list (map risk_points (snd (content_evidence env c bs file_size content ev))) = sum_list (map risk_points ev)"
  by (cases content) (simp_all add: opaque_def content_evidence_def push_evidence_def)

lemma heuristic_score_0: "sum_list (map risk_points ev) = 0 \<Longrightarrow> heuristic_score ev = 0"
proof -
  assume "sum_list (map risk_points ev) = 0"
  then have "sum_list (map risk_points (filter (\<lambda>item. code item \<noteq> ''signature.exact_sha256'') ev)) = 0"
    by simp
  then show ?thesis by (simp only: heuristic_score_sum)
qed

lemma config_validate_ok:
  "config_validate c = Inr () \<longleftrightarrow>
     0 < max_read_bytes c \<and> max_read_bytes c \<noteq> usize_max \<and> 0 < max_script_sample_bytes c \<and>
     1 \<le> suspicious_threshold c \<and> suspicious_threshold c \<le> 100"
  by (auto simp: config_validate_def)

lemma engine_new_ok: "engine_new c db = Inr e \<longleftrightarrow> config_validate c = Inr () \<and> e = \<lparr>config = c, signatures = db\<rparr>"
  by (auto simp: engine_new_def split: sum.splits)

text \<open>
  High entropy alone never makes a file suspicious: in an engine with a valid configuration,
  a file without a known digest whose content is neither an executable, a script, a PDF nor a
  shortcut is reported clean with score 0, whatever its bytes.
\<close>

theorem opaque_content_clean:
  assumes "engine_new c db = Inr e"
    and "opaque (classify_content (pe_parse env) bs (max_script_sample_bytes c))"
    and "\<not> known_digest db full_digest"
  shows "r_verdict (analyze_internal env e bs file_size bytes_scanned truncated full_digest completeness) = Clean
    \<and> r_risk_score (analyze_internal env e bs file_size bytes_scanned truncated full_digest completeness) = 0"
proof -
  let ?content = "classify_content (pe_parse env) bs (max_script_sample_bytes c)"
  let ?ev = "snd (content_evidence env c bs file_size ?content (snd (signature_evidence db full_digest)))"
  have e: "config e = c" "signatures e = db" "1 \<le> suspicious_threshold c"
    using assms(1) by (auto simp: engine_new_ok config_validate_ok)
  have "sum_list (map risk_points ?ev) = 0"
    using assms(2,3) by (simp add: content_evidence_opaque signature_evidence_points)
  then have "heuristic_score ?ev = 0" by (rule heuristic_score_0)
  with e assms(3) show ?thesis by (simp add: analyze_unfold)
qed

section \<open>Reading\<close>

text \<open>The state after the first bytes of a file have been read.\<close>

definition read_so_far :: "nat \<Rightarrow> bytes \<Rightarrow> read_state" where
  "read_so_far max_bytes bs = \<lparr>hashed = bs, prefix = take max_bytes bs, total_read = length bs, io_error = False\<rparr>"

lemma absorb_read_so_far: "absorb max_bytes d (read_so_far max_bytes bs) = read_so_far max_bytes (bs @ d)"
  by (auto simp: absorb_def read_so_far_def min_def not_less)

lemma read_loop_limit: "read_loop max_bytes 0 steps st = st"
  by (cases steps) (simp_all add: read_loop.simps [of max_bytes 0])

lemma read_loop_short:
  assumes "d \<noteq> []" and "length d \<le> min limit READ_BUFFER"
  shows "read_loop max_bytes limit (Data d # steps) (read_so_far max_bytes bs) =
    read_loop max_bytes (limit - length d) steps (read_so_far max_bytes (bs @ d))"
proof -
  obtain cap where cap: "cap = min limit READ_BUFFER" by simp
  then have "cap \<noteq> 0" "length d \<le> cap" using assms by (cases d; auto)+
  with assms(1) show ?thesis
    unfolding read_loop.simps [of max_bytes limit "Data d # steps"] cap [symmetric]
    by (simp add: absorb_read_so_far)
qed

lemma read_loop_long:
  assumes "cap = min limit READ_BUFFER" and "0 < cap" and "cap < length d"
  shows "read_loop max_bytes limit (Data d # steps) (read_so_far max_bytes bs) =
    read_loop max_bytes (limit - cap) (Data (drop cap d) # steps) (read_so_far max_bytes (bs @ take cap d))"
  unfolding read_loop.simps [of max_bytes limit "Data d # steps"] assms(1) [symmetric]
  using assms(2,3) by (cases d) (simp_all add: absorb_read_so_far min_absorb2)

lemma read_loop_data:
  assumes "\<forall>d \<in> set ds. d \<noteq> []"
  shows "read_loop max_bytes limit (map Data ds @ rest) (read_so_far max_bytes bs) =
    (if limit \<le> length (concat ds) then read_so_far max_bytes (bs @ take limit (concat ds))
     else read_loop max_bytes (limit - length (concat ds)) rest (read_so_far max_bytes (bs @ concat ds)))"
  using assms
proof (induction limit arbitrary: ds bs rule: less_induct)
  case (less limit)
  let ?cap = "min limit READ_BUFFER"
  show ?case
  proof (cases ds)
    case Nil
    then show ?thesis by (simp add: read_loop_limit)
  next
    case (Cons d ds')
    have d: "d \<noteq> []" "\<forall>d \<in> set ds'. d \<noteq> []" using less.prems Cons by auto
    have cap: "0 < ?cap \<longleftrightarrow> 0 < limit" by (auto simp: READ_BUFFER_def)
    consider "limit = 0" | "0 < limit" "length d \<le> ?cap" | "0 < limit" "?cap < length d" by linarith
    then show ?thesis
    proof cases
      case 1
      then show ?thesis by (simp add: read_loop_limit)
    next
      case 2
      then have "read_loop max_bytes limit (map Data ds @ rest) (read_so_far max_bytes bs) =
          read_loop max_bytes (limit - length d) (map Data ds' @ rest) (read_so_far max_bytes (bs @ d))"
        using Cons d by (simp add: read_loop_short)
      also have "\<dots> = (if limit - length d \<le> length (concat ds')
          then read_so_far max_bytes (bs @ d @ take (limit - length d) (concat ds'))
          else read_loop max_bytes (limit - length d - length (concat ds')) rest (read_so_far max_bytes (bs @ d @ concat ds')))"
        using less.IH [of "limit - length d" ds' "bs @ d"] 2 d by simp
      finally show ?thesis using 2 Cons by (auto simp: le_diff_conv)
    next
      case 3
      define cap where "cap = min limit READ_BUFFER"
      define tail where "tail = drop cap d # ds'"
      have c: "0 < cap" "cap \<le> limit" "cap < length d" using 3 cap by (auto simp: cap_def)
      have whole: "concat ds = take cap d @ concat tail" by (simp add: Cons tail_def)
      have "read_loop max_bytes limit (map Data ds @ rest) (read_so_far max_bytes bs) =
          read_loop max_bytes (limit - cap) (map Data tail @ rest) (read_so_far max_bytes (bs @ take cap d))"
        using read_loop_long [OF cap_def c(1,3)] by (simp add: Cons tail_def)
      also have "\<dots> = (if limit - cap \<le> length (concat tail)
          then read_so_far max_bytes ((bs @ take cap d) @ take (limit - cap) (concat tail))
          else read_loop max_bytes (limit - cap - length (concat tail)) rest
                 (read_so_far max_bytes ((bs @ take cap d) @ concat tail)))"
        using c d by (intro less.IH) (auto simp: tail_def)
      finally show ?thesis using c by (auto simp: whole min_absorb2)
    qed
  qed
qed

lemma read_loop_file:
  assumes "\<forall>d \<in> set ds. d \<noteq> []"
  shows "read_loop n (n + 1) (map Data ds) (read_so_far n []) = read_so_far n (take (n + 1) (concat ds))"
  using read_loop_data [OF assms, of n "n + 1" "[]" "[]"] by (simp add: read_loop.simps [of n _ "[]"])

lemma read_loop_failing:
  assumes "\<forall>d \<in> set ds. d \<noteq> []" and "length (concat ds) \<le> n"
  shows "read_loop n (n + 1) (map Data ds @ Fail # rest) (read_so_far n []) = (read_so_far n (concat ds))\<lparr>io_error := True\<rparr>"
proof -
  have "min (n + 1 - length (concat ds)) READ_BUFFER \<noteq> 0" using assms(2) by (simp add: READ_BUFFER_def min_def)
  with read_loop_data [OF assms(1), of n "n + 1" "Fail # rest" "[]"] assms(2)
  show ?thesis by (simp add: read_loop.simps [of n _ "Fail # rest"] Suc_diff_le)
qed

text \<open>
  (C16) Reading does not depend on how the operating system cuts the file into pieces. A file within
  the read limit gets, from any sequence of non-empty pieces, exactly the report its bytes get in
  memory. Of a longer file the first bytes up to the limit are analysed, no digest is reported and
  the report says that it covers a prefix only. A read error within the limit gives an error report
  when nothing was read, and otherwise an analysis of what was read, without a digest and marked
  as cut short.
\<close>

theorem scan_reader_exact:
  assumes "\<forall>d \<in> set ds. d \<noteq> []"
  shows "(length (concat ds) \<le> max_read_bytes (config e) \<longrightarrow>
      scan_reader env e (map Data ds) None = scan_bytes env e (concat ds))
    \<and> (max_read_bytes (config e) < length (concat ds) \<longrightarrow>
      scan_reader env e (map Data ds) (Some (length (concat ds))) =
        analyze_internal env e (take (max_read_bytes (config e)) (concat ds)) (length (concat ds))
          (max_read_bytes (config e)) True None PrefixOnly)
    \<and> (length (concat ds) \<le> max_read_bytes (config e) \<and> 0 < max_read_bytes (config e) \<longrightarrow>
      scan_reader env e (map Data ds @ Fail # rest) None =
        (if ds = [] then error_report 0 0
         else analyze_internal env e (concat ds) (length (concat ds)) (length (concat ds)) False None ResourceLimitReached))"
proof (intro conjI impI)
  let ?n = "max_read_bytes (config e)"
  note start = read_so_far_def [of ?n "[]", simplified, symmetric]
  note unfold = scan_reader_def Let_def start read_loop_file [OF assms]
  {
    assume "length (concat ds) \<le> ?n"
    then have "take (?n + 1) (concat ds) = concat ds" "take ?n (concat ds) = concat ds" by simp_all
    with \<open>length (concat ds) \<le> ?n\<close> show "scan_reader env e (map Data ds) None = scan_bytes env e (concat ds)"
      unfolding unfold by (simp add: read_so_far_def scan_bytes_def scan_sample_def Let_def)
  next
    assume "?n < length (concat ds)"
    then have "length (take (?n + 1) (concat ds)) = ?n + 1" "take ?n (take (?n + 1) (concat ds)) = take ?n (concat ds)"
      by (simp_all add: min_def)
    with \<open>?n < length (concat ds)\<close>
    show "scan_reader env e (map Data ds) (Some (length (concat ds))) =
        analyze_internal env e (take ?n (concat ds)) (length (concat ds)) ?n True None PrefixOnly"
      unfolding unfold by (simp add: read_so_far_def max_absorb1 min_absorb2)
  next
    assume n: "length (concat ds) \<le> ?n \<and> 0 < ?n"
    then have "concat ds = [] \<longleftrightarrow> ds = []" "take ?n (concat ds) = concat ds" using assms by (cases ds; simp)+
    with n show "scan_reader env e (map Data ds @ Fail # rest) None =
        (if ds = [] then error_report 0 0
         else analyze_internal env e (concat ds) (length (concat ds)) (length (concat ds)) False None ResourceLimitReached)"
      unfolding scan_reader_def Let_def start read_loop_failing [OF assms conjunct1 [OF n]]
      by (simp add: read_so_far_def)
  }
qed

definition example_env :: engine_env where
  "example_env = \<lparr>pe_parse = (\<lambda>_. None), inflate = (\<lambda>s n. s), sha256 = (\<lambda>_. replicate 32 0)\<rparr>"

definition example_engine :: scan_engine where
  "example_engine = \<lparr>config = config_default, signatures = db_empty\<rparr>"

lemma example_engine_new: "engine_new config_default db_empty = Inr example_engine"
  by (simp add: engine_new_ok config_validate_ok config_default_def example_engine_def usize_max_def
        DEFAULT_MAX_READ_BYTES_def DEFAULT_SCRIPT_SAMPLE_BYTES_def DEFAULT_SUSPICIOUS_THRESHOLD_def)

theorem scan_reader_exact_witness:
  "scan_reader example_env example_engine (map Data [[1, 2], [3]]) None = scan_bytes example_env example_engine [1, 2, 3]"
  using scan_reader_exact [of "[[1, 2], [3]]" example_engine example_env]
  by (simp add: example_engine_def config_default_def DEFAULT_MAX_READ_BYTES_def)

theorem opaque_content_clean_witness:
  "r_verdict (analyze_internal example_env example_engine [0x1F, 0x8B] 2 2 False None Complete) = Clean"
proof -
  have "opaque (classify_content (pe_parse example_env) [0x1F, 0x8B] (max_script_sample_bytes config_default))"
    by (simp add: opaque_def classify_content_def starts_with_def bytes_of_def byte_of_def is_shortcut_def HEADER_SIZE_def)
  moreover have "\<not> known_digest db_empty None" by (simp add: known_digest_def)
  ultimately show ?thesis using opaque_content_clean [OF example_engine_new] by blast
qed

text \<open>The number of corroborating items is cast to eight bits: 257 items count as one.\<close>

lemma confidence_wraps:
  "verdict_confidence Suspicious 100 55 False (replicate 257 \<lparr>code = c, severity = s, risk_points = 1\<rparr>) = 79"
  "verdict_confidence Suspicious 100 55 False (replicate 4 \<lparr>code = c, severity = s, risk_points = 1\<rparr>) = 94"
  by (simp_all add: verdict_confidence_def filter_replicate saturating_add_def u8_max_def)

end
