(* ===== verification/Detection.thy ===== *)
theory Detection
  imports Cascade Trailing_Zip Archive Shards Breaker Engine
begin

text \<open>
  The detection pipeline of \<^verbatim>\<open>src/detection.rs\<close>: an opened file is read and hashed, the sample goes
  through the static engine, the ClamAV index, the rules, the similarity engine and AMSI, the cascade
  decides, and a container is walked with the same pipeline on every entry. The two circuit breakers
  are the state a scan changes; it is threaded through every scan, the ones of container entries
  included. The PE parser, the hash functions, the hexadecimal decoder, the YARA scanner, the
  pattern automaton, the archive readers and AMSI are the fields of \<open>detection_env\<close>. A poisoned lock
  and a panic need a crash elsewhere and are not part of the model; times and error texts are left out.
\<close>

section \<open>The engine\<close>

record ('r, 'a) detection_env =
  de_engine :: engine_env
  de_md5 :: "bytes \<Rightarrow> bytes"
  de_unhex :: "string \<Rightarrow> bytes option"
  de_yara :: "'r \<Rightarrow> bytes \<Rightarrow> (string \<times> string) list option"
  de_find :: "'a \<Rightarrow> bytes \<Rightarrow> (nat \<times> nat) list"
  de_scratch :: scratch
  de_archives :: archive_env

text \<open>AMSI is absent when it did not initialise; an answer of \<open>None\<close> is a failed scan.\<close>

record ('r, 'a) detection_engine =
  static_engine :: scan_engine
  rules :: "'r rule_engine"
  similarity :: "similarity_profile list"
  amsi :: "(bytes \<Rightarrow> amsi_verdict option) option"
  native_index :: "'a native_index"
  shards :: shard_store

record breakers =
  external_rule_circuit_breaker :: breaker
  external_similarity_circuit_breaker :: breaker

datatype system_amsi = Consult | Skip

definition AMSI_CONVICTING_RULES :: "string list" where
  "AMSI_CONVICTING_RULES =
     [''blackshard_powershell_obfuscated_download_execute'', ''blackshard_powershell_amsi_bypass_sequence'',
      ''blackshard_lolbin_remote_execution_command'', ''blackshard_office_macro_autoexec_shell_chain'']"

definition is_pe_type :: "content_type \<Rightarrow> bool" where
  "is_pe_type t \<longleftrightarrow> t = Pe32 \<or> t = Pe64 \<or> t = PeUnknown"

section \<open>Sources of evidence\<close>

definition evaluate_native_index :: "('r, 'a) detection_env \<Rightarrow> ('r, 'a) detection_engine \<Rightarrow> bytes \<Rightarrow> scan_report \<Rightarrow> nat \<Rightarrow>
    bytes option \<Rightarrow> index_match option" where
  "evaluate_native_index env e sample report declared_size md5 =
     (case r_sha256 report of
        None \<Rightarrow> None
      | Some hex \<Rightarrow>
          (case de_unhex env hex of
             None \<Rightarrow> None
           | Some sha \<Rightarrow>
               if length sha \<noteq> 32 then None
               else let ix = native_index e;
                        sections = (if is_pe_type (r_content_type report)
                          then section_digests (pe_parse (de_engine env)) (de_md5 env) (sha256 (de_engine env)) ix sample
                          else [])
                 in case evaluate ix sha md5 (Some declared_size) sections of
                      Some m \<Rightarrow> Some m
                    | None \<Rightarrow> evaluate_patterns (de_find env) (de_scratch env) ix sample declared_size sha md5))"

definition is_tripped :: "match_rate_state \<Rightarrow> bool" where
  "is_tripped s = (case s of Tripped _ _ \<Rightarrow> True | _ \<Rightarrow> False)"

definition apply_external_rule_circuit_breaker :: "rule_match list \<Rightarrow> breakers \<Rightarrow> rule_match list \<times> breakers" where
  "apply_external_rule_circuit_breaker ms st =
     (let external_match = list_ex (\<lambda>m. rm_namespace m \<noteq> BUILTIN_NAMESPACE) ms;
          (state, b) = observe_external_match external_match (external_rule_circuit_breaker st)
      in (if is_tripped state then filter (\<lambda>m. rm_namespace m = BUILTIN_NAMESPACE) ms else ms,
          st\<lparr>external_rule_circuit_breaker := b\<rparr>))"

definition apply_similarity_circuit_breaker :: "similarity_match list \<Rightarrow> breakers \<Rightarrow> similarity_match list \<times> breakers" where
  "apply_similarity_circuit_breaker ms st =
     (let (state, b) = observe_external_match (ms \<noteq> []) (external_similarity_circuit_breaker st)
      in (if is_tripped state then [] else ms, st\<lparr>external_similarity_circuit_breaker := b\<rparr>))"

definition external_rules_tripped :: "breakers \<Rightarrow> bool" where
  "external_rules_tripped st \<longleftrightarrow>
     tripped (external_rule_circuit_breaker st) \<or> tripped (external_similarity_circuit_breaker st)"

text \<open>The rule matches and whether the rules failed.\<close>

definition scan_rules :: "('r, 'a) detection_env \<Rightarrow> ('r, 'a) detection_engine \<Rightarrow> bytes \<Rightarrow> breakers \<Rightarrow>
    (rule_match list \<times> bool) \<times> breakers" where
  "scan_rules env e bs st =
     (case rules_scan (de_yara env) (rules e) bs of
        Some ms \<Rightarrow> (let (ms, st) = apply_external_rule_circuit_breaker ms st in ((ms, False), st))
      | None \<Rightarrow> (([], True), st))"

definition scan_with_amsi :: "('r, 'a) detection_engine \<Rightarrow> scan_report \<Rightarrow> rule_match list \<Rightarrow> bytes \<Rightarrow> amsi_verdict option" where
  "scan_with_amsi e report ms sample =
     (let eligible = ((case r_content_type report of Script _ \<Rightarrow> True | OleCompound \<Rightarrow> True | _ \<Rightarrow> False) \<or> ms \<noteq> [])
      in if \<not> eligible then None
         else case amsi e of None \<Rightarrow> None | Some scan_buffer \<Rightarrow> scan_buffer sample)"

definition learned_shard :: "('r, 'a) detection_engine \<Rightarrow> scan_report \<Rightarrow> string option" where
  "learned_shard e report = (case r_sha256 report of None \<Rightarrow> None | Some hex \<Rightarrow> shards_lookup (shards e) hex)"

text \<open>
  The part both ways of scanning share: rules, similarity and AMSI on a sample whose static report and
  index match are known, then the cascade.
\<close>

definition gather_and_resolve :: "('r, 'a) detection_env \<Rightarrow> ('r, 'a) detection_engine \<Rightarrow> system_amsi \<Rightarrow> bytes \<Rightarrow> nat \<Rightarrow>
    scan_report \<Rightarrow> index_match option \<Rightarrow> breakers \<Rightarrow> detection_report \<times> breakers" where
  "gather_and_resolve env e system_amsi sample declared_size report native_match st =
     (let ((ms, rule_failure), st) = scan_rules env e sample st;
          (sims, st) = apply_similarity_circuit_breaker (similarity_scan (similarity e) sample declared_size) st;
          answer = (case system_amsi of Consult \<Rightarrow> scan_with_amsi e report ms sample | Skip \<Rightarrow> None);
          cascade = \<lparr>c_static = report, c_native = native_match, c_shard = learned_shard e report, c_rules = ms,
                     c_similarity = sims, c_amsi = answer\<rparr>
      in (record_rule_failure rule_failure (resolve_cascade cascade), st))"

definition scan_leaf_bytes_with :: "('r, 'a) detection_env \<Rightarrow> ('r, 'a) detection_engine \<Rightarrow> system_amsi \<Rightarrow> bytes \<Rightarrow> breakers \<Rightarrow>
    detection_report \<times> breakers" where
  "scan_leaf_bytes_with env e system_amsi bs st =
     (let report = scan_bytes (de_engine env) (static_engine e) bs;
          native_match = evaluate_native_index env e bs report (length bs) (Some (de_md5 env bs))
      in gather_and_resolve env e system_amsi bs (length bs) report native_match st)"

section \<open>Containers\<close>

definition container_type :: "bytes \<Rightarrow> detection_report \<Rightarrow> content_type option" where
  "container_type bs report =
     (let content = map_option r_content_type (d_static_report report);
          known = (\<lambda>c. c = Some Zip \<or> c = Some Gzip \<or> c = Some OleCompound);
          content = (if \<not> d_truncated report \<and> \<not> known content \<and> has_trailing_zip bs then Some Zip else content)
      in if d_truncated report \<or> \<not> known content then None else content)"

definition apply_finding :: "embedded_finding \<Rightarrow> detection_report \<Rightarrow> detection_report" where
  "apply_finding f r =
     (let r = (case ef_verdict f of
                 DMalicious \<Rightarrow> r\<lparr>d_verdict := DMalicious, d_risk_score := max (d_risk_score r) (ef_risk_score f),
                                d_confidence := max (d_confidence r) 95\<rparr>
               | DSuspicious \<Rightarrow>
                   (if d_verdict r = DClean
                    then r\<lparr>d_verdict := DSuspicious, d_risk_score := max (d_risk_score r) (ef_risk_score f),
                           d_confidence := max (d_confidence r) 80\<rparr>
                    else r)
               | _ \<Rightarrow> r);
          r = (if d_threat_name r = None \<or> ef_verdict f = DMalicious
               then r\<lparr>d_threat_name := Some (''Container.Contains.'' @
                        (case ef_threat_name f of Some n \<Rightarrow> n | None \<Rightarrow> ''Suspicious.EmbeddedObject''))\<rparr>
               else r);
          r = r\<lparr>d_quarantine_eligible := d_quarantine_eligible r \<or>
                  (ef_quarantine f \<and> d_sha256 r \<noteq> None \<and> \<not> d_truncated r)\<rparr>
      in r\<lparr>d_block_eligible := d_block_eligible r \<or> ef_block f \<or> d_quarantine_eligible r\<rparr>)"

definition apply_structure :: "container_inspection \<Rightarrow> detection_report \<Rightarrow> detection_report" where
  "apply_structure i r =
     (let structural_risk = structural_risk_score i;
          r = (if structural_risk \<ge> 55 \<and> d_verdict r = DClean
               then r\<lparr>d_verdict := DSuspicious, d_risk_score := structural_risk, d_confidence := 75,
                      d_threat_name := Some (if limit_triggered i then ''Archive.ResourceLimitTriggered''
                                             else ''Office.MacroWithExternalContent'')\<rparr>
               else r)
      in if incomplete i \<and> d_completeness r = Complete then r\<lparr>d_completeness := ResourceLimitReached\<rparr> else r)"

definition strongest_finding :: "embedded_finding list \<Rightarrow> embedded_finding option" where
  "strongest_finding fs = max_by_key (\<lambda>f. (verdict_rank (ef_verdict f), ef_risk_score f)) fs"

definition merge_inspection :: "container_inspection \<Rightarrow> detection_report \<Rightarrow> detection_report" where
  "merge_inspection i r =
     (let r = (case strongest_finding (findings i) of Some f \<Rightarrow> apply_finding f r | None \<Rightarrow> r)
      in (apply_structure i r)\<lparr>d_container := Some i\<rparr>)"

definition inspect_container :: "archive_env \<Rightarrow> 's scan_leaf \<Rightarrow> content_type \<Rightarrow> bytes \<Rightarrow> 's \<Rightarrow> container_inspection \<times> 's" where
  "inspect_container env scan_leaf content bs st =
     (if content = Zip then inspect_zip env scan_leaf bs st
      else if content = OleCompound then inspect_ole env scan_leaf bs st
      else inspect_gzip env scan_leaf bs st)"

definition with_container_inspection :: "('r, 'a) detection_env \<Rightarrow> ('r, 'a) detection_engine \<Rightarrow> system_amsi \<Rightarrow> bytes \<Rightarrow>
    detection_report \<Rightarrow> breakers \<Rightarrow> detection_report \<times> breakers" where
  "with_container_inspection env e system_amsi bs report st =
     (case container_type bs report of
        None \<Rightarrow> (report, st)
      | Some content \<Rightarrow>
          let (inspection, st) = inspect_container (de_archives env) (scan_leaf_bytes_with env e system_amsi) content bs st
          in (merge_inspection inspection report, st))"

section \<open>Scans\<close>

definition scan_bytes_with :: "('r, 'a) detection_env \<Rightarrow> ('r, 'a) detection_engine \<Rightarrow> system_amsi \<Rightarrow> bytes \<Rightarrow> breakers \<Rightarrow>
    detection_report \<times> breakers" where
  "scan_bytes_with env e system_amsi bs st =
     (let (report, st) = scan_leaf_bytes_with env e system_amsi bs st
      in with_container_inspection env e system_amsi bs report st)"

definition convict_submission :: "detection_report \<Rightarrow> detection_report" where
  "convict_submission r =
     (if d_verdict r = DClean \<or> d_verdict r = DSuspicious then
        (case List.find (\<lambda>m. rm_namespace m = BUILTIN_NAMESPACE \<and> rm_identifier m \<in> set AMSI_CONVICTING_RULES) (d_rule_matches r) of
           Some m \<Rightarrow> r\<lparr>d_threat_name := Some (''AMSI.'' @ (case strip_prefix ''Suspicious.'' (rm_threat_name m) of Some n \<Rightarrow> n | None \<Rightarrow> rm_threat_name m)),
                       d_verdict := DMalicious, d_risk_score := max (d_risk_score r) 95,
                       d_confidence := max (d_confidence r) 95\<rparr>
         | None \<Rightarrow> r)
      else r)"

definition scan_amsi_submission :: "('r, 'a) detection_env \<Rightarrow> ('r, 'a) detection_engine \<Rightarrow> bytes \<Rightarrow> breakers \<Rightarrow>
    detection_report \<times> breakers" where
  "scan_amsi_submission env e bs st =
     (let (report, st) = scan_bytes_with env e Skip bs st in (convict_submission report, st))"

section \<open>Opened files\<close>

text \<open>One \<^verbatim>\<open>read\<close> of the operating system: a non-empty piece, an interruption or an error.\<close>

datatype io_step = Piece bytes | Interrupted | Broken

record hash_state =
  hs_sample :: bytes
  hs_hashed :: bytes
  hs_length :: nat

text \<open>
  \<^verbatim>\<open>read_and_hash\<close>: the bytes the hashers were fed are kept, since a digest is a function of them.
  \<open>None\<close> is the error.
\<close>

fun read_all :: "nat \<Rightarrow> io_step list \<Rightarrow> hash_state \<Rightarrow> hash_state option" where
  "read_all limit [] st = Some st"
| "read_all limit (Interrupted # later) st = read_all limit later st"
| "read_all limit (Broken # later) st = None"
| "read_all limit (Piece chunk # later) st =
     (if chunk = [] then Some st
      else let room = limit - length (hs_sample st)
        in read_all limit later
             (st\<lparr>hs_hashed := hs_hashed st @ chunk,
                 hs_sample := hs_sample st @ take (min (length chunk) room) chunk,
                 hs_length := hs_length st + length chunk\<rparr>))"

record whole_file_digests =
  wf_sha256 :: bytes
  wf_md5 :: "bytes option"
  wf_length :: nat

definition read_and_hash :: "('r, 'a) detection_env \<Rightarrow> io_step list \<Rightarrow> nat \<Rightarrow> bool \<Rightarrow> (bytes \<times> whole_file_digests) option" where
  "read_and_hash env reader limit with_md5 =
     map_option (\<lambda>st. (hs_sample st,
         \<lparr>wf_sha256 = sha256 (de_engine env) (hs_hashed st),
          wf_md5 = (if with_md5 then Some (de_md5 env (hs_hashed st)) else None),
          wf_length = hs_length st\<rparr>))
       (read_all limit reader \<lparr>hs_sample = [], hs_hashed = [], hs_length = 0\<rparr>)"

record metadata =
  m_is_file :: bool
  m_len :: nat
  m_modified :: "nat option"

text \<open>What the handle answers, in the order it is asked.\<close>

record opened_file =
  f_change_time_before :: "nat option"
  f_before :: "metadata option"
  f_duplicates :: bool
  f_seeks :: bool
  f_reads :: "io_step list"
  f_after :: "metadata option"
  f_change_time_after :: "nat option"

definition file_changed :: "opened_file \<Rightarrow> metadata \<Rightarrow> metadata \<Rightarrow> bool" where
  "file_changed f before after \<longleftrightarrow>
     m_len before \<noteq> m_len after \<or> m_modified before \<noteq> m_modified after \<or> f_change_time_before f \<noteq> f_change_time_after f"

definition analyze_sample :: "('r, 'a) detection_env \<Rightarrow> ('r, 'a) detection_engine \<Rightarrow> bytes \<Rightarrow> nat \<Rightarrow> whole_file_digests \<Rightarrow> breakers \<Rightarrow>
    detection_report \<times> breakers" where
  "analyze_sample env e sample file_length digests st =
     (let declared_size = max file_length (wf_length digests);
          report = scan_sample_with_digest (de_engine env) (static_engine e) sample declared_size (wf_sha256 digests);
          native_match = evaluate_native_index env e sample report declared_size (wf_md5 digests);
          (report, st) = gather_and_resolve env e Consult sample declared_size report native_match st
      in with_container_inspection env e Consult sample report st)"

definition analyze_open_file :: "('r, 'a) detection_env \<Rightarrow> ('r, 'a) detection_engine \<Rightarrow> opened_file \<Rightarrow> breakers \<Rightarrow>
    detection_report \<times> breakers" where
  "analyze_open_file env e f st =
     (case f_before f of
        None \<Rightarrow> (detection_error, st)
      | Some before \<Rightarrow>
          if \<not> m_is_file before \<or> \<not> f_duplicates f \<or> \<not> f_seeks f then (detection_error, st)
          else case read_and_hash env (f_reads f) (max_read_bytes (config (static_engine e)))
                      (wants_file_md5 (native_index e) (m_len before)) of
            None \<Rightarrow> (detection_error, st)
          | Some (sample, digests) \<Rightarrow>
              (case f_after f of
                 None \<Rightarrow> (detection_error, st)
               | Some after \<Rightarrow>
                   if file_changed f before after then (detection_error, st)
                   else analyze_sample env e sample (m_len before) digests st))"

text \<open>The path as \<^verbatim>\<open>symlink_metadata\<close> and \<^verbatim>\<open>open\<close> answer: is it a regular file and no link, and the handle.\<close>

definition detection_scan_path :: "('r, 'a) detection_env \<Rightarrow> ('r, 'a) detection_engine \<Rightarrow> bool option \<Rightarrow> opened_file option \<Rightarrow>
    breakers \<Rightarrow> detection_report \<times> breakers" where
  "detection_scan_path env e regular opened st =
     (case regular of
        None \<Rightarrow> (detection_error, st)
      | Some ok \<Rightarrow>
          if \<not> ok then (detection_error, st)
          else case opened of None \<Rightarrow> (detection_error, st) | Some f \<Rightarrow> analyze_open_file env e f st)"

section \<open>Reading and hashing\<close>

text \<open>The bytes a reader delivers until its end, if it does not fail before.\<close>

fun read_content :: "io_step list \<Rightarrow> bytes option" where
  "read_content [] = Some []"
| "read_content (Interrupted # later) = read_content later"
| "read_content (Broken # later) = None"
| "read_content (Piece chunk # later) = (if chunk = [] then Some [] else map_option ((@) chunk) (read_content later))"

lemma read_all_content:
  "hs_sample st = take limit (hs_hashed st) \<Longrightarrow> hs_length st = length (hs_hashed st) \<Longrightarrow>
   read_all limit reader st =
     map_option (\<lambda>bs. st\<lparr>hs_hashed := hs_hashed st @ bs, hs_sample := take limit (hs_hashed st @ bs),
                         hs_length := length (hs_hashed st @ bs)\<rparr>) (read_content reader)"
proof (induction limit reader st rule: read_all.induct)
  case (4 limit chunk later st)
  show ?case
  proof (cases "chunk = []")
    case False
    let ?st = "st\<lparr>hs_hashed := hs_hashed st @ chunk,
        hs_sample := hs_sample st @ take (min (length chunk) (limit - length (hs_sample st))) chunk,
        hs_length := hs_length st + length chunk\<rparr>"
    have "hs_sample ?st = take limit (hs_hashed ?st)" "hs_length ?st = length (hs_hashed ?st)"
      using "4.prems" by (auto simp: min_def)
    with "4.IH" [OF False refl] False "4.prems" show ?thesis
      by (simp add: Let_def option.map_comp comp_def)
  qed (use "4.prems" in simp)
qed simp_all

text \<open>
  Reading an opened file in whatever pieces, with whatever interruptions, keeps exactly the
  first bytes up to the analysis limit and takes the digests and the length of the whole file; it
  fails exactly when the reader fails before its end.
\<close>

theorem read_and_hash_exact:
  "read_and_hash env reader limit with_md5 =
     map_option (\<lambda>bs. (take limit bs,
         \<lparr>wf_sha256 = sha256 (de_engine env) bs, wf_md5 = (if with_md5 then Some (de_md5 env bs) else None),
          wf_length = length bs\<rparr>))
       (read_content reader)"
  by (cases "read_content reader") (simp_all add: read_and_hash_def read_all_content)

section \<open>Container inspection\<close>

lemma apply_finding_frame [simp]:
  "d_sha256 (apply_finding f r) = d_sha256 r" "d_truncated (apply_finding f r) = d_truncated r"
  "d_rule_matches (apply_finding f r) = d_rule_matches r"
  by (simp_all add: apply_finding_def Let_def split: detection_verdict.split)

lemma apply_finding_verdict:
  "d_verdict (apply_finding f r) =
     (if ef_verdict f = DMalicious then DMalicious
      else if ef_verdict f = DSuspicious \<and> d_verdict r = DClean then DSuspicious else d_verdict r)"
  by (simp add: apply_finding_def Let_def split: detection_verdict.split)

lemma apply_finding_flags:
  "d_quarantine_eligible (apply_finding f r) \<longleftrightarrow>
     d_quarantine_eligible r \<or> ef_quarantine f \<and> d_sha256 r \<noteq> None \<and> \<not> d_truncated r"
  "d_block_eligible (apply_finding f r) \<longleftrightarrow>
     d_block_eligible r \<or> ef_block f \<or> d_quarantine_eligible (apply_finding f r)"
  by (simp_all add: apply_finding_def Let_def split: detection_verdict.split)

lemma apply_structure_frame [simp]:
  "d_sha256 (apply_structure i r) = d_sha256 r" "d_rule_matches (apply_structure i r) = d_rule_matches r"
  "d_quarantine_eligible (apply_structure i r) = d_quarantine_eligible r"
  "d_block_eligible (apply_structure i r) = d_block_eligible r"
  by (simp_all add: apply_structure_def Let_def)

lemma apply_structure_verdict:
  "d_verdict (apply_structure i r) =
     (if 55 \<le> structural_risk_score i \<and> d_verdict r = DClean then DSuspicious else d_verdict r)"
  by (simp add: apply_structure_def Let_def)

lemma strongest_finding_malicious:
  assumes "f \<in> set fs" and "ef_verdict f = DMalicious"
  shows "\<exists>g. strongest_finding fs = Some g \<and> ef_verdict g = DMalicious"
proof -
  obtain g where g: "strongest_finding fs = Some g"
    using assms(1) by (cases "strongest_finding fs") (auto simp: strongest_finding_def)
  have "verdict_rank (ef_verdict f) \<le> verdict_rank (ef_verdict g)"
    using max_by_key_Some [OF g [unfolded strongest_finding_def]] assms(1) by auto
  then have "ef_verdict g = DMalicious"
    using assms(2) by (auto simp: verdict_rank_def split: detection_verdict.splits)
  with g show ?thesis by blast
qed

lemma merge_inspection_frame [simp]:
  "d_rule_matches (merge_inspection i r) = d_rule_matches r" "d_sha256 (merge_inspection i r) = d_sha256 r"
  by (simp_all add: merge_inspection_def Let_def split: option.split)

lemma merge_inspection_keeps:
  "d_verdict r = DMalicious \<Longrightarrow> d_verdict (merge_inspection i r) = DMalicious"
  "d_block_eligible r \<Longrightarrow> d_block_eligible (merge_inspection i r)"
  "d_quarantine_eligible r \<Longrightarrow> d_quarantine_eligible (merge_inspection i r)"
  "d_verdict (merge_inspection i r) = DClean \<Longrightarrow> d_verdict r = DClean"
  by (auto simp: merge_inspection_def Let_def apply_structure_verdict apply_finding_verdict apply_finding_flags
      split: option.splits if_splits)


definition known_finding :: embedded_finding where
  "known_finding = \<lparr>ef_path = [0x61], ef_depth = 1, ef_verdict = DMalicious, ef_risk_score = 100, ef_threat_name = Some ''Known'',
     ef_sha256 = Some ''ab'', ef_quarantine = True, ef_block = True\<rparr>"

definition alert_finding :: embedded_finding where
  "alert_finding = \<lparr>ef_path = [0x62], ef_depth = 1, ef_verdict = DMalicious, ef_risk_score = 100, ef_threat_name = Some ''Rule'',
     ef_sha256 = Some ''cd'', ef_quarantine = False, ef_block = False\<rparr>"


text \<open>
  Only the strongest finding passes its flags on, and among equally strong ones the last: known
  malware in a container followed by a file that a rule may only alert on leaves the container
  neither stopped nor removed.
\<close>

lemma later_alert_hides_known:
  assumes "\<not> d_block_eligible r" and "\<not> d_quarantine_eligible r"
  shows "\<not> should_block (merge_inspection (i\<lparr>findings := [known_finding, alert_finding]\<rparr>) r)"
proof -
  have "strongest_finding [known_finding, alert_finding] = Some alert_finding"
    by (simp add: strongest_finding_def max_by_key_def known_finding_def alert_finding_def)
  then show ?thesis
    using assms by (simp add: merge_inspection_def Let_def should_block_def apply_finding_flags alert_finding_def)
qed

section \<open>Scans\<close>

text \<open>The cascade a scan of a sample ends in.\<close>

lemma gather_and_resolve_cases:
  obtains c failed where "fst (gather_and_resolve env e sa sample sz report m st) = record_rule_failure failed (resolve_cascade c)"
    "c_static c = report" "c_native c = m" "c_shard c = learned_shard e report"
    "c_rules c = fst (fst (scan_rules env e sample st))"
  by (simp add: gather_and_resolve_def case_prod_unfold Let_def)

lemma record_rule_failure_frame [simp]:
  "d_verdict (record_rule_failure x r) = d_verdict r" "d_block_eligible (record_rule_failure x r) = d_block_eligible r"
  "d_quarantine_eligible (record_rule_failure x r) = d_quarantine_eligible r"
  "d_rule_matches (record_rule_failure x r) = d_rule_matches r"
  by (simp_all add: record_rule_failure_def)

lemma with_container_inspection_cases:
  obtains (leaf) "fst (with_container_inspection env e sa bs r st) = r"
  | (container) i where "fst (with_container_inspection env e sa bs r st) = merge_inspection i r"
  by (cases "container_type bs r") (auto simp: with_container_inspection_def case_prod_unfold Let_def)

lemma with_container_inspection_keeps:
  "d_verdict r = DMalicious \<Longrightarrow> d_verdict (fst (with_container_inspection env e sa bs r st)) = DMalicious"
  "d_block_eligible r \<Longrightarrow> d_block_eligible (fst (with_container_inspection env e sa bs r st))"
  "d_quarantine_eligible r \<Longrightarrow> d_quarantine_eligible (fst (with_container_inspection env e sa bs r st))"
  "d_rule_matches (fst (with_container_inspection env e sa bs r st)) = d_rule_matches r"
  by (cases rule: with_container_inspection_cases [of env e sa bs r st]; simp add: merge_inspection_keeps(1-3))+

lemma scan_sample_with_digest_known:
  "r_sha256 (scan_sample_with_digest env e sample sz digest) = Some (hex_sha256 digest)"
  "db_lookup (signatures e) digest \<noteq> None \<Longrightarrow> r_verdict (scan_sample_with_digest env e sample sz digest) = Malicious"
  by (auto simp: scan_sample_with_digest_def analyze_unfold known_digest_def)

text \<open>A file that can be read to its end and does not change meanwhile.\<close>

definition stable_file :: "opened_file \<Rightarrow> bytes \<Rightarrow> bool" where
  "stable_file f bs \<longleftrightarrow>
     (case (f_before f, f_after f) of
        (Some before, Some after) \<Rightarrow>
          m_is_file before \<and> f_duplicates f \<and> f_seeks f \<and> \<not> file_changed f before after \<and> read_content (f_reads f) = Some bs
      | _ \<Rightarrow> False)"

lemma read_all_start:
  "read_all limit reader \<lparr>hs_sample = [], hs_hashed = [], hs_length = 0\<rparr> =
     map_option (\<lambda>bs. \<lparr>hs_sample = take limit bs, hs_hashed = bs, hs_length = length bs\<rparr>) (read_content reader)"
  by (simp add: read_all_content)

lemma analyze_stable_file:
  assumes "stable_file f bs"
  obtains n digests where "analyze_open_file env e f st =
      analyze_sample env e (take (max_read_bytes (config (static_engine e))) bs) n digests st"
    "wf_sha256 digests = sha256 (de_engine env) bs" "wf_length digests = length bs"
  using assms
  by (auto simp: stable_file_def analyze_open_file_def read_and_hash_def read_all_start split: option.splits)

lemma analyze_sample_cases:
  obtains r c failed st' where "fst (analyze_sample env e sample n digests st) = fst (with_container_inspection env e Consult sample r st')"
    "r = record_rule_failure failed (resolve_cascade c)"
    "r_sha256 (c_static c) = Some (hex_sha256 (wf_sha256 digests))"
    "c_shard c = shards_lookup (shards e) (hex_sha256 (wf_sha256 digests))"
    "db_lookup (signatures (static_engine e)) (wf_sha256 digests) \<noteq> None \<longrightarrow> r_verdict (c_static c) = Malicious"
proof -
  define sz where "sz = max n (wf_length digests)"
  define report where "report = scan_sample_with_digest (de_engine env) (static_engine e) sample sz (wf_sha256 digests)"
  define m where "m = evaluate_native_index env e sample report sz (wf_md5 digests)"
  obtain c failed where c: "fst (gather_and_resolve env e Consult sample sz report m st) = record_rule_failure failed (resolve_cascade c)"
      "c_static c = report" "c_shard c = learned_shard e report"
    using gather_and_resolve_cases [of env e Consult sample sz report m st] by metis
  have "fst (analyze_sample env e sample n digests st) =
      fst (with_container_inspection env e Consult sample (record_rule_failure failed (resolve_cascade c))
        (snd (gather_and_resolve env e Consult sample sz report m st)))"
    unfolding analyze_sample_def Let_def case_prod_unfold sz_def [symmetric] report_def [symmetric] m_def [symmetric] c(1) ..
  then show ?thesis
    by (rule that [OF _ refl])
      (auto simp: c(2,3) learned_shard_def report_def scan_sample_with_digest_known)
qed

lemma known_content_convicts:
  assumes "stable_file f bs"
    and "db_lookup (signatures (static_engine e)) (sha256 (de_engine env) bs) \<noteq> None \<or>
         shards_lookup (shards e) (hex_sha256 (sha256 (de_engine env) bs)) \<noteq> None"
  shows "let r = fst (analyze_open_file env e f st) in d_verdict r = DMalicious \<and> should_block r \<and>
    (shards_lookup (shards e) (hex_sha256 (sha256 (de_engine env) bs)) \<noteq> None \<longrightarrow> should_quarantine r)"
proof -
  obtain n digests where a: "analyze_open_file env e f st =
      analyze_sample env e (take (max_read_bytes (config (static_engine e))) bs) n digests st"
      and d: "wf_sha256 digests = sha256 (de_engine env) bs"
    using analyze_stable_file [OF assms(1)] by metis
  obtain r c failed st' where s: "fst (analyze_open_file env e f st) =
      fst (with_container_inspection env e Consult (take (max_read_bytes (config (static_engine e))) bs) r st')"
      "r = record_rule_failure failed (resolve_cascade c)"
      "r_sha256 (c_static c) = Some (hex_sha256 (sha256 (de_engine env) bs))"
      "c_shard c = shards_lookup (shards e) (hex_sha256 (sha256 (de_engine env) bs))"
      "db_lookup (signatures (static_engine e)) (sha256 (de_engine env) bs) \<noteq> None \<longrightarrow> r_verdict (c_static c) = Malicious"
    unfolding a d [symmetric] by (rule analyze_sample_cases)
  have "r_verdict (c_static c) = Malicious \<or> c_shard c \<noteq> None" using assms(2) s(4,5) by auto
  then have "convicts c" "blocks c" by (auto simp: blocks_def)
  moreover have "quarantine_eligible c" if "c_shard c \<noteq> None" using that s(3) by (simp add: quarantine_eligible_def)
  ultimately show ?thesis
    unfolding s(1) should_block_def should_quarantine_def Let_def s(4) [symmetric]
    by (simp add: with_container_inspection_keeps s(2) decide_cascade_convicts decide_cascade_block)
qed

lemma unstable_file_error:
  assumes "\<nexists>bs. stable_file f bs"
  shows "analyze_open_file env e f st = (detection_error, st)"
  using assms
  by (auto simp: stable_file_def analyze_open_file_def read_and_hash_def read_all_start split: option.splits)


text \<open>A concrete engine that knows one digest, with stand-ins for the code outside the repository.\<close>

definition example_env :: "(unit, unit) detection_env" where
  "example_env = \<lparr>de_engine = \<lparr>pe_parse = (\<lambda>_. None), inflate = (\<lambda>_ _. []), sha256 = (\<lambda>bs. take 1 bs)\<rparr>,
     de_md5 = (\<lambda>_. []), de_unhex = (\<lambda>_. None), de_yara = (\<lambda>_ _. None), de_find = (\<lambda>_ _. []), de_scratch = empty_scratch,
     de_archives = example_archives\<rparr>"

definition example_engine :: "(unit, unit) detection_engine" where
  "example_engine = \<lparr>static_engine = \<lparr>config = config_default, signatures = db_empty\<rparr>,
     rules = \<lparr>re_rules = (), re_policies = []\<rparr>, similarity = [], amsi = None, native_index = index_new,
     shards = \<lparr>persistent = False, by_digest = [(''07'', \<lparr>sh_sha256 = ''07'', sh_threat_name = ''X'', sh_learned_at = 0\<rparr>)],
               disk = []\<rparr>\<rparr>"

definition example_meta :: metadata where
  "example_meta = \<lparr>m_is_file = True, m_len = 2, m_modified = None\<rparr>"

definition example_opened :: opened_file where
  "example_opened = \<lparr>f_change_time_before = Some 3, f_before = Some example_meta, f_duplicates = True, f_seeks = True,
     f_reads = [Piece [7], Interrupted, Piece [8]], f_after = Some example_meta, f_change_time_after = Some 3\<rparr>"

definition example_breakers :: breakers where
  "example_breakers = (let b = \<lparr>limits = limits_default, observations = [], matches = 0, tripped = True\<rparr>
     in \<lparr>external_rule_circuit_breaker = b, external_similarity_circuit_breaker = b\<rparr>)"


text \<open>
  Content that reached the service through AMSI is never handed to AMSI again: the answer to a
  submission is the same whatever the system's AMSI would say, if it is there at all.
\<close>

theorem amsi_submission_no_recursion:
  "scan_amsi_submission env (e\<lparr>amsi := x\<rparr>) bs st = scan_amsi_submission env e bs st"
proof -
  have "scan_rules env (e\<lparr>amsi := x\<rparr>) = scan_rules env e" "learned_shard (e\<lparr>amsi := x\<rparr>) = learned_shard e"
    by (auto simp: fun_eq_iff scan_rules_def learned_shard_def split: option.split)
  then have "gather_and_resolve env (e\<lparr>amsi := x\<rparr>) Skip = gather_and_resolve env e Skip"
    by (simp add: fun_eq_iff gather_and_resolve_def)
  moreover have "evaluate_native_index env (e\<lparr>amsi := x\<rparr>) = evaluate_native_index env e"
    by (auto simp: fun_eq_iff evaluate_native_index_def Let_def split: option.split)
  ultimately have "scan_leaf_bytes_with env (e\<lparr>amsi := x\<rparr>) Skip = scan_leaf_bytes_with env e Skip"
    by (intro ext) (simp add: scan_leaf_bytes_with_def)
  then show ?thesis
    unfolding scan_amsi_submission_def scan_bytes_with_def with_container_inspection_def by metis
qed

text \<open>Observing keeps a tripped breaker tripped.\<close>

lemma observe_tripped:
  "tripped b \<Longrightarrow> is_tripped (fst (observe_external_match x b)) \<and> tripped (snd (observe_external_match x b))"
  by (auto simp: observe_external_match_def slide_def breaker_state_def is_tripped_def Let_def split: list.split)

lemma scan_rules_tripped:
  assumes "tripped (external_rule_circuit_breaker st)"
  shows "list_all (\<lambda>m. rm_namespace m = BUILTIN_NAMESPACE) (fst (fst (scan_rules env e bs st)))"
  using observe_tripped [OF assms]
  by (auto simp: scan_rules_def apply_external_rule_circuit_breaker_def case_prod_unfold Let_def list_all_iff split: option.split)

text \<open>
  Once downloaded rules matched too large a share of the files, they are silent: with the
  breaker tripped, every rule match in the report of a file or a buffer is one of the built-in rules.
\<close>

theorem tripped_rules_silent:
  assumes "tripped (external_rule_circuit_breaker st)"
  shows "list_all (\<lambda>m. rm_namespace m = BUILTIN_NAMESPACE) (d_rule_matches (fst (scan_bytes_with env e sa bs st)))
    \<and> list_all (\<lambda>m. rm_namespace m = BUILTIN_NAMESPACE) (d_rule_matches (fst (analyze_open_file env e f st)))"
proof -
  have gather: "list_all (\<lambda>m. rm_namespace m = BUILTIN_NAMESPACE) (d_rule_matches (fst (gather_and_resolve env e sa' sample sz report m st)))"
    for sa' sample sz report m
  proof -
    obtain c failed where "fst (gather_and_resolve env e sa' sample sz report m st) = record_rule_failure failed (resolve_cascade c)"
        "c_rules c = fst (fst (scan_rules env e sample st))"
      using gather_and_resolve_cases [of env e sa' sample sz report m st] by metis
    then show ?thesis using scan_rules_tripped [OF assms] by simp
  qed
  have "list_all (\<lambda>m. rm_namespace m = BUILTIN_NAMESPACE) (d_rule_matches (fst (analyze_sample env e sample n digests st)))" for sample n digests
    unfolding analyze_sample_def Let_def case_prod_unfold with_container_inspection_keeps by (rule gather)
  then have "list_all (\<lambda>m. rm_namespace m = BUILTIN_NAMESPACE) (d_rule_matches (fst (analyze_open_file env e f st)))"
    by (auto simp: analyze_open_file_def detection_error_def split: option.split)
  moreover have "list_all (\<lambda>m. rm_namespace m = BUILTIN_NAMESPACE) (d_rule_matches (fst (scan_bytes_with env e sa bs st)))"
    unfolding scan_bytes_with_def scan_leaf_bytes_with_def Let_def case_prod_unfold with_container_inspection_keeps by (rule gather)
  ultimately show ?thesis by blast
qed

theorem tripped_rules_silent_witness:
  "list_all (\<lambda>m. rm_namespace m = BUILTIN_NAMESPACE)
     (d_rule_matches (fst (scan_bytes_with example_env example_engine Skip [7] example_breakers)))"
  using tripped_rules_silent [of example_breakers example_env example_engine Skip "[7]"]
  by (simp add: example_breakers_def Let_def)

end
