(* ===== verification/Rollback.thy ===== *)
theory Rollback
  imports Collections
begin

text \<open>
  The rollback vault of \<^verbatim>\<open>src/rollback.rs\<close>: copies of documents saved before an unknown program
  changes them, put back when the program is convicted. \<open>preserve\<close> and \<open>purge_expired\<close> hold the lock
  of the index only for parts of their work, so each locked part is an operation of its own and the
  step relation \<open>vault_step\<close> interleaves them with copies still being made. \<open>u64\<close> arithmetic without a
  check wraps. The hash function is a parameter; the file system is a map from paths to files, and
  which of its calls fail is an argument. A copy that fails halfway leaves nothing the model tracks.
\<close>

section \<open>The index\<close>

definition MAX_FILE_BYTES :: nat where "MAX_FILE_BYTES = 16 * 1024 * 1024"
definition MAX_FILES_PER_PROCESS :: nat where "MAX_FILES_PER_PROCESS = 256"
definition MAX_BYTES_PER_PROCESS :: nat where "MAX_BYTES_PER_PROCESS = 512 * 1024 * 1024"
definition MAX_TOTAL_BYTES :: nat where "MAX_TOTAL_BYTES = 2 * 1024 * 1024 * 1024"
definition MAX_AGE :: nat where "MAX_AGE = 6 * 60 * 60"

type_synonym process_key = "nat \<times> nat"

record vault_entry =
  ve_id :: nat
  ve_original :: bytes
  ve_sha256 :: bytes
  ve_size :: nat
  ve_saved_at :: nat

record vault_index =
  by_process :: "(process_key \<times> vault_entry list) list"
  claimed :: "(process_key \<times> bytes list) list"
  process_bytes :: "(process_key \<times> nat) list"
  total_bytes :: nat

definition index_default :: vault_index where
  "index_default = \<lparr>by_process = [], claimed = [], process_bytes = [], total_bytes = 0\<rparr>"

definition get_or :: "'v \<Rightarrow> ('k \<times> 'v) list \<Rightarrow> 'k \<Rightarrow> 'v" where
  "get_or d m k = (case hm_get m k of Some v \<Rightarrow> v | None \<Rightarrow> d)"

text \<open>\<open>a - b + c\<close> on 64-bit integers without a check.\<close>

definition wrapping_replace :: "nat \<Rightarrow> nat \<Rightarrow> nat \<Rightarrow> nat" where
  "wrapping_replace a b c = nat ((int a - int b + int c) mod 2 ^ 64)"

text \<open>The first locked part of \<^verbatim>\<open>preserve\<close>: room is claimed for a file of the given size.\<close>

definition preserve_claim :: "process_key \<Rightarrow> bytes \<Rightarrow> nat \<Rightarrow> vault_index \<Rightarrow> bool \<times> vault_index" where
  "preserve_claim process path sz ix =
     (let paths = get_or [] (claimed ix) process;
          ix = ix\<lparr>claimed := hm_insert process paths (claimed ix)\<rparr>;
          bytes = get_or 0 (process_bytes ix) process
      in if path \<in> set paths \<or> length paths \<ge> MAX_FILES_PER_PROCESS then (False, ix)
         else if saturating_add u64_max bytes sz > MAX_BYTES_PER_PROCESS \<or>
            saturating_add u64_max (total_bytes ix) sz > MAX_TOTAL_BYTES
         then (False, ix)
         else (True, ix\<lparr>claimed := hm_insert process (path # paths) (claimed ix),
                        process_bytes := hm_insert process (bytes + sz) (process_bytes ix),
                        total_bytes := total_bytes ix + sz\<rparr>))"

text \<open>The second locked part when the copy was made, and when it failed.\<close>

definition preserve_done :: "process_key \<Rightarrow> nat \<Rightarrow> vault_entry \<Rightarrow> vault_index \<Rightarrow> vault_index" where
  "preserve_done process sz e ix =
     ix\<lparr>total_bytes := wrapping_replace (total_bytes ix) sz (ve_size e),
        process_bytes := (case hm_get (process_bytes ix) process of
            Some b \<Rightarrow> hm_insert process (wrapping_replace b sz (ve_size e)) (process_bytes ix)
          | None \<Rightarrow> process_bytes ix),
        by_process := hm_insert process (get_or [] (by_process ix) process @ [e]) (by_process ix)\<rparr>"

definition preserve_failed :: "process_key \<Rightarrow> bytes \<Rightarrow> nat \<Rightarrow> vault_index \<Rightarrow> vault_index" where
  "preserve_failed process path sz ix =
     ix\<lparr>claimed := (case hm_get (claimed ix) process of
            Some paths \<Rightarrow> hm_insert process (removeAll path paths) (claimed ix)
          | None \<Rightarrow> claimed ix),
        process_bytes := (case hm_get (process_bytes ix) process of
            Some b \<Rightarrow> hm_insert process (b - sz) (process_bytes ix)
          | None \<Rightarrow> process_bytes ix),
        total_bytes := total_bytes ix - sz\<rparr>"

text \<open>The locked part of \<^verbatim>\<open>restore\<close>.\<close>

definition restore_take :: "process_key \<Rightarrow> vault_index \<Rightarrow> vault_entry list \<times> vault_index" where
  "restore_take process ix =
     (let es = get_or [] (by_process ix) process
      in (es, ix\<lparr>claimed := hm_remove process (claimed ix), process_bytes := hm_remove process (process_bytes ix),
                 by_process := hm_remove process (by_process ix),
                 total_bytes := foldl (\<lambda>t e. t - ve_size e) (total_bytes ix) es\<rparr>))"

definition expired_at :: "nat \<Rightarrow> vault_entry \<Rightarrow> bool" where
  "expired_at now e \<longleftrightarrow> now \<ge> ve_saved_at e \<and> now - ve_saved_at e > MAX_AGE"

text \<open>The copies to delete, and the index without them.\<close>

definition purge_expired :: "nat \<Rightarrow> vault_index \<Rightarrow> nat list \<times> vault_index" where
  "purge_expired now ix =
     (let old = filter (expired_at now) (concat (map snd (by_process ix)));
          kept = filter (\<lambda>(process, es). es \<noteq> [])
                   (map (\<lambda>(process, es). (process, filter (\<lambda>e. \<not> expired_at now e) es)) (by_process ix));
          live = map fst kept
      in (map ve_id old,
          ix\<lparr>by_process := kept, total_bytes := total_bytes ix - sum_list (map ve_size old),
             claimed := filter (\<lambda>(process, _). process \<in> set live) (claimed ix),
             process_bytes := filter (\<lambda>(process, _). process \<in> set live) (process_bytes ix)\<rparr>))"

section \<open>Files\<close>

datatype node = Regular bytes | Other

record vault_disk =
  files :: "bytes \<Rightarrow> node option"
  copies :: "nat \<Rightarrow> bytes option"
  replaced :: "nat \<Rightarrow> bytes option"

text \<open>Which of the fallible calls of \<^verbatim>\<open>restore_one\<close> succeed.\<close>

record restore_io =
  ri_parent :: bool
  ri_metadata :: bool
  ri_current :: bool
  ri_keep :: bool
  ri_saved :: bool
  ri_write :: bool
  ri_check :: bool

definition put_saved :: "(bytes \<Rightarrow> bytes) \<Rightarrow> restore_io \<Rightarrow> vault_entry \<Rightarrow> vault_disk \<Rightarrow> bool option \<times> vault_disk" where
  "put_saved sha io e d =
     (case copies d (ve_id e) of
        None \<Rightarrow> (None, d)
      | Some saved \<Rightarrow>
          if \<not> ri_saved io \<or> sha saved \<noteq> ve_sha256 e \<or> \<not> ri_write io then (None, d)
          else let d = d\<lparr>files := (files d)(ve_original e := Some (Regular saved))\<rparr>
               in if \<not> ri_check io \<or> sha saved \<noteq> ve_sha256 e then (None, d) else (Some True, d))"

definition restore_one :: "(bytes \<Rightarrow> bytes) \<Rightarrow> restore_io \<Rightarrow> vault_entry \<Rightarrow> vault_disk \<Rightarrow> bool option \<times> vault_disk" where
  "restore_one sha io e d =
     (if \<not> ri_parent io \<or> \<not> ri_metadata io then (None, d)
      else case files d (ve_original e) of
        Some Other \<Rightarrow> (None, d)
      | None \<Rightarrow> put_saved sha io e d
      | Some (Regular current) \<Rightarrow>
          if \<not> ri_current io then (None, d)
          else if sha current = ve_sha256 e then (Some False, d)
          else if \<not> ri_keep io then (None, d)
          else put_saved sha io e (d\<lparr>replaced := (replaced d)(ve_id e := Some current)\<rparr>))"

record restore_summary =
  restored :: nat
  unchanged :: nat
  failed :: nat

fun restore_entries :: "(bytes \<Rightarrow> bytes) \<Rightarrow> (nat \<Rightarrow> restore_io) \<Rightarrow> vault_entry list \<Rightarrow> restore_summary \<Rightarrow> vault_disk \<Rightarrow>
    restore_summary \<times> vault_disk" where
  "restore_entries sha io [] s d = (s, d)"
| "restore_entries sha io (e # es) s d =
     (case restore_one sha (io (ve_id e)) e d of
        (Some True, d) \<Rightarrow> restore_entries sha io es (s\<lparr>restored := restored s + 1\<rparr>) (d\<lparr>copies := (copies d)(ve_id e := None)\<rparr>)
      | (Some False, d) \<Rightarrow> restore_entries sha io es (s\<lparr>unchanged := unchanged s + 1\<rparr>) (d\<lparr>copies := (copies d)(ve_id e := None)\<rparr>)
      | (None, d) \<Rightarrow> restore_entries sha io es (s\<lparr>failed := failed s + 1\<rparr>) d)"

definition restore :: "(bytes \<Rightarrow> bytes) \<Rightarrow> (nat \<Rightarrow> restore_io) \<Rightarrow> process_key \<Rightarrow> vault_index \<Rightarrow> vault_disk \<Rightarrow>
    restore_summary \<times> vault_index \<times> vault_disk" where
  "restore sha io process ix d =
     (let (es, ix) = restore_take process ix;
          (s, d) = restore_entries sha io es \<lparr>restored = 0, unchanged = 0, failed = 0\<rparr> d
      in (s, ix, d))"

text \<open>
  \<^verbatim>\<open>preserve\<close> without anything in between. \<open>ok\<close> says whether the file could be copied, \<open>fresh\<close> is the
  new identifier. A file that grew past the limit while it was copied counts as failed.
\<close>

definition preserve :: "(bytes \<Rightarrow> bytes) \<Rightarrow> bool \<Rightarrow> nat \<Rightarrow> nat \<Rightarrow> process_key \<Rightarrow> bytes \<Rightarrow> vault_index \<Rightarrow> vault_disk \<Rightarrow>
    bool \<times> vault_index \<times> vault_disk" where
  "preserve sha ok fresh now process path ix d =
     (case files d path of
        Some (Regular content) \<Rightarrow>
          if length content > MAX_FILE_BYTES then (False, ix, d)
          else (case preserve_claim process path (length content) ix of
                  (False, ix) \<Rightarrow> (False, ix, d)
                | (True, ix) \<Rightarrow>
                    if ok
                    then (True,
                          preserve_done process (length content)
                            \<lparr>ve_id = fresh, ve_original = path, ve_sha256 = sha content, ve_size = length content, ve_saved_at = now\<rparr> ix,
                          d\<lparr>copies := (copies d)(fresh := Some content)\<rparr>)
                    else (False, preserve_failed process path (length content) ix, d))
      | _ \<Rightarrow> (False, ix, d))"

section \<open>The accounting of the vault\<close>

definition stored :: "(process_key \<times> vault_entry list) list \<Rightarrow> nat" where
  "stored m = sum_list (map (\<lambda>(process, es). sum_list (map ve_size es)) m)"

text \<open>A copy being made: the program, the path and the size that was claimed.\<close>

type_synonym copying = "process_key \<times> bytes \<times> nat"

abbreviation claimed_size :: "copying \<Rightarrow> nat" where
  "claimed_size c \<equiv> snd (snd c)"

text \<open>
  What can happen next, with at most \<open>w\<close> threads copying at a time: a claim, granted or refused, a
  copy that ends well or badly, a restore, a purge.
\<close>

inductive vault_step :: "nat \<Rightarrow> vault_index \<times> copying list \<Rightarrow> vault_index \<times> copying list \<Rightarrow> bool" for w where
  granted: "preserve_claim process path sz ix = (True, ix') \<Longrightarrow> sz \<le> MAX_FILE_BYTES \<Longrightarrow> length cs < w \<Longrightarrow>
    vault_step w (ix, cs) (ix', (process, path, sz) # cs)"
| refused: "preserve_claim process path sz ix = (False, ix') \<Longrightarrow> vault_step w (ix, cs) (ix', cs)"
| copied: "c \<in> set cs \<Longrightarrow> ve_size e \<le> MAX_FILE_BYTES \<Longrightarrow>
    vault_step w (ix, cs) (preserve_done (fst c) (claimed_size c) e ix, remove1 c cs)"
| broken: "c \<in> set cs \<Longrightarrow>
    vault_step w (ix, cs) (preserve_failed (fst c) (fst (snd c)) (claimed_size c) ix, remove1 c cs)"
| taken: "vault_step w (ix, cs) (snd (restore_take process ix), cs)"
| purged: "vault_step w (ix, cs) (snd (purge_expired now ix), cs)"

inductive_cases vault_stepE: "vault_step w s s'"

definition vault_ok :: "nat \<Rightarrow> vault_index \<times> copying list \<Rightarrow> bool" where
  "vault_ok w s \<longleftrightarrow>
     (let (ix, cs) = s in
      hm_wf (by_process ix) \<and> length cs \<le> w \<and> list_all (\<lambda>c. claimed_size c \<le> MAX_FILE_BYTES) cs \<and>
      total_bytes ix = stored (by_process ix) + sum_list (map claimed_size cs) \<and>
      total_bytes ix + sum_list (map (\<lambda>c. MAX_FILE_BYTES - claimed_size c) cs) \<le> MAX_TOTAL_BYTES + w * MAX_FILE_BYTES)"

lemma stored_remove: "hm_wf m \<Longrightarrow> stored m = stored (hm_remove k m) + sum_list (map ve_size (get_or [] m k))"
proof (induction m)
  case (Cons e m)
  show ?case
  proof (cases "fst e = k")
    case True
    with Cons.prems have "hm_get m k = None" by (auto simp: hm_wf_def hm_get_None)
    then have "hm_remove k (e # m) = m" using True hm_remove_absent [of m k] by (simp add: hm_remove_def)
    with True show ?thesis by (simp add: stored_def get_or_def hm_get_Cons case_prod_unfold)
  next
    case False
    with Cons show ?thesis by (simp add: stored_def get_or_def hm_get_Cons hm_remove_def hm_wf_def case_prod_unfold)
  qed
qed (simp add: stored_def get_or_def hm_remove_def)

lemma stored_insert: "hm_wf m \<Longrightarrow> stored (hm_insert k es m) = stored (hm_remove k m) + sum_list (map ve_size es)"
  by (simp add: stored_def hm_insert_def)

lemma foldl_sizes: "foldl (\<lambda>t e. t - ve_size e) t es = t - sum_list (map ve_size es)"
  by (induction es arbitrary: t) auto

lemma stored_purge:
  "stored m = stored (filter (\<lambda>(process, es). es \<noteq> []) (map (\<lambda>(process, es). (process, filter (\<lambda>e. \<not> expired_at now e) es)) m))
     + sum_list (map ve_size (filter (expired_at now) (concat (map snd m))))"
proof (induction m)
  case (Cons e m)
  obtain process es where e: "e = (process, es)" by (cases e)
  have "sum_list (map ve_size es) =
      sum_list (map ve_size (filter (\<lambda>e. \<not> expired_at now e) es)) + sum_list (map ve_size (filter (expired_at now) es))"
    by (induction es) auto
  then show ?case using Cons by (simp add: stored_def e)
qed (simp add: stored_def)

lemma hm_wf_purge:
  "hm_wf m \<Longrightarrow> hm_wf (filter (\<lambda>(process, es). es \<noteq> []) (map (\<lambda>(process, es). (process, f es)) m))"
  by (auto simp: hm_wf_def case_prod_unfold comp_def intro: distinct_map_filter)

lemma wrapping_replace_exact: "b \<le> a \<Longrightarrow> a - b + c < 2 ^ 64 \<Longrightarrow> wrapping_replace a b c = a - b + c"
proof -
  assume "b \<le> a" "a - b + c < 2 ^ 64"
  then have "int a - int b + int c = int (a - b + c)" by simp
  moreover have "(a - b + c) mod 2 ^ 64 = a - b + c" using \<open>a - b + c < 2 ^ 64\<close> by (rule mod_less)
  ultimately show ?thesis unfolding wrapping_replace_def by (metis nat_int of_nat_numeral of_nat_power zmod_int)
qed

lemma sum_remove1: "c \<in> set cs \<Longrightarrow> sum_list (map (f :: 'a \<Rightarrow> nat) cs) = f c + sum_list (map f (remove1 c cs))"
  by (induction cs) auto

lemma sum_room: "sum_list (map (\<lambda>c. MAX_FILE_BYTES - claimed_size c) cs) \<le> length cs * MAX_FILE_BYTES"
  by (induction cs) auto

lemma preserve_claim_granted:
  assumes "preserve_claim process path sz ix = (True, ix')"
  shows "by_process ix' = by_process ix" "total_bytes ix' = total_bytes ix + sz" "total_bytes ix + sz \<le> MAX_TOTAL_BYTES"
proof -
  show "by_process ix' = by_process ix" "total_bytes ix' = total_bytes ix + sz"
    using assms by (auto simp: preserve_claim_def Let_def split: if_splits)
  have "saturating_add u64_max (total_bytes ix) sz \<le> MAX_TOTAL_BYTES"
    using assms by (auto simp: preserve_claim_def Let_def split: if_splits)
  then show "total_bytes ix + sz \<le> MAX_TOTAL_BYTES"
    by (auto simp: saturating_add_def MAX_TOTAL_BYTES_def u64_max_def min_def split: if_splits)
qed

lemma preserve_claim_refused:
  assumes "preserve_claim process path sz ix = (False, ix')"
  shows "by_process ix' = by_process ix" "total_bytes ix' = total_bytes ix"
  using assms by (auto simp: preserve_claim_def Let_def split: if_splits)

lemma vault_limit: "w \<le> 2 ^ 32 \<Longrightarrow> MAX_TOTAL_BYTES + w * MAX_FILE_BYTES < 2 ^ 64"
  by (simp add: MAX_TOTAL_BYTES_def MAX_FILE_BYTES_def)

lemma vault_step_ok:
  assumes "vault_step w s s'" and "vault_ok w s" and w: "w \<le> 2 ^ 32"
  shows "vault_ok w s'"
  using assms(1)
proof cases
  case (granted process path sz ix ix' cs)
  note claim = preserve_claim_granted [OF granted(3)]
  let ?cs = "(process, path, sz) # cs"
  have "total_bytes ix' + sum_list (map (\<lambda>c. MAX_FILE_BYTES - claimed_size c) ?cs) \<le> MAX_TOTAL_BYTES + length ?cs * MAX_FILE_BYTES"
    using claim sum_room [of ?cs] by linarith
  also have "\<dots> \<le> MAX_TOTAL_BYTES + w * MAX_FILE_BYTES" using granted(5) by (intro add_left_mono mult_le_mono1) simp
  finally show ?thesis using granted assms(2) claim by (simp add: vault_ok_def)
next
  case (refused process path sz ix ix' cs)
  then show ?thesis using assms(2) preserve_claim_refused [OF refused(3)] by (simp add: vault_ok_def)
next
  case (copied c cs e ix)
  then have ok: "hm_wf (by_process ix)" "claimed_size c \<le> MAX_FILE_BYTES"
      "total_bytes ix = stored (by_process ix) + sum_list (map claimed_size cs)"
      "total_bytes ix + sum_list (map (\<lambda>c. MAX_FILE_BYTES - claimed_size c) cs) \<le> MAX_TOTAL_BYTES + w * MAX_FILE_BYTES"
    using assms(2) by (auto simp: vault_ok_def list_all_iff)
  note room = sum_remove1 [OF copied(3), of "\<lambda>c. MAX_FILE_BYTES - claimed_size c"] sum_remove1 [OF copied(3), of claimed_size]
  have "wrapping_replace (total_bytes ix) (claimed_size c) (ve_size e) = total_bytes ix - claimed_size c + ve_size e"
    by (rule wrapping_replace_exact) (use ok room copied(4) vault_limit [OF w] in linarith)+
  moreover have "stored (by_process (preserve_done (fst c) (claimed_size c) e ix)) = stored (by_process ix) + ve_size e"
    using stored_remove [OF ok(1), of "fst c"] by (simp add: preserve_done_def stored_insert ok(1))
  ultimately show ?thesis
    using ok room copied assms(2)
    by (auto simp: vault_ok_def preserve_done_def list_all_iff length_remove1 dest: notin_set_remove1 in_set_remove1)
next
  case (broken c cs ix)
  note room = sum_remove1 [OF broken(3), of "\<lambda>c. MAX_FILE_BYTES - claimed_size c"] sum_remove1 [OF broken(3), of claimed_size]
  show ?thesis
    using room broken assms(2) by (auto simp: vault_ok_def preserve_failed_def list_all_iff length_remove1 dest: notin_set_remove1)
next
  case (taken ix cs process)
  then have "hm_wf (by_process ix)" using assms(2) by (simp add: vault_ok_def)
  from stored_remove [OF this, of process] show ?thesis
    using taken assms(2) by (auto simp: vault_ok_def restore_take_def foldl_sizes)
next
  case (purged ix cs now)
  from stored_purge [of "by_process ix" now] hm_wf_purge show ?thesis
    using purged assms(2) by (auto simp: vault_ok_def purge_expired_def Let_def)
qed


definition example_claim :: "bool \<times> vault_index" where
  "example_claim = preserve_claim (7, 1) [0x61] 3 index_default"


section \<open>Putting documents back\<close>

definition is_back :: "(bytes \<Rightarrow> bytes) \<Rightarrow> vault_disk \<Rightarrow> vault_entry \<Rightarrow> bool" where
  "is_back sha d e \<longleftrightarrow> (\<exists>c. files d (ve_original e) = Some (Regular c) \<and> sha c = ve_sha256 e)"

lemma put_saved_frame:
  assumes "put_saved sha io e d = (r, d')"
  shows "copies d' = copies d" "replaced d' = replaced d" "p \<noteq> ve_original e \<Longrightarrow> files d' p = files d p"
    "r \<noteq> None \<Longrightarrow> is_back sha d' e"
  using assms by (auto simp: put_saved_def is_back_def Let_def split: option.splits if_splits)

lemma restore_one_frame:
  assumes "restore_one sha io e d = (r, d')"
  shows "copies d' = copies d" "k \<noteq> ve_id e \<Longrightarrow> replaced d' k = replaced d k"
    "p \<noteq> ve_original e \<Longrightarrow> files d' p = files d p" "r \<noteq> None \<Longrightarrow> is_back sha d' e"
    "files d (ve_original e) = Some (Regular c) \<Longrightarrow> files d' (ve_original e) \<noteq> files d (ve_original e) \<Longrightarrow>
       replaced d' (ve_id e) = Some c"
  using assms put_saved_frame [of sha io e]
  by (auto simp: restore_one_def is_back_def split: option.splits node.splits if_splits)

text \<open>What a restore promises for one saved document.\<close>

definition dealt :: "(bytes \<Rightarrow> bytes) \<Rightarrow> vault_disk \<Rightarrow> vault_disk \<Rightarrow> vault_entry \<Rightarrow> bool" where
  "dealt sha d d' e \<longleftrightarrow>
     (is_back sha d' e \<or> copies d' (ve_id e) = copies d (ve_id e)) \<and>
     (\<forall>c. files d (ve_original e) = Some (Regular c) \<and> files d' (ve_original e) \<noteq> files d (ve_original e) \<longrightarrow>
        replaced d' (ve_id e) = Some c)"

lemma restore_entries_step:
  assumes "restore_one sha (io (ve_id e)) e d = (r, d1)"
  shows "restore_entries sha io (e # es) s d =
    restore_entries sha io es
      (case r of Some True \<Rightarrow> s\<lparr>restored := restored s + 1\<rparr> | Some False \<Rightarrow> s\<lparr>unchanged := unchanged s + 1\<rparr>
       | None \<Rightarrow> s\<lparr>failed := failed s + 1\<rparr>)
      (if r = None then d1 else d1\<lparr>copies := (copies d1)(ve_id e := None)\<rparr>)"
  using assms by (simp split: option.split bool.split)

lemma restore_entries_frame:
  "restore_entries sha io es s d = (s', d') \<Longrightarrow>
     restored s' + unchanged s' + failed s' = restored s + unchanged s + failed s + length es \<and> failed s \<le> failed s' \<and>
     (\<forall>p. p \<notin> ve_original ` set es \<longrightarrow> files d' p = files d p) \<and>
     (\<forall>k. k \<notin> ve_id ` set es \<longrightarrow> copies d' k = copies d k \<and> replaced d' k = replaced d k)"
proof (induction es arbitrary: s d)
  case (Cons e es)
  obtain r d1 where r: "restore_one sha (io (ve_id e)) e d = (r, d1)" by (cases "restore_one sha (io (ve_id e)) e d")
  note run = Cons.prems [unfolded restore_entries_step [where io = io, OF r]]
  show ?case
    using Cons.IH [OF run] restore_one_frame [OF r] by (auto split: option.splits bool.splits if_splits)
qed simp

lemma restore_entries_dealt:
  "distinct (map ve_original es) \<Longrightarrow> distinct (map ve_id es) \<Longrightarrow> restore_entries sha io es s d = (s', d') \<Longrightarrow>
     list_all (dealt sha d d') es \<and> (failed s' = failed s \<longrightarrow> list_all (is_back sha d') es)"
proof (induction es arbitrary: s d)
  case (Cons e es)
  obtain r d1 where r: "restore_one sha (io (ve_id e)) e d = (r, d1)" by (cases "restore_one sha (io (ve_id e)) e d")
  let ?d = "if r = None then d1 else d1\<lparr>copies := (copies d1)(ve_id e := None)\<rparr>"
  note run = Cons.prems(3) [unfolded restore_entries_step [where io = io, OF r]]
  note one = restore_one_frame [OF r] and rest = restore_entries_frame [OF run]
  have others: "ve_original e \<notin> ve_original ` set es" "ve_id e \<notin> ve_id ` set es" using Cons.prems(1,2) by auto
  then have e: "files d' (ve_original e) = files d1 (ve_original e)" "replaced d' (ve_id e) = replaced d1 (ve_id e)"
      "copies d' (ve_id e) = copies ?d (ve_id e)"
    using rest by (auto split: if_splits)
  have "dealt sha d d' e"
    using e one by (cases "r = None") (auto simp: dealt_def is_back_def)
  moreover have "list_all (dealt sha d d') es"
  proof -
    have "dealt sha d d' x" if x: "x \<in> set es" "dealt sha ?d d' x" for x
    proof -
      have "ve_original x \<noteq> ve_original e" "ve_id x \<noteq> ve_id e" using others imageI [OF x(1)] by metis+
      then have "files ?d (ve_original x) = files d (ve_original x)" "copies ?d (ve_id x) = copies d (ve_id x)"
        using one(1,3) by auto
      with x(2) show ?thesis unfolding dealt_def by metis
    qed
    then show ?thesis using Cons.IH [OF _ _ run] Cons.prems(1,2) by (auto simp: list_all_iff)
  qed
  moreover have "is_back sha d' e \<and> list_all (is_back sha d') es" if "failed s' = failed s"
  proof -
    have "r \<noteq> None" using that rest by (auto split: option.splits bool.splits)
    then have "is_back sha d' e" using one(4) e(1) by (simp add: is_back_def)
    moreover have "list_all (is_back sha d') es"
      using Cons.IH [OF _ _ run] Cons.prems(1,2) that \<open>r \<noteq> None\<close> by (auto split: option.splits bool.splits)
    ultimately show ?thesis by blast
  qed
  ultimately show ?case by simp
qed simp

text \<open>
  A restore leaves nothing half done: each saved document is back with the content that was
  saved, or its copy is still in the vault; when no failure is counted, all are back. What a program
  had put in their place is kept, no other file is touched, and every document is counted once.
\<close>

theorem restore_puts_back:
  assumes "distinct (map ve_original (get_or [] (by_process ix) process))"
    and "distinct (map ve_id (get_or [] (by_process ix) process))"
    and "restore sha io process ix d = (s, ix', d')"
  shows "let es = get_or [] (by_process ix) process in
    list_all (dealt sha d d') es \<and> (failed s = 0 \<longrightarrow> list_all (is_back sha d') es) \<and>
    (\<forall>p. p \<notin> ve_original ` set es \<longrightarrow> files d' p = files d p) \<and>
    restored s + unchanged s + failed s = length es"
proof -
  let ?es = "get_or [] (by_process ix) process"
  have "restore_entries sha io ?es \<lparr>restored = 0, unchanged = 0, failed = 0\<rparr> d = (s, d')"
    using assms(3) by (auto simp: restore_def restore_take_def Let_def split: prod.splits)
  from restore_entries_dealt [OF assms(1,2) this] restore_entries_frame [OF this]
  show ?thesis by (auto simp: Let_def)
qed

section \<open>A whole attack undone\<close>

text \<open>
  What a program does while nobody purges or restores: each change of a document is announced first,
  then the program damages files. \<open>damage\<close> maps the files before to the files after.
\<close>

record touch =
  t_path :: bytes
  t_copy_ok :: bool
  t_id :: nat
  t_now :: nat
  t_damage :: "(bytes \<Rightarrow> node option) \<Rightarrow> (bytes \<Rightarrow> node option)"

text \<open>The paths announced so far, those of them saved when they were first announced, the index, the files.\<close>

record attack =
  touched :: "bytes set"
  saved_first :: "bytes set"
  a_index :: vault_index
  a_disk :: vault_disk

definition attack_step :: "(bytes \<Rightarrow> bytes) \<Rightarrow> process_key \<Rightarrow> attack \<Rightarrow> touch \<Rightarrow> attack" where
  "attack_step sha process a t =
     (let (saved, ix, d) = preserve sha (t_copy_ok t) (t_id t) (t_now t) process (t_path t) (a_index a) (a_disk a)
      in \<lparr>touched = insert (t_path t) (touched a),
          saved_first = (if saved \<and> t_path t \<notin> touched a then insert (t_path t) (saved_first a) else saved_first a),
          a_index = ix, a_disk = d\<lparr>files := t_damage t (files d)\<rparr>\<rparr>)"

text \<open>No file changes before the service has heard of it.\<close>

fun announced :: "bytes set \<Rightarrow> touch list \<Rightarrow> bool" where
  "announced seen [] = True"
| "announced seen (t # ts) =
     ((\<forall>fs p. p \<notin> insert (t_path t) seen \<longrightarrow> t_damage t fs p = fs p) \<and> announced (insert (t_path t) seen) ts)"

definition attack_ok :: "(bytes \<Rightarrow> bytes) \<Rightarrow> process_key \<Rightarrow> (bytes \<Rightarrow> node option) \<Rightarrow> nat set \<Rightarrow> attack \<Rightarrow> bool" where
  "attack_ok sha process original used a \<longleftrightarrow>
     (let es = get_or [] (by_process (a_index a)) process in
      distinct (map ve_original es) \<and> distinct (map ve_id es) \<and> ve_id ` set es \<subseteq> used \<and>
      ve_original ` set es \<subseteq> set (get_or [] (claimed (a_index a)) process) \<and> saved_first a \<subseteq> ve_original ` set es \<and>
      ve_original ` set es \<subseteq> touched a \<and>
      (\<forall>p. p \<notin> touched a \<longrightarrow> files (a_disk a) p = original p) \<and>
      (\<forall>e \<in> set es. ve_original e \<in> saved_first a \<longrightarrow>
         (\<exists>c. original (ve_original e) = Some (Regular c) \<and> ve_sha256 e = sha c)))"

lemma get_or_insert [simp]: "get_or d (hm_insert k v m) k' = (if k' = k then v else get_or d m k')"
  by (simp add: get_or_def)

lemma preserve_claim_index:
  assumes "preserve_claim process path sz ix = (granted, ix')"
  shows "by_process ix' = by_process ix" "set (get_or [] (claimed ix) process) \<subseteq> set (get_or [] (claimed ix') process)"
    "granted \<Longrightarrow> path \<notin> set (get_or [] (claimed ix) process) \<and> path \<in> set (get_or [] (claimed ix') process)"
  using assms by (auto simp: preserve_claim_def Let_def split: if_splits)

lemma preserve_cases:
  assumes "preserve sha ok fresh now process path ix d = (saved, ix', d')"
  obtains (refused) "\<not> saved" "d' = d" "ix' = ix \<or> (\<exists>sz. preserve_claim process path sz ix = (False, ix'))"
    | (broken) c ix1 where "\<not> saved" "d' = d" "files d path = Some (Regular c)" "preserve_claim process path (length c) ix = (True, ix1)"
        "ix' = preserve_failed process path (length c) ix1"
    | (saved) c ix1 where "saved" "files d path = Some (Regular c)" "preserve_claim process path (length c) ix = (True, ix1)"
        "ix' = preserve_done process (length c)
           \<lparr>ve_id = fresh, ve_original = path, ve_sha256 = sha c, ve_size = length c, ve_saved_at = now\<rparr> ix1"
        "d' = d\<lparr>copies := (copies d)(fresh := Some c)\<rparr>"
proof (cases "\<exists>c. files d path = Some (Regular c) \<and> length c \<le> MAX_FILE_BYTES")
  case False
  then show thesis using assms by (intro refused) (auto simp: preserve_def split: option.splits node.splits if_splits)
next
  case True
  then obtain c where c: "files d path = Some (Regular c)" "\<not> length c > MAX_FILE_BYTES" by auto
  obtain g ix1 where claim: "preserve_claim process path (length c) ix = (g, ix1)" by fastforce
  show thesis
  proof (cases g)
    case False
    then show thesis using assms c claim by (intro refused) (auto simp: preserve_def)
  next
    case True
    show thesis
    proof (cases ok)
      case False
      then show thesis using assms c claim True by (intro broken [of c ix1]) (simp_all add: preserve_def)
    next
      case ok: True
      then show thesis using assms c claim True by (intro saved [of c ix1]) (simp_all add: preserve_def)
    qed
  qed
qed

lemma preserve_saved:
  assumes "preserve sha ok fresh now process path ix d = (True, ix', d')"
  obtains c where "files d path = Some (Regular c)" "path \<notin> set (get_or [] (claimed ix) process)"
    "path \<in> set (get_or [] (claimed ix') process)" "set (get_or [] (claimed ix) process) \<subseteq> set (get_or [] (claimed ix') process)"
    "get_or [] (by_process ix') process = get_or [] (by_process ix) process @
        [\<lparr>ve_id = fresh, ve_original = path, ve_sha256 = sha c, ve_size = length c, ve_saved_at = now\<rparr>]"
  using assms
proof (cases rule: preserve_cases)
  case (saved c ix1)
  then show thesis using that [of c] preserve_claim_index [OF saved(3)] by (simp add: preserve_done_def)
qed simp_all

lemma preserve_not_saved:
  assumes "preserve sha ok fresh now process path ix d = (False, ix', d')"
  shows "get_or [] (by_process ix') process = get_or [] (by_process ix) process \<and>
    set (get_or [] (claimed ix) process) \<subseteq> set (get_or [] (claimed ix') process)"
  using assms
proof (cases rule: preserve_cases)
  case refused
  then show ?thesis using preserve_claim_index(1,2) [of process path _ ix False ix'] by auto
next
  case (broken c ix1)
  note claim = preserve_claim_index [OF broken(4)]
  have "claimed ix' = hm_insert process (removeAll path (get_or [] (claimed ix1) process)) (claimed ix1) \<or> claimed ix' = claimed ix1"
    using broken(5) by (auto simp: preserve_failed_def get_or_def split: option.splits)
  then have "set (get_or [] (claimed ix) process) \<subseteq> set (get_or [] (claimed ix') process)" using claim by auto
  then show ?thesis using claim(1) broken(5) by (simp add: preserve_failed_def)
qed simp_all

lemma preserve_files:
  assumes "preserve sha ok fresh now process path ix d = (saved, ix', d')"
  shows "files d' = files d"
  using assms by (cases rule: preserve_cases) simp_all

lemma attack_step_ok:
  assumes ok: "attack_ok sha process original used a" and new: "t_id t \<notin> used"
    and damage: "\<forall>fs p. p \<notin> insert (t_path t) (touched a) \<longrightarrow> t_damage t fs p = fs p"
  shows "attack_ok sha process original (insert (t_id t) used) (attack_step sha process a t)"
proof -
  obtain saved ix d where p: "preserve sha (t_copy_ok t) (t_id t) (t_now t) process (t_path t) (a_index a) (a_disk a) = (saved, ix, d)"
    by (metis prod_cases3)
  have untouched: "t_damage t (files d) q = original q" if "q \<notin> insert (t_path t) (touched a)" for q
    using ok damage that preserve_files [OF p] by (simp add: attack_ok_def Let_def)
  show ?thesis
  proof (cases saved)
    case False
    then show ?thesis
      using ok preserve_not_saved [of sha "t_copy_ok t" "t_id t" "t_now t" process "t_path t" "a_index a" "a_disk a" ix d] p untouched
      by (auto simp: attack_step_def attack_ok_def Let_def)
  next
    case True
    then obtain c where c: "files (a_disk a) (t_path t) = Some (Regular c)" "t_path t \<notin> set (get_or [] (claimed (a_index a)) process)"
      "t_path t \<in> set (get_or [] (claimed ix) process)"
      "set (get_or [] (claimed (a_index a)) process) \<subseteq> set (get_or [] (claimed ix) process)"
      "get_or [] (by_process ix) process = get_or [] (by_process (a_index a)) process @
        [\<lparr>ve_id = t_id t, ve_original = t_path t, ve_sha256 = sha c, ve_size = length c, ve_saved_at = t_now t\<rparr>]"
      using preserve_saved p by metis
    have "original (t_path t) = Some (Regular c)" if "t_path t \<notin> touched a"
      using ok that c(1) by (simp add: attack_ok_def Let_def)
    moreover have "t_path t \<notin> ve_original ` set (get_or [] (by_process (a_index a)) process)"
      using ok c(2) by (auto simp: attack_ok_def Let_def)
    ultimately show ?thesis
      using ok new c(3-5) p untouched True
      by (auto simp: attack_step_def attack_ok_def Let_def)
  qed
qed

definition attack_start :: "vault_index \<Rightarrow> vault_disk \<Rightarrow> attack" where
  "attack_start ix d = \<lparr>touched = {}, saved_first = {}, a_index = ix, a_disk = d\<rparr>"

lemma attack_run_ok:
  "attack_ok sha process original used a \<Longrightarrow> distinct (map t_id ts) \<Longrightarrow> used \<inter> t_id ` set ts = {} \<Longrightarrow>
     announced (touched a) ts \<Longrightarrow>
     \<exists>used'. attack_ok sha process original used' (foldl (attack_step sha process) a ts)"
proof (induction ts arbitrary: a used)
  case (Cons t ts)
  have "attack_ok sha process original (insert (t_id t) used) (attack_step sha process a t)"
    using Cons.prems by (intro attack_step_ok) auto
  moreover have "touched (attack_step sha process a t) = insert (t_path t) (touched a)"
    by (simp add: attack_step_def split: prod.split)
  ultimately show ?case using Cons.IH [of "insert (t_id t) used" "attack_step sha process a t"] Cons.prems by auto
qed auto


definition all_ok :: restore_io where
  "all_ok = \<lparr>ri_parent = True, ri_metadata = True, ri_current = True, ri_keep = True, ri_saved = True, ri_write = True, ri_check = True\<rparr>"

definition example_disk :: "bytes \<Rightarrow> vault_disk" where
  "example_disk content = \<lparr>files = (\<lambda>p. if p = [0x61] then Some (Regular content) else None),
     copies = (\<lambda>k. if k = 1 then Some [5, 6] else None), replaced = (\<lambda>_. None)\<rparr>"

definition example_entry :: vault_entry where
  "example_entry = \<lparr>ve_id = 1, ve_original = [0x61], ve_sha256 = [5], ve_size = 2, ve_saved_at = 0\<rparr>"

definition example_index :: vault_index where
  "example_index = index_default\<lparr>by_process := [((7, 1), [example_entry])]\<rparr>"

theorem restore_puts_back_witness:
  "let (s, ix', d') = restore (take 1) (\<lambda>_. all_ok) (7, 1) example_index (example_disk [9, 9]) in
     list_all (dealt (take 1) (example_disk [9, 9]) d') [example_entry] \<and> restored s + unchanged s + failed s = 1"
proof -
  obtain s ix' d' where r: "restore (take 1) (\<lambda>_. all_ok) (7, 1) example_index (example_disk [9, 9]) = (s, ix', d')"
    by (metis prod_cases3)
  have "get_or [] (by_process example_index) (7, 1) = [example_entry]"
    by (simp add: example_index_def get_or_def hm_get_Cons)
  with restore_puts_back [OF _ _ r] r show ?thesis by (simp add: Let_def)
qed

text \<open>A program that encrypts one document and deletes it afterwards.\<close>

definition example_touch :: "nat \<Rightarrow> node option \<Rightarrow> touch" where
  "example_touch n left = \<lparr>t_path = [0x61], t_copy_ok = True, t_id = n, t_now = 0, t_damage = (\<lambda>fs. fs([0x61] := left))\<rparr>"

definition example_attack :: attack where
  "example_attack = foldl (attack_step (take 1) (7, 1)) (attack_start index_default (example_disk [5, 6]))
     [example_touch 1 (Some (Regular [9, 9])), example_touch 2 None]"


text \<open>
  The claims that keep a document from being saved twice are dropped by a purge while its first copy
  is still being made. Saved again after the program changed it, it has two entries, and a restore
  puts the later one back last: the document ends as the program left it.
\<close>

definition race_index :: vault_index where
  "race_index =
     (let (_, ix) = preserve_claim (7, 1) [0x61] 2 index_default;
          ix = snd (purge_expired 0 ix);
          ix = preserve_done (7, 1) 2 example_entry ix;
          (_, ix) = preserve_claim (7, 1) [0x61] 2 ix
      in preserve_done (7, 1) 2 (example_entry\<lparr>ve_id := 2, ve_sha256 := [9]\<rparr>) ix)"

lemma purge_race_restores_damage:
  assumes "d = (example_disk [9, 9])\<lparr>copies := (\<lambda>k. if k = 1 then Some [5, 6] else if k = 2 then Some [9, 9] else None)\<rparr>"
  shows "files (snd (snd (restore (take 1) (\<lambda>_. all_ok) (7, 1) race_index d))) [0x61] = Some (Regular [9, 9])"
proof -
  have limits: "saturating_add u64_max 0 2 = 2" "saturating_add u64_max 2 2 = 4"
    by (simp_all add: saturating_add_def u64_max_def)
  have first: "preserve_claim (7, 1) [0x61] 2 index_default =
      (True, \<lparr>by_process = [], claimed = [((7, 1), [[0x61]])], process_bytes = [((7, 1), 2)], total_bytes = 2\<rparr>)"
    by (simp add: preserve_claim_def index_default_def get_or_def limits hm_insert_def hm_remove_def
        MAX_FILES_PER_PROCESS_def MAX_BYTES_PER_PROCESS_def MAX_TOTAL_BYTES_def)
  have exact: "wrapping_replace 2 2 2 = 2" "wrapping_replace 4 2 2 = 4"
    by (simp_all add: wrapping_replace_exact)
  have purge: "snd (purge_expired 0 \<lparr>by_process = [], claimed = cl, process_bytes = pb, total_bytes = 2\<rparr>) =
      \<lparr>by_process = [], claimed = [], process_bytes = [], total_bytes = 2\<rparr>" for cl pb
    by (simp add: purge_expired_def)
  let ?second = "\<lparr>by_process = [((7, 1), [example_entry])], claimed = [], process_bytes = [], total_bytes = 2\<rparr>"
  have done_first: "preserve_done (7, 1) 2 example_entry \<lparr>by_process = [], claimed = [], process_bytes = [], total_bytes = 2\<rparr> = ?second"
    by (simp add: preserve_done_def get_or_def exact hm_insert_def hm_remove_def) (simp add: example_entry_def exact)
  have second: "preserve_claim (7, 1) [0x61] 2 ?second =
      (True, ?second\<lparr>claimed := [((7, 1), [[0x61]])], process_bytes := [((7, 1), 2)], total_bytes := 4\<rparr>)"
    by (simp add: preserve_claim_def get_or_def limits hm_insert_def hm_remove_def
        MAX_FILES_PER_PROCESS_def MAX_BYTES_PER_PROCESS_def MAX_TOTAL_BYTES_def)
  have "get_or [] (by_process race_index) (7, 1) = [example_entry, example_entry\<lparr>ve_id := 2, ve_sha256 := [9]\<rparr>]"
    unfolding race_index_def Let_def first prod.case purge done_first second
    by (simp add: preserve_done_def get_or_def hm_get_Cons hm_insert_def)
  then show ?thesis
    by (simp add: restore_def restore_take_def Let_def assms restore_one_def put_saved_def all_ok_def example_disk_def example_entry_def)
qed

end
