(* ===== verification/Settings.thy ===== *)
theory Settings
  imports Collections "HOL-Library.List_Lexorder"
begin

text \<open>
  The settings of \<^verbatim>\<open>src/config.rs\<close>: their limits, and the exclusions with the comparison keys that are
  computed once and kept. Path texts are bytes. Canonicalisation, the drive letter mapping of
  Windows and the case folding of \<^verbatim>\<open>str::to_lowercase\<close> are parameters (\<open>path_env\<close>); JSON is left out.
\<close>

record path_env =
  canonicalize_with_missing_tail :: "bytes \<Rightarrow> bytes"
  query_dos_device :: "bytes \<Rightarrow> bytes option"
  to_lowercase :: "bytes \<Rightarrow> bytes"

definition SETTINGS_SCHEMA_VERSION :: nat where "SETTINGS_SCHEMA_VERSION = 1"
definition MAX_SETTINGS_BYTES :: nat where "MAX_SETTINGS_BYTES = 1024 * 1024"

record settings =
  schema_version :: nat
  real_time_protection :: bool
  ransomware_protection :: bool
  ransomware_block_mode :: bool
  rollback_documents :: bool
  automatic_quarantine :: bool
  notify_on_detection :: bool
  scan_archives :: bool
  scan_network_drives :: bool
  low_resource_mode :: bool
  max_file_size_mb :: nat
  worker_count :: nat
  definition_update_interval_hours :: nat
  exclusions :: "bytes list"
  cached_keys :: "bytes list option"

definition clamp :: "nat \<Rightarrow> nat \<Rightarrow> nat \<Rightarrow> nat" where
  "clamp lo hi n = max lo (min hi n)"

definition settings_default :: "nat \<Rightarrow> settings" where
  "settings_default logical_cpus =
     \<lparr>schema_version = SETTINGS_SCHEMA_VERSION, real_time_protection = True, ransomware_protection = True,
      ransomware_block_mode = True, rollback_documents = True, automatic_quarantine = True, notify_on_detection = True,
      scan_archives = True, scan_network_drives = False, low_resource_mode = True, max_file_size_mb = 512,
      worker_count = clamp 1 4 (logical_cpus - 1), definition_update_interval_hours = 4, exclusions = [],
      cached_keys = None\<rparr>"

section \<open>Comparison keys\<close>

definition BACKSLASH :: byte where "BACKSLASH = 0x5C"

definition backslashes :: "bytes \<Rightarrow> bytes" where
  "backslashes = map (\<lambda>b. if b = 0x2F then BACKSLASH else b)"

definition after_prefix :: "bytes \<Rightarrow> bytes \<Rightarrow> bytes option" where
  "after_prefix p s = (if starts_with s p then Some (drop (length p) s) else None)"

definition trim_end_separators :: "bytes \<Rightarrow> bytes" where
  "trim_end_separators s = rev (dropWhile (\<lambda>b. b = BACKSLASH) (rev s))"

definition comparison_key :: "path_env \<Rightarrow> bytes \<Rightarrow> bytes" where
  "comparison_key env path =
     (let lower = to_lowercase env (backslashes path);
          verbatim = backslashes (bytes_of ''//?/'');
          key = (case after_prefix (verbatim @ bytes_of ''globalroot'') lower of
                   Some rest \<Rightarrow> rest
                 | None \<Rightarrow>
                     (case after_prefix (verbatim @ backslashes (bytes_of ''unc/'')) lower of
                        Some rest \<Rightarrow> [BACKSLASH, BACKSLASH] @ rest
                      | None \<Rightarrow>
                          (case after_prefix verbatim lower of
                             Some rest \<Rightarrow> rest
                           | None \<Rightarrow>
                               (case after_prefix (backslashes (bytes_of ''/??/'')) lower of
                                  Some rest \<Rightarrow> rest
                                | None \<Rightarrow> lower))))
      in trim_end_separators key)"

definition resolved_key :: "path_env \<Rightarrow> bytes \<Rightarrow> bytes" where
  "resolved_key env path = comparison_key env (canonicalize_with_missing_tail env path)"

definition is_ascii_alphabetic :: "byte \<Rightarrow> bool" where
  "is_ascii_alphabetic b \<longleftrightarrow> (0x41 \<le> b \<and> b \<le> 0x5A) \<or> (0x61 \<le> b \<and> b \<le> 0x7A)"

definition device_form :: "path_env \<Rightarrow> bytes \<Rightarrow> bytes option" where
  "device_form env key =
     (if length key < 2 \<or> key ! 1 \<noteq> 0x3A \<or> \<not> is_ascii_alphabetic (key ! 0) then None
      else case query_dos_device env (take 2 key) of
        None \<Rightarrow> None
      | Some device \<Rightarrow> Some (to_lowercase env device @ drop 2 key))"

definition keys_of :: "path_env \<Rightarrow> bytes list \<Rightarrow> bytes list" where
  "keys_of env paths =
     concat (map (\<lambda>path. let key = resolved_key env path in
       (case device_form env key of Some device \<Rightarrow> [device, key] | None \<Rightarrow> [key])) paths)"

text \<open>\<^verbatim>\<open>get_or_init\<close>: the keys, and the settings that remember them.\<close>

definition exclusion_keys :: "path_env \<Rightarrow> settings \<Rightarrow> bytes list \<times> settings" where
  "exclusion_keys env s =
     (case cached_keys s of
        Some keys \<Rightarrow> (keys, s)
      | None \<Rightarrow> let keys = keys_of env (exclusions s) in (keys, s\<lparr>cached_keys := Some keys\<rparr>))"

definition inside :: "bytes \<Rightarrow> bytes \<Rightarrow> bool" where
  "inside exclusion candidate \<longleftrightarrow>
     (case after_prefix exclusion candidate of None \<Rightarrow> False | Some rest \<Rightarrow> rest = [] \<or> hd rest = BACKSLASH)"

definition is_excluded :: "path_env \<Rightarrow> settings \<Rightarrow> bytes \<Rightarrow> bool" where
  "is_excluded env s path \<longleftrightarrow> list_ex (\<lambda>e. inside e (comparison_key env path)) (fst (exclusion_keys env s))"

section \<open>Changing the settings\<close>

definition add_exclusion :: "path_env \<Rightarrow> bytes \<Rightarrow> settings \<Rightarrow> settings" where
  "add_exclusion env path s =
     (if list_ex (\<lambda>item. resolved_key env item = resolved_key env path) (exclusions s) then s
      else s\<lparr>exclusions := exclusions s @ [path], cached_keys := None\<rparr>)"

text \<open>\<^verbatim>\<open>Vec::dedup_by\<close> on a key: of equal neighbours the first stays.\<close>

fun dedup_key :: "('a \<Rightarrow> 'k) \<Rightarrow> 'a list \<Rightarrow> 'a list" where
  "dedup_key key (x # y # ys) = (if key y = key x then dedup_key key (x # ys) else x # dedup_key key (y # ys))"
| "dedup_key key xs = xs"

definition settings_validate :: "path_env \<Rightarrow> settings \<Rightarrow> settings" where
  "settings_validate env s =
     s\<lparr>schema_version := SETTINGS_SCHEMA_VERSION, max_file_size_mb := clamp 1 4096 (max_file_size_mb s),
       worker_count := clamp 1 16 (worker_count s),
       definition_update_interval_hours := clamp 1 24 (definition_update_interval_hours s),
       exclusions := dedup_key (resolved_key env) (sort_key (resolved_key env) (exclusions s)), cached_keys := None\<rparr>"

text \<open>
  The settings file: absent, no regular file, unreadable, or the first bytes of it. \<open>parse\<close> reads JSON.
\<close>

datatype settings_file = Absent | NotRegular | Unreadable | Content bytes

definition settings_load :: "path_env \<Rightarrow> (bytes \<Rightarrow> settings option) \<Rightarrow> nat \<Rightarrow> settings_file \<Rightarrow> settings option" where
  "settings_load env parse logical_cpus f =
     (case f of
        Absent \<Rightarrow> Some (settings_default logical_cpus)
      | NotRegular \<Rightarrow> None
      | Unreadable \<Rightarrow> None
      | Content bs \<Rightarrow>
          let bs = take (MAX_SETTINGS_BYTES + 1) bs in
          if length bs > MAX_SETTINGS_BYTES then None
          else map_option (\<lambda>s. settings_validate env (s\<lparr>cached_keys := None\<rparr>)) (parse bs))"

definition settings_save :: "path_env \<Rightarrow> (settings \<Rightarrow> bytes) \<Rightarrow> settings \<Rightarrow> bytes" where
  "settings_save env print s = print (settings_validate env s)"

section \<open>Validation keeps the exclusions\<close>

text \<open>The kept keys are those of the exclusions.\<close>

definition keys_fresh :: "path_env \<Rightarrow> settings \<Rightarrow> bool" where
  "keys_fresh env s \<longleftrightarrow> (case cached_keys s of None \<Rightarrow> True | Some keys \<Rightarrow> keys = keys_of env (exclusions s))"

lemma dedup_key_set: "key ` set (dedup_key key xs) = key ` set xs"
  by (induction key xs rule: dedup_key.induct) auto

lemma dedup_key_hd: "xs \<noteq> [] \<Longrightarrow> dedup_key key xs \<noteq> [] \<and> hd (dedup_key key xs) = hd xs"
  by (induction key xs rule: dedup_key.induct) auto

lemma dedup_key_distinct:
  "sorted (map (key :: 'a \<Rightarrow> 'k :: linorder) xs) \<Longrightarrow> sorted_wrt (<) (map key (dedup_key key xs))"
proof (induction key xs rule: dedup_key.induct)
  case (1 key x y ys)
  show ?case
  proof (cases "key y = key x")
    case False
    have "\<forall>k \<in> key ` set (dedup_key key (y # ys)). key x < k"
      unfolding dedup_key_set using "1.prems" False by fastforce
    then show ?thesis using 1 False by auto
  qed (use 1 in auto)
qed simp_all

lemma dedup_key_idem: "sorted_wrt (<) (map (key :: 'a \<Rightarrow> 'k :: linorder) xs) \<Longrightarrow> dedup_key key xs = xs"
  by (induction key xs rule: dedup_key.induct) auto

lemma fst_exclusion_keys: "keys_fresh env s \<Longrightarrow> fst (exclusion_keys env s) = keys_of env (exclusions s)"
  by (auto simp: exclusion_keys_def keys_fresh_def Let_def split: option.splits)

lemma set_keys_of:
  "set (keys_of env paths) =
     (\<Union>key \<in> resolved_key env ` set paths. insert key (set_option (device_form env key)))"
  by (auto simp: keys_of_def Let_def split: option.splits)

lemma is_excluded_keys:
  "keys_fresh env s \<Longrightarrow> is_excluded env s path \<longleftrightarrow>
     (\<exists>e \<in> set (keys_of env (exclusions s)). inside e (comparison_key env path))"
  by (simp add: is_excluded_def fst_exclusion_keys list_ex_iff)

lemma clamp_bounds [simp]: "lo \<le> clamp lo hi n" "lo \<le> hi \<Longrightarrow> clamp lo hi n \<le> hi"
    "lo \<le> hi \<Longrightarrow> clamp lo hi (clamp lo hi n) = clamp lo hi n"
  by (auto simp: clamp_def)

text \<open>
  Validating settings, as every load and save does, brings the numbers into their ranges and
  leaves the protection as it was: exactly the same paths are excluded, each exclusion is listed
  once, and a second validation changes nothing.
\<close>

theorem validate_keeps_exclusions:
  assumes "keys_fresh env s"
  shows "let v = settings_validate env s in
    is_excluded env v path = is_excluded env s path \<and> distinct (map (resolved_key env) (exclusions v)) \<and>
    settings_validate env v = v \<and> 1 \<le> worker_count v \<and> worker_count v \<le> 16"
proof -
  let ?v = "settings_validate env s"
  have sorted: "sorted_wrt (<) (map (resolved_key env) (exclusions ?v))"
    by (simp add: settings_validate_def dedup_key_distinct)
  have "resolved_key env ` set (exclusions ?v) = resolved_key env ` set (exclusions s)"
    by (simp add: settings_validate_def dedup_key_set)
  then have "set (keys_of env (exclusions ?v)) = set (keys_of env (exclusions s))" by (simp only: set_keys_of)
  moreover have "keys_fresh env ?v" by (simp add: keys_fresh_def settings_validate_def)
  ultimately have "is_excluded env ?v path = is_excluded env s path" using assms by (simp add: is_excluded_keys)
  moreover have "settings_validate env ?v = ?v"
  proof -
    have "sort_key (resolved_key env) (exclusions ?v) = exclusions ?v"
      using sorted by (intro sort_key_id_if_sorted) (simp add: strict_sorted_iff)
    then show ?thesis using dedup_key_idem [OF sorted] by (simp add: settings_validate_def)
  qed
  ultimately show ?thesis
    using sorted by (auto simp: strict_sorted_iff settings_validate_def Let_def)
qed

definition example_paths :: path_env where
  "example_paths = \<lparr>canonicalize_with_missing_tail = id, query_dos_device = (\<lambda>_. None), to_lowercase = map to_ascii_lowercase\<rparr>"

definition example_settings :: settings where
  "example_settings = (settings_default 8)\<lparr>worker_count := 99, exclusions := [bytes_of ''C:/Temp'', bytes_of ''c:/temp/'']\<rparr>"

theorem validate_keeps_exclusions_witness:
  "is_excluded example_paths (settings_validate example_paths example_settings) (bytes_of ''C:/temp/x'')
     = is_excluded example_paths example_settings (bytes_of ''C:/temp/x'') \<and>
   worker_count (settings_validate example_paths example_settings) \<le> 16"
  using validate_keeps_exclusions [of example_paths example_settings "bytes_of ''C:/temp/x''"]
  by (simp add: Let_def keys_fresh_def example_settings_def settings_default_def)

end
