(* ===== verification/History.thy ===== *)
theory History
  imports Collections
begin

text \<open>
  The security history of \<^verbatim>\<open>src/history.rs\<close>: a log of one JSON object per line, rotated once it has
  grown past its limit. The encoder and decoder are the third-party crate \<^verbatim>\<open>serde_json\<close> and are
  parameters; which calls of the file system fail is an argument. The writer lock makes appending and
  clearing sequential.
\<close>

section \<open>Model\<close>

definition MAX_LOG_BYTES :: nat where "MAX_LOG_BYTES = 8 * 1024 * 1024"
definition MAX_EVENT_BYTES :: nat where "MAX_EVENT_BYTES = 64 * 1024"
definition DEFAULT_HISTORY_LIMIT :: nat where "DEFAULT_HISTORY_LIMIT = 2000"

datatype event_kind =
  ProtectionStarted | ProtectionStopped | ScanStarted | ScanCompleted | DetectionFound | MovedToQuarantine
  | QuarantineFailed | RestoredFile | UpdateInstalled | UpdateFailed | ErrorEvent | ActivityCleared

record security_event =
  ev_timestamp :: nat
  ev_kind :: event_kind
  ev_summary :: string
  ev_path :: "bytes option"
  ev_threat_name :: "string option"
  ev_risk_score :: "nat option"
  ev_details :: "string option"

definition event_new :: "nat \<Rightarrow> event_kind \<Rightarrow> string \<Rightarrow> security_event" where
  "event_new now kind summary = \<lparr>ev_timestamp = now, ev_kind = kind, ev_summary = summary, ev_path = None,
     ev_threat_name = None, ev_risk_score = None, ev_details = None\<rparr>"

text \<open>What is at the log's path, and the rotated log beside it.\<close>

datatype log_node = LogFile bytes | NotAFile

record history_files =
  log_file :: "log_node option"
  rotated_file :: "bytes option"

text \<open>
  Which calls of \<^verbatim>\<open>append\<close> succeed; a failed write has put the given number of bytes into the file.
\<close>

record append_io =
  io_create_dir :: bool
  io_remove_rotated :: bool
  io_rename :: bool
  io_open :: bool
  io_write_fails_after :: "nat option"
  io_sync :: bool

definition log_size :: "history_files \<Rightarrow> nat" where
  "log_size h = (case log_file h of Some (LogFile bs) \<Rightarrow> length bs | _ \<Rightarrow> 0)"

definition rotate_if_needed :: "append_io \<Rightarrow> history_files \<Rightarrow> bool \<times> history_files" where
  "rotate_if_needed io h =
     (if log_size h < MAX_LOG_BYTES then (True, h)
      else if rotated_file h \<noteq> None \<and> \<not> io_remove_rotated io then (False, h)
      else let h = h\<lparr>rotated_file := None\<rparr> in
        if \<not> io_rename io then (False, h)
        else (True, h\<lparr>log_file := None, rotated_file := (case log_file h of Some (LogFile bs) \<Rightarrow> Some bs | _ \<Rightarrow> None)\<rparr>))"

definition append_bytes :: "append_io \<Rightarrow> bytes \<Rightarrow> bytes \<Rightarrow> bool \<times> bytes" where
  "append_bytes io old bs =
     (case io_write_fails_after io of None \<Rightarrow> (True, old @ bs) | Some k \<Rightarrow> (False, old @ take k bs))"

definition is_synced :: "event_kind \<Rightarrow> bool" where
  "is_synced k \<longleftrightarrow> k = DetectionFound \<or> k = MovedToQuarantine \<or> k = QuarantineFailed"

definition history_append :: "(security_event \<Rightarrow> bytes) \<Rightarrow> append_io \<Rightarrow> security_event \<Rightarrow> history_files \<Rightarrow> bool \<times> history_files" where
  "history_append enc io e h =
     (if \<not> io_create_dir io then (False, h)
      else case rotate_if_needed io h of
        (False, h) \<Rightarrow> (False, h)
      | (True, h) \<Rightarrow>
          if length (enc e) > MAX_EVENT_BYTES then (False, h)
          else if \<not> io_open io \<or> log_file h = Some NotAFile then (False, h)
          else let old = (case log_file h of Some (LogFile bs) \<Rightarrow> bs | _ \<Rightarrow> []);
                   (written, new) = append_bytes io old (enc e @ [0x0A])
               in (written \<and> (is_synced (ev_kind e) \<longrightarrow> io_sync io), h\<lparr>log_file := Some (LogFile new)\<rparr>))"

text \<open>\<^verbatim>\<open>slice::split\<close> at every line feed.\<close>

fun split_lines :: "bytes \<Rightarrow> bytes list" where
  "split_lines [] = [[]]"
| "split_lines (b # bs) =
     (if b = 0x0A then [] # split_lines bs
      else case split_lines bs of l # ls \<Rightarrow> (b # l) # ls | [] \<Rightarrow> [[b]])"

definition keep_event :: "(bytes \<Rightarrow> security_event option) \<Rightarrow> nat \<Rightarrow> security_event list \<Rightarrow> bytes \<Rightarrow> security_event list" where
  "keep_event dec keep evs line =
     (if line = [] \<or> length line > MAX_EVENT_BYTES then evs
      else case dec line of
        None \<Rightarrow> evs
      | Some e \<Rightarrow> if length (evs @ [e]) > keep then tl (evs @ [e]) else evs @ [e])"

definition clamp_limit :: "nat \<Rightarrow> nat" where
  "clamp_limit limit = min (max limit 1) DEFAULT_HISTORY_LIMIT"

text \<open>The file is read as it is; \<open>readable\<close> says whether its metadata and content can be read at all.\<close>

definition history_recent :: "(bytes \<Rightarrow> security_event option) \<Rightarrow> bool \<Rightarrow> nat \<Rightarrow> history_files \<Rightarrow> security_event list option" where
  "history_recent dec readable limit h =
     (case log_file h of
        None \<Rightarrow> Some []
      | Some NotAFile \<Rightarrow> None
      | Some (LogFile bs) \<Rightarrow>
          if \<not> readable \<or> length bs > MAX_LOG_BYTES + MAX_EVENT_BYTES + 1 then None
          else Some (rev (foldl (keep_event dec (clamp_limit limit)) [] (split_lines bs))))"

definition history_clear :: "bool \<Rightarrow> history_files \<Rightarrow> bool \<times> history_files" where
  "history_clear removable h =
     (case log_file h of
        None \<Rightarrow> (True, h)
      | Some NotAFile \<Rightarrow> (False, h)
      | Some (LogFile _) \<Rightarrow> if removable then (True, h\<lparr>log_file := None\<rparr>) else (False, h))"

section \<open>What readers see\<close>

definition line_of :: "(security_event \<Rightarrow> bytes) \<Rightarrow> security_event \<Rightarrow> bytes" where
  "line_of enc e = enc e @ [0x0A]"

text \<open>The log consists of the lines of these events.\<close>

definition log_holds :: "(security_event \<Rightarrow> bytes) \<Rightarrow> security_event list \<Rightarrow> history_files \<Rightarrow> bool" where
  "log_holds enc evs h \<longleftrightarrow>
     (\<forall>e \<in> set evs. length (enc e) \<le> MAX_EVENT_BYTES) \<and>
     (case log_file h of
        None \<Rightarrow> evs = []
      | Some NotAFile \<Rightarrow> False
      | Some (LogFile bs) \<Rightarrow> bs = concat (map (line_of enc) evs) \<and> length bs \<le> MAX_LOG_BYTES + MAX_EVENT_BYTES + 1)"

text \<open>What the log relies on: the encoding of these events is read back and is one non-empty line.\<close>

definition codec_for :: "(security_event \<Rightarrow> bytes) \<Rightarrow> (bytes \<Rightarrow> security_event option) \<Rightarrow> security_event list \<Rightarrow> bool" where
  "codec_for enc dec evs \<longleftrightarrow> list_all (\<lambda>e. dec (enc e) = Some e \<and> 0x0A \<notin> set (enc e) \<and> enc e \<noteq> []) evs"

lemma split_one_line: "0x0A \<notin> set l \<Longrightarrow> split_lines (l @ 0x0A # bs) = l # split_lines bs"
  by (induction l) auto

lemma split_log: "codec_for enc dec evs \<Longrightarrow> split_lines (concat (map (line_of enc) evs)) = map enc evs @ [[]]"
  by (induction evs) (simp_all add: line_of_def split_one_line codec_for_def)

lemma keep_event_enc:
  "codec_for enc dec [e] \<Longrightarrow> length (enc e) \<le> MAX_EVENT_BYTES \<Longrightarrow>
     keep_event dec keep evs (enc e) = (if length evs \<ge> keep then tl (evs @ [e]) else evs @ [e])"
  by (auto simp: keep_event_def codec_for_def)

lemma keep_last:
  "codec_for enc dec evs \<Longrightarrow> 1 \<le> keep \<Longrightarrow> \<forall>e \<in> set evs. length (enc e) \<le> MAX_EVENT_BYTES \<Longrightarrow>
     foldl (keep_event dec keep) [] (map enc evs) = rev (take keep (rev evs))"
proof (induction evs rule: rev_induct)
  case (snoc e evs)
  have c: "codec_for enc dec evs" "codec_for enc dec [e]" using snoc.prems(1) by (simp_all add: codec_for_def)
  show ?case
  proof (cases "keep \<le> length evs")
    case True
    obtain k where k: "keep = Suc k" using snoc.prems(2) by (cases keep) auto
    have "tl (rev (take (Suc k) (rev evs)) @ [e]) = rev (take k (rev evs)) @ [e]"
    proof -
      have "k < length (rev evs)" using True k by simp
      then have "rev (take (Suc k) (rev evs)) = rev evs ! k # rev (take k (rev evs))" by (simp add: take_Suc_conv_app_nth)
      then show ?thesis by simp
    qed
    then show ?thesis using snoc.IH [OF c(1)] snoc.prems True k by (simp add: keep_event_enc [OF c(2)])
  next
    case False
    then show ?thesis using snoc.IH [OF c(1)] snoc.prems by (simp add: keep_event_enc [OF c(2)])
  qed
qed simp

lemma recent_of_log:
  assumes "codec_for enc dec evs" and "log_holds enc evs h"
  shows "history_recent dec True limit h = Some (take (clamp_limit limit) (rev evs))"
proof (cases "log_file h")
  case None
  with assms show ?thesis by (simp add: history_recent_def log_holds_def)
next
  case (Some n)
  have "1 \<le> clamp_limit limit" by (simp add: clamp_limit_def DEFAULT_HISTORY_LIMIT_def)
  then show ?thesis
    using assms Some keep_last [OF assms(1), of "clamp_limit limit"]
    by (auto simp: history_recent_def log_holds_def split_log [OF assms(1)] split: log_node.splits) (simp add: keep_event_def)
qed

text \<open>What an append leaves in the log, and whether the log was rotated first.\<close>

definition rotates :: "history_files \<Rightarrow> bool" where
  "rotates h \<longleftrightarrow> MAX_LOG_BYTES \<le> log_size h"

lemma append_holds:
  assumes "log_holds enc evs h" and "history_append enc io e h = (True, h')"
  shows "log_holds enc ((if rotates h then [] else evs) @ [e]) h'"
proof -
  have small: "log_size h < MAX_LOG_BYTES \<Longrightarrow> log_file h = Some (LogFile bs) \<Longrightarrow> length bs < MAX_LOG_BYTES" for bs
    by (simp add: log_size_def)
  show ?thesis
    using assms small
    by (auto simp: history_append_def rotate_if_needed_def log_holds_def rotates_def append_bytes_def line_of_def Let_def
        split: if_splits option.splits log_node.splits prod.splits)
qed

text \<open>
  The history returns what was written, newest first: after any log of events, an event that is
  appended without an error is the first one \<^verbatim>\<open>recent\<close> returns, followed by the newest of the events
  before it up to the limit (none, if the append rotated the log), and the log never outgrows the size
  a reader accepts. The JSON codec is assumed to read back what it writes, on one line.
\<close>

theorem history_newest_first:
  assumes "codec_for enc dec (evs @ [e])" and "log_holds enc evs h" and "history_append enc io e h = (True, h')"
  shows "history_recent dec True limit h' =
    Some (take (clamp_limit limit) (e # (if rotates h then [] else rev evs)))"
proof -
  have "codec_for enc dec ((if rotates h then [] else evs) @ [e])" using assms(1) by (simp add: codec_for_def)
  from recent_of_log [OF this append_holds [OF assms(2,3)], of limit] show ?thesis by (auto split: if_splits)
qed

definition example_event :: "event_kind \<Rightarrow> security_event" where
  "example_event k = event_new 5 k ''x''"

definition all_io :: append_io where
  "all_io = \<lparr>io_create_dir = True, io_remove_rotated = True, io_rename = True, io_open = True, io_write_fails_after = None, io_sync = True\<rparr>"

definition example_enc :: "security_event \<Rightarrow> bytes" where
  "example_enc e = (if ev_kind e = ScanStarted then [1] else [2])"

definition example_dec :: "bytes \<Rightarrow> security_event option" where
  "example_dec bs = Some (example_event (if bs = [1] then ScanStarted else DetectionFound))"

definition example_log :: history_files where
  "example_log = \<lparr>log_file = Some (LogFile [1, 0x0A]), rotated_file = None\<rparr>"

theorem history_newest_first_witness:
  "history_recent example_dec True 10 (snd (history_append example_enc all_io (example_event DetectionFound) example_log)) =
     Some [example_event DetectionFound, example_event ScanStarted]"
proof -
  have log: "\<not> rotates example_log" by (simp add: rotates_def log_size_def example_log_def MAX_LOG_BYTES_def)
  have kinds: "ev_kind (example_event k) = k" for k by (simp add: example_event_def event_new_def)
  have "codec_for example_enc example_dec ([example_event ScanStarted] @ [example_event DetectionFound])"
    by (simp add: codec_for_def example_enc_def example_dec_def kinds)
  moreover have "log_holds example_enc [example_event ScanStarted] example_log"
    by (simp add: log_holds_def example_log_def line_of_def example_enc_def kinds MAX_EVENT_BYTES_def MAX_LOG_BYTES_def)
  moreover have "fst (history_append example_enc all_io (example_event DetectionFound) example_log)"
    using log by (simp add: history_append_def rotate_if_needed_def rotates_def all_io_def example_enc_def MAX_EVENT_BYTES_def
        append_bytes_def example_log_def)
  then have "history_append example_enc all_io (example_event DetectionFound) example_log =
      (True, snd (history_append example_enc all_io (example_event DetectionFound) example_log))"
    by (simp add: prod_eq_iff)
  ultimately show ?thesis
    using history_newest_first [of example_enc example_dec "[example_event ScanStarted]" "example_event DetectionFound" example_log all_io
        "snd (history_append example_enc all_io (example_event DetectionFound) example_log)" 10] log
    by (simp add: clamp_limit_def DEFAULT_HISTORY_LIMIT_def)
qed

text \<open>Clearing the history removes the log only; a rotated log stays where it is.\<close>

lemma clear_keeps_rotated:
  "rotated_file (snd (history_clear removable h)) = rotated_file h"
  by (simp add: history_clear_def split: option.split log_node.split)

text \<open>
  A write that fails halfway leaves a line without its end, and the next event is written behind it:
  an append that reports success is then not found by any reader.
\<close>

lemma torn_line_swallows_next:
  assumes "dec [7, 1] = None"
  shows "let h = \<lparr>log_file = None, rotated_file = None\<rparr>;
      h1 = snd (history_append (\<lambda>_. [7, 8]) (all_io\<lparr>io_write_fails_after := Some 1\<rparr>) e h);
      (appended, h2) = history_append (\<lambda>_. [1]) all_io e h1
    in appended \<and> history_recent dec True limit h2 = Some []"
  using assms
  by (simp add: history_append_def rotate_if_needed_def log_size_def all_io_def append_bytes_def MAX_EVENT_BYTES_def
      MAX_LOG_BYTES_def history_recent_def keep_event_def)

end
