(* ===== verification/Realtime.thy ===== *)
theory Realtime
  imports Verdict_Cache Behavior Detection Rollback Settings History
begin

text \<open>
  The real-time worker of \<^verbatim>\<open>src/realtime.rs\<close>: what the service does with one notification of the
  minifilter driver. The state holds everything the worker threads share; the engine they scan with
  is taken once and may be replaced while they use it, so engines live in a list and a worker keeps an
  index into it. What Windows answers while one notification is handled (the opened file, signatures,
  clocks, which calls fail) is a record \<open>world\<close>. The file is handled in the parts between which
  other threads may act: \<open>look_up\<close>, \<open>scan_with\<close>, \<open>store_verdict\<close> and \<open>settle\<close>. Poisoned locks, log lines and the
  texts of events are left out, and so is the removal of traces after a quarantine.
\<close>

section \<open>Messages of the driver\<close>

definition BLACKSHARD_PROTOCOL_MAGIC :: nat where "BLACKSHARD_PROTOCOL_MAGIC = 0x35485342"
definition BLACKSHARD_PROTOCOL_VERSION :: nat where "BLACKSHARD_PROTOCOL_VERSION = 6"
definition OPERATION_PROTECTED_WRITE :: nat where "OPERATION_PROTECTED_WRITE = 3"
definition OPERATION_PROTECTED_METADATA :: nat where "OPERATION_PROTECTED_METADATA = 4"
definition MAX_FILE_PATH_LENGTH :: nat where "MAX_FILE_PATH_LENGTH = 1024"

text \<open>\<^verbatim>\<open>size_of\<close> of the C layout: 24 bytes of header, the path, three 64-bit and two 32-bit fields.\<close>

definition NOTIFICATION_SIZE :: nat where
  "NOTIFICATION_SIZE = 24 + 2 * MAX_FILE_PATH_LENGTH + 3 * 8 + 2 * 4"

record notification =
  n_magic :: nat
  n_version :: nat
  n_size :: nat
  n_process_id :: nat
  n_desired_access :: nat
  n_operation :: nat
  n_path_length :: nat
  n_file_path :: "nat list"
  n_file_id :: nat
  n_content_generation :: nat
  n_process_start_key :: nat
  n_must_enforce :: nat
  n_reserved :: nat

record work_item =
  wi_message_id :: nat
  wi_notification :: notification

definition valid_notification :: "notification \<Rightarrow> bool" where
  "valid_notification n \<longleftrightarrow>
     n_magic n = BLACKSHARD_PROTOCOL_MAGIC \<and> n_version n = BLACKSHARD_PROTOCOL_VERSION \<and> n_size n = NOTIFICATION_SIZE \<and>
     1 \<le> n_operation n \<and> n_operation n \<le> 4 \<and> n_file_id n \<noteq> 0 \<and> n_content_generation n \<noteq> 0 \<and>
     n_process_start_key n \<noteq> 0 \<and>
     (n_operation n = 1 \<and> n_must_enforce n = 0 \<or> n_operation n = 2 \<and> n_must_enforce n = 1 \<or>
      3 \<le> n_operation n \<and> n_operation n \<le> 4 \<and> n_must_enforce n = 0) \<and>
     n_reserved n = 0 \<and> n_path_length n > 0 \<and> n_path_length n < MAX_FILE_PATH_LENGTH"

definition notification_path :: "notification \<Rightarrow> bytes" where
  "notification_path n =
     string_of_chars (from_utf16_lossy (take (min (n_path_length n) (MAX_FILE_PATH_LENGTH - 1)) (n_file_path n)))"

definition device_path_to_openable_path :: "bytes \<Rightarrow> bytes" where
  "device_path_to_openable_path path =
     (if starts_with path (backslashed ''/Device/'') then backslashed ''//?/GLOBALROOT'' @ path else path)"

datatype driver_verdict = Allow | Block

definition execution_driver_verdict :: "detection_report \<Rightarrow> driver_verdict" where
  "execution_driver_verdict r = (if should_block r then Block else Allow)"

datatype operational_phase = EarlyBoot | Starting | Ready | Recovering | Stopping | SafeMode | UnknownPhase nat

definition phase_from :: "nat \<Rightarrow> operational_phase" where
  "phase_from v =
     (if v = 0 then EarlyBoot else if v = 1 then Starting else if v = 2 then Ready else if v = 3 then Recovering
      else if v = 4 then Stopping else if v = 5 then SafeMode else UnknownPhase v)"

text \<open>What the driver says about itself, and telling it which generation is ready. \<open>S_OK\<close> is 0.\<close>

definition HEALTH_REPLY_SIZE :: nat where "HEALTH_REPLY_SIZE = 8 + 18 * 8 + 8"

record health_reply =
  h_magic :: nat
  h_version :: nat
  h_size :: nat
  h_counters :: "nat list"
  h_ready_generation :: nat
  h_phase :: nat

datatype port_error = NotConnected | FilterError nat | InvalidRecord | ReservedGeneration

definition driver_health :: "bool \<Rightarrow> nat \<Rightarrow> nat \<Rightarrow> health_reply \<Rightarrow> port_error + (nat list \<times> nat \<times> operational_phase)" where
  "driver_health open_port hresult returned r =
     (if \<not> open_port then Inl NotConnected
      else if hresult \<noteq> 0 then Inl (FilterError hresult)
      else if returned \<noteq> HEALTH_REPLY_SIZE \<or> h_magic r \<noteq> BLACKSHARD_PROTOCOL_MAGIC \<or>
         h_version r \<noteq> BLACKSHARD_PROTOCOL_VERSION \<or> h_size r \<noteq> HEALTH_REPLY_SIZE
      then Inl InvalidRecord
      else Inr (h_counters r, h_ready_generation r, phase_from (h_phase r)))"

definition set_ready_generation :: "nat \<Rightarrow> bool \<Rightarrow> nat \<Rightarrow> nat \<Rightarrow> port_error + unit" where
  "set_ready_generation generation open_port hresult returned =
     (if generation = 0 then Inl ReservedGeneration
      else if \<not> open_port then Inl NotConnected
      else if hresult \<noteq> 0 then Inl (FilterError hresult)
      else if returned \<noteq> 0 then Inl InvalidRecord
      else Inr ())"

section \<open>The shared state\<close>

record realtime_counters =
  scanned :: nat
  suspicious :: nat
  detected :: nat
  blocked_replies :: nat
  quarantined :: nat
  scan_errors :: nat
  bypassed_due_to_load :: nat

definition counters_default :: realtime_counters where
  "counters_default = \<lparr>scanned = 0, suspicious = 0, detected = 0, blocked_replies = 0, quarantined = 0, scan_errors = 0,
     bypassed_due_to_load = 0\<rparr>"

datatype quarantine_result = Isolated | SourceRemained | QuarantineError

datatype connection_state = Connecting | Connected | Disconnected | Stopped

record decision_event =
  de_process_id :: nat
  de_path :: bytes
  de_report :: detection_report
  de_block_accepted :: bool
  de_quarantine :: "quarantine_result option"

datatype realtime_event = Connection connection_state | Decision decision_event | QueueSaturated nat bytes

text \<open>
  What the events are about: kind, path, threat and score. \<open>outbox\<close> lists the events offered to the
  bounded channel of the service, which drops some when it is full.
\<close>

type_synonym history_entry = "event_kind \<times> bytes option \<times> string option \<times> nat option"

record ('r, 'a) realtime_state =
  preferences :: settings
  engines :: "(('r, 'a) detection_engine \<times> breakers) list"
  active :: nat
  learned :: shard_store
  definition_generation :: nat
  cache :: verdict_cache
  ransomware_monitor :: monitor
  process_trust_cache :: "((nat \<times> nat) \<times> process_trust) list"
  vault :: "(vault_index \<times> vault_disk) option"
  counters :: realtime_counters
  history :: "history_entry list"
  outbox :: "realtime_event list"
  replies :: "(nat \<times> driver_verdict \<times> nat) list"

definition reply :: "nat \<Rightarrow> driver_verdict \<Rightarrow> nat \<Rightarrow> ('r, 'a) realtime_state \<Rightarrow> ('r, 'a) realtime_state" where
  "reply message_id verdict risk_score st = st\<lparr>replies := replies st @ [(message_id, verdict, risk_score)]\<rparr>"

definition log_event :: "event_kind \<Rightarrow> bytes option \<Rightarrow> string option \<Rightarrow> nat option \<Rightarrow> ('r, 'a) realtime_state \<Rightarrow> ('r, 'a) realtime_state" where
  "log_event kind path threat score st = st\<lparr>history := history st @ [(kind, path, threat, score)]\<rparr>"

definition emit :: "realtime_event \<Rightarrow> ('r, 'a) realtime_state \<Rightarrow> ('r, 'a) realtime_state" where
  "emit ev st = st\<lparr>outbox := outbox st @ [ev]\<rparr>"

definition count :: "(realtime_counters \<Rightarrow> realtime_counters) \<Rightarrow> ('r, 'a) realtime_state \<Rightarrow> ('r, 'a) realtime_state" where
  "count f st = st\<lparr>counters := f (counters st)\<rparr>"

lemmas effect_defs = reply_def log_event_def emit_def count_def

text \<open>Publishing new definitions: the engine is replaced first, then the generation moves on.\<close>

definition replace_detection_engine :: "('r, 'a) detection_engine \<times> breakers \<Rightarrow> ('r, 'a) realtime_state \<Rightarrow> ('r, 'a) realtime_state" where
  "replace_detection_engine e st = st\<lparr>engines := engines st @ [e], active := length (engines st)\<rparr>"

definition next_generation :: "('r, 'a) realtime_state \<Rightarrow> ('r, 'a) realtime_state" where
  "next_generation st = st\<lparr>definition_generation := (definition_generation st + 1) mod 2 ^ 64\<rparr>"

section \<open>Answers from the cache\<close>

definition verdict_of_cached :: "cache_verdict \<Rightarrow> detection_verdict" where
  "verdict_of_cached v = (case v of CacheClean \<Rightarrow> DClean | CacheMalicious \<Rightarrow> DMalicious | CacheSuspicious \<Rightarrow> DSuspicious
     | CacheScanError \<Rightarrow> DError)"

definition cached_of_verdict :: "detection_verdict \<Rightarrow> cache_verdict" where
  "cached_of_verdict v = (case v of DClean \<Rightarrow> CacheClean | DMalicious \<Rightarrow> CacheMalicious | DSuspicious \<Rightarrow> CacheSuspicious
     | DError \<Rightarrow> CacheScanError)"

definition report_of_cached :: "cached_verdict \<Rightarrow> detection_report" where
  "report_of_cached c =
     \<lparr>d_verdict = verdict_of_cached (cv_verdict c), d_risk_score = cv_risk_score c mod 256, d_confidence = cv_confidence c,
      d_threat_name = cv_threat_name c, d_sha256 = cv_sha256 c, d_file_size = cv_file_size c,
      d_bytes_scanned = cv_bytes_scanned c, d_truncated = cv_truncated c, d_completeness = cv_completeness c,
      d_static_report = None, d_rule_matches = [], d_similarity = [], d_container = None, d_amsi = None, d_error = False,
      d_quarantine_eligible = cv_automatic_quarantine_eligible c, d_block_eligible = cv_execution_block_eligible c\<rparr>"

definition cached_of_report :: "nat \<Rightarrow> int \<Rightarrow> detection_report \<Rightarrow> cached_verdict" where
  "cached_of_report generation now r =
     \<lparr>cv_verdict = cached_of_verdict (d_verdict r), cv_risk_score = d_risk_score r, cv_confidence = d_confidence r,
      cv_threat_name = d_threat_name r, cv_sha256 = d_sha256 r, cv_file_size = d_file_size r,
      cv_bytes_scanned = d_bytes_scanned r, cv_truncated = d_truncated r, cv_definition_generation = generation,
      cv_scanned_at = now, cv_completeness = d_completeness r,
      cv_automatic_quarantine_eligible = d_quarantine_eligible r, cv_execution_block_eligible = d_block_eligible r\<rparr>"

section \<open>An opened or executed file\<close>

text \<open>What the handle of the candidate answers: identity, length, change time, final path, content.\<close>

record candidate =
  c_identity :: "(nat \<times> nat) option"
  c_length :: "nat option"
  c_change_time :: "int option"
  c_final_path :: "bytes option"
  c_content :: opened_file

datatype looked_up = Answered detection_report | ToScan verdict_cache_key nat

definition candidate_key :: "notification \<Rightarrow> nat \<Rightarrow> candidate \<Rightarrow> verdict_cache_key" where
  "candidate_key n volume c =
     \<lparr>volume_serial = volume, file_id = n_file_id n, key_file_size = (case c_length c of Some l \<Rightarrow> l | None \<Rightarrow> 0),
      content_generation = n_content_generation n, change_time = (case c_change_time c of Some t \<Rightarrow> t | None \<Rightarrow> 0)\<rparr>"

definition look_up :: "notification \<Rightarrow> candidate option \<Rightarrow> int \<Rightarrow> ('r, 'a) realtime_state \<Rightarrow> looked_up \<times> ('r, 'a) realtime_state" where
  "look_up n opened now st =
     (case opened of
        None \<Rightarrow> (Answered detection_error, st)
      | Some c \<Rightarrow>
          (case c_identity c of
             None \<Rightarrow> (Answered detection_error, st)
           | Some (volume, fid) \<Rightarrow>
               if fid \<noteq> n_file_id n then (Answered detection_error, st)
               else let key = candidate_key n volume c;
                        generation = definition_generation st;
                        (found, cache') = cache_get (cache st) key generation now;
                        st = st\<lparr>cache := cache'\<rparr>
                    in (case found of
                          Some v \<Rightarrow> (Answered (report_of_cached v), st)
                        | None \<Rightarrow> (ToScan key generation, st))))"

text \<open>
  \<open>i\<close> is the engine the worker took before the lookup. The learned shards are shared by all engines.
\<close>

definition scan_with :: "('r, 'a) detection_env \<Rightarrow> nat \<Rightarrow> opened_file \<Rightarrow> ('r, 'a) realtime_state \<Rightarrow>
    detection_report \<times> ('r, 'a) realtime_state" where
  "scan_with env i f st =
     (let (e, b) = engines st ! i;
          (r, b') = analyze_open_file env (e\<lparr>shards := learned st\<rparr>) f b
      in (r, st\<lparr>engines := (engines st)[i := (e, b')]\<rparr>))"

definition store_verdict :: "verdict_cache_key \<Rightarrow> nat \<Rightarrow> int \<Rightarrow> detection_report \<Rightarrow> ('r, 'a) realtime_state \<Rightarrow> ('r, 'a) realtime_state" where
  "store_verdict key generation now r st =
     st\<lparr>cache := snd (cache_insert (cache st) key (cached_of_report generation now r))\<rparr>"

definition scan_and_store :: "('r, 'a) detection_env \<Rightarrow> nat \<Rightarrow> verdict_cache_key \<Rightarrow> nat \<Rightarrow> opened_file \<Rightarrow> int \<Rightarrow>
    ('r, 'a) realtime_state \<Rightarrow> detection_report \<times> ('r, 'a) realtime_state" where
  "scan_and_store env i key generation f now st =
     (let (r, st) = scan_with env i f st in (r, store_verdict key generation now r st))"

text \<open>Everything after the report is there: the reply, the quarantine, the counters, the events.\<close>

definition or_known :: "string option \<Rightarrow> string" where
  "or_known t = (case t of Some name \<Rightarrow> name | None \<Rightarrow> ''Known.Malware'')"

definition quarantine_candidate :: "quarantine_result \<Rightarrow> bytes \<Rightarrow> detection_report \<Rightarrow> ('r, 'a) realtime_state \<Rightarrow>
    quarantine_result option \<times> ('r, 'a) realtime_state" where
  "quarantine_candidate outcome path r st =
     (if \<not> should_quarantine r \<or> \<not> automatic_quarantine (preferences st) then (None, st)
      else let outcome = (if d_sha256 r = None then QuarantineError else outcome);
               threat = Some (or_known (d_threat_name r));
               score = Some (d_risk_score r)
           in (case outcome of
                 Isolated \<Rightarrow> (Some Isolated,
                   log_event MovedToQuarantine (Some path) threat score (count (\<lambda>c. c\<lparr>quarantined := quarantined c + 1\<rparr>) st))
               | SourceRemained \<Rightarrow> (Some SourceRemained, log_event QuarantineFailed (Some path) threat score st)
               | QuarantineError \<Rightarrow> (Some QuarantineError, log_event QuarantineFailed (Some path) threat score st)))"

definition count_report :: "bool \<Rightarrow> detection_report \<Rightarrow> realtime_counters \<Rightarrow> realtime_counters" where
  "count_report blocked r c =
     (let c = c\<lparr>scanned := scanned c + 1\<rparr>;
          c = (case d_verdict r of
                 DClean \<Rightarrow> c
               | DSuspicious \<Rightarrow> c\<lparr>suspicious := suspicious c + 1\<rparr>
               | DMalicious \<Rightarrow> c\<lparr>detected := detected c + 1\<rparr>
               | DError \<Rightarrow> c\<lparr>scan_errors := scan_errors c + 1\<rparr>)
      in if blocked then c\<lparr>blocked_replies := blocked_replies c + 1\<rparr> else c)"

definition settle :: "work_item \<Rightarrow> bytes \<Rightarrow> bool \<Rightarrow> quarantine_result \<Rightarrow> detection_report \<Rightarrow> ('r, 'a) realtime_state \<Rightarrow>
    ('r, 'a) realtime_state" where
  "settle item path accepted outcome r st =
     (let verdict = execution_driver_verdict r;
          blocked = (verdict = Block \<and> accepted);
          st = reply (wi_message_id item) verdict (d_risk_score r) st;
          (record, st) = quarantine_candidate outcome path r st;
          st = count (count_report blocked r) st
      in if d_verdict r = DClean then st
         else emit (Decision \<lparr>de_process_id = n_process_id (wi_notification item), de_path = path, de_report = r,
                              de_block_accepted = blocked, de_quarantine = record\<rparr>)
                (log_event DetectionFound (Some path) (d_threat_name r) (Some (d_risk_score r)) st))"

section \<open>Terminating a process\<close>

datatype spare_reason = ReservedProcessId | Critical | ProtectedSystemBinary | CreatedAfterEvent

definition NEVER_TERMINATE :: "string list" where
  "NEVER_TERMINATE = [''explorer.exe'', ''searchindexer.exe'', ''searchprotocolhost.exe'', ''searchfilterhost.exe'',
     ''svchost.exe'', ''dllhost.exe'']"

text \<open>
  What Windows knows of a process, each answer absent when its call fails. Whether the image lies
  below the system root, and its file name, are read off the path by components.
\<close>

record process_info =
  p_image :: "bytes option"
  p_image_key :: bytes
  p_in_system_root :: bool
  p_file_name :: "bytes option"
  p_critical :: "bool option"
  p_created_ticks :: "nat option"
  p_terminates :: bool

definition termination_policy :: "nat \<Rightarrow> nat \<Rightarrow> bool \<Rightarrow> bytes option \<Rightarrow> bool \<Rightarrow> nat \<Rightarrow> nat \<Rightarrow> spare_reason + unit" where
  "termination_policy own process_id in_system_root file_name critical created_at observed_at =
     (if process_id = 0 \<or> process_id = 4 \<or> process_id = own then Inl ReservedProcessId
      else if critical then Inl Critical
      else if in_system_root \<and>
        (case file_name of Some name \<Rightarrow> map to_ascii_lowercase name \<in> set (map bytes_of NEVER_TERMINATE) | None \<Rightarrow> False)
      then Inl ProtectedSystemBinary
      else if created_at > observed_at then Inl CreatedAfterEvent
      else Inr ())"

definition created_nanos :: "nat \<Rightarrow> nat" where
  "created_nanos ticks = ((ticks - 116444736000000000) * 100) mod 2 ^ 64"

text \<open>The image of the process if it was terminated.\<close>

definition terminate_if_allowed :: "nat \<Rightarrow> nat \<Rightarrow> nat \<Rightarrow> bytes option \<Rightarrow> process_info option \<Rightarrow> bytes option" where
  "terminate_if_allowed own process_id observed_at expected_image opened =
     (case opened of
        None \<Rightarrow> None
      | Some p \<Rightarrow>
          (case p_image p of
             None \<Rightarrow> None
           | Some img \<Rightarrow>
               if (case expected_image of Some expected \<Rightarrow> p_image_key p \<noteq> expected | None \<Rightarrow> False) then None
               else (case (p_critical p, p_created_ticks p) of
                       (Some critical, Some ticks) \<Rightarrow>
                         (case termination_policy own process_id (p_in_system_root p) (p_file_name p) critical
                                 (created_nanos ticks) observed_at of
                            Inr _ \<Rightarrow> if p_terminates p then Some img else None
                          | Inl _ \<Rightarrow> None)
                     | _ \<Rightarrow> None)))"

text \<open>How many of the running processes with the target's image were terminated.\<close>

definition terminate_processes_running :: "nat \<Rightarrow> nat \<Rightarrow> bytes \<Rightarrow> (nat \<times> process_info option) list \<Rightarrow> nat" where
  "terminate_processes_running own now target processes =
     length (filter (\<lambda>(process_id, opened). terminate_if_allowed own process_id now (Some target) opened \<noteq> None) processes)"

section \<open>A change of a protected document\<close>

datatype authenticode_status = SignedTrusted | Unsigned | SignatureUntrusted | SignatureError

text \<open>What the calls made for one notification answer.\<close>

record world =
  w_stopping :: bool
  w_accepted :: bool
  w_opened :: "candidate option"
  w_now :: int
  w_scanned_at :: int
  w_quarantine :: quarantine_result
  w_millis :: nat
  w_image :: "bytes option"
  w_signature :: authenticode_status
  w_copy_ok :: bool
  w_copy_id :: nat
  w_seconds :: nat
  w_restore :: "nat \<Rightarrow> restore_io"
  w_observed_at :: nat
  w_process :: "process_info option"
  w_image_regular :: "bool option"
  w_image_file :: "opened_file option"
  w_shard_now :: nat
  w_shard_written :: bool
  w_image_quarantine :: quarantine_result

record ('r, 'a) realtime_env =
  rt_detection :: "('r, 'a) detection_env"
  rt_paths :: path_env
  rt_fingerprint :: "bytes \<Rightarrow> nat"
  rt_own_process :: nat

abbreviation rt_sha :: "('r, 'a) realtime_env \<Rightarrow> bytes \<Rightarrow> bytes" where
  "rt_sha env \<equiv> sha256 (de_engine (rt_detection env))"

definition resolve_trust :: "world \<Rightarrow> process_trust" where
  "resolve_trust w =
     (case w_image w of
        None \<Rightarrow> UnknownTrust
      | Some _ \<Rightarrow>
          (case w_signature w of
             SignedTrusted \<Rightarrow> Trusted
           | Unsigned \<Rightarrow> Untrusted
           | SignatureUntrusted \<Rightarrow> Untrusted
           | SignatureError \<Rightarrow> UnknownTrust))"

definition cached_process_trust :: "world \<Rightarrow> nat \<times> nat \<Rightarrow> ('r, 'a) realtime_state \<Rightarrow> process_trust \<times> ('r, 'a) realtime_state" where
  "cached_process_trust w key st =
     (case hm_get (process_trust_cache st) key of
        Some trust \<Rightarrow> (trust, st)
      | None \<Rightarrow>
          let kept = (if length (process_trust_cache st) \<ge> 256 then [] else process_trust_cache st);
              resolved = resolve_trust w
          in (resolved, st\<lparr>process_trust_cache := hm_insert key resolved kept\<rparr>))"

definition action_of :: "notification \<Rightarrow> file_action option" where
  "action_of n =
     (if n_operation n = OPERATION_PROTECTED_WRITE
      then Some (WriteFile (if n_desired_access n = 1 then LowEntropy else if n_desired_access n = 2 then NormalEntropy
                            else if n_desired_access n = 3 then HighEntropy else NotMeasured))
      else if n_operation n = OPERATION_PROTECTED_METADATA then Some Rename
      else None)"

definition process_of :: "notification \<Rightarrow> nat \<times> nat" where
  "process_of n = (n_process_id n, n_process_start_key n)"

definition keep_copy :: "('r, 'a) realtime_env \<Rightarrow> world \<Rightarrow> notification \<Rightarrow> process_trust \<Rightarrow> bytes \<Rightarrow> ('r, 'a) realtime_state \<Rightarrow>
    ('r, 'a) realtime_state" where
  "keep_copy env w n trust path st =
     (if rollback_documents (preferences st) \<and> trust \<noteq> Trusted \<and> action_of n \<noteq> None \<and> n_process_id n \<noteq> 0 \<and>
         n_process_start_key n \<noteq> 0
      then (case vault st of
              None \<Rightarrow> st
            | Some (ix, d) \<Rightarrow>
                st\<lparr>vault := Some (snd (preserve (rt_sha env) (w_copy_ok w) (w_copy_id w) (w_seconds w) (process_of n) path ix d))\<rparr>)
      else st)"

definition undo_ransomware_damage :: "('r, 'a) realtime_env \<Rightarrow> world \<Rightarrow> nat \<times> nat \<Rightarrow> ('r, 'a) realtime_state \<Rightarrow>
    ('r, 'a) realtime_state" where
  "undo_ransomware_damage env w process st =
     (case vault st of
        None \<Rightarrow> st
      | Some (ix, d) \<Rightarrow>
          let (s, v) = restore (rt_sha env) (w_restore w) process ix d;
              st = st\<lparr>vault := Some v\<rparr>
          in if restored s + failed s = 0 then st
             else log_event (if failed s = 0 then RestoredFile else ErrorEvent) None None None st)"

definition LEARNED_THREAT :: string where "LEARNED_THREAT = ''Shard.Behavior.Ransomware''"

definition learn_and_quarantine :: "('r, 'a) realtime_env \<Rightarrow> world \<Rightarrow> bytes \<Rightarrow> ('r, 'a) realtime_state \<Rightarrow> ('r, 'a) realtime_state" where
  "learn_and_quarantine env w img st =
     (let (e, b) = engines st ! active st;
          (r, b') = detection_scan_path (rt_detection env) (e\<lparr>shards := learned st\<rparr>) (w_image_regular w) (w_image_file w) b;
          st = st\<lparr>engines := (engines st)[active st := (e, b')]\<rparr>
      in case d_sha256 r of
           None \<Rightarrow> st
         | Some sha \<Rightarrow>
             let (ok, store) = learn (w_shard_now w) (w_shard_written w) sha LEARNED_THREAT (learned st);
                 st = st\<lparr>learned := store\<rparr>;
                 st = (case ok of Inr _ \<Rightarrow> next_generation st | Inl _ \<Rightarrow> st)
             in log_event (if w_image_quarantine w = Isolated then MovedToQuarantine else QuarantineFailed)
                  (Some img) (Some LEARNED_THREAT) (Some 100) st)"

definition punish :: "('r, 'a) realtime_env \<Rightarrow> world \<Rightarrow> notification \<Rightarrow> process_trust \<Rightarrow> ('r, 'a) realtime_state \<Rightarrow>
    ('r, 'a) realtime_state" where
  "punish env w n trust st =
     (let st = count (\<lambda>c. c\<lparr>blocked_replies := blocked_replies c + 1\<rparr>) st;
          terminated = (if n_process_id n \<noteq> 0
            then terminate_if_allowed (rt_own_process env) (n_process_id n) (w_observed_at w) None (w_process w) else None);
          st = undo_ransomware_damage env w (process_of n) st
      in case (terminated, trust) of
           (Some img, Untrusted) \<Rightarrow> learn_and_quarantine env w img st
         | _ \<Rightarrow> st)"

definition observation_of :: "world \<Rightarrow> notification \<Rightarrow> bytes \<Rightarrow> process_trust \<Rightarrow> bool \<Rightarrow> observation" where
  "observation_of w n path trust block_mode =
     \<lparr>o_process = process_of n, o_path = path, o_trust = trust, o_block_mode = block_mode, o_now = w_millis w,
      o_action = action_of n\<rparr>"

definition handle_protected_modification :: "('r, 'a) realtime_env \<Rightarrow> world \<Rightarrow> work_item \<Rightarrow> ('r, 'a) realtime_state \<Rightarrow>
    ('r, 'a) realtime_state" where
  "handle_protected_modification env w item st =
     (let n = wi_notification item;
          path = notification_path n;
          prefs = preferences st
      in if \<not> (real_time_protection prefs \<and> ransomware_protection prefs \<and> \<not> is_excluded (rt_paths env) prefs path)
         then reply (wi_message_id item) Allow 0 st
         else
           let (trust, st) = cached_process_trust w (process_of n) st;
               st = keep_copy env w n trust path st;
               (decision, m) = observe_at (rt_fingerprint env)
                 (observation_of w n path trust (ransomware_block_mode prefs)) (ransomware_monitor st);
               st = st\<lparr>ransomware_monitor := m\<rparr>;
               st = reply (wi_message_id item) (if block decision then Block else Allow)
                      (if alert decision \<or> block decision then 95 else 0) st;
               st = (if block decision \<and> w_accepted w then punish env w n trust st else st)
           in if \<not> alert decision then st
              else let r = ransomware_behavior (block decision) in
                emit (Decision \<lparr>de_process_id = n_process_id n, de_path = path, de_report = r,
                                de_block_accepted = block decision \<and> w_accepted w, de_quarantine = None\<rparr>)
                  (log_event DetectionFound (Some path) (d_threat_name r) (Some (d_risk_score r)) st))"

section \<open>The worker\<close>

definition scans_file :: "('r, 'a) realtime_env \<Rightarrow> notification \<Rightarrow> settings \<Rightarrow> bool" where
  "scans_file env n prefs \<longleftrightarrow>
     real_time_protection prefs \<and>
     \<not> is_excluded (rt_paths env) prefs (device_path_to_openable_path (notification_path n))"

definition shown_path :: "world \<Rightarrow> notification \<Rightarrow> bytes" where
  "shown_path w n =
     (case w_opened w of
        None \<Rightarrow> notification_path n
      | Some c \<Rightarrow> (case c_final_path c of Some p \<Rightarrow> p | None \<Rightarrow> notification_path n))"

definition handle_file :: "('r, 'a) realtime_env \<Rightarrow> world \<Rightarrow> work_item \<Rightarrow> ('r, 'a) realtime_state \<Rightarrow> ('r, 'a) realtime_state" where
  "handle_file env w item st =
     (let n = wi_notification item;
          engine = active st;
          (looked, st) = look_up n (w_opened w) (w_now w) st;
          (r, st) = (case looked of
              Answered r \<Rightarrow> (r, st)
            | ToScan key generation \<Rightarrow>
                (case w_opened w of
                   None \<Rightarrow> (detection_error, st)
                 | Some c \<Rightarrow> scan_and_store (rt_detection env) engine key generation (c_content c) (w_scanned_at w) st))
      in settle item (shown_path w n) (w_accepted w) (w_quarantine w) r st)"

text \<open>The body of the loop of \<^verbatim>\<open>realtime_worker\<close> for one work item.\<close>

definition realtime_item :: "('r, 'a) realtime_env \<Rightarrow> world \<Rightarrow> work_item \<Rightarrow> ('r, 'a) realtime_state \<Rightarrow> ('r, 'a) realtime_state" where
  "realtime_item env w item st =
     (let n = wi_notification item in
      if w_stopping w then reply (wi_message_id item) Allow 0 st
      else if n_operation n = OPERATION_PROTECTED_WRITE \<or> n_operation n = OPERATION_PROTECTED_METADATA
      then handle_protected_modification env w item st
      else if \<not> scans_file env n (preferences st) then reply (wi_message_id item) Allow 0 st
      else handle_file env w item st)"

section \<open>What each part leaves alone\<close>

lemma effects_frame [simp]:
  "replies (log_event k p t s st) = replies st" "replies (emit ev st) = replies st" "replies (count f st) = replies st"
  "replies (reply i v s' st) = replies st @ [(i, v, s')]"
  "learned (log_event k p t s st) = learned st" "learned (emit ev st) = learned st" "learned (count f st) = learned st"
  "learned (reply i v s' st) = learned st"
  "vault (log_event k p t s st) = vault st" "vault (emit ev st) = vault st" "vault (count f st) = vault st"
  "vault (reply i v s' st) = vault st"
  "cache (log_event k p t s st) = cache st" "cache (emit ev st) = cache st" "cache (count f st) = cache st"
  "cache (reply i v s' st) = cache st"
  "definition_generation (log_event k p t s st) = definition_generation st"
  "definition_generation (emit ev st) = definition_generation st"
  "definition_generation (count f st) = definition_generation st"
  "definition_generation (reply i v s' st) = definition_generation st"
  "preferences (log_event k p t s st) = preferences st" "preferences (emit ev st) = preferences st"
  "preferences (count f st) = preferences st" "preferences (reply i v s' st) = preferences st"
  by (simp_all add: effect_defs)

lemma quarantine_candidate_frame:
  assumes "quarantine_candidate outcome path r st = (q, st')"
  shows "replies st' = replies st" "learned st' = learned st" "vault st' = vault st" "cache st' = cache st"
    "definition_generation st' = definition_generation st" "preferences st' = preferences st"
  using assms by (auto simp: quarantine_candidate_def Let_def split: if_splits quarantine_result.splits)

lemma settle_frame:
  "replies (settle item path ok outcome r st) =
     replies st @ [(wi_message_id item, execution_driver_verdict r, d_risk_score r)]"
  "learned (settle item path ok outcome r st) = learned st"
  "vault (settle item path ok outcome r st) = vault st"
  "cache (settle item path ok outcome r st) = cache st"
  "definition_generation (settle item path ok outcome r st) = definition_generation st"
  by (auto simp: settle_def Let_def dest: quarantine_candidate_frame split: prod.split)

lemma look_up_frame:
  assumes "look_up n opened now st = (l, st')"
  shows "replies st' = replies st" "learned st' = learned st" "vault st' = vault st"
    "definition_generation st' = definition_generation st" "preferences st' = preferences st" "engines st' = engines st"
    "active st' = active st"
  using assms by (auto simp: look_up_def Let_def split: option.splits prod.splits if_splits)

lemma scan_with_frame:
  assumes "scan_with env i f st = (r, st')"
  shows "replies st' = replies st" "learned st' = learned st" "vault st' = vault st" "cache st' = cache st"
    "definition_generation st' = definition_generation st" "preferences st' = preferences st"
  using assms by (auto simp: scan_with_def Let_def split: prod.splits)

lemma store_verdict_frame [simp]:
  "replies (store_verdict key generation now r st) = replies st"
  "learned (store_verdict key generation now r st) = learned st"
  "vault (store_verdict key generation now r st) = vault st"
  "definition_generation (store_verdict key generation now r st) = definition_generation st"
  "preferences (store_verdict key generation now r st) = preferences st"
  by (simp_all add: store_verdict_def)

lemma scan_and_store_frame:
  assumes "scan_and_store env i key generation f now st = (r, st')"
  shows "replies st' = replies st" "learned st' = learned st" "vault st' = vault st"
    "definition_generation st' = definition_generation st" "preferences st' = preferences st"
proof -
  obtain st1 where s: "scan_with env i f st = (r, st1)" "st' = store_verdict key generation now r st1"
    using assms by (auto simp: scan_and_store_def split: prod.splits)
  from scan_with_frame [OF s(1)] s(2)
  show "replies st' = replies st" "learned st' = learned st" "vault st' = vault st"
    "definition_generation st' = definition_generation st" "preferences st' = preferences st"
    by simp_all
qed

lemma handle_file_report:
  obtains r st' where "handle_file env w item st = settle item (shown_path w (wi_notification item)) (w_accepted w) (w_quarantine w) r st'"
    "replies st' = replies st" "learned st' = learned st" "vault st' = vault st"
proof -
  obtain l st1 where l: "look_up (wi_notification item) (w_opened w) (w_now w) st = (l, st1)" by fastforce
  show thesis
  proof (cases l)
    case (Answered r)
    then show thesis using that [of r st1] l look_up_frame [OF l] by (simp add: handle_file_def)
  next
    case (ToScan key generation)
    show thesis
    proof (cases "w_opened w")
      case None
      then show thesis using that [of detection_error st1] l ToScan look_up_frame [OF l] by (simp add: handle_file_def)
    next
      case (Some c)
      obtain r st2 where s: "scan_and_store (rt_detection env) (active st) key generation (c_content c) (w_scanned_at w) st1 = (r, st2)"
        by fastforce
      then show thesis using that [of r st2] l ToScan Some look_up_frame [OF l] scan_and_store_frame [OF s]
        by (simp add: handle_file_def)
    qed
  qed
qed

lemma cached_process_trust_frame:
  assumes "cached_process_trust w key st = (trust, st')"
  shows "replies st' = replies st" "learned st' = learned st" "vault st' = vault st" "preferences st' = preferences st"
  using assms by (auto simp: cached_process_trust_def Let_def split: option.splits if_splits)

lemma keep_copy_frame [simp]:
  "replies (keep_copy env w n trust path st) = replies st"
  "learned (keep_copy env w n trust path st) = learned st"
  "ransomware_monitor (keep_copy env w n trust path st) = ransomware_monitor st"
  by (auto simp: keep_copy_def split: option.split)

lemma undo_frame [simp]:
  "replies (undo_ransomware_damage env w process st) = replies st"
  "learned (undo_ransomware_damage env w process st) = learned st"
  by (auto simp: undo_ransomware_damage_def Let_def split: option.split prod.split)

lemma learn_and_quarantine_replies [simp]: "replies (learn_and_quarantine env w img st) = replies st"
  by (auto simp: learn_and_quarantine_def Let_def next_generation_def split: prod.split option.split sum.split)

lemma punish_replies [simp]: "replies (punish env w n trust st) = replies st"
  by (auto simp: punish_def Let_def split: option.split process_trust.split)

lemma punish_learned:
  assumes "learned (punish env w n trust st) \<noteq> learned st"
  shows "trust = Untrusted \<and>
    terminate_if_allowed (rt_own_process env) (n_process_id n) (w_observed_at w) None (w_process w) \<noteq> None"
  using assms by (auto simp: punish_def Let_def split: option.splits process_trust.splits if_splits)

text \<open>
  How a part of the ransomware handler treats what the file workers rely on: the cache is left alone,
  and what was learned changes only together with the generation.
\<close>

definition keeps_promise :: "('r, 'a) realtime_state \<Rightarrow> ('r, 'a) realtime_state \<Rightarrow> bool" where
  "keeps_promise st st' \<longleftrightarrow>
     cache st' = cache st \<and> (shards_ok (learned st) \<longrightarrow> shards_ok (learned st')) \<and>
     (definition_generation st' = definition_generation st \<and> learned st' = learned st \<or>
      definition_generation st' = (definition_generation st + 1) mod 2 ^ 64)"

lemma learn_failed: "learn now writes sha threat st = (Inl e, st') \<Longrightarrow> st' = st"
  by (auto simp: learn_def Let_def split: if_splits)

lemma learn_and_quarantine_promise: "keeps_promise st (learn_and_quarantine env w img st)"
proof -
  obtain e b r b' where eb: "engines st ! active st = (e, b)" and
    r: "detection_scan_path (rt_detection env) (e\<lparr>shards := learned st\<rparr>) (w_image_regular w) (w_image_file w) b = (r, b')"
    by fastforce
  show ?thesis
  proof (cases "d_sha256 r")
    case None
    then show ?thesis by (simp add: keeps_promise_def learn_and_quarantine_def eb r)
  next
    case (Some sha)
    obtain ok store where l: "learn (w_shard_now w) (w_shard_written w) sha LEARNED_THREAT (learned st) = (ok, store)" by fastforce
    have "shards_ok store" if "shards_ok (learned st)"
      using local_shards.add_valid [OF that, of "w_shard_now w" "w_shard_written w" sha LEARNED_THREAT] l by simp
    then show ?thesis
      using l learn_failed
      by (cases ok) (auto simp: keeps_promise_def learn_and_quarantine_def eb r Some next_generation_def)
  qed
qed

lemma punish_promise: "keeps_promise st (punish env w n trust st)"
proof -
  let ?st = "undo_ransomware_damage env w (process_of n) (count (\<lambda>c. c\<lparr>blocked_replies := blocked_replies c + 1\<rparr>) st)"
  have undo: "cache ?st = cache st" "definition_generation ?st = definition_generation st" "learned ?st = learned st"
    by (auto simp: undo_ransomware_damage_def Let_def split: option.split prod.split)
  then have "keeps_promise st (learn_and_quarantine env w img ?st)" for img
    using learn_and_quarantine_promise [of ?st env w img] by (simp add: keeps_promise_def)
  then show ?thesis
    using undo by (auto simp: punish_def Let_def keeps_promise_def split: option.splits process_trust.splits if_splits)
qed

lemma promise_effects [simp]:
  "keeps_promise st (emit ev s) = keeps_promise st s" "keeps_promise st (log_event k p t sc s) = keeps_promise st s"
  "keeps_promise st (reply i v score s) = keeps_promise st s"
  by (simp_all add: keeps_promise_def)

lemma handle_protected_modification_promise: "keeps_promise st (handle_protected_modification env w item st)"
proof -
  obtain trust st1 where t: "cached_process_trust w (process_of (wi_notification item)) st = (trust, st1)" by fastforce
  have st1: "cache st1 = cache st" "definition_generation st1 = definition_generation st"
    using t by (auto simp: cached_process_trust_def Let_def split: option.splits if_splits)
  have kept: "cache (keep_copy env w n tr p s) = cache s" "definition_generation (keep_copy env w n tr p s) = definition_generation s"
    for n tr p and s :: "('a, 'b) realtime_state"
    by (auto simp: keep_copy_def split: option.split)
  have same: "keeps_promise st s" if "cache s = cache st" "definition_generation s = definition_generation st" "learned s = learned st" for s
    using that by (simp add: keeps_promise_def)
  have "keeps_promise st (punish env w n trust s)"
    if "cache s = cache st" "definition_generation s = definition_generation st" "learned s = learned st" for n s
    using punish_promise [of s env w n trust] that by (simp add: keeps_promise_def)
  note this [simp] and same [simp]
  show ?thesis
    using cached_process_trust_frame [OF t]
    by (simp add: handle_protected_modification_def Let_def t st1 kept split: prod.split)
qed

text \<open>The digest a report carries is that of the whole content.\<close>

lemma merge_inspection_sha256: "d_sha256 (merge_inspection i r) = d_sha256 r"
  by (auto simp: merge_inspection_def apply_structure_def apply_finding_def Let_def split: option.split detection_verdict.split)

lemma open_file_sha256:
  assumes "stable_file f bs"
  shows "d_sha256 (fst (analyze_open_file env e f st)) = Some (hex_sha256 (sha256 (de_engine env) bs))"
proof -
  obtain n digests where a: "analyze_open_file env e f st =
      analyze_sample env e (take (max_read_bytes (config (static_engine e))) bs) n digests st"
      and d: "wf_sha256 digests = sha256 (de_engine env) bs"
    using analyze_stable_file [OF assms] by metis
  obtain r c failed st' where s: "fst (analyze_open_file env e f st) =
      fst (with_container_inspection env e Consult (take (max_read_bytes (config (static_engine e))) bs) r st')"
      "r = record_rule_failure failed (resolve_cascade c)"
      "r_sha256 (c_static c) = Some (hex_sha256 (sha256 (de_engine env) bs))"
    unfolding a d [symmetric] by (rule analyze_sample_cases)
  have "d_sha256 r = Some (hex_sha256 (sha256 (de_engine env) bs))"
    using s(2,3) by (simp add: record_rule_failure_def resolve_cascade_def Let_def split: prod.split)
  then show ?thesis
    unfolding s(1) by (auto simp: with_container_inspection_def merge_inspection_sha256 Let_def split: option.split prod.split)
qed

lemma is_sha256_hex_hex: "length digest = 32 \<Longrightarrow> is_sha256_hex (hex_sha256 digest)"
proof -
  have "n < 16 \<Longrightarrow> is_hexdigit_char (hex_char n)" for n
    by (auto simp: is_hexdigit_char_def hex_char_def Let_def)
  then have "list_all is_hexdigit_char (hex_sha256 digest)"
    by (induction digest) (simp_all add: hex_sha256_def nibbles_bound)
  then show "length digest = 32 \<Longrightarrow> is_sha256_hex (hex_sha256 digest)"
    by (simp add: is_sha256_hex_def length_hex_sha256)
qed

lemma learn_finds:
  assumes "is_sha256_hex d" and "shards_ok st" and "length (by_digest st) < MAX_SHARDS"
  shows "\<exists>new. fst (learn now w d n st) = Inr new" "shards_lookup (snd (learn now w d n st)) d \<noteq> None"
proof -
  show "\<exists>new. fst (learn now w d n st) = Inr new" using assms by (auto simp: learn_def Let_def)
  show "shards_lookup (snd (learn now w d n st)) d \<noteq> None"
  proof (cases "fst (learn now w d n st) = Inr True")
    case True
    then show ?thesis using local_shards.add_new [OF assms(2) True, of d] by simp
  next
    case False
    then show ?thesis using assms by (auto simp: learn_def Let_def shards_lookup_get split: if_splits)
  qed
qed

section \<open>Answers\<close>

text \<open>What the driver is told about a change of a document.\<close>

definition modification_decision :: "('r, 'a) realtime_env \<Rightarrow> world \<Rightarrow> notification \<Rightarrow> ('r, 'a) realtime_state \<Rightarrow> behavior_decision" where
  "modification_decision env w n st =
     fst (observe_at (rt_fingerprint env)
       (observation_of w n (notification_path n) (fst (cached_process_trust w (process_of n) st)) (ransomware_block_mode (preferences st)))
       (ransomware_monitor st))"

definition guards_documents :: "('r, 'a) realtime_env \<Rightarrow> notification \<Rightarrow> settings \<Rightarrow> bool" where
  "guards_documents env n prefs \<longleftrightarrow>
     real_time_protection prefs \<and> ransomware_protection prefs \<and> \<not> is_excluded (rt_paths env) prefs (notification_path n)"

lemma handle_protected_modification_replies:
  "replies (handle_protected_modification env w item st) =
     replies st @ [(wi_message_id item,
       if guards_documents env (wi_notification item) (preferences st) \<and> block (modification_decision env w (wi_notification item) st)
       then Block else Allow,
       if guards_documents env (wi_notification item) (preferences st) \<and>
          (alert (modification_decision env w (wi_notification item) st) \<or> block (modification_decision env w (wi_notification item) st))
       then 95 else 0)]"
proof -
  obtain trust st1 where t: "cached_process_trust w (process_of (wi_notification item)) st = (trust, st1)" by fastforce
  have m1: "ransomware_monitor st1 = ransomware_monitor st"
    using t by (auto simp: cached_process_trust_def Let_def split: option.splits if_splits)
  show ?thesis
    using cached_process_trust_frame [OF t]
    by (simp add: handle_protected_modification_def Let_def t m1 modification_decision_def guards_documents_def split: prod.split)
qed

lemma realtime_item_replies: "map fst (replies (realtime_item env w item st)) = map fst (replies st) @ [wi_message_id item]"
proof -
  obtain r st' where f: "handle_file env w item st =
      settle item (shown_path w (wi_notification item)) (w_accepted w) (w_quarantine w) r st'" "replies st' = replies st"
    by (rule handle_file_report)
  show ?thesis by (simp add: realtime_item_def Let_def f settle_frame handle_protected_modification_replies)
qed

text \<open>
  Every notification a worker handles is answered exactly once, whatever fails on the way: the
  driver never waits for a second answer and never gets one. The answer stops the operation only while
  protection is on and the path is not excluded, and for a change of a document only if the ransomware
  monitor decided to stop the program.
\<close>

theorem item_answered_once:
  "\<exists>verdict score. replies (realtime_item env w item st) = replies st @ [(wi_message_id item, verdict, score)] \<and>
     (verdict = Block \<longrightarrow> \<not> w_stopping w \<and> real_time_protection (preferences st) \<and>
        (if n_operation (wi_notification item) \<in> {OPERATION_PROTECTED_WRITE, OPERATION_PROTECTED_METADATA}
         then guards_documents env (wi_notification item) (preferences st) \<and>
              block (modification_decision env w (wi_notification item) st)
         else scans_file env (wi_notification item) (preferences st)))"
proof -
  obtain r st' where f: "handle_file env w item st =
      settle item (shown_path w (wi_notification item)) (w_accepted w) (w_quarantine w) r st'" "replies st' = replies st"
    by (rule handle_file_report)
  show ?thesis
    by (simp add: realtime_item_def Let_def f settle_frame handle_protected_modification_replies)
       (simp add: guards_documents_def scans_file_def)
qed

text \<open>
  (C20) A program is learned as malware only after it was convicted: only for a change of a guarded
  document, when the monitor decided to block, the driver accepted the block, the program carries no
  valid signature and its process was terminated. So neither opening nor running a file, nor a signed
  program, ever adds to the shards.
\<close>

theorem learning_only_after_conviction:
  assumes "learned (realtime_item env w item st) \<noteq> learned st"
  shows "n_operation (wi_notification item) \<in> {OPERATION_PROTECTED_WRITE, OPERATION_PROTECTED_METADATA} \<and>
    guards_documents env (wi_notification item) (preferences st) \<and>
    block (modification_decision env w (wi_notification item) st) \<and> w_accepted w \<and>
    fst (cached_process_trust w (process_of (wi_notification item)) st) = Untrusted \<and>
    terminate_if_allowed (rt_own_process env) (n_process_id (wi_notification item)) (w_observed_at w) None (w_process w) \<noteq> None"
proof -
  obtain r st' where "handle_file env w item st =
      settle item (shown_path w (wi_notification item)) (w_accepted w) (w_quarantine w) r st'" "learned st' = learned st"
    by (rule handle_file_report)
  then have op: "n_operation (wi_notification item) \<in> {OPERATION_PROTECTED_WRITE, OPERATION_PROTECTED_METADATA}"
      "learned (handle_protected_modification env w item st) \<noteq> learned st"
    using assms by (auto simp: realtime_item_def Let_def settle_frame split: if_splits)
  obtain trust st1 where t: "cached_process_trust w (process_of (wi_notification item)) st = (trust, st1)" by fastforce
  have m1: "ransomware_monitor st1 = ransomware_monitor st"
    using t by (auto simp: cached_process_trust_def Let_def split: option.splits if_splits)
  let ?convicted = "trust = Untrusted \<and> terminate_if_allowed (rt_own_process env) (n_process_id (wi_notification item))
    (w_observed_at w) None (w_process w) \<noteq> None"
  have "?convicted"
  proof (rule ccontr)
    assume "\<not> ?convicted"
    then have "learned (punish env w (wi_notification item) trust s) = learned s" for s :: "('a, 'b) realtime_state"
      using punish_learned [of env w "wi_notification item" trust s] by blast
    with op(2) cached_process_trust_frame [OF t] show False
      by (simp add: handle_protected_modification_def Let_def t split: if_splits prod.splits)
  qed
  moreover have "guards_documents env (wi_notification item) (preferences st)"
      "block (modification_decision env w (wi_notification item) st) \<and> w_accepted w"
    using op(2) cached_process_trust_frame [OF t]
    by (auto simp: handle_protected_modification_def Let_def t m1 modification_decision_def guards_documents_def
        split: if_splits prod.splits)
  ultimately show ?thesis using op(1) t by simp
qed

lemma conviction_learns:
  assumes "n_operation (wi_notification item) \<in> {OPERATION_PROTECTED_WRITE, OPERATION_PROTECTED_METADATA}"
    and "\<not> w_stopping w" and "guards_documents env (wi_notification item) (preferences st)"
    and "block (modification_decision env w (wi_notification item) st)" and "w_accepted w"
    and "fst (cached_process_trust w (process_of (wi_notification item)) st) = Untrusted"
    and "n_process_id (wi_notification item) \<noteq> 0"
    and "terminate_if_allowed (rt_own_process env) (n_process_id (wi_notification item)) (w_observed_at w) None (w_process w) \<noteq> None"
    and "w_image_regular w = Some True" and "w_image_file w = Some f" and "stable_file f bs"
    and "length (rt_sha env bs) = 32" and "shards_ok (learned st)" and "length (by_digest (learned st)) < MAX_SHARDS"
  shows "shards_lookup (learned (realtime_item env w item st)) (hex_sha256 (rt_sha env bs)) \<noteq> None \<and>
    definition_generation (realtime_item env w item st) = (definition_generation st + 1) mod 2 ^ 64"
proof -
  let ?n = "wi_notification item"
  obtain st1 where t: "cached_process_trust w (process_of ?n) st = (Untrusted, st1)" using assms(6) by (metis prod.collapse)
  have m1: "ransomware_monitor st1 = ransomware_monitor st" "definition_generation st1 = definition_generation st"
    using t by (auto simp: cached_process_trust_def Let_def split: option.splits if_splits)
  have learns: "shards_lookup (learned (learn_and_quarantine env w img s)) (hex_sha256 (rt_sha env bs)) \<noteq> None \<and>
      definition_generation (learn_and_quarantine env w img s) = (definition_generation st + 1) mod 2 ^ 64"
    if s: "learned s = learned st" "definition_generation s = definition_generation st" for img and s :: "('a, 'b) realtime_state"
  proof -
    obtain e b where eb: "engines s ! active s = (e, b)" by fastforce
    obtain r b' where r: "analyze_open_file (rt_detection env) (e\<lparr>shards := learned st\<rparr>) f b = (r, b')" by fastforce
    then have sha: "d_sha256 r = Some (hex_sha256 (rt_sha env bs))"
      using open_file_sha256 [OF assms(11), of "rt_detection env" "e\<lparr>shards := learned st\<rparr>" b] by simp
    show ?thesis
      using learn_finds [OF is_sha256_hex_hex [OF assms(12)] assms(13,14), of "w_shard_now w" "w_shard_written w" LEARNED_THREAT]
      by (auto simp: learn_and_quarantine_def eb s detection_scan_path_def assms(9,10) r sha next_generation_def split: prod.splits)
  qed
  have undo: "definition_generation (undo_ransomware_damage env w process s) = definition_generation s" for process and s :: "('a, 'b) realtime_state"
    by (auto simp: undo_ransomware_damage_def Let_def split: option.split prod.split)
  have kept: "definition_generation (keep_copy env w ?n tr p s) = definition_generation s" for tr p and s :: "('a, 'b) realtime_state"
    by (auto simp: keep_copy_def split: option.split)
  obtain img where img: "terminate_if_allowed (rt_own_process env) (n_process_id ?n) (w_observed_at w) None (w_process w) = Some img"
    using assms(8) by blast
  have "shards_lookup (learned (punish env w ?n Untrusted s)) (hex_sha256 (rt_sha env bs)) \<noteq> None \<and>
      definition_generation (punish env w ?n Untrusted s) = (definition_generation st + 1) mod 2 ^ 64"
    if "learned s = learned st" "definition_generation s = definition_generation st" for s :: "('a, 'b) realtime_state"
    using learns that by (simp add: punish_def Let_def img assms(7) undo)
  then show ?thesis
    using assms(1-5) cached_process_trust_frame [OF t]
    by (auto simp: realtime_item_def handle_protected_modification_def Let_def t m1 kept modification_decision_def guards_documents_def
        split: prod.split)
qed

text \<open>
  A convicted program is learned: when the monitor blocks a program without a valid signature, the
  driver accepts the block, the process is terminated and its image can be read, then the digest of the
  whole image is among the shards afterwards, and the definition generation has moved on, which
  invalidates every verdict cached so far.
\<close>

theorem convicted_program_learned:
  assumes "n_operation (wi_notification item) \<in> {OPERATION_PROTECTED_WRITE, OPERATION_PROTECTED_METADATA}"
    and "\<not> w_stopping w" and "guards_documents env (wi_notification item) (preferences st)"
    and "block (modification_decision env w (wi_notification item) st)" and "w_accepted w"
    and "fst (cached_process_trust w (process_of (wi_notification item)) st) = Untrusted"
    and "n_process_id (wi_notification item) \<noteq> 0"
    and "terminate_if_allowed (rt_own_process env) (n_process_id (wi_notification item)) (w_observed_at w) None (w_process w) \<noteq> None"
    and "w_image_regular w = Some True" and "w_image_file w = Some f" and "stable_file f bs"
    and "length (rt_sha env bs) = 32" and "shards_ok (learned st)" and "length (by_digest (learned st)) < MAX_SHARDS"
  shows "shards_lookup (learned (realtime_item env w item st)) (hex_sha256 (rt_sha env bs)) \<noteq> None \<and>
    definition_generation (realtime_item env w item st) = (definition_generation st + 1) mod 2 ^ 64"
  using assms by (rule conviction_learns)

text \<open>Neither reserved nor critical processes, nor the shell of the system root, nor another image is ever terminated.\<close>

lemma terminate_if_allowed_spares:
  assumes "terminate_if_allowed own process_id observed_at expected (Some p) = Some img"
  shows "process_id \<notin> {0, 4, own}" "p_critical p = Some False" "case expected of Some e \<Rightarrow> p_image_key p = e | None \<Rightarrow> True"
    "p_in_system_root p \<Longrightarrow> p_file_name p = Some name \<Longrightarrow> map to_ascii_lowercase name \<notin> set (map bytes_of NEVER_TERMINATE)"
  using assms by (auto simp: terminate_if_allowed_def termination_policy_def split: option.splits if_splits)

section \<open>A concrete conviction\<close>

definition example_rt_env :: "(unit, unit) realtime_env" where
  "example_rt_env = \<lparr>rt_detection = example_env\<lparr>de_engine := (de_engine example_env)\<lparr>sha256 := (\<lambda>bs. replicate 32 7)\<rparr>\<rparr>,
     rt_paths = example_paths, rt_fingerprint = length, rt_own_process = 1\<rparr>"

definition example_path :: bytes where
  "example_path = backslashed ''/users/a/documents/b.txt''"

definition example_item :: work_item where
  "example_item = \<lparr>wi_message_id = 9, wi_notification =
     \<lparr>n_magic = BLACKSHARD_PROTOCOL_MAGIC, n_version = 6, n_size = NOTIFICATION_SIZE, n_process_id = 7, n_desired_access = 3,
      n_operation = 3, n_path_length = 24, n_file_path = map unat example_path, n_file_id = 5, n_content_generation = 1,
      n_process_start_key = 1, n_must_enforce = 0, n_reserved = 0\<rparr>\<rparr>"

text \<open>A program that has encrypted three documents within the window.\<close>

definition example_activity :: process_activity where
  "example_activity = \<lparr>events = [(0, 100), (0, 101), (0, 102)], actions = [(100, 3), (101, 3), (102, 3)], last_seen_millis = 0,
     last_alert_millis = None\<rparr>"

definition example_rt_state :: "(unit, unit) realtime_state" where
  "example_rt_state = \<lparr>preferences = (settings_default 8)\<lparr>ransomware_block_mode := True\<rparr>, engines = [(example_engine, example_breakers)],
     active = 0, learned = \<lparr>persistent = False, by_digest = [], disk = []\<rparr>, definition_generation = 1, cache = cache_new 8,
     ransomware_monitor = [((7, 1), example_activity)], process_trust_cache = [((7, 1), Untrusted)], vault = None,
     counters = counters_default, history = [], outbox = [], replies = []\<rparr>"

definition example_process :: process_info where
  "example_process = \<lparr>p_image = Some (bytes_of ''x''), p_image_key = [], p_in_system_root = False, p_file_name = None,
     p_critical = Some False, p_created_ticks = Some 0, p_terminates = True\<rparr>"

definition example_world :: world where
  "example_world = \<lparr>w_stopping = False, w_accepted = True, w_opened = None, w_now = 0, w_scanned_at = 0, w_quarantine = Isolated,
     w_millis = 5, w_image = None, w_signature = Unsigned, w_copy_ok = True, w_copy_id = 1, w_seconds = 0, w_restore = (\<lambda>_. all_ok),
     w_observed_at = 0, w_process = Some example_process, w_image_regular = Some True, w_image_file = Some example_opened,
     w_shard_now = 0, w_shard_written = True, w_image_quarantine = Isolated\<rparr>"

lemma ascii_lossy: "list_all (\<lambda>b. unat b < 128) bs \<Longrightarrow> from_utf16_lossy (map unat bs) = map unat (bs :: bytes)"
proof (induction bs)
  case (Cons b bs)
  then show ?case by (cases bs) auto
qed simp

lemma ascii_string: "list_all (\<lambda>b. unat b < 128) bs \<Longrightarrow> string_of_chars (map unat bs) = (bs :: bytes)"
  by (induction bs) (simp_all add: string_of_chars_def utf8_encode_def mk_byte_def)

lemma example_path_eval: "notification_path (wi_notification example_item) = example_path"
proof -
  have "list_all (\<lambda>b. unat b < 128) example_path" "length example_path = 24"
    by (simp_all add: example_path_def backslashed_def bytes_of_def byte_of_def)
  then show ?thesis
    by (simp add: notification_path_def example_item_def MAX_FILE_PATH_LENGTH_def ascii_lossy ascii_string)
qed

lemma example_guarded: "guards_documents example_rt_env (wi_notification example_item) (preferences example_rt_state)"
  unfolding guards_documents_def example_path_eval
  by (simp add: example_rt_state_def settings_default_def is_excluded_def exclusion_keys_def keys_of_def)

lemma example_blocked: "block (modification_decision example_rt_env example_world (wi_notification example_item) example_rt_state)"
proof -
  have "is_protected_document example_path" by (simp add: example_path_def) code_simp
  then show ?thesis
    unfolding modification_decision_def example_path_eval
    by (simp add: observation_of_def process_of_def observe_at_def example_item_def example_rt_state_def make_room_def evict_stale_def
        example_world_def example_activity_def WINDOW_MILLIS_def MAX_TRACKED_PROCESSES_def MAX_EVENTS_PER_PROCESS_def hm_get_Cons cached_process_trust_def
        record_event_def or_flag_def action_of_def action_flag_def decide_def thresholds_def threshold_defs
        encrypted_files_def hm_insert_def hm_remove_def HIGH_ENTROPY_WRITE_def RENAMED_OR_DELETED_def Let_def case_prod_unfold)
qed

lemma example_settings_on: "real_time_protection (preferences example_rt_state)"
  by (simp add: example_rt_state_def settings_default_def)

lemma example_item_simps [simp]:
  "wi_message_id example_item = 9" "n_operation (wi_notification example_item) = 3" "n_process_id (wi_notification example_item) = 7"
  "replies example_rt_state = []" "w_stopping example_world = False" "w_accepted example_world = True"
  by (simp_all add: example_item_def example_rt_state_def example_world_def)

theorem item_answered_once_witness:
  "\<exists>score. replies (realtime_item example_rt_env example_world example_item example_rt_state) = [(9, Block, score)] \<and>
     guards_documents example_rt_env (wi_notification example_item) (preferences example_rt_state)"
  using item_answered_once [of example_rt_env example_world example_item example_rt_state] example_blocked example_guarded
  by (simp add: realtime_item_def OPERATION_PROTECTED_WRITE_def handle_protected_modification_replies)

lemma example_trust: "fst (cached_process_trust example_world (process_of (wi_notification example_item)) example_rt_state) = Untrusted"
  by (simp add: cached_process_trust_def process_of_def example_item_def example_rt_state_def hm_get_Cons)

lemma example_terminated:
  "terminate_if_allowed (rt_own_process example_rt_env) 7 (w_observed_at example_world) None (w_process example_world) \<noteq> None"
  by (simp add: terminate_if_allowed_def example_rt_env_def example_world_def example_process_def termination_policy_def created_nanos_def)

lemma example_stable: "stable_file example_opened [7, 8]"
  by (simp add: stable_file_def example_opened_def example_meta_def file_changed_def)

lemma example_learning_inputs:
  "w_image_regular example_world = Some True" "w_image_file example_world = Some example_opened"
  "rt_sha example_rt_env [7, 8] = replicate 32 7" "shards_ok (learned example_rt_state)"
  "length (by_digest (learned example_rt_state)) < MAX_SHARDS" "definition_generation example_rt_state = 1"
  by (simp_all add: example_world_def example_rt_env_def example_rt_state_def shards_ok_def MAX_SHARDS_def)

theorem convicted_program_learned_witness:
  "shards_lookup (learned (realtime_item example_rt_env example_world example_item example_rt_state)) (hex_sha256 (replicate 32 7)) \<noteq> None \<and>
   definition_generation (realtime_item example_rt_env example_world example_item example_rt_state) = 2"
  using convicted_program_learned [OF _ _ example_guarded example_blocked _ example_trust _ _ _ _ example_stable] example_terminated
  by (simp add: OPERATION_PROTECTED_WRITE_def example_learning_inputs)

theorem learning_only_after_conviction_witness:
  "w_accepted example_world \<and> learned (realtime_item example_rt_env example_world example_item example_rt_state) \<noteq> learned example_rt_state"
proof -
  have "shards_lookup (learned (realtime_item example_rt_env example_world example_item example_rt_state)) (hex_sha256 (replicate 32 7)) \<noteq> None"
    using conviction_learns [OF _ _ example_guarded example_blocked _ example_trust _ _ _ _ example_stable] example_terminated
    by (simp add: OPERATION_PROTECTED_WRITE_def example_learning_inputs)
  moreover have "shards_lookup (learned example_rt_state) d = None" for d
    by (simp add: example_rt_state_def shards_lookup_def)
  ultimately have changed: "learned (realtime_item example_rt_env example_world example_item example_rt_state) \<noteq> learned example_rt_state"
    by metis
  from learning_only_after_conviction [OF changed] changed show ?thesis by blast
qed

end
