(* ===== verification/Supervisor.thy ===== *)
theory Supervisor
  imports Realtime "HOL-Library.Multiset"
begin

text \<open>
  The connection supervisor of \<^verbatim>\<open>src/connection_supervisor.rs\<close> and the pool of workers it feeds. The
  dispatcher and the connection loop are functions; \<open>pool_step\<close> interleaves the dispatcher with workers
  that are in the middle of a file, with the ransomware handler, and with what the service does to the
  state they share: new engines, new generations, learned and forgotten shards.
\<close>

section \<open>Connecting\<close>

definition initial_backoff :: nat where "initial_backoff = 2"

definition next_backoff :: "nat \<Rightarrow> nat" where
  "next_backoff secs = min (secs * 2) 60"

text \<open>One round of \<^verbatim>\<open>connection_loop\<close>: whether the port and the receive event could be had, and whether a stop was requested when the messages ended.\<close>

datatype round = PortFails | EventFails | Served bool

definition connection_round :: "round \<Rightarrow> nat \<times> nat \<times> ('r, 'a) realtime_state \<Rightarrow> nat \<times> nat \<times> ('r, 'a) realtime_state" where
  "connection_round r s =
     (let (generation_count, backoff, st) = s;
          generation_count = generation_count + 1;
          st = emit (Connection Connecting) st
      in case r of
           PortFails \<Rightarrow> (generation_count, next_backoff backoff, emit (Connection Disconnected) st)
         | EventFails \<Rightarrow> (generation_count, next_backoff backoff, emit (Connection Disconnected) st)
         | Served stopping \<Rightarrow>
             let st = emit (Connection Connected) (log_event ProtectionStarted None None None st);
                 st = log_event ProtectionStopped None None None st
             in (generation_count, initial_backoff, emit (Connection (if stopping then Stopped else Disconnected)) st))"

definition pool_workers :: "settings \<Rightarrow> nat" where
  "pool_workers s = clamp 1 8 (worker_count s)"

definition queue_capacity :: "nat \<Rightarrow> nat" where
  "queue_capacity workers = workers * 16"

section \<open>Dispatching\<close>

definition overload_verdict :: "notification \<Rightarrow> driver_verdict" where
  "overload_verdict n = (if n_must_enforce n \<noteq> 0 then Block else Allow)"

text \<open>A received message: answered at once when it is not valid or the queue is full, else queued.\<close>

definition dispatch :: "nat \<Rightarrow> work_item \<Rightarrow> ('r, 'a) realtime_state \<times> work_item list \<Rightarrow> ('r, 'a) realtime_state \<times> work_item list" where
  "dispatch cap item s =
     (let (st, q) = s; n = wi_notification item in
      if \<not> valid_notification n then (reply (wi_message_id item) Allow 0 st, q)
      else if length q < cap then (st, q @ [item])
      else (emit (QueueSaturated (n_process_id n) (notification_path n))
              (count (\<lambda>c. c\<lparr>bypassed_due_to_load := bypassed_due_to_load c + 1\<rparr>)
                (reply (wi_message_id item) (overload_verdict n) 0 st)), q))"

text \<open>When every worker is gone the message is answered and the connection ends.\<close>

definition dispatch_disconnected :: "work_item \<Rightarrow> ('r, 'a) realtime_state \<Rightarrow> ('r, 'a) realtime_state" where
  "dispatch_disconnected item st = reply (wi_message_id item) (overload_verdict (wi_notification item)) 0 st"

section \<open>The pool\<close>

text \<open>
  A worker in the middle of a file: it has taken the engine, it has missed the cache under a
  generation, it has a report that is not stored yet.
\<close>

datatype flight =
  Taken work_item world nat
  | Looked work_item world candidate nat verdict_cache_key nat
  | Scanned work_item world verdict_cache_key nat detection_report

fun flight_item :: "flight \<Rightarrow> work_item" where
  "flight_item (Taken item _ _) = item"
| "flight_item (Looked item _ _ _ _ _) = item"
| "flight_item (Scanned item _ _ _ _) = item"

text \<open>
  \<open>received\<close>, \<open>unpublished\<close> (the digests learned since the generation last moved) and \<open>moves\<close> (how often
  it moved) only record what happened.
\<close>

record ('r, 'a) pool =
  shared :: "('r, 'a) realtime_state"
  queue :: "work_item list"
  flights :: "flight list"
  received :: "nat list"
  unpublished :: "string set"
  moves :: nat

definition is_file_item :: "('r, 'a) realtime_env \<Rightarrow> world \<Rightarrow> work_item \<Rightarrow> ('r, 'a) realtime_state \<Rightarrow> bool" where
  "is_file_item env w item st \<longleftrightarrow>
     \<not> w_stopping w \<and>
     n_operation (wi_notification item) \<notin> {OPERATION_PROTECTED_WRITE, OPERATION_PROTECTED_METADATA} \<and>
     scans_file env (wi_notification item) (preferences st)"

definition finish :: "work_item \<Rightarrow> world \<Rightarrow> detection_report \<Rightarrow> ('r, 'a) realtime_state \<Rightarrow> ('r, 'a) realtime_state" where
  "finish item w r st = settle item (shown_path w (wi_notification item)) (w_accepted w) (w_quarantine w) r st"

text \<open>\<open>possible\<close> restricts what Windows answers.\<close>

inductive pool_step :: "('r, 'a) realtime_env \<Rightarrow> (world \<Rightarrow> notification \<Rightarrow> bool) \<Rightarrow> nat \<Rightarrow> ('r, 'a) pool \<Rightarrow> ('r, 'a) pool \<Rightarrow> bool"
  for env possible workers where
  arrives: "dispatch (queue_capacity workers) item (shared p, queue p) = (st, q) \<Longrightarrow>
    pool_step env possible workers p
      (p\<lparr>shared := st, queue := q, received := received p @ [wi_message_id item]\<rparr>)"
| at_once: "queue p = item # q \<Longrightarrow> length (flights p) < workers \<Longrightarrow> \<not> is_file_item env w item (shared p) \<Longrightarrow>
    st = realtime_item env w item (shared p) \<Longrightarrow>
    moved = (definition_generation st \<noteq> definition_generation (shared p)) \<Longrightarrow>
    pool_step env possible workers p
      (p\<lparr>shared := st, queue := q, unpublished := if moved then {} else unpublished p,
         moves := if moved then moves p + 1 else moves p\<rparr>)"
| taken: "queue p = item # q \<Longrightarrow> length (flights p) < workers \<Longrightarrow> is_file_item env w item (shared p) \<Longrightarrow>
    possible w (wi_notification item) \<Longrightarrow>
    pool_step env possible workers p (p\<lparr>queue := q, flights := Taken item w (active (shared p)) # flights p\<rparr>)"
| hit: "flights p = fs @ Taken item w i # fs' \<Longrightarrow>
    look_up (wi_notification item) (w_opened w) (w_now w) (shared p) = (Answered r, st) \<Longrightarrow>
    pool_step env possible workers p (p\<lparr>shared := finish item w r st, flights := fs @ fs'\<rparr>)"
| miss: "flights p = fs @ Taken item w i # fs' \<Longrightarrow>
    look_up (wi_notification item) (w_opened w) (w_now w) (shared p) = (ToScan key generation, st) \<Longrightarrow>
    w_opened w = Some c \<Longrightarrow>
    pool_step env possible workers p (p\<lparr>shared := st, flights := fs @ Looked item w c i key generation # fs'\<rparr>)"
| scanned: "flights p = fs @ Looked item w c i key generation # fs' \<Longrightarrow>
    scan_with (rt_detection env) i (c_content c) (shared p) = (r, st) \<Longrightarrow>
    pool_step env possible workers p (p\<lparr>shared := st, flights := fs @ Scanned item w key generation r # fs'\<rparr>)"
| stored: "flights p = fs @ Scanned item w key generation r # fs' \<Longrightarrow>
    pool_step env possible workers p
      (p\<lparr>shared := finish item w r (store_verdict key generation (w_scanned_at w) r (shared p)), flights := fs @ fs'\<rparr>)"
| learns: "learn now writes sha threat (learned (shared p)) = (Inr True, store) \<Longrightarrow>
    pool_step env possible workers p
      (p\<lparr>shared := (shared p)\<lparr>learned := store\<rparr>, unpublished := insert (lower sha) (unpublished p)\<rparr>)"
| moves_on: "pool_step env possible workers p
      (p\<lparr>shared := next_generation (shared p), unpublished := {}, moves := moves p + 1\<rparr>)"
| forgets: "forget writes sha (learned (shared p)) = (res, store) \<Longrightarrow>
    pool_step env possible workers p (p\<lparr>shared := (shared p)\<lparr>learned := store\<rparr>\<rparr>)"
| replaces: "pool_step env possible workers p (p\<lparr>shared := replace_detection_engine e (shared p)\<rparr>)"
| configures: "pool_step env possible workers p (p\<lparr>shared := (shared p)\<lparr>preferences := prefs\<rparr>\<rparr>)"

inductive_cases pool_stepE: "pool_step env possible workers p p'"

definition pool_start :: "('r, 'a) realtime_state \<Rightarrow> ('r, 'a) pool" where
  "pool_start st = \<lparr>shared = st, queue = [], flights = [], received = [], unpublished = {}, moves = 0\<rparr>"

section \<open>Every message is answered exactly once\<close>

definition ids :: "work_item list \<Rightarrow> nat multiset" where
  "ids items = mset (map wi_message_id items)"

definition accounted :: "nat \<Rightarrow> ('r, 'a) pool \<Rightarrow> bool" where
  "accounted workers p \<longleftrightarrow>
     mset (map fst (replies (shared p))) + ids (queue p) + ids (map flight_item (flights p)) = mset (received p) \<and>
     length (queue p) \<le> queue_capacity workers \<and> length (flights p) \<le> workers"

lemma finish_replies: "replies (finish item w r st) = replies st @ [(wi_message_id item, execution_driver_verdict r, d_risk_score r)]"
  by (simp add: finish_def settle_frame)

lemma dispatch_accounted:
  assumes "dispatch cap item (st, q) = (st', q')"
  shows "mset (map fst (replies st')) + ids q' = mset (map fst (replies st)) + ids q + {#wi_message_id item#}"
    "length q \<le> cap \<Longrightarrow> length q' \<le> cap"
  using assms by (auto simp: dispatch_def Let_def ids_def split: if_splits)

lemma ids_simps [simp]:
  "ids [] = {#}" "ids (x # xs) = {#wi_message_id x#} + ids xs" "ids (xs @ ys) = ids xs + ids ys"
  by (simp_all add: ids_def)

lemma pool_step_accounted:
  assumes "pool_step env possible workers p p'" and "accounted workers p"
  shows "accounted workers p'"
  using assms
proof (induction rule: pool_step.induct)
  case (arrives item p st q)
  from dispatch_accounted [OF arrives(1)] arrives(2) show ?case by (simp add: accounted_def add.commute add.left_commute)
next
  case (at_once p item q w st moved)
  then show ?case by (simp add: accounted_def realtime_item_replies add.commute add.left_commute)
next
  case (hit p fs item w i fs' r st)
  then show ?case using look_up_frame [OF hit(2)] by (simp add: accounted_def finish_replies add.commute add.left_commute)
next
  case (miss p fs item w i fs' key generation st c)
  then show ?case using look_up_frame [OF miss(2)] by (simp add: accounted_def)
next
  case (scanned p fs item w c i key generation fs' r st)
  then show ?case using scan_with_frame [OF scanned(2)] by (simp add: accounted_def)
qed (simp_all add: accounted_def finish_replies next_generation_def replace_detection_engine_def add.commute add.left_commute)

text \<open>
  (C7) Under every interleaving of the dispatcher, the workers and the service, the messages received
  are exactly the messages answered, queued and in a worker's hands: no message is lost and none is
  answered twice. The queue never exceeds 16 messages per worker and no more files are being scanned
  than there are workers. In particular, when the queue is empty and no worker is busy, every message
  received so far has been answered exactly once.
\<close>

theorem pool_answers_exactly_once:
  assumes "(pool_step env possible workers)\<^sup>*\<^sup>* (pool_start st) p" and "replies st = []"
  shows "mset (map fst (replies (shared p))) + ids (queue p) + ids (map flight_item (flights p)) = mset (received p) \<and>
    length (queue p) \<le> 16 * workers \<and> length (flights p) \<le> workers"
proof -
  have "accounted workers p"
    using assms(1)
  proof (induction rule: rtranclp_induct)
    case base
    then show ?case using assms(2) by (simp add: accounted_def pool_start_def)
  next
    case (step p p')
    then show ?case using pool_step_accounted by blast
  qed
  then show ?thesis by (simp add: accounted_def queue_capacity_def mult.commute)
qed

lemma example_arrival:
  "pool_step example_rt_env possible 1 (pool_start example_rt_state)
     ((pool_start example_rt_state)\<lparr>queue := [example_item], received := [9]\<rparr>)"
proof -
  have "valid_notification (wi_notification example_item)"
    by (simp add: valid_notification_def example_item_def BLACKSHARD_PROTOCOL_VERSION_def MAX_FILE_PATH_LENGTH_def)
  then have "dispatch (queue_capacity 1) example_item (shared (pool_start example_rt_state), queue (pool_start example_rt_state)) =
      (example_rt_state, [example_item])"
    by (simp add: dispatch_def pool_start_def queue_capacity_def)
  from pool_step.arrives [OF this, of example_rt_env possible] show ?thesis
    by (simp add: pool_start_def)
qed

theorem pool_answers_exactly_once_witness:
  "let p = (pool_start example_rt_state)\<lparr>queue := [example_item], received := [9]\<rparr> in
     mset (map fst (replies (shared p))) + ids (queue p) = mset (received p)"
  using pool_answers_exactly_once [OF r_into_rtranclp [where r = "pool_step example_rt_env (\<lambda>_ _. True) 1", OF example_arrival]]
  by (simp add: pool_start_def)

section \<open>What was learned is never answered from a stale cache\<close>

text \<open>
  \<open>content\<close> is what the file with a given identity contains. Windows keeps to it: a handle of that
  identity whose content can be read without a change has that content.
\<close>

definition honest :: "(verdict_cache_key \<Rightarrow> bytes) \<Rightarrow> world \<Rightarrow> notification \<Rightarrow> bool" where
  "honest content w n \<longleftrightarrow>
     (\<forall>c volume bs. w_opened w = Some c \<and> c_identity c = Some (volume, n_file_id n) \<and> stable_file (c_content c) bs \<longrightarrow>
        bs = content (candidate_key n volume c))"

definition digest_of :: "('r, 'a) realtime_env \<Rightarrow> bytes \<Rightarrow> string" where
  "digest_of env bs = hex_sha256 (rt_sha env bs)"

definition convicted :: "('r, 'a) realtime_env \<Rightarrow> ('r, 'a) pool \<Rightarrow> bytes \<Rightarrow> bool" where
  "convicted env p bs \<longleftrightarrow>
     shards_lookup (learned (shared p)) (digest_of env bs) \<noteq> None \<and> lower (digest_of env bs) \<notin> unpublished p"

text \<open>A verdict reached under a generation does not contradict what is published.\<close>

definition current :: "('r, 'a) realtime_env \<Rightarrow> (verdict_cache_key \<Rightarrow> bytes) \<Rightarrow> ('r, 'a) pool \<Rightarrow> verdict_cache_key \<Rightarrow> nat \<Rightarrow> bool \<Rightarrow> bool" where
  "current env content p key generation stops \<longleftrightarrow>
     generation \<le> definition_generation (shared p) \<and>
     (generation = definition_generation (shared p) \<and> convicted env p (content key) \<longrightarrow> stops)"

fun flight_ok :: "('r, 'a) realtime_env \<Rightarrow> (verdict_cache_key \<Rightarrow> bytes) \<Rightarrow> ('r, 'a) pool \<Rightarrow> flight \<Rightarrow> bool" where
  "flight_ok env content p (Taken item w i) = honest content w (wi_notification item)"
| "flight_ok env content p (Looked item w c i key generation) =
     ((\<forall>bs. stable_file (c_content c) bs \<longrightarrow> bs = content key) \<and> generation \<le> definition_generation (shared p))"
| "flight_ok env content p (Scanned item w key generation r) =
     current env content p key generation (should_block r \<or> d_verdict r = DError)"

definition pool_ok :: "('r, 'a) realtime_env \<Rightarrow> (verdict_cache_key \<Rightarrow> bytes) \<Rightarrow> ('r, 'a) pool \<Rightarrow> bool" where
  "pool_ok env content p \<longleftrightarrow>
     shards_ok (learned (shared p)) \<and> definition_generation (shared p) = 1 + moves p \<and>
     (\<forall>(key, v, t) \<in> set (entries (cache (shared p))).
        current env content p key (cv_definition_generation v) (cv_execution_block_eligible v)) \<and>
     (\<forall>f \<in> set (flights p). flight_ok env content p f)"

lemma hm_get_mem: "hm_get m k = Some v \<Longrightarrow> (k, v) \<in> set m"
  by (simp add: hm_get_def map_of_SomeD)

lemma cache_get_entries:
  assumes "cache_get c key generation now = (found, c')"
  shows "(k, v, t) \<in> set (entries c') \<Longrightarrow> \<exists>t'. (k, v, t') \<in> set (entries c)"
    "found = Some v \<Longrightarrow> cv_definition_generation v = generation \<and> (\<exists>t. (key, v, t) \<in> set (entries c))"
  using assms
  by (auto simp: cache_get_def Let_def hm_insert_def is_fresh_def split: option.splits prod.splits if_splits
      dest!: hm_get_mem)

lemma cache_insert_entries:
  "(k, v, t) \<in> set (entries (snd (cache_insert c key new))) \<Longrightarrow>
     (k = key \<and> v = new \<and> is_cacheable new) \<or> (\<exists>t'. (k, v, t') \<in> set (entries c))"
  by (auto simp: cache_insert_def Let_def hm_insert_def split: option.splits prod.splits if_splits list.splits)

text \<open>A step that at most publishes more, or forgets.\<close>

definition advances :: "('r, 'a) realtime_env \<Rightarrow> ('r, 'a) pool \<Rightarrow> ('r, 'a) pool \<Rightarrow> bool" where
  "advances env p p' \<longleftrightarrow>
     definition_generation (shared p) \<le> definition_generation (shared p') \<and>
     (definition_generation (shared p) = definition_generation (shared p') \<longrightarrow> (\<forall>bs. convicted env p' bs \<longrightarrow> convicted env p bs))"

lemma current_advances: "current env content p key g stops \<Longrightarrow> advances env p p' \<Longrightarrow> current env content p' key g stops"
  by (auto simp: current_def advances_def)

lemma flight_ok_advances: "flight_ok env content p f \<Longrightarrow> advances env p p' \<Longrightarrow> flight_ok env content p' f"
proof (cases f)
  case (Scanned item w key generation r)
  then show "flight_ok env content p f \<Longrightarrow> advances env p p' \<Longrightarrow> flight_ok env content p' f"
    using current_advances [of env content p key generation] by simp
qed (auto simp: advances_def)

lemma pool_okI:
  assumes ok: "pool_ok env content p" and adv: "advances env p p'" and "shards_ok (learned (shared p'))"
    and "definition_generation (shared p') = 1 + moves p'"
    and es: "\<And>key v t. (key, v, t) \<in> set (entries (cache (shared p'))) \<Longrightarrow>
      (\<exists>t'. (key, v, t') \<in> set (entries (cache (shared p)))) \<or>
      current env content p' key (cv_definition_generation v) (cv_execution_block_eligible v)"
    and fs: "\<And>f. f \<in> set (flights p') \<Longrightarrow> f \<in> set (flights p) \<or> flight_ok env content p' f"
  shows "pool_ok env content p'"
proof -
  have "current env content p' key (cv_definition_generation v) (cv_execution_block_eligible v)"
    if "(key, v, t) \<in> set (entries (cache (shared p')))" for key v t
    using es [OF that]
  proof
    assume "\<exists>t'. (key, v, t') \<in> set (entries (cache (shared p)))"
    then have "current env content p key (cv_definition_generation v) (cv_execution_block_eligible v)"
      using ok by (auto simp: pool_ok_def)
    then show ?thesis using adv by (rule current_advances)
  qed
  moreover have "flight_ok env content p' f" if "f \<in> set (flights p')" for f
    using fs [OF that] ok adv by (auto simp: pool_ok_def intro: flight_ok_advances)
  ultimately show ?thesis using assms(3,4) by (auto simp: pool_ok_def)
qed

text \<open>Steps that touch neither the generation, the shards nor the verdicts already stored.\<close>

lemma pool_ok_same:
  assumes "pool_ok env content p" and "definition_generation (shared p') = definition_generation (shared p)"
    and "learned (shared p') = learned (shared p)" and "unpublished p' = unpublished p" and "moves p' = moves p"
    and "\<And>key v t. (key, v, t) \<in> set (entries (cache (shared p'))) \<Longrightarrow>
      (\<exists>t'. (key, v, t') \<in> set (entries (cache (shared p)))) \<or>
      current env content p' key (cv_definition_generation v) (cv_execution_block_eligible v)"
    and "\<And>f. f \<in> set (flights p') \<Longrightarrow> f \<in> set (flights p) \<or> flight_ok env content p' f"
  shows "pool_ok env content p'"
  using assms(1)
proof (rule pool_okI)
  show "advances env p p'" using assms(2-4) by (simp add: advances_def convicted_def)
qed (use assms in \<open>auto simp: pool_ok_def\<close>)

lemma dispatch_frame:
  assumes "dispatch cap item (st, q) = (st', q')"
  shows "learned st' = learned st" "cache st' = cache st" "definition_generation st' = definition_generation st"
  using assms by (auto simp: dispatch_def Let_def split: if_splits)

lemma finish_frame [simp]:
  "learned (finish item w r st) = learned st" "cache (finish item w r st) = cache st"
  "definition_generation (finish item w r st) = definition_generation st"
  by (simp_all add: finish_def settle_frame)

lemma not_file_promise:
  assumes "\<not> is_file_item env w item st"
  shows "keeps_promise st (realtime_item env w item st)"
  using assms handle_protected_modification_promise [of st env w item]
  by (auto simp: realtime_item_def is_file_item_def Let_def) (simp_all add: keeps_promise_def)

lemma look_up_result:
  assumes "look_up n opened now st = (l, st')"
  shows "(key, v, t) \<in> set (entries (cache st')) \<Longrightarrow> \<exists>t'. (key, v, t') \<in> set (entries (cache st))"
    "l = ToScan k g \<Longrightarrow> g = definition_generation st \<and>
       (\<exists>c volume. opened = Some c \<and> c_identity c = Some (volume, n_file_id n) \<and> k = candidate_key n volume c)"
  using assms cache_get_entries(1)
  by (auto simp: look_up_def Let_def split: option.splits prod.splits if_splits)

lemma cacheable_not_error: "is_cacheable (cached_of_report g now r) \<Longrightarrow> d_verdict r \<noteq> DError"
  by (auto simp: is_cacheable_def cached_of_report_def cached_of_verdict_def)

lemma cached_of_report_simps [simp]:
  "cv_definition_generation (cached_of_report g now r) = g"
  "cv_execution_block_eligible (cached_of_report g now r) = should_block r"
  by (simp_all add: cached_of_report_def should_block_def)

lemma scan_with_convicts:
  assumes "scan_with (rt_detection env) i f st = (r, st')" and "\<And>bs. stable_file f bs \<Longrightarrow> bs = content"
    and "shards_lookup (learned st) (digest_of env content) \<noteq> None"
  shows "should_block r \<or> d_verdict r = DError"
proof -
  obtain e b where eb: "engines st ! i = (e, b)" by fastforce
  have r: "r = fst (analyze_open_file (rt_detection env) (e\<lparr>shards := learned st\<rparr>) f b)"
    using assms(1) eb by (auto simp: scan_with_def Let_def split: prod.splits)
  show ?thesis
  proof (cases "\<exists>bs. stable_file f bs")
    case True
    with assms(2) have "stable_file f content" by blast
    from known_content_convicts [OF this, of "e\<lparr>shards := learned st\<rparr>" "rt_detection env" b] assms(3)
    show ?thesis unfolding r digest_of_def by (simp add: Let_def)
  next
    case False
    then show ?thesis unfolding r by (simp add: unstable_file_error detection_error_def)
  qed
qed

lemma publishes_advance:
  "definition_generation (shared p') = 1 + moves p + 1 \<Longrightarrow> pool_ok env content p \<Longrightarrow> advances env p p'"
  by (simp add: advances_def pool_ok_def)

lemma learn_advances:
  assumes "learn now writes sha threat (learned (shared p)) = (Inr True, store)" and "shards_ok (learned (shared p))"
  shows "advances env p (p\<lparr>shared := (shared p)\<lparr>learned := store\<rparr>, unpublished := insert (lower sha) (unpublished p)\<rparr>)"
  using local_shards.add_new [OF assms(2), of now writes sha threat] assms(1)
  by (auto simp: advances_def convicted_def)

lemma forget_advances:
  assumes "forget writes sha (learned (shared p)) = (res, store)" and "shards_ok (learned (shared p))"
  shows "advances env p (p\<lparr>shared := (shared p)\<lparr>learned := store\<rparr>\<rparr>)"
  using local_shards.remove_find [OF assms(2), of writes sha] assms(1)
  by (auto simp: advances_def convicted_def split: if_splits)

lemma at_once_ok:
  assumes ok: "pool_ok env content p" and wrap: "1 + moves p' < 2 ^ 64"
    and kept: "keeps_promise (shared p) (shared p')"
    and moved: "moved = (definition_generation (shared p') \<noteq> definition_generation (shared p))"
    and p': "unpublished p' = (if moved then {} else unpublished p)" "moves p' = (if moved then moves p + 1 else moves p)"
      "flights p' = flights p"
  shows "pool_ok env content p'"
proof (cases moved)
  case False
  have "definition_generation (shared p) < 2 ^ 64" using ok wrap p' False by (simp add: pool_ok_def)
  then have "(definition_generation (shared p) + 1) mod 2 ^ 64 \<noteq> definition_generation (shared p)"
    by (cases "definition_generation (shared p) + 1 = 2 ^ 64") auto
  then have "learned (shared p') = learned (shared p)" "cache (shared p') = cache (shared p)"
      "definition_generation (shared p') = definition_generation (shared p)"
    using kept moved False by (auto simp: keeps_promise_def)
  then show ?thesis by (intro pool_ok_same [OF ok]) (use p' False in auto)
next
  case True
  have gen: "definition_generation (shared p') = 1 + moves p'" "definition_generation (shared p') = 1 + moves p + 1"
    using True kept moved ok wrap p'(2) by (auto simp: keeps_promise_def pool_ok_def)
  show ?thesis
    by (rule pool_okI [OF ok publishes_advance [OF gen(2) ok]])
      (use kept ok gen p'(3) in \<open>auto simp: keeps_promise_def pool_ok_def\<close>)
qed

lemma pool_step_ok:
  assumes "pool_step env (honest content) workers p p'" and "pool_ok env content p" and "1 + moves p' < 2 ^ 64"
  shows "pool_ok env content p'"
  using assms
proof (induction rule: pool_step.induct)
  case (arrives item p st q)
  show ?case by (rule pool_ok_same [OF arrives(2)]) (use dispatch_frame [OF arrives(1)] in auto)
next
  case (at_once p item q w st moved)
  show ?case by (rule at_once_ok [OF at_once(6,7)]) (use at_once not_file_promise [OF at_once(3)] in auto)
next
  case (taken p item q w)
  show ?case by (rule pool_ok_same [OF taken(5)]) (use taken(4) in auto)
next
  case (hit p fs item w i fs' r st)
  show ?case by (rule pool_ok_same [OF hit(3)])
      (use look_up_frame [OF hit(2)] look_up_result(1) [OF hit(2)] hit(1) in auto)
next
  case (miss p fs item w i fs' key generation st c)
  have "honest content w (wi_notification item)" using miss(1,4) by (auto simp: pool_ok_def)
  then have "flight_ok env content (p\<lparr>shared := st, flights := fs @ Looked item w c i key generation # fs'\<rparr>)
      (Looked item w c i key generation)"
    using look_up_frame [OF miss(2)] look_up_result(2) [OF miss(2) refl] miss(3) by (auto simp: honest_def)
  then show ?case by (intro pool_ok_same [OF miss(4)])
      (use look_up_frame [OF miss(2)] look_up_result(1) [OF miss(2)] miss(1) in auto)
next
  case (scanned p fs item w c i key generation fs' r st)
  note frame = scan_with_frame [OF scanned(2)]
  have looked: "\<And>bs. stable_file (c_content c) bs \<Longrightarrow> bs = content key" "generation \<le> definition_generation (shared p)"
    using scanned(1,3) by (auto simp: pool_ok_def)
  have "flight_ok env content (p\<lparr>shared := st, flights := fs @ Scanned item w key generation r # fs'\<rparr>)
      (Scanned item w key generation r)"
    using scan_with_convicts [OF scanned(2) looked(1)] looked(2) frame by (simp add: current_def convicted_def)
  then show ?case by (intro pool_ok_same [OF scanned(3)]) (use frame scanned(1) in auto)
next
  case (stored p fs item w key generation r fs')
  let ?p = "p\<lparr>shared := finish item w r (store_verdict key generation (w_scanned_at w) r (shared p)), flights := fs @ fs'\<rparr>"
  have "current env content p key generation (should_block r \<or> d_verdict r = DError)" using stored(1,2) by (auto simp: pool_ok_def)
  then have "d_verdict r \<noteq> DError \<Longrightarrow> current env content ?p key generation (should_block r)"
    by (simp add: current_def convicted_def)
  then show ?case by (intro pool_ok_same [OF stored(2)])
      (use stored(1) cache_insert_entries cacheable_not_error in \<open>fastforce simp: store_verdict_def\<close>)+
next
  case (learns now writes sha threat p store)
  then have ok: "shards_ok (learned (shared p))" by (simp add: pool_ok_def)
  show ?case
    by (rule pool_okI [OF learns(2) learn_advances [OF learns(1) ok]])
      (use learns local_shards.add_valid [OF ok, of now writes sha threat] in \<open>auto simp: pool_ok_def\<close>)
next
  case (moves_on p)
  have gen: "definition_generation (next_generation (shared p)) = 1 + moves p + 1"
    using moves_on by (simp add: pool_ok_def next_generation_def)
  show ?case
    by (rule pool_okI [OF moves_on(1) publishes_advance]) (use moves_on gen in \<open>auto simp: pool_ok_def next_generation_def\<close>)
next
  case (forgets writes sha p res store)
  then have ok: "shards_ok (learned (shared p))" by (simp add: pool_ok_def)
  show ?case
    by (rule pool_okI [OF forgets(2) forget_advances [OF forgets(1) ok]])
      (use forgets local_shards.remove_valid [OF ok, of writes sha] in \<open>auto simp: pool_ok_def\<close>)
next
  case (replaces p e)
  show ?case by (rule pool_ok_same [OF replaces(1)]) (auto simp: replace_detection_engine_def)
next
  case (configures p prefs)
  show ?case by (rule pool_ok_same [OF configures(1)]) auto
qed

lemma moves_grow: "pool_step env possible workers p p' \<Longrightarrow> moves p \<le> moves p'"
  by (induction rule: pool_step.induct) auto

lemma pool_reaches_ok:
  assumes "(pool_step env (honest content) workers)\<^sup>*\<^sup>* (pool_start st) p" and "1 + moves p < 2 ^ 64"
    and "entries (cache st) = []" and "definition_generation st = 1" and "shards_ok (learned st)"
  shows "pool_ok env content p"
  using assms(1,2)
proof (induction rule: rtranclp_induct)
  case base
  then show ?case using assms(3-5) by (simp add: pool_ok_def pool_start_def)
next
  case (step p p')
  then show ?case using pool_step_ok [OF step(2)] moves_grow [OF step(2)] by simp
qed

lemma handle_file_blocks:
  assumes ok: "pool_ok env content p" and "honest content w (wi_notification item)" and opened: "w_opened w = Some c"
    and id: "c_identity c = Some (volume, n_file_id (wi_notification item))" and stable: "stable_file (c_content c) bs"
    and "convicted env p bs"
  shows "\<exists>score. replies (handle_file env w item (shared p)) = replies (shared p) @ [(wi_message_id item, Block, score)]"
proof -
  let ?n = "wi_notification item"
  let ?key = "candidate_key ?n volume c"
  have bs: "bs = content ?key" using assms(2) opened id stable by (simp add: honest_def)
  obtain found cache' where g: "cache_get (cache (shared p)) ?key (definition_generation (shared p)) (w_now w) = (found, cache')"
    by fastforce
  show ?thesis
  proof (cases found)
    case (Some v)
    then have "cv_execution_block_eligible v"
      using cache_get_entries(2) [OF g] ok assms(6) bs by (auto simp: pool_ok_def current_def)
    then show ?thesis
      using g Some opened id
      by (simp add: handle_file_def look_up_def Let_def settle_frame execution_driver_verdict_def should_block_def report_of_cached_def)
  next
    case None
    let ?st = "(shared p)\<lparr>cache := cache'\<rparr>"
    obtain r st' where s: "scan_with (rt_detection env) (active (shared p)) (c_content c) ?st = (r, st')" by fastforce
    obtain e b where eb: "engines (shared p) ! active (shared p) = (e, b)" by fastforce
    have "r = fst (analyze_open_file (rt_detection env) (e\<lparr>shards := learned (shared p)\<rparr>) (c_content c) b)"
      using s eb by (auto simp: scan_with_def Let_def split: prod.splits)
    then have "should_block r"
      using known_content_convicts [OF stable, of "e\<lparr>shards := learned (shared p)\<rparr>" "rt_detection env" b] assms(6)
      by (simp add: convicted_def digest_of_def Let_def)
    then show ?thesis
      using g None opened id s scan_with_frame [OF s]
      by (simp add: handle_file_def look_up_def Let_def settle_frame execution_driver_verdict_def scan_and_store_def)
  qed
qed

text \<open>
  (C8) What the machine has learned holds from the moment it is published, whatever the other threads
  do: in every state the pool can reach, with files being scanned, verdicts being stored, engines
  replaced and shards learned and forgotten in between, a file whose content has a learned digest is
  blocked, even if the same file was found clean and cached before. Only digests learned since the
  generation last moved are excepted. The operating system is assumed to give the same content for the
  same identity, and the generation not to have wrapped around.
\<close>

theorem learned_content_blocked:
  assumes "(pool_step env (honest content) workers)\<^sup>*\<^sup>* (pool_start st) p" and "1 + moves p < 2 ^ 64"
    and "entries (cache st) = []" and "definition_generation st = 1" and "shards_ok (learned st)"
    and "honest content w (wi_notification item)" and "w_opened w = Some c"
    and "c_identity c = Some (volume, n_file_id (wi_notification item))" and "stable_file (c_content c) bs"
    and "shards_lookup (learned (shared p)) (digest_of env bs) \<noteq> None"
    and "lower (digest_of env bs) \<notin> unpublished p"
  shows "\<exists>score. replies (handle_file env w item (shared p)) = replies (shared p) @ [(wi_message_id item, Block, score)]"
  using handle_file_blocks [OF pool_reaches_ok [OF assms(1-5)] assms(6-9)] assms(10,11) by (simp add: convicted_def)

text \<open>The file of \<open>example_opened\<close>, opened after its digest was learned.\<close>

definition example_open_item :: work_item where
  "example_open_item = example_item\<lparr>wi_notification := (wi_notification example_item)\<lparr>n_operation := 2, n_must_enforce := 1\<rparr>\<rparr>"

definition example_candidate :: candidate where
  "example_candidate = \<lparr>c_identity = Some (1, 5), c_length = Some 2, c_change_time = None, c_final_path = None, c_content = example_opened\<rparr>"

definition example_store :: shard_store where
  "example_store = snd (learn 0 True (hex_sha256 (replicate 32 7)) ''X'' (learned example_rt_state))"

theorem learned_content_blocked_witness:
  "\<exists>score. replies (handle_file example_rt_env (example_world\<lparr>w_opened := Some example_candidate\<rparr>) example_open_item
     (next_generation (example_rt_state\<lparr>learned := example_store\<rparr>))) = [(9, Block, score)]"
proof -
  let ?p1 = "(pool_start example_rt_state)\<lparr>shared := example_rt_state\<lparr>learned := example_store\<rparr>,
    unpublished := {lower (hex_sha256 (replicate 32 7))}\<rparr>"
  let ?p2 = "?p1\<lparr>shared := next_generation (example_rt_state\<lparr>learned := example_store\<rparr>), unpublished := {}, moves := 1\<rparr>"
  have hex: "is_sha256_hex (hex_sha256 (replicate 32 7))" by (rule is_sha256_hex_hex) simp
  then have "learn 0 True (hex_sha256 (replicate 32 7)) ''X'' (learned example_rt_state) = (Inr True, example_store)"
    by (simp add: example_store_def learn_def example_rt_state_def MAX_SHARDS_def Let_def)
  from pool_step.learns [of _ _ _ _ "pool_start example_rt_state", unfolded pool_start_def pool.simps, OF this]
  have "pool_step example_rt_env (honest (\<lambda>_. [7, 8])) 1 (pool_start example_rt_state) ?p1" by (simp add: pool_start_def)
  moreover have "pool_step example_rt_env (honest (\<lambda>_. [7, 8])) 1 ?p1 ?p2"
    using pool_step.moves_on [of example_rt_env "honest (\<lambda>_. [7, 8])" 1 ?p1] by (simp add: pool_start_def)
  ultimately have reach: "(pool_step example_rt_env (honest (\<lambda>_. [7, 8])) 1)\<^sup>*\<^sup>* (pool_start example_rt_state) ?p2" by simp
  have honest: "honest (\<lambda>_. [7, 8]) (example_world\<lparr>w_opened := Some example_candidate\<rparr>) (wi_notification example_open_item)"
    using example_stable by (auto simp: honest_def example_candidate_def stable_file_def split: option.splits)
  have "shards_lookup example_store (hex_sha256 (replicate 32 7)) \<noteq> None"
    using learn_finds(2) [OF hex example_learning_inputs(4,5)] by (simp add: example_store_def)
  then show ?thesis
    using learned_content_blocked [OF reach _ _ _ _ honest, of example_candidate 1 "[7, 8]"] example_stable
    by (simp add: example_candidate_def example_open_item_def example_item_def digest_of_def next_generation_def
        example_learning_inputs example_rt_state_def cache_new_def shards_ok_def)
qed

text \<open>
  A new engine is not protected in the same way: a worker takes its engine before it reads the
  generation. If the definitions are replaced and the generation moves on in between, the verdict of the
  old engine is stored under the new generation, and the next notification for the file is answered
  with it although the engine in use would stop the file.
\<close>

lemma cache_get_new: "cache_get (cache_new n) key g now = (None, cache_new n)"
  by (simp add: cache_get_def cache_new_def)

lemma cache_get_inserted:
  assumes "is_cacheable v" and "num_hours (now - cv_scanned_at v) < 24"
  shows "fst (cache_get (snd (cache_insert (cache_new n) key v)) key (cv_definition_generation v) now) = Some v"
  using assms by (simp add: cache_get_def cache_insert_def cache_new_def is_fresh_def Let_def)

lemma stale_engine_verdict_stays:
  assumes w: "w_opened w = Some c" "c_identity c = Some (volume, n_file_id (wi_notification item))"
    and st: "cache st = cache_new n" "definition_generation st = 1" "engines st = [(old, b)]"
    and old: "analyze_open_file (rt_detection env) (old\<lparr>shards := learned st\<rparr>) (c_content c) b = (r, b')"
      "is_cacheable (cached_of_report 2 (w_scanned_at w) r)" "\<not> should_block r"
    and later: "num_hours (w_now w' - w_scanned_at w) < 24" "w_opened w' = w_opened w"
  defines "p \<equiv> (pool_start st)\<lparr>flights := [Taken item w 0]\<rparr>"
  shows "\<exists>p'. (pool_step env possible workers)\<^sup>*\<^sup>* p p' \<and> engines (shared p') ! active (shared p') = new \<and>
    (\<exists>score. replies (handle_file env w' item (shared p')) = replies (shared p') @ [(wi_message_id item, Allow, score)])"
proof -
  let ?n = "wi_notification item"
  let ?key = "candidate_key ?n volume c"
  define st1 where "st1 = next_generation (replace_detection_engine new st)"
  define st2 where "st2 = st1\<lparr>engines := [(old, b'), new]\<rparr>"
  define st3 where "st3 = finish item w r (store_verdict ?key 2 (w_scanned_at w) r st2)"
  have st1: "cache st1 = cache_new n" "definition_generation st1 = 2" "engines st1 = [(old, b), new]" "learned st1 = learned st" "active st1 = 1"
    using st by (simp_all add: st1_def next_generation_def replace_detection_engine_def)
  define p2 where "p2 = p\<lparr>shared := st1, unpublished := {}, moves := 1\<rparr>"
  define p3 where "p3 = p2\<lparr>flights := [Looked item w c 0 ?key 2]\<rparr>"
  define p4 where "p4 = p3\<lparr>shared := st2, flights := [Scanned item w ?key 2 r]\<rparr>"
  define p5 where "p5 = p4\<lparr>shared := st3, flights := []\<rparr>"
  have "pool_step env possible workers p (p\<lparr>shared := replace_detection_engine new st\<rparr>)"
    using pool_step.replaces [of env possible workers p new] by (simp add: p_def pool_start_def)
  moreover have "pool_step env possible workers (p\<lparr>shared := replace_detection_engine new st\<rparr>) p2"
    using pool_step.moves_on [of env possible workers "p\<lparr>shared := replace_detection_engine new st\<rparr>"]
    by (simp add: p2_def st1_def p_def pool_start_def)
  moreover have "pool_step env possible workers p2 p3"
  proof -
    have "look_up ?n (w_opened w) (w_now w) st1 = (ToScan ?key 2, st1)"
      using w st1(1,2) cache_get_new [of n ?key 2 "w_now w"] by (simp add: look_up_def Let_def)
    then show ?thesis
      using pool_step.miss [of p2 "[]" item w 0 "[]" ?key 2 st1 c env possible workers] w
      by (simp add: p3_def p2_def p_def pool_start_def)
  qed
  moreover have "pool_step env possible workers p3 p4"
  proof -
    have "scan_with (rt_detection env) 0 (c_content c) st1 = (r, st2)"
      using old(1) st1 by (simp add: scan_with_def st2_def)
    then show ?thesis
      using pool_step.scanned [of p3 "[]" item w c 0 ?key 2 "[]" env r st2 possible workers] by (simp add: p4_def p3_def p2_def)
  qed
  moreover have "pool_step env possible workers p4 p5"
    using pool_step.stored [of p4 "[]" item w ?key 2 r "[]" env possible workers] by (simp add: p5_def p4_def st3_def)
  ultimately have "(pool_step env possible workers)\<^sup>*\<^sup>* p p5" by (meson converse_rtranclp_into_rtranclp rtranclp.rtrancl_refl)
  moreover have "engines st3 ! active st3 = new"
    using st1(5) by (auto simp: st3_def st2_def finish_def settle_def Let_def effect_defs quarantine_candidate_def store_verdict_def
        split: quarantine_result.split prod.split)
  moreover have "\<exists>score. replies (handle_file env w' item st3) = replies st3 @ [(wi_message_id item, Allow, score)]"
  proof -
    have "cache st3 = snd (cache_insert (cache_new n) ?key (cached_of_report 2 (w_scanned_at w) r))"
        "definition_generation st3 = 2"
      by (simp_all add: st3_def store_verdict_def st2_def st1)
    moreover have "fst (cache_get (snd (cache_insert (cache_new n) ?key (cached_of_report 2 (w_scanned_at w) r))) ?key 2 (w_now w')) =
        Some (cached_of_report 2 (w_scanned_at w) r)"
      using cache_get_inserted [OF old(2), of "w_now w'"] later(1) by (simp add: cached_of_report_def)
    ultimately show ?thesis
      using w later(2) old(3)
      by (simp add: handle_file_def look_up_def Let_def settle_frame execution_driver_verdict_def should_block_def
          report_of_cached_def cached_of_report_def prod_eq_iff split: prod.splits)
  qed
  ultimately show ?thesis by (intro exI [of _ p5]) (simp add: p5_def)
qed

text \<open>
  Forgetting a shard, as restoring a file from quarantine does, does not move the generation: a verdict
  reached between the restore and the forgetting stays in the cache and is still given.
\<close>

lemma forgetting_keeps_cached_verdict:
  assumes "look_up n opened now st = (Answered r, st')"
  shows "look_up n opened now (st\<lparr>learned := store\<rparr>) = (Answered r, st'\<lparr>learned := store\<rparr>)"
  using assms by (auto simp: look_up_def Let_def split: option.splits prod.splits if_splits)

end
