(* ===== verification/Updater.thy ===== *)
theory Updater
  imports Unicode Collections
begin

text \<open>
  Signed updates and the store that activates them, \<^verbatim>\<open>src/updater.rs\<close>. Ed25519, SHA-256, the URL parser
  and the JSON codec are third-party crates and fields of \<open>update_env\<close>. The store is a map of committed
  version directories and two pointer files; the lock makes activations sequential, and a record says
  which calls of the file system fail, so every point at which an activation can stop is covered.
  A time is the pair of seconds and nanoseconds that the crate \<^verbatim>\<open>chrono\<close> keeps.
\<close>

section \<open>Times\<close>

type_synonym time = "int \<times> nat"

definition CHRONO_MAX_SECONDS :: int where "CHRONO_MAX_SECONDS = 8210266876799"

definition time_le :: "time \<Rightarrow> time \<Rightarrow> bool" where
  "time_le a b \<longleftrightarrow> fst a < fst b \<or> (fst a = fst b \<and> snd a \<le> snd b)"

definition time_less :: "time \<Rightarrow> time \<Rightarrow> bool" where
  "time_less a b \<longleftrightarrow> \<not> time_le b a"

definition checked_add_seconds :: "time \<Rightarrow> nat \<Rightarrow> time option" where
  "checked_add_seconds t s = (if fst t + int s > CHRONO_MAX_SECONDS then None else Some (fst t + int s, snd t))"

section \<open>Manifests\<close>

definition UPDATE_SCHEMA_VERSION :: nat where "UPDATE_SCHEMA_VERSION = 2"
definition UPDATE_PRODUCT_ID :: bytes where "UPDATE_PRODUCT_ID = bytes_of ''blackshard''"
definition UPDATE_CHANNEL :: bytes where "UPDATE_CHANNEL = bytes_of ''stable''"
definition MAX_UPDATE_SEQUENCE :: nat where "MAX_UPDATE_SEQUENCE = u64_max - 1"
definition MAX_UPDATE_EXPIRY_HORIZON :: nat where "MAX_UPDATE_EXPIRY_HORIZON = 7 * 24 * 60 * 60"
definition MAX_UPDATE_CLOCK_SKEW :: nat where "MAX_UPDATE_CLOCK_SKEW = 15 * 60"
definition MAX_ENVELOPE_BYTES :: nat where "MAX_ENVELOPE_BYTES = 64 * 1024"
definition UPDATE_CHECK_INTERVAL :: nat where "UPDATE_CHECK_INTERVAL = 4 * 60 * 60"
definition UPDATE_CHECK_JITTER :: nat where "UPDATE_CHECK_JITTER = 15 * 60"
definition SIGNING_DOMAIN :: bytes where "SIGNING_DOMAIN = bytes_of ''BLACKSHARD-UPDATE-MANIFEST-V2'' @ [0]"
definition ACTIVATION_POINTER_SCHEMA_VERSION :: nat where "ACTIVATION_POINTER_SCHEMA_VERSION = 1"

record manifest =
  mf_schema_version :: nat
  mf_product :: bytes
  mf_channel :: bytes
  mf_sequence :: nat
  mf_version :: bytes
  mf_issued_at :: time
  mf_expires_at :: time
  mf_payload_url :: bytes
  mf_payload_size :: nat
  mf_payload_sha256 :: bytes

record envelope =
  en_manifest :: manifest
  en_signature :: bytes

datatype update_error =
  UnsupportedSchema nat | WrongProduct bytes | WrongChannel bytes | MalformedManifest | NonHttpsUrl
  | InvalidSignatureEncoding | InvalidPublicKey | InvalidSignature | IssuedInFuture | Expired time | ExpiryTooFar
  | SequenceOutOfRange nat | RollbackOffered nat nat | SequenceConflict nat | Oversized nat nat | SizeMismatch nat nat | HashMismatch
  | EnvelopeTooLarge nat | StateCorrupt | StorageConflict | SerializationFailed | UpdateIo

text \<open>Hexadecimal text, two digits per byte.\<close>

definition hex_nibble_byte :: "byte \<Rightarrow> nat option" where
  "hex_nibble_byte b =
     (if 48 \<le> b \<and> b \<le> 57 then Some (unat b - 48)
      else if 97 \<le> b \<and> b \<le> 102 then Some (unat b - 97 + 10)
      else if 65 \<le> b \<and> b \<le> 70 then Some (unat b - 65 + 10) else None)"

fun decode_pairs :: "bytes \<Rightarrow> bytes option" where
  "decode_pairs (h # l # rest) =
     (case (hex_nibble_byte h, hex_nibble_byte l) of
        (Some high, Some low) \<Rightarrow> map_option ((#) (word_of_nat (high * 16 + low))) (decode_pairs rest)
      | _ \<Rightarrow> None)"
| "decode_pairs _ = Some []"

definition decode_hex_exact :: "nat \<Rightarrow> bytes \<Rightarrow> bytes option" where
  "decode_hex_exact n input = (if length input \<noteq> n * 2 then None else decode_pairs input)"

text \<open>\<^verbatim>\<open>to_be_bytes\<close> of an integer of \<open>k\<close> bytes; signed ones in two's complement.\<close>

fun be_bytes :: "nat \<Rightarrow> nat \<Rightarrow> bytes" where
  "be_bytes 0 n = []"
| "be_bytes (Suc k) n = word_of_nat (n div 256 ^ k) # be_bytes k (n mod 256 ^ k)"

definition be_signed :: "nat \<Rightarrow> int \<Rightarrow> bytes" where
  "be_signed k i = be_bytes k (nat (i mod 256 ^ k))"

definition append_length_prefixed :: "bytes \<Rightarrow> bytes \<Rightarrow> bytes option" where
  "append_length_prefixed destination v =
     (if length v > u32_max then None else Some (destination @ be_bytes 4 (length v) @ v))"

definition time_bytes :: "time \<Rightarrow> bytes" where
  "time_bytes t = be_signed 8 (fst t) @ be_bytes 4 (snd t)"

definition signing_bytes :: "manifest \<Rightarrow> update_error + bytes" where
  "signing_bytes m =
     (case decode_hex_exact 32 (mf_payload_sha256 m) of
        None \<Rightarrow> Inl MalformedManifest
      | Some digest \<Rightarrow>
          (case append_length_prefixed (SIGNING_DOMAIN @ be_bytes 4 (mf_schema_version m)) (mf_product m) of
             None \<Rightarrow> Inl MalformedManifest
           | Some bs \<Rightarrow>
               (case append_length_prefixed bs (mf_channel m) of
                  None \<Rightarrow> Inl MalformedManifest
                | Some bs \<Rightarrow>
                    (case append_length_prefixed
                       (bs @ be_bytes 8 (mf_sequence m) @ time_bytes (mf_issued_at m) @ time_bytes (mf_expires_at m) @
                        be_bytes 8 (mf_payload_size m)) (mf_version m) of
                       None \<Rightarrow> Inl MalformedManifest
                     | Some bs \<Rightarrow>
                         (case append_length_prefixed bs (mf_payload_url m) of
                            None \<Rightarrow> Inl MalformedManifest
                          | Some bs \<Rightarrow> Inr (bs @ digest))))))"

text \<open>The ranges of the types of the fields.\<close>

definition time_typed :: "time \<Rightarrow> bool" where
  "time_typed t \<longleftrightarrow> - (2 ^ 63) \<le> fst t \<and> fst t < 2 ^ 63 \<and> snd t < 2 ^ 32"

definition manifest_typed :: "manifest \<Rightarrow> bool" where
  "manifest_typed m \<longleftrightarrow>
     mf_schema_version m < 2 ^ 32 \<and> mf_sequence m < 2 ^ 64 \<and> mf_payload_size m < 2 ^ 64 \<and>
     time_typed (mf_issued_at m) \<and> time_typed (mf_expires_at m)"

section \<open>Verification\<close>

record parsed_url =
  u_scheme :: string
  u_has_host :: bool
  u_has_username :: bool
  u_has_password :: bool
  u_has_fragment :: bool

record activation_pointer =
  ap_schema_version :: nat
  ap_sequence :: nat
  ap_version :: bytes
  ap_expires_at :: time
  ap_payload_sha256 :: bytes

text \<open>The crates the updater calls.\<close>

record update_env =
  parse_url :: "bytes \<Rightarrow> parsed_url option"
  key_is_valid :: "bytes \<Rightarrow> bool"
  verify_strict :: "bytes \<Rightarrow> bytes \<Rightarrow> bytes \<Rightarrow> bool"
  sha256_digest :: "bytes \<Rightarrow> bytes"
  envelope_to_json :: "envelope \<Rightarrow> bytes"
  envelope_of_json :: "bytes \<Rightarrow> envelope option"
  pointer_to_json :: "activation_pointer \<Rightarrow> bytes"
  pointer_of_json :: "bytes \<Rightarrow> activation_pointer option"

definition is_https :: "parsed_url \<Rightarrow> bool" where
  "is_https u \<longleftrightarrow> u_scheme u = ''https'' \<and> u_has_host u \<and> \<not> u_has_username u \<and> \<not> u_has_password u \<and> \<not> u_has_fragment u"

definition is_blank :: "bytes \<Rightarrow> bool" where
  "is_blank s \<longleftrightarrow> list_all is_whitespace_char (chars s)"

definition validate_manifest_shape :: "update_env \<Rightarrow> manifest \<Rightarrow> update_error + unit" where
  "validate_manifest_shape env m =
     (if mf_schema_version m \<noteq> UPDATE_SCHEMA_VERSION then Inl (UnsupportedSchema (mf_schema_version m))
      else if mf_product m \<noteq> UPDATE_PRODUCT_ID then Inl (WrongProduct (mf_product m))
      else if mf_channel m \<noteq> UPDATE_CHANNEL then Inl (WrongChannel (mf_channel m))
      else if mf_sequence m = 0 then Inl MalformedManifest
      else if mf_sequence m > MAX_UPDATE_SEQUENCE then Inl (SequenceOutOfRange (mf_sequence m))
      else if is_blank (mf_version m) \<or> length (mf_version m) > 128 then Inl MalformedManifest
      else if time_le (mf_expires_at m) (mf_issued_at m) then Inl MalformedManifest
      else if mf_payload_size m = 0 then Inl MalformedManifest
      else if length (mf_payload_url m) > 2048 then Inl MalformedManifest
      else case parse_url env (mf_payload_url m) of
             None \<Rightarrow> Inl NonHttpsUrl
           | Some u \<Rightarrow>
               if \<not> is_https u then Inl NonHttpsUrl
               else if decode_hex_exact 32 (mf_payload_sha256 m) = None then Inl MalformedManifest
               else Inr ())"

definition verify_times :: "manifest \<Rightarrow> time \<Rightarrow> nat \<Rightarrow> update_error + unit" where
  "verify_times m now maximum =
     (case checked_add_seconds now MAX_UPDATE_CLOCK_SKEW of
        None \<Rightarrow> Inl MalformedManifest
      | Some latest_issuance \<Rightarrow>
          if time_less latest_issuance (mf_issued_at m) then Inl IssuedInFuture
          else if time_le (mf_expires_at m) now then Inl (Expired (mf_expires_at m))
          else (case checked_add_seconds (mf_issued_at m) MAX_UPDATE_EXPIRY_HORIZON of
                  None \<Rightarrow> Inl MalformedManifest
                | Some latest_allowed \<Rightarrow>
                    if time_less latest_allowed (mf_expires_at m) then Inl ExpiryTooFar
                    else if mf_payload_size m > maximum then Inl (Oversized (mf_payload_size m) maximum)
                    else Inr ()))"

definition verify_manifest :: "update_env \<Rightarrow> envelope \<Rightarrow> time \<Rightarrow> nat \<Rightarrow> bytes \<Rightarrow> update_error + unit" where
  "verify_manifest env e now maximum key =
     (case validate_manifest_shape env (en_manifest e) of
        Inl err \<Rightarrow> Inl err
      | Inr _ \<Rightarrow>
          (case decode_hex_exact 64 (en_signature e) of
             None \<Rightarrow> Inl InvalidSignatureEncoding
           | Some signature \<Rightarrow>
               if \<not> key_is_valid env key then Inl InvalidPublicKey
               else (case signing_bytes (en_manifest e) of
                       Inl err \<Rightarrow> Inl err
                     | Inr signed_bytes \<Rightarrow>
                         if \<not> verify_strict env key signed_bytes signature then Inl InvalidSignature
                         else verify_times (en_manifest e) now maximum)))"

record verified_update =
  vu_manifest :: manifest
  vu_payload_sha256 :: bytes

definition verify_update :: "update_env \<Rightarrow> envelope \<Rightarrow> bytes \<Rightarrow> nat \<Rightarrow> time \<Rightarrow> nat \<Rightarrow> bytes \<Rightarrow> update_error + verified_update" where
  "verify_update env e payload installed now maximum key =
     (case verify_manifest env e now maximum key of
        Inl err \<Rightarrow> Inl err
      | Inr _ \<Rightarrow>
          if mf_sequence (en_manifest e) \<le> installed then Inl (RollbackOffered (mf_sequence (en_manifest e)) installed)
          else if length payload \<noteq> mf_payload_size (en_manifest e)
          then Inl (SizeMismatch (mf_payload_size (en_manifest e)) (length payload))
          else (case decode_hex_exact 32 (mf_payload_sha256 (en_manifest e)) of
                  None \<Rightarrow> Inl MalformedManifest
                | Some expected \<Rightarrow>
                    if sha256_digest env payload \<noteq> expected then Inl HashMismatch
                    else Inr \<lparr>vu_manifest = en_manifest e, vu_payload_sha256 = expected\<rparr>))"

definition envelope_from_json :: "update_env \<Rightarrow> bytes \<Rightarrow> update_error + envelope" where
  "envelope_from_json env bs =
     (if length bs > MAX_ENVELOPE_BYTES then Inl (EnvelopeTooLarge (length bs))
      else case envelope_of_json env bs of None \<Rightarrow> Inl SerializationFailed | Some e \<Rightarrow> Inr e)"

section \<open>The store\<close>

datatype stored_file = NoFile | NotRegular | Unreadable | Holds bytes

record version_directory =
  vd_is_directory :: bool
  vd_envelope :: stored_file
  vd_payload :: stored_file

text \<open>A version directory is named by the sequence and the digest in lower case.\<close>

type_synonym version_name = "nat \<times> bytes"

record update_disk =
  versions :: "version_name \<Rightarrow> version_directory option"
  current_pointer :: stored_file
  previous_pointer :: stored_file

record activate_io =
  ai_layout :: bool
  ai_lock :: bool
  ai_stage :: bool
  ai_rename :: bool
  ai_previous :: bool
  ai_current :: bool

definition version_directory_name :: "nat \<Rightarrow> bytes \<Rightarrow> version_name" where
  "version_directory_name sequence digest_hex = (sequence, map to_ascii_lowercase digest_hex)"

definition read_optional_bounded :: "stored_file \<Rightarrow> nat \<Rightarrow> update_error + bytes option" where
  "read_optional_bounded f maximum =
     (case f of
        NoFile \<Rightarrow> Inr None
      | NotRegular \<Rightarrow> Inl StorageConflict
      | Unreadable \<Rightarrow> Inl UpdateIo
      | Holds bs \<Rightarrow> if length bs > maximum then Inl StateCorrupt else Inr (Some bs))"

definition parse_pointer :: "update_env \<Rightarrow> bytes \<Rightarrow> update_error + activation_pointer" where
  "parse_pointer env bs =
     (case pointer_of_json env bs of
        None \<Rightarrow> Inl StateCorrupt
      | Some p \<Rightarrow>
          if ap_schema_version p \<noteq> ACTIVATION_POINTER_SCHEMA_VERSION \<or> ap_sequence p = 0 \<or> ap_sequence p > MAX_UPDATE_SEQUENCE
          then Inl StateCorrupt
          else if decode_hex_exact 32 (ap_payload_sha256 p) = None then Inl StateCorrupt
          else Inr p)"

definition read_pointer :: "update_env \<Rightarrow> stored_file \<Rightarrow> update_error + activation_pointer option" where
  "read_pointer env f =
     (case read_optional_bounded f MAX_ENVELOPE_BYTES of
        Inl err \<Rightarrow> Inl err
      | Inr None \<Rightarrow> Inr None
      | Inr (Some bs) \<Rightarrow> (case parse_pointer env bs of Inl err \<Rightarrow> Inl err | Inr p \<Rightarrow> Inr (Some p)))"

definition installed_sequence :: "update_env \<Rightarrow> update_disk \<Rightarrow> update_error + nat" where
  "installed_sequence env d =
     (case read_pointer env (current_pointer d) of
        Inl err \<Rightarrow> Inl err
      | Inr None \<Rightarrow> Inr 0
      | Inr (Some p) \<Rightarrow> Inr (ap_sequence p))"

definition validate_existing_version :: "update_env \<Rightarrow> version_directory \<Rightarrow> envelope \<Rightarrow> nat \<Rightarrow> bytes \<Rightarrow> update_error + unit" where
  "validate_existing_version env v e sz digest =
     (if \<not> vd_is_directory v then Inl StorageConflict
      else case read_optional_bounded (vd_envelope v) MAX_ENVELOPE_BYTES of
        Inl err \<Rightarrow> Inl err
      | Inr None \<Rightarrow> Inl StorageConflict
      | Inr (Some bs) \<Rightarrow>
          (case envelope_from_json env bs of
             Inl _ \<Rightarrow> Inl StorageConflict
           | Inr stored \<Rightarrow>
               if stored \<noteq> e then Inl StorageConflict
               else (case vd_payload v of
                       Holds payload \<Rightarrow>
                         if length payload \<noteq> sz \<or> sha256_digest env payload \<noteq> digest then Inl StorageConflict else Inr ()
                     | _ \<Rightarrow> Inl StorageConflict)))"

definition commit_immutable_version :: "update_env \<Rightarrow> activate_io \<Rightarrow> version_name \<Rightarrow> envelope \<Rightarrow> bytes \<Rightarrow> bytes \<Rightarrow> update_disk \<Rightarrow>
    (update_error + unit) \<times> update_disk" where
  "commit_immutable_version env io name e payload digest d =
     (case versions d name of
        Some v \<Rightarrow> (validate_existing_version env v e (length payload) digest, d)
      | None \<Rightarrow>
          if \<not> ai_stage io \<or> \<not> ai_rename io then (Inl UpdateIo, d)
          else (Inr (), d\<lparr>versions := (versions d)(name \<mapsto>
                  \<lparr>vd_is_directory = True, vd_envelope = Holds (envelope_to_json env e), vd_payload = Holds payload\<rparr>)\<rparr>))"

text \<open>The pointers are moved last: the old one is kept as the previous one, then the new one replaces it.\<close>

definition move_pointers :: "update_env \<Rightarrow> activate_io \<Rightarrow> activation_pointer \<Rightarrow> update_disk \<Rightarrow> (update_error + unit) \<times> update_disk" where
  "move_pointers env io pointer d =
     (case read_optional_bounded (current_pointer d) MAX_ENVELOPE_BYTES of
        Inl err \<Rightarrow> (Inl err, d)
      | Inr old \<Rightarrow>
          (case (case old of
                   None \<Rightarrow> Inr d
                 | Some bs \<Rightarrow>
                     (case parse_pointer env bs of
                        Inl err \<Rightarrow> Inl err
                      | Inr _ \<Rightarrow> if ai_previous io then Inr (d\<lparr>previous_pointer := Holds bs\<rparr>) else Inl UpdateIo)) of
             Inl err \<Rightarrow> (Inl err, d)
           | Inr d \<Rightarrow>
               if ai_current io then (Inr (), d\<lparr>current_pointer := Holds (pointer_to_json env pointer)\<rparr>)
               else (Inl UpdateIo, d)))"

definition pointer_for :: "manifest \<Rightarrow> activation_pointer" where
  "pointer_for m = \<lparr>ap_schema_version = ACTIVATION_POINTER_SCHEMA_VERSION, ap_sequence = mf_sequence m, ap_version = mf_version m,
     ap_expires_at = mf_expires_at m, ap_payload_sha256 = map to_ascii_lowercase (mf_payload_sha256 m)\<rparr>"

definition stage_and_activate :: "update_env \<Rightarrow> activate_io \<Rightarrow> nat \<Rightarrow> bytes \<Rightarrow> envelope \<Rightarrow> bytes \<Rightarrow> time \<Rightarrow> update_disk \<Rightarrow>
    (update_error + activation_pointer) \<times> update_disk" where
  "stage_and_activate env io maximum key e payload now d =
     (if \<not> ai_layout io \<or> \<not> ai_lock io then (Inl UpdateIo, d)
      else case installed_sequence env d of
        Inl err \<Rightarrow> (Inl err, d)
      | Inr installed \<Rightarrow>
          (case verify_update env e payload installed now maximum key of
             Inl err \<Rightarrow> (Inl err, d)
           | Inr v \<Rightarrow>
               let m = vu_manifest v;
                   name = version_directory_name (mf_sequence m) (mf_payload_sha256 m);
                   pointer = pointer_for m
               in (case commit_immutable_version env io name e payload (vu_payload_sha256 v) d of
                     (Inl err, d) \<Rightarrow> (Inl err, d)
                   | (Inr _, d) \<Rightarrow>
                       (case move_pointers env io pointer d of
                          (Inl err, d) \<Rightarrow> (Inl err, d)
                        | (Inr _, d) \<Rightarrow> (Inr pointer, d)))))"

section \<open>The scheduler\<close>

text \<open>An interval and a maximal jitter in seconds; \<open>u64\<close> arithmetic saturates.\<close>

definition delay_for_sample :: "nat \<Rightarrow> nat \<Rightarrow> nat \<Rightarrow> nat" where
  "delay_for_sample interval jitter random_sample =
     (let maximum_jitter = min jitter (interval - 1);
          span = saturating_add u64_max (min u64_max (maximum_jitter * 2)) 1;
          selected = (if span = 0 then 0 else random_sample mod span)
      in saturating_add u64_max (interval - maximum_jitter) selected)"

section \<open>The signed form determines the manifest\<close>

lemma length_be_bytes [simp]: "length (be_bytes k n) = k"
  by (induction k arbitrary: n) auto

lemma be_bytes_inj: "be_bytes k a = be_bytes k b \<Longrightarrow> a < 256 ^ k \<Longrightarrow> b < 256 ^ k \<Longrightarrow> a = b"
proof (induction k arbitrary: a b)
  case (Suc k)
  have small: "a div 256 ^ k < 256" "b div 256 ^ k < 256"
    using Suc.prems(2,3) by (simp_all add: less_mult_imp_div_less mult.commute)
  have "(word_of_nat (a div 256 ^ k) :: byte) = word_of_nat (b div 256 ^ k)" using Suc.prems(1) by simp
  then have "unat (word_of_nat (a div 256 ^ k) :: byte) = unat (word_of_nat (b div 256 ^ k) :: byte)" by simp
  then have "a div 256 ^ k = b div 256 ^ k" using small by (simp add: unat_of_nat)
  moreover have "a mod 256 ^ k = b mod 256 ^ k" using Suc by simp
  ultimately show ?case by (metis div_mult_mod_eq)
qed simp

lemma be_signed_inj: "be_signed 8 a = be_signed 8 b \<Longrightarrow> - (2 ^ 63) \<le> a \<Longrightarrow> a < 2 ^ 63 \<Longrightarrow> - (2 ^ 63) \<le> b \<Longrightarrow> b < 2 ^ 63 \<Longrightarrow> a = b"
proof -
  assume e: "be_signed 8 a = be_signed 8 b" and r: "- (2 ^ 63) \<le> a" "a < 2 ^ 63" "- (2 ^ 63) \<le> b" "b < 2 ^ 63"
  have "nat (a mod 256 ^ 8) = nat (b mod 256 ^ 8)"
    using e by (auto simp: be_signed_def intro!: be_bytes_inj)
  then have "a mod 256 ^ 8 = b mod 256 ^ 8" by (simp add: nat_eq_iff)
  then have "(256 ^ 8 :: int) dvd a - b" by (rule mod_eq_dvd_iff [THEN iffD1])
  then show "a = b" using r dvd_imp_le_int [of "a - b" "256 ^ 8"] by (cases "a = b") auto
qed

lemma time_bytes_inj: "time_bytes a = time_bytes b \<Longrightarrow> time_typed a \<Longrightarrow> time_typed b \<Longrightarrow> a = b"
proof -
  assume e: "time_bytes a = time_bytes b" and t: "time_typed a" "time_typed b"
  have "be_signed 8 (fst a) = be_signed 8 (fst b)" "be_bytes 4 (snd a) = be_bytes 4 (snd b)"
    using e by (auto simp: time_bytes_def be_signed_def)
  then show "a = b"
    using t be_signed_inj [of "fst a" "fst b"] be_bytes_inj [of 4 "snd a" "snd b"] by (auto simp: time_typed_def prod_eq_iff)
qed

lemma length_time_bytes [simp]: "length (time_bytes t) = 12"
  by (simp add: time_bytes_def be_signed_def)

text \<open>A length-prefixed field, and the numbers in the middle of the signed form.\<close>

definition prefixed :: "bytes \<Rightarrow> bytes" where
  "prefixed v = be_bytes 4 (length v) @ v"

definition fixed_part :: "manifest \<Rightarrow> bytes" where
  "fixed_part m = be_bytes 8 (mf_sequence m) @ time_bytes (mf_issued_at m) @ time_bytes (mf_expires_at m) @ be_bytes 8 (mf_payload_size m)"

lemma prefixed_inj:
  assumes "prefixed v @ rest = prefixed v' @ rest'" and "length v \<le> u32_max" and "length v' \<le> u32_max"
  shows "v = v'" "rest = rest'"
proof -
  have "be_bytes 4 (length v) = be_bytes 4 (length v')" "v @ rest = v' @ rest'" using assms(1) by (auto simp: prefixed_def)
  moreover have "length v = length v'"
    using be_bytes_inj [of 4 "length v" "length v'"] calculation(1) assms(2,3) by (simp add: u32_max_def)
  ultimately show "v = v'" "rest = rest'" by simp_all
qed

lemma fixed_part_inj:
  assumes "fixed_part m @ rest = fixed_part m' @ rest'" and "manifest_typed m" and "manifest_typed m'"
  shows "mf_sequence m = mf_sequence m'" "mf_payload_size m = mf_payload_size m'" "mf_issued_at m = mf_issued_at m'"
    "mf_expires_at m = mf_expires_at m'" "rest = rest'"
proof -
  have "be_bytes 8 (mf_sequence m) = be_bytes 8 (mf_sequence m')" "time_bytes (mf_issued_at m) = time_bytes (mf_issued_at m')"
      "time_bytes (mf_expires_at m) = time_bytes (mf_expires_at m')" "be_bytes 8 (mf_payload_size m) = be_bytes 8 (mf_payload_size m')"
      and rest: "rest = rest'"
    using assms(1) by (simp_all add: fixed_part_def)
  then show "mf_sequence m = mf_sequence m'" "mf_payload_size m = mf_payload_size m'" "mf_issued_at m = mf_issued_at m'"
      "mf_expires_at m = mf_expires_at m'" "rest = rest'"
    using assms(2,3) by (auto simp: manifest_typed_def intro: be_bytes_inj time_bytes_inj)
qed

lemma signing_bytes_form:
  assumes "signing_bytes m = Inr bs"
  obtains digest where "decode_hex_exact 32 (mf_payload_sha256 m) = Some digest"
    "bs = SIGNING_DOMAIN @ be_bytes 4 (mf_schema_version m) @ prefixed (mf_product m) @ prefixed (mf_channel m) @ fixed_part m @
       prefixed (mf_version m) @ prefixed (mf_payload_url m) @ digest"
    "length (mf_product m) \<le> u32_max" "length (mf_channel m) \<le> u32_max" "length (mf_version m) \<le> u32_max"
    "length (mf_payload_url m) \<le> u32_max"
  using assms
  by (auto simp: signing_bytes_def append_length_prefixed_def prefixed_def fixed_part_def split: option.splits if_splits)

text \<open>
  What is signed determines what is meant: two manifests with the same signing bytes agree in
  every field, apart from the letter case of the digest's hexadecimal text. A signature over one
  manifest is therefore never a signature over another.
\<close>

theorem signing_bytes_injective:
  assumes "manifest_typed m" and "manifest_typed m'" and "signing_bytes m = Inr bs" and "signing_bytes m' = Inr bs"
  shows "m' = m\<lparr>mf_payload_sha256 := mf_payload_sha256 m'\<rparr> \<and>
    decode_hex_exact 32 (mf_payload_sha256 m') = decode_hex_exact 32 (mf_payload_sha256 m)"
proof -
  obtain d where m: "decode_hex_exact 32 (mf_payload_sha256 m) = Some d"
      "bs = SIGNING_DOMAIN @ be_bytes 4 (mf_schema_version m) @ prefixed (mf_product m) @ prefixed (mf_channel m) @ fixed_part m @
         prefixed (mf_version m) @ prefixed (mf_payload_url m) @ d"
      and l: "length (mf_product m) \<le> u32_max" "length (mf_channel m) \<le> u32_max" "length (mf_version m) \<le> u32_max"
        "length (mf_payload_url m) \<le> u32_max"
    using assms(3) by (rule signing_bytes_form)
  obtain d' where m': "decode_hex_exact 32 (mf_payload_sha256 m') = Some d'"
      "bs = SIGNING_DOMAIN @ be_bytes 4 (mf_schema_version m') @ prefixed (mf_product m') @ prefixed (mf_channel m') @ fixed_part m' @
         prefixed (mf_version m') @ prefixed (mf_payload_url m') @ d'"
      and l': "length (mf_product m') \<le> u32_max" "length (mf_channel m') \<le> u32_max" "length (mf_version m') \<le> u32_max"
        "length (mf_payload_url m') \<le> u32_max"
    using assms(4) by (rule signing_bytes_form)
  have schema: "be_bytes 4 (mf_schema_version m) = be_bytes 4 (mf_schema_version m')"
    and rest: "prefixed (mf_product m) @ prefixed (mf_channel m) @ fixed_part m @ prefixed (mf_version m) @ prefixed (mf_payload_url m) @ d =
      prefixed (mf_product m') @ prefixed (mf_channel m') @ fixed_part m' @ prefixed (mf_version m') @ prefixed (mf_payload_url m') @ d'"
    using m(2) m'(2) by simp_all
  note p = prefixed_inj [OF rest l(1) l'(1)]
  note c = prefixed_inj [OF p(2) l(2) l'(2)]
  note f = fixed_part_inj [OF c(2) assms(1,2)]
  note v = prefixed_inj [OF f(5) l(3) l'(3)]
  note u = prefixed_inj [OF v(2) l(4) l'(4)]
  have "mf_schema_version m = mf_schema_version m'"
    using schema assms(1,2) by (auto simp: manifest_typed_def intro: be_bytes_inj)
  then show ?thesis using p(1) c(1) f(1-4) v(1) u m(1) m'(1) by simp
qed

section \<open>What the store guarantees\<close>

text \<open>What is relied on of the JSON codec for an offered envelope: it is read back, and it is short.\<close>

definition codec_for :: "update_env \<Rightarrow> envelope \<Rightarrow> bool" where
  "codec_for env e \<longleftrightarrow>
     envelope_of_json env (envelope_to_json env e) = Some e \<and> length (envelope_to_json env e) \<le> MAX_ENVELOPE_BYTES \<and>
     pointer_of_json env (pointer_to_json env (pointer_for (en_manifest e))) = Some (pointer_for (en_manifest e)) \<and>
     length (pointer_to_json env (pointer_for (en_manifest e))) \<le> MAX_ENVELOPE_BYTES"

definition is_signed :: "update_env \<Rightarrow> bytes \<Rightarrow> envelope \<Rightarrow> bool" where
  "is_signed env key e \<longleftrightarrow>
     (\<exists>message signature. signing_bytes (en_manifest e) = Inr message \<and> decode_hex_exact 64 (en_signature e) = Some signature \<and>
        verify_strict env key message signature)"

text \<open>A pointer is backed: its version is there, complete, signed, and its payload has the signed digest.\<close>

definition backed :: "update_env \<Rightarrow> bytes \<Rightarrow> update_disk \<Rightarrow> activation_pointer \<Rightarrow> bool" where
  "backed env key d p \<longleftrightarrow>
     (\<exists>v bs e payload. versions d (version_directory_name (ap_sequence p) (ap_payload_sha256 p)) = Some v \<and> vd_is_directory v \<and>
        vd_envelope v = Holds bs \<and> envelope_from_json env bs = Inr e \<and> vd_payload v = Holds payload \<and>
        is_signed env key e \<and> pointer_for (en_manifest e) = p \<and>
        decode_hex_exact 32 (mf_payload_sha256 (en_manifest e)) = Some (sha256_digest env payload) \<and>
        length payload = mf_payload_size (en_manifest e))"

definition pointer_ok :: "update_env \<Rightarrow> bytes \<Rightarrow> update_disk \<Rightarrow> stored_file \<Rightarrow> bool" where
  "pointer_ok env key d f \<longleftrightarrow> f = NoFile \<or> (\<exists>p. read_pointer env f = Inr (Some p) \<and> backed env key d p)"

definition store_ok :: "update_env \<Rightarrow> bytes \<Rightarrow> update_disk \<Rightarrow> bool" where
  "store_ok env key d \<longleftrightarrow> pointer_ok env key d (current_pointer d) \<and> pointer_ok env key d (previous_pointer d)"

lemma hex_nibble_lower: "hex_nibble_byte (to_ascii_lowercase b) = hex_nibble_byte b"
proof (cases "65 \<le> b \<and> b \<le> 90")
  case True
  then have "unat b \<ge> 65" "unat b \<le> 90" by (simp_all add: word_le_nat_alt)
  then have "unat (b + 32) = unat b + 32" by (simp add: unat_word_ariths)
  with True show ?thesis by (auto simp: to_ascii_lowercase_def hex_nibble_byte_def word_le_nat_alt)
qed (auto simp: to_ascii_lowercase_def)

lemma decode_hex_lower: "decode_hex_exact n (map to_ascii_lowercase s) = decode_hex_exact n s"
proof -
  have "decode_pairs (map to_ascii_lowercase s) = decode_pairs s"
    by (induction s rule: decode_pairs.induct) (auto simp: hex_nibble_lower split: option.split)
  then show ?thesis by (simp add: decode_hex_exact_def)
qed

lemma verify_update_signed:
  assumes "verify_update env e payload installed now maximum key = Inr v"
  shows "is_signed env key e" "v = \<lparr>vu_manifest = en_manifest e, vu_payload_sha256 = sha256_digest env payload\<rparr>"
    "mf_sequence (en_manifest e) > installed" "length payload = mf_payload_size (en_manifest e)" "mf_sequence (en_manifest e) \<le> MAX_UPDATE_SEQUENCE"
    "decode_hex_exact 32 (mf_payload_sha256 (en_manifest e)) = Some (sha256_digest env payload)"
    "time_less now (mf_expires_at (en_manifest e))"
  using assms
  by (auto simp: verify_update_def verify_manifest_def validate_manifest_shape_def verify_times_def is_signed_def time_less_def
      split: sum.splits option.splits if_splits)

lemma pointer_for_parses:
  assumes "verify_update env e payload installed now maximum key = Inr v" and "codec_for env e"
  shows "read_pointer env (Holds (pointer_to_json env (pointer_for (en_manifest e)))) = Inr (Some (pointer_for (en_manifest e)))"
  using verify_update_signed(3,5,6) [OF assms(1)] assms(2)
  by (simp add: read_pointer_def read_optional_bounded_def parse_pointer_def codec_for_def pointer_for_def decode_hex_lower)

lemma commit_cases:
  assumes "commit_immutable_version env io name e payload digest d = (r, d')"
  shows "current_pointer d' = current_pointer d" "previous_pointer d' = previous_pointer d"
    "versions d n = Some v \<Longrightarrow> versions d' n = Some v"
  using assms by (auto simp: commit_immutable_version_def split: option.splits if_splits)

lemma commit_backs:
  assumes "verify_update env e payload installed now maximum key = Inr v" and "codec_for env e"
    and "commit_immutable_version env io (version_directory_name (mf_sequence (en_manifest e)) (mf_payload_sha256 (en_manifest e)))
           e payload (sha256_digest env payload) d = (Inr u, d')"
  shows "backed env key d' (pointer_for (en_manifest e))"
proof -
  note signed = verify_update_signed [OF assms(1)]
  have name: "version_directory_name (ap_sequence (pointer_for (en_manifest e))) (ap_payload_sha256 (pointer_for (en_manifest e))) =
      version_directory_name (mf_sequence (en_manifest e)) (mf_payload_sha256 (en_manifest e))"
    by (simp add: version_directory_name_def pointer_for_def to_ascii_lowercase_idem)
  show ?thesis
  proof (cases "versions d (version_directory_name (mf_sequence (en_manifest e)) (mf_payload_sha256 (en_manifest e)))")
    case None
    let ?v = "\<lparr>vd_is_directory = True, vd_envelope = Holds (envelope_to_json env e), vd_payload = Holds payload\<rparr>"
    have "versions d' (version_directory_name (mf_sequence (en_manifest e)) (mf_payload_sha256 (en_manifest e))) = Some ?v"
      using None assms(3) by (auto simp: commit_immutable_version_def split: if_splits)
    moreover have "envelope_from_json env (envelope_to_json env e) = Inr e"
      using assms(2) by (simp add: codec_for_def envelope_from_json_def)
    ultimately show ?thesis
      using signed unfolding backed_def name
      by (intro exI [of _ ?v] exI [of _ "envelope_to_json env e"] exI [of _ e] exI [of _ payload]) simp
  next
    case (Some old)
    then have "validate_existing_version env old e (length payload) (sha256_digest env payload) = Inr ()" "d' = d"
      using assms(3) by (auto simp: commit_immutable_version_def)
    then obtain bs stored where "vd_is_directory old" "vd_envelope old = Holds bs" "envelope_from_json env bs = Inr e"
        "vd_payload old = Holds stored" "length stored = length payload" "sha256_digest env stored = sha256_digest env payload"
      by (auto simp: validate_existing_version_def read_optional_bounded_def split: if_splits sum.splits option.splits stored_file.splits)
    then show ?thesis
      using Some signed \<open>d' = d\<close> unfolding backed_def name by (intro exI [of _ old] exI [of _ bs] exI [of _ e] exI [of _ stored]) simp
  qed
qed

lemma backed_mono: "backed env key d p \<Longrightarrow> (\<And>n v. versions d n = Some v \<Longrightarrow> versions d' n = Some v) \<Longrightarrow> backed env key d' p"
  unfolding backed_def by blast

lemma pointer_ok_mono: "pointer_ok env key d f \<Longrightarrow> (\<And>n v. versions d n = Some v \<Longrightarrow> versions d' n = Some v) \<Longrightarrow> pointer_ok env key d' f"
  unfolding pointer_ok_def using backed_mono by blast

lemma move_pointers_cases:
  assumes "move_pointers env io pointer d = (r, d')"
  shows "versions d' = versions d"
    "previous_pointer d' = previous_pointer d \<or> previous_pointer d' = current_pointer d"
    "current_pointer d' = (if r = Inr () then Holds (pointer_to_json env pointer) else current_pointer d)"
  using assms
  by (auto simp: move_pointers_def read_optional_bounded_def split: sum.splits option.splits if_splits stored_file.splits)

text \<open>An activation either leaves the pointers and the committed versions, or ends in one of its two phases.\<close>

lemma stage_and_activate_cases:
  assumes "stage_and_activate env io maximum key e payload now d = (r, d')"
  obtains (refused) err where "r = Inl err" "d' = d"
    | (uncommitted) err where "r = Inl err" "current_pointer d' = current_pointer d" "previous_pointer d' = previous_pointer d"
        "\<And>n v. versions d n = Some v \<Longrightarrow> versions d' n = Some v"
    | (moved) v d1 q installed where "installed_sequence env d = Inr installed"
        "verify_update env e payload installed now maximum key = Inr v"
        "commit_immutable_version env io (version_directory_name (mf_sequence (en_manifest e)) (mf_payload_sha256 (en_manifest e)))
           e payload (sha256_digest env payload) d = (Inr (), d1)"
        "move_pointers env io (pointer_for (en_manifest e)) d1 = (q, d')"
        "r = (case q of Inl err \<Rightarrow> Inl err | Inr _ \<Rightarrow> Inr (pointer_for (en_manifest e)))"
proof -
  consider "\<exists>err. r = Inl err \<and> d' = d"
    | installed v where "ai_layout io" "ai_lock io" "installed_sequence env d = Inr installed" "verify_update env e payload installed now maximum key = Inr v"
    using assms by (fastforce simp: stage_and_activate_def split: if_splits sum.splits)
  then show thesis
  proof cases
    case 1
    then show thesis using refused by blast
  next
    case (2 installed v)
    note v = verify_update_signed(2) [OF 2(4)]
    obtain c d1 where c: "commit_immutable_version env io (version_directory_name (mf_sequence (en_manifest e)) (mf_payload_sha256 (en_manifest e)))
           e payload (sha256_digest env payload) d = (c, d1)" by fastforce
    show thesis
    proof (cases c)
      case (Inl err)
      then have "r = Inl err" "d' = d1" using assms 2 v c by (auto simp: stage_and_activate_def Let_def)
      then show thesis using uncommitted [of err] commit_cases [OF c] by simp
    next
      case (Inr u)
      obtain q d2 where q: "move_pointers env io (pointer_for (en_manifest e)) d1 = (q, d2)" by fastforce
      then have "r = (case q of Inl err \<Rightarrow> Inl err | Inr _ \<Rightarrow> Inr (pointer_for (en_manifest e)))" "d' = d2"
        using assms 2 v c Inr by (auto simp: stage_and_activate_def Let_def split: sum.splits)
      then show thesis using moved 2(3,4) c q Inr by simp
    qed
  qed
qed

lemma stage_and_activate_ok:
  assumes "store_ok env key d" and "codec_for env e" and "stage_and_activate env io maximum key e payload now d = (r, d')"
  shows "store_ok env key d'"
  using assms(3)
proof (cases rule: stage_and_activate_cases)
  case (uncommitted err)
  then show ?thesis using assms(1) pointer_ok_mono [of env key d _ d'] by (auto simp: store_ok_def)
next
  case (moved v d1 q installed)
  note commit = commit_cases [OF moved(3)] and move = move_pointers_cases [OF moved(4)]
  have kept: "pointer_ok env key d' f" if "pointer_ok env key d f" for f
    using that by (rule pointer_ok_mono) (simp add: move(1) commit(3))
  have "backed env key d1 (pointer_for (en_manifest e))" by (rule commit_backs [OF moved(2) assms(2) moved(3)])
  then have "pointer_ok env key d' (Holds (pointer_to_json env (pointer_for (en_manifest e))))"
    using pointer_for_parses [OF moved(2) assms(2)] backed_mono [of env key d1 _ d'] move(1) by (auto simp: pointer_ok_def)
  then show ?thesis using assms(1) kept commit(1,2) move(2,3) by (auto simp: store_ok_def split: if_splits)
qed (use assms(1) in simp)

text \<open>A sequence of offers: the faults that happen, the envelope, the payload and the time.\<close>

type_synonym offer = "activate_io \<times> envelope \<times> bytes \<times> time"

fun offer_all :: "update_env \<Rightarrow> nat \<Rightarrow> bytes \<Rightarrow> offer list \<Rightarrow> update_disk \<Rightarrow> update_disk" where
  "offer_all env maximum key [] d = d"
| "offer_all env maximum key ((io, e, payload, now) # offers) d =
     offer_all env maximum key offers (snd (stage_and_activate env io maximum key e payload now d))"

definition fresh_disk :: update_disk where
  "fresh_disk = \<lparr>versions = (\<lambda>_. None), current_pointer = NoFile, previous_pointer = NoFile\<rparr>"

text \<open>
  (C10) Only authentic updates are ever active: starting from an empty store, after any sequence of
  offers, good or bad, with any call of the file system failing at any point, the current and the
  previous pointer each are absent or name a version that is complete on disk, whose envelope carries
  a valid signature of the trusted key, and whose payload has exactly the signed size and digest. An
  activation that stops halfway never leaves a pointer to an incomplete or unsigned version.
\<close>

theorem active_updates_authentic:
  assumes "list_all (\<lambda>(io, e, payload, now). codec_for env e) offers"
    and "read_pointer env (current_pointer (offer_all env maximum key offers fresh_disk)) = Inr (Some p) \<or>
         read_pointer env (previous_pointer (offer_all env maximum key offers fresh_disk)) = Inr (Some p)"
  shows "backed env key (offer_all env maximum key offers fresh_disk) p"
proof -
  have "store_ok env key d \<Longrightarrow> store_ok env key (offer_all env maximum key offers d)" for d
    using assms(1)
  proof (induction offers arbitrary: d)
    case (Cons x offers)
    obtain io e payload now where x: "x = (io, e, payload, now)" by (metis prod_cases4)
    have "store_ok env key (snd (stage_and_activate env io maximum key e payload now d))"
      using stage_and_activate_ok [OF Cons.prems(1), of e io maximum payload now] Cons.prems(2) x by (auto simp: prod_eq_iff)
    then show ?case using Cons x by simp
  qed simp
  moreover have "store_ok env key fresh_disk" by (simp add: store_ok_def pointer_ok_def fresh_disk_def)
  ultimately have ok: "store_ok env key (offer_all env maximum key offers fresh_disk)" by blast
  have "read_pointer env NoFile = Inr None" by (simp add: read_pointer_def read_optional_bounded_def)
  then show ?thesis using ok assms(2) by (auto simp: store_ok_def pointer_ok_def)
qed

text \<open>
  (C11) Updates only move forward: an offer succeeds only if its signed sequence is greater than the
  installed one and its time has not expired, and then it is the installed one; an offer that fails,
  at whatever point, leaves the installed sequence as it was. So replaying an older signed update never
  takes a machine back.
\<close>

theorem updates_move_forward:
  assumes "installed_sequence env d = Inr n" and "codec_for env e"
    and "stage_and_activate env io maximum key e payload now d = (r, d')"
  shows "(\<forall>p. r = Inr p \<longrightarrow> n < mf_sequence (en_manifest e) \<and> time_less now (mf_expires_at (en_manifest e)) \<and>
      installed_sequence env d' = Inr (mf_sequence (en_manifest e))) \<and>
    (\<forall>err. r = Inl err \<longrightarrow> installed_sequence env d' = Inr n)"
  using assms(3)
proof (cases rule: stage_and_activate_cases)
  case (uncommitted err)
  then show ?thesis using assms(1) by (simp add: installed_sequence_def)
next
  case (moved v d1 q installed)
  have "installed = n" using moved(1) assms(1) by simp
  note signed = verify_update_signed [OF moved(2)] and move = move_pointers_cases(3) [OF moved(4)]
  show ?thesis
  proof (cases q)
    case (Inl err)
    then show ?thesis using move moved(5) commit_cases(1) [OF moved(3)] assms(1) by (simp add: installed_sequence_def)
  next
    case (Inr u)
    then show ?thesis
      using move moved(5) signed(3,7) \<open>installed = n\<close> pointer_for_parses [OF moved(2) assms(2)]
      by (simp add: installed_sequence_def) (simp add: pointer_for_def)
  qed
qed (use assms(1) in simp)

text \<open>The wait before the next check stays within the jitter around the interval.\<close>

lemma delay_bounds:
  assumes "0 < interval" and "interval < 2 ^ 62" and "jitter < interval"
  shows "interval - jitter \<le> delay_for_sample interval jitter sample \<and> delay_for_sample interval jitter sample \<le> interval + jitter"
proof -
  define k where "k = sample mod Suc (jitter * 2)"
  have bound: "k \<le> jitter * 2" by (simp add: k_def less_Suc_eq_le [symmetric])
  then have "interval + k - jitter \<le> 18446744073709551615" using assms(2,3) by simp
  then have "delay_for_sample interval jitter sample = interval - jitter + k"
    using assms by (simp add: delay_for_sample_def Let_def saturating_add_def u64_max_def k_def [symmetric])
  with bound assms(3) show ?thesis by linarith
qed

section \<open>A concrete update\<close>

definition example_manifest :: manifest where
  "example_manifest = \<lparr>mf_schema_version = 2, mf_product = UPDATE_PRODUCT_ID, mf_channel = UPDATE_CHANNEL, mf_sequence = 3,
     mf_version = bytes_of ''v3'', mf_issued_at = (1000, 0), mf_expires_at = (2000, 0), mf_payload_url = bytes_of ''u'',
     mf_payload_size = 1, mf_payload_sha256 = replicate 64 0x30\<rparr>"

definition example_envelope :: envelope where
  "example_envelope = \<lparr>en_manifest = example_manifest, en_signature = replicate 128 0x30\<rparr>"

text \<open>A key that accepts every message, and a codec for the one envelope.\<close>

definition example_update_env :: update_env where
  "example_update_env = \<lparr>parse_url = (\<lambda>_. Some \<lparr>u_scheme = ''https'', u_has_host = True, u_has_username = False, u_has_password = False,
       u_has_fragment = False\<rparr>), key_is_valid = (\<lambda>_. True), verify_strict = (\<lambda>_ _ _. True), sha256_digest = (\<lambda>_. replicate 32 0),
     envelope_to_json = (\<lambda>_. [1]), envelope_of_json = (\<lambda>_. Some example_envelope), pointer_to_json = (\<lambda>_. [2]),
     pointer_of_json = (\<lambda>_. Some (pointer_for example_manifest))\<rparr>"

definition all_io_ok :: activate_io where
  "all_io_ok = \<lparr>ai_layout = True, ai_lock = True, ai_stage = True, ai_rename = True, ai_previous = True, ai_current = True\<rparr>"

lemma decode_zeros: "decode_hex_exact n (replicate (n * 2) 0x30) = Some (replicate n 0)"
proof -
  have "decode_pairs (replicate (2 * n) 0x30) = Some (replicate n 0)"
    by (induction n) (simp_all add: hex_nibble_byte_def)
  then show ?thesis by (simp add: decode_hex_exact_def mult.commute)
qed

lemma example_manifest_signs: "\<exists>bs. signing_bytes example_manifest = Inr bs"
  using decode_zeros [of 32]
  by (simp add: signing_bytes_def example_manifest_def append_length_prefixed_def u32_max_def UPDATE_PRODUCT_ID_def UPDATE_CHANNEL_def bytes_of_def)

lemma example_verified:
  "verify_update example_update_env example_envelope [7] 0 (1500, 0) 100 [] =
     Inr \<lparr>vu_manifest = example_manifest, vu_payload_sha256 = replicate 32 0\<rparr>"
proof -
  obtain bs where sign: "signing_bytes example_manifest = Inr bs" using example_manifest_signs by blast
  have version: "\<not> is_blank (bytes_of ''v3'')" by code_simp
  have "validate_manifest_shape example_update_env example_manifest = Inr ()"
    using decode_zeros [of 32] version
    by (simp add: validate_manifest_shape_def example_manifest_def UPDATE_SCHEMA_VERSION_def MAX_UPDATE_SEQUENCE_def u64_max_def
        example_update_env_def is_https_def time_le_def bytes_of_def)
  moreover have "verify_times example_manifest (1500, 0) 100 = Inr ()"
    by (simp add: verify_times_def example_manifest_def checked_add_seconds_def CHRONO_MAX_SECONDS_def MAX_UPDATE_CLOCK_SKEW_def
        MAX_UPDATE_EXPIRY_HORIZON_def time_less_def time_le_def)
  ultimately have "verify_manifest example_update_env example_envelope (1500, 0) 100 [] = Inr ()"
    using decode_zeros [of 64] sign by (simp add: verify_manifest_def example_envelope_def example_update_env_def)
  then show ?thesis
    using decode_zeros [of 32]
    by (simp add: verify_update_def example_envelope_def) (simp add: example_manifest_def example_update_env_def)
qed

lemma example_codec: "codec_for example_update_env example_envelope"
  by (simp add: codec_for_def example_update_env_def example_envelope_def MAX_ENVELOPE_BYTES_def)

lemma example_activated:
  "stage_and_activate example_update_env all_io_ok 100 [] example_envelope [7] (1500, 0) fresh_disk =
     (Inr (pointer_for example_manifest), offer_all example_update_env 100 [] [(all_io_ok, example_envelope, [7], (1500, 0))] fresh_disk)"
proof -
  have "fst (stage_and_activate example_update_env all_io_ok 100 [] example_envelope [7] (1500, 0) fresh_disk) = Inr (pointer_for example_manifest)"
    using example_verified
    by (simp add: stage_and_activate_def all_io_ok_def installed_sequence_def fresh_disk_def read_pointer_def read_optional_bounded_def
        commit_immutable_version_def move_pointers_def Let_def)
  then show ?thesis by (simp add: prod_eq_iff)
qed

theorem signing_bytes_injective_witness:
  "\<exists>bs. signing_bytes example_manifest = Inr bs \<and> manifest_typed example_manifest \<and>
     example_manifest = example_manifest\<lparr>mf_payload_sha256 := mf_payload_sha256 example_manifest\<rparr>"
proof -
  obtain bs where "signing_bytes example_manifest = Inr bs" using example_manifest_signs by blast
  moreover have "manifest_typed example_manifest" by (simp add: manifest_typed_def example_manifest_def time_typed_def)
  ultimately show ?thesis using signing_bytes_injective [of example_manifest example_manifest bs] by blast
qed

theorem active_updates_authentic_witness:
  "backed example_update_env [] (offer_all example_update_env 100 [] [(all_io_ok, example_envelope, [7], (1500, 0))] fresh_disk)
     (pointer_for example_manifest)"
proof -
  let ?d = "offer_all example_update_env 100 [] [(all_io_ok, example_envelope, [7], (1500, 0))] fresh_disk"
  have "current_pointer ?d = Holds [2]"
    using example_activated example_verified
    by (simp add: stage_and_activate_def all_io_ok_def installed_sequence_def fresh_disk_def read_pointer_def read_optional_bounded_def
        commit_immutable_version_def move_pointers_def Let_def) (simp add: example_update_env_def)
  moreover have "read_pointer example_update_env (Holds [2]) = Inr (Some (pointer_for example_manifest))"
    using pointer_for_parses [OF example_verified example_codec] by (simp add: example_update_env_def example_envelope_def)
  ultimately show ?thesis
    using active_updates_authentic [of example_update_env "[(all_io_ok, example_envelope, [7], (1500, 0))]" 100 "[]" "pointer_for example_manifest"]
      example_codec by simp
qed

theorem updates_move_forward_witness:
  "installed_sequence example_update_env (offer_all example_update_env 100 [] [(all_io_ok, example_envelope, [7], (1500, 0))] fresh_disk) = Inr 3"
proof -
  have "installed_sequence example_update_env fresh_disk = Inr 0"
    by (simp add: installed_sequence_def fresh_disk_def read_pointer_def read_optional_bounded_def)
  from updates_move_forward [OF this example_codec example_activated] show ?thesis
    by (simp add: example_envelope_def example_manifest_def)
qed

end
