(* ===== verification/Cvd.thy ===== *)
theory Cvd
  imports Updater Engine_Text
begin

text \<open>
  The reader of ClamAV definition containers, \<^verbatim>\<open>src/clamdb/cvd.rs\<close>: the header, its RSA signature and the
  archive walk that unpacks the databases. Text is the list of its code points, as \<^verbatim>\<open>str::from_utf8\<close>
  yields it. A stream is the bytes it still delivers and whether it then ends or fails. The big-integer
  and hexadecimal crates, the gzip decoder and the outcome of the file system's calls are fields of
  \<open>cvd_env\<close>. The destination directory is the list of the files created in it, in order, with what
  was written to each.
\<close>

section \<open>Text\<close>

type_synonym utext = "nat list"

definition trim_start_text :: "utext \<Rightarrow> utext" where
  "trim_start_text t = dropWhile is_whitespace_char t"

definition trim_end_by :: "(nat \<Rightarrow> bool) \<Rightarrow> utext \<Rightarrow> utext" where
  "trim_end_by P t = rev (dropWhile P (rev t))"

definition trim_text :: "utext \<Rightarrow> utext" where
  "trim_text t = trim_end_by is_whitespace_char (trim_start_text t)"

text \<open>A number is read from the characters; those outside ASCII are no digits.\<close>

definition parse_text :: "nat \<Rightarrow> nat \<Rightarrow> utext \<Rightarrow> nat option" where
  "parse_text radix mx t = (if list_all (\<lambda>c. c < 128) t then from_str_radix radix mx (map char_of t) else None)"

definition text_of :: "string \<Rightarrow> utext" where
  "text_of s = map of_char s"

section \<open>Errors and constants\<close>

datatype malformed =
  ShortHeader | NotAscii | MissingMagic | FewFields nat | BadVersion | BadCount | BadLevel | BadMd5
  | BadSymbol | SignatureRange | SignatureMismatch
  | TooManyEntries | MidHeader | ImplausibleSize nat | ShortEntry utext | EndedUnexpectedly | NameNotUtf8 | BadSize utext

datatype cvd_error = CvdIo | Malformed malformed

definition HEADER_LEN :: nat where "HEADER_LEN = 512"
definition HEADER_MAGIC :: utext where "HEADER_MAGIC = text_of ''ClamAV-VDB:''"
definition TAR_BLOCK :: nat where "TAR_BLOCK = 512"
definition MAX_ENTRY_BYTES :: nat where "MAX_ENTRY_BYTES = 2 * 1024 * 1024 * 1024"
definition MAX_ENTRIES :: nat where "MAX_ENTRIES = 4096"

definition CLAMAV_MODULUS :: nat where
  "CLAMAV_MODULUS = 118640995551645342603070001658453189751527774412027743746599405743243142607464144767361060640655844749760788890022283424922762488917565551002467771109669598189410434699034532232228621591089508178591428456220796841621637175567590476666928698770143328137383952820383197532047771780196576957695822641224262693037"

definition CLAMAV_EXPONENT :: nat where "CLAMAV_EXPONENT = 100001027"

definition SIGNATURE_ALPHABET :: bytes where
  "SIGNATURE_ALPHABET = bytes_of ''abcdefghijklmnopqrstuvwxyzABCDEFGHIJKLMNOPQRSTUVWXYZ0123456789+/''"

section \<open>The header\<close>

record cvd_header =
  h_build_time :: utext
  h_version :: nat
  h_signature_count :: nat
  h_functionality_level :: nat
  h_md5 :: utext
  h_signature :: utext
  h_builder :: utext

text \<open>The crates and the calls of the operating system.\<close>

record cvd_env =
  modpow :: "nat \<Rightarrow> nat \<Rightarrow> nat \<Rightarrow> nat"
  to_bytes_be :: "nat \<Rightarrow> bytes"
  hex_encode :: "bytes \<Rightarrow> bytes"
  gz_decode :: "bytes \<times> bool \<Rightarrow> bytes \<times> bool"
  can_create_directory :: bool
  can_create :: "utext \<Rightarrow> bool"
  can_write :: "utext \<Rightarrow> nat \<Rightarrow> bool"

definition is_hex_char :: "nat \<Rightarrow> bool" where
  "is_hex_char c \<longleftrightarrow> (48 \<le> c \<and> c \<le> 57) \<or> (97 \<le> c \<and> c \<le> 102) \<or> (65 \<le> c \<and> c \<le> 70)"

definition parse_fields :: "utext list \<Rightarrow> cvd_error + cvd_header" where
  "parse_fields fs =
     (if length fs < 7 then Inl (Malformed (FewFields (length fs)))
      else case parse_text 10 u64_max (trim_text (fs ! 1)) of
        None \<Rightarrow> Inl (Malformed BadVersion)
      | Some version \<Rightarrow>
          (case parse_text 10 u64_max (trim_text (fs ! 2)) of
             None \<Rightarrow> Inl (Malformed BadCount)
           | Some signature_count \<Rightarrow>
               (case parse_text 10 u32_max (trim_text (fs ! 3)) of
                  None \<Rightarrow> Inl (Malformed BadLevel)
                | Some level \<Rightarrow>
                    let md5 = trim_text (fs ! 4) in
                    if length (string_of_chars md5) \<noteq> 32 \<or> \<not> list_all is_hex_char md5 then Inl (Malformed BadMd5)
                    else Inr \<lparr>h_build_time = trim_text (fs ! 0), h_version = version, h_signature_count = signature_count,
                           h_functionality_level = level, h_md5 = md5, h_signature = trim_text (fs ! 5),
                           h_builder = trim_text (fs ! 6)\<rparr>)))"

definition header_parse :: "bytes \<Rightarrow> cvd_error + cvd_header" where
  "header_parse block =
     (if length block < HEADER_LEN then Inl (Malformed ShortHeader)
      else case utf8_chars (take HEADER_LEN block) of
        None \<Rightarrow> Inl (Malformed NotAscii)
      | Some t \<Rightarrow>
          let t = trim_end_by is_whitespace_char (trim_end_by (\<lambda>c. c = 0) t) in
          if \<not> starts_with t HEADER_MAGIC then Inl (Malformed MissingMagic)
          else parse_fields (split_by (\<lambda>c. c = 58) (drop (length HEADER_MAGIC) t)))"

text \<open>The digits of a signature are read with the least significant one first.\<close>

fun alphabet_position :: "bytes \<Rightarrow> byte \<Rightarrow> nat option" where
  "alphabet_position [] symbol = None"
| "alphabet_position (c # cs) symbol =
     (if c = symbol then Some 0 else map_option Suc (alphabet_position cs symbol))"

fun signature_digits :: "nat \<Rightarrow> bytes \<Rightarrow> nat \<Rightarrow> nat option" where
  "signature_digits position [] value = Some value"
| "signature_digits position (symbol # rest) value =
     (case alphabet_position SIGNATURE_ALPHABET symbol of
        None \<Rightarrow> None
      | Some digit \<Rightarrow> signature_digits (Suc position) rest (value + digit * 2 ^ (6 * position)))"

definition eq_ignore_case_bytes :: "bytes \<Rightarrow> bytes \<Rightarrow> bool" where
  "eq_ignore_case_bytes a b \<longleftrightarrow> list_all2 eq_ignore_ascii_case a b"

definition verify_signature :: "cvd_env \<Rightarrow> cvd_header \<Rightarrow> cvd_error + unit" where
  "verify_signature env header =
     (case signature_digits 0 (string_of_chars (h_signature header)) 0 of
        None \<Rightarrow> Inl (Malformed BadSymbol)
      | Some signature \<Rightarrow>
          if signature = 0 \<or> signature \<ge> CLAMAV_MODULUS then Inl (Malformed SignatureRange)
          else let digest = to_bytes_be env (modpow env signature CLAMAV_EXPONENT CLAMAV_MODULUS) in
               if length digest > 16 then Inl (Malformed SignatureMismatch)
               else let padded = replicate (16 - length digest) 0 @ digest in
                    if eq_ignore_case_bytes (hex_encode env padded) (string_of_chars (h_md5 header)) then Inr ()
                    else Inl (Malformed SignatureMismatch))"

section \<open>Streams\<close>

type_synonym stream = "bytes \<times> bool"

definition read_full :: "nat \<Rightarrow> stream \<Rightarrow> cvd_error + bytes \<times> stream" where
  "read_full n r =
     (if n \<le> length (fst r) then Inr (take n (fst r), drop n (fst r), snd r)
      else if snd r then Inl CvdIo
      else Inr (fst r, [], False))"

lemma read_full_length:
  "read_full n r = Inr (got, r') \<Longrightarrow> length got \<le> n \<and> length (fst r) = length got + length (fst r')"
  by (cases r) (auto simp: read_full_def split: if_splits)

function skip_bytes :: "nat \<Rightarrow> stream \<Rightarrow> cvd_error + stream" where
  "skip_bytes count r =
     (if count = 0 then Inr r
      else case read_full (min count (8 * 1024)) r of
        Inl e \<Rightarrow> Inl e
      | Inr (got, r) \<Rightarrow>
          if got = [] then Inl (Malformed EndedUnexpectedly) else skip_bytes (count - length got) r)"
  by pat_completeness auto
termination
  by (relation "measure (\<lambda>(count, r). count)") (auto dest!: read_full_length)

declare skip_bytes.simps [simp del]

text \<open>The body of one file is copied in pieces of 64 KiB; a piece the stream cannot fill is an error.\<close>

function copy_entry :: "cvd_env \<Rightarrow> utext \<Rightarrow> nat \<Rightarrow> stream \<Rightarrow> bytes \<Rightarrow> (cvd_error + stream) \<times> bytes" where
  "copy_entry env base remaining r out =
     (if remaining = 0 then (Inr r, out)
      else case read_full (min remaining (64 * 1024)) r of
        Inl e \<Rightarrow> (Inl e, out)
      | Inr (got, r) \<Rightarrow>
          if length got \<noteq> min remaining (64 * 1024) then (Inl (Malformed (ShortEntry base)), out)
          else if \<not> can_write env base (length out) then (Inl CvdIo, out)
          else copy_entry env base (remaining - length got) r (out @ got))"
  by pat_completeness auto
termination
  by (relation "measure (\<lambda>(env, base, remaining, r, out). remaining)") auto

declare copy_entry.simps [simp del]

section \<open>Archive entries\<close>

definition tar_string :: "bytes \<Rightarrow> cvd_error + utext" where
  "tar_string field =
     (case utf8_chars (takeWhile (\<lambda>b. b \<noteq> 0) field) of
        None \<Rightarrow> Inl (Malformed NameNotUtf8)
      | Some t \<Rightarrow> Inr (trim_text t))"

definition tar_octal :: "bytes \<Rightarrow> cvd_error + nat" where
  "tar_octal field =
     (case tar_string field of
        Inl e \<Rightarrow> Inl e
      | Inr t \<Rightarrow>
          let t = trim_text t in
          if t = [] then Inr 0
          else (case parse_text 8 u64_max t of None \<Rightarrow> Inl (Malformed (BadSize t)) | Some n \<Rightarrow> Inr n))"

text \<open>
  \<^verbatim>\<open>Path::components\<close> on Windows. A path that begins with two separators is a network or verbatim
  path, whose first component is a prefix; here it begins with the root, which the caller treats alike.
\<close>

datatype component = Prefix | RootDir | CurDir | ParentDir | Normal utext

definition is_separator :: "nat \<Rightarrow> bool" where
  "is_separator c \<longleftrightarrow> c = 47 \<or> c = 92"

definition has_drive :: "utext \<Rightarrow> bool" where
  "has_drive t \<longleftrightarrow> (case t of c # d # _ \<Rightarrow> d = 58 \<and> ((65 \<le> c \<and> c \<le> 90) \<or> (97 \<le> c \<and> c \<le> 122)) | _ \<Rightarrow> False)"

definition body_component :: "utext \<Rightarrow> component list" where
  "body_component p = (if p = [] \<or> p = [46] then [] else if p = [46, 46] then [ParentDir] else [Normal p])"

definition body_components :: "utext \<Rightarrow> component list" where
  "body_components t = concat (map body_component (split_by is_separator t))"

definition root_component :: "utext \<Rightarrow> component list" where
  "root_component t = (case t of c # _ \<Rightarrow> if is_separator c then [RootDir] else [] | [] \<Rightarrow> [])"

definition path_components :: "utext \<Rightarrow> component list" where
  "path_components t =
     (if has_drive t then Prefix # root_component (drop 2 t) @ body_components (drop 2 t)
      else if root_component t \<noteq> [] then RootDir # body_components t
      else (if hd (split_by is_separator t) = [46] then [CurDir] else []) @ body_components t)"

definition safe_entry_name :: "utext \<Rightarrow> utext option" where
  "safe_entry_name name =
     (let name = trim_text name in
      if name = [] then None
      else case path_components name of
        [Normal single] \<Rightarrow> if single = [46] \<or> single = [46, 46] \<or> 92 \<in> set single then None else Some single
      | _ \<Rightarrow> None)"

section \<open>Unpacking\<close>

lemma skip_bytes_length: "skip_bytes count r = Inr r' \<Longrightarrow> length (fst r) = count + length (fst r')"
proof (induction count r rule: skip_bytes.induct)
  case (1 count r)
  note step = 1(2) [unfolded skip_bytes.simps [of count]]
  show ?case
  proof (cases "count = 0")
    case False
    then obtain got s where got: "read_full (min count (8 * 1024)) r = Inr (got, s)" "got \<noteq> []"
      and rest: "skip_bytes (count - length got) s = Inr r'"
      using step by (auto split: sum.splits prod.splits if_splits)
    then show ?thesis using 1(1) [OF False got(1) refl got(2) rest] read_full_length [OF got(1)] by simp
  qed (use step in simp)
qed

lemma copy_entry_length:
  "copy_entry env base remaining r out = (Inr r', content) \<Longrightarrow>
     length (fst r) = remaining + length (fst r') \<and> content = out @ take remaining (fst r)"
proof (induction env base remaining r out rule: copy_entry.induct)
  case (1 env base remaining r out)
  note step = 1(2) [unfolded copy_entry.simps [of env base remaining]]
  show ?case
  proof (cases "remaining = 0")
    case False
    then obtain got s where got: "read_full (min remaining (64 * 1024)) r = Inr (got, s)"
        "length got = min remaining (64 * 1024)" "can_write env base (length out)"
      and rest: "copy_entry env base (remaining - length got) s (out @ got) = (Inr r', content)"
      using step by (auto split: sum.splits prod.splits if_splits)
    have "got = take (length got) (fst r)" "fst s = drop (length got) (fst r)"
      using got(1,2) by (auto simp: read_full_def split: if_splits)
    moreover have "length (fst s) = remaining - length got + length (fst r') \<and>
        content = (out @ got) @ take (remaining - length got) (fst s)"
      using 1(1) [OF False got(1) refl] got(2,3) rest by simp
    ultimately show ?thesis
      using got(2) read_full_length [OF got(1)] by (metis (no_types, lifting) append_assoc le_add_diff_inverse min.cobounded1 take_add add.assoc)
  qed (use step in simp)
qed

type_synonym files = "(utext \<times> bytes) list"

text \<open>One turn of the loop: the archive ends, the unpacking fails, or the next turn follows.\<close>

datatype turn = Ended "cvd_error + utext list" files | Again stream "utext list" files

definition skip_entry :: "nat \<Rightarrow> stream \<Rightarrow> utext list \<Rightarrow> files \<Rightarrow> turn" where
  "skip_entry padded r written outs =
     (case skip_bytes padded r of Inl e \<Rightarrow> Ended (Inl e) outs | Inr r \<Rightarrow> Again r written outs)"

definition store_entry :: "cvd_env \<Rightarrow> utext \<Rightarrow> nat \<Rightarrow> nat \<Rightarrow> stream \<Rightarrow> utext list \<Rightarrow> files \<Rightarrow> turn" where
  "store_entry env base sz padded r written outs =
     (if \<not> can_create env base then Ended (Inl CvdIo) outs
      else case copy_entry env base sz r [] of
        (Inl e, content) \<Rightarrow> Ended (Inl e) (outs @ [(base, content)])
      | (Inr r, content) \<Rightarrow> skip_entry (padded - sz) r (written @ [base]) (outs @ [(base, content)]))"

definition entry_turn :: "cvd_env \<Rightarrow> bytes \<Rightarrow> stream \<Rightarrow> utext list \<Rightarrow> files \<Rightarrow> turn" where
  "entry_turn env block r written outs =
     (case tar_string (take 100 block) of
        Inl e \<Rightarrow> Ended (Inl e) outs
      | Inr name \<Rightarrow>
          (case tar_octal (slice block 124 136) of
             Inl e \<Rightarrow> Ended (Inl e) outs
           | Inr sz \<Rightarrow>
               if sz > MAX_ENTRY_BYTES then Ended (Inl (Malformed (ImplausibleSize sz))) outs
               else let padded = (sz + (TAR_BLOCK - 1)) div TAR_BLOCK * TAR_BLOCK;
                        is_regular = (block ! 156 = 0x30 \<or> block ! 156 = 0)
                    in (case safe_entry_name name of
                          None \<Rightarrow> skip_entry padded r written outs
                        | Some base \<Rightarrow>
                            if \<not> is_regular then skip_entry padded r written outs
                            else store_entry env base sz padded r written outs)))"

definition tar_turn :: "cvd_env \<Rightarrow> stream \<Rightarrow> utext list \<Rightarrow> files \<Rightarrow> turn" where
  "tar_turn env r written outs =
     (if length written > MAX_ENTRIES then Ended (Inl (Malformed TooManyEntries)) outs
      else case read_full TAR_BLOCK r of
        Inl e \<Rightarrow> Ended (Inl e) outs
      | Inr (block, r) \<Rightarrow>
          if block = [] then Ended (Inr written) outs
          else if length block \<noteq> TAR_BLOCK then Ended (Inl (Malformed MidHeader)) outs
          else if list_all (\<lambda>b. b = 0) block then Ended (Inr written) outs
          else entry_turn env block r written outs)"

lemma skip_entry_Again: "skip_entry padded r written outs = Again r' w' o' \<Longrightarrow>
    w' = written \<and> o' = outs \<and> length (fst r) = padded + length (fst r')"
  by (auto simp: skip_entry_def split: sum.splits dest!: skip_bytes_length)

lemma store_entry_Again: "store_entry env base sz padded r written outs = Again r' w' o' \<Longrightarrow>
    \<exists>content. w' = written @ [base] \<and> o' = outs @ [(base, content)] \<and>
      length (fst r) = sz + (padded - sz) + length (fst r')"
  by (auto simp: store_entry_def split: if_splits sum.splits prod.splits dest!: skip_entry_Again copy_entry_length)

lemma entry_turn_Again: "entry_turn env block r written outs = Again r' w' o' \<Longrightarrow> length (fst r') \<le> length (fst r)"
  by (auto simp: entry_turn_def Let_def split: sum.splits option.splits if_splits
      dest!: skip_entry_Again store_entry_Again)

lemma tar_turn_Again: "tar_turn env r written outs = Again r' w' o' \<Longrightarrow> length (fst r') + TAR_BLOCK \<le> length (fst r)"
  by (auto simp: tar_turn_def split: if_splits sum.splits prod.splits dest!: entry_turn_Again read_full_length)

function unpack_tar :: "cvd_env \<Rightarrow> stream \<Rightarrow> utext list \<Rightarrow> files \<Rightarrow> (cvd_error + utext list) \<times> files" where
  "unpack_tar env r written outs =
     (case tar_turn env r written outs of
        Ended result outs \<Rightarrow> (result, outs)
      | Again r written outs \<Rightarrow> unpack_tar env r written outs)"
  by pat_completeness auto
termination
  by (relation "measure (\<lambda>(env, r, written, outs). length (fst r))") (auto dest!: tar_turn_Again simp: TAR_BLOCK_def)

declare unpack_tar.simps [simp del]

text \<open>\<open>is_cld\<close> says whether the container's extension is \<^verbatim>\<open>cld\<close>, which marks an uncompressed archive.\<close>

definition cvd_extract :: "cvd_env \<Rightarrow> bool \<Rightarrow> stream \<Rightarrow> (cvd_error + cvd_header \<times> utext list) \<times> files" where
  "cvd_extract env is_cld container =
     (case read_full HEADER_LEN container of
        Inl e \<Rightarrow> (Inl e, [])
      | Inr (block, body) \<Rightarrow>
          if length block \<noteq> HEADER_LEN then (Inl CvdIo, [])
          else case header_parse block of
            Inl e \<Rightarrow> (Inl e, [])
          | Inr header \<Rightarrow>
              if \<not> can_create_directory env then (Inl CvdIo, [])
              else (case unpack_tar env (if is_cld then body else gz_decode env body) [] [] of
                 (Inl e, outs) \<Rightarrow> (Inl e, outs)
               | (Inr names, outs) \<Rightarrow> (Inr (header, names), outs)))"

definition read_header :: "stream \<Rightarrow> cvd_error + cvd_header" where
  "read_header container =
     (case read_full HEADER_LEN container of
        Inl e \<Rightarrow> Inl e
      | Inr (block, _) \<Rightarrow> if length block \<noteq> HEADER_LEN then Inl CvdIo else header_parse block)"

section \<open>Where files are written\<close>

text \<open>A plain name stays in its directory: it has no separator, no drive and is no relative step.\<close>

definition plain_name :: "utext \<Rightarrow> bool" where
  "plain_name n \<longleftrightarrow> n \<noteq> [] \<and> list_all (\<lambda>c. \<not> is_separator c) n \<and> n \<noteq> [46] \<and> n \<noteq> [46, 46] \<and> \<not> has_drive n"

lemma split_by_nonempty [simp]: "split_by P xs \<noteq> []"
  by (cases xs) (auto split: list.splits)

lemma split_by_clean: "p \<in> set (split_by P xs) \<Longrightarrow> list_all (\<lambda>c. \<not> P c) p"
  by (induction xs arbitrary: p) (auto split: if_splits list.splits)

lemma hd_split_by: "hd (split_by P xs) = takeWhile (\<lambda>c. \<not> P c) xs"
  by (induction xs) (auto split: list.splits)

lemma split_by_single: "list_all (\<lambda>c. \<not> P c) xs \<Longrightarrow> split_by P xs = [xs]"
  by (induction xs) auto

lemma has_drive_takeWhile: "has_drive (takeWhile P t) \<Longrightarrow> has_drive t"
  by (auto simp: has_drive_def split: list.splits if_splits)

lemma safe_entry_name_plain:
  assumes "safe_entry_name t = Some n"
  shows "plain_name n"
proof -
  define name where "name = trim_text t"
  have comps: "path_components name = [Normal n]" and n: "name \<noteq> []" "n \<noteq> [46]" "n \<noteq> [46, 46]"
    using assms by (auto simp: safe_entry_name_def Let_def name_def split: if_splits list.splits component.splits)
  have no: "\<not> has_drive name" "root_component name = []" "hd (split_by is_separator name) \<noteq> [46]"
    and body: "body_components name = [Normal n]"
    using comps by (auto simp: path_components_def split: if_splits)
  obtain p ps where ps: "split_by is_separator name = p # ps" by (cases "split_by is_separator name") auto
  have p: "p = takeWhile (\<lambda>c. \<not> is_separator c) name" using hd_split_by [of is_separator name] ps by simp
  have "p \<noteq> []" using no(2) n(1) p by (cases name) (auto simp: root_component_def split: if_splits)
  moreover have "p \<noteq> [46]" using no(3) ps by simp
  ultimately have "p = n" using body ps by (auto simp: body_components_def body_component_def split: if_splits)
  then show ?thesis
    using no(1) p \<open>p \<noteq> []\<close> n has_drive_takeWhile [of "\<lambda>c. \<not> is_separator c" name] split_by_clean [of p is_separator name] ps
    by (auto simp: plain_name_def)
qed

lemma copy_entry_content:
  "copy_entry env base remaining r out = (res, content) \<Longrightarrow> \<exists>k \<le> remaining. k \<le> length (fst r) \<and> content = out @ take k (fst r)"
proof (induction env base remaining r out rule: copy_entry.induct)
  case (1 env base remaining r out)
  note step = 1(2) [unfolded copy_entry.simps [of env base remaining]]
  show ?case
  proof (cases "content = out")
    case False
    then obtain got s where got: "remaining \<noteq> 0" "read_full (min remaining (64 * 1024)) r = Inr (got, s)"
        "length got = min remaining (64 * 1024)" "can_write env base (length out)"
      and rest: "copy_entry env base (remaining - length got) s (out @ got) = (res, content)"
      using step by (auto split: sum.splits prod.splits if_splits)
    have r: "fst r = got @ fst s" using got(2,3) by (auto simp: read_full_def split: if_splits)
    obtain k where k: "k \<le> remaining - length got" "k \<le> length (fst s)" "content = (out @ got) @ take k (fst s)"
      using 1(1) [OF got(1,2) refl] got(3,4) rest by auto
    have "length got + k \<le> remaining" "length got + k \<le> length (fst r)" using k got(3) r by auto
    moreover have "content = out @ take (length got + k) (fst r)" using k(3) r by simp
    ultimately show ?thesis by blast
  qed (intro exI [of _ 0], simp)
qed

text \<open>What holds of the files whenever the loop is about to take a turn, and what holds at its end.\<close>

definition contained :: "nat \<Rightarrow> files \<Rightarrow> bool" where
  "contained room outs \<longleftrightarrow>
     list_all (\<lambda>(n, content). plain_name n \<and> length content \<le> MAX_ENTRY_BYTES) outs \<and>
     sum_list (map (length \<circ> snd) outs) \<le> room \<and> length outs \<le> Suc MAX_ENTRIES"

definition turn_ok :: "nat \<Rightarrow> turn \<Rightarrow> bool" where
  "turn_ok room t =
     (case t of
        Ended result outs \<Rightarrow>
          contained room outs \<and> (\<forall>names. result = Inr names \<longrightarrow> names = map fst outs \<and> length names \<le> MAX_ENTRIES)
      | Again r written outs \<Rightarrow>
          length (fst r) \<le> room \<and> contained (room - length (fst r)) outs \<and> written = map fst outs)"

lemma contained_mono: "contained m outs \<Longrightarrow> m \<le> n \<Longrightarrow> contained n outs"
  by (simp add: contained_def)

lemma skip_entry_ok:
  assumes "length (fst r) \<le> room" and "contained (room - length (fst r)) outs" and "written = map fst outs"
  shows "turn_ok room (skip_entry padded r written outs)"
proof (cases "skip_bytes padded r")
  case (Inr r')
  have "contained (room - length (fst r')) outs"
    using assms(1,2) skip_bytes_length [OF Inr] by (auto intro: contained_mono)
  then show ?thesis using assms skip_bytes_length [OF Inr] Inr by (simp add: skip_entry_def turn_ok_def)
qed (use assms contained_mono [of "room - length (fst r)" outs room] in \<open>simp add: skip_entry_def turn_ok_def\<close>)

lemma store_entry_ok:
  assumes "length (fst r) \<le> room" and "contained (room - length (fst r)) outs" and "written = map fst outs"
    and "plain_name base" and "sz \<le> MAX_ENTRY_BYTES" and "length written \<le> MAX_ENTRIES"
  shows "turn_ok room (store_entry env base sz padded r written outs)"
proof -
  obtain res content where copy: "copy_entry env base sz r [] = (res, content)" by (cases "copy_entry env base sz r []")
  obtain k where k: "k \<le> sz" "k \<le> length (fst r)" "content = take k (fst r)" using copy_entry_content [OF copy] by auto
  have all: "contained (room - length (fst r) + length content) (outs @ [(base, content)])"
    using assms k by (auto simp: contained_def)
  have none: "contained room outs" using contained_mono [OF assms(2)] by simp
  show ?thesis
  proof (cases res)
    case (Inl e)
    have "contained room (outs @ [(base, content)])" using contained_mono [OF all] assms(1) k by simp
    then show ?thesis using none copy Inl by (simp add: store_entry_def turn_ok_def)
  next
    case (Inr r')
    have len: "length (fst r) = sz + length (fst r')" "content = take sz (fst r)"
      using copy_entry_length [of env base sz r "[]" r' content] copy Inr by auto
    have "contained (room - length (fst r')) (outs @ [(base, content)])"
      using contained_mono [OF all] assms(1) len by simp
    then have "turn_ok room (skip_entry (padded - sz) r' (written @ [base]) (outs @ [(base, content)]))"
      using assms(1,3) len by (intro skip_entry_ok) auto
    then show ?thesis using none copy Inr by (simp add: store_entry_def turn_ok_def)
  qed
qed

lemma tar_turn_ok:
  assumes "length (fst r) \<le> room" and "contained (room - length (fst r)) outs" and "written = map fst outs"
  shows "turn_ok room (tar_turn env r written outs)"
proof -
  have none: "contained room outs" using contained_mono [OF assms(2)] by simp
  have entry: "turn_ok room (entry_turn env block r' written outs)"
    if "read_full TAR_BLOCK r = Inr (block, r')" "length written \<le> MAX_ENTRIES" for block r'
  proof -
    have "length (fst r') \<le> length (fst r)" using read_full_length [OF that(1)] by simp
    then have "length (fst r') \<le> room" "contained (room - length (fst r')) outs"
      using assms(1) contained_mono [OF assms(2)] by auto
    then show ?thesis
      using that(2) assms(3) none safe_entry_name_plain
      by (auto simp: entry_turn_def Let_def turn_ok_def [of _ "Ended _ _"] split: sum.splits option.splits
          intro!: skip_entry_ok store_entry_ok)
  qed
  show ?thesis
    using entry none assms(3)
    by (auto simp: tar_turn_def turn_ok_def [of _ "Ended _ _"] split: sum.splits)
qed

lemma unpack_tar_ok:
  "length (fst r) \<le> room \<Longrightarrow> contained (room - length (fst r)) outs \<Longrightarrow> written = map fst outs \<Longrightarrow>
     unpack_tar env r written outs = (res, outs') \<Longrightarrow> turn_ok room (Ended res outs')"
proof (induction env r written outs rule: unpack_tar.induct)
  case (1 env r written outs)
  note ok = tar_turn_ok [OF 1(2-4), of env] and run = 1(5) [unfolded unpack_tar.simps [of env r]]
  show ?case
  proof (cases "tar_turn env r written outs")
    case (Again r' w' outs1)
    then show ?thesis using 1(1) [OF Again] ok run by (simp add: turn_ok_def)
  qed (use ok run in simp)
qed

text \<open>
  (C23) A container cannot write outside the directory it is unpacked into, nor exhaust it: whatever the
  archive holds, every file created has a plain name, no file exceeds the entry limit, all of them
  together hold no more bytes than the archive, and their number is bounded; when the unpacking
  succeeds it reports exactly the files it wrote, in order.
\<close>

theorem extract_contained:
  assumes "cvd_extract env is_cld (bs, fails) = (res, outs)"
  shows "list_all (\<lambda>(n, content). plain_name n \<and> length content \<le> MAX_ENTRY_BYTES) outs \<and>
    sum_list (map (length \<circ> snd) outs)
      \<le> length (if is_cld then drop HEADER_LEN bs else fst (gz_decode env (drop HEADER_LEN bs, fails))) \<and>
    length outs \<le> Suc MAX_ENTRIES \<and>
    (\<forall>h names. res = Inr (h, names) \<longrightarrow> names = map fst outs \<and> length names \<le> MAX_ENTRIES)"
proof -
  let ?r = "if is_cld then (drop HEADER_LEN bs, fails) else gz_decode env (drop HEADER_LEN bs, fails)"
  consider (early) "outs = []" "\<forall>x. res \<noteq> Inr x"
    | (walked) r1 where "unpack_tar env ?r [] [] = (r1, outs)" "\<forall>h ns. res = Inr (h, ns) \<longrightarrow> r1 = Inr ns"
    using assms by (auto simp: cvd_extract_def read_full_def split: sum.splits prod.splits if_splits)
  then show ?thesis
  proof cases
    case walked
    have "turn_ok (length (fst ?r)) (Ended r1 outs)"
      by (rule unpack_tar_ok [OF _ _ _ walked(1)]) (simp_all add: contained_def)
    then show ?thesis using walked(2) by (auto simp: turn_ok_def contained_def)
  qed simp
qed

section \<open>Archives written in the format\<close>

text \<open>The size field holds eleven octal digits; a file is its header block, its bytes and the padding.\<close>

fun octal_text :: "nat \<Rightarrow> nat \<Rightarrow> utext" where
  "octal_text 0 n = []"
| "octal_text (Suc k) n = octal_text k (n div 8) @ [48 + n mod 8]"

definition tar_header :: "utext \<Rightarrow> nat \<Rightarrow> bytes" where
  "tar_header name sz =
     string_of_chars name @ replicate (124 - length (string_of_chars name)) 0 @
     string_of_chars (octal_text 11 sz) @ replicate 21 0 @ [0x30] @ replicate 355 0"

definition tar_file :: "utext \<times> bytes \<Rightarrow> bytes" where
  "tar_file f =
     tar_header (fst f) (length (snd f)) @ snd f @
     replicate ((length (snd f) + (TAR_BLOCK - 1)) div TAR_BLOCK * TAR_BLOCK - length (snd f)) 0"

definition tar_archive :: "files \<Rightarrow> bytes" where
  "tar_archive fs = concat (map tar_file fs) @ replicate (2 * TAR_BLOCK) 0"

definition archivable :: "utext \<times> bytes \<Rightarrow> bool" where
  "archivable f \<longleftrightarrow>
     plain_name (fst f) \<and> list_all is_scalar (fst f) \<and> 0 \<notin> set (fst f) \<and> trim_text (fst f) = fst f \<and>
     length (string_of_chars (fst f)) \<le> 100 \<and> length (snd f) \<le> MAX_ENTRY_BYTES"

lemma string_of_chars_Cons: "string_of_chars (c # cs) = utf8_encode c @ string_of_chars cs"
  by (simp add: string_of_chars_def)

lemma mk_byte_zero_iff: "mk_byte n = 0 \<longleftrightarrow> n mod 256 = 0"
  by (simp add: mk_byte_def word_of_nat_eq_0_iff dvd_eq_mod_eq_0)

lemma utf8_encode_nonzero: "is_scalar c \<Longrightarrow> c \<noteq> 0 \<Longrightarrow> 0 \<notin> set (utf8_encode c)"
  by (auto simp: utf8_encode_def is_scalar_def mk_byte_zero_iff dest!: sym [of 0] split: if_splits; presburger)

lemma string_of_chars_nonzero: "list_all is_scalar cs \<Longrightarrow> 0 \<notin> set cs \<Longrightarrow> 0 \<notin> set (string_of_chars cs)"
  by (induction cs) (auto simp: string_of_chars_def dest: utf8_encode_nonzero)

lemma takeWhile_zero_padded: "0 \<notin> set bs \<Longrightarrow> takeWhile (\<lambda>b. b \<noteq> 0) (bs @ replicate k (0 :: byte)) = bs"
  by (induction bs) (auto simp: takeWhile_replicate)

lemma tar_string_padded:
  assumes "list_all is_scalar t" and "0 \<notin> set t"
  shows "tar_string (string_of_chars t @ replicate k 0) = Inr (trim_text t)"
  using assms by (simp add: tar_string_def takeWhile_zero_padded string_of_chars_nonzero utf8_chars_string)

lemma octal_text_digits: "c \<in> set (octal_text k n) \<Longrightarrow> 48 \<le> c \<and> c < 56"
  by (induction k arbitrary: n) auto

lemma length_octal_text [simp]: "length (octal_text k n) = k"
  by (induction k arbitrary: n) auto

lemma digits_value_octal:
  "n < 8 ^ k \<Longrightarrow> digits_value 8 acc (map char_of (octal_text k n) @ rest) = digits_value 8 (acc * 8 ^ k + n) rest"
proof (induction k arbitrary: n rest)
  case (Suc k)
  have "digit_value (char_of (48 + n mod 8)) = n mod 8"
    by (simp add: digit_value_def Let_def of_char_of take_bit_nat_eq_self) 
  moreover have "n div 8 < 8 ^ k" using Suc.prems by (simp add: less_mult_imp_div_less mult.commute)
  moreover have "8 * (acc * 8 ^ k + n div 8) + n mod 8 = acc * 8 ^ Suc k + n" by simp
  ultimately show ?case using Suc.IH [of "n div 8"] by (simp add: algebra_simps)
qed simp

lemma dropWhile_none: "(\<And>c. c \<in> set t \<Longrightarrow> \<not> P c) \<Longrightarrow> dropWhile P t = t"
  by (cases t) auto

lemma trim_text_id: "(\<And>c. c \<in> set t \<Longrightarrow> \<not> is_whitespace_char c) \<Longrightarrow> trim_text t = t"
  using dropWhile_none [of t is_whitespace_char] dropWhile_none [of "rev t" is_whitespace_char]
  by (simp add: trim_text_def trim_end_by_def trim_start_text_def)

lemma octal_no_space: "48 \<le> c \<and> c < 56 \<Longrightarrow> \<not> is_whitespace_char c"
  by (auto simp: is_whitespace_char_def)

lemma tar_octal_padded:
  assumes "n < 8 ^ 11" and "n \<le> u64_max"
  shows "tar_octal (string_of_chars (octal_text 11 n) @ replicate k 0) = Inr n"
proof -
  define t where "t = octal_text 11 n"
  have digits: "48 \<le> c \<and> c < 56" if "c \<in> set t" for c using that octal_text_digits by (auto simp: t_def)
  then have "tar_string (string_of_chars t @ replicate k 0) = Inr (trim_text t)"
    by (intro tar_string_padded) (force simp: list_all_iff is_scalar_def)+
  moreover have "trim_text t = t" using digits octal_no_space by (intro trim_text_id) blast
  moreover have "length t = 11" by (simp add: t_def)
  then have "t \<noteq> []" by auto
  moreover have "parse_text 8 u64_max t = Some n"
  proof -
    obtain c cs where t: "t = c # cs" using \<open>t \<noteq> []\<close> by (cases t) auto
    have "char_of c \<noteq> CHR ''+''"
      using digits [of c] t by (auto simp: char_of_eq_iff take_bit_nat_eq_self)
    then have "from_str_radix 8 u64_max (map char_of t) = Some n"
      using digits_value_octal [OF assms(1), of 0 "[]"] assms(2) t by (simp add: from_str_radix_def t_def)
    then show ?thesis using digits by (force simp: parse_text_def list_all_iff)
  qed
  ultimately show ?thesis by (simp add: tar_octal_def t_def)
qed

lemma safe_entry_name_self:
  assumes "plain_name n" and "trim_text n = n"
  shows "safe_entry_name n = Some n"
proof -
  have split: "split_by is_separator n = [n]" using assms(1) by (intro split_by_single) (simp add: plain_name_def)
  have "root_component n = []" using assms(1) by (cases n) (auto simp: root_component_def plain_name_def)
  then have "path_components n = [Normal n]"
    using assms(1) split by (auto simp: path_components_def body_components_def body_component_def plain_name_def)
  moreover have "92 \<notin> set n" using assms(1) by (auto simp: plain_name_def is_separator_def list_all_iff)
  ultimately show ?thesis using assms by (simp add: safe_entry_name_def plain_name_def)
qed

lemma skip_bytes_succeeds: "count \<le> length bs \<Longrightarrow> skip_bytes count (bs, fails) = Inr (drop count bs, fails)"
proof (induction count "(bs, fails)" arbitrary: bs rule: skip_bytes.induct)
  case (1 count bs)
  show ?case
  proof (cases "count = 0")
    case False
    define n where "n = min count (8 * 1024)"
    have n_eq: "min count 8192 = n" by (simp add: n_def)
    have n: "0 < n" "n \<le> count" "n \<le> length bs" "bs \<noteq> []" using False 1(2) by (auto simp: n_def)
    have read: "read_full n (bs, fails) = Inr (take n bs, drop n bs, fails)" using n by (simp add: read_full_def)
    have "skip_bytes (count - length (take n bs)) (drop n bs, fails) = Inr (drop (count - n) (drop n bs), fails)"
      using 1(1) [OF False read [unfolded n_def] refl] n 1(2) n_eq by simp
    then show ?thesis using n read False n_eq by (subst skip_bytes.simps) simp
  qed (simp add: skip_bytes.simps)
qed

lemma copy_entry_succeeds:
  "remaining \<le> length bs \<Longrightarrow> (\<And>k. can_write env base k) \<Longrightarrow>
     copy_entry env base remaining (bs, fails) out = (Inr (drop remaining bs, fails), out @ take remaining bs)"
proof (induction env base remaining "(bs, fails)" out arbitrary: bs rule: copy_entry.induct)
  case (1 env base remaining out bs)
  show ?case
  proof (cases "remaining = 0")
    case False
    define n where "n = min remaining (64 * 1024)"
    have n_eq: "min remaining 65536 = n" by (simp add: n_def)
    have n: "n \<le> remaining" "n \<le> length bs" using False 1(2) by (auto simp: n_def)
    have read: "read_full n (bs, fails) = Inr (take n bs, drop n bs, fails)" using n by (simp add: read_full_def)
    have "copy_entry env base (remaining - length (take n bs)) (drop n bs, fails) (out @ take n bs)
        = (Inr (drop (remaining - n) (drop n bs), fails), (out @ take n bs) @ take (remaining - n) (drop n bs))"
      using 1(1) [OF False read [unfolded n_def] refl] n 1(2,3) n_eq by simp
    moreover have "take n bs @ take (remaining - n) (drop n bs) = take remaining bs"
      using n(1) by (metis le_add_diff_inverse take_add)
    ultimately show ?thesis using n read False 1(3) n_eq by (subst copy_entry.simps) simp
  qed (simp add: copy_entry.simps)
qed

lemma string_of_octal: "length (string_of_chars (octal_text k n)) = k"
proof -
  have "length (string_of_chars t) = length t" if "\<And>c. c \<in> set t \<Longrightarrow> c < 128" for t :: utext
    using that by (induction t) (auto simp: string_of_chars_def utf8_encode_def)
  then show ?thesis using octal_text_digits [of _ k n] by fastforce
qed

lemma tar_turn_file:
  assumes "archivable f" and "can_create env (fst f)" and "\<And>k. can_write env (fst f) k" and "length written \<le> MAX_ENTRIES"
  shows "tar_turn env (tar_file f @ rest, fails) written outs = Again (rest, fails) (written @ [fst f]) (outs @ [f])"
proof -
  define name sz where "name = string_of_chars (fst f)" and "sz = length (snd f)"
  define padded where "padded = (sz + (TAR_BLOCK - 1)) div TAR_BLOCK * TAR_BLOCK"
  define block where "block = tar_header (fst f) sz"
  define octal where "octal = string_of_chars (octal_text 11 sz)"
  have f: "plain_name (fst f)" "list_all is_scalar (fst f)" "0 \<notin> set (fst f)" "trim_text (fst f) = fst f"
      "length name \<le> 100" "sz \<le> MAX_ENTRY_BYTES"
    using assms(1) by (auto simp: archivable_def name_def sz_def)
  have octal: "length octal = 11" by (simp add: octal_def string_of_octal)
  have block: "block = name @ replicate (124 - length name) 0 @ octal @ replicate 21 0 @ [0x30] @ replicate 355 0"
    by (simp add: block_def tar_header_def name_def octal_def)
  have len: "length block = TAR_BLOCK" using f(5) octal by (simp add: block TAR_BLOCK_def)
  have "take 100 block = name @ replicate (100 - length name) 0" using f(5) by (simp add: block min_def)
  then have string: "tar_string (take 100 block) = Inr (fst f)"
    using tar_string_padded [OF f(2,3)] f(4) by (simp add: name_def)
  have "slice block 124 136 = octal @ replicate 1 0" using f(5) octal by (simp add: block slice_def)
  moreover have "sz < 8 ^ 11" "sz \<le> u64_max" using f(6) by (simp_all add: MAX_ENTRY_BYTES_def u64_max_def)
  ultimately have octal_ok: "tar_octal (slice block 124 136) = Inr sz"
    using tar_octal_padded [of sz 1] by (simp add: octal_def)
  have flag: "block ! 156 = 0x30"
    using nth_append_length [of "name @ replicate (124 - length name) 0 @ octal @ replicate 21 0" "0x30" "replicate 355 0"] f(5) octal
    by (simp add: block)
  have "0x30 \<in> set block" by (simp add: block)
  then have nonzero: "\<not> list_all (\<lambda>b. b = 0) block" by (force simp: list_all_iff)
  have pad: "sz \<le> padded" by (simp add: padded_def TAR_BLOCK_def)
  have entry: "tar_file f = block @ snd f @ replicate (padded - sz) 0"
    by (simp add: tar_file_def block_def sz_def padded_def)
  have "store_entry env (fst f) sz padded (snd f @ replicate (padded - sz) 0 @ rest, fails) written outs
      = Again (rest, fails) (written @ [fst f]) (outs @ [f])"
    using assms(2,3) by (simp add: store_entry_def copy_entry_succeeds skip_entry_def skip_bytes_succeeds sz_def)
  then have "entry_turn env block (snd f @ replicate (padded - sz) 0 @ rest, fails) written outs
      = Again (rest, fails) (written @ [fst f]) (outs @ [f])"
    using string octal_ok flag f(4,6) safe_entry_name_self [OF f(1,4)] by (simp add: entry_turn_def Let_def padded_def)
  moreover have "read_full TAR_BLOCK (tar_file f @ rest, fails) = Inr (block, snd f @ replicate (padded - sz) 0 @ rest, fails)"
    using len by (simp add: read_full_def entry)
  ultimately show ?thesis using assms(4) len nonzero by (auto simp: tar_turn_def TAR_BLOCK_def)
qed

lemma unpack_tar_files:
  assumes "list_all archivable fs" and "\<And>f. f \<in> set fs \<Longrightarrow> can_create env (fst f)"
    and "\<And>f k. f \<in> set fs \<Longrightarrow> can_write env (fst f) k" and "length written + length fs \<le> MAX_ENTRIES"
  shows "unpack_tar env (tar_archive fs, fails) written outs = (Inr (written @ map fst fs), outs @ fs)"
  using assms
proof (induction fs arbitrary: written outs)
  case Nil
  have "read_full TAR_BLOCK (tar_archive [], fails) = Inr (replicate TAR_BLOCK 0, replicate TAR_BLOCK 0, fails)"
    by (simp add: read_full_def tar_archive_def)
  then have "tar_turn env (tar_archive [], fails) written outs = Ended (Inr written) outs"
    using Nil by (simp add: tar_turn_def list_all_iff)
  then show ?case by (simp add: unpack_tar.simps)
next
  case (Cons f fs)
  have "tar_turn env (tar_archive (f # fs), fails) written outs = Again (tar_archive fs, fails) (written @ [fst f]) (outs @ [f])"
    using tar_turn_file [of f env written "tar_archive fs" fails outs] Cons.prems by (simp add: tar_archive_def)
  moreover have "unpack_tar env (tar_archive fs, fails) (written @ [fst f]) (outs @ [f])
      = (Inr ((written @ [fst f]) @ map fst fs), (outs @ [f]) @ fs)"
    using Cons.prems by (intro Cons.IH) auto
  ultimately show ?case by (simp add: unpack_tar.simps [of _ "(tar_archive (f # fs), fails)"])
qed

section \<open>Headers written in the format\<close>

text \<open>A header block: the fields between colons, filled up with spaces.\<close>

definition header_text :: "cvd_header \<Rightarrow> utext" where
  "header_text h = HEADER_MAGIC @ h_build_time h @ 58 # text_of (show_nat (h_version h)) @ 58 #
     text_of (show_nat (h_signature_count h)) @ 58 # text_of (show_nat (h_functionality_level h)) @ 58 #
     h_md5 h @ 58 # h_signature h @ 58 # h_builder h"

definition header_block :: "cvd_header \<Rightarrow> bytes" where
  "header_block h = string_of_chars (header_text h @ replicate (HEADER_LEN - length (string_of_chars (header_text h))) 32)"

definition field_ok :: "utext \<Rightarrow> bool" where
  "field_ok t \<longleftrightarrow> list_all is_scalar t \<and> 0 \<notin> set t \<and> 58 \<notin> set t \<and> trim_text t = t"

definition header_ok :: "cvd_header \<Rightarrow> bool" where
  "header_ok h \<longleftrightarrow>
     field_ok (h_build_time h) \<and> field_ok (h_signature h) \<and> field_ok (h_builder h) \<and>
     length (h_md5 h) = 32 \<and> list_all is_hex_char (h_md5 h) \<and>
     h_version h \<le> u64_max \<and> h_signature_count h \<le> u64_max \<and> h_functionality_level h \<le> u32_max \<and>
     length (string_of_chars (header_text h)) \<le> HEADER_LEN"

lemma split_by_append: "list_all (\<lambda>c. \<not> P c) xs \<Longrightarrow> P c \<Longrightarrow> split_by P (xs @ c # ys) = xs # split_by P ys"
  by (induction xs) auto

lemma text_of_digits: "c \<in> set (text_of (show_nat n)) \<Longrightarrow> 48 \<le> c \<and> c \<le> 57"
  using show_nat_digits [of n] by (auto simp: text_of_def list_all_iff is_ascii_digit_def)

lemma parse_shown:
  assumes "n \<le> mx"
  shows "parse_text 10 mx (trim_text (text_of (show_nat n))) = Some n"
proof -
  have "trim_text (text_of (show_nat n)) = text_of (show_nat n)"
    using text_of_digits by (intro trim_text_id) (force simp: is_whitespace_char_def)
  moreover have "list_all (\<lambda>c. c < 128) (text_of (show_nat n))" using text_of_digits by (force simp: list_all_iff)
  moreover have "map char_of (text_of (show_nat n)) = show_nat n" by (simp add: text_of_def comp_def)
  moreover have "from_str_radix 10 mx (show_nat n) = Some n"
    using show_nat_digits [of n] digits_value_show_nat [of n] assms
    by (cases "show_nat n") (auto simp: from_str_radix_def is_ascii_digit_def)
  ultimately show ?thesis by (simp add: parse_text_def)
qed

lemma ascii_length: "list_all (\<lambda>c. c < 128) t \<Longrightarrow> length (string_of_chars t) = length t"
  by (induction t) (auto simp: string_of_chars_def utf8_encode_def)

lemma trim_end_by_padded: "P c \<Longrightarrow> trim_end_by P (t @ replicate k c) = trim_end_by P t"
  by (simp add: trim_end_by_def) (induction k, auto)

lemma trimmed_last:
  assumes "trim_text t = t"
  shows "t = [] \<or> \<not> is_whitespace_char (last t)"
proof -
  define u where "u = rev (trim_start_text t)"
  have t: "t = rev (dropWhile is_whitespace_char u)" using assms by (simp add: trim_text_def trim_end_by_def u_def)
  show ?thesis
  proof (cases "dropWhile is_whitespace_char u = []")
    case False
    then have "\<not> is_whitespace_char (hd (dropWhile is_whitespace_char u))" by (rule hd_dropWhile)
    then show ?thesis using arg_cong [OF t, of last] False by (simp add: last_rev)
  qed (use t in simp)
qed

lemma field_scalar: "field_ok t \<Longrightarrow> list_all is_scalar t" and field_trim: "field_ok t \<Longrightarrow> trim_text t = t"
  by (simp_all add: field_ok_def)

lemma header_text_chars:
  assumes "header_ok h"
  shows "list_all is_scalar (header_text h)" and "0 \<notin> set (header_text h)"
    and "trim_end_by is_whitespace_char (header_text h) = header_text h"
proof -
  have digits: "list_all is_scalar (text_of (show_nat n)) \<and> 0 \<notin> set (text_of (show_nat n))" for n
    using text_of_digits [of _ n] by (force simp: list_all_iff is_scalar_def)
  have md5: "list_all is_scalar (h_md5 h) \<and> 0 \<notin> set (h_md5 h)"
    using assms by (force simp: header_ok_def list_all_iff is_hex_char_def is_scalar_def)
  have magic: "list_all is_scalar HEADER_MAGIC \<and> 0 \<notin> set HEADER_MAGIC" by (simp add: HEADER_MAGIC_def text_of_def is_scalar_def)
  show "list_all is_scalar (header_text h)" "0 \<notin> set (header_text h)"
    using digits md5 magic assms by (simp_all add: header_text_def header_ok_def field_ok_def is_scalar_def)
  have "\<not> is_whitespace_char (last (header_text h))"
    using trimmed_last [of "h_builder h"] assms
    by (auto simp: header_text_def header_ok_def field_ok_def is_whitespace_char_def)
  moreover have "header_text h \<noteq> []" by (simp add: header_text_def)
  ultimately show "trim_end_by is_whitespace_char (header_text h) = header_text h"
    by (simp add: trim_end_by_def dropWhile_eq_self_iff [THEN iffD2] hd_rev)
qed

lemma header_fields:
  assumes "header_ok h"
  shows "split_by (\<lambda>c. c = 58) (drop (length HEADER_MAGIC) (header_text h)) =
    [h_build_time h, text_of (show_nat (h_version h)), text_of (show_nat (h_signature_count h)),
     text_of (show_nat (h_functionality_level h)), h_md5 h, h_signature h, h_builder h]"
proof -
  have "list_all (\<lambda>c. c \<noteq> 58) (text_of (show_nat n))" for n using text_of_digits [of _ n] by (force simp: list_all_iff)
  moreover have "list_all (\<lambda>c. c \<noteq> 58) (h_md5 h)" using assms by (force simp: header_ok_def list_all_iff is_hex_char_def)
  moreover have "list_all (\<lambda>c. c \<noteq> 58) t" if "field_ok t" for t using that by (auto simp: field_ok_def list_all_iff)
  ultimately show ?thesis
    using assms by (simp add: header_text_def header_ok_def split_by_append split_by_single)
qed

lemma length_header_block: "header_ok h \<Longrightarrow> length (header_block h) = HEADER_LEN"
  using ascii_length [of "replicate (HEADER_LEN - length (string_of_chars (header_text h))) 32"]
  by (simp add: header_block_def header_ok_def string_of_chars_def list_all_iff)

lemma header_parse_block:
  assumes "header_ok h"
  shows "header_parse (header_block h) = Inr h"
proof -
  define k where "k = HEADER_LEN - length (string_of_chars (header_text h))"
  note chars = header_text_chars [OF assms]
  have "utf8_chars (header_block h) = Some (header_text h @ replicate k 32)"
    unfolding header_block_def k_def using chars(1) by (intro utf8_chars_string) (auto simp: is_scalar_def list_all_iff)
  moreover have "trim_end_by (\<lambda>c. c = 0) (header_text h @ replicate k 32) = header_text h @ replicate k 32"
    unfolding trim_end_by_def using chars(2) by (subst dropWhile_none) (auto intro: gr0I)
  moreover have "trim_end_by is_whitespace_char (header_text h @ replicate k 32) = header_text h"
    using chars(3) by (simp add: trim_end_by_padded is_whitespace_char_def)
  moreover have "starts_with (header_text h) HEADER_MAGIC" by (simp add: starts_with_prefix header_text_def)
  moreover have "trim_text (h_md5 h) = h_md5 h"
    using assms by (intro trim_text_id) (force simp: header_ok_def list_all_iff is_hex_char_def is_whitespace_char_def)
  moreover have "length (string_of_chars (h_md5 h)) = 32"
    using assms ascii_length [of "h_md5 h"] by (force simp: header_ok_def list_all_iff is_hex_char_def)
  ultimately show ?thesis
    using assms field_trim
    by (simp add: header_parse_def length_header_block header_fields parse_fields_def parse_shown header_ok_def)
qed

text \<open>
  (C33) A container written in the format is read back exactly: its header gives the fields that were
  written, and unpacking it, compressed or not, creates its files with their names, order and contents
  and nothing else, whatever the lengths of the files.
\<close>

theorem extract_written:
  assumes "header_ok h" and "list_all archivable fs" and "length fs \<le> MAX_ENTRIES"
    and "(if is_cld then (body, False) else gz_decode env (body, False)) = (tar_archive fs, fails)"
    and "can_create_directory env" and "\<And>f. f \<in> set fs \<Longrightarrow> can_create env (fst f)"
    and "\<And>f k. f \<in> set fs \<Longrightarrow> can_write env (fst f) k"
  shows "cvd_extract env is_cld (header_block h @ body, False) = (Inr (h, map fst fs), fs)"
proof -
  have "read_full HEADER_LEN (header_block h @ body, False) = Inr (header_block h, body, False)"
    using length_header_block [OF assms(1)] by (simp add: read_full_def)
  moreover have "unpack_tar env (if is_cld then (body, False) else gz_decode env (body, False)) [] [] = (Inr (map fst fs), fs)"
    using unpack_tar_files [OF assms(2,6,7), of "[]" fails "[]"] assms(3,4) by simp
  ultimately show ?thesis
    using header_parse_block [OF assms(1)] length_header_block [OF assms(1)] assms(5) by (simp add: cvd_extract_def)
qed

section \<open>Signatures\<close>

text \<open>What the crates document: arithmetic of unbounded integers, big-endian bytes and hexadecimal digits.\<close>

definition crates_ok :: "cvd_env \<Rightarrow> bool" where
  "crates_ok env \<longleftrightarrow>
     (\<forall>b e m. modpow env b e m = b ^ e mod m) \<and>
     (\<forall>n. length (to_bytes_be env n) \<le> 16 \<longleftrightarrow> n < 256 ^ 16) \<and>
     (\<forall>n. n < 256 ^ 16 \<longrightarrow> replicate (16 - length (to_bytes_be env n)) 0 @ to_bytes_be env n = be_bytes 16 n) \<and>
     (\<forall>p. decode_hex_exact (length p) (hex_encode env p) = Some p)"

lemma signature_digits_value:
  "signature_digits p bs v = Some s \<longleftrightarrow>
     (\<exists>ds. map (alphabet_position SIGNATURE_ALPHABET) bs = map Some ds \<and> s = v + 64 ^ p * foldr (\<lambda>d v. d + 64 * v) ds 0)"
proof (induction bs arbitrary: p v)
  case (Cons b bs)
  have pow: "2 ^ (6 * p) = (64 :: nat) ^ p" by (simp add: power_mult)
  show ?case
  proof (cases "alphabet_position SIGNATURE_ALPHABET b")
    case (Some d)
    have "signature_digits p (b # bs) v = Some s \<longleftrightarrow>
        (\<exists>ds. map (alphabet_position SIGNATURE_ALPHABET) bs = map Some ds \<and>
          s = v + d * 64 ^ p + 64 ^ Suc p * foldr (\<lambda>d v. d + 64 * v) ds 0)"
      using Some Cons.IH [of "Suc p" "v + d * 64 ^ p"] pow by simp
    also have "\<dots> \<longleftrightarrow> (\<exists>ds. map (alphabet_position SIGNATURE_ALPHABET) (b # bs) = map Some ds \<and>
          s = v + 64 ^ p * foldr (\<lambda>d v. d + 64 * v) ds 0)" (is "?l \<longleftrightarrow> (\<exists>ds. ?P ds)")
    proof
      assume ?l
      then obtain ds where "map (alphabet_position SIGNATURE_ALPHABET) bs = map Some ds"
          "s = v + d * 64 ^ p + 64 ^ Suc p * foldr (\<lambda>d v. d + 64 * v) ds 0" by blast
      then have "?P (d # ds)" using Some by (simp add: algebra_simps)
      then show "\<exists>ds. ?P ds" by blast
    next
      assume "\<exists>ds. ?P ds"
      then obtain ds where ds: "?P ds" by blast
      then obtain ds' where "ds = d # ds'" using Some by (cases ds) auto
      then show ?l using ds by (intro exI [of _ ds']) (simp add: algebra_simps)
    qed
    finally show ?thesis .
  next
    case None
    then show ?thesis by (auto simp: Cons_eq_map_conv)
  qed
qed auto

lemma hex_nibble_case:
  assumes "hex_nibble_byte x = Some u" and "hex_nibble_byte y = Some v"
  shows "to_ascii_lowercase x = to_ascii_lowercase y \<longleftrightarrow> u = v"
proof
  show "to_ascii_lowercase x = to_ascii_lowercase y \<Longrightarrow> u = v"
    using assms hex_nibble_lower [of x] hex_nibble_lower [of y] by simp
next
  have lower: "hex_nibble_byte b = Some n \<Longrightarrow> to_ascii_lowercase b = word_of_nat (if n < 10 then 48 + n else 87 + n)" for b n
    by (auto simp: hex_nibble_byte_def to_ascii_lowercase_def word_le_nat_alt split: if_splits
        intro!: word_unat_eq_iff [THEN iffD2] simp: unat_word_ariths unat_of_nat take_bit_nat_eq_self)
  show "u = v \<Longrightarrow> to_ascii_lowercase x = to_ascii_lowercase y" using lower [OF assms(1)] lower [OF assms(2)] by simp
qed

lemma hex_nibble_bound: "hex_nibble_byte b = Some n \<Longrightarrow> n < 16"
  by (auto simp: hex_nibble_byte_def word_le_nat_alt split: if_splits)

lemma nibbles_inj:
  assumes "h < 16" "l < 16" "h' < 16" "l' < 16" and "(word_of_nat (h * 16 + l) :: byte) = word_of_nat (h' * 16 + l')"
  shows "h = h' \<and> l = l'"
proof -
  have "h * 16 + l < 256" "h' * 16 + l' < 256" using assms(1-4) by auto
  then have "h * 16 + l = h' * 16 + l'" using assms(5) by (metis mk_byte_def unat_mk_byte)
  then have "(h * 16 + l) div 16 = (h' * 16 + l') div 16" "(h * 16 + l) mod 16 = (h' * 16 + l') mod 16" by simp_all
  then show ?thesis using assms(1-4) by simp
qed

lemma decode_pairs_case:
  "length a = length b \<Longrightarrow> even (length a) \<Longrightarrow> decode_pairs a = Some p \<Longrightarrow> decode_pairs b = Some q \<Longrightarrow>
     eq_ignore_case_bytes a b \<longleftrightarrow> p = q"
proof (induction a arbitrary: b p q rule: decode_pairs.induct)
  case (1 h l rest)
  obtain h' l' rest' where b: "b = h' # l' # rest'" using 1(2) by (cases b; cases "tl b") auto
  obtain u v p' where a: "hex_nibble_byte h = Some u" "hex_nibble_byte l = Some v" "decode_pairs rest = Some p'"
      "p = word_of_nat (u * 16 + v) # p'"
    using 1(4) by (auto split: option.splits)
  obtain u' v' q' where b': "hex_nibble_byte h' = Some u'" "hex_nibble_byte l' = Some v'" "decode_pairs rest' = Some q'"
      "q = word_of_nat (u' * 16 + v') # q'"
    using 1(5) b by (auto split: option.splits)
  have "eq_ignore_case_bytes rest rest' \<longleftrightarrow> p' = q'" using 1(1) [OF refl a(1,2)] a(3) b'(3) 1(2,3) b by simp
  then show ?case
    using a b' b hex_nibble_case [OF a(1) b'(1)] hex_nibble_case [OF a(2) b'(2)]
      nibbles_inj [OF hex_nibble_bound [OF a(1)] hex_nibble_bound [OF a(2)] hex_nibble_bound [OF b'(1)] hex_nibble_bound [OF b'(2)]]
    by (auto simp: eq_ignore_case_bytes_def eq_ignore_ascii_case_def)
qed (auto simp: eq_ignore_case_bytes_def)

lemma decode_hex_text: "list_all is_hex_char t \<Longrightarrow> length t = 2 * n \<Longrightarrow> \<exists>d. decode_hex_exact n (string_of_chars t) = Some d"
proof -
  have nibble: "\<exists>v. hex_nibble_byte (mk_byte c) = Some v" if "is_hex_char c" for c
    using that unat_mk_byte [of c] by (auto simp: is_hex_char_def hex_nibble_byte_def word_le_nat_alt)
  have "list_all is_hex_char t \<Longrightarrow> \<exists>d. decode_pairs (map mk_byte t) = Some d" for t
  proof (induction t rule: induct_list012)
    case (3 x y zs)
    then show ?case using nibble [of x] nibble [of y] by auto
  qed (use nibble in auto)
  moreover have "string_of_chars t = map mk_byte t" if "list_all is_hex_char t" for t
    using that by (induction t) (auto simp: string_of_chars_def utf8_encode_def is_hex_char_def)
  ultimately show "list_all is_hex_char t \<Longrightarrow> length t = 2 * n \<Longrightarrow> ?thesis" by (simp add: decode_hex_exact_def)
qed

lemma header_parse_md5:
  assumes "header_parse block = Inr h"
  shows "list_all is_hex_char (h_md5 h) \<and> length (h_md5 h) = 32"
proof -
  have "list_all is_hex_char (h_md5 h) \<and> length (string_of_chars (h_md5 h)) = 32"
    using assms by (auto simp: header_parse_def parse_fields_def Let_def split: option.splits if_splits)
  then show ?thesis using ascii_length [of "h_md5 h"] by (force simp: list_all_iff is_hex_char_def)
qed

text \<open>
  The signature check accepts exactly what ClamAV's public key vouches for: the symbols must be
  digits of the base-64 alphabet, least significant first, the number they write must be positive and
  below the modulus, and its power to the public exponent must be the sixteen bytes of the digest that
  the header states, in either case of the hexadecimal digits.
\<close>

theorem verify_signature_exact:
  assumes "crates_ok env" and "header_parse block = Inr h"
  shows "verify_signature env h = Inr () \<longleftrightarrow>
    (\<exists>ds s. map (alphabet_position SIGNATURE_ALPHABET) (string_of_chars (h_signature h)) = map Some ds \<and>
       s = foldr (\<lambda>d v. d + 64 * v) ds 0 \<and> 0 < s \<and> s < CLAMAV_MODULUS \<and>
       s ^ CLAMAV_EXPONENT mod CLAMAV_MODULUS < 256 ^ 16 \<and>
       decode_hex_exact 16 (string_of_chars (h_md5 h)) = Some (be_bytes 16 (s ^ CLAMAV_EXPONENT mod CLAMAV_MODULUS)))"
    (is "?lhs \<longleftrightarrow> (\<exists>ds s. ?digits ds \<and> s = ?value ds \<and> ?vouched s)")
proof -
  define md5 where "md5 = string_of_chars (h_md5 h)"
  obtain d where d: "decode_hex_exact 16 md5 = Some d"
    using decode_hex_text [of "h_md5 h" 16] header_parse_md5 [OF assms(2)] by (auto simp: md5_def)
  have hex: "eq_ignore_case_bytes (hex_encode env p) md5 \<longleftrightarrow> d = p" if "length p = 16" for p
  proof -
    have "decode_hex_exact 16 (hex_encode env p) = Some p" using assms(1) that by (metis crates_ok_def)
    then show ?thesis
      using d decode_pairs_case [of "hex_encode env p" md5 p d] by (auto simp: decode_hex_exact_def split: if_splits)
  qed
  have vouched: "verify_signature env h = Inr () \<longleftrightarrow> ?vouched s"
    if "signature_digits 0 (string_of_chars (h_signature h)) 0 = Some s" for s
  proof -
    define n where "n = s ^ CLAMAV_EXPONENT mod CLAMAV_MODULUS"
    have "modpow env s CLAMAV_EXPONENT CLAMAV_MODULUS = n" using assms(1) by (simp add: crates_ok_def n_def)
    moreover have "length (to_bytes_be env n) \<le> 16 \<longleftrightarrow> n < 256 ^ 16" using assms(1) by (metis crates_ok_def)
    moreover have "replicate (16 - length (to_bytes_be env n)) 0 @ to_bytes_be env n = be_bytes 16 n" if "n < 256 ^ 16"
      using assms(1) that by (metis crates_ok_def)
    ultimately have "verify_signature env h = Inr () \<longleftrightarrow> 0 < s \<and> s < CLAMAV_MODULUS \<and> n < 256 ^ 16 \<and> d = be_bytes 16 n"
      using that hex [of "be_bytes 16 n"] by (auto simp: verify_signature_def Let_def md5_def [symmetric] not_le)
    then show ?thesis using d by (simp add: n_def md5_def)
  qed
  show ?thesis
  proof (cases "signature_digits 0 (string_of_chars (h_signature h)) 0")
    case None
    then have "\<nexists>ds. ?digits ds" using signature_digits_value [of 0 "string_of_chars (h_signature h)" 0] by auto
    then show ?thesis using None by (auto simp: verify_signature_def)
  next
    case (Some s)
    then have s: "?digits ds \<Longrightarrow> ?value ds = s" "\<exists>ds. ?digits ds \<and> ?value ds = s" for ds
      using signature_digits_value [of 0 "string_of_chars (h_signature h)" 0] by auto
    show ?thesis unfolding vouched [OF Some] using s by metis
  qed
qed

section \<open>Examples\<close>

fun be_digits :: "nat \<Rightarrow> bytes" where
  "be_digits n = (if n < 256 then [word_of_nat n] else be_digits (n div 256) @ [word_of_nat (n mod 256)])"

declare be_digits.simps [simp del]

definition hex_digit_byte :: "nat \<Rightarrow> byte" where
  "hex_digit_byte n = word_of_nat (if n < 10 then 48 + n else 87 + n)"

definition hex_of :: "bytes \<Rightarrow> bytes" where
  "hex_of bs = concat (map (\<lambda>b. [hex_digit_byte (unat b div 16), hex_digit_byte (unat b mod 16)]) bs)"

definition example_cvd_env :: cvd_env where
  "example_cvd_env = \<lparr>modpow = (\<lambda>b e m. b ^ e mod m), to_bytes_be = be_digits, hex_encode = hex_of, gz_decode = id,
     can_create_directory = True, can_create = (\<lambda>_. True), can_write = (\<lambda>_ _. True)\<rparr>"

definition example_header :: cvd_header where
  "example_header = \<lparr>h_build_time = text_of ''today'', h_version = 27, h_signature_count = 1, h_functionality_level = 90,
     h_md5 = replicate 31 48 @ [49], h_signature = text_of ''b'', h_builder = text_of ''me''\<rparr>"

definition example_files :: files where
  "example_files = [(text_of ''main.ndb'', [1, 2, 3]), (text_of ''main.hdb'', [])]"

lemma be_bytes_snoc: "n < 256 ^ Suc k \<Longrightarrow> be_bytes (Suc k) n = be_bytes k (n div 256) @ [word_of_nat (n mod 256)]"
proof (induction k arbitrary: n)
  case (Suc k)
  have "n mod 256 ^ Suc k < 256 ^ Suc k" by simp
  then have "be_bytes (Suc k) (n mod 256 ^ Suc k)
      = be_bytes k (n mod 256 ^ Suc k div 256) @ [word_of_nat (n mod 256 ^ Suc k mod 256)]" by (rule Suc.IH)
  moreover have "n mod 256 ^ Suc k div 256 = n div 256 mod 256 ^ k"
    by (simp add: mod_mult2_eq)
  moreover have "n mod 256 ^ Suc k mod 256 = n mod 256" by (simp add: mod_mod_cancel)
  moreover have "n div 256 div 256 ^ k = n div 256 ^ Suc k" by (simp add: div_mult2_eq [symmetric])
  ultimately show ?case by (simp del: power_Suc)
qed simp

lemma be_digits_padded: "0 < k \<Longrightarrow> n < 256 ^ k \<Longrightarrow>
    length (be_digits n) \<le> k \<and> replicate (k - length (be_digits n)) 0 @ be_digits n = be_bytes k n"
proof (induction n arbitrary: k rule: be_digits.induct)
  case (1 n)
  obtain j where k: "k = Suc j" using 1(2) by (cases k) auto
  show ?case
  proof (cases "n < 256")
    case True
    have "be_bytes j 0 = replicate j 0" for j by (induction j) auto
    then show ?thesis using True be_bytes_snoc [of n j] 1(3) k by (simp add: be_digits.simps)
  next
    case False
    then have "0 < j" using 1(3) k by (cases j) auto
    moreover have "n div 256 < 256 ^ j" using 1(3) k by (simp add: less_mult_imp_div_less mult.commute)
    ultimately show ?thesis
      using 1(1) [OF False, of j] False be_bytes_snoc [of n j] 1(3) k
      by (subst be_digits.simps, subst be_digits.simps, subst be_digits.simps) simp
  qed
qed

lemma be_digits_length: "n < 256 ^ length (be_digits n)"
proof (induction n rule: be_digits.induct)
  case (1 n)
  show ?case
  proof (cases "n < 256")
    case False
    then have "n div 256 < 256 ^ length (be_digits (n div 256))" using 1 by simp
    then have "n < 256 * 256 ^ length (be_digits (n div 256))" by (metis div_less_iff_less_mult mult.commute zero_less_numeral)
    then show ?thesis using False by (subst be_digits.simps) simp
  qed (simp add: be_digits.simps)
qed

lemma nibble_of_digit: "n < 16 \<Longrightarrow> hex_nibble_byte (hex_digit_byte n) = Some n"
  using unat_mk_byte [of "if n < 10 then 48 + n else 87 + n"]
  by (auto simp: hex_nibble_byte_def hex_digit_byte_def word_le_nat_alt mk_byte_def)

lemma hex_of_decodes: "decode_hex_exact (length p) (hex_of p) = Some p"
proof -
  have "decode_pairs (hex_of p) = Some p" and "length (hex_of p) = length p * 2"
    by (induction p) (auto simp: hex_of_def nibble_of_digit unat_byte_less less_mult_imp_div_less)
  then show ?thesis by (simp add: decode_hex_exact_def)
qed

lemma example_crates: "crates_ok example_cvd_env"
proof -
  have "length (be_digits n) \<le> 16 \<longleftrightarrow> n < 256 ^ 16" for n
  proof
    show "length (be_digits n) \<le> 16 \<Longrightarrow> n < 256 ^ 16"
      using be_digits_length [of n] power_increasing [of "length (be_digits n)" 16 "256 :: nat"] by linarith
  qed (use be_digits_padded [of 16 n] in simp)
  moreover have "n < 256 ^ 16 \<Longrightarrow> replicate (16 - length (be_digits n)) 0 @ be_digits n = be_bytes 16 n" for n
    using be_digits_padded [of 16 n] by simp
  ultimately show ?thesis using hex_of_decodes by (simp add: crates_ok_def example_cvd_env_def)
qed

lemma example_header_ok: "header_ok example_header"
proof -
  have chars: "list_all (\<lambda>c. c < 128) (header_text example_header)"
    by code_simp
  have "length (header_text example_header) \<le> HEADER_LEN"
    by (simp add: header_text_def example_header_def HEADER_MAGIC_def text_of_def show_nat.simps HEADER_LEN_def)
  then have "length (string_of_chars (header_text example_header)) \<le> HEADER_LEN" using ascii_length [OF chars] by simp
  moreover have "field_ok (text_of ''today'')" "field_ok (text_of ''b'')" "field_ok (text_of ''me'')"
    by (simp_all add: field_ok_def text_of_def is_scalar_def trim_text_def trim_end_by_def trim_start_text_def is_whitespace_char_def)
  ultimately show ?thesis
    by (simp add: header_ok_def example_header_def is_hex_char_def u64_max_def u32_max_def list_all_iff)
qed

lemma example_files_ok: "list_all archivable example_files"
  by (simp add: example_files_def archivable_def plain_name_def is_separator_def has_drive_def is_scalar_def text_of_def
      trim_text_def trim_end_by_def trim_start_text_def is_whitespace_char_def MAX_ENTRY_BYTES_def
      string_of_chars_def utf8_encode_def)

lemma example_extracted:
  "cvd_extract example_cvd_env True (header_block example_header @ tar_archive example_files, False)
     = (Inr (example_header, map fst example_files), example_files)"
proof -
  have "unpack_tar example_cvd_env (tar_archive example_files, False) [] [] = (Inr (map fst example_files), example_files)"
    using unpack_tar_files [OF example_files_ok, of example_cvd_env "[]" False "[]"]
    by (simp add: example_cvd_env_def example_files_def MAX_ENTRIES_def)
  then show ?thesis
    using header_parse_block [OF example_header_ok] length_header_block [OF example_header_ok]
    by (simp add: cvd_extract_def read_full_def) (simp add: example_cvd_env_def)
qed

lemma decode_leading_zeros: "decode_pairs (replicate (2 * k) 0x30 @ rest) = map_option ((@) (replicate k 0)) (decode_pairs rest)"
  by (induction k) (auto simp: hex_nibble_byte_def option.map_comp comp_def option.map_ident)

lemma example_digest: "decode_hex_exact 16 (string_of_chars (h_md5 example_header)) = Some (be_bytes 16 1)"
proof -
  have zeros: "be_bytes k 0 = replicate k 0" for k by (induction k) auto
  have one: "be_bytes (Suc 15) 1 = replicate 15 0 @ [1]" using be_bytes_snoc [of 1 15] zeros [of 15] by simp
  have "string_of_chars (replicate k 48 @ [49]) = replicate k 0x30 @ [0x31]" for k
    by (induction k) (auto simp: string_of_chars_def utf8_encode_def mk_byte_def)
  then have "string_of_chars (h_md5 example_header) = replicate (2 * 15) 0x30 @ [0x30, 0x31]"
    using replicate_app_Cons_same [of 30 "0x30 :: byte" "[0x31]"] by (simp add: example_header_def replicate_add [of 30 1 "0x30 :: byte", simplified])
  moreover have "decode_pairs [0x30, 0x31] = Some [1]" by (simp add: hex_nibble_byte_def)
  ultimately show ?thesis using one decode_leading_zeros [of 15 "[0x30, 0x31]"] by (simp add: decode_hex_exact_def del: be_bytes.simps)
qed

lemma example_hex: "eq_ignore_case_bytes (hex_of (be_bytes 16 1)) (string_of_chars (h_md5 example_header))"
proof -
  have pairs: "decode_pairs (hex_of (be_bytes 16 1)) = Some (be_bytes 16 1)" "length (hex_of (be_bytes 16 1)) = 32"
    using hex_of_decodes [of "be_bytes 16 1"] by (auto simp: decode_hex_exact_def simp del: be_bytes.simps split: if_splits)
  have "decode_pairs (string_of_chars (h_md5 example_header)) = Some (be_bytes 16 1)"
      "length (string_of_chars (h_md5 example_header)) = 32"
    using example_digest by (auto simp: decode_hex_exact_def simp del: be_bytes.simps split: if_splits)
  then show ?thesis using decode_pairs_case [OF _ _ pairs(1)] pairs(2) by simp
qed

lemma example_signed: "verify_signature example_cvd_env example_header = Inr ()"
proof -
  have digits: "signature_digits 0 (string_of_chars (h_signature example_header)) 0 = Some 1"
    by (simp add: example_header_def SIGNATURE_ALPHABET_def bytes_of_def byte_of_def text_of_def string_of_chars_def utf8_encode_def mk_byte_def)
  have power: "(1 :: nat) ^ CLAMAV_EXPONENT mod CLAMAV_MODULUS = 1" by (simp add: CLAMAV_MODULUS_def)
  show ?thesis
    using digits power be_digits_padded [of 16 1] example_hex
    by (simp add: verify_signature_def Let_def example_cvd_env_def CLAMAV_MODULUS_def del: be_bytes.simps)
qed

theorem extract_contained_witness:
  "list_all (\<lambda>(n, content). plain_name n \<and> length content \<le> MAX_ENTRY_BYTES) example_files \<and> length example_files \<le> Suc MAX_ENTRIES"
  using extract_contained [OF example_extracted] by blast

theorem extract_written_witness:
  "cvd_extract example_cvd_env False (header_block example_header @ tar_archive example_files, False)
     = (Inr (example_header, map fst example_files), example_files)"
  by (rule extract_written [OF example_header_ok example_files_ok, where fails = False])
    (simp_all add: example_cvd_env_def example_files_def MAX_ENTRIES_def)

theorem verify_signature_exact_witness: "verify_signature example_cvd_env example_header = Inr ()"
proof -
  have "map (alphabet_position SIGNATURE_ALPHABET) (string_of_chars (h_signature example_header)) = map Some [1]"
    by (simp add: example_header_def SIGNATURE_ALPHABET_def bytes_of_def byte_of_def text_of_def string_of_chars_def utf8_encode_def mk_byte_def)
  moreover note example_digest
  moreover have "(1 :: nat) ^ CLAMAV_EXPONENT mod CLAMAV_MODULUS = 1" by (simp add: CLAMAV_MODULUS_def)
  ultimately show ?thesis
    unfolding verify_signature_exact [OF example_crates header_parse_block [OF example_header_ok]]
    by (intro exI [of _ "[1]"] exI [of _ 1]) (simp add: CLAMAV_MODULUS_def)
qed

end
