(* ===== verification/Downloader.thy ===== *)
theory Downloader
  imports Cvd
begin

text \<open>
  The ClamAV downloader and its scheduler, \<^verbatim>\<open>src/clamdb/downloader.rs\<close> and \<^verbatim>\<open>src/clamdb/scheduler.rs\<close>.
  The mirrors are a function from an address to their replies, MD5 is a parameter, and a record says
  which calls of the file system fail. The store keeps the unpacked databases of each generation, the
  pointer to the active one and the recorded cooldown. The staging directory is the value a refresh
  builds up before it is renamed; what a failed attempt leaves in it is removed or overwritten and
  never read. Moments are nanoseconds since the epoch.
\<close>

section \<open>Data\<close>

type_synonym moment = int

definition seconds :: "nat \<Rightarrow> int" where "seconds s = int s * 1000000000"

definition DEFAULT_COOLDOWN :: nat where "DEFAULT_COOLDOWN = 60 * 60"
definition MAX_COOLDOWN :: nat where "MAX_COOLDOWN = 7 * 24 * 60 * 60"
definition CONTAINERS :: "string list" where "CONTAINERS = [''main'', ''daily'']"
definition MAX_CONTAINER_BYTES :: nat where "MAX_CONTAINER_BYTES = 512 * 1024 * 1024"
definition REFRESH_INTERVAL_MINUTES :: int where "REFRESH_INTERVAL_MINUTES = 60"

text \<open>A rate limit carries the seconds to wait.\<close>

datatype download_error = DlIo | DlHttp | DlValidation | RateLimited nat

definition from_cvd_error :: "cvd_error \<Rightarrow> download_error" where
  "from_cvd_error e = (case e of CvdIo \<Rightarrow> DlIo | Malformed _ \<Rightarrow> DlValidation)"

text \<open>
  The pointer. Its path is the directory of a generation, or none when it does not lie in the
  protected store.
\<close>

record active_db =
  a_generation :: nat
  a_version :: string
  a_activated_at :: moment
  a_unpacked_path :: "nat option"
  a_container_versions :: "string \<Rightarrow> nat option"
  a_checked_at :: "moment option"

definition last_contact :: "active_db \<Rightarrow> moment" where
  "last_contact a = (case a_checked_at a of None \<Rightarrow> a_activated_at a | Some checked \<Rightarrow> max checked (a_activated_at a))"

definition installed_is_current :: "nat option \<Rightarrow> nat option \<Rightarrow> bool" where
  "installed_is_current installed offered =
     (case (installed, offered) of (Some i, Some f) \<Rightarrow> i \<ge> f | _ \<Rightarrow> False)"

record clam_store =
  generations :: "nat \<Rightarrow> files option"
  active_pointer :: "active_db option"
  cooldown :: "moment option"

section \<open>The mirror\<close>

datatype http_reply = Reply stream | StatusReply nat "utext option" | NoReply

record mirror_net =
  get_header :: "string \<Rightarrow> http_reply"
  get_container :: "string \<Rightarrow> http_reply"

record clam_io =
  io_create :: bool
  io_write :: bool
  io_remove :: bool
  io_link :: "utext \<Rightarrow> bool"
  io_stage :: bool
  io_rename :: bool
  io_pointer :: bool
  io_prune :: "nat \<Rightarrow> bool"
  io_cooldown :: bool

record clam_env =
  ce_cvd :: cvd_env
  ce_md5 :: "bytes \<Rightarrow> bytes"

definition container_url :: "string \<Rightarrow> string \<Rightarrow> download_error + string" where
  "container_url base name =
     (let url = rev (dropWhile (\<lambda>c. c = CHR ''/'') (rev base)) @ ''/'' @ name @ ''.cvd'' in
      if starts_with url ''https://'' then Inr url else Inl DlValidation)"

definition request_error :: "http_reply \<Rightarrow> download_error" where
  "request_error reply =
     (case reply of
        StatusReply status retry_after \<Rightarrow>
          if status = 429 \<or> status = 503
          then (case Option.bind retry_after (\<lambda>t. parse_text 10 u64_max (trim_text t)) of
                  Some asked \<Rightarrow> RateLimited (min asked MAX_COOLDOWN)
                | None \<Rightarrow> if status = 429 then RateLimited DEFAULT_COOLDOWN else DlHttp)
          else DlHttp
      | _ \<Rightarrow> DlHttp)"

definition fetch_header :: "mirror_net \<Rightarrow> string \<Rightarrow> string \<Rightarrow> download_error + cvd_header" where
  "fetch_header net base name =
     (case container_url base name of
        Inl e \<Rightarrow> Inl e
      | Inr url \<Rightarrow>
          (case get_header net url of
             Reply stream \<Rightarrow>
               (case read_full HEADER_LEN stream of
                  Inl e \<Rightarrow> Inl (from_cvd_error e)
                | Inr (block, _) \<Rightarrow>
                    (case header_parse block of Inl e \<Rightarrow> Inl (from_cvd_error e) | Inr h \<Rightarrow> Inr h))
           | failed \<Rightarrow> Inl (request_error failed)))"

text \<open>The container is written to the staging directory: the result is the file's content.\<close>

definition fetch_container :: "mirror_net \<Rightarrow> clam_io \<Rightarrow> string \<Rightarrow> string \<Rightarrow> download_error + bytes" where
  "fetch_container net io base name =
     (case container_url base name of
        Inl e \<Rightarrow> Inl e
      | Inr url \<Rightarrow>
          (case get_container net url of
             Reply stream \<Rightarrow>
               if \<not> io_create io then Inl DlIo
               else (case read_full (MAX_CONTAINER_BYTES + 1) stream of
                  Inl e \<Rightarrow> Inl (from_cvd_error e)
                | Inr (copied, _) \<Rightarrow>
                    if \<not> io_write io then Inl DlIo
                    else if length copied > MAX_CONTAINER_BYTES then Inl DlValidation
                    else if length copied \<le> HEADER_LEN then Inl DlValidation
                    else Inr copied)
           | failed \<Rightarrow> Inl (request_error failed)))"

definition verify_body_digest :: "clam_env \<Rightarrow> bytes \<Rightarrow> download_error + cvd_header" where
  "verify_body_digest env container =
     (case read_header (container, False) of
        Inl e \<Rightarrow> Inl (from_cvd_error e)
      | Inr header \<Rightarrow>
          if eq_ignore_case_bytes (hex_encode (ce_cvd env) (ce_md5 env (drop HEADER_LEN container))) (string_of_chars (h_md5 header))
          then Inr header else Inl DlValidation)"

definition verify_container :: "clam_env \<Rightarrow> bytes \<Rightarrow> download_error + cvd_header" where
  "verify_container env container =
     (case verify_body_digest env container of
        Inl e \<Rightarrow> Inl e
      | Inr header \<Rightarrow>
          (case verify_signature (ce_cvd env) header of Inl e \<Rightarrow> Inl (from_cvd_error e) | Inr _ \<Rightarrow> Inr header))"

section \<open>Building a generation\<close>

definition container_file :: "string \<Rightarrow> utext \<Rightarrow> bool" where
  "container_file name n \<longleftrightarrow> starts_with n (text_of (name @ ''.''))"

definition link_container_files :: "clam_io \<Rightarrow> files \<Rightarrow> files \<Rightarrow> string \<Rightarrow> download_error + files" where
  "link_container_files io from_dir to_dir name =
     (let selected = filter (\<lambda>(n, _). container_file name n) from_dir in
      if \<not> list_all (\<lambda>(n, _). io_link io n) selected then Inl DlIo
      else if selected = [] then Inl DlValidation
      else Inr (to_dir @ selected))"

definition older_than :: "nat \<Rightarrow> nat option \<Rightarrow> bool" where
  "older_than v installed = (case installed of None \<Rightarrow> False | Some i \<Rightarrow> v < i)"

text \<open>One container of the loop: carried over from the previous generation, or fetched, verified and unpacked.\<close>

definition populate_container :: "clam_env \<Rightarrow> mirror_net \<Rightarrow> clam_io \<Rightarrow> string \<Rightarrow> (active_db \<times> files) option \<Rightarrow>
    (string \<Rightarrow> nat option) \<Rightarrow> string \<Rightarrow> files \<times> (string \<Rightarrow> nat option) \<Rightarrow>
    download_error + files \<times> (string \<Rightarrow> nat option)" where
  "populate_container env net io base previous remote name acc =
     (case acc of (unpacked, installed) \<Rightarrow>
        let before = Option.bind previous (\<lambda>(a, _). a_container_versions a name) in
        if installed_is_current before (remote name)
        then (case previous of
                None \<Rightarrow> Inl DlIo
              | Some (_, old) \<Rightarrow>
                  (case link_container_files io old unpacked name of
                     Inl e \<Rightarrow> Inl e
                   | Inr unpacked \<Rightarrow> Inr (unpacked, installed(name := before))))
        else (case fetch_container net io base name of
                Inl e \<Rightarrow> Inl e
              | Inr container \<Rightarrow>
                  (case verify_container env container of
                     Inl e \<Rightarrow> Inl e
                   | Inr header \<Rightarrow>
                       if older_than (h_version header) before then Inl DlValidation
                       else (case cvd_extract (ce_cvd env) False (container, False) of
                               (Inl e, _) \<Rightarrow> Inl (from_cvd_error e)
                             | (Inr _, outs) \<Rightarrow>
                                 if \<not> io_remove io then Inl DlIo
                                 else Inr (unpacked @ outs, installed(name \<mapsto> h_version header))))))"

fun populate_generation :: "clam_env \<Rightarrow> mirror_net \<Rightarrow> clam_io \<Rightarrow> string \<Rightarrow> (active_db \<times> files) option \<Rightarrow>
    (string \<Rightarrow> nat option) \<Rightarrow> string list \<Rightarrow> files \<times> (string \<Rightarrow> nat option) \<Rightarrow>
    download_error + files \<times> (string \<Rightarrow> nat option)" where
  "populate_generation env net io base previous remote [] acc = Inr acc"
| "populate_generation env net io base previous remote (name # names) acc =
     (case populate_container env net io base previous remote name acc of
        Inl e \<Rightarrow> Inl e
      | Inr acc \<Rightarrow> populate_generation env net io base previous remote names acc)"

text \<open>What the mirror offers, from the signed headers.\<close>

fun remote_versions :: "clam_env \<Rightarrow> mirror_net \<Rightarrow> string \<Rightarrow> string list \<Rightarrow> (string \<Rightarrow> nat option) \<Rightarrow>
    download_error + (string \<Rightarrow> nat option)" where
  "remote_versions env net base [] acc = Inr acc"
| "remote_versions env net base (name # names) acc =
     (case fetch_header net base name of
        Inl e \<Rightarrow> Inl e
      | Inr header \<Rightarrow>
          (case verify_signature (ce_cvd env) header of
             Inl e \<Rightarrow> Inl (from_cvd_error e)
           | Inr _ \<Rightarrow> remote_versions env net base names (acc(name \<mapsto> h_version header))))"

section \<open>The active generation\<close>

definition active_database :: "clam_store \<Rightarrow> download_error + active_db" where
  "active_database st =
     (case active_pointer st of
        None \<Rightarrow> Inl DlIo
      | Some a \<Rightarrow>
          (case a_unpacked_path a of
             None \<Rightarrow> Inl DlValidation
           | Some g \<Rightarrow>
               (case generations st g of
                  None \<Rightarrow> Inl DlIo
                | Some unpacked \<Rightarrow>
                    if list_all (\<lambda>name. text_of (name @ ''.info'') \<in> fst ` set unpacked) CONTAINERS then Inr a
                    else Inl DlValidation)))"

definition prune_generations :: "clam_io \<Rightarrow> nat \<Rightarrow> clam_store \<Rightarrow> clam_store" where
  "prune_generations io keep st =
     st\<lparr>generations := (\<lambda>g. if g \<noteq> keep \<and> io_prune io g then None else generations st g)\<rparr>"

definition unpacked_of :: "clam_store \<Rightarrow> active_db \<Rightarrow> files" where
  "unpacked_of st a =
     (case Option.bind (a_unpacked_path a) (generations st) of None \<Rightarrow> [] | Some unpacked \<Rightarrow> unpacked)"

definition install_generation :: "clam_env \<Rightarrow> mirror_net \<Rightarrow> clam_io \<Rightarrow> moment \<Rightarrow> string \<Rightarrow> (string \<Rightarrow> nat option) \<Rightarrow>
    (active_db \<times> files) option \<Rightarrow> clam_store \<Rightarrow> (download_error + active_db) \<times> clam_store" where
  "install_generation env net io now base remote previous st =
     (if now div 1000000 < 0 then (Inl DlValidation, st)
      else if \<not> io_stage io then (Inl DlIo, st)
      else let g = nat (now div 1000000) in
        (case populate_generation env net io base previous remote CONTAINERS ([], Map.empty) of
           Inl e \<Rightarrow> (Inl e, st)
         | Inr (unpacked, installed) \<Rightarrow>
             if \<not> io_rename io \<or> generations st g \<noteq> None then (Inl DlIo, st)
             else let st = st\<lparr>generations := (generations st)(g \<mapsto> unpacked)\<rparr>;
                      a = \<lparr>a_generation = g,
                           a_version = (case installed ''daily'' of Some v \<Rightarrow> show_nat v | None \<Rightarrow> show_nat g),
                           a_activated_at = now, a_unpacked_path = Some g, a_container_versions = installed,
                           a_checked_at = None\<rparr>
                  in if \<not> io_pointer io then (Inl DlIo, st)
                     else (Inr a, prune_generations io g (st\<lparr>active_pointer := Some a\<rparr>))))"

definition refresh :: "clam_env \<Rightarrow> mirror_net \<Rightarrow> clam_io \<Rightarrow> moment \<Rightarrow> active_db option \<Rightarrow> string \<Rightarrow> clam_store \<Rightarrow>
    (download_error + active_db) \<times> clam_store" where
  "refresh env net io now previous base st =
     (case remote_versions env net base CONTAINERS Map.empty of
        Inl e \<Rightarrow> (Inl e, st)
      | Inr remote \<Rightarrow>
          (case previous of
             Some a \<Rightarrow>
               if list_all (\<lambda>name. installed_is_current (a_container_versions a name) (remote name)) CONTAINERS
               then let a = a\<lparr>a_checked_at := Some now\<rparr> in
                    (Inr a, if io_pointer io then st\<lparr>active_pointer := Some a\<rparr> else st)
               else install_generation env net io now base remote (Some (a, unpacked_of st a)) st
           | None \<Rightarrow> install_generation env net io now base remote None st))"

text \<open>What is left of a recorded cooldown, in whole seconds; none once it has passed.\<close>

definition cooldown_remaining :: "moment \<Rightarrow> clam_store \<Rightarrow> nat option" where
  "cooldown_remaining now st =
     (case cooldown st of
        None \<Rightarrow> None
      | Some until \<Rightarrow> if until < now then None else Some (nat ((until - now) div seconds 1)))"

definition minutes_since :: "moment \<Rightarrow> moment \<Rightarrow> int" where
  "minutes_since now before =
     (let d = now - before in if d \<ge> 0 then d div seconds 60 else - (- d div seconds 60))"

definition from_fallback :: "clam_env \<Rightarrow> mirror_net \<Rightarrow> clam_io \<Rightarrow> moment \<Rightarrow> string \<Rightarrow> clam_store \<Rightarrow>
    (download_error + active_db) \<times> clam_store" where
  "from_fallback env net io now fallback st =
     (case refresh env net io now None fallback st of
        (Inl _, st) \<Rightarrow> (Inl DlHttp, st)
      | (Inr a, st) \<Rightarrow> (Inr a, st))"

definition download_databases :: "clam_env \<Rightarrow> mirror_net \<Rightarrow> clam_io \<Rightarrow> moment \<Rightarrow> string \<Rightarrow> string \<Rightarrow> clam_store \<Rightarrow>
    (download_error + active_db) \<times> clam_store" where
  "download_databases env net io now mirror fallback st =
     (let previous = (case active_database st of Inl _ \<Rightarrow> None | Inr a \<Rightarrow> Some a) in
      if (case previous of None \<Rightarrow> False | Some a \<Rightarrow> minutes_since now (last_contact a) < REFRESH_INTERVAL_MINUTES)
      then (Inr (the previous), st)
      else case cooldown_remaining now st of
        Some _ \<Rightarrow>
          (case previous of
             Some a \<Rightarrow> (Inr a, st)
           | None \<Rightarrow> from_fallback env net io now fallback st)
      | None \<Rightarrow>
          (case refresh env net io now previous mirror st of
             (Inr a, st) \<Rightarrow> (Inr a, st)
           | (Inl e, st) \<Rightarrow>
               let st = (case e of
                           RateLimited wait \<Rightarrow> if io_cooldown io then st\<lparr>cooldown := Some (now + seconds wait)\<rparr> else st
                         | _ \<Rightarrow> st)
               in (case previous of
                     None \<Rightarrow> from_fallback env net io now fallback st
                   | Some _ \<Rightarrow> (Inl e, st))))"

section \<open>The scheduler\<close>

text \<open>
  One check of the background thread: what it hands to the service, and the generation it remembers.
\<close>

definition scheduler_check :: "nat option \<Rightarrow> download_error + active_db \<Rightarrow> (download_error + active_db) option \<times> nat option" where
  "scheduler_check last_generation result =
     (case result of
        Inr a \<Rightarrow> if Some (a_generation a) \<noteq> last_generation then (Some (Inr a), Some (a_generation a)) else (None, last_generation)
      | Inl e \<Rightarrow> (Some (Inl e), last_generation))"

text \<open>The delay for a random number of the range that is asked of the generator.\<close>

definition next_check_delay :: "bool \<Rightarrow> (nat \<Rightarrow> nat) \<Rightarrow> nat" where
  "next_check_delay has_definitions random_up_to =
     (let base = (if has_definitions then 4 * 60 * 60 else 15 * 60);
          spread = base div 16;
          offset = random_up_to (2 * spread)
      in base - spread + offset)"

section \<open>Where installed files come from\<close>

text \<open>A file is vouched for when it was unpacked from a container that passed both checks.\<close>

definition vouched_for :: "clam_env \<Rightarrow> utext \<times> bytes \<Rightarrow> bool" where
  "vouched_for env f \<longleftrightarrow>
     (\<exists>container h names outs. verify_container env container = Inr h \<and>
        cvd_extract (ce_cvd env) False (container, False) = (Inr (h, names), outs) \<and> f \<in> set outs)"

definition authentic :: "clam_env \<Rightarrow> files \<Rightarrow> bool" where
  "authentic env fs \<longleftrightarrow> (\<forall>f \<in> set fs. vouched_for env f)"

definition store_authentic :: "clam_env \<Rightarrow> clam_store \<Rightarrow> bool" where
  "store_authentic env st \<longleftrightarrow> (\<forall>g fs. generations st g = Some fs \<longrightarrow> authentic env fs)"

lemma extract_header: "cvd_extract cenv False (container, False) = (Inr (h, names), outs) \<Longrightarrow> read_header (container, False) = Inr h"
  by (auto simp: cvd_extract_def read_header_def split: sum.splits prod.splits if_splits)

lemma verify_container_Inr:
  "verify_container env container = Inr h \<longleftrightarrow>
     read_header (container, False) = Inr h \<and>
     eq_ignore_case_bytes (hex_encode (ce_cvd env) (ce_md5 env (drop HEADER_LEN container))) (string_of_chars (h_md5 h)) \<and>
     verify_signature (ce_cvd env) h = Inr ()"
  by (auto simp: verify_container_def verify_body_digest_def split: sum.splits)

lemma verified_header: "verify_container env container = Inr h \<Longrightarrow> read_header (container, False) = Inr h"
  by (simp add: verify_container_Inr)

definition version_before :: "(active_db \<times> files) option \<Rightarrow> string \<Rightarrow> nat option" where
  "version_before previous name = Option.bind previous (\<lambda>(a, _). a_container_versions a name)"

lemma populate_container_result:
  assumes "populate_container env net io base previous remote name (unpacked, installed) = Inr acc"
    and "\<And>a old. previous = Some (a, old) \<Longrightarrow> authentic env old"
  shows "\<exists>new v. acc = (unpacked @ new, installed(name \<mapsto> v)) \<and> authentic env new \<and>
    (\<forall>i. version_before previous name = Some i \<longrightarrow> i \<le> v)"
proof (cases "installed_is_current (version_before previous name) (remote name)")
  case True
  then obtain a old i where prev: "previous = Some (a, old)" "version_before previous name = Some i"
    by (cases previous) (auto simp: installed_is_current_def version_before_def split: option.splits)
  moreover obtain u where "link_container_files io old unpacked name = Inr u" "acc = (u, installed(name := Some i))"
    using assms(1) True prev
    by (auto simp: populate_container_def Let_def version_before_def [symmetric] split: sum.splits)
  moreover have "authentic env old" using assms(2) prev by blast
  ultimately show ?thesis
    by (auto simp: link_container_files_def Let_def authentic_def split: if_splits)
next
  case False
  then obtain container h h' names outs where c: "verify_container env container = Inr h"
      "\<not> older_than (h_version h) (version_before previous name)"
      "cvd_extract (ce_cvd env) False (container, False) = (Inr (h', names), outs)"
      "acc = (unpacked @ outs, installed(name \<mapsto> h_version h))"
    using assms(1)
    by (auto simp: populate_container_def Let_def version_before_def [symmetric] split: sum.splits if_splits prod.splits)
  have "h' = h" using extract_header [OF c(3)] verified_header [OF c(1)] by simp
  then have "authentic env outs" using c(1,3) by (auto simp: authentic_def vouched_for_def)
  then show ?thesis using c(2,4) by (auto simp: older_than_def split: option.splits)
qed

lemma populate_generation_result:
  assumes "populate_generation env net io base previous remote names (unpacked, installed) = Inr (unpacked', installed')"
    and "\<And>a old. previous = Some (a, old) \<Longrightarrow> authentic env old" and "authentic env unpacked" and "distinct names"
  shows "authentic env unpacked' \<and> (\<forall>n. n \<notin> set names \<longrightarrow> installed' n = installed n) \<and>
    (\<forall>n \<in> set names. \<exists>v. installed' n = Some v \<and> (\<forall>i. version_before previous n = Some i \<longrightarrow> i \<le> v))"
  using assms(1,3,4)
proof (induction names arbitrary: unpacked installed)
  case (Cons name names)
  obtain acc where acc: "populate_container env net io base previous remote name (unpacked, installed) = Inr acc"
    and rest: "populate_generation env net io base previous remote names acc = Inr (unpacked', installed')"
    using Cons.prems(1) by (auto split: sum.splits)
  obtain new v where new: "acc = (unpacked @ new, installed(name \<mapsto> v))" "authentic env new"
      "\<forall>i. version_before previous name = Some i \<longrightarrow> i \<le> v"
    using populate_container_result [OF acc] assms(2) by blast
  have "authentic env (unpacked @ new)" using Cons.prems(2) new(2) by (auto simp: authentic_def)
  then show ?case using Cons.IH [OF rest [unfolded new(1)]] Cons.prems(3) new(3) by auto
qed simp

lemma install_cases:
  assumes "install_generation env net io now base remote previous st = (r, st')"
  obtains (failed) e where "r = Inl e" "st' = st"
    | (orphan) g unpacked where "r = Inl DlIo" "generations st g = None" "st' = st\<lparr>generations := (generations st)(g \<mapsto> unpacked)\<rparr>"
        "\<exists>installed. populate_generation env net io base previous remote CONTAINERS ([], Map.empty) = Inr (unpacked, installed)"
    | (installed) g unpacked a where "r = Inr a" "generations st g = None" "a_unpacked_path a = Some g"
        "st' = prune_generations io g (st\<lparr>generations := (generations st)(g \<mapsto> unpacked), active_pointer := Some a\<rparr>)"
        "populate_generation env net io base previous remote CONTAINERS ([], Map.empty) = Inr (unpacked, a_container_versions a)"
proof -
  define g where "g = nat (now div 1000000)"
  let ?built = "populate_generation env net io base previous remote CONTAINERS ([], Map.empty)"
  show thesis
  proof (cases "now div 1000000 < 0 \<or> \<not> io_stage io \<or> (\<exists>e. ?built = Inl e) \<or> \<not> io_rename io \<or> generations st g \<noteq> None")
    case True
    then have "st' = st" "\<exists>e. r = Inl e"
      using assms by (auto simp: install_generation_def Let_def g_def [symmetric] split: sum.splits prod.splits if_splits)
    then show thesis using failed by blast
  next
    case False
    then obtain unpacked versions where built: "?built = Inr (unpacked, versions)" by (cases ?built) auto
    show thesis
    proof (cases "io_pointer io")
      case True
      show thesis
        by (rule installed [of _ g unpacked])
          (use assms False True built in \<open>auto simp: install_generation_def Let_def g_def [symmetric]\<close>)
    next
      case nope: False
      show thesis
        by (rule orphan [of g unpacked])
          (use assms False nope built in \<open>auto simp: install_generation_def Let_def g_def [symmetric]\<close>)
    qed
  qed
qed

text \<open>A failure keeps what was there: the pointer, the cooldown and every generation.\<close>

definition keeps :: "clam_store \<Rightarrow> clam_store \<Rightarrow> bool" where
  "keeps st st' \<longleftrightarrow> active_pointer st' = active_pointer st \<and>
     (\<forall>g fs. generations st g = Some fs \<longrightarrow> generations st' g = Some fs)"

lemma keeps_refl [simp]: "keeps st st" and keeps_trans: "keeps a b \<Longrightarrow> keeps b c \<Longrightarrow> keeps a c"
  by (auto simp: keeps_def)

lemma keeps_active: "keeps st st' \<Longrightarrow> active_database st = Inr a \<Longrightarrow> active_database st' = Inr a"
  by (auto simp: keeps_def active_database_def split: option.splits if_splits)

definition no_older :: "active_db option \<Rightarrow> active_db \<Rightarrow> bool" where
  "no_older previous a' \<longleftrightarrow>
     (\<forall>a name v. previous = Some a \<longrightarrow> name \<in> set CONTAINERS \<longrightarrow> a_container_versions a name = Some v \<longrightarrow>
        (\<exists>v'. a_container_versions a' name = Some v' \<and> v \<le> v'))"

lemma install_generation_result:
  assumes "install_generation env net io now base remote (map_option (\<lambda>a. (a, unpacked_of st a)) previous) st = (r, st')"
    and "store_authentic env st"
  shows "store_authentic env st' \<and> (\<forall>a'. r = Inr a' \<longrightarrow> no_older previous a') \<and> (\<forall>e. r = Inl e \<longrightarrow> keeps st st' \<and> cooldown st' = cooldown st)"
proof -
  have old: "authentic env old" if "map_option (\<lambda>a. (a, unpacked_of st a)) previous = Some (a, old)" for a old
    using that assms(2) by (auto simp: unpacked_of_def store_authentic_def authentic_def split: option.splits bind_splits)
  let ?previous = "map_option (\<lambda>a. (a, unpacked_of st a)) previous"
  have built: "authentic env unpacked \<and> (\<forall>n. n \<notin> set CONTAINERS \<longrightarrow> versions n = None) \<and>
      (\<forall>n \<in> set CONTAINERS. \<exists>v. versions n = Some v \<and> (\<forall>i. version_before ?previous n = Some i \<longrightarrow> i \<le> v))"
    if "populate_generation env net io base ?previous remote CONTAINERS ([], Map.empty) = Inr (unpacked, versions)"
    for unpacked versions
    by (rule populate_generation_result [OF that old]) (simp_all add: authentic_def CONTAINERS_def)
  from assms(1) show ?thesis
  proof (cases rule: install_cases)
    case (failed e)
    then show ?thesis using assms(2) by simp
  next
    case (orphan g unpacked)
    then have "authentic env unpacked" using built by blast
    then show ?thesis using orphan assms(2) by (auto simp: store_authentic_def keeps_def)
  next
    case (installed g unpacked a)
    then have "no_older previous a" using built [OF installed(5)] by (force simp: no_older_def version_before_def)
    then show ?thesis using installed built [OF installed(5)] assms(2) by (auto simp: store_authentic_def prune_generations_def)
  qed
qed

lemma refresh_result:
  assumes "refresh env net io now previous base st = (r, st')" and "store_authentic env st"
  shows "store_authentic env st' \<and> (\<forall>a'. r = Inr a' \<longrightarrow> no_older previous a') \<and> (\<forall>e. r = Inl e \<longrightarrow> keeps st st' \<and> cooldown st' = cooldown st)"
proof (cases "remote_versions env net base CONTAINERS Map.empty")
  case (Inl e)
  then show ?thesis using assms by (auto simp: refresh_def)
next
  case (Inr remote)
  consider (current) a where "previous = Some a"
      "list_all (\<lambda>name. installed_is_current (a_container_versions a name) (remote name)) CONTAINERS"
    | (install) "install_generation env net io now base remote (map_option (\<lambda>a. (a, unpacked_of st a)) previous) st = (r, st')"
    using assms(1) Inr by (cases previous) (auto simp: refresh_def split: if_splits)
  then show ?thesis
  proof cases
    case current
    then have "r = Inr (a\<lparr>a_checked_at := Some now\<rparr>)" "generations st' = generations st"
      using assms(1) Inr by (auto simp: refresh_def Let_def)
    then show ?thesis using current(1) assms(2) by (simp add: store_authentic_def no_older_def)
  qed (rule install_generation_result [OF _ assms(2)])
qed

lemma from_fallback_result:
  assumes "from_fallback env net io now fallback st = (r, st')" and "store_authentic env st"
  shows "store_authentic env st' \<and> (\<forall>e. r = Inl e \<longrightarrow> keeps st st' \<and> e = DlHttp)"
proof -
  obtain q where "refresh env net io now None fallback st = (q, st')"
    using assms(1) by (auto simp: from_fallback_def split: prod.splits sum.splits)
  then show ?thesis using refresh_result [OF _ assms(2)] assms(1) by (auto simp: from_fallback_def split: sum.splits)
qed

lemma request_error_bound: "request_error reply = RateLimited w \<Longrightarrow> w \<le> MAX_COOLDOWN"
  by (auto simp: request_error_def MAX_COOLDOWN_def DEFAULT_COOLDOWN_def split: http_reply.splits if_splits option.splits)

lemma refresh_rate_limit:
  assumes "refresh env net io now previous base st = (Inl (RateLimited w), st')"
  shows "w \<le> MAX_COOLDOWN"
proof -
  have cvd: "from_cvd_error e \<noteq> RateLimited w" for e by (cases e) (auto simp: from_cvd_error_def)
  have url: "container_url base name \<noteq> Inl (RateLimited w)" for name by (simp add: container_url_def Let_def)
  have header: "fetch_header net base name = Inl (RateLimited w) \<Longrightarrow> w \<le> MAX_COOLDOWN" for name
    using cvd url by (auto simp: fetch_header_def split: sum.splits http_reply.splits prod.splits dest: request_error_bound)
  have remote: "remote_versions env net base names acc = Inl (RateLimited w) \<Longrightarrow> w \<le> MAX_COOLDOWN" for names acc
    using cvd by (induction names arbitrary: acc) (auto split: sum.splits dest: header)
  have container: "fetch_container net io base name = Inl (RateLimited w) \<Longrightarrow> w \<le> MAX_COOLDOWN" for name
    using cvd url by (auto simp: fetch_container_def split: sum.splits http_reply.splits prod.splits if_splits dest: request_error_bound)
  have verify: "verify_container env c \<noteq> Inl (RateLimited w)" for c
    using cvd by (auto simp: verify_container_def verify_body_digest_def split: sum.splits if_splits)
  have link: "link_container_files io old new name \<noteq> Inl (RateLimited w)" for old new name
    by (simp add: link_container_files_def Let_def)
  have step: "populate_container env net io base prev rem name acc = Inl (RateLimited w) \<Longrightarrow> w \<le> MAX_COOLDOWN" for prev rem name acc
    using cvd verify link container
    by (auto simp: populate_container_def Let_def split: sum.splits prod.splits if_splits option.splits)
  have "populate_generation env net io base prev rem names acc = Inl (RateLimited w) \<Longrightarrow> w \<le> MAX_COOLDOWN" for prev rem names acc
    by (induction names arbitrary: acc) (auto split: sum.splits dest: step)
  then have "install_generation env net io now base rem prev st = (Inl (RateLimited w), st') \<Longrightarrow> w \<le> MAX_COOLDOWN" for rem prev
    by (auto simp: install_generation_def Let_def split: if_splits sum.splits prod.splits)
  then show ?thesis using assms remote by (auto simp: refresh_def Let_def split: sum.splits option.splits if_splits)
qed

lemma download_result:
  assumes "download_databases env net io now mirror fallback st = (r, st')" and "store_authentic env st"
  shows "store_authentic env st' \<and>
    (\<forall>a a'. active_database st = Inr a \<longrightarrow> r = Inr a' \<longrightarrow> no_older (Some a) a') \<and>
    (\<forall>e. r = Inl e \<longrightarrow> keeps st st')"
proof (cases "active_database st")
  case (Inr a)
  consider (kept) "r = Inr a" "st' = st"
    | (asked) q st1 where "refresh env net io now (Some a) mirror st = (q, st1)" "q = r"
        "active_pointer st' = active_pointer st1" "generations st' = generations st1"
    using assms(1) Inr
    by (cases "refresh env net io now (Some a) mirror st") (auto simp: download_databases_def Let_def split: if_splits option.splits sum.splits download_error.splits)
  then show ?thesis
  proof cases
    case kept
    then show ?thesis using Inr assms(2) by (auto simp: no_older_def)
  next
    case asked
    then show ?thesis using refresh_result [OF asked(1) assms(2)] Inr by (auto simp: store_authentic_def keeps_def)
  qed
next
  case (Inl e)
  obtain q st1 where refreshed: "refresh env net io now None mirror st = (q, st1)" by (cases "refresh env net io now None mirror st")
  consider (answered) a where "q = Inr a" "r = Inr a" "st' = st1"
    | (fallback) st2 where "from_fallback env net io now fallback st2 = (r, st')" "keeps st st2" "store_authentic env st2"
  proof (cases "cooldown_remaining now st")
    case (Some w)
    then show thesis using that(2) [of st] assms Inl by (simp add: download_databases_def Let_def)
  next
    case None
    show thesis
    proof (cases q)
      case (Inl e')
      define st2 where "st2 = (case e' of RateLimited w \<Rightarrow> if io_cooldown io then st1\<lparr>cooldown := Some (now + seconds w)\<rparr> else st1 | _ \<Rightarrow> st1)"
      have "generations st2 = generations st1" "active_pointer st2 = active_pointer st1"
        by (auto simp: st2_def split: download_error.splits)
      then have "keeps st st2" "store_authentic env st2"
        using refresh_result [OF refreshed assms(2)] Inl by (auto simp: keeps_def store_authentic_def)
      moreover have "from_fallback env net io now fallback st2 = (r, st')"
        using assms(1) \<open>active_database st = Inl e\<close> None Inl refreshed by (simp add: download_databases_def st2_def)
      ultimately show thesis using that(2) by blast
    next
      case (Inr a)
      then show thesis using that(1) assms(1) \<open>active_database st = Inl e\<close> None refreshed by (auto simp: download_databases_def)
    qed
  qed
  then show ?thesis
  proof cases
    case answered
    then show ?thesis using refresh_result [OF refreshed assms(2)] Inl by simp
  next
    case fallback
    then show ?thesis using from_fallback_result [OF fallback(1,3)] Inl keeps_trans by auto
  qed
qed

section \<open>Properties\<close>

type_synonym check = "mirror_net \<times> clam_io \<times> moment \<times> string \<times> string"

fun run_checks :: "clam_env \<Rightarrow> check list \<Rightarrow> clam_store \<Rightarrow> clam_store" where
  "run_checks env [] st = st"
| "run_checks env ((net, io, now, mirror, fallback) # checks) st =
     run_checks env checks (snd (download_databases env net io now mirror fallback st))"

definition empty_store :: clam_store where
  "empty_store = \<lparr>generations = Map.empty, active_pointer = None, cooldown = None\<rparr>"

text \<open>
  (C21) Only definitions that ClamAV signed are ever active. Whatever the mirrors answer over any number
  of checks, and whichever calls of the file system fail, every database of the active generation was
  unpacked from a container whose body has the digest its header states and whose digest carries a
  valid signature, also when it was carried over from earlier generations.
\<close>

theorem active_definitions_vouched:
  assumes "st = run_checks env checks empty_store" and "active_database st = Inr a" and "f \<in> set (unpacked_of st a)"
  shows "\<exists>container h names outs.
    read_header (container, False) = Inr h \<and>
    eq_ignore_case_bytes (hex_encode (ce_cvd env) (ce_md5 env (drop HEADER_LEN container))) (string_of_chars (h_md5 h)) \<and>
    verify_signature (ce_cvd env) h = Inr () \<and>
    cvd_extract (ce_cvd env) False (container, False) = (Inr (h, names), outs) \<and> f \<in> set outs"
proof -
  have "store_authentic env s \<Longrightarrow> store_authentic env (snd (download_databases env net io now m fb s))" for net io now m fb s
    using download_result [OF surjective_pairing] by blast
  then have "store_authentic env s \<Longrightarrow> store_authentic env (run_checks env checks s)" for s
    by (induction env checks s rule: run_checks.induct) auto
  moreover have "store_authentic env empty_store" by (simp add: store_authentic_def empty_store_def)
  ultimately have "store_authentic env st" using assms(1) by blast
  then have "vouched_for env f"
    using assms(3)
    by (cases "Option.bind (a_unpacked_path a) (generations st)")
      (auto simp: store_authentic_def authentic_def unpacked_of_def bind_eq_Some_conv)
  then show ?thesis unfolding vouched_for_def verify_container_Inr by blast
qed



text \<open>
  The version in a header is not covered by its signature, nor by the digest of the body: a container
  that passes the checks still passes them with any other version written into its header.
\<close>

lemma version_not_signed:
  assumes "header_ok h" and "header_ok (h\<lparr>h_version := v\<rparr>)" and "verify_container env (header_block h @ body) = Inr h"
  shows "verify_container env (header_block (h\<lparr>h_version := v\<rparr>) @ body) = Inr (h\<lparr>h_version := v\<rparr>)"
proof -
  have read: "read_header (header_block g @ body, False) = Inr g" if "header_ok g" for g
    using that header_parse_block length_header_block by (simp add: read_header_def read_full_def)
  have "verify_signature (ce_cvd env) (h\<lparr>h_version := v\<rparr>) = verify_signature (ce_cvd env) h"
    by (cases "signature_digits 0 (string_of_chars (h_signature h)) 0") (simp_all add: verify_signature_def Let_def)
  then show ?thesis
    using assms(3) read [OF assms(1)] read [OF assms(2)] length_header_block [OF assms(1)] length_header_block [OF assms(2)]
    by (simp add: verify_container_Inr)
qed

text \<open>The wait between checks stays within a sixteenth of the interval.\<close>

lemma next_check_delay_bounds:
  assumes "\<And>n. random_up_to n \<le> n"
  shows "14 * 60 \<le> next_check_delay False random_up_to \<and> next_check_delay False random_up_to \<le> 16 * 60"
    and "225 * 60 \<le> next_check_delay True random_up_to \<and> next_check_delay True random_up_to \<le> 255 * 60"
  using assms [of 112] assms [of 1800] by (simp_all add: next_check_delay_def)

section \<open>Examples\<close>

definition example_clam_env :: clam_env where
  "example_clam_env = \<lparr>ce_cvd = example_cvd_env, ce_md5 = (\<lambda>_. be_bytes 16 1)\<rparr>"

definition example_databases :: "string \<Rightarrow> files" where
  "example_databases name = [(text_of (name @ ''.info''), [1, 2, 3])]"

definition example_container :: "string \<Rightarrow> bytes" where
  "example_container name = header_block example_header @ tar_archive (example_databases name)"

definition example_net :: mirror_net where
  "example_net = (let replies = (\<lambda>url. if url = ''https://m/main.cvd'' then Reply (example_container ''main'', False)
       else Reply (example_container ''daily'', False))
     in \<lparr>get_header = replies, get_container = replies\<rparr>)"

definition limited_net :: mirror_net where
  "limited_net = \<lparr>get_header = (\<lambda>_. StatusReply 429 None), get_container = (\<lambda>_. StatusReply 429 None)\<rparr>"

definition all_clam_io :: clam_io where
  "all_clam_io = \<lparr>io_create = True, io_write = True, io_remove = True, io_link = (\<lambda>_. True), io_stage = True, io_rename = True,
     io_pointer = True, io_prune = (\<lambda>_. True), io_cooldown = True\<rparr>"

definition example_active :: active_db where
  "example_active = \<lparr>a_generation = 7, a_version = show_nat 27, a_activated_at = 7000000, a_unpacked_path = Some 7,
     a_container_versions = Map.empty(''main'' \<mapsto> 27, ''daily'' \<mapsto> 27), a_checked_at = None\<rparr>"

definition example_store :: clam_store where
  "example_store = \<lparr>generations = Map.empty(7 \<mapsto> example_databases ''main'' @ example_databases ''daily''),
     active_pointer = Some example_active, cooldown = None\<rparr>"

lemma example_databases_ok: "name \<in> set CONTAINERS \<Longrightarrow> list_all archivable (example_databases name)"
  by (auto simp: CONTAINERS_def example_databases_def archivable_def plain_name_def is_separator_def has_drive_def is_scalar_def
      text_of_def trim_text_def trim_end_by_def trim_start_text_def is_whitespace_char_def MAX_ENTRY_BYTES_def
      string_of_chars_def utf8_encode_def)

lemma example_unpacked:
  assumes "name \<in> set CONTAINERS"
  shows "cvd_extract example_cvd_env False (example_container name, False)
    = (Inr (example_header, map fst (example_databases name)), example_databases name)"
proof -
  have "unpack_tar example_cvd_env (tar_archive (example_databases name), False) [] []
      = (Inr (map fst (example_databases name)), example_databases name)"
    using unpack_tar_files [OF example_databases_ok [OF assms], of example_cvd_env "[]" False "[]"]
    by (simp add: example_cvd_env_def example_databases_def MAX_ENTRIES_def)
  then show ?thesis
    using header_parse_block [OF example_header_ok] length_header_block [OF example_header_ok]
    by (simp add: cvd_extract_def read_full_def example_container_def) (simp add: example_cvd_env_def)
qed

lemma example_container_verified: "verify_container example_clam_env (example_container name) = Inr example_header"
proof -
  have "read_header (example_container name, False) = Inr example_header"
    using header_parse_block [OF example_header_ok] length_header_block [OF example_header_ok]
    by (simp add: read_header_def read_full_def example_container_def)
  moreover have "eq_ignore_case_bytes (hex_of (be_bytes 16 1)) (string_of_chars (h_md5 example_header))"
    using example_hex by simp
  ultimately show ?thesis
    using example_signed by (simp add: verify_container_def verify_body_digest_def example_clam_env_def) (simp add: example_cvd_env_def)
qed

lemma example_replies:
  assumes "name \<in> set CONTAINERS"
  shows "container_url ''https://m'' name = Inr (''https://m/'' @ name @ ''.cvd'')"
    and "fetch_header example_net ''https://m'' name = Inr example_header"
    and "fetch_container example_net all_clam_io ''https://m'' name = Inr (example_container name)"
proof -
  show url: "container_url ''https://m'' name = Inr (''https://m/'' @ name @ ''.cvd'')"
    using assms by (auto simp: container_url_def Let_def starts_with_def CONTAINERS_def)
  have reply: "get_header example_net (''https://m/'' @ name @ ''.cvd'') = Reply (example_container name, False)"
      "get_container example_net (''https://m/'' @ name @ ''.cvd'') = Reply (example_container name, False)"
    using assms by (auto simp: example_net_def Let_def CONTAINERS_def)
  have block: "length (header_block example_header) = HEADER_LEN" by (rule length_header_block [OF example_header_ok])
  show "fetch_header example_net ''https://m'' name = Inr example_header"
    using url reply block header_parse_block [OF example_header_ok]
    by (simp add: fetch_header_def read_full_def example_container_def)
  have len: "length (example_container name) = HEADER_LEN + length (tar_archive (example_databases name))"
    using block by (simp add: example_container_def)
  have "length (tar_archive (example_databases name)) \<le> 4096" "0 < length (tar_archive (example_databases name))"
    using assms
    by (auto simp: string_of_octal [unfolded string_of_chars_def] CONTAINERS_def tar_archive_def example_databases_def tar_file_def tar_header_def TAR_BLOCK_def
        text_of_def string_of_chars_def utf8_encode_def)
  then show "fetch_container example_net all_clam_io ''https://m'' name = Inr (example_container name)"
    using url reply len
    by (simp add: fetch_container_def read_full_def all_clam_io_def MAX_CONTAINER_BYTES_def HEADER_LEN_def)
qed

lemma example_download:
  "download_databases example_clam_env example_net all_clam_io 7000000 ''https://m'' [] empty_store = (Inr example_active, example_store)"
proof -
  have main: "''main'' \<in> set CONTAINERS" and daily: "''daily'' \<in> set CONTAINERS" by (simp_all add: CONTAINERS_def)
  have signed: "verify_signature (ce_cvd example_clam_env) example_header = Inr ()"
    using example_signed by (simp add: example_clam_env_def)
  have version: "h_version example_header = 27" by (simp add: example_header_def)
  have remote: "remote_versions example_clam_env example_net ''https://m'' CONTAINERS Map.empty
      = Inr (Map.empty(''main'' \<mapsto> 27, ''daily'' \<mapsto> 27))"
    using example_replies(2) [OF main] example_replies(2) [OF daily] signed version by (simp add: CONTAINERS_def)
  have step: "populate_container example_clam_env example_net all_clam_io ''https://m'' None remote name (unpacked, installed)
      = Inr (unpacked @ example_databases name, installed(name \<mapsto> 27))" if "name \<in> set CONTAINERS" for remote name unpacked installed
    using example_replies(3) [OF that] example_container_verified [of name] example_unpacked [OF that] version
    by (simp add: populate_container_def installed_is_current_def older_than_def) (simp add: all_clam_io_def example_clam_env_def)
  have "populate_generation example_clam_env example_net all_clam_io ''https://m'' None remote CONTAINERS ([], Map.empty)
      = Inr (example_databases ''main'' @ example_databases ''daily'', Map.empty(''main'' \<mapsto> 27, ''daily'' \<mapsto> 27))" for remote
    using step [OF main] step [OF daily] by (simp add: CONTAINERS_def)
  then show ?thesis
    using remote
    by (simp add: download_databases_def active_database_def empty_store_def cooldown_remaining_def refresh_def
        install_generation_def Let_def)
      (auto simp: all_clam_io_def prune_generations_def example_store_def example_active_def fun_eq_iff)
qed

lemma example_active_ok: "active_database example_store = Inr example_active"
  by (simp add: active_database_def example_store_def example_active_def CONTAINERS_def example_databases_def)

lemma example_store_authentic: "store_authentic example_clam_env example_store"
proof -
  have "vouched_for example_clam_env f" if "name \<in> set CONTAINERS" "f \<in> set (example_databases name)" for name f
    using example_container_verified [of name] example_unpacked [OF that(1)] that(2) unfolding vouched_for_def
    by (intro exI [of _ "example_container name"]) (simp add: example_clam_env_def)
  then show ?thesis by (auto simp: store_authentic_def authentic_def example_store_def CONTAINERS_def split: if_splits)
qed

theorem active_definitions_vouched_witness:
  "\<exists>container h names outs. read_header (container, False) = Inr h \<and>
     verify_signature (ce_cvd example_clam_env) h = Inr () \<and>
     cvd_extract (ce_cvd example_clam_env) False (container, False) = (Inr (h, names), outs) \<and>
     (text_of ''main.info'', [1, 2, 3]) \<in> set outs"
proof -
  have "example_store = run_checks example_clam_env [(example_net, all_clam_io, 7000000, ''https://m'', [])] empty_store"
    using example_download by simp
  moreover have "(text_of ''main.info'', [1, 2, 3]) \<in> set (unpacked_of example_store example_active)"
    by (simp add: unpacked_of_def example_store_def example_active_def example_databases_def)
  ultimately show ?thesis using active_definitions_vouched [OF _ example_active_ok] by blast
qed

lemma example_limited:
  "download_databases example_clam_env limited_net all_clam_io (7000000 + seconds 7200) ''https://m'' [] example_store
     = (Inl (RateLimited 3600), example_store\<lparr>cooldown := Some (7000000 + seconds 10800)\<rparr>)"
proof -
  have "fetch_header limited_net ''https://m'' name = Inl (RateLimited 3600)" if "name \<in> set CONTAINERS" for name
    using example_replies(1) [OF that] by (simp add: fetch_header_def limited_net_def request_error_def DEFAULT_COOLDOWN_def)
  then have "remote_versions example_clam_env limited_net ''https://m'' CONTAINERS Map.empty = Inl (RateLimited 3600)"
    by (simp add: CONTAINERS_def)
  then have "refresh example_clam_env limited_net all_clam_io (7000000 + seconds 7200) (Some example_active) ''https://m'' example_store
      = (Inl (RateLimited 3600), example_store)" by (simp add: refresh_def)
  moreover have "\<not> minutes_since (7000000 + seconds 7200) (last_contact example_active) < REFRESH_INTERVAL_MINUTES"
    by (simp add: minutes_since_def last_contact_def example_active_def seconds_def REFRESH_INTERVAL_MINUTES_def)
  moreover have "cooldown_remaining (7000000 + seconds 7200) example_store = None"
    by (simp add: cooldown_remaining_def example_store_def)
  moreover have "io_cooldown all_clam_io" by (simp add: all_clam_io_def)
  ultimately show ?thesis using example_active_ok by (simp add: download_databases_def) (simp add: seconds_def)
qed



end
