(* ===== verification/Readiness.thy ===== *)
theory Readiness
  imports Detection_Types
begin

text \<open>
  Whether the machine counts as protected, \<^verbatim>\<open>src/readiness.rs\<close>, and the self-test that feeds it,
  \<^verbatim>\<open>src/self_test.rs\<close>. The monitor is a state machine that health reports and explicit updates move;
  the lock around it makes its operations sequential.
\<close>

section \<open>Components\<close>

datatype readiness_state =
  Stopped | Starting | LoadingSettings | LoadingDefinitions | LoadingFreshClam | StartingDetectionWorkers
  | ConnectingDriver | ValidatingProtocol | Ready | Degraded string | Recovering string | Failed string | Stopping

datatype protection_tier = Kernel | Userland

definition requires_driver :: "protection_tier \<Rightarrow> bool" where
  "requires_driver tier \<longleftrightarrow> tier = Kernel"

definition detect_protection_tier :: "bool \<Rightarrow> protection_tier" where
  "detect_protection_tier driver_is_file = (if driver_is_file then Kernel else Userland)"

record components =
  tier :: protection_tier
  service_operational :: bool
  settings_loaded :: bool
  native_definitions_loaded :: bool
  freshclam_loaded :: bool
  freshclam_generation :: nat
  rule_generation :: nat
  driver_connected :: bool
  driver_protocol_validated :: bool
  driver_ready_generation :: "nat option"
  quarantine_available :: bool
  history_available :: bool
  ipc_available :: bool
  self_test_passed :: bool
  consecutive_health_successes :: nat
  consecutive_health_failures :: nat

definition component_checks :: "components \<Rightarrow> (bool \<times> string) list" where
  "component_checks c =
     [(service_operational c, ''service message loop''), (settings_loaded c, ''settings''),
      (native_definitions_loaded c, ''native definitions''),
      (freshclam_loaded c \<and> freshclam_generation c \<noteq> 0, ''active FreshClam database''),
      (rule_generation c \<noteq> 0, ''rule generation''), (quarantine_available c, ''quarantine store''),
      (history_available c, ''event history''), (ipc_available c, ''local control server''),
      (self_test_passed c, ''end-to-end self-test'')]"

definition mandatory_failures :: "components \<Rightarrow> string list" where
  "mandatory_failures c =
     map snd (filter (\<lambda>(healthy, _). \<not> healthy) (component_checks c)) @
     (if requires_driver (tier c)
      then (if \<not> driver_connected c then [''minifilter connection''] else []) @
           (if \<not> driver_protocol_validated c then [''driver protocol''] else [])
      else [])"

fun join_names :: "string list \<Rightarrow> string" where
  "join_names [] = []"
| "join_names [s] = s"
| "join_names (s # rest) = s @ '', '' @ join_names rest"

definition derive_readiness :: "components \<Rightarrow> readiness_state" where
  "derive_readiness c =
     (if mandatory_failures c \<noteq> [] then Degraded (''Unavailable: '' @ join_names (mandatory_failures c))
      else if requires_driver (tier c) \<and> driver_ready_generation c = None
      then Recovering ''Arming the validated driver generation''
      else if consecutive_health_successes c < 3
      then Recovering (''Validating stable protection ('' @ show_nat (consecutive_health_successes c) @ ''/3)'')
      else Ready)"

section \<open>The monitor\<close>

record monitor =
  current_state :: readiness_state
  state_entered_at :: int
  state_history :: "(readiness_state \<times> int) list"
  consecutive_successes :: nat
  consecutive_failures :: nat

definition monitor_new :: "int \<Rightarrow> monitor" where
  "monitor_new now = \<lparr>current_state = Stopped, state_entered_at = now, state_history = [],
     consecutive_successes = 0, consecutive_failures = 0\<rparr>"

definition transition :: "int \<Rightarrow> readiness_state \<Rightarrow> monitor \<Rightarrow> monitor" where
  "transition now next m =
     (if current_state m \<noteq> next
      then m\<lparr>state_history := state_history m @ [(current_state m, state_entered_at m)],
             current_state := next, state_entered_at := now\<rparr>
      else m)"

text \<open>Asking for \<open>Ready\<close> outright is a failed assertion.\<close>

definition update_state :: "int \<Rightarrow> readiness_state \<Rightarrow> monitor \<Rightarrow> monitor option" where
  "update_state now new_state m = (if new_state = Ready then None else Some (transition now new_state m))"

definition is_degraded :: "readiness_state \<Rightarrow> bool" where
  "is_degraded s = (case s of Degraded _ \<Rightarrow> True | _ \<Rightarrow> False)"

definition is_final :: "readiness_state \<Rightarrow> bool" where
  "is_final s = (case s of Stopping \<Rightarrow> True | Stopped \<Rightarrow> True | Failed _ \<Rightarrow> True | _ \<Rightarrow> False)"

definition tolerated :: "components \<Rightarrow> bool" where
  "tolerated c \<longleftrightarrow> is_degraded (derive_readiness c) \<and>
     \<not> (\<not> driver_connected c \<or> \<not> driver_protocol_validated c) \<and> consecutive_health_failures c < 2"

definition report_components :: "int \<Rightarrow> components \<Rightarrow> monitor \<Rightarrow> monitor" where
  "report_components now c m =
     (let m = m\<lparr>consecutive_successes := consecutive_health_successes c, consecutive_failures := consecutive_health_failures c\<rparr> in
      if current_state m = Ready \<and> tolerated c then m
      else if is_final (current_state m) then m
      else transition now (derive_readiness c) m)"

section \<open>The self-test\<close>

text \<open>
  With the driver the test is end to end: a file with a harmless payload is written, and a probe process
  reports by its exit code whether opening it was blocked. Without the driver the engine must convict
  the payload. Exit codes and the engine's verdict are inputs.
\<close>

datatype self_test_error =
  NoTestFile | NoExecutable | NoProbe | NotBlocked | UnexpectedExit int | NotConvicted detection_verdict

record probe_run =
  pr_file_written :: bool
  pr_executable_found :: bool
  pr_exit_code :: "int option"

definition run_self_test :: "probe_run \<Rightarrow> self_test_error option" where
  "run_self_test p =
     (if \<not> pr_file_written p then Some NoTestFile
      else if \<not> pr_executable_found p then Some NoExecutable
      else case pr_exit_code p of
        None \<Rightarrow> Some NoProbe
      | Some ec \<Rightarrow> if ec = 10 then None else if ec = 0 then Some NotBlocked else Some (UnexpectedExit ec))"

definition run_detection_self_test :: "detection_verdict \<Rightarrow> self_test_error option" where
  "run_detection_self_test verdict = (if verdict = DMalicious then None else Some (NotConvicted verdict))"

definition run_tiered_self_test :: "protection_tier \<Rightarrow> probe_run \<Rightarrow> detection_verdict \<Rightarrow> self_test_error option" where
  "run_tiered_self_test t probe verdict =
     (case t of Kernel \<Rightarrow> run_self_test probe | Userland \<Rightarrow> run_detection_self_test verdict)"

section \<open>Readiness is earned\<close>

text \<open>The operations other threads perform, one after the other; a failed assertion ends the process.\<close>

datatype operation = Update readiness_state | Report components

definition operate :: "int \<times> operation \<Rightarrow> monitor \<Rightarrow> monitor option" where
  "operate op m = (case snd op of Update s \<Rightarrow> update_state (fst op) s m | Report c \<Rightarrow> Some (report_components (fst op) c m))"

fun operate_all :: "(int \<times> operation) list \<Rightarrow> monitor \<Rightarrow> monitor option" where
  "operate_all [] m = Some m"
| "operate_all (op # ops) m = Option.bind (operate op m) (operate_all ops)"

definition fully_healthy :: "components \<Rightarrow> bool" where
  "fully_healthy c \<longleftrightarrow>
     list_all fst (component_checks c) \<and> 3 \<le> consecutive_health_successes c \<and>
     (tier c = Kernel \<longrightarrow> driver_connected c \<and> driver_protocol_validated c \<and> driver_ready_generation c \<noteq> None)"

lemma derive_Ready: "derive_readiness c = Ready \<longleftrightarrow> fully_healthy c"
proof -
  have "mandatory_failures c = [] \<longleftrightarrow> list_all fst (component_checks c) \<and>
      (tier c = Kernel \<longrightarrow> driver_connected c \<and> driver_protocol_validated c)"
    by (simp add: mandatory_failures_def requires_driver_def filter_empty_conv list_all_iff case_prod_beta)
  then show ?thesis by (auto simp: derive_readiness_def fully_healthy_def requires_driver_def)
qed

definition keeps_ready :: "operation \<Rightarrow> bool" where
  "keeps_ready op = (case op of Report c \<Rightarrow> fully_healthy c \<or> tolerated c | Update _ \<Rightarrow> False)"

lemma operate_Ready:
  assumes "operate op m = Some m'" and "current_state m' = Ready"
  shows "(\<exists>c. snd op = Report c \<and> fully_healthy c) \<or> (current_state m = Ready \<and> keeps_ready (snd op))"
  using assms
  by (auto simp: operate_def update_state_def report_components_def transition_def Let_def keeps_ready_def derive_Ready is_final_def
      split: operation.splits if_splits)

lemma operate_all_append: "operate_all (xs @ ys) m = Option.bind (operate_all xs m) (operate_all ys)"
  by (induction xs arbitrary: m) (auto split: bind_splits)


text \<open>
  Without a driver a single failed check always ends readiness: the tolerance asks for a connected
  driver in every tier.
\<close>

lemma userland_never_tolerated: "tier c = Userland \<Longrightarrow> \<not> driver_connected c \<Longrightarrow> \<not> tolerated c"
  by (simp add: tolerated_def)

definition healthy_components :: components where
  "healthy_components = \<lparr>tier = Kernel, service_operational = True, settings_loaded = True, native_definitions_loaded = True,
     freshclam_loaded = True, freshclam_generation = 1, rule_generation = 1, driver_connected = True,
     driver_protocol_validated = True, driver_ready_generation = Some 1, quarantine_available = True,
     history_available = True, ipc_available = True, self_test_passed = True,
     consecutive_health_successes = 3, consecutive_health_failures = 0\<rparr>"

lemmas monitor_run = operate_def update_state_def report_components_def transition_def monitor_new_def tolerated_def
  is_degraded_def is_final_def derive_readiness_def mandatory_failures_def component_checks_def requires_driver_def

definition userland_components :: components where
  "userland_components = healthy_components\<lparr>tier := Userland, driver_connected := False, driver_protocol_validated := False\<rparr>"

lemma userland_flaps:
  "operate_all [(1, Update Starting), (2, Report userland_components)] (monitor_new 0) = Some m \<Longrightarrow>
     current_state m = Ready \<and>
     current_state (report_components 3 (userland_components\<lparr>ipc_available := False, consecutive_health_failures := 1\<rparr>) m)
       = Degraded ''Unavailable: local control server''"
  by (auto simp: healthy_components_def userland_components_def monitor_run)


end
