(* ===== verification/Remediation.thy ===== *)
theory Remediation
  imports Cvd Lnk
begin

text \<open>
  What would start a removed program again, \<^verbatim>\<open>src/remediation.rs\<close>, and the removal of it,
  \<^verbatim>\<open>src/persistence.rs\<close>. Text is the list of its code points; the offsets that the code takes in bytes
  fall on ASCII characters, so they are character offsets here. The registry, the task folder and the
  results of the tools that delete entries are inputs; so are the environment variables and the
  standard library's Unicode table of lower-case letters.
\<close>

section \<open>Text\<close>

definition lower_char :: "nat \<Rightarrow> nat" where
  "lower_char c = (if 65 \<le> c \<and> c \<le> 90 then c + 32 else c)"

fun find_sub :: "'a list \<Rightarrow> 'a list \<Rightarrow> nat option" where
  "find_sub [] needle = (if needle = [] then Some 0 else None)"
| "find_sub (c # cs) needle = (if starts_with (c # cs) needle then Some 0 else map_option Suc (find_sub cs needle))"

lemma find_sub_bound: "find_sub t needle = Some i \<Longrightarrow> i + length needle \<le> length t \<and> starts_with (drop i t) needle"
proof (induction t needle arbitrary: i rule: find_sub.induct)
  case (2 c cs needle)
  then show ?case
    by (cases i) (auto simp: starts_with_prefix dest: prefix_length_le split: if_splits)
qed (auto simp: starts_with_def split: if_splits)

text \<open>\<^verbatim>\<open>str::replace\<close> for a pattern that is not empty.\<close>

function replace_all :: "utext \<Rightarrow> utext \<Rightarrow> utext \<Rightarrow> utext" where
  "replace_all pat rep t =
     (if t = [] \<or> pat = [] then t
      else if starts_with t pat then rep @ replace_all pat rep (drop (length pat) t)
      else hd t # replace_all pat rep (tl t))"
  by pat_completeness auto
termination
  by (relation "measure (\<lambda>(pat, rep, t). length t)") auto

declare replace_all.simps [simp del]

text \<open>
  \<^verbatim>\<open>String::from_utf8_lossy\<close>: every longest invalid piece becomes one replacement character.
\<close>

definition is_cont :: "nat \<Rightarrow> nat \<Rightarrow> bytes \<Rightarrow> bool" where
  "is_cont lo hi bs = (case bs of b # _ \<Rightarrow> lo \<le> unat b \<and> unat b \<le> hi | [] \<Rightarrow> False)"

definition invalid_length :: "bytes \<Rightarrow> nat" where
  "invalid_length bs =
     (case bs of
        [] \<Rightarrow> 0
      | b # rest \<Rightarrow>
          let n = unat b;
              lo = (if n = 0xE0 then 0xA0 else if n = 0xF0 then 0x90 else 0x80);
              hi = (if n = 0xED then 0x9F else if n = 0xF4 then 0x8F else 0xBF)
          in if n < 0xE0 \<or> 0xF4 < n \<or> \<not> is_cont lo hi rest then 1
             else if n < 0xF0 \<or> \<not> is_cont 0x80 0xBF (drop 1 rest) then 2 else 3)"

lemma invalid_length_pos: "bs \<noteq> [] \<Longrightarrow> 0 < invalid_length bs"
  by (cases bs) (auto simp: invalid_length_def Let_def)

function from_utf8_lossy :: "bytes \<Rightarrow> utext" where
  "from_utf8_lossy bs =
     (if bs = [] then []
      else case utf8_head bs of
        Some (c, rest) \<Rightarrow> c # from_utf8_lossy rest
      | None \<Rightarrow> 0xFFFD # from_utf8_lossy (drop (invalid_length bs) bs))"
  by pat_completeness auto
termination
  by (relation "measure length") (auto simp: invalid_length_pos dest: utf8_head_shorter)

declare from_utf8_lossy.simps [simp del]

fun u16_units_be :: "bytes \<Rightarrow> nat list" where
  "u16_units_be (a # b # bs) = (256 * unat a + unat b) # u16_units_be bs"
| "u16_units_be _ = []"

definition decode_text :: "bytes \<Rightarrow> utext" where
  "decode_text bs =
     (if starts_with bs [0xFF, 0xFE] then from_utf16_lossy (u16_units (drop 2 bs))
      else if starts_with bs [0xFE, 0xFF] then from_utf16_lossy (u16_units_be (drop 2 bs))
      else if starts_with bs [0xEF, 0xBB, 0xBF] then from_utf8_lossy (drop 3 bs)
      else from_utf8_lossy bs)"

section \<open>Task definitions\<close>

definition find_tag :: "utext \<Rightarrow> utext \<Rightarrow> nat option" where
  "find_tag t tag = find_sub (map lower_char t) (map lower_char tag)"

definition decode_entities :: "utext \<Rightarrow> utext" where
  "decode_entities t =
     replace_all (text_of ''&amp;'') [38]
       (replace_all (text_of ''&gt;'') [62]
         (replace_all (text_of ''&lt;'') [60]
           (replace_all (text_of ''&apos;'') [39]
             (replace_all (text_of ''&quot;'') [34] t))))"

definition element_text :: "utext \<Rightarrow> utext \<Rightarrow> utext option" where
  "element_text xml name =
     (case find_tag xml ([60] @ name @ [62]) of
        None \<Rightarrow> None
      | Some i \<Rightarrow>
          let start = i + length ([60] @ name @ [62]) in
          (case find_tag (drop start xml) ([60, 47] @ name @ [62]) of
             None \<Rightarrow> None
           | Some n \<Rightarrow> Some (decode_entities (trim_text (take n (drop start xml))))))"

definition or_empty :: "utext option \<Rightarrow> utext" where
  "or_empty x = (case x of None \<Rightarrow> [] | Some t \<Rightarrow> t)"

definition action_line :: "utext \<Rightarrow> utext list" where
  "action_line exec =
     (let command = or_empty (element_text exec (text_of ''Command''));
          arguments = or_empty (element_text exec (text_of ''Arguments''))
      in if command \<noteq> [] \<or> arguments \<noteq> [] then [trim_text (command @ [32] @ arguments)] else [])"

text \<open>The loop over the actions is written as it stands: that it ends is a theorem below.\<close>

partial_function (option) task_loop :: "utext \<Rightarrow> utext list option" where
  "task_loop rest =
     (case find_tag rest (text_of ''<Exec'') of
        None \<Rightarrow> Some []
      | Some start \<Rightarrow>
          let after = drop start rest;
              n = (case find_tag after (text_of ''</Exec>'') of None \<Rightarrow> length after | Some n \<Rightarrow> n);
              lines = action_line (take n after)
          in Option.bind (task_loop (drop (min (max n 1) (length after)) after)) (\<lambda>more. Some (lines @ more)))"

definition task_command_lines :: "bytes \<Rightarrow> utext list option" where
  "task_command_lines definition_bytes = task_loop (decode_text definition_bytes)"

section \<open>Start-up items\<close>

definition utf16_bytes :: "utext \<Rightarrow> bytes" where
  "utf16_bytes t = concat (map u16_to_le (concat (map utf16_encode t)))"

definition item_launches :: "bytes \<Rightarrow> utext \<Rightarrow> bool" where
  "item_launches item target =
     (if length (string_of_chars target) < 4 \<or> 92 \<notin> set target then False
      else let ascii = map lower_char target;
               wide = utf16_bytes ascii;
               lowered = map to_ascii_lowercase item;
               has = (\<lambda>needle. needle \<noteq> [] \<and> contains_bytes lowered needle)
           in has (string_of_chars ascii) \<or> has wide)"

section \<open>Which entries launch a program\<close>

text \<open>Percent signs enclose variables; those of a user come from the profile the entry belongs to.\<close>

definition upper_char :: "nat \<Rightarrow> nat" where
  "upper_char c = (if 97 \<le> c \<and> c \<le> 122 then c - 32 else c)"

definition folder_path :: "string list \<Rightarrow> utext" where
  "folder_path names = concat (map (\<lambda>s. 92 # text_of s) names)"

definition variable_value :: "(utext \<Rightarrow> utext option) \<Rightarrow> utext option \<Rightarrow> utext \<Rightarrow> utext option" where
  "variable_value environment profile name =
     (let upper = map upper_char name;
          per_user = (\<lambda>names. map_option (\<lambda>p. p @ folder_path names) profile);
          value = (if upper = text_of ''USERPROFILE'' then per_user []
                   else if upper = text_of ''APPDATA'' then per_user [''AppData'', ''Roaming'']
                   else if upper = text_of ''LOCALAPPDATA'' then per_user [''AppData'', ''Local'']
                   else if upper = text_of ''TEMP'' \<or> upper = text_of ''TMP'' then per_user [''AppData'', ''Local'', ''Temp'']
                   else None)
      in case value of Some v \<Rightarrow> Some v | None \<Rightarrow> environment name)"

function expand :: "(utext \<Rightarrow> utext option) \<Rightarrow> utext option \<Rightarrow> utext \<Rightarrow> utext" where
  "expand environment profile rest =
     (case find_sub rest [37] of
        None \<Rightarrow> rest
      | Some start \<Rightarrow>
          (case find_sub (drop (start + 1) rest) [37] of
             None \<Rightarrow> rest
           | Some n \<Rightarrow>
               let name = take n (drop (start + 1) rest) in
               take start rest @
               (case variable_value environment profile name of Some v \<Rightarrow> v | None \<Rightarrow> take (n + 2) (drop start rest)) @
               expand environment profile (drop (start + n + 2) rest)))"
  by pat_completeness auto
termination
  by (relation "measure (\<lambda>(environment, profile, rest). length rest)") (auto dest: find_sub_bound)

declare expand.simps [simp del]

definition comparable :: "(utext \<Rightarrow> utext) \<Rightarrow> utext \<Rightarrow> utext" where
  "comparable to_lowercase path =
     (let lower = to_lowercase (map (\<lambda>c. if c = 47 then 92 else c) path) in
      if starts_with lower [92, 92, 63, 92] then drop 4 lower else lower)"

definition launches :: "(utext \<Rightarrow> utext) \<Rightarrow> (utext \<Rightarrow> utext option) \<Rightarrow> utext \<Rightarrow> utext option \<Rightarrow> utext \<Rightarrow> bool" where
  "launches to_lowercase environment command profile target \<longleftrightarrow>
     find_sub (comparable to_lowercase (expand environment profile command)) target \<noteq> None"

definition is_under_windows_folder :: "(utext \<Rightarrow> utext) \<Rightarrow> utext \<Rightarrow> utext \<Rightarrow> bool" where
  "is_under_windows_folder to_lowercase windows_folder target \<longleftrightarrow>
     starts_with target (trim_end_by (\<lambda>c. c = 92) (comparable to_lowercase windows_folder) @ [92])"

section \<open>Removing them\<close>

definition MAX_TASK_FILES :: nat where "MAX_TASK_FILES = 5000"
definition MAX_TASK_FILE_BYTES :: nat where "MAX_TASK_FILE_BYTES = 256 * 1024"
definition MAX_STARTUP_ITEM_BYTES :: nat where "MAX_STARTUP_ITEM_BYTES = 1024 * 1024"
definition STARTUP_EXTENSIONS :: "string list" where
  "STARTUP_EXTENSIONS = [''lnk'', ''bat'', ''cmd'', ''vbs'', ''url'', ''js'']"

text \<open>An entry of the task folder: a file with its size and, when it can be read, its content; a folder that can be listed or not; a link.\<close>

datatype task_node = TaskFile nat "bytes option" | TaskFolder "(utext \<times> task_node) list option" | TaskLink

fun collect_task_files :: "utext \<Rightarrow> nat \<Rightarrow> (utext \<times> task_node) list \<Rightarrow> (utext \<times> bytes) list \<Rightarrow> (utext \<times> bytes) list" where
  "collect_task_files folder depth [] found = found"
| "collect_task_files folder depth ((name, node) # rest) found =
     (if length found \<ge> MAX_TASK_FILES then found
      else collect_task_files folder depth rest
        (case node of
           TaskLink \<Rightarrow> found
         | TaskFolder None \<Rightarrow> found
         | TaskFolder (Some entries) \<Rightarrow>
             if depth + 1 > 6 then found else collect_task_files (folder @ 92 # name) (depth + 1) entries found
         | TaskFile sz content \<Rightarrow>
             if sz > MAX_TASK_FILE_BYTES then found
             else (case content of None \<Rightarrow> found | Some bs \<Rightarrow> found @ [(folder @ 92 # name, bs)])))"

text \<open>The machine as far as the removal sees it; the tools may fail for any entry.\<close>

record startup_machine =
  sm_lower :: "utext \<Rightarrow> utext"
  sm_environment :: "utext \<Rightarrow> utext option"
  sm_windows_folder :: utext
  sm_tasks :: "(utext \<times> task_node) list"
  sm_services :: "(utext \<times> nat \<times> utext option) list"
  sm_startup :: "(utext \<times> string option \<times> bool \<times> nat \<times> bytes option) list list"
  sm_delete_task :: "utext \<Rightarrow> bool"
  sm_delete_service :: "utext \<Rightarrow> bool"
  sm_delete_item :: "utext \<Rightarrow> bool"

definition remove_tasks :: "startup_machine \<Rightarrow> utext \<Rightarrow> utext list" where
  "remove_tasks m target =
     map fst (filter (\<lambda>(name, content).
         (case task_command_lines content of
            None \<Rightarrow> False
          | Some lines \<Rightarrow> list_ex (\<lambda>line. launches (sm_lower m) (sm_environment m) line None target) lines) \<and>
         sm_delete_task m name)
       (collect_task_files [] 0 (sm_tasks m) []))"

text \<open>Types 16 and 32 are programs of their own or shared ones.\<close>

definition is_win32_service :: "nat \<Rightarrow> bool" where
  "is_win32_service t \<longleftrightarrow> odd (t div 16) \<or> odd (t div 32)"

definition remove_services :: "startup_machine \<Rightarrow> utext \<Rightarrow> utext list" where
  "remove_services m target =
     map fst (filter (\<lambda>(name, t, image_path).
         is_win32_service t \<and>
         (case image_path of None \<Rightarrow> False | Some p \<Rightarrow> launches (sm_lower m) (sm_environment m) p None target) \<and>
         sm_delete_service m name)
       (sm_services m))"

definition lower_string :: "string \<Rightarrow> utext" where
  "lower_string s = map lower_char (text_of s)"

definition remove_startup_items :: "startup_machine \<Rightarrow> utext \<Rightarrow> utext list" where
  "remove_startup_items m target =
     concat (map (\<lambda>folder. map fst (filter (\<lambda>(name, extension, is_file, sz, content).
         (case extension of None \<Rightarrow> False | Some e \<Rightarrow> list_ex (\<lambda>c. lower_string e = lower_string c) STARTUP_EXTENSIONS) \<and>
         is_file \<and> sz \<le> MAX_STARTUP_ITEM_BYTES \<and>
         (case content of None \<Rightarrow> False | Some bs \<Rightarrow> item_launches bs target) \<and> sm_delete_item m name)
       (take MAX_TASK_FILES folder))) (sm_startup m))"

definition remove_tasks_and_services_for :: "startup_machine \<Rightarrow> utext \<Rightarrow> utext list" where
  "remove_tasks_and_services_for m path =
     (let target = comparable (sm_lower m) path in
      if target = [] \<or> is_under_windows_folder (sm_lower m) (sm_windows_folder m) target then []
      else remove_tasks m target @ remove_services m target @ remove_startup_items m target)"

section \<open>The loop over the actions ends\<close>

lemma find_tag_bound:
  assumes "find_tag t tag = Some i"
  shows "i + length tag \<le> length t" and "starts_with (map lower_char (drop i t)) (map lower_char tag)"
  using find_sub_bound [OF assms [unfolded find_tag_def]] by (simp_all add: drop_map)

lemma task_loop_step:
  assumes "find_tag rest (text_of ''<Exec'') = Some start"
  defines "after \<equiv> drop start rest"
  defines "n \<equiv> (case find_tag after (text_of ''</Exec>'') of None \<Rightarrow> length after | Some n \<Rightarrow> n)"
  shows "5 \<le> n" and "n \<le> length after"
    and "task_loop rest = Option.bind (task_loop (drop n after)) (\<lambda>more. Some (action_line (take n after) @ more))"
proof -
  have five: "start + 5 \<le> length rest" and exec: "starts_with (map lower_char after) (map lower_char (text_of ''<Exec''))"
    using find_tag_bound [OF assms(1)] by (simp_all add: after_def text_of_def)
  then obtain r where r: "map lower_char after = [60, 101, 120, 101, 99] @ r"
    by (auto simp: starts_with_prefix prefix_def text_of_def lower_char_def)
  have "5 \<le> n \<and> n \<le> length after"
  proof (cases "find_tag after (text_of ''</Exec>'')")
    case None
    then show ?thesis using five by (simp add: n_def after_def)
  next
    case (Some k)
    define l where "l = map lower_char after"
    obtain u where u: "drop k l = [60, 47, 101, 120, 101, 99, 62] @ u"
      using find_tag_bound(2) [OF Some] by (auto simp: text_of_def lower_char_def drop_map starts_with_prefix prefix_def l_def)
    have "k \<le> length l" using find_tag_bound(1) [OF Some] by (simp add: l_def)
    then have close: "l ! k = 60" "l ! Suc k = 47" using u nth_drop [of k l 0] nth_drop [of k l 1] by simp_all
    have "k = 0 \<or> k = 1 \<or> k = 2 \<or> k = 3 \<or> k = 4 \<or> 5 \<le> k" by auto
    then have "5 \<le> k" using close unfolding l_def r by (elim disjE) simp_all
    then show ?thesis using find_tag_bound(1) [OF Some] Some by (simp add: n_def text_of_def)
  qed
  then show "5 \<le> n" "n \<le> length after" by simp_all
  then have least: "min (max n 1) (length after) = n" by simp
  show "task_loop rest = Option.bind (task_loop (drop n after)) (\<lambda>more. Some (action_line (take n after) @ more))"
    unfolding task_loop.simps [of rest] assms(1) option.case Let_def after_def [symmetric] n_def [symmetric] least ..
qed

text \<open>
  Reading a task definition always ends, on any bytes: the loop that looks for actions returns,
  and it reports at most one command line for every five characters of the text.
\<close>

theorem task_command_lines_returns:
  "\<exists>lines. task_command_lines bs = Some lines \<and> 5 * length lines \<le> length (decode_text bs)"
proof -
  have "\<exists>lines. task_loop t = Some lines \<and> 5 * length lines \<le> length t" for t
  proof (induction "length t" arbitrary: t rule: less_induct)
    case less
    show ?case
    proof (cases "find_tag t (text_of ''<Exec'')")
      case None
      then show ?thesis by (subst task_loop.simps) simp
    next
      case (Some start)
      define after where "after = drop start t"
      define n where "n = (case find_tag after (text_of ''</Exec>'') of None \<Rightarrow> length after | Some n \<Rightarrow> n)"
      note step = task_loop_step [OF Some, folded after_def, folded n_def]
      have "length after \<le> length t" by (simp add: after_def)
      then have len: "length (drop n after) + 5 \<le> length t" using step(1,2) by simp
      obtain more where more: "task_loop (drop n after) = Some more" "5 * length more \<le> length (drop n after)"
        using less [of "drop n after"] len by auto
      moreover have "length (action_line (take n after)) \<le> 1" by (simp add: action_line_def Let_def)
      ultimately show ?thesis using step(3) len by auto
    qed
  qed
  then show ?thesis by (simp add: task_command_lines_def)
qed

section \<open>Every action of a task is read\<close>

text \<open>Text as it is written into a task definition.\<close>

definition entity :: "nat \<Rightarrow> utext" where
  "entity c =
     (if c = 34 then text_of ''&quot;'' else if c = 39 then text_of ''&apos;'' else if c = 60 then text_of ''&lt;''
      else if c = 62 then text_of ''&gt;'' else if c = 38 then text_of ''&amp;'' else [c])"

definition encode_only :: "nat set \<Rightarrow> utext \<Rightarrow> utext" where
  "encode_only S t = concat (map (\<lambda>c. if c \<in> S then entity c else [c]) t)"

definition escape :: "utext \<Rightarrow> utext" where
  "escape t = concat (map entity t)"

definition action_xml :: "utext \<times> utext \<Rightarrow> utext" where
  "action_xml a = text_of ''<Exec><Command>'' @ escape (fst a) @ text_of ''</Command><Arguments>'' @ escape (snd a) @
     text_of ''</Arguments></Exec>''"

lemma replace_skip: "p \<notin> set w \<Longrightarrow> replace_all (p # pat) rep (w @ t) = w @ replace_all (p # pat) rep t"
proof (induction w)
  case (Cons c w)
  have "\<not> starts_with (c # w @ t) (p # pat)" using Cons.prems by (auto simp: starts_with_prefix)
  then show ?case using Cons by (subst replace_all.simps) simp
qed simp

lemma replace_hit: "replace_all (p # pat) rep ((p # pat) @ t) = rep @ replace_all (p # pat) rep t"
  by (subst replace_all.simps) (simp add: starts_with_def)

lemma replace_miss: "\<not> starts_with (c # t) (p # pat) \<Longrightarrow> replace_all (p # pat) rep (c # t) = c # replace_all (p # pat) rep t"
  by (subst replace_all.simps) simp

lemma replace_nil [simp]: "replace_all pat rep [] = []"
  by (subst replace_all.simps) simp

definition specials :: "nat set" where "specials = {34, 39, 60, 62, 38}"

lemma entity_form: "d \<in> specials \<Longrightarrow> \<exists>w. entity d = 38 # w \<and> 38 \<notin> set w"
  by (auto simp: specials_def entity_def text_of_def)

lemma entity_apart:
  assumes "c \<in> specials" and "d \<in> specials" and "c \<noteq> d"
  shows "\<not> starts_with (entity d @ t) (entity c)"
  using assms unfolding specials_def
  by (elim insertE emptyE) (simp_all add: entity_def text_of_def starts_with_def)

lemma replace_encoded:
  assumes "38 \<in> S" and "S \<subseteq> specials" and "c \<in> S"
  shows "replace_all (entity c) [c] (encode_only S t) = encode_only (S - {c}) t"
proof -
  have "c \<in> specials" using assms(2,3) by blast
  obtain p where p: "entity c = 38 # p" using entity_form [OF \<open>c \<in> specials\<close>] by blast
  show ?thesis
  proof (induction t)
    case (Cons d t)
    consider "d = c" | "d \<in> S" "d \<noteq> c" | "d \<notin> S" by blast
    then show ?case
    proof cases
      case 1
      then show ?thesis using Cons assms(3) replace_hit [of 38 p "[c]"] p by (simp add: encode_only_def)
    next
      case 2
      obtain w where w: "entity d = 38 # w" "38 \<notin> set w" using entity_form [of d] 2 assms(2) by blast
      have "\<not> starts_with (38 # w @ encode_only S t) (38 # p)"
        using entity_apart [of c d "encode_only S t"] 2 \<open>c \<in> specials\<close> assms(2) p w by auto
      then have "replace_all (38 # p) [c] (38 # w @ encode_only S t) = 38 # w @ replace_all (38 # p) [c] (encode_only S t)"
        using replace_skip [OF w(2), of p "[c]"] by (simp add: replace_miss)
      then show ?thesis using Cons 2 p w by (simp add: encode_only_def)
    next
      case 3
      then have "38 \<notin> set [d]" using assms(1) by auto
      then show ?thesis using Cons 3 p replace_skip [of 38 "[d]" p "[c]" "encode_only S t"] assms(3) by (simp add: encode_only_def)
    qed
  qed (simp add: encode_only_def)
qed

lemma encode_all: "encode_only specials t = escape t" and encode_none: "encode_only {} t = t"
  by (induction t) (auto simp: encode_only_def escape_def specials_def entity_def)

lemma decode_escape: "decode_entities (escape t) = t"
proof -
  have e: "text_of ''&quot;'' = entity 34" "text_of ''&apos;'' = entity 39" "text_of ''&lt;'' = entity 60"
      "text_of ''&gt;'' = entity 62" "text_of ''&amp;'' = entity 38"
    by (simp_all add: entity_def)
  have "encode_only specials t = encode_only {34, 39, 60, 62, 38} t" by (simp add: specials_def)
  then show ?thesis
    unfolding decode_entities_def e encode_all [symmetric]
    by (simp add: replace_encoded specials_def insert_Diff_if encode_none)
qed

lemma escape_clean: "60 \<notin> set (escape t)" "60 \<notin> lower_char ` set (escape t)"
proof -
  have "60 \<notin> set (entity c)" "60 \<notin> set (map lower_char (entity c))" for c
    by (auto simp: entity_def text_of_def lower_char_def)
  then show "60 \<notin> set (escape t)" "60 \<notin> lower_char ` set (escape t)" by (auto simp: escape_def image_iff)
qed

lemma find_sub_jump:
  "p \<notin> set u \<Longrightarrow> find_sub (u @ t) (p # tag) = map_option (\<lambda>i. length u + i) (find_sub t (p # tag))"
proof (induction u)
  case (Cons c u)
  then have "\<not> starts_with (c # u @ t) (p # tag)" by (auto simp: starts_with_prefix)
  then show ?case using Cons by (simp add: option.map_comp comp_def)
qed (cases "find_sub t (p # tag)"; simp)

lemma find_sub_skip:
  "find_sub g (p # tag) = None \<Longrightarrow> p \<notin> set tag \<Longrightarrow>
     find_sub (g @ p # r) (p # tag) = map_option (\<lambda>i. length g + i) (find_sub (p # r) (p # tag))"
proof (induction g)
  case (Cons c g)
  have "\<not> starts_with (c # g @ p # r) (p # tag)"
  proof
    assume "starts_with (c # g @ p # r) (p # tag)"
    then have "prefix (p # tag) ((c # g) @ p # r)" by (simp only: starts_with_prefix append_Cons)
    then consider "prefix (p # tag) (c # g)" | us where "p # tag = (c # g) @ us" "prefix us (p # r)"
      by (auto simp: prefix_append)
    then show False
    proof cases
      case 1
      then show False using Cons.prems(1) by (simp add: starts_with_prefix)
    next
      case 2
      then show False using Cons.prems by (cases us) (auto simp: starts_with_prefix split: if_splits)
    qed
  qed
  then show ?case using Cons by (simp add: option.map_comp comp_def split: if_splits)
qed (cases "find_sub (p # r) (p # tag)"; simp)

lemma starts_with_Cons [simp]: "starts_with (c # t) (p # q) \<longleftrightarrow> c = p \<and> starts_with t q"
  and starts_with_Nil [simp]: "starts_with t []" "\<not> starts_with [] (p # q)"
  by (auto simp: starts_with_prefix)

lemma trimmed_hd:
  assumes "trim_text t = t" and "t \<noteq> []"
  shows "\<not> is_whitespace_char (hd t)"
proof -
  define u where "u = dropWhile is_whitespace_char t"
  have "t = rev (dropWhile is_whitespace_char (rev u))" using assms(1) by (simp add: trim_text_def trim_end_by_def trim_start_text_def u_def)
  moreover obtain w where "rev u = w @ dropWhile is_whitespace_char (rev u)" by (metis takeWhile_dropWhile_id)
  then have "u = rev (dropWhile is_whitespace_char (rev u)) @ rev w" by (metis rev_append rev_rev_ident)
  ultimately have "u = t @ rev w" by simp
  then have "hd u = hd t" "u \<noteq> []" using assms(2) by auto
  moreover have "\<not> is_whitespace_char (hd u)" using \<open>u \<noteq> []\<close> unfolding u_def by (rule hd_dropWhile)
  ultimately show ?thesis by simp
qed

lemma trim_ends: "t \<noteq> [] \<Longrightarrow> \<not> is_whitespace_char (hd t) \<Longrightarrow> \<not> is_whitespace_char (last t) \<Longrightarrow> trim_text t = t"
proof -
  assume t: "t \<noteq> []" "\<not> is_whitespace_char (hd t)" "\<not> is_whitespace_char (last t)"
  have "dropWhile is_whitespace_char t = t" using t by (cases t) auto
  moreover have "dropWhile is_whitespace_char (rev t) = rev t" using t by (cases t rule: rev_cases) auto
  ultimately show ?thesis by (simp add: trim_text_def trim_end_by_def trim_start_text_def)
qed

lemma trim_escape:
  assumes "trim_text t = t"
  shows "trim_text (escape t) = escape t"
proof (cases "t = []")
  case False
  have e: "entity c \<noteq> []" "\<not> is_whitespace_char c \<Longrightarrow> \<not> is_whitespace_char (hd (entity c)) \<and> \<not> is_whitespace_char (last (entity c))" for c
    by (auto simp: entity_def text_of_def is_whitespace_char_def)
  have "hd (escape t) = hd (entity (hd t))" using False e by (cases t) (auto simp: escape_def)
  moreover have "last (escape t) = last (entity (last t))" using False e by (cases t rule: rev_cases) (auto simp: escape_def)
  moreover have "escape t \<noteq> []" using False e by (cases t) (auto simp: escape_def)
  ultimately show ?thesis using trimmed_hd [OF assms False] trimmed_last [OF assms] False e(2) by (intro trim_ends) auto
qed (simp add: escape_def trim_text_def trim_end_by_def trim_start_text_def)


definition exec_body :: "utext \<times> utext \<Rightarrow> utext" where
  "exec_body a = text_of ''<Exec><Command>'' @ escape (fst a) @ text_of ''</Command><Arguments>'' @ escape (snd a) @ text_of ''</Arguments>''"

text \<open>The tags and the text around the fields, in lower case.\<close>

lemma lower_tags:
  "map lower_char (text_of ''<Exec'') = [60, 101, 120, 101, 99]"
  "map lower_char (text_of ''</Exec>'') = [60, 47, 101, 120, 101, 99, 62]"
  "map lower_char ([60] @ text_of ''Command'' @ [62]) = [60, 99, 111, 109, 109, 97, 110, 100, 62]"
  "map lower_char ([60, 47] @ text_of ''Command'' @ [62]) = [60, 47, 99, 111, 109, 109, 97, 110, 100, 62]"
  "map lower_char ([60] @ text_of ''Arguments'' @ [62]) = [60, 97, 114, 103, 117, 109, 101, 110, 116, 115, 62]"
  "map lower_char ([60, 47] @ text_of ''Arguments'' @ [62]) = [60, 47, 97, 114, 103, 117, 109, 101, 110, 116, 115, 62]"
  "map lower_char (text_of ''<Exec><Command>'') = [60, 101, 120, 101, 99, 62, 60, 99, 111, 109, 109, 97, 110, 100, 62]"
  "map lower_char (text_of ''</Command><Arguments>'') = [60, 47, 99, 111, 109, 109, 97, 110, 100, 62, 60, 97, 114, 103, 117, 109, 101, 110, 116, 115, 62]"
  "map lower_char (text_of ''</Arguments>'') = [60, 47, 97, 114, 103, 117, 109, 101, 110, 116, 115, 62]"
  by (simp_all add: text_of_def lower_char_def)

lemma lower_parts:
  "map lower_char (exec_body a) = map lower_char (text_of ''<Exec><Command>'') @ map lower_char (escape (fst a)) @
     map lower_char (text_of ''</Command><Arguments>'') @ map lower_char (escape (snd a)) @ map lower_char (text_of ''</Arguments>'')"
  "map lower_char (escape (fst a) @ text_of ''</Command><Arguments>'' @ escape (snd a) @ text_of ''</Arguments>'') =
     map lower_char (escape (fst a)) @ map lower_char (text_of ''</Command><Arguments>'') @ map lower_char (escape (snd a)) @
     map lower_char (text_of ''</Arguments>'')"
  "map lower_char (escape (snd a) @ text_of ''</Arguments>'') = map lower_char (escape (snd a)) @ map lower_char (text_of ''</Arguments>'')"
  by (simp_all add: exec_body_def)

lemma action_line_body:
  assumes "trim_text (fst a) = fst a" and "trim_text (snd a) = snd a"
  shows "action_line (exec_body a) = (if fst a \<noteq> [] \<or> snd a \<noteq> [] then [trim_text (fst a @ [32] @ snd a)] else [])"
proof -
  have "find_tag (exec_body a) ([60] @ text_of ''Command'' @ [62]) = Some 6"
    unfolding find_tag_def lower_parts lower_tags by (simp add: find_sub_jump escape_clean)
  moreover have "drop (6 + length ([60] @ text_of ''Command'' @ [62])) (exec_body a) =
      escape (fst a) @ text_of ''</Command><Arguments>'' @ escape (snd a) @ text_of ''</Arguments>''"
    by (simp add: exec_body_def text_of_def)
  moreover have "find_tag (escape (fst a) @ text_of ''</Command><Arguments>'' @ escape (snd a) @ text_of ''</Arguments>'')
      ([60, 47] @ text_of ''Command'' @ [62]) = Some (length (escape (fst a)))"
    unfolding find_tag_def lower_parts lower_tags by (simp add: find_sub_jump escape_clean)
  ultimately have c: "element_text (exec_body a) (text_of ''Command'') = Some (fst a)"
    using assms(1) by (simp add: element_text_def Let_def trim_escape decode_escape)
  define k where "k = 6 + 9 + length (escape (fst a)) + 10"
  have "find_tag (exec_body a) ([60] @ text_of ''Arguments'' @ [62]) = Some k"
    unfolding find_tag_def lower_parts lower_tags by (simp add: find_sub_jump escape_clean k_def)
  moreover have "drop (k + length ([60] @ text_of ''Arguments'' @ [62])) (exec_body a) = escape (snd a) @ text_of ''</Arguments>''"
  proof -
    have "exec_body a = (text_of ''<Exec><Command>'' @ escape (fst a) @ text_of ''</Command><Arguments>'') @ escape (snd a) @ text_of ''</Arguments>''"
      by (simp add: exec_body_def)
    moreover have "k + length ([60] @ text_of ''Arguments'' @ [62]) =
        length (text_of ''<Exec><Command>'' @ escape (fst a) @ text_of ''</Command><Arguments>'')" by (simp add: k_def text_of_def)
    ultimately show ?thesis by (metis append_eq_conv_conj)
  qed
  moreover have "find_tag (escape (snd a) @ text_of ''</Arguments>'') ([60, 47] @ text_of ''Arguments'' @ [62]) = Some (length (escape (snd a)))"
    unfolding find_tag_def lower_parts lower_tags by (simp add: find_sub_jump escape_clean)
  ultimately have "element_text (exec_body a) (text_of ''Arguments'') = Some (snd a)"
    using assms(2) by (simp add: element_text_def Let_def trim_escape decode_escape)
  with c show ?thesis by (simp add: action_line_def Let_def or_empty_def)
qed

definition task_text :: "utext \<Rightarrow> ((utext \<times> utext) \<times> utext) list \<Rightarrow> utext" where
  "task_text glue items = glue @ concat (map (\<lambda>(a, g). action_xml a @ g) items)"

definition action_ok :: "(utext \<times> utext) \<times> utext \<Rightarrow> bool" where
  "action_ok item \<longleftrightarrow> trim_text (fst (fst item)) = fst (fst item) \<and> trim_text (snd (fst item)) = snd (fst item) \<and>
     find_tag (snd item) (text_of ''<Exec'') = None"

definition line_of :: "utext \<times> utext \<Rightarrow> utext list" where
  "line_of a = (if fst a \<noteq> [] \<or> snd a \<noteq> [] then [trim_text (fst a @ [32] @ snd a)] else [])"

lemma task_loop_actions:
  "find_tag glue (text_of ''<Exec'') = None \<Longrightarrow> list_all action_ok items \<Longrightarrow>
     task_loop (task_text glue items) = Some (concat (map (\<lambda>item. line_of (fst item)) items))"
proof (induction items arbitrary: glue)
  case Nil
  then show ?case by (subst task_loop.simps) (simp add: task_text_def)
next
  case (Cons item items)
  obtain a g where item: "item = (a, g)" by (cases item)
  have ok: "trim_text (fst a) = fst a" "trim_text (snd a) = snd a" "find_tag g (text_of ''<Exec'') = None"
    using Cons.prems(2) item by (simp_all add: action_ok_def)
  define more where "more = concat (map (\<lambda>(a, g). action_xml a @ g) items)"
  define after where "after = exec_body a @ text_of ''</Exec>'' @ g @ more"
  have rest: "task_text glue (item # items) = glue @ after"
    by (simp add: task_text_def item more_def after_def action_xml_def exec_body_def text_of_def)
  obtain r where r: "map lower_char after = [60, 101, 120, 101, 99] @ r"
    by (simp add: after_def exec_body_def text_of_def lower_char_def)
  have start: "find_tag (glue @ after) (text_of ''<Exec'') = Some (length glue)"
    using find_sub_skip [of "map lower_char glue" 60 "[101, 120, 101, 99]" "[101, 120, 101, 99] @ r"] Cons.prems(1) r
    by (simp add: find_tag_def lower_tags)
  have "map lower_char after = map lower_char (exec_body a) @ map lower_char (text_of ''</Exec>'') @ map lower_char (g @ more)"
    by (simp add: after_def)
  then have "find_tag after (text_of ''</Exec>'') = Some (length (exec_body a))"
    unfolding find_tag_def lower_parts lower_tags by (simp add: find_sub_jump escape_clean exec_body_def text_of_def)
  then have n: "(case find_tag after (text_of ''</Exec>'') of None \<Rightarrow> length after | Some n \<Rightarrow> n) = length (exec_body a)" by simp
  have drop: "drop (length glue) (glue @ after) = after" by simp
  have "task_loop (glue @ after) =
      Option.bind (task_loop (drop (length (exec_body a)) after)) (\<lambda>more. Some (action_line (take (length (exec_body a)) after) @ more))"
    using task_loop_step(3) [OF start] unfolding drop n .
  moreover have "drop (length (exec_body a)) after = task_text (text_of ''</Exec>'' @ g) items"
    by (simp add: after_def task_text_def more_def)
  moreover have "find_tag (text_of ''</Exec>'' @ g) (text_of ''<Exec'') = None"
    using ok(3) by (simp add: find_tag_def lower_tags)
  ultimately show ?case
    using Cons.IH [of "text_of ''</Exec>'' @ g"] Cons.prems(2) action_line_body [OF ok(1,2)] rest item
    by (simp add: after_def line_of_def)
qed

text \<open>
  Every action of a scheduled task is read: from a definition as Windows writes it, in UTF-16 with
  its byte order mark, the command lines reported are exactly those of the actions in the file, in
  order, with the entities of commands and arguments decoded once and whatever else stands between.
\<close>

theorem task_actions_all_read:
  assumes "find_tag glue (text_of ''<Exec'') = None" and "list_all action_ok items"
    and "list_all is_scalar (task_text glue items)"
  shows "task_command_lines ([0xFF, 0xFE] @ utf16_bytes (task_text glue items))
    = Some (concat (map (\<lambda>item. line_of (fst item)) items))"
proof -
  define t where "t = task_text glue items"
  have "\<forall>u \<in> set (concat (map utf16_encode t)). u < 65536"
    using assms(3) utf16_encode_bound by (fastforce simp: t_def list_all_iff)
  then have "from_utf16_lossy (u16_units (utf16_bytes t)) = t"
    using assms(3) by (simp add: utf16_bytes_def u16_units_write from_utf16_lossy_encode_all t_def)
  then have "decode_text ([0xFF, 0xFE] @ utf16_bytes t) = t" by (simp add: decode_text_def)
  then show ?thesis using task_loop_actions [OF assms(1,2)] by (simp add: task_command_lines_def t_def)
qed

theorem task_actions_all_read_witness:
  "task_command_lines ([0xFF, 0xFE] @ utf16_bytes (task_text (text_of ''<Actions>'') [((text_of ''a&b.exe'', text_of ''/x''), text_of ''</Actions>'')]))
     = Some [text_of ''a&b.exe /x'']"
  using task_actions_all_read [of "text_of ''<Actions>''" "[((text_of ''a&b.exe'', text_of ''/x''), text_of ''</Actions>'')]"]
  by (simp add: action_ok_def find_tag_def text_of_def lower_char_def trim_text_def trim_end_by_def trim_start_text_def
      is_whitespace_char_def line_of_def task_text_def action_xml_def escape_def entity_def is_scalar_def)

section \<open>What counts as launching\<close>

text \<open>
  A command is taken to launch the program when the program's path occurs anywhere in it, so also when it
  is an argument of another program or the beginning of another path.
\<close>

lemma argument_counts_as_launch:
  "launches id (\<lambda>_. None) (text_of ''viewer.exe c:'' @ [92] @ text_of ''a.exe'') None (text_of ''c:'' @ [92] @ text_of ''a.exe'')"
  by (simp add: launches_def comparable_def text_of_def expand.simps Let_def)

lemma prefix_counts_as_launch:
  "launches id (\<lambda>_. None) (text_of ''c:'' @ [92] @ text_of ''updater.exe'') None (text_of ''c:'' @ [92] @ text_of ''up'')"
  by (simp add: launches_def comparable_def text_of_def expand.simps Let_def)

lemma windows_files_untouched:
  "is_under_windows_folder (sm_lower m) (sm_windows_folder m) (comparable (sm_lower m) path) \<Longrightarrow> remove_tasks_and_services_for m path = []"
  by (simp add: remove_tasks_and_services_for_def Let_def)

lemma collect_task_files_bound: "length found \<le> MAX_TASK_FILES \<Longrightarrow> length (collect_task_files folder depth entries found) \<le> MAX_TASK_FILES"
  by (induction folder depth entries found rule: collect_task_files.induct) (auto split: task_node.splits option.splits)

end
