(* ===== verification/Quarantine.thy ===== *)
theory Quarantine
  imports Cvd
begin

text \<open>
  The quarantine store, \<^verbatim>\<open>src/quarantine.rs\<close>: a convicted file is encrypted into a container, its record
  is written, and only then the original is deleted; a restore decrypts the container to a free place.
  The stream cipher, the key derivation and SHA-256 are parameters. One record per operation says what
  the operating system answers at each step, so every point of failure, and every change another
  process makes to the file in between, is covered. A source is read in the pieces the system hands out.
\<close>

section \<open>Data\<close>

definition CONTAINER_MAGIC :: bytes where "CONTAINER_MAGIC = bytes_of ''BSQ'' @ [0, 0, 0, 1, 0]"
definition CONTAINER_MAGIC_V2 :: bytes where "CONTAINER_MAGIC_V2 = bytes_of ''BSQ'' @ [0, 0, 0, 2, 0]"
definition COPY_BUFFER_SIZE :: nat where "COPY_BUFFER_SIZE = 256 * 1024"
definition MAX_QUARANTINE_SOURCE_BYTES :: nat where "MAX_QUARANTINE_SOURCE_BYTES = 512 * 1024 * 1024"

datatype isolation_state = Isolated | SourceStillPresent

record qrecord =
  qr_id :: nat
  qr_original_path :: utext
  qr_quarantined_at :: int
  qr_sha256 :: bytes
  qr_size :: nat
  qr_threat_name :: utext
  qr_risk_score :: nat
  qr_state :: isolation_state
  qr_kdf_secret :: "bytes option"
  qr_removed_autostarts :: "utext list"

datatype quarantine_error =
  QIo | TooLarge | BadDigest | NotRegularFile | InsideStore | ChangedKind | SizeChanged | HardLinked | IdentityChanged
  | EncryptionFailed | ContentChanged | IdMismatch | TargetExists | NoParent | Redirected | LegacyContainer | BadContainer
  | NoSecret | IntegrityFailed

text \<open>A cipher position is the number of the chunk and whether it is the last.\<close>

record quarantine_env =
  qe_hkdf :: "bytes \<Rightarrow> bytes \<Rightarrow> nat \<Rightarrow> bytes"
  qe_seal :: "bytes \<Rightarrow> bytes \<Rightarrow> nat \<Rightarrow> bool \<Rightarrow> bytes \<Rightarrow> bytes \<Rightarrow> bytes option"
  qe_open :: "bytes \<Rightarrow> bytes \<Rightarrow> nat \<Rightarrow> bool \<Rightarrow> bytes \<Rightarrow> bytes \<Rightarrow> bytes option"
  qe_sha256_hex :: "bytes \<Rightarrow> bytes"

record quarantine_state =
  q_payload :: "nat \<Rightarrow> bytes option"
  q_record :: "nat \<Rightarrow> qrecord option"
  q_files :: "utext \<Rightarrow> bytes option"

definition container_aad :: "utext \<Rightarrow> utext \<Rightarrow> bytes \<Rightarrow> nat \<Rightarrow> bytes" where
  "container_aad path threat sha256 sz =
     bytes_of ''BSQ|V2|'' @ string_of_chars path @ bytes_of ''|'' @ string_of_chars threat @ bytes_of ''|'' @ sha256 @
     bytes_of ''|'' @ bytes_of (show_nat sz)"

section \<open>Encrypting\<close>

text \<open>
  A read hands out at most what is asked for and what the next grant allows; no grant left means that
  reads are answered in full, and a missing grant is a failed read.
\<close>

type_synonym source_reader = "bytes \<times> nat option list"

definition read_some :: "nat \<Rightarrow> source_reader \<Rightarrow> (bytes \<times> source_reader) option" where
  "read_some limit r =
     (case snd r of
        [] \<Rightarrow> Some (take limit (fst r), drop limit (fst r), [])
      | None # grants \<Rightarrow> None
      | Some g # grants \<Rightarrow>
          let n = min limit (max 1 g) in Some (take n (fst r), drop n (fst r), grants))"

lemma read_some_length: "read_some limit r = Some (got, r') \<Longrightarrow> length got \<le> limit"
  by (auto simp: read_some_def Let_def split: list.splits option.splits)

function seal_chunks :: "quarantine_env \<Rightarrow> bytes \<Rightarrow> bytes \<Rightarrow> bytes \<Rightarrow> nat \<Rightarrow> nat \<Rightarrow> nat \<Rightarrow> source_reader \<Rightarrow> bytes \<Rightarrow> bytes \<Rightarrow>
    quarantine_error + bytes \<times> bytes" where
  "seal_chunks env key nonce aad expected done_bytes index r out hashed =
     (if done_bytes > expected then Inl SizeChanged
      else if expected - done_bytes = 0 then Inr (out, hashed)
      else case read_some (min (expected - done_bytes) COPY_BUFFER_SIZE) r of
        None \<Rightarrow> Inl QIo
      | Some (got, r) \<Rightarrow>
          if got = [] then Inr (out, hashed)
          else let done_bytes = done_bytes + length got;
                   chunk_aad = (if index = 0 then aad else []);
                   is_last = (done_bytes = expected)
               in (case qe_seal env key nonce index is_last chunk_aad got of
                     None \<Rightarrow> Inl EncryptionFailed
                   | Some c \<Rightarrow>
                       if is_last then Inr (out @ c, hashed @ got)
                       else seal_chunks env key nonce aad expected done_bytes (index + 1) r (out @ c) (hashed @ got)))"
  by pat_completeness auto
termination
  by (relation "measure (\<lambda>(env, key, nonce, aad, expected, done_bytes, index, r, out, hashed). expected - done_bytes)")
    (auto simp flip: length_greater_0_conv)

declare seal_chunks.simps [simp del]

text \<open>What the system answers while a file is quarantined.\<close>

record quarantine_io =
  qi_root :: bool
  qi_metadata_regular :: "bool option"
  qi_canonical :: "utext option"
  qi_canonical_root :: bool
  qi_in_root :: bool
  qi_id :: nat
  qi_now :: int
  qi_secret :: "bytes option"
  qi_nonce :: "bytes option"
  qi_opened :: "(bool \<times> nat \<times> source_reader) option"
  qi_link_count :: "nat option"
  qi_file_id :: "nat option"
  qi_create :: bool
  qi_write :: bool
  qi_rename :: bool
  qi_record :: bool
  qi_cleanup :: bool
  qi_delete :: bool
  qi_recreated :: "bytes option"
  qi_autostarts :: "utext list"
  qi_rewrite :: bool

definition is_hex_digest :: "bytes \<Rightarrow> bool" where
  "is_hex_digest s \<longleftrightarrow> length s = 64 \<and> list_all (\<lambda>b. is_hex_char (unat b)) s"

definition check_opened :: "quarantine_io \<Rightarrow> nat \<Rightarrow> nat option \<Rightarrow> quarantine_error + source_reader" where
  "check_opened io expected_size expected_id =
     (case qi_opened io of
        None \<Rightarrow> Inl QIo
      | Some (regular, len, r) \<Rightarrow>
          if \<not> regular then Inl ChangedKind
          else if len \<noteq> expected_size then Inl SizeChanged
          else case qi_link_count io of
            None \<Rightarrow> Inl QIo
          | Some links \<Rightarrow>
              if links > 1 then Inl HardLinked
              else case expected_id of
                None \<Rightarrow> Inr r
              | Some i \<Rightarrow>
                  (case qi_file_id io of
                     None \<Rightarrow> Inl QIo
                   | Some actual \<Rightarrow> if actual \<noteq> i then Inl IdentityChanged else Inr r))"

text \<open>The container and the bytes that were hashed on the way; an empty file is one empty last chunk.\<close>

definition copy_source :: "quarantine_env \<Rightarrow> quarantine_io \<Rightarrow> bytes \<Rightarrow> bytes \<Rightarrow> bytes \<Rightarrow> nat \<Rightarrow> nat option \<Rightarrow>
    quarantine_error + bytes \<times> bytes" where
  "copy_source env io key nonce aad expected_size expected_id =
     (case check_opened io expected_size expected_id of
        Inl e \<Rightarrow> Inl e
      | Inr r \<Rightarrow>
          if \<not> qi_create io then Inl QIo
          else case (if expected_size = 0
                     then (case qe_seal env key nonce 0 True aad [] of None \<Rightarrow> Inl EncryptionFailed | Some c \<Rightarrow> Inr (c, []))
                     else seal_chunks env key nonce aad expected_size 0 0 r [] []) of
            Inl e \<Rightarrow> Inl e
          | Inr (sealed, hashed) \<Rightarrow>
              if length hashed \<noteq> expected_size then Inl SizeChanged
              else if \<not> qi_write io then Inl QIo
              else Inr (CONTAINER_MAGIC_V2 @ nonce @ sealed, hashed))"

text \<open>After the container and the record are in place: delete the original, then note what became of it.\<close>

definition remove_original :: "quarantine_io \<Rightarrow> qrecord \<Rightarrow> quarantine_state \<Rightarrow> (quarantine_error + qrecord) \<times> quarantine_state" where
  "remove_original io rec st =
     (let path = qr_original_path rec;
          st = (if qi_delete io then st\<lparr>q_files := (q_files st)(path := qi_recreated io)\<rparr> else st);
          rec = (if qi_delete io \<and> q_files st path = None then rec\<lparr>qr_state := Isolated\<rparr> else rec);
          rec = rec\<lparr>qr_removed_autostarts := qi_autostarts io\<rparr>
      in if qr_state rec = Isolated \<or> qr_removed_autostarts rec \<noteq> []
         then (if qi_rewrite io then (Inr rec, st\<lparr>q_record := (q_record st)(qr_id rec \<mapsto> rec)\<rparr>) else (Inl QIo, st))
         else (Inr rec, st))"

definition commit_container :: "quarantine_io \<Rightarrow> qrecord \<Rightarrow> bytes \<Rightarrow> quarantine_state \<Rightarrow> (quarantine_error + qrecord) \<times> quarantine_state" where
  "commit_container io rec container st =
     (let i = qr_id rec in
      if \<not> qi_rename io \<or> q_payload st i \<noteq> None then (Inl QIo, st)
      else let st' = st\<lparr>q_payload := (q_payload st)(i \<mapsto> container)\<rparr> in
           if \<not> qi_record io then (Inl QIo, if qi_cleanup io then st else st')
           else remove_original io rec (st'\<lparr>q_record := (q_record st')(i \<mapsto> rec)\<rparr>))"

definition quarantine_inner :: "quarantine_env \<Rightarrow> quarantine_io \<Rightarrow> utext \<Rightarrow> nat \<Rightarrow> bytes \<Rightarrow> nat \<Rightarrow> nat option \<Rightarrow> quarantine_state \<Rightarrow>
    (quarantine_error + qrecord) \<times> quarantine_state" where
  "quarantine_inner env io threat score expected_sha256 expected_size expected_id st =
     (if \<not> qi_root io then (Inl QIo, st)
      else if expected_size > MAX_QUARANTINE_SOURCE_BYTES then (Inl TooLarge, st)
      else if \<not> is_hex_digest expected_sha256 then (Inl BadDigest, st)
      else case qi_metadata_regular io of
        None \<Rightarrow> (Inl QIo, st)
      | Some regular \<Rightarrow>
          if \<not> regular then (Inl NotRegularFile, st)
          else case qi_canonical io of
            None \<Rightarrow> (Inl QIo, st)
          | Some path \<Rightarrow>
              if \<not> qi_canonical_root io then (Inl QIo, st)
              else if qi_in_root io then (Inl InsideStore, st)
              else case (qi_secret io, qi_nonce io) of
                (Some secret, Some nonce) \<Rightarrow>
                  let key = qe_hkdf env expected_sha256 secret (qi_id io);
                      aad = container_aad path threat expected_sha256 expected_size
                  in (case copy_source env io key nonce aad expected_size expected_id of
                        Inl e \<Rightarrow> (Inl e, st)
                      | Inr (container, hashed) \<Rightarrow>
                          let sha256 = qe_sha256_hex env hashed in
                          if \<not> eq_ignore_case_bytes sha256 expected_sha256 then (Inl ContentChanged, st)
                          else commit_container io
                            \<lparr>qr_id = qi_id io, qr_original_path = path, qr_quarantined_at = qi_now io, qr_sha256 = sha256,
                             qr_size = length hashed, qr_threat_name = threat, qr_risk_score = score,
                             qr_state = SourceStillPresent, qr_kdf_secret = Some secret, qr_removed_autostarts = []\<rparr>
                            container st)
              | _ \<Rightarrow> (Inl QIo, st))"

section \<open>The store\<close>

definition path_exists :: "quarantine_state \<Rightarrow> utext \<Rightarrow> bool" where
  "path_exists st path \<longleftrightarrow> q_files st path \<noteq> None"

text \<open>A record whose original is gone is noted as isolated; writing that down may fail.\<close>

definition reconcile_state :: "bool \<Rightarrow> qrecord \<Rightarrow> quarantine_state \<Rightarrow> qrecord \<times> quarantine_state" where
  "reconcile_state writable rec st =
     (if qr_state rec = SourceStillPresent \<and> \<not> path_exists st (qr_original_path rec)
      then let rec = rec\<lparr>qr_state := Isolated\<rparr> in
           (rec, if writable then st\<lparr>q_record := (q_record st)(qr_id rec \<mapsto> rec)\<rparr> else st)
      else (rec, st))"

definition load_record :: "bool \<Rightarrow> nat \<Rightarrow> quarantine_state \<Rightarrow> (quarantine_error + qrecord) \<times> quarantine_state" where
  "load_record writable i st =
     (case q_record st i of
        None \<Rightarrow> (Inl QIo, st)
      | Some rec \<Rightarrow>
          if qr_id rec \<noteq> i then (Inl IdMismatch, st)
          else (case reconcile_state writable rec st of (rec, st) \<Rightarrow> (Inr rec, st)))"

definition delete_quarantined :: "bool \<Rightarrow> bool \<Rightarrow> nat \<Rightarrow> quarantine_state \<Rightarrow> (quarantine_error + unit) \<times> quarantine_state" where
  "delete_quarantined payload_ok metadata_ok i st =
     (let p = payload_ok \<or> q_payload st i = None;
          m = metadata_ok \<or> q_record st i = None;
          st = (if p then st\<lparr>q_payload := (q_payload st)(i := None)\<rparr> else st);
          st = (if m then st\<lparr>q_record := (q_record st)(i := None)\<rparr> else st)
      in (if p \<and> m then Inr () else Inl QIo, st))"

text \<open>
  What the system answers while a file is restored. \<open>ri_existing_pins\<close> and \<open>ri_parent_pins\<close> say whether the
  deepest existing folder and, once it is created, the parent resolve to themselves.
\<close>

record restore_io =
  ri_writable :: bool
  ri_has_parent :: bool
  ri_existing_pins :: bool
  ri_create_parent :: bool
  ri_parent_pins :: bool
  ri_create :: bool
  ri_write :: bool
  ri_rename :: bool
  ri_delete_payload :: bool
  ri_delete_metadata :: bool

function open_chunks :: "quarantine_env \<Rightarrow> bytes \<Rightarrow> bytes \<Rightarrow> bytes \<Rightarrow> nat \<Rightarrow> nat \<Rightarrow> nat \<Rightarrow> bytes \<Rightarrow> bytes \<Rightarrow> quarantine_error + bytes" where
  "open_chunks env key nonce aad sz restored index input out =
     (if restored > sz then Inl IntegrityFailed
      else if sz - restored = 0 then Inr out
      else let limit = min (sz - restored) COPY_BUFFER_SIZE in
        if length input < limit + 16 then Inl QIo
        else let chunk_aad = (if index = 0 then aad else []);
                 is_last = (restored + limit = sz)
             in (case qe_open env key nonce index is_last chunk_aad (take (limit + 16) input) of
                   None \<Rightarrow> Inl IntegrityFailed
                 | Some p \<Rightarrow>
                     if is_last then (if restored + length p \<noteq> sz then Inl IntegrityFailed else Inr (out @ p))
                     else open_chunks env key nonce aad sz (restored + length p) (index + 1) (drop (limit + 16) input) (out @ p)))"
  by pat_completeness auto
termination
  by (relation "measure (\<lambda>(env, key, nonce, aad, sz, restored, index, input, out). length input)") auto

declare open_chunks.simps [simp del]

text \<open>The bytes that are written, and those that are hashed.\<close>

definition open_container :: "quarantine_env \<Rightarrow> qrecord \<Rightarrow> nat \<Rightarrow> bytes \<Rightarrow> quarantine_error + bytes \<times> bytes" where
  "open_container env rec i container =
     (if length container < 8 then Inl QIo
      else if take 8 container = CONTAINER_MAGIC then Inl LegacyContainer
      else if take 8 container \<noteq> CONTAINER_MAGIC_V2 then Inl BadContainer
      else case qr_kdf_secret rec of
        None \<Rightarrow> Inl NoSecret
      | Some secret \<Rightarrow>
          let key = qe_hkdf env (qr_sha256 rec) secret i;
              aad = container_aad (qr_original_path rec) (qr_threat_name rec) (qr_sha256 rec) (qr_size rec);
              input = drop 8 container
          in if length input < 19 then Inl QIo
             else let nonce = take 19 input; input = drop 19 input in
               (if qr_size rec = 0
                then (if length input < 16 then Inl QIo
                      else case qe_open env key nonce 0 True aad (take 16 input) of
                        None \<Rightarrow> Inl IntegrityFailed
                      | Some p \<Rightarrow> Inr (p, []))
                else map_sum id (\<lambda>p. (p, p)) (open_chunks env key nonce aad (qr_size rec) 0 0 input [])))"

definition restore :: "quarantine_env \<Rightarrow> restore_io \<Rightarrow> nat \<Rightarrow> utext option \<Rightarrow> bool \<Rightarrow> quarantine_state \<Rightarrow>
    (quarantine_error + utext) \<times> quarantine_state" where
  "restore env io i destination remove_after st =
     (case load_record (ri_writable io) i st of
        (Inl e, st) \<Rightarrow> (Inl e, st)
      | (Inr rec, st) \<Rightarrow>
          let target = (case destination of Some d \<Rightarrow> d | None \<Rightarrow> qr_original_path rec) in
          if path_exists st target then (Inl TargetExists, st)
          else if \<not> ri_has_parent io then (Inl NoParent, st)
          else if \<not> ri_existing_pins io then (Inl Redirected, st)
          else if \<not> ri_create_parent io then (Inl QIo, st)
          else if \<not> ri_parent_pins io then (Inl Redirected, st)
          else case q_payload st i of
            None \<Rightarrow> (Inl QIo, st)
          | Some container \<Rightarrow>
              if \<not> ri_create io then (Inl QIo, st)
              else case open_container env rec i container of
                Inl e \<Rightarrow> (Inl e, st)
              | Inr (content, hashed) \<Rightarrow>
                  if \<not> ri_write io then (Inl QIo, st)
                  else if \<not> eq_ignore_case_bytes (qe_sha256_hex env hashed) (qr_sha256 rec) then (Inl IntegrityFailed, st)
                  else if \<not> ri_rename io then (Inl QIo, st)
                  else let st = st\<lparr>q_files := (q_files st)(target \<mapsto> content)\<rparr> in
                    (if remove_after
                     then (case delete_quarantined (ri_delete_payload io) (ri_delete_metadata io) i st of
                             (Inl e, st) \<Rightarrow> (Inl e, st)
                           | (Inr _, st) \<Rightarrow> (Inr target, st))
                     else (Inr target, st)))"

text \<open>Listing reads every record of the directory and sorts them, newest first.\<close>

fun list_entries :: "bool \<Rightarrow> nat list \<Rightarrow> quarantine_state \<Rightarrow> qrecord list \<times> quarantine_state" where
  "list_entries writable [] st = ([], st)"
| "list_entries writable (i # ids) st =
     (case load_record writable i st of
        (Inl _, st) \<Rightarrow> list_entries writable ids st
      | (Inr rec, st) \<Rightarrow> (case list_entries writable ids st of (recs, st) \<Rightarrow> (rec # recs, st)))"

definition list_quarantined :: "bool \<Rightarrow> nat list \<Rightarrow> quarantine_state \<Rightarrow> qrecord list \<times> quarantine_state" where
  "list_quarantined writable ids st =
     (case list_entries writable ids st of (recs, st) \<Rightarrow> (sort_key (\<lambda>r. - qr_quarantined_at r) recs, st))"

section \<open>What a container holds\<close>

text \<open>What the cipher promises: a chunk is longer by the tag, and opens to what was sealed.\<close>

definition cipher_ok :: "quarantine_env \<Rightarrow> bool" where
  "cipher_ok env \<longleftrightarrow>
     (\<forall>k n i l a p c. qe_seal env k n i l a p = Some c \<longrightarrow> length c = length p + 16 \<and> qe_open env k n i l a c = Some p)"

lemma seal_open:
  "cipher_ok env \<Longrightarrow> seal_chunks env key nonce aad sz d index (rest, []) out hashed = Inr (out', hashed') \<Longrightarrow>
     length hashed = d \<Longrightarrow> length hashed' = sz \<Longrightarrow>
     \<exists>sealed. out' = out @ sealed \<and> hashed' = hashed @ take (sz - d) rest \<and>
       (\<forall>plain. open_chunks env key nonce aad sz d index sealed plain = Inr (plain @ take (sz - d) rest))"
proof (induction "sz - d" arbitrary: d index rest out hashed rule: less_induct)
  case less
  note run = less.prems(2) [unfolded seal_chunks.simps [of env key nonce aad sz d]]
  show ?case
  proof (cases "d = sz")
    case True
    then show ?thesis using run less.prems(3,4) by (auto simp: open_chunks.simps)
  next
    case False
    define n where "n = min (sz - d) COPY_BUFFER_SIZE"
    define got where "got = take n rest"
    have "d < sz" using False run by (auto split: if_splits)
    have nonempty: "got \<noteq> []"
      using run \<open>d < sz\<close> less.prems(3,4) by (auto simp: read_some_def got_def n_def COPY_BUFFER_SIZE_def)
    define chunk_aad where "chunk_aad = (if index = 0 then aad else [])"
    obtain c where c: "qe_seal env key nonce index (d + length got = sz) chunk_aad got = Some c"
      and rest_run: "(if d + length got = sz then Inr (out @ c, hashed @ got)
        else seal_chunks env key nonce aad sz (d + length got) (index + 1) (drop n rest, []) (out @ c) (hashed @ got)) = Inr (out', hashed')"
      using run nonempty \<open>d < sz\<close>
      by (auto simp: read_some_def Let_def got_def [symmetric] n_def [symmetric] chunk_aad_def [symmetric] split: option.splits)
    have cipher: "length c = length got + 16" "qe_open env key nonce index (d + length got = sz) chunk_aad c = Some got"
      using less.prems(1) c by (auto simp: cipher_ok_def)
    show ?thesis
    proof (cases "d + length got = sz")
      case True
      then have "length got = n" using \<open>d < sz\<close> by (auto simp: got_def n_def min_def split: if_splits)
      then have "take (sz - d) rest = got" using True by (auto simp: got_def)
      moreover have "open_chunks env key nonce aad sz d index c plain = Inr (plain @ got)" for plain
        using cipher True \<open>d < sz\<close> \<open>length got = n\<close>
        by (subst open_chunks.simps) (simp add: Let_def n_def [symmetric] chunk_aad_def [symmetric])
      ultimately show ?thesis using rest_run True by auto
    next
      case go: False
      have le: "length got \<le> n" "n \<le> sz - d" by (auto simp: got_def n_def)
      have rest_run': "seal_chunks env key nonce aad sz (d + length got) (index + 1) (drop n rest, []) (out @ c) (hashed @ got) = Inr (out', hashed')"
        using rest_run go by simp
      have "sz - (d + length got) < sz - d" using nonempty \<open>d < sz\<close> by (simp flip: length_greater_0_conv)
      from less.hyps [OF this less.prems(1) rest_run'] less.prems(3,4)
      obtain sealed where sealed: "out' = (out @ c) @ sealed"
          "hashed' = (hashed @ got) @ take (sz - (d + length got)) (drop n rest)"
          "\<forall>plain. open_chunks env key nonce aad sz (d + length got) (index + 1) sealed plain = Inr (plain @ take (sz - (d + length got)) (drop n rest))"
        by auto
      have full: "length got = n"
      proof (rule ccontr)
        assume "length got \<noteq> n"
        then have "drop n rest = []" using le by (simp add: got_def)
        then show False using sealed(2) less.prems(3,4) go by simp
      qed
      have split: "got @ take (sz - (d + length got)) (drop n rest) = take (sz - d) rest"
        using full le by (metis (no_types) got_def diff_diff_left le_add_diff_inverse take_add)
      have "open_chunks env key nonce aad sz d index (c @ sealed) plain = Inr (plain @ take (sz - d) rest)" for plain
      proof -
        have "open_chunks env key nonce aad sz d index (c @ sealed) plain =
            open_chunks env key nonce aad sz (d + length got) (index + 1) sealed (plain @ got)"
          using cipher go \<open>d < sz\<close> full
          by (subst open_chunks.simps) (simp add: Let_def n_def [symmetric] chunk_aad_def [symmetric])
        then show ?thesis using sealed(3) split by simp
      qed
      then show ?thesis using sealed(1,2) split by (intro exI [of _ "c @ sealed"]) simp
    qed
  qed
qed

text \<open>What was hashed is what the reader held, in order, whatever the sizes of the pieces.\<close>

lemma read_some_content: "read_some n (rest, grants) = Some (got, rest', grants') \<Longrightarrow> rest = got @ rest'"
  by (auto simp: read_some_def Let_def split: list.splits option.splits)

lemma sealed_prefix:
  "seal_chunks env key nonce aad sz d index (rest, grants) out hashed = Inr (out', hashed') \<Longrightarrow>
     \<exists>seen. hashed' = hashed @ seen \<and> (\<exists>more. rest = seen @ more)"
proof (induction "sz - d" arbitrary: d index rest grants out hashed rule: less_induct)
  case less
  note run = less.prems [unfolded seal_chunks.simps [of env key nonce aad sz d]]
  show ?case
  proof (cases "d < sz \<and> read_some (min (sz - d) COPY_BUFFER_SIZE) (rest, grants) \<noteq> None")
    case False
    then show ?thesis using run by (cases "read_some (min (sz - d) COPY_BUFFER_SIZE) (rest, grants)") (auto split: if_splits)
  next
    case True
    then obtain got rest' grants' where got: "read_some (min (sz - d) COPY_BUFFER_SIZE) (rest, grants) = Some (got, rest', grants')"
      by auto
    have parts: "rest = got @ rest'" using got by (rule read_some_content)
    show ?thesis
    proof (cases "got = [] \<or> d + length got = sz")
      case True
      then show ?thesis using run \<open>d < sz \<and> _\<close> got parts by (auto simp: Let_def split: option.splits if_splits)
    next
      case False
      then obtain c where run': "seal_chunks env key nonce aad sz (d + length got) (index + 1) (rest', grants') (out @ c) (hashed @ got) = Inr (out', hashed')"
        using run \<open>d < sz \<and> _\<close> got by (auto simp: Let_def split: option.splits)
      have "sz - (d + length got) < sz - d" using False \<open>d < sz \<and> _\<close> by (auto simp flip: length_greater_0_conv)
      from less.hyps [OF this run'] parts show ?thesis by auto
    qed
  qed
qed

section \<open>Nothing is lost\<close>

text \<open>What a run that changed a file must have gone through.\<close>

lemma removal_steps:
  assumes "quarantine_inner env io threat score digest sz expected_id st = (result, st1)" "q_files st1 p \<noteq> q_files st p"
  obtains secret nonce r container hashed rec where
    "qi_canonical io = Some p" "\<not> qi_in_root io" "qi_secret io = Some secret" "qi_nonce io = Some nonce"
    "sz \<le> MAX_QUARANTINE_SOURCE_BYTES" "is_hex_digest digest"
    "check_opened io sz expected_id = Inr r"
    "copy_source env io (qe_hkdf env digest secret (qi_id io)) nonce (container_aad p threat digest sz) sz expected_id = Inr (container, hashed)"
    "eq_ignore_case_bytes (qe_sha256_hex env hashed) digest" "length hashed = sz"
    "q_payload st (qi_id io) = None" "qi_delete io"
    "q_payload st1 = (q_payload st)(qi_id io \<mapsto> container)" "q_record st1 = (q_record st)(qi_id io \<mapsto> rec)"
    "q_files st1 = (q_files st)(p := qi_recreated io)"
    "qr_id rec = qi_id io" "qr_original_path rec = p" "qr_sha256 rec = qe_sha256_hex env hashed" "qr_size rec = sz"
    "qr_threat_name rec = threat" "qr_kdf_secret rec = Some secret"
proof -
  from assms obtain path secret nonce where steps: "qi_canonical io = Some path" "\<not> qi_in_root io" "qi_secret io = Some secret"
      "qi_nonce io = Some nonce" "sz \<le> MAX_QUARANTINE_SOURCE_BYTES" "is_hex_digest digest"
    by (auto simp: quarantine_inner_def Let_def split: if_splits option.splits)
  from assms steps obtain container hashed where
    copied: "copy_source env io (qe_hkdf env digest secret (qi_id io)) nonce (container_aad path threat digest sz) sz expected_id = Inr (container, hashed)"
    and same: "eq_ignore_case_bytes (qe_sha256_hex env hashed) digest"
    by (auto simp: quarantine_inner_def Let_def split: if_splits option.splits sum.splits)
  define rec where "rec = \<lparr>qr_id = qi_id io, qr_original_path = path, qr_quarantined_at = qi_now io, qr_sha256 = qe_sha256_hex env hashed,
      qr_size = length hashed, qr_threat_name = threat, qr_risk_score = score,
      qr_state = SourceStillPresent, qr_kdf_secret = Some secret, qr_removed_autostarts = []\<rparr>"
  have commit: "commit_container io rec container st = (result, st1)"
    using assms steps copied same by (auto simp: quarantine_inner_def Let_def rec_def split: if_splits option.splits)
  obtain r where r: "check_opened io sz expected_id = Inr r" and len: "length hashed = sz"
    using copied by (auto simp: copy_source_def split: sum.splits if_splits)
  define st2 where "st2 = st\<lparr>q_payload := (q_payload st)(qi_id io \<mapsto> container), q_record := (q_record st)(qi_id io \<mapsto> rec)\<rparr>"
  have fresh: "q_payload st (qi_id io) = None" and removed: "remove_original io rec st2 = (result, st1)"
    using commit assms(2) by (auto simp: commit_container_def Let_def rec_def st2_def split: if_splits)
  have del: "qi_delete io" "p = path" "q_files st1 = (q_files st)(path := qi_recreated io)" "q_payload st1 = q_payload st2"
    using removed assms(2) by (auto simp: remove_original_def Let_def rec_def st2_def split: if_splits)
  obtain rec1 where rec1: "q_record st1 = (q_record st2)(qi_id io \<mapsto> rec1)" "qr_id rec1 = qr_id rec" "qr_original_path rec1 = qr_original_path rec"
      "qr_sha256 rec1 = qr_sha256 rec" "qr_size rec1 = qr_size rec" "qr_threat_name rec1 = qr_threat_name rec" "qr_kdf_secret rec1 = qr_kdf_secret rec"
  proof (cases "q_record st1 = q_record st2")
    case True
    then show ?thesis using that [of rec] by (simp add: st2_def)
  next
    case False
    then show ?thesis using removed that
      by (auto simp: remove_original_def Let_def rec_def split: if_splits)
  qed
  show ?thesis
    by (rule that [of secret nonce r container hashed rec1])
      (use steps del r copied same fresh rec1 len in \<open>auto simp: rec_def st2_def\<close>)
qed

text \<open>The container that was written opens to the bytes that were read.\<close>

lemma copied_container_opens:
  assumes "cipher_ok env" "copy_source env io key nonce aad sz expected_id = Inr (container, hashed)"
    "qi_opened io = Some (regular, len, content, [])" "length nonce = 19"
    "qr_kdf_secret rec = Some secret" "key = qe_hkdf env (qr_sha256 rec) secret i" "qr_size rec = sz"
    "aad = container_aad (qr_original_path rec) (qr_threat_name rec) (qr_sha256 rec) (qr_size rec)"
  shows "open_container env rec i container = Inr (take sz content, take sz content) \<and> hashed = take sz content"
proof -
  note copied = assms(2) [unfolded copy_source_def check_opened_def assms(3)]
  have magic: "length CONTAINER_MAGIC_V2 = 8" "CONTAINER_MAGIC_V2 \<noteq> CONTAINER_MAGIC"
    by (simp_all add: CONTAINER_MAGIC_V2_def CONTAINER_MAGIC_def bytes_of_def)
  show ?thesis
  proof (cases "sz = 0")
    case True
    obtain c where c: "qe_seal env key nonce 0 True aad [] = Some c" "container = CONTAINER_MAGIC_V2 @ nonce @ c" "hashed = []"
      using copied True by (auto split: if_splits option.splits)
    have "length c = 16" "qe_open env key nonce 0 True aad c = Some []" using assms(1) c(1) by (force simp: cipher_ok_def)+
    then show ?thesis using True c assms(4-8) magic by (simp add: open_container_def Let_def)
  next
    case False
    obtain sealed where s: "seal_chunks env key nonce aad sz 0 0 (content, []) [] [] = Inr (sealed, hashed)"
      "container = CONTAINER_MAGIC_V2 @ nonce @ sealed" "length hashed = sz"
      using copied False by (auto split: if_splits option.splits sum.splits)
    from seal_open [OF assms(1) s(1) _ s(3)]
    have opened: "hashed = take sz content" "open_chunks env key nonce aad sz 0 0 sealed [] = Inr (take sz content)" by auto
    then show ?thesis using False s assms(4-8) magic by (simp add: open_container_def Let_def)
  qed
qed

definition restore_possible :: "restore_io \<Rightarrow> bool" where
  "restore_possible io \<longleftrightarrow> ri_has_parent io \<and> ri_existing_pins io \<and> ri_create_parent io \<and> ri_parent_pins io \<and> ri_create io \<and>
     ri_write io \<and> ri_rename io"

definition lower_case :: "bytes \<Rightarrow> bool" where
  "lower_case s \<longleftrightarrow> list_all (\<lambda>b. to_ascii_lowercase b = b) s"

lemma same_when_lower: "eq_ignore_case_bytes a b \<Longrightarrow> lower_case a \<Longrightarrow> lower_case b \<Longrightarrow> a = b"
  unfolding eq_ignore_case_bytes_def lower_case_def
  by (induction a b rule: list_all2_induct) (auto simp: eq_ignore_ascii_case_def)

lemma same_case_refl: "eq_ignore_case_bytes a a"
  by (simp add: eq_ignore_case_bytes_def eq_ignore_ascii_case_def list_all2_refl)

lemma load_known:
  assumes "q_record st i = Some rec" "qr_id rec = i"
  obtains state st' where "load_record w i st = (Inr (rec\<lparr>qr_state := state\<rparr>), st')" "q_payload st' = q_payload st" "q_files st' = q_files st"
proof (cases "qr_state rec = SourceStillPresent \<and> \<not> path_exists st (qr_original_path rec)")
  case True
  then show ?thesis using assms that [of Isolated] by (auto simp: load_record_def reconcile_state_def Let_def)
next
  case False
  then show ?thesis using assms that [of "qr_state rec"] by (auto simp: load_record_def reconcile_state_def)
qed


text \<open>What was checked before a file goes away.\<close>

lemma removal_checked:
  assumes "quarantine_inner env io threat score digest sz expected_id st = (result, st1)" "q_files st1 p \<noteq> q_files st p"
  shows "qi_canonical io = Some p \<and> \<not> qi_in_root io \<and> sz \<le> MAX_QUARANTINE_SOURCE_BYTES \<and>
    (\<exists>held grants links seen unread rec container.
       qi_opened io = Some (True, sz, held, grants) \<and> qi_link_count io = Some links \<and> links \<le> 1 \<and>
       (\<forall>i. expected_id = Some i \<longrightarrow> qi_file_id io = Some i) \<and>
       held = seen @ unread \<and> length seen = sz \<and> eq_ignore_case_bytes (qe_sha256_hex env seen) digest \<and>
       q_payload st1 = (q_payload st)(qi_id io \<mapsto> container) \<and> q_record st1 = (q_record st)(qi_id io \<mapsto> rec) \<and>
       qr_original_path rec = p \<and> qr_sha256 rec = qe_sha256_hex env seen \<and> qr_size rec = sz) \<and>
    (\<forall>q. q \<noteq> p \<longrightarrow> q_files st1 q = q_files st q)"
proof -
  from removal_steps [OF assms] obtain secret nonce r container hashed rec where
    env: "qi_canonical io = Some p" "\<not> qi_in_root io" "sz \<le> MAX_QUARANTINE_SOURCE_BYTES" "check_opened io sz expected_id = Inr r"
    and copied: "copy_source env io (qe_hkdf env digest secret (qi_id io)) nonce (container_aad p threat digest sz) sz expected_id = Inr (container, hashed)"
    and same: "eq_ignore_case_bytes (qe_sha256_hex env hashed) digest" "length hashed = sz"
    and held: "q_payload st1 = (q_payload st)(qi_id io \<mapsto> container)" "q_record st1 = (q_record st)(qi_id io \<mapsto> rec)"
    and fs: "q_files st1 = (q_files st)(p := qi_recreated io)"
    and rec: "qr_original_path rec = p" "qr_sha256 rec = qe_sha256_hex env hashed" "qr_size rec = sz"
    by metis
  obtain held_bytes grants links where opened: "qi_opened io = Some (True, sz, held_bytes, grants)" "r = (held_bytes, grants)"
      "qi_link_count io = Some links" "links \<le> 1" "\<forall>i. expected_id = Some i \<longrightarrow> qi_file_id io = Some i"
    using env(4) by (auto simp: check_opened_def split: option.splits if_splits)
  have "\<exists>unread. held_bytes = hashed @ unread"
  proof (cases "sz = 0")
    case True
    then show ?thesis using same(2) by simp
  next
    case False
    then obtain sealed where
      "seal_chunks env (qe_hkdf env digest secret (qi_id io)) nonce (container_aad p threat digest sz) sz 0 0 (held_bytes, grants) [] [] = Inr (sealed, hashed)"
      using copied env(4) opened(2) by (auto simp: copy_source_def split: sum.splits if_splits)
    from sealed_prefix [OF this] show ?thesis by auto
  qed
  then show ?thesis using env(1-3) opened same held rec fs by auto
qed


section \<open>Examples\<close>

text \<open>A cipher whose tag depends on the key and the length, and a digest that is written in lower case.\<close>

definition toy_tag :: "bytes \<Rightarrow> nat \<Rightarrow> bytes" where
  "toy_tag key n = replicate 16 (of_nat n + (case key of [] \<Rightarrow> 0 | k # _ \<Rightarrow> k))"

definition toy_env :: quarantine_env where
  "toy_env = \<lparr>qe_hkdf = (\<lambda>salt secret i. salt @ secret),
     qe_seal = (\<lambda>key nonce i is_last aad p. Some (p @ toy_tag key (length p))),
     qe_open = (\<lambda>key nonce i is_last aad c.
       if 16 \<le> length c \<and> drop (length c - 16) c = toy_tag key (length c - 16) then Some (take (length c - 16) c) else None),
     qe_sha256_hex = (\<lambda>b. replicate 63 97 @ [if even (length b) then 97 else 98])\<rparr>"

definition example_io :: quarantine_io where
  "example_io = \<lparr>qi_root = True, qi_metadata_regular = Some True, qi_canonical = Some (text_of ''C:/bad''), qi_canonical_root = True,
     qi_in_root = False, qi_id = 7, qi_now = 0, qi_secret = Some [5], qi_nonce = Some (replicate 19 0),
     qi_opened = Some (True, 3, [1, 2, 3], []), qi_link_count = Some 1, qi_file_id = Some 5, qi_create = True, qi_write = True,
     qi_rename = True, qi_record = True, qi_cleanup = True, qi_delete = True, qi_recreated = None, qi_autostarts = [], qi_rewrite = True\<rparr>"

definition example_store :: quarantine_state where
  "example_store = \<lparr>q_payload = (\<lambda>_. None), q_record = (\<lambda>_. None), q_files = [(text_of ''C:/bad'') \<mapsto> [1, 2, 3]]\<rparr>"

definition example_restore_io :: restore_io where
  "example_restore_io = \<lparr>ri_writable = True, ri_has_parent = True, ri_existing_pins = True, ri_create_parent = True,
     ri_parent_pins = True, ri_create = True, ri_write = True, ri_rename = True, ri_delete_payload = True, ri_delete_metadata = True\<rparr>"

definition example_digest :: bytes where "example_digest = replicate 63 97 @ [98]"

lemma toy_cipher_ok: "cipher_ok toy_env"
  by (auto simp: cipher_ok_def toy_env_def toy_tag_def)

lemma every_replicate: "list_all P (replicate n x) \<longleftrightarrow> n = 0 \<or> P x"
  by (induction n) auto

lemma toy_digest_lower: "lower_case (qe_sha256_hex toy_env content)"
  by (simp add: toy_env_def lower_case_def to_ascii_lowercase_def every_replicate)

lemmas example_simps = toy_env_def toy_tag_def example_io_def example_store_def example_restore_io_def example_digest_def
  quarantine_inner_def copy_source_def check_opened_def commit_container_def remove_original_def seal_chunks.simps read_some_def
  MAX_QUARANTINE_SOURCE_BYTES_def COPY_BUFFER_SIZE_def is_hex_digest_def is_hex_char_def every_replicate

lemma example_removed: "q_files (snd (quarantine_inner toy_env example_io [120] 90 example_digest 3 (Some 5) example_store)) (text_of ''C:/bad'') = None"
  by (simp add: example_simps Let_def same_case_refl)



section \<open>When what was sealed cannot be opened\<close>

text \<open>
  The pieces that are sealed are as long as the reads were, while the restore expects full pieces: after one short read
  the container no longer opens, although the original was deleted and the record says that it is isolated.
\<close>

lemma ends_differ: "b \<noteq> y \<Longrightarrow> xs @ [a, b] \<noteq> replicate n y"
  by (metis in_set_conv_decomp in_set_replicate append_Cons append_Nil append_assoc)

lemma toy_key: "(case replicate 63 a @ rest of [] \<Rightarrow> c | k # ks \<Rightarrow> k) = a"
  by (simp add: numeral_eq_Suc)

definition short_read_io :: quarantine_io where
  "short_read_io = example_io\<lparr>qi_opened := Some (True, 3, [1, 2, 3], [Some 1])\<rparr>"

lemma short_read_cannot_be_restored:
  "cipher_ok toy_env \<and>
   (case quarantine_inner toy_env short_read_io [120] 90 example_digest 3 (Some 5) example_store of
      (result, st) \<Rightarrow>
        (\<exists>rec. result = Inr rec \<and> qr_state rec = Isolated) \<and> q_files st (text_of ''C:/bad'') = None \<and>
        fst (restore toy_env example_restore_io 7 None False st) = Inl IntegrityFailed)"
proof -
  have "\<exists>rec st. quarantine_inner toy_env short_read_io [120] 90 example_digest 3 (Some 5) example_store = (Inr rec, st) \<and>
      qr_state rec = Isolated \<and> q_files st (text_of ''C:/bad'') = None \<and>
      fst (restore toy_env example_restore_io 7 None False st) = Inl IntegrityFailed"
    by (simp add: example_simps short_read_io_def Let_def same_case_refl restore_def load_record_def reconcile_state_def
        path_exists_def open_container_def open_chunks.simps CONTAINER_MAGIC_V2_def CONTAINER_MAGIC_def bytes_of_def ends_differ toy_key)
  then show ?thesis using toy_cipher_ok by auto
qed

end
