(* ===== verification/Definitions.thy ===== *)
theory Definitions
  imports Cvd Detection
begin

text \<open>
  Signed definitions, \<^verbatim>\<open>src/definitions.rs\<close>: the bundle and the compact payload with their validation, building an
  engine from them, and loading the installed ones with the fallback to the previous ones and to the built-in set.
  Strings are lists of characters below 256, one per UTF-8 byte. JSON codecs and the compiler of rules are parameters,
  and so are the parts of the machine a new engine picks up (AMSI, the ClamAV index, learned shards). An error names the
  field without its index and without the reason.
\<close>

section \<open>Limits\<close>

definition DEFINITION_SCHEMA_VERSION :: nat where "DEFINITION_SCHEMA_VERSION = 2"
definition COMPACT_DEFINITION_SCHEMA_VERSION :: nat where "COMPACT_DEFINITION_SCHEMA_VERSION = 3"
definition MAX_DEFINITION_BUNDLE_BYTES :: nat where "MAX_DEFINITION_BUNDLE_BYTES = 16 * 1024 * 1024"
definition MAX_DEFINITION_PAYLOAD_BYTES :: nat where "MAX_DEFINITION_PAYLOAD_BYTES = 256 * 1024 * 1024"
definition MAX_COMPACT_SHA256_SIGNATURES :: nat where "MAX_COMPACT_SHA256_SIGNATURES = 8000000"
definition MAX_EXACT_SIGNATURES :: nat where "MAX_EXACT_SIGNATURES = 100000"
definition MAX_YARA_BUNDLES :: nat where "MAX_YARA_BUNDLES = 64"
definition MAX_YARA_SOURCE_BYTES :: nat where "MAX_YARA_SOURCE_BYTES = 1024 * 1024"
definition MAX_TOTAL_YARA_SOURCE_BYTES :: nat where "MAX_TOTAL_YARA_SOURCE_BYTES = 4 * 1024 * 1024"
definition MAX_RULE_POLICIES :: nat where "MAX_RULE_POLICIES = 8192"
definition MAX_SIMILARITY_PROFILES :: nat where "MAX_SIMILARITY_PROFILES = 512"
definition MAX_PROVENANCE_RECORDS :: nat where "MAX_PROVENANCE_RECORDS = 64"
definition MAX_BUNDLE_ID_BYTES :: nat where "MAX_BUNDLE_ID_BYTES = 128"
definition MAX_THREAT_NAME_BYTES :: nat where "MAX_THREAT_NAME_BYTES = 160"
definition MAX_FAMILY_BYTES :: nat where "MAX_FAMILY_BYTES = 96"
definition MAX_NAMESPACE_BYTES :: nat where "MAX_NAMESPACE_BYTES = 64"
definition MAX_RULE_IDENTIFIER_BYTES :: nat where "MAX_RULE_IDENTIFIER_BYTES = 128"
definition MAX_DESCRIPTION_BYTES :: nat where "MAX_DESCRIPTION_BYTES = 512"
definition COMPACT_PAYLOAD_MAGIC :: bytes where "COMPACT_PAYLOAD_MAGIC = bytes_of ''BLACKSHARD-CDB3'' @ [0]"
definition COMPACT_PAYLOAD_PREFIX_BYTES :: nat where "COMPACT_PAYLOAD_PREFIX_BYTES = 16 + 4 + 8"

section \<open>Data\<close>

record exact_hash_definition =
  xd_sha256 :: string
  xd_threat_name :: string
  xd_family :: "string option"

record definition_rule_policy =
  dp_identifier :: string
  dp_disposition :: rule_disposition
  dp_risk_score :: nat
  dp_threat_name :: string
  dp_description :: string

record definition_rule_bundle =
  dr_namespace :: string
  dr_source :: string
  dr_policies :: "definition_rule_policy list"

record definition_similarity_profile =
  ds_identifier :: string
  ds_threat_name :: string
  ds_family :: "string option"
  ds_minimum_file_size :: nat
  ds_maximum_file_size :: nat
  ds_minimum_similarity :: nat
  ds_sketch :: "string list"

record definition_provenance =
  pv_provider :: string
  pv_source_url :: string
  pv_retrieved_at :: time
  pv_content_sha256 :: string
  pv_license :: string

record definition_bundle =
  bu_schema_version :: nat
  bu_bundle_id :: string
  bu_exact_sha256 :: "exact_hash_definition list"
  bu_yara_bundles :: "definition_rule_bundle list"
  bu_similarity_profiles :: "definition_similarity_profile list"
  bu_sources :: "definition_provenance list"

record compact_header =
  ch_schema_version :: nat
  ch_bundle :: definition_bundle
  ch_count :: nat
  ch_threat_name :: string
  ch_family :: "string option"

record definition_payload =
  pl_bundle :: definition_bundle
  pl_compact_sha256 :: "bytes list"
  pl_compact_threat_name :: "string option"
  pl_compact_family :: "string option"

text \<open>\<open>Panicked\<close> stands for an \<^verbatim>\<open>expect\<close> that fails.\<close>

datatype definition_error =
  BundleTooLarge nat nat | SchemaUnsupported nat | BadSerialization | InvalidField string | LimitExceeded string nat nat
  | DuplicateField string | StorageFailed | CompilationFailed | Panicked

text \<open>The crates: the URL parser and the signature check of the updater, the JSON codecs, the rule compiler.\<close>

record 'r definition_env =
  df_update :: update_env
  df_bundle_of_json :: "bytes \<Rightarrow> definition_bundle option"
  df_bundle_to_json :: "definition_bundle \<Rightarrow> bytes option"
  df_header_of_json :: "bytes \<Rightarrow> compact_header option"
  df_header_to_json :: "compact_header \<Rightarrow> bytes option"
  df_builtin_source :: string
  df_compiles :: "(string \<times> string) list \<Rightarrow> bool"
  df_built :: "(string \<times> string) list \<Rightarrow> 'r"

section \<open>Validation\<close>

definition and_then :: "'e + unit \<Rightarrow> 'e + 'a \<Rightarrow> 'e + 'a" where
  "and_then a b = (case a of Inl e \<Rightarrow> Inl e | Inr _ \<Rightarrow> b)"

definition refuse :: "bool \<Rightarrow> 'e \<Rightarrow> 'e + unit" where
  "refuse c e = (if c then Inl e else Inr ())"

lemma and_then_Inr [simp]: "and_then a b = Inr x \<longleftrightarrow> a = Inr () \<and> b = Inr x"
  by (auto simp: and_then_def split: sum.split)

lemma refuse_Inr [simp]: "refuse c e = Inr () \<longleftrightarrow> \<not> c"
  by (simp add: refuse_def)

definition is_ascii_alphabetic :: "byte \<Rightarrow> bool" where
  "is_ascii_alphabetic b \<longleftrightarrow> (65 \<le> b \<and> b \<le> 90) \<or> (97 \<le> b \<and> b \<le> 122)"

definition validate_sha256 :: "string \<Rightarrow> bool" where
  "validate_sha256 v \<longleftrightarrow> length v = 64 \<and> list_all (\<lambda>c. is_hex_char (of_char c)) v"

definition validate_text :: "string \<Rightarrow> string \<Rightarrow> nat \<Rightarrow> definition_error + unit" where
  "validate_text field v maximum =
     (if v = [] \<or> length v > maximum then Inl (InvalidField field)
      else let t = chars (bytes_of v) in
        if trim_text t \<noteq> t then Inl (InvalidField field)
        else if list_ex is_control_char t then Inl (InvalidField field)
        else Inr ())"

definition validate_token :: "string \<Rightarrow> string \<Rightarrow> nat \<Rightarrow> bytes \<Rightarrow> definition_error + unit" where
  "validate_token field v maximum punctuation =
     (if v = [] \<or> length v > maximum \<or> \<not> list_all (\<lambda>b. is_ascii_alphanumeric b \<or> b \<in> set punctuation) (bytes_of v)
      then Inl (InvalidField field) else Inr ())"

definition validate_identifier :: "string \<Rightarrow> string \<Rightarrow> nat \<Rightarrow> bool \<Rightarrow> definition_error + unit" where
  "validate_identifier field v maximum allow_hyphen =
     (if v = [] \<or> length v > maximum then Inl (InvalidField field)
      else let bs = bytes_of v; first = hd bs in
        if \<not> (is_ascii_alphabetic first \<or> first = byte_of CHR ''_'') \<or>
           \<not> list_all (\<lambda>b. is_ascii_alphanumeric b \<or> b = byte_of CHR ''_'' \<or> (allow_hyphen \<and> b = byte_of CHR ''-'')) (tl bs)
        then Inl (InvalidField field) else Inr ())"

definition check_count :: "string \<Rightarrow> nat \<Rightarrow> nat \<Rightarrow> definition_error + unit" where
  "check_count field actual maximum = (if actual > maximum then Inl (LimitExceeded field actual maximum) else Inr ())"

definition validate_family :: "string \<Rightarrow> string option \<Rightarrow> definition_error + unit" where
  "validate_family field family = (case family of None \<Rightarrow> Inr () | Some f \<Rightarrow> validate_text field f MAX_FAMILY_BYTES)"

definition validate_policy_score :: "definition_rule_policy \<Rightarrow> definition_error + unit" where
  "validate_policy_score p =
     (if (case dp_disposition p of
            InformationalRule \<Rightarrow> dp_risk_score p \<le> 25
          | SuspiciousRule \<Rightarrow> 1 \<le> dp_risk_score p \<and> dp_risk_score p \<le> 99
          | MaliciousRule \<Rightarrow> 95 \<le> dp_risk_score p \<and> dp_risk_score p \<le> 100)
      then Inr () else Inl (InvalidField ''policies.risk_score''))"

text \<open>Each loop carries the set of what it has seen.\<close>

fun validate_sources :: "update_env \<Rightarrow> string list \<Rightarrow> definition_provenance list \<Rightarrow> definition_error + unit" where
  "validate_sources env seen [] = Inr ()"
| "validate_sources env seen (s # rest) =
     and_then (validate_token ''sources.provider'' (pv_provider s) 96 (bytes_of ''._-''))
     (case parse_url env (bytes_of (pv_source_url s)) of
        None \<Rightarrow> Inl (InvalidField ''sources.source_url'')
      | Some u \<Rightarrow>
          and_then (refuse (\<not> is_https u) (InvalidField ''sources.source_url''))
          (and_then (refuse (\<not> validate_sha256 (pv_content_sha256 s)) (InvalidField ''sources.content_sha256''))
          (and_then (validate_text ''sources.license'' (pv_license s) 256)
          (let identity = pv_provider s @ [CHR 0x00] @ pv_source_url s @ [CHR 0x00] @ pv_content_sha256 s in
             if identity \<in> set seen then Inl (DuplicateField ''sources'')
             else validate_sources env (identity # seen) rest))))"

fun validate_sketch :: "nat option \<Rightarrow> string list \<Rightarrow> definition_error + unit" where
  "validate_sketch previous [] = Inr ()"
| "validate_sketch previous (v # rest) =
     (if length v \<noteq> 16 \<or> \<not> list_all (\<lambda>c. is_hex_char (of_char c)) v \<or> list_ex (\<lambda>b. 65 \<le> b \<and> b \<le> 90) (bytes_of v)
      then Inl (InvalidField ''similarity_profiles.sketch'')
      else case from_str_radix 16 u64_max v of
        None \<Rightarrow> Inl (InvalidField ''similarity_profiles.sketch'')
      | Some parsed \<Rightarrow>
          if (case previous of None \<Rightarrow> False | Some prior \<Rightarrow> prior \<ge> parsed) then Inl (InvalidField ''similarity_profiles.sketch'')
          else validate_sketch (Some parsed) rest)"

fun validate_profiles :: "string list \<Rightarrow> definition_similarity_profile list \<Rightarrow> definition_error + unit" where
  "validate_profiles seen [] = Inr ()"
| "validate_profiles seen (p # rest) =
     and_then (validate_identifier ''similarity_profiles.identifier'' (ds_identifier p) MAX_RULE_IDENTIFIER_BYTES False)
     (and_then (refuse (ds_identifier p \<in> set seen) (DuplicateField ''similarity_profiles.identifier''))
     (and_then (validate_text ''similarity_profiles.threat_name'' (ds_threat_name p) MAX_THREAT_NAME_BYTES)
     (and_then (validate_family ''similarity_profiles.family'' (ds_family p))
     (and_then (refuse (ds_minimum_file_size p < MIN_SKETCH_BYTES \<or> ds_maximum_file_size p < ds_minimum_file_size p \<or>
                        ds_maximum_file_size p > 64 * 1024 * 1024) (InvalidField ''similarity_profiles.file_size''))
     (and_then (refuse (\<not> (8500 \<le> ds_minimum_similarity p \<and> ds_minimum_similarity p \<le> 10000))
                  (InvalidField ''similarity_profiles.minimum_similarity_basis_points''))
     (and_then (refuse (length (ds_sketch p) \<noteq> SKETCH_SIZE) (InvalidField ''similarity_profiles.sketch''))
     (and_then (validate_sketch None (ds_sketch p))
       (validate_profiles (ds_identifier p # seen) rest))))))))"

fun validate_exact :: "string list \<Rightarrow> exact_hash_definition list \<Rightarrow> definition_error + unit" where
  "validate_exact seen [] = Inr ()"
| "validate_exact seen (s # rest) =
     and_then (refuse (\<not> validate_sha256 (xd_sha256 s)) (InvalidField ''exact_sha256.sha256''))
     (and_then (refuse (lower (xd_sha256 s) \<in> set seen) (DuplicateField ''exact_sha256.sha256''))
     (and_then (validate_text ''exact_sha256.threat_name'' (xd_threat_name s) MAX_THREAT_NAME_BYTES)
     (and_then (validate_family ''exact_sha256.family'' (xd_family s))
       (validate_exact (lower (xd_sha256 s) # seen) rest))))"

fun validate_policies :: "string list \<Rightarrow> definition_rule_policy list \<Rightarrow> definition_error + unit" where
  "validate_policies seen [] = Inr ()"
| "validate_policies seen (p # rest) =
     and_then (validate_identifier ''policies.identifier'' (dp_identifier p) MAX_RULE_IDENTIFIER_BYTES False)
     (and_then (refuse (dp_identifier p \<in> set seen) (DuplicateField ''policies.identifier''))
     (and_then (validate_text ''policies.threat_name'' (dp_threat_name p) MAX_THREAT_NAME_BYTES)
     (and_then (validate_text ''policies.description'' (dp_description p) MAX_DESCRIPTION_BYTES)
     (and_then (validate_policy_score p)
       (validate_policies (dp_identifier p # seen) rest)))))"

text \<open>The totals are added with a check; with the limits behind it the check never fails.\<close>

definition add_limited :: "string \<Rightarrow> nat \<Rightarrow> nat \<Rightarrow> nat \<Rightarrow> definition_error + nat" where
  "add_limited field a b maximum =
     (case checked_add usize_max a b of
        None \<Rightarrow> Inl (LimitExceeded field usize_max maximum)
      | Some s \<Rightarrow> if s > maximum then Inl (LimitExceeded field s maximum) else Inr s)"

fun validate_rule_bundles :: "string list \<Rightarrow> nat \<Rightarrow> nat \<Rightarrow> definition_rule_bundle list \<Rightarrow> definition_error + unit" where
  "validate_rule_bundles seen source_bytes policies [] = Inr ()"
| "validate_rule_bundles seen source_bytes policies (b # rest) =
     and_then (validate_identifier ''yara_bundles.namespace'' (dr_namespace b) MAX_NAMESPACE_BYTES True)
     (and_then (refuse (dr_namespace b = BUILTIN_NAMESPACE) (InvalidField ''yara_bundles.namespace''))
     (and_then (refuse (dr_namespace b \<in> set seen) (DuplicateField ''yara_bundles.namespace''))
     (and_then (refuse (dr_source b = [] \<or> CHR 0x00 \<in> set (dr_source b)) (InvalidField ''yara_bundles.source''))
     (and_then (check_count ''yara_bundles.source_bytes'' (length (dr_source b)) MAX_YARA_SOURCE_BYTES)
     (case add_limited ''total_yara_source_bytes'' source_bytes (length (dr_source b)) MAX_TOTAL_YARA_SOURCE_BYTES of
        Inl e \<Rightarrow> Inl e
      | Inr source_bytes \<Rightarrow>
          (case add_limited ''total_rule_policies'' policies (length (dr_policies b)) MAX_RULE_POLICIES of
             Inl e \<Rightarrow> Inl e
           | Inr policies \<Rightarrow>
               and_then (validate_policies [] (dr_policies b))
                 (validate_rule_bundles (dr_namespace b # seen) source_bytes policies rest)))))))"

definition bundle_validate :: "update_env \<Rightarrow> definition_bundle \<Rightarrow> definition_error + unit" where
  "bundle_validate env b =
     and_then (refuse (bu_schema_version b \<noteq> DEFINITION_SCHEMA_VERSION) (SchemaUnsupported (bu_schema_version b)))
     (and_then (validate_token ''bundle_id'' (bu_bundle_id b) MAX_BUNDLE_ID_BYTES (bytes_of ''._-''))
     (and_then (check_count ''exact_sha256'' (length (bu_exact_sha256 b)) MAX_EXACT_SIGNATURES)
     (and_then (check_count ''yara_bundles'' (length (bu_yara_bundles b)) MAX_YARA_BUNDLES)
     (and_then (check_count ''similarity_profiles'' (length (bu_similarity_profiles b)) MAX_SIMILARITY_PROFILES)
     (and_then (check_count ''sources'' (length (bu_sources b)) MAX_PROVENANCE_RECORDS)
     (and_then (refuse (bu_exact_sha256 b = [] \<and> bu_yara_bundles b = [] \<and> bu_similarity_profiles b = []) (InvalidField ''bundle''))
     (and_then (validate_sources env [] (bu_sources b))
     (and_then (validate_profiles [] (bu_similarity_profiles b))
     (and_then (validate_exact [] (bu_exact_sha256 b))
       (validate_rule_bundles [] 0 0 (bu_yara_bundles b)))))))))))"

definition bundle_from_json :: "'r definition_env \<Rightarrow> bytes \<Rightarrow> definition_error + definition_bundle" where
  "bundle_from_json env bs =
     (if length bs > MAX_DEFINITION_BUNDLE_BYTES then Inl (BundleTooLarge (length bs) MAX_DEFINITION_BUNDLE_BYTES)
      else case df_bundle_of_json env bs of
        None \<Rightarrow> Inl BadSerialization
      | Some b \<Rightarrow> and_then (bundle_validate (df_update env) b) (Inr b))"

definition bundle_to_json :: "'r definition_env \<Rightarrow> definition_bundle \<Rightarrow> definition_error + bytes" where
  "bundle_to_json env b =
     and_then (bundle_validate (df_update env) b)
     (case df_bundle_to_json env b of
        None \<Rightarrow> Inl BadSerialization
      | Some bs \<Rightarrow>
          if length bs > MAX_DEFINITION_BUNDLE_BYTES then Inl (BundleTooLarge (length bs) MAX_DEFINITION_BUNDLE_BYTES) else Inr bs)"

section \<open>The compact payload\<close>

text \<open>Big-endian numbers, and the digests, 32 bytes each; what is left over is not looked at.\<close>

definition be_value :: "bytes \<Rightarrow> nat" where
  "be_value bs = foldl (\<lambda>n b. n * 256 + unat b) 0 bs"

fun digest_chunks :: "bytes \<Rightarrow> bytes list" where
  "digest_chunks bs = (if length bs < 32 then [] else take 32 bs # digest_chunks (drop 32 bs))"

declare digest_chunks.simps [simp del]

definition unsorted :: "bytes list \<Rightarrow> bool" where
  "unsorted digests \<longleftrightarrow> list_ex (\<lambda>w. w ! 0 \<ge> w ! 1) (windows 2 digests)"

definition payload_from_bytes :: "'r definition_env \<Rightarrow> bytes \<Rightarrow> definition_error + definition_payload" where
  "payload_from_bytes env bs =
     (if \<not> starts_with bs COMPACT_PAYLOAD_MAGIC
      then (case bundle_from_json env bs of
              Inl e \<Rightarrow> Inl e
            | Inr b \<Rightarrow> Inr \<lparr>pl_bundle = b, pl_compact_sha256 = [], pl_compact_threat_name = None, pl_compact_family = None\<rparr>)
      else if length bs > MAX_DEFINITION_PAYLOAD_BYTES then Inl (BundleTooLarge (length bs) MAX_DEFINITION_PAYLOAD_BYTES)
      else if length bs < COMPACT_PAYLOAD_PREFIX_BYTES then Inl BadSerialization
      else let header_length = be_value (slice bs 16 20); count = be_value (slice bs 20 28) in
        if count > MAX_COMPACT_SHA256_SIGNATURES then Inl (LimitExceeded ''compact_sha256'' count MAX_COMPACT_SHA256_SIGNATURES)
        else if header_length > MAX_DEFINITION_BUNDLE_BYTES then Inl (BundleTooLarge header_length MAX_DEFINITION_BUNDLE_BYTES)
        else let digest_bytes = count * 32; expected_length = COMPACT_PAYLOAD_PREFIX_BYTES + header_length + digest_bytes in
          if digest_bytes > usize_max \<or> expected_length > usize_max then Inl BadSerialization
          else if length bs \<noteq> expected_length then Inl BadSerialization
          else let header_end = COMPACT_PAYLOAD_PREFIX_BYTES + header_length in
            case df_header_of_json env (slice bs COMPACT_PAYLOAD_PREFIX_BYTES header_end) of
              None \<Rightarrow> Inl BadSerialization
            | Some h \<Rightarrow>
                if ch_schema_version h \<noteq> COMPACT_DEFINITION_SCHEMA_VERSION then Inl (SchemaUnsupported (ch_schema_version h))
                else if ch_count h \<noteq> count then Inl (InvalidField ''compact_sha256.count'')
                else and_then (bundle_validate (df_update env) (ch_bundle h))
                  (and_then (validate_text ''compact_sha256.threat_name'' (ch_threat_name h) MAX_THREAT_NAME_BYTES)
                  (and_then (validate_family ''compact_sha256.family'' (ch_family h))
                  (if count = 0 then Inl (InvalidField ''compact_sha256'')
                   else let digests = digest_chunks (drop header_end bs) in
                     if unsorted digests then Inl (InvalidField ''compact_sha256'')
                     else Inr \<lparr>pl_bundle = ch_bundle h, pl_compact_sha256 = digests,
                                pl_compact_threat_name = Some (ch_threat_name h), pl_compact_family = ch_family h\<rparr>))))"

definition to_compact_bytes :: "'r definition_env \<Rightarrow> definition_bundle \<Rightarrow> bytes list \<Rightarrow> string \<Rightarrow> string option \<Rightarrow>
    definition_error + bytes" where
  "to_compact_bytes env b digests name family =
     and_then (bundle_validate (df_update env) b)
     (if digests = [] \<or> length digests > MAX_COMPACT_SHA256_SIGNATURES
      then Inl (LimitExceeded ''compact_sha256'' (length digests) MAX_COMPACT_SHA256_SIGNATURES)
      else if unsorted digests then Inl (InvalidField ''compact_sha256'')
      else and_then (validate_text ''compact_sha256.threat_name'' name MAX_THREAT_NAME_BYTES)
        (and_then (validate_family ''compact_sha256.family'' family)
        (case df_header_to_json env \<lparr>ch_schema_version = COMPACT_DEFINITION_SCHEMA_VERSION, ch_bundle = b,
                ch_count = length digests, ch_threat_name = name, ch_family = family\<rparr> of
           None \<Rightarrow> Inl BadSerialization
         | Some header_bytes \<Rightarrow>
             if length header_bytes > MAX_DEFINITION_BUNDLE_BYTES
             then Inl (BundleTooLarge (length header_bytes) MAX_DEFINITION_BUNDLE_BYTES)
             else let room = COMPACT_PAYLOAD_PREFIX_BYTES + length header_bytes + min (length digests * 32) usize_max in
               if room > MAX_DEFINITION_PAYLOAD_BYTES then Inl (BundleTooLarge room MAX_DEFINITION_PAYLOAD_BYTES)
               else Inr (COMPACT_PAYLOAD_MAGIC @ be_bytes 4 (length header_bytes) @ be_bytes 8 (length digests) @
                         header_bytes @ concat digests))))"

section \<open>Building an engine\<close>

text \<open>What a new engine finds on the machine.\<close>

record 'a machine =
  mc_amsi :: "(bytes \<Rightarrow> amsi_verdict option) option"
  mc_native_index :: "'a native_index"
  mc_shards :: shard_store

definition detection_engine_new :: "'a machine \<Rightarrow> scan_engine \<Rightarrow> 'r rule_engine \<Rightarrow> ('r, 'a) detection_engine" where
  "detection_engine_new mc se re =
     \<lparr>static_engine = se, rules = re, similarity = [], amsi = mc_amsi mc, native_index = mc_native_index mc, shards = mc_shards mc\<rparr>"

definition profile_of :: "definition_similarity_profile \<Rightarrow> similarity_profile option" where
  "profile_of p =
     (case those (map (from_str_radix 16 u64_max) (ds_sketch p)) of
        None \<Rightarrow> None
      | Some numbers \<Rightarrow>
          if length numbers \<noteq> SKETCH_SIZE then None
          else Some \<lparr>sp_identifier = ds_identifier p, sp_threat_name = ds_threat_name p, sp_family = ds_family p,
                     sp_minimum_file_size = ds_minimum_file_size p, sp_maximum_file_size = ds_maximum_file_size p,
                     sp_minimum_similarity = ds_minimum_similarity p, sp_sketch = map word_of_nat numbers\<rparr>)"

definition rule_bundle_of :: "definition_rule_bundle \<Rightarrow> rule_bundle" where
  "rule_bundle_of b =
     \<lparr>rb_namespace = dr_namespace b, rb_source = dr_source b,
      rb_policies = map (\<lambda>p. \<lparr>rp_identifier = dp_identifier p, rp_disposition = dp_disposition p, rp_risk_score = dp_risk_score p,
        rp_threat_name = dp_threat_name p\<rparr>) (dr_policies b)\<rparr>"

fun insert_exact :: "exact_hash_definition list \<Rightarrow> signature_database \<Rightarrow> definition_error + signature_database" where
  "insert_exact [] db = Inr db"
| "insert_exact (s # rest) db =
     (case insert_sha256_hex db (xd_sha256 s) (xd_threat_name s) (xd_family s) of
        Inl _ \<Rightarrow> Inl (InvalidField ''exact_sha256.sha256'')
      | Inr (replaced, db) \<Rightarrow>
          if replaced \<noteq> None then Inl (DuplicateField ''exact_sha256.sha256 (including built-ins)'') else insert_exact rest db)"

definition insert_compact :: "definition_payload \<Rightarrow> signature_database \<Rightarrow> definition_error + signature_database" where
  "insert_compact d db =
     (if pl_compact_sha256 d = [] then Inr db
      else case pl_compact_threat_name d of
        None \<Rightarrow> Inl Panicked
      | Some name \<Rightarrow>
          (case replace_compact_sha256 db (pl_compact_sha256 d) name (pl_compact_family d) of
             Inl _ \<Rightarrow> Inl (InvalidField ''compact_sha256'')
           | Inr db \<Rightarrow> Inr db))"

definition build_builtin_engine :: "'r definition_env \<Rightarrow> 'a machine \<Rightarrow> scan_config \<Rightarrow> definition_error + ('r, 'a) detection_engine" where
  "build_builtin_engine env mc cfg =
     (case engine_new cfg db_default of
        Inl _ \<Rightarrow> Inl CompilationFailed
      | Inr se \<Rightarrow>
          (case rules_compile (df_builtin_source env) (df_compiles env) (df_built env) [] of
             None \<Rightarrow> Inl CompilationFailed
           | Some re \<Rightarrow> Inr (detection_engine_new mc se re)))"

definition build_authenticated_engine :: "'r definition_env \<Rightarrow> 'a machine \<Rightarrow> definition_payload \<Rightarrow> scan_config \<Rightarrow>
    definition_error + ('r, 'a) detection_engine" where
  "build_authenticated_engine env mc d cfg =
     (let b = pl_bundle d in
      and_then (bundle_validate (df_update env) b)
      (case those (map profile_of (bu_similarity_profiles b)) of
         None \<Rightarrow> Inl Panicked
       | Some profiles \<Rightarrow>
           (case similarity_new profiles of
              Inl _ \<Rightarrow> Inl CompilationFailed
            | Inr sim \<Rightarrow>
                (case insert_exact (bu_exact_sha256 b) db_default of
                   Inl e \<Rightarrow> Inl e
                 | Inr db \<Rightarrow>
                     (case insert_compact d db of
                        Inl e \<Rightarrow> Inl e
                      | Inr db \<Rightarrow>
                          (case engine_new cfg db of
                             Inl _ \<Rightarrow> Inl CompilationFailed
                           | Inr se \<Rightarrow>
                               (case rules_compile (df_builtin_source env) (df_compiles env) (df_built env)
                                       (map rule_bundle_of (bu_yara_bundles b)) of
                                  None \<Rightarrow> Inl CompilationFailed
                                | Some re \<Rightarrow> Inr ((detection_engine_new mc se re)\<lparr>similarity := sim\<rparr>))))))))"

section \<open>Loading\<close>

datatype definition_candidate = Current | LastKnownGood
datatype issue_stage = PointerState | Storage | Authentication | Validation | Compilation

datatype definition_source =
  BuiltIn
| FromCurrent nat bytes string time
| FromLastKnownGood nat bytes string time

datatype runtime_freshness = FreshnessBuiltIn | Fresh time | ExpiredSince time

definition source_expires_at :: "definition_source \<Rightarrow> time option" where
  "source_expires_at s =
     (case s of BuiltIn \<Rightarrow> None | FromCurrent _ _ _ t \<Rightarrow> Some t | FromLastKnownGood _ _ _ t \<Rightarrow> Some t)"

definition source_freshness :: "definition_source \<Rightarrow> time \<Rightarrow> runtime_freshness" where
  "source_freshness s now =
     (case source_expires_at s of
        None \<Rightarrow> FreshnessBuiltIn
      | Some t \<Rightarrow> if time_le t now then ExpiredSince t else Fresh t)"

definition source_is_expired :: "definition_source \<Rightarrow> time \<Rightarrow> bool" where
  "source_is_expired s now = (case source_freshness s now of ExpiredSince _ \<Rightarrow> True | _ \<Rightarrow> False)"

definition read_bounded_regular :: "stored_file \<Rightarrow> nat \<Rightarrow> definition_error + bytes" where
  "read_bounded_regular f maximum =
     (case f of
        Holds bs \<Rightarrow> if length bs > maximum then Inl (BundleTooLarge (length bs) maximum) else Inr bs
      | _ \<Rightarrow> Inl StorageFailed)"

text \<open>The files of a pointer are those of its version directory.\<close>

definition version_of :: "update_disk \<Rightarrow> activation_pointer \<Rightarrow> version_directory" where
  "version_of d p =
     (case versions d (version_directory_name (ap_sequence p) (ap_payload_sha256 p)) of
        None \<Rightarrow> \<lparr>vd_is_directory = False, vd_envelope = NoFile, vd_payload = NoFile\<rparr>
      | Some v \<Rightarrow> v)"

definition second_before :: "time \<Rightarrow> time" where
  "second_before t = (fst t - 1, snd t)"

text \<open>An installed update that has expired since is judged as of the second before it expired.\<close>

definition verify_installed :: "'r definition_env \<Rightarrow> envelope \<Rightarrow> bytes \<Rightarrow> nat \<Rightarrow> time \<Rightarrow> bytes \<Rightarrow> update_error + verified_update" where
  "verify_installed env e payload installed now key =
     (case verify_update (df_update env) e payload installed now MAX_DEFINITION_PAYLOAD_BYTES key of
        Inl (Expired t) \<Rightarrow> verify_update (df_update env) e payload installed (second_before t) MAX_DEFINITION_PAYLOAD_BYTES key
      | other \<Rightarrow> other)"

definition pointer_matches :: "manifest \<Rightarrow> activation_pointer \<Rightarrow> bool" where
  "pointer_matches m p \<longleftrightarrow>
     mf_sequence m = ap_sequence p \<and> mf_version m = ap_version p \<and> mf_expires_at m = ap_expires_at p \<and>
     eq_ignore_case_bytes (mf_payload_sha256 m) (ap_payload_sha256 p)"

definition load_active_candidate :: "'r definition_env \<Rightarrow> 'a machine \<Rightarrow> update_disk \<Rightarrow> activation_pointer \<Rightarrow> time \<Rightarrow> bytes \<Rightarrow> scan_config \<Rightarrow>
    issue_stage + ('r, 'a) detection_engine \<times> string" where
  "load_active_candidate env mc d active now key cfg =
     (case read_bounded_regular (vd_payload (version_of d active)) MAX_DEFINITION_PAYLOAD_BYTES of
        Inl _ \<Rightarrow> Inl Storage
      | Inr payload \<Rightarrow>
          (case read_bounded_regular (vd_envelope (version_of d active)) MAX_ENVELOPE_BYTES of
             Inl _ \<Rightarrow> Inl Storage
           | Inr envelope_bytes \<Rightarrow>
               (case envelope_from_json (df_update env) envelope_bytes of
                  Inl _ \<Rightarrow> Inl Authentication
                | Inr e \<Rightarrow>
                    (case verify_installed env e payload (ap_sequence active - 1) now key of
                       Inl _ \<Rightarrow> Inl Authentication
                     | Inr vu \<Rightarrow>
                         if \<not> pointer_matches (vu_manifest vu) active then Inl Authentication
                         else (case payload_from_bytes env payload of
                                 Inl _ \<Rightarrow> Inl Validation
                               | Inr definitions \<Rightarrow>
                                   (case build_authenticated_engine env mc definitions cfg of
                                      Inl _ \<Rightarrow> Inl Compilation
                                    | Inr engine \<Rightarrow> Inr (engine, bu_bundle_id (pl_bundle definitions))))))))"

definition source_of :: "definition_candidate \<Rightarrow> activation_pointer \<Rightarrow> string \<Rightarrow> definition_source" where
  "source_of candidate active bundle_id =
     (case candidate of
        Current \<Rightarrow> FromCurrent (ap_sequence active) (ap_version active) bundle_id (ap_expires_at active)
      | LastKnownGood \<Rightarrow> FromLastKnownGood (ap_sequence active) (ap_version active) bundle_id (ap_expires_at active))"

record ('r, 'a) load_outcome =
  lo_engine :: "('r, 'a) detection_engine"
  lo_source :: definition_source
  lo_issues :: "(definition_candidate \<times> issue_stage) list"

text \<open>The candidates in turn, with the issues so far.\<close>

fun load_candidates :: "'r definition_env \<Rightarrow> 'a machine \<Rightarrow> update_disk \<Rightarrow> time \<Rightarrow> bytes \<Rightarrow> scan_config \<Rightarrow> definition_candidate list \<Rightarrow>
    (definition_candidate \<times> issue_stage) list \<Rightarrow> definition_error + ('r, 'a) load_outcome" where
  "load_candidates env mc d now key cfg [] issues =
     (case build_builtin_engine env mc cfg of
        Inl e \<Rightarrow> Inl e
      | Inr engine \<Rightarrow> Inr \<lparr>lo_engine = engine, lo_source = BuiltIn, lo_issues = issues\<rparr>)"
| "load_candidates env mc d now key cfg (candidate # rest) issues =
     (case read_pointer (df_update env) (case candidate of Current \<Rightarrow> current_pointer d | LastKnownGood \<Rightarrow> previous_pointer d) of
        Inl _ \<Rightarrow> load_candidates env mc d now key cfg rest (issues @ [(candidate, PointerState)])
      | Inr None \<Rightarrow> load_candidates env mc d now key cfg rest issues
      | Inr (Some active) \<Rightarrow>
          (case load_active_candidate env mc d active now key cfg of
             Inr (engine, bundle_id) \<Rightarrow>
               Inr \<lparr>lo_engine = engine, lo_source = source_of candidate active bundle_id, lo_issues = issues\<rparr>
           | Inl stage \<Rightarrow> load_candidates env mc d now key cfg rest (issues @ [(candidate, stage)])))"

definition definitions_load :: "'r definition_env \<Rightarrow> 'a machine \<Rightarrow> update_disk \<Rightarrow> time \<Rightarrow> bytes \<Rightarrow> scan_config \<Rightarrow>
    definition_error + ('r, 'a) load_outcome" where
  "definitions_load env mc d now key cfg = load_candidates env mc d now key cfg [Current, LastKnownGood] []"

section \<open>The format of the compact payload\<close>

lemma be_value_append: "be_value (xs @ ys) = be_value xs * 256 ^ length ys + be_value ys"
proof -
  have "foldl (\<lambda>n b. n * 256 + unat b) a ys = a * 256 ^ length ys + foldl (\<lambda>n b. n * 256 + unat b) 0 ys" for a
  proof (induction ys arbitrary: a)
    case (Cons y ys)
    have "foldl (\<lambda>n b. n * 256 + unat b) a (y # ys) = (a * 256 + unat y) * 256 ^ length ys + foldl (\<lambda>n b. n * 256 + unat b) 0 ys"
      using Cons [of "a * 256 + unat y"] by (simp only: foldl_Cons)
    note A = this
    have B: "foldl (\<lambda>n b. n * 256 + unat b) 0 (y # ys) = unat y * 256 ^ length ys + foldl (\<lambda>n b. n * 256 + unat b) 0 ys"
      using Cons [of "0 * 256 + unat y"] by (simp only: foldl_Cons mult_0 add_0)
    show ?case unfolding A B by (simp add: algebra_simps)
  qed simp
  then show ?thesis unfolding be_value_def foldl_append .
qed

lemma be_value_be_bytes: "n < 256 ^ k \<Longrightarrow> be_value (be_bytes k n) = n"
proof (induction k arbitrary: n)
  case (Suc k)
  have small: "n div 256 ^ k < 256" using Suc.prems by (simp add: less_mult_imp_div_less mult.commute)
  have "be_value (be_bytes (Suc k) n) = be_value ([word_of_nat (n div 256 ^ k)] @ be_bytes k (n mod 256 ^ k))" by simp
  also have "\<dots> = n div 256 ^ k * 256 ^ k + n mod 256 ^ k"
    unfolding be_value_append using Suc.IH [of "n mod 256 ^ k"] small by (simp add: be_value_def unat_of_nat)
  also have "\<dots> = n" by (rule div_mult_mod_eq)
  finally show ?case .
qed (simp add: be_value_def)

lemma digest_chunks_concat: "\<forall>d \<in> set ds. length d = 32 \<Longrightarrow> digest_chunks (concat ds) = ds"
  by (induction ds) (subst digest_chunks.simps; simp)+

lemma digest_chunks_length: "d \<in> set (digest_chunks bs) \<Longrightarrow> length d = 32"
proof (induction bs rule: digest_chunks.induct)
  case (1 bs)
  show ?case
  proof (cases "length bs < 32")
    case True
    then show ?thesis using "1.prems" by (subst (asm) digest_chunks.simps) simp
  next
    case False
    then show ?thesis using 1 by (subst (asm) (2) digest_chunks.simps) auto
  qed
qed

lemma digest_chunks_count: "length (digest_chunks bs) = length bs div 32"
proof (induction bs rule: digest_chunks.induct)
  case (1 bs)
  show ?case
  proof (cases "length bs < 32")
    case True
    then show ?thesis by (subst digest_chunks.simps) simp
  next
    case False
    then have "length bs div 32 = Suc ((length bs - 32) div 32)" using le_div_geq [of 32 "length bs"] by simp
    then show ?thesis using 1 False by (subst digest_chunks.simps) simp
  qed
qed

lemma magic_length: "length COMPACT_PAYLOAD_MAGIC = 16"
  by (simp add: COMPACT_PAYLOAD_MAGIC_def bytes_of_def)

text \<open>What the codec of the header promises: what was written is read back.\<close>

definition header_codec :: "'r definition_env \<Rightarrow> bool" where
  "header_codec env \<longleftrightarrow> (\<forall>h bs. df_header_to_json env h = Some bs \<longrightarrow> df_header_of_json env bs = Some h)"

text \<open>
  (C36) A compact payload is read back as it was written: whenever the compiler of definitions produces one,
  reading it gives the bundle, the digests in order, and the name and family of the corpus.
\<close>

theorem compact_payload_roundtrip:
  assumes "to_compact_bytes env b digests name family = Inr bs" and "header_codec env" and "\<forall>d \<in> set digests. length d = 32"
  shows "payload_from_bytes env bs =
    Inr \<lparr>pl_bundle = b, pl_compact_sha256 = digests, pl_compact_threat_name = Some name, pl_compact_family = family\<rparr>"
proof -
  define h where "h = \<lparr>ch_schema_version = COMPACT_DEFINITION_SCHEMA_VERSION, ch_bundle = b,
    ch_count = length digests, ch_threat_name = name, ch_family = family\<rparr>"
  obtain hb where hb: "df_header_to_json env h = Some hb" "length hb \<le> MAX_DEFINITION_BUNDLE_BYTES"
      "bundle_validate (df_update env) b = Inr ()" "validate_text ''compact_sha256.threat_name'' name MAX_THREAT_NAME_BYTES = Inr ()"
      "validate_family ''compact_sha256.family'' family = Inr ()" "\<not> unsorted digests" "digests \<noteq> []"
      "length digests \<le> MAX_COMPACT_SHA256_SIGNATURES"
      "COMPACT_PAYLOAD_PREFIX_BYTES + length hb + min (length digests * 32) usize_max \<le> MAX_DEFINITION_PAYLOAD_BYTES"
      "bs = COMPACT_PAYLOAD_MAGIC @ be_bytes 4 (length hb) @ be_bytes 8 (length digests) @ hb @ concat digests"
    using assms(1) by (auto simp: to_compact_bytes_def h_def Let_def split: if_splits option.splits)
  have few: "length digests \<le> 8000000" using hb(8) by (simp add: MAX_COMPACT_SHA256_SIGNATURES_def)
  have short: "length hb \<le> 16777216" using hb(2) by (simp add: MAX_DEFINITION_BUNDLE_BYTES_def)
  have total: "length (concat digests) = length digests * 32"
    using assms(3) by (induction digests) auto
  have pieces: "slice bs 16 20 = be_bytes 4 (length hb)" "slice bs 20 28 = be_bytes 8 (length digests)"
      "slice bs 28 (28 + length hb) = hb" "drop (28 + length hb) bs = concat digests"
    by (simp_all add: hb(10) slice_def magic_length)
  have numbers: "be_value (be_bytes 4 (length hb)) = length hb" "be_value (be_bytes 8 (length digests)) = length digests"
    using few short by (simp_all add: be_value_be_bytes)
  have len: "length bs = 28 + length hb + length digests * 32" by (simp add: hb(10) magic_length total)
  have reread: "df_header_of_json env hb = Some h" using assms(2) hb(1) by (auto simp: header_codec_def)
  have "starts_with bs COMPACT_PAYLOAD_MAGIC" by (simp add: starts_with_def hb(10))
  moreover have "length bs \<le> MAX_DEFINITION_PAYLOAD_BYTES"
    using hb(9) few by (simp add: len COMPACT_PAYLOAD_PREFIX_BYTES_def MAX_DEFINITION_PAYLOAD_BYTES_def usize_max_def)
  moreover have "length digests * 32 \<le> usize_max \<and> 28 + length hb + length digests * 32 \<le> usize_max"
    using few short by (simp add: usize_max_def)
  ultimately show ?thesis
    using hb(2-8) reread assms(3)
    by (simp add: payload_from_bytes_def Let_def COMPACT_PAYLOAD_PREFIX_BYTES_def pieces numbers len h_def digest_chunks_concat not_less)
qed

text \<open>What holds of every payload that was accepted.\<close>

definition payload_ok :: "update_env \<Rightarrow> definition_payload \<Rightarrow> bool" where
  "payload_ok env d \<longleftrightarrow>
     bundle_validate env (pl_bundle d) = Inr () \<and> sorted_wrt (<) (pl_compact_sha256 d) \<and>
     (\<forall>x \<in> set (pl_compact_sha256 d). length x = 32) \<and> length (pl_compact_sha256 d) \<le> MAX_COMPACT_SHA256_SIGNATURES \<and>
     (pl_compact_sha256 d \<noteq> [] \<longrightarrow> pl_compact_threat_name d \<noteq> None)"

lemma accepted_payload_ok:
  assumes "payload_from_bytes env bs = Inr d"
  shows "payload_ok (df_update env) d"
proof (cases "starts_with bs COMPACT_PAYLOAD_MAGIC")
  case False
  then show ?thesis using assms
    by (auto simp: payload_from_bytes_def payload_ok_def bundle_from_json_def split: sum.splits if_splits option.splits)
next
  case True
  define start where "start = COMPACT_PAYLOAD_PREFIX_BYTES + be_value (slice bs 16 20)"
  define n where "n = be_value (slice bs 20 28)"
  have d: "n \<le> MAX_COMPACT_SHA256_SIGNATURES \<and> length bs = start + n * 32 \<and> bundle_validate (df_update env) (pl_bundle d) = Inr () \<and>
      \<not> unsorted (digest_chunks (drop start bs)) \<and> pl_compact_sha256 d = digest_chunks (drop start bs) \<and> pl_compact_threat_name d \<noteq> None"
    using assms True
    by (auto simp: payload_from_bytes_def Let_def start_def [symmetric] n_def [symmetric] split: if_splits option.splits)
  have "length (digest_chunks (drop start bs)) = n" using d by (simp add: digest_chunks_count)
  then show ?thesis
    using d windows_2_sorted [of "digest_chunks (drop start bs)"] digest_chunks_length by (auto simp: payload_ok_def unsorted_def)
qed

section \<open>What validation guarantees\<close>

lemma validated_sketch:
  "validate_sketch previous vs = Inr () \<Longrightarrow>
     \<exists>ns. those (map (from_str_radix 16 u64_max) vs) = Some ns \<and> length ns = length vs \<and> sorted_wrt (<) ns \<and>
       (\<forall>n \<in> set ns. n \<le> u64_max) \<and> (\<forall>p. previous = Some p \<longrightarrow> (\<forall>n \<in> set ns. p < n))"
proof (induction previous vs rule: validate_sketch.induct)
  case (2 previous v rest)
  obtain n where n: "from_str_radix 16 u64_max v = Some n" "validate_sketch (Some n) rest = Inr ()"
      "\<forall>p. previous = Some p \<longrightarrow> p < n"
    using "2.prems" by (auto split: if_splits option.splits)
  have step: "\<exists>ns. those (map (from_str_radix 16 u64_max) rest) = Some ns \<and> length ns = length rest \<and> sorted_wrt (<) ns \<and>
       (\<forall>n \<in> set ns. n \<le> u64_max) \<and> (\<forall>p. Some n = Some p \<longrightarrow> (\<forall>n \<in> set ns. p < n))"
    by (rule "2.IH") (use "2.prems" n in \<open>auto split: if_splits option.splits\<close>)
  then obtain ns where ns: "those (map (from_str_radix 16 u64_max) rest) = Some ns" "length ns = length rest" "sorted_wrt (<) ns"
      "\<forall>n \<in> set ns. n \<le> u64_max" "\<forall>m \<in> set ns. n < m"
    by auto
  show ?case
    using n ns from_str_radix_le [OF n(1)] by (intro exI [of _ "n # ns"]) (auto dest: less_trans)
qed simp

lemma increasing_words:
  fixes ws :: "'w :: len word list"
  assumes "sorted_wrt (<) ws"
  shows "\<not> list_ex (\<lambda>w. w ! 0 \<ge> w ! 1) (windows 2 ws)"
proof -
  have "slice ws i (i + 2) ! 0 < slice ws i (i + 2) ! 1" if "i + 2 \<le> length ws" for i
    using that assms by (simp add: slice_nth sorted_wrt_iff_nth_less)
  then show ?thesis unfolding list_ex_iff by (auto simp: set_windows not_le)
qed

lemma word_of_increasing: "sorted_wrt (<) ns \<Longrightarrow> \<forall>n \<in> set ns. n \<le> u64_max \<Longrightarrow> sorted_wrt (<) (map word_of_nat ns :: 64 word list)"
  by (induction ns) (auto simp: word_less_nat_alt unat_of_nat u64_max_def)

lemma validated_profile:
  assumes "validate_profiles seen ps = Inr ()" "p \<in> set ps"
  shows "\<exists>q. profile_of p = Some q \<and> \<not> profile_invalid q"
  using assms
proof (induction seen ps rule: validate_profiles.induct)
  case (2 seen p' rest)
  show ?case
  proof (cases "p = p'")
    case True
    then have ok: "validate_sketch None (ds_sketch p) = Inr ()" "length (ds_sketch p) = SKETCH_SIZE"
        "\<not> (ds_minimum_file_size p < MIN_SKETCH_BYTES \<or> ds_maximum_file_size p < ds_minimum_file_size p)"
        "8500 \<le> ds_minimum_similarity p \<and> ds_minimum_similarity p \<le> 10000"
      using "2.prems" by auto
    obtain ns where "those (map (from_str_radix 16 u64_max) (ds_sketch p)) = Some ns" "length ns = SKETCH_SIZE"
        "\<not> list_ex (\<lambda>w. w ! 0 \<ge> w ! 1) (windows 2 (map word_of_nat ns :: 64 word list))"
      using validated_sketch [OF ok(1)] ok(2) increasing_words word_of_increasing by fastforce
    then show ?thesis using ok by (auto simp: profile_of_def profile_invalid_def)
  next
    case False
    then show ?thesis using "2.prems" "2.IH" by auto
  qed
qed simp

lemma those_Some: "(\<And>x. x \<in> set xs \<Longrightarrow> \<exists>y. f x = Some y \<and> P y) \<Longrightarrow> \<exists>ys. those (map f xs) = Some ys \<and> list_all P ys"
  by (induction xs) fastforce+

lemma validated_similarity:
  assumes "validate_profiles [] ps = Inr ()"
  obtains profiles where "those (map profile_of ps) = Some profiles" "similarity_new profiles = Inr profiles"
proof -
  obtain profiles where p: "those (map profile_of ps) = Some profiles" "list_all (\<lambda>q. \<not> profile_invalid q) profiles"
    using those_Some [of ps profile_of] validated_profile [OF assms] by metis
  then have "filter profile_invalid profiles = []" by (simp add: filter_empty_conv list_all_iff)
  then show ?thesis using that p by (simp add: similarity_new_def)
qed

text \<open>Two printed digests that read alike differ at most in the case of their letters.\<close>

lemma hex_nibble_small: "hex_nibble c = Some n \<Longrightarrow> n < 16"
  by (auto simp: hex_nibble_def Let_def split: if_splits)

lemma hex_nibble_char: "hex_nibble c = Some n \<Longrightarrow> lower_char c = char_of (if n < 10 then 48 + n else 87 + n)"
  by (auto simp: hex_nibble_def Shards.lower_char_def Let_def split: if_splits)

lemma byte_of_small: "n < 256 \<Longrightarrow> unat (word_of_nat n :: byte) = n"
  by (simp add: unat_of_nat)

lemma pairs_determine:
  "parse_pairs i a = Inr d \<Longrightarrow> parse_pairs j b = Inr d \<Longrightarrow> length a = length b \<Longrightarrow> even (length a) \<Longrightarrow> lower a = lower b"
proof (induction i a arbitrary: j b d rule: parse_pairs.induct)
  case (1 i h l rest)
  obtain h' l' rest' where b: "b = h' # l' # rest'" using "1.prems"(3) by (cases b; cases "tl b") auto
  obtain hi lo bs where a: "hex_nibble h = Some hi" "hex_nibble l = Some lo" "parse_pairs (i + 1) rest = Inr bs"
      "d = word_of_nat (hi * 16 + lo) # bs"
    using "1.prems"(1) by (auto split: option.splits sum.splits)
  obtain hi' lo' where b': "hex_nibble h' = Some hi'" "hex_nibble l' = Some lo'" "parse_pairs (j + 1) rest' = Inr bs"
      "word_of_nat (hi * 16 + lo) = (word_of_nat (hi' * 16 + lo') :: byte)"
    using "1.prems"(2) unfolding b a(4) by (auto split: option.splits sum.splits)
  note bounds = a(1,2) [THEN hex_nibble_small] b'(1,2) [THEN hex_nibble_small]
  have "hi * 16 + lo < 256" "hi' * 16 + lo' < 256" using bounds by auto
  note unats = this [THEN byte_of_small]
  have "hi * 16 + lo = hi' * 16 + lo'" using unats(1) unfolding b'(4) unats(2) by (rule sym)
  note total = this
  have "hi = (hi * 16 + lo) div 16" "hi' = (hi' * 16 + lo') div 16" using bounds by simp_all
  then have "hi = hi'" using total by simp
  then have same: "hi = hi' \<and> lo = lo'" using total by simp
  have "lower rest = lower rest'"
    using "1.IH" [OF a(1,2) a(3) b'(3)] "1.prems"(3,4) b by simp
  then show ?case
    using hex_nibble_char [OF a(1)] hex_nibble_char [OF a(2)] hex_nibble_char [OF b'(1)] hex_nibble_char [OF b'(2)] same
    by (simp add: b lower_def)
qed (auto simp: lower_def)

lemma hex_char_nibble: "is_hex_char (of_char c) \<Longrightarrow> \<exists>n. hex_nibble c = Some n"
  by (auto simp: is_hex_char_def hex_nibble_def Let_def)

lemma pairs_total: "list_all (\<lambda>c. is_hex_char (of_char c)) v \<Longrightarrow> \<exists>d. parse_pairs i v = Inr d \<and> length d = length v div 2"
proof (induction i v rule: parse_pairs.induct)
  case (1 i h l rest)
  obtain hi lo where n: "hex_nibble h = Some hi" "hex_nibble l = Some lo" using "1.prems" hex_char_nibble by fastforce
  then obtain d where "parse_pairs (i + 1) rest = Inr d" "length d = length rest div 2" using 1 by auto
  then show ?case using n by simp
qed auto

lemma validated_digest:
  assumes "validate_sha256 v"
  obtains d where "parse_sha256_hex v = Inr d" "length d = 32"
  using assms pairs_total [of v 0] by (auto simp: validate_sha256_def parse_sha256_hex_def)

lemma digest_determines: "parse_sha256_hex a = Inr d \<Longrightarrow> parse_sha256_hex b = Inr d \<Longrightarrow> lower a = lower b"
  using pairs_determine [of 0 a d 0 b] by (auto simp: parse_sha256_hex_def split: if_splits)

lemma hm_get_bt_insert [simp]: "hm_get (bt_insert k v m) k' = (if k' = k then Some v else hm_get m k')"
  by (induction k v m rule: bt_insert.induct) (auto simp: hm_get_Cons)

section \<open>Building never fails unexpectedly\<close>

text \<open>The digest that every database holds from the start.\<close>

lemma default_known:
  obtains t s where "parse_sha256_hex BLACKSHARD_SELF_TEST_SHA256 = Inr t" "\<forall>k. hm_get (exact_sha256 db_default) k = (if k = t then Some s else None)"
proof -
  obtain d where "parse_sha256_hex BLACKSHARD_SELF_TEST_SHA256 = Inr d"
    by (simp add: parse_sha256_hex_def BLACKSHARD_SELF_TEST_SHA256_def hex_nibble_def)
  then show ?thesis
    using that [of d "\<lparr>es_name = ''blackshard-harmless-self-test'', es_family = Some ''Test'', es_automatic_quarantine_eligible = True\<rparr>"]
    by (simp add: db_default_def insert_sha256_hex_def db_empty_def hm_get_Cons)
qed

text \<open>After the validation, the named digests are refused only if one of them is already in the database.\<close>

lemma insert_exact_cases:
  assumes "validate_exact seen xs = Inr ()" and "\<forall>k sg. hm_get (exact_sha256 db) k = Some sg \<longrightarrow>
      hm_get (exact_sha256 db0) k \<noteq> None \<or> (\<exists>v. parse_sha256_hex v = Inr k \<and> lower v \<in> set seen)"
  shows "(\<exists>db'. insert_exact xs db = Inr db') \<or>
    insert_exact xs db = Inl (DuplicateField ''exact_sha256.sha256 (including built-ins)'') \<and>
    (\<exists>x \<in> set xs. \<exists>k. parse_sha256_hex (xd_sha256 x) = Inr k \<and> hm_get (exact_sha256 db0) k \<noteq> None)"
  using assms
proof (induction seen xs arbitrary: db rule: validate_exact.induct)
  case (2 seen x rest)
  obtain d where d: "parse_sha256_hex (xd_sha256 x) = Inr d" using "2.prems"(1) validated_digest by auto
  show ?case
  proof (cases "hm_get (exact_sha256 db) d")
    case (Some sg)
    then consider "hm_get (exact_sha256 db0) d \<noteq> None" | v where "parse_sha256_hex v = Inr d" "lower v \<in> set seen"
      using "2.prems"(2) by blast
    then show ?thesis
    proof cases
      case 1
      then show ?thesis using d Some by (auto simp: insert_sha256_hex_def)
    next
      case 2
      then show ?thesis using digest_determines [OF d] "2.prems"(1) by auto
    qed
  next
    case None
    define db1 where "db1 = db\<lparr>exact_sha256 := bt_insert d \<lparr>es_name = xd_threat_name x, es_family = xd_family x,
               es_automatic_quarantine_eligible = True\<rparr> (exact_sha256 db)\<rparr>"
    have step: "insert_exact (x # rest) db = insert_exact rest db1"
      using d None by (simp add: insert_sha256_hex_def db1_def)
    have "(\<exists>db'. insert_exact rest db1 = Inr db') \<or>
      insert_exact rest db1 = Inl (DuplicateField ''exact_sha256.sha256 (including built-ins)'') \<and>
      (\<exists>x \<in> set rest. \<exists>k. parse_sha256_hex (xd_sha256 x) = Inr k \<and> hm_get (exact_sha256 db0) k \<noteq> None)"
    proof (rule "2.IH")
      show "validate_exact (lower (xd_sha256 x) # seen) rest = Inr ()" using "2.prems"(1) by simp
      show "\<forall>k sg. hm_get (exact_sha256 db1) k = Some sg \<longrightarrow> hm_get (exact_sha256 db0) k \<noteq> None \<or>
          (\<exists>v. parse_sha256_hex v = Inr k \<and> lower v \<in> set (lower (xd_sha256 x) # seen))"
        using "2.prems"(2) d by (auto simp: db1_def split: if_splits)
    qed
    then show ?thesis unfolding step by auto
  qed
qed simp

lemma insert_compact_ok:
  assumes "payload_ok env d"
  obtains db' where "insert_compact d db = Inr db'"
proof -
  have "length (pl_compact_sha256 d) \<le> u32_max"
    using assms by (simp add: payload_ok_def MAX_COMPACT_SHA256_SIGNATURES_def u32_max_def)
  then have "\<exists>db'. insert_compact d db = Inr db'"
    using assms windows_2_sorted [of "pl_compact_sha256 d"]
    by (cases "pl_compact_threat_name d") (auto simp: insert_compact_def payload_ok_def replace_compact_sha256_def Let_def)
  then show ?thesis using that by blast
qed

text \<open>
  (C37) Building an engine from definitions that were accepted never panics, and refuses them for two reasons only: they
  name the built-in test digest again, or the configuration or the rules of the bundle do not compile. In particular the
  similarity profiles and the corpus that passed the validation are always taken.
\<close>

theorem accepted_definitions_build:
  assumes "payload_from_bytes env bs = Inr d" and "build_authenticated_engine env mc d cfg = Inl err"
  shows "(err = CompilationFailed \<and>
      (config_validate cfg \<noteq> Inr () \<or>
       rules_compile (df_builtin_source env) (df_compiles env) (df_built env) (map rule_bundle_of (bu_yara_bundles (pl_bundle d))) = None)) \<or>
    (err = DuplicateField ''exact_sha256.sha256 (including built-ins)'' \<and>
      (\<exists>x \<in> set (bu_exact_sha256 (pl_bundle d)). parse_sha256_hex (xd_sha256 x) = parse_sha256_hex BLACKSHARD_SELF_TEST_SHA256))"
proof -
  note ok = accepted_payload_ok [OF assms(1)]
  have valid: "bundle_validate (df_update env) (pl_bundle d) = Inr ()" using ok by (simp add: payload_ok_def)
  then have parts: "validate_profiles [] (bu_similarity_profiles (pl_bundle d)) = Inr ()"
      "validate_exact [] (bu_exact_sha256 (pl_bundle d)) = Inr ()"
    by (simp_all add: bundle_validate_def)
  obtain profiles where sim: "those (map profile_of (bu_similarity_profiles (pl_bundle d))) = Some profiles"
      "similarity_new profiles = Inr profiles"
    using validated_similarity [OF parts(1)] .
  obtain t s where t: "parse_sha256_hex BLACKSHARD_SELF_TEST_SHA256 = Inr t"
      "\<forall>k. hm_get (exact_sha256 db_default) k = (if k = t then Some s else None)"
    by (rule default_known)
  note build = assms(2) [unfolded build_authenticated_engine_def Let_def valid and_then_def sim sum.case option.case]
  consider db where "insert_exact (bu_exact_sha256 (pl_bundle d)) db_default = Inr db"
    | x where "insert_exact (bu_exact_sha256 (pl_bundle d)) db_default = Inl (DuplicateField ''exact_sha256.sha256 (including built-ins)'')"
        "x \<in> set (bu_exact_sha256 (pl_bundle d))" "parse_sha256_hex (xd_sha256 x) = Inr t"
    using insert_exact_cases [OF parts(2), of db_default db_default] t(2) by (auto split: if_splits)
  then show ?thesis
  proof cases
    case 1
    obtain db' where "insert_compact d db = Inr db'" using insert_compact_ok [OF ok] .
    then show ?thesis using build 1 by (auto simp: engine_new_def split: sum.splits option.splits)
  next
    case 2
    then show ?thesis using build t(1) by auto
  qed
qed

section \<open>What a loaded engine knows\<close>

lemma insert_exact_known:
  "insert_exact xs db = Inr db' \<Longrightarrow>
     (\<forall>k. hm_get (exact_sha256 db) k \<noteq> None \<longrightarrow> hm_get (exact_sha256 db') k \<noteq> None) \<and>
     (\<forall>x \<in> set xs. \<exists>k. parse_sha256_hex (xd_sha256 x) = Inr k \<and> hm_get (exact_sha256 db') k \<noteq> None)"
proof (induction xs arbitrary: db)
  case (Cons x xs)
  obtain k db1 where k: "parse_sha256_hex (xd_sha256 x) = Inr k" "insert_exact xs db1 = Inr db'"
      "exact_sha256 db1 = bt_insert k \<lparr>es_name = xd_threat_name x, es_family = xd_family x,
         es_automatic_quarantine_eligible = True\<rparr> (exact_sha256 db)"
    using Cons.prems by (auto simp: insert_sha256_hex_def split: sum.splits if_splits)
  have first: "hm_get (exact_sha256 db1) j \<noteq> None" if "j = k \<or> hm_get (exact_sha256 db) j \<noteq> None" for j
    using that by (auto simp: k(3))
  note later = Cons.IH [OF k(2)]
  show ?case using later first k(1) by auto
qed simp

text \<open>The digests that a payload names, by itself or in its corpus.\<close>

definition names_digest :: "definition_payload \<Rightarrow> bytes \<Rightarrow> bool" where
  "names_digest d k \<longleftrightarrow>
     (\<exists>x \<in> set (bu_exact_sha256 (pl_bundle d)). parse_sha256_hex (xd_sha256 x) = Inr k) \<or> k \<in> set (pl_compact_sha256 d)"

lemma built_engine_knows:
  assumes "build_authenticated_engine env mc d cfg = Inr engine" and "payload_ok uenv d" and "names_digest d k"
  shows "db_lookup (signatures (static_engine engine)) k \<noteq> None"
proof -
  obtain db db' where db: "insert_exact (bu_exact_sha256 (pl_bundle d)) db_default = Inr db" "insert_compact d db = Inr db'"
      "signatures (static_engine engine) = db'"
    using assms(1)
    by (auto simp: build_authenticated_engine_def Let_def engine_new_def detection_engine_new_def split: sum.splits option.splits)
  have kept: "exact_sha256 db' = exact_sha256 db"
    using db(2) by (auto simp: insert_compact_def replace_compact_sha256_def Let_def split: if_splits option.splits)
  show ?thesis
  proof (cases "hm_get (exact_sha256 db) k")
    case (Some sg)
    then show ?thesis by (simp add: db(3) db_lookup_def kept)
  next
    case None
    then have k: "k \<in> set (pl_compact_sha256 d)"
      using assms(3) insert_exact_known [OF db(1)] by (auto simp: names_digest_def)
    have ok: "sorted_wrt (<) (pl_compact_sha256 d)" "\<forall>x \<in> set (pl_compact_sha256 d). length x = 32"
        "length (pl_compact_sha256 d) \<le> u32_max"
      using assms(2) by (simp_all add: payload_ok_def MAX_COMPACT_SHA256_SIGNATURES_def u32_max_def)
    obtain name where "replace_compact_sha256 db (pl_compact_sha256 d) name (pl_compact_family d) = Inr db'"
      using db(2) k by (auto simp: insert_compact_def split: if_splits option.splits sum.splits)
    from lookup_compact [OF ok(1) _ _ ok(3) this, of k] ok(2) k None show ?thesis by (simp add: db(3))
  qed
qed

section \<open>Loading what was installed\<close>

text \<open>What was in time once is in time later, or expired and in time just before that.\<close>

lemma in_time_later:
  assumes "verify_times m now maximum = Inr ()" and "time_le now later" and "fst later + int MAX_UPDATE_CLOCK_SKEW \<le> CHRONO_MAX_SECONDS"
    and "\<not> time_le (mf_expires_at m) (mf_issued_at m)"
  shows "verify_times m later maximum = Inr () \<or>
    verify_times m later maximum = Inl (Expired (mf_expires_at m)) \<and> verify_times m (second_before (mf_expires_at m)) maximum = Inr ()"
proof -
  let ?i = "mf_issued_at m" and ?x = "mf_expires_at m" and ?skew = "int MAX_UPDATE_CLOCK_SKEW"
  have bounded: "checked_add_seconds t MAX_UPDATE_CLOCK_SKEW = Some (fst t + ?skew, snd t)" if "fst t \<le> fst later" for t
    using assms(3) that by (simp add: checked_add_seconds_def)
  have before: "fst now \<le> fst later" using assms(2) by (auto simp: time_le_def)
  obtain latest where now: "\<not> time_less (fst now + ?skew, snd now) ?i" "checked_add_seconds ?i MAX_UPDATE_EXPIRY_HORIZON = Some latest"
      "\<not> time_less latest ?x" "\<not> mf_payload_size m > maximum"
    using assms(1) bounded [OF before] by (auto simp: verify_times_def split: if_splits option.splits)
  have issued: "\<not> time_less (fst later + ?skew, snd later) ?i"
    using now(1) assms(2) by (auto simp: time_less_def time_le_def)
  show ?thesis
  proof (cases "time_le ?x later")
    case False
    then show ?thesis using issued now(2-4) bounded [of later] by (simp add: verify_times_def)
  next
    case True
    have "fst (second_before ?x) \<le> fst later" using True by (auto simp: time_le_def second_before_def)
    note at = bounded [OF this]
    have "\<not> time_less (fst (second_before ?x) + ?skew, snd (second_before ?x)) ?i" "\<not> time_le ?x (second_before ?x)"
      using assms(4) by (auto simp: time_less_def time_le_def second_before_def MAX_UPDATE_CLOCK_SKEW_def)
    then have "verify_times m (second_before ?x) maximum = Inr ()"
      using now(2-4) by (simp add: verify_times_def at)
    then show ?thesis using True issued bounded [of later] by (simp add: verify_times_def)
  qed
qed

lemma installed_verifies:
  assumes "verify_update (df_update env) e payload installed now MAX_DEFINITION_PAYLOAD_BYTES key = Inr v" and "time_le now later"
    and "fst later + int MAX_UPDATE_CLOCK_SKEW \<le> CHRONO_MAX_SECONDS"
  shows "\<exists>v'. verify_installed env e payload (mf_sequence (en_manifest e) - 1) later key = Inr v' \<and> vu_manifest v' = en_manifest e"
proof -
  let ?m = "en_manifest e" and ?u = "df_update env"
  obtain signature message where steps: "validate_manifest_shape ?u ?m = Inr ()" "decode_hex_exact 64 (en_signature e) = Some signature"
      "key_is_valid ?u key" "signing_bytes ?m = Inr message" "verify_strict ?u key message signature"
      "verify_times ?m now MAX_DEFINITION_PAYLOAD_BYTES = Inr ()"
    using assms(1) by (auto simp: verify_update_def verify_manifest_def split: sum.splits option.splits if_splits)
  have shape: "mf_sequence ?m \<noteq> 0" "\<not> time_le (mf_expires_at ?m) (mf_issued_at ?m)"
    using steps(1) by (auto simp: validate_manifest_shape_def split: if_splits)
  have sequence: "\<not> mf_sequence ?m \<le> mf_sequence ?m - 1" using shape(1) by simp
  have fits: "length payload = mf_payload_size ?m" "decode_hex_exact 32 (mf_payload_sha256 ?m) = Some (sha256_digest ?u payload)"
    using verify_update_signed [OF assms(1)] by simp_all
  have at: "verify_update ?u e payload (mf_sequence ?m - 1) t MAX_DEFINITION_PAYLOAD_BYTES key =
      (case verify_times ?m t MAX_DEFINITION_PAYLOAD_BYTES of Inl err \<Rightarrow> Inl err
       | Inr _ \<Rightarrow> Inr \<lparr>vu_manifest = ?m, vu_payload_sha256 = sha256_digest ?u payload\<rparr>)" for t
    using steps(1-5) sequence fits by (simp add: verify_update_def verify_manifest_def split: sum.split)
  show ?thesis
    using in_time_later [OF steps(6) assms(2,3) shape(2)] by (auto simp: verify_installed_def at [unfolded One_nat_def])
qed

text \<open>What an activation leaves on the disk.\<close>

lemma activated_on_disk:
  assumes "stage_and_activate env io maximum key e payload now d = (Inr p, d')" and "codec_for env e"
    and "\<forall>x. sha256_digest env x = sha256_digest env payload \<longrightarrow> x = payload"
  obtains installed v w bs where "verify_update env e payload installed now maximum key = Inr v" "p = pointer_for (en_manifest e)"
    "read_pointer env (current_pointer d') = Inr (Some p)" "version_of d' p = w" "vd_payload w = Holds payload"
    "vd_envelope w = Holds bs" "envelope_from_json env bs = Inr e"
proof -
  let ?name = "version_directory_name (mf_sequence (en_manifest e)) (mf_payload_sha256 (en_manifest e))"
  obtain installed v d1 where v: "verify_update env e payload installed now maximum key = Inr v"
    and d1: "commit_immutable_version env io ?name e payload (sha256_digest env payload) d = (Inr (), d1)"
      "move_pointers env io (pointer_for (en_manifest e)) d1 = (Inr (), d')" "p = pointer_for (en_manifest e)"
    using assms(1)
  proof (cases rule: stage_and_activate_cases)
    case (moved v d1 q installed)
    then show ?thesis using that by (cases q) auto
  qed auto
  have same: "versions d' = versions d1" using move_pointers_cases(1) [OF d1(2)] .
  have moved: "current_pointer d' = Holds (pointer_to_json env p)"
    using d1(2,3) by (auto simp: move_pointers_def split: sum.splits option.splits if_splits)
  have name: "version_directory_name (ap_sequence p) (ap_payload_sha256 p) = ?name"
    by (simp add: d1(3) version_directory_name_def pointer_for_def to_ascii_lowercase_idem)
  have "\<exists>w bs. versions d1 ?name = Some w \<and> vd_payload w = Holds payload \<and> vd_envelope w = Holds bs \<and> envelope_from_json env bs = Inr e"
  proof (cases "versions d ?name")
    case None
    then have "versions d1 ?name = Some \<lparr>vd_is_directory = True, vd_envelope = Holds (envelope_to_json env e), vd_payload = Holds payload\<rparr>"
      using d1(1) by (auto simp: commit_immutable_version_def split: if_splits)
    moreover have "envelope_from_json env (envelope_to_json env e) = Inr e"
      using assms(2) by (simp add: codec_for_def envelope_from_json_def)
    ultimately show ?thesis by auto
  next
    case (Some old)
    then have "validate_existing_version env old e (length payload) (sha256_digest env payload) = Inr ()" "d1 = d"
      using d1(1) by (auto simp: commit_immutable_version_def)
    then show ?thesis using Some assms(3)
      by (auto simp: validate_existing_version_def read_optional_bounded_def split: if_splits sum.splits option.splits stored_file.splits)
  qed
  then obtain w bs where w: "versions d1 ?name = Some w" "vd_payload w = Holds payload" "vd_envelope w = Holds bs" "envelope_from_json env bs = Inr e"
    by blast
  have "version_of d' p = w" using w(1) by (simp add: version_of_def name same)
  then show ?thesis
    using that v d1(3) pointer_for_parses [OF v assms(2)] moved w by (auto simp: d1(3))
qed

text \<open>The pointer of a manifest matches it.\<close>

lemma pointer_for_matches: "pointer_matches m (pointer_for m)"
proof -
  have "list_all2 eq_ignore_ascii_case s (map to_ascii_lowercase s)" for s
    by (induction s) (auto simp: eq_ignore_ascii_case_def to_ascii_lowercase_idem)
  then show ?thesis by (simp add: pointer_matches_def pointer_for_def eq_ignore_case_bytes_def)
qed

lemma activated_loads:
  assumes "stage_and_activate (df_update env) io MAX_DEFINITION_PAYLOAD_BYTES key e payload now d = (Inr p, d')" and "codec_for (df_update env) e"
    and "\<forall>x. sha256_digest (df_update env) x = sha256_digest (df_update env) payload \<longrightarrow> x = payload"
    and "time_le now later" and "fst later + int MAX_UPDATE_CLOCK_SKEW \<le> CHRONO_MAX_SECONDS"
    and "payload_from_bytes env payload = Inr definitions" and "build_authenticated_engine env mc definitions cfg = Inr engine"
  shows "definitions_load env mc d' later key cfg =
    Inr \<lparr>lo_engine = engine, lo_source = source_of Current p (bu_bundle_id (pl_bundle definitions)), lo_issues = []\<rparr>"
proof -
  obtain installed v w bs where disk: "verify_update (df_update env) e payload installed now MAX_DEFINITION_PAYLOAD_BYTES key = Inr v"
      "p = pointer_for (en_manifest e)" "read_pointer (df_update env) (current_pointer d') = Inr (Some p)" "version_of d' p = w"
      "vd_payload w = Holds payload" "vd_envelope w = Holds bs" "envelope_from_json (df_update env) bs = Inr e"
    using activated_on_disk [OF assms(1-3)] .
  obtain v' where v': "verify_installed env e payload (ap_sequence p - 1) later key = Inr v'" "vu_manifest v' = en_manifest e"
    using installed_verifies [OF disk(1) assms(4,5)] by (auto simp: disk(2) pointer_for_def)
  have "mf_payload_size (en_manifest e) \<le> MAX_DEFINITION_PAYLOAD_BYTES"
    using disk(1) by (auto simp: verify_update_def verify_manifest_def verify_times_def split: sum.splits option.splits if_splits)
  then have "read_bounded_regular (vd_payload w) MAX_DEFINITION_PAYLOAD_BYTES = Inr payload"
    using verify_update_signed(4) [OF disk(1)] disk(5) by (simp add: read_bounded_regular_def)
  moreover have "read_bounded_regular (vd_envelope w) MAX_ENVELOPE_BYTES = Inr bs"
    using disk(6,7) by (auto simp: read_bounded_regular_def envelope_from_json_def split: if_splits)
  moreover have "pointer_matches (vu_manifest v') p" by (simp add: v'(2) disk(2) pointer_for_matches)
  ultimately have "load_active_candidate env mc d' p later key cfg = Inr (engine, bu_bundle_id (pl_bundle definitions))"
    using disk(4,7) v'(1) assms(6,7) by (simp add: load_active_candidate_def)
  then show ?thesis using disk(3) by (simp add: definitions_load_def)
qed



text \<open>Which candidate an outcome comes from.\<close>

lemma load_candidate_cases:
  assumes "definitions_load env mc d now key cfg = Inr outcome"
  obtains (builtin) "lo_source outcome = BuiltIn" "build_builtin_engine env mc cfg = Inr (lo_engine outcome)"
      "read_pointer (df_update env) (current_pointer d) = Inr None \<or> Current \<in> fst ` set (lo_issues outcome)"
      "read_pointer (df_update env) (previous_pointer d) = Inr None \<or> LastKnownGood \<in> fst ` set (lo_issues outcome)"
    | (candidate) c active i where
      "read_pointer (df_update env) (case c of Current \<Rightarrow> current_pointer d | LastKnownGood \<Rightarrow> previous_pointer d) = Inr (Some active)"
      "load_active_candidate env mc d active now key cfg = Inr (lo_engine outcome, i)" "lo_source outcome = source_of c active i"
proof -
  have "(lo_source outcome = BuiltIn \<and> build_builtin_engine env mc cfg = Inr (lo_engine outcome) \<and>
      (read_pointer (df_update env) (current_pointer d) = Inr None \<or> Current \<in> fst ` set (lo_issues outcome)) \<and>
      (read_pointer (df_update env) (previous_pointer d) = Inr None \<or> LastKnownGood \<in> fst ` set (lo_issues outcome))) \<or>
    (\<exists>active i. read_pointer (df_update env) (current_pointer d) = Inr (Some active) \<and>
      load_active_candidate env mc d active now key cfg = Inr (lo_engine outcome, i) \<and> lo_source outcome = source_of Current active i) \<or>
    (\<exists>active i. read_pointer (df_update env) (previous_pointer d) = Inr (Some active) \<and>
      load_active_candidate env mc d active now key cfg = Inr (lo_engine outcome, i) \<and> lo_source outcome = source_of LastKnownGood active i)"
    using assms by (auto simp: definitions_load_def split: sum.splits option.splits)
  then show thesis using builtin candidate [of Current] candidate [of LastKnownGood] by auto
qed

text \<open>
  (C9) Only signed definitions are ever loaded: whatever is on the disk, an engine that is not the built-in one was
  built from a payload of the pointed version that has the size and digest its manifest states, whose manifest carries a
  signature of the trusted key and agrees with the pointer, and that passed the validation; the built-in engine is
  taken only when both candidates are missing or were reported with the stage at which they failed.
\<close>

theorem loaded_definitions_signed:
  assumes "definitions_load env mc d now key cfg = Inr outcome"
  shows "(lo_source outcome = BuiltIn \<and> build_builtin_engine env mc cfg = Inr (lo_engine outcome) \<and>
      (read_pointer (df_update env) (current_pointer d) = Inr None \<or> Current \<in> fst ` set (lo_issues outcome)) \<and>
      (read_pointer (df_update env) (previous_pointer d) = Inr None \<or> LastKnownGood \<in> fst ` set (lo_issues outcome))) \<or>
    (\<exists>candidate active e payload definitions.
       lo_source outcome = source_of candidate active (bu_bundle_id (pl_bundle definitions)) \<and>
       read_pointer (df_update env) (case candidate of Current \<Rightarrow> current_pointer d | LastKnownGood \<Rightarrow> previous_pointer d) = Inr (Some active) \<and>
       vd_payload (version_of d active) = Holds payload \<and> is_signed (df_update env) key e \<and> pointer_matches (en_manifest e) active \<and>
       length payload = mf_payload_size (en_manifest e) \<and>
       decode_hex_exact 32 (mf_payload_sha256 (en_manifest e)) = Some (sha256_digest (df_update env) payload) \<and>
       payload_from_bytes env payload = Inr definitions \<and> payload_ok (df_update env) definitions \<and>
       build_authenticated_engine env mc definitions cfg = Inr (lo_engine outcome))"
    (is "?builtin \<or> ?signed")
proof -
  have signed: "\<exists>e payload definitions. vd_payload (version_of d active) = Holds payload \<and> is_signed (df_update env) key e \<and>
       pointer_matches (en_manifest e) active \<and> length payload = mf_payload_size (en_manifest e) \<and>
       decode_hex_exact 32 (mf_payload_sha256 (en_manifest e)) = Some (sha256_digest (df_update env) payload) \<and>
       payload_from_bytes env payload = Inr definitions \<and> payload_ok (df_update env) definitions \<and>
       build_authenticated_engine env mc definitions cfg = Inr engine \<and> i = bu_bundle_id (pl_bundle definitions)"
    if load: "load_active_candidate env mc d active now key cfg = Inr (engine, i)" for active engine i
  proof -
    obtain payload e v definitions where *: "vd_payload (version_of d active) = Holds payload"
        "verify_installed env e payload (ap_sequence active - 1) now key = Inr v" "pointer_matches (vu_manifest v) active"
        "payload_from_bytes env payload = Inr definitions" "build_authenticated_engine env mc definitions cfg = Inr engine"
        "i = bu_bundle_id (pl_bundle definitions)"
      using load by (auto simp: load_active_candidate_def read_bounded_regular_def split: sum.splits if_splits stored_file.splits)
    obtain t where "verify_update (df_update env) e payload (ap_sequence active - 1) t MAX_DEFINITION_PAYLOAD_BYTES key = Inr v"
      using *(2) by (auto simp: verify_installed_def split: sum.splits update_error.splits)
    from verify_update_signed [OF this] * accepted_payload_ok [OF *(4)] show ?thesis by auto
  qed
  from assms show ?thesis
  proof (cases rule: load_candidate_cases)
    case builtin
    then show ?thesis by blast
  next
    case (candidate c active i)
    show ?thesis using signed [OF candidate(2)] candidate(1,3) by blast
  qed
qed

section \<open>An example\<close>

definition example_exact :: exact_hash_definition where
  "example_exact = \<lparr>xd_sha256 = replicate 64 CHR ''0'', xd_threat_name = ''Example'', xd_family = None\<rparr>"

definition example_definitions :: definition_bundle where
  "example_definitions = \<lparr>bu_schema_version = 2, bu_bundle_id = ''example'', bu_exact_sha256 = [example_exact], bu_yara_bundles = [],
     bu_similarity_profiles = [], bu_sources = []\<rparr>"

definition example_payload :: definition_payload where
  "example_payload = \<lparr>pl_bundle = example_definitions, pl_compact_sha256 = [], pl_compact_threat_name = None, pl_compact_family = None\<rparr>"

definition example_definition_env :: "unit definition_env" where
  "example_definition_env = \<lparr>df_update = example_update_env\<lparr>sha256_digest := \<lambda>b. if b = [7] then replicate 32 0 else replicate 32 1\<rparr>,
     df_bundle_of_json = (\<lambda>_. Some example_definitions), df_bundle_to_json = (\<lambda>_. Some [7]), df_header_of_json = (\<lambda>_. None),
     df_header_to_json = (\<lambda>_. None), df_builtin_source = [], df_compiles = (\<lambda>_. True), df_built = (\<lambda>_. ())\<rparr>"

definition example_machine :: "unit machine" where
  "example_machine = \<lparr>mc_amsi = None, mc_native_index = index_new, mc_shards = shards example_engine\<rparr>"

lemma example_text: "validate_text field ''Example'' MAX_THREAT_NAME_BYTES = Inr ()"
proof -
  have "chars (bytes_of ''Example'') = [69, 120, 97, 109, 112, 108, 101]" by code_simp
  then show ?thesis
    by (simp add: validate_text_def MAX_THREAT_NAME_BYTES_def trim_text_def trim_start_text_def trim_end_by_def
        is_whitespace_char_def is_control_char_def)
qed

lemma example_token: "validate_token field ''example'' MAX_BUNDLE_ID_BYTES punctuation = Inr ()"
proof -
  have "list_all is_ascii_alphanumeric (bytes_of ''example'')" by code_simp
  then show ?thesis by (simp add: validate_token_def MAX_BUNDLE_ID_BYTES_def list_all_iff)
qed

lemma every_replicated: "list_all P (replicate n x) \<longleftrightarrow> n = 0 \<or> P x"
  by (induction n) auto

lemma example_bundle_valid: "bundle_validate env example_definitions = Inr ()"
  by (simp add: bundle_validate_def example_definitions_def example_token example_text example_exact_def DEFINITION_SCHEMA_VERSION_def
      check_count_def validate_sha256_def every_replicated is_hex_char_def validate_family_def MAX_EXACT_SIGNATURES_def)

lemma example_reads: "payload_from_bytes example_definition_env [7] = Inr example_payload"
proof -
  have "\<not> starts_with [7] COMPACT_PAYLOAD_MAGIC" by code_simp
  then show ?thesis
    by (simp add: payload_from_bytes_def bundle_from_json_def example_definition_env_def example_payload_def and_then_def
        example_bundle_valid MAX_DEFINITION_BUNDLE_BYTES_def)
qed

lemma zeros_digest: "parse_sha256_hex (replicate 64 CHR ''0'') = Inr (replicate 32 0)"
proof -
  have "parse_pairs i (replicate (2 * n) CHR ''0'') = Inr (replicate n 0)" for i n
    by (induction n arbitrary: i) (simp_all add: hex_nibble_def)
  from this [of 0 32] show ?thesis by (simp add: parse_sha256_hex_def)
qed

lemma example_builds: "\<exists>engine. build_authenticated_engine example_definition_env example_machine example_payload config_default = Inr engine"
proof -
  obtain t s where t: "parse_sha256_hex BLACKSHARD_SELF_TEST_SHA256 = Inr t"
      "\<forall>k. hm_get (exact_sha256 db_default) k = (if k = t then Some s else None)"
    by (rule default_known)
  have "hd t \<noteq> 0" using t(1) by (auto simp: BLACKSHARD_SELF_TEST_SHA256_def parse_sha256_hex_def hex_nibble_def)
  then have "replicate 32 0 \<noteq> t" by (auto simp: numeral_eq_Suc)
  then have "\<exists>db. insert_exact [example_exact] db_default = Inr db"
    using t(2) by (simp add: example_exact_def zeros_digest insert_sha256_hex_def)
  moreover have "config_validate config_default = Inr ()" using example_engine_new by (simp add: engine_new_ok)
  ultimately show ?thesis
    using example_bundle_valid
    by (auto simp: build_authenticated_engine_def example_payload_def Let_def and_then_def example_definitions_def similarity_new_def
        insert_compact_def engine_new_def rules_compile_def example_definition_env_def)
qed

lemma example_update_verified:
  "verify_update (df_update example_definition_env) example_envelope [7] 0 (1500, 0) MAX_DEFINITION_PAYLOAD_BYTES [] =
     Inr \<lparr>vu_manifest = example_manifest, vu_payload_sha256 = replicate 32 0\<rparr>"
proof -
  have times: "verify_times example_manifest (1500, 0) MAX_DEFINITION_PAYLOAD_BYTES = verify_times example_manifest (1500, 0) 100"
    by (simp add: verify_times_def example_manifest_def MAX_DEFINITION_PAYLOAD_BYTES_def split: option.split)
  have "validate_manifest_shape (df_update example_definition_env) example_manifest = validate_manifest_shape example_update_env example_manifest"
    by (simp add: validate_manifest_shape_def example_definition_env_def)
  then have "verify_manifest (df_update example_definition_env) example_envelope (1500, 0) MAX_DEFINITION_PAYLOAD_BYTES [] =
      verify_manifest example_update_env example_envelope (1500, 0) 100 []"
    using times by (simp add: verify_manifest_def example_envelope_def example_definition_env_def split: sum.split option.split)
  moreover have "verify_manifest example_update_env example_envelope (1500, 0) 100 [] = Inr ()"
    using example_verified by (auto simp: verify_update_def split: sum.splits)
  ultimately show ?thesis
    using decode_zeros [of 32]
    by (simp add: verify_update_def example_envelope_def) (simp add: example_manifest_def example_definition_env_def)
qed

lemma example_definition_codec: "codec_for (df_update example_definition_env) example_envelope"
  using example_codec by (simp add: codec_for_def example_definition_env_def)

definition example_disk :: update_disk where
  "example_disk = snd (stage_and_activate (df_update example_definition_env) all_io_ok MAX_DEFINITION_PAYLOAD_BYTES [] example_envelope [7] (1500, 0) fresh_disk)"

lemma example_staged:
  "stage_and_activate (df_update example_definition_env) all_io_ok MAX_DEFINITION_PAYLOAD_BYTES [] example_envelope [7] (1500, 0) fresh_disk =
     (Inr (pointer_for example_manifest), example_disk)"
proof -
  have "fst (stage_and_activate (df_update example_definition_env) all_io_ok MAX_DEFINITION_PAYLOAD_BYTES [] example_envelope [7] (1500, 0) fresh_disk) =
      Inr (pointer_for example_manifest)"
    using example_update_verified
    by (simp add: stage_and_activate_def all_io_ok_def installed_sequence_def fresh_disk_def read_pointer_def read_optional_bounded_def
        commit_immutable_version_def move_pointers_def Let_def)
  then show ?thesis by (simp add: prod_eq_iff example_disk_def)
qed

lemma example_collision_free:
  "\<forall>x. sha256_digest (df_update example_definition_env) x = sha256_digest (df_update example_definition_env) [7] \<longrightarrow> x = [7]"
  by (simp add: example_definition_env_def numeral_eq_Suc)


definition example_detection_env :: "(unit, unit) detection_env" where
  "example_detection_env = example_env\<lparr>de_engine := (de_engine example_env)\<lparr>sha256 := \<lambda>_. replicate 32 0\<rparr>\<rparr>"


theorem loaded_definitions_signed_witness:
  "\<exists>outcome. definitions_load example_definition_env example_machine fresh_disk (999999, 0) [] config_default = Inr outcome \<and>
     lo_source outcome = BuiltIn"
proof -
  have "read_pointer (df_update example_definition_env) NoFile = Inr None" by (simp add: read_pointer_def read_optional_bounded_def)
  moreover have "config_validate config_default = Inr ()" using example_engine_new by (simp add: engine_new_ok)
  ultimately obtain outcome where
    "definitions_load example_definition_env example_machine fresh_disk (999999, 0) [] config_default = Inr outcome" "lo_issues outcome = []"
      "lo_source outcome = BuiltIn"
    by (simp add: definitions_load_def fresh_disk_def build_builtin_engine_def engine_new_def rules_compile_def example_definition_env_def)
  with loaded_definitions_signed [OF this(1)] show ?thesis by blast
qed

definition example_header :: compact_header where
  "example_header = \<lparr>ch_schema_version = 3, ch_bundle = example_definitions, ch_count = 2, ch_threat_name = ''Example'', ch_family = None\<rparr>"

definition example_compact_env :: "unit definition_env" where
  "example_compact_env = example_definition_env\<lparr>df_header_of_json := (\<lambda>_. Some example_header),
     df_header_to_json := (\<lambda>h. if h = example_header then Some [1] else None)\<rparr>"

theorem compact_payload_roundtrip_witness:
  "\<exists>bs. to_compact_bytes example_compact_env example_definitions [replicate 32 1, replicate 32 2] ''Example'' None = Inr bs \<and>
     payload_from_bytes example_compact_env bs = Inr \<lparr>pl_bundle = example_definitions, pl_compact_sha256 = [replicate 32 1, replicate 32 2],
       pl_compact_threat_name = Some ''Example'', pl_compact_family = None\<rparr>"
proof -
  have "sorted_wrt (<) [replicate 32 (1 :: byte), replicate 32 2]" by (simp add: numeral_eq_Suc)
  then have "\<not> unsorted [replicate 32 1, replicate 32 2]"
    using windows_2_sorted [of "[replicate 32 1, replicate 32 2]"] by (simp only: unsorted_def simp_thms)
  then obtain bs where bs: "to_compact_bytes example_compact_env example_definitions [replicate 32 1, replicate 32 2] ''Example'' None = Inr bs"
    by (simp add: to_compact_bytes_def and_then_def example_bundle_valid example_text validate_family_def MAX_COMPACT_SHA256_SIGNATURES_def
        example_compact_env_def example_header_def COMPACT_DEFINITION_SCHEMA_VERSION_def MAX_DEFINITION_BUNDLE_BYTES_def
        COMPACT_PAYLOAD_PREFIX_BYTES_def MAX_DEFINITION_PAYLOAD_BYTES_def usize_max_def)
  have "header_codec example_compact_env" by (auto simp: header_codec_def example_compact_env_def split: if_splits)
  from compact_payload_roundtrip [OF bs this] show ?thesis using bs by simp
qed

theorem accepted_definitions_build_witness:
  "build_authenticated_engine (example_definition_env\<lparr>df_compiles := \<lambda>_. False\<rparr>) example_machine example_payload config_default = Inl CompilationFailed \<and>
   rules_compile [] (\<lambda>_. False) (\<lambda>_. ()) [] = None"
proof -
  let ?env = "example_definition_env\<lparr>df_compiles := \<lambda>_. False\<rparr>"
  have "\<not> starts_with [7] COMPACT_PAYLOAD_MAGIC" by code_simp
  then have read: "payload_from_bytes ?env [7] = Inr example_payload"
    by (simp add: payload_from_bytes_def bundle_from_json_def example_definition_env_def example_payload_def and_then_def
        example_bundle_valid MAX_DEFINITION_BUNDLE_BYTES_def)
  obtain engine where "build_authenticated_engine example_definition_env example_machine example_payload config_default = Inr engine"
    using example_builds by blast
  then have build: "build_authenticated_engine ?env example_machine example_payload config_default = Inl CompilationFailed"
    by (auto simp: build_authenticated_engine_def Let_def rules_compile_def and_then_def split: sum.splits option.splits)
  have "config_validate config_default = Inr ()" using example_engine_new by (simp add: engine_new_ok)
  with accepted_definitions_build [OF read build] build show ?thesis
    by (simp add: example_definition_env_def example_payload_def example_definitions_def)
qed

end
