(* ===== verification/Update_Client.thy ===== *)
theory Update_Client
  imports Definitions
begin

text \<open>
  The update client, \<^verbatim>\<open>src/update_client.rs\<close>: what it accepts as configuration, which origins it fetches from, one
  check from the manifest to the loaded definitions, and the worker that repeats it. The HTTP stack of the system is an
  exchange: a failure before the body, the status, and the pieces of the body as they are read. The clock, the stop flag
  at each place where it is looked at, and what another process did to the store in between are arguments.
\<close>

section \<open>Configuration\<close>

definition MAX_URL_BYTES :: nat where "MAX_URL_BYTES = 2048"
definition HTTP_READ_CHUNK_BYTES :: nat where "HTTP_READ_CHUNK_BYTES = 64 * 1024"
definition MIN_OPERATION_TIMEOUT :: nat where "MIN_OPERATION_TIMEOUT = 100"
definition MAX_OPERATION_TIMEOUT :: nat where "MAX_OPERATION_TIMEOUT = 60 * 1000"
definition MIN_OVERALL_TIMEOUT :: nat where "MIN_OVERALL_TIMEOUT = 1000"
definition MAX_OVERALL_TIMEOUT :: nat where "MAX_OVERALL_TIMEOUT = 5 * 60 * 1000"

datatype client_error =
  BadConfiguration | InvalidUrl | PayloadOriginNotAllowed | ResponseTooLarge nat | PayloadTooLarge nat nat | InvalidHttpStatus nat
  | DeadlineExceeded | Cancelled | HttpFailed | AuthenticationFailed update_error | DefinitionsRejected | UpdateFailed update_error

text \<open>A parsed URL with what the client asks of it.\<close>

record client_url = parsed_url +
  cu_host :: string
  cu_port_or_default :: "nat option"
  cu_path :: string
  cu_has_query :: bool

text \<open>Timeouts in milliseconds; the schedule in seconds.\<close>

record http_timeouts =
  ht_resolve :: nat
  ht_connect :: nat
  ht_send :: nat
  ht_receive :: nat
  ht_overall :: nat

record client_config =
  cc_manifest_url :: bytes
  cc_allowed_payload_origins :: "bytes list"
  cc_maximum_envelope_bytes :: nat
  cc_maximum_payload_bytes :: nat
  cc_timeouts :: http_timeouts
  cc_interval :: nat
  cc_maximum_jitter :: nat
  cc_check_on_start :: bool
  cc_user_agent :: string

type_synonym https_origin = "string \<times> nat"

record validated_config =
  vc_manifest_url :: client_url
  vc_manifest_origin :: https_origin
  vc_allowed_payload_origins :: "https_origin list"
  vc_config :: client_config

definition http_timeouts_default :: http_timeouts where
  "http_timeouts_default = \<lparr>ht_resolve = 5000, ht_connect = 10000, ht_send = 10000, ht_receive = 20000, ht_overall = 60000\<rparr>"

definition client_config_new :: "bytes \<Rightarrow> string \<Rightarrow> client_config" where
  "client_config_new manifest_url version =
     \<lparr>cc_manifest_url = manifest_url, cc_allowed_payload_origins = [], cc_maximum_envelope_bytes = MAX_ENVELOPE_BYTES,
      cc_maximum_payload_bytes = MAX_DEFINITION_PAYLOAD_BYTES, cc_timeouts = http_timeouts_default,
      cc_interval = UPDATE_CHECK_INTERVAL, cc_maximum_jitter = UPDATE_CHECK_JITTER, cc_check_on_start = True,
      cc_user_agent = ''blackshard/'' @ version\<rparr>"

definition validate_https_url :: "client_url \<Rightarrow> client_error + unit" where
  "validate_https_url u =
     (if u_scheme u \<noteq> ''https'' then Inl InvalidUrl
      else if \<not> u_has_host u then Inl InvalidUrl
      else if u_has_username u \<or> u_has_password u then Inl InvalidUrl
      else if u_has_fragment u then Inl InvalidUrl
      else Inr ())"

text \<open>What stands before and after the first \<^verbatim>\<open>://\<close>.\<close>

fun split_authority :: "bytes \<Rightarrow> (bytes \<times> bytes) option" where
  "split_authority [] = None"
| "split_authority (b # rest) =
     (if take 3 (b # rest) = bytes_of ''://'' then Some ([], drop 2 rest)
      else map_option (\<lambda>(scheme, authority). (b # scheme, authority)) (split_authority rest))"

definition parse_https_url :: "(bytes \<Rightarrow> client_url option) \<Rightarrow> bytes \<Rightarrow> client_error + client_url" where
  "parse_https_url urls v =
     (if v = [] \<or> length v > MAX_URL_BYTES then Inl InvalidUrl
      else case split_authority v of
        None \<Rightarrow> Inl InvalidUrl
      | Some (scheme, authority) \<Rightarrow>
          if \<not> eq_ignore_case_bytes scheme (bytes_of ''https'') \<or> authority = [] \<or>
             hd authority \<in> {byte_of CHR ''/'', byte_of CHR ''?'', byte_of CHR ''#''}
          then Inl InvalidUrl
          else (case urls v of
                  None \<Rightarrow> Inl InvalidUrl
                | Some u \<Rightarrow> and_then (validate_https_url u) (Inr u)))"

definition origin_from_url :: "client_url \<Rightarrow> client_error + https_origin" where
  "origin_from_url u =
     and_then (validate_https_url u)
       (Inr (lower (cu_host u), (case cu_port_or_default u of None \<Rightarrow> 443 | Some p \<Rightarrow> p)))"

definition origin_parse_allowlisted :: "(bytes \<Rightarrow> client_url option) \<Rightarrow> bytes \<Rightarrow> client_error + https_origin" where
  "origin_parse_allowlisted urls v =
     (case parse_https_url urls v of
        Inl e \<Rightarrow> Inl e
      | Inr u \<Rightarrow>
          if (cu_path u \<noteq> ''/'' \<and> cu_path u \<noteq> []) \<or> cu_has_query u then Inl BadConfiguration else origin_from_url u)"

definition validate_timeouts :: "http_timeouts \<Rightarrow> client_error + unit" where
  "validate_timeouts t =
     (if list_ex (\<lambda>x. \<not> (MIN_OPERATION_TIMEOUT \<le> x \<and> x \<le> MAX_OPERATION_TIMEOUT)) [ht_resolve t, ht_connect t, ht_send t, ht_receive t]
      then Inl BadConfiguration
      else if \<not> (MIN_OVERALL_TIMEOUT \<le> ht_overall t \<and> ht_overall t \<le> MAX_OVERALL_TIMEOUT) \<or>
              ht_overall t < max (max (max (ht_resolve t) (ht_connect t)) (ht_send t)) (ht_receive t)
      then Inl BadConfiguration
      else Inr ())"

fun parse_origins :: "(bytes \<Rightarrow> client_url option) \<Rightarrow> bytes list \<Rightarrow> client_error + https_origin list" where
  "parse_origins urls [] = Inr []"
| "parse_origins urls (v # rest) =
     (case origin_parse_allowlisted urls v of
        Inl e \<Rightarrow> Inl e
      | Inr origin' \<Rightarrow> (case parse_origins urls rest of Inl e \<Rightarrow> Inl e | Inr origins \<Rightarrow> Inr (origin' # origins)))"

definition config_try_from :: "(bytes \<Rightarrow> client_url option) \<Rightarrow> client_config \<Rightarrow> client_error + validated_config" where
  "config_try_from urls c =
     (case parse_https_url urls (cc_manifest_url c) of
        Inl e \<Rightarrow> Inl e
      | Inr u \<Rightarrow>
          (case origin_from_url u of
             Inl e \<Rightarrow> Inl e
           | Inr origin' \<Rightarrow>
               and_then (refuse (cc_maximum_envelope_bytes c = 0 \<or> cc_maximum_envelope_bytes c > MAX_ENVELOPE_BYTES) BadConfiguration)
               (and_then (refuse (cc_maximum_payload_bytes c = 0 \<or> cc_maximum_payload_bytes c > MAX_DEFINITION_PAYLOAD_BYTES) BadConfiguration)
               (and_then (validate_timeouts (cc_timeouts c))
               (and_then (refuse (cc_interval c \<le> cc_maximum_jitter c \<or> cc_interval c < 60) BadConfiguration)
               (and_then (refuse (cc_user_agent c = [] \<or> length (cc_user_agent c) > 128 \<or>
                            list_ex is_control_char (chars (bytes_of (cc_user_agent c)))) BadConfiguration)
               (case parse_origins urls (cc_allowed_payload_origins c) of
                  Inl e \<Rightarrow> Inl e
                | Inr origins \<Rightarrow>
                    Inr \<lparr>vc_manifest_url = u, vc_manifest_origin = origin', vc_allowed_payload_origins = origins, vc_config = c\<rparr>)))))))"

definition payload_url :: "(bytes \<Rightarrow> client_url option) \<Rightarrow> validated_config \<Rightarrow> bytes \<Rightarrow> client_error + client_url" where
  "payload_url urls c v =
     (case parse_https_url urls v of
        Inl e \<Rightarrow> Inl e
      | Inr u \<Rightarrow>
          (case origin_from_url u of
             Inl e \<Rightarrow> Inl e
           | Inr origin' \<Rightarrow>
               if origin' \<noteq> vc_manifest_origin c \<and> origin' \<notin> set (vc_allowed_payload_origins c) then Inl PayloadOriginNotAllowed
               else Inr u))"

section \<open>Fetching\<close>

text \<open>A read of the body: the deadline or the stop flag intervenes, it fails, or it hands out bytes; at the end there are none.\<close>

datatype http_read = Interrupted client_error | ReadFailed | Received bytes

record http_exchange =
  hx_before_body :: "client_error option"
  hx_status :: nat
  hx_reads :: "http_read list"

text \<open>One turn of the reading loop: the bytes it adds, none at the end.\<close>

definition read_turn :: "nat \<Rightarrow> http_read \<Rightarrow> bytes \<Rightarrow> client_error + bytes" where
  "read_turn maximum r out =
     (case r of
        Interrupted e \<Rightarrow> Inl e
      | ReadFailed \<Rightarrow> Inl HttpFailed
      | Received bs \<Rightarrow>
          let requested = max 1 (min HTTP_READ_CHUNK_BYTES (saturating_add usize_max (maximum - length out) 1));
              received = take requested bs
          in if received \<noteq> [] \<and> saturating_add usize_max (length out) (length received) > maximum then Inl (ResponseTooLarge maximum)
             else Inr received)"

primrec read_body :: "nat \<Rightarrow> http_read list \<Rightarrow> bytes \<Rightarrow> client_error + bytes" where
  "read_body maximum [] out = Inr out"
| "read_body maximum (r # reads) out =
     (case read_turn maximum r out of
        Inl e \<Rightarrow> Inl e
      | Inr received \<Rightarrow> if received = [] then Inr out else read_body maximum reads (out @ received))"

definition fetch_bounded :: "http_exchange \<Rightarrow> nat \<Rightarrow> client_error + bytes" where
  "fetch_bounded x maximum =
     (case hx_before_body x of
        Some e \<Rightarrow> Inl e
      | None \<Rightarrow> if hx_status x \<noteq> 200 then Inl (InvalidHttpStatus (hx_status x)) else read_body maximum (hx_reads x) [])"

section \<open>One check\<close>

datatype update_phase =
  Starting | Sleeping | DownloadingManifest | AuthenticatingManifest | DownloadingPayload | ValidatingPayload | Activating | Stopped

datatype check_outcome = AlreadyCurrent nat nat | InstalledUpdate activation_pointer

datatype sequence_disposition = Same | Advance

text \<open>
  What a check meets: the stop flag at the two places where it is looked at, what the server answers to each request,
  the clock when it is read, the faults of the activation, and the store as another process left it by then.
\<close>

record check_inputs =
  ci_stopping :: bool
  ci_manifest :: http_exchange
  ci_now_authenticate :: time
  ci_payload :: http_exchange
  ci_now_verify :: time
  ci_stopping_before_activation :: bool
  ci_others :: "update_disk \<Rightarrow> update_disk"
  ci_io :: activate_io
  ci_now_activate :: time
  ci_now_load :: time

record ('r, 'a) client_env =
  ce_definitions :: "'r definition_env"
  ce_machine :: "'a machine"
  ce_urls :: "bytes \<Rightarrow> client_url option"
  ce_key :: bytes

definition ensure_running :: "bool \<Rightarrow> client_error + unit" where
  "ensure_running stopping = (if stopping then Inl Cancelled else Inr ())"

definition classify_offered_sequence :: "nat \<Rightarrow> nat \<Rightarrow> update_error + sequence_disposition" where
  "classify_offered_sequence offered installed =
     (if offered = installed then Inr Same
      else if offered > installed then Inr Advance
      else Inl (RollbackOffered offered installed))"

definition current_metadata_matches :: "activation_pointer \<Rightarrow> manifest \<Rightarrow> bool" where
  "current_metadata_matches p m \<longleftrightarrow>
     ap_sequence p = mf_sequence m \<and> ap_version p = mf_version m \<and> ap_expires_at p = mf_expires_at m \<and>
     eq_ignore_case_bytes (ap_payload_sha256 p) (mf_payload_sha256 m)"

definition authenticate_manifest :: "update_env \<Rightarrow> envelope \<Rightarrow> time \<Rightarrow> nat \<Rightarrow> bytes \<Rightarrow> client_error + unit" where
  "authenticate_manifest env e now maximum key =
     (case verify_manifest env e now maximum key of
        Inr _ \<Rightarrow> Inr ()
      | Inl (Oversized declared mx) \<Rightarrow> Inl (PayloadTooLarge declared mx)
      | Inl err \<Rightarrow> Inl (AuthenticationFailed err))"

text \<open>An offer of the sequence that is installed must be the installed update.\<close>

definition already_current :: "update_env \<Rightarrow> activation_pointer option \<Rightarrow> manifest \<Rightarrow> nat \<Rightarrow> client_error + check_outcome" where
  "already_current env installed m installed_now =
     (if (case installed of None \<Rightarrow> False | Some p \<Rightarrow> current_metadata_matches p m)
      then Inr (AlreadyCurrent installed_now (mf_sequence m))
      else Inl (UpdateFailed (SequenceConflict (mf_sequence m))))"

text \<open>After the payload was accepted: activate it, then load the definitions and see whether they are the new ones.\<close>

definition activate_and_load :: "('r, 'a) client_env \<Rightarrow> check_inputs \<Rightarrow> envelope \<Rightarrow> bytes \<Rightarrow> update_disk \<Rightarrow>
    (client_error + check_outcome) \<times> update_disk" where
  "activate_and_load env ci e payload d =
     (let uenv = df_update (ce_definitions env) in
      case stage_and_activate uenv (ci_io ci) MAX_DEFINITION_PAYLOAD_BYTES (ce_key env) e payload (ci_now_activate ci) (ci_others ci d) of
        (Inl (RollbackOffered offered installed), d) \<Rightarrow>
          if offered = installed
          then (case read_pointer uenv (current_pointer d) of
                  Inl err \<Rightarrow> (Inl (UpdateFailed err), d)
                | Inr current \<Rightarrow> (already_current uenv current (en_manifest e) installed, d))
          else (Inl (UpdateFailed (RollbackOffered offered installed)), d)
      | (Inl err, d) \<Rightarrow> (Inl (UpdateFailed err), d)
      | (Inr active, d) \<Rightarrow>
          (case definitions_load (ce_definitions env) (ce_machine env) d (ci_now_load ci) (ce_key env) config_default of
             Inl _ \<Rightarrow> (Inl DefinitionsRejected, d)
           | Inr loaded \<Rightarrow>
               ((case lo_source loaded of
                   FromCurrent sequence _ _ _ \<Rightarrow>
                     if sequence = ap_sequence active then Inr (InstalledUpdate active) else Inl DefinitionsRejected
                 | _ \<Rightarrow> Inl DefinitionsRejected), d)))"

text \<open>The phases are those that were set on the way.\<close>

definition fetch_and_activate :: "('r, 'a) client_env \<Rightarrow> validated_config \<Rightarrow> check_inputs \<Rightarrow> envelope \<Rightarrow> nat \<Rightarrow> update_disk \<Rightarrow>
    (client_error + check_outcome) \<times> update_disk \<times> update_phase list" where
  "fetch_and_activate env c ci e installed_now d =
     (let denv = ce_definitions env; uenv = df_update denv; maximum = cc_maximum_payload_bytes (vc_config c);
          declared = mf_payload_size (en_manifest e) in
      if declared > usize_max then (Inl (PayloadTooLarge declared maximum), d, [DownloadingPayload])
      else case fetch_bounded (ci_payload ci) declared of
        Inl err \<Rightarrow> (Inl err, d, [DownloadingPayload])
      | Inr payload \<Rightarrow>
          (case verify_update uenv e payload installed_now (ci_now_verify ci) maximum (ce_key env) of
             Inl err \<Rightarrow> (Inl (UpdateFailed err), d, [DownloadingPayload, ValidatingPayload])
           | Inr _ \<Rightarrow>
               (case payload_from_bytes denv payload of
                  Inl _ \<Rightarrow> (Inl DefinitionsRejected, d, [DownloadingPayload, ValidatingPayload])
                | Inr _ \<Rightarrow>
                    (case ensure_running (ci_stopping_before_activation ci) of
                       Inl err \<Rightarrow> (Inl err, d, [DownloadingPayload, ValidatingPayload])
                     | Inr _ \<Rightarrow>
                         (case activate_and_load env ci e payload d of
                            (r, d) \<Rightarrow> (r, d, [DownloadingPayload, ValidatingPayload, Activating]))))))"

definition perform_update :: "('r, 'a) client_env \<Rightarrow> validated_config \<Rightarrow> check_inputs \<Rightarrow> update_disk \<Rightarrow>
    (client_error + check_outcome) \<times> update_disk \<times> update_phase list" where
  "perform_update env c ci d =
     (let uenv = df_update (ce_definitions env) in
      case ensure_running (ci_stopping ci) of
        Inl err \<Rightarrow> (Inl err, d, [])
      | Inr _ \<Rightarrow>
          (case fetch_bounded (ci_manifest ci) (cc_maximum_envelope_bytes (vc_config c)) of
             Inl err \<Rightarrow> (Inl err, d, [])
           | Inr envelope_bytes \<Rightarrow>
               (case envelope_from_json uenv envelope_bytes of
                  Inl err \<Rightarrow> (Inl (UpdateFailed err), d, [])
                | Inr e \<Rightarrow>
                    (case authenticate_manifest uenv e (ci_now_authenticate ci) (cc_maximum_payload_bytes (vc_config c)) (ce_key env) of
                       Inl err \<Rightarrow> (Inl err, d, [AuthenticatingManifest])
                     | Inr _ \<Rightarrow>
                         (case payload_url (ce_urls env) c (mf_payload_url (en_manifest e)) of
                            Inl err \<Rightarrow> (Inl err, d, [AuthenticatingManifest])
                          | Inr _ \<Rightarrow>
                              (case read_pointer uenv (current_pointer d) of
                                 Inl err \<Rightarrow> (Inl (UpdateFailed err), d, [AuthenticatingManifest])
                               | Inr installed \<Rightarrow>
                                   let installed_now = (case installed of None \<Rightarrow> 0 | Some p \<Rightarrow> ap_sequence p) in
                                   (case classify_offered_sequence (mf_sequence (en_manifest e)) installed_now of
                                      Inl err \<Rightarrow> (Inl (UpdateFailed err), d, [AuthenticatingManifest])
                                    | Inr Same \<Rightarrow>
                                        (already_current uenv installed (en_manifest e) installed_now, d, [AuthenticatingManifest])
                                    | Inr Advance \<Rightarrow>
                                        (case fetch_and_activate env c ci e installed_now d of
                                           (r, d, phases) \<Rightarrow> (r, d, AuthenticatingManifest # phases)))))))))"

section \<open>The worker\<close>

datatype update_trigger = Startup | Scheduled | Manual

datatype update_result_status = NeverChecked | ResultCurrent nat | ResultInstalled nat bytes | ResultFailed client_error

record update_status =
  us_phase :: update_phase
  us_last_attempt :: "time option"
  us_last_successful_check :: "time option"
  us_next_check :: "time option"
  us_result :: update_result_status

datatype update_event =
  CheckStarted update_trigger time
| EventCurrent nat nat time
| EventInstalled nat bytes time
| EventFailed client_error time
| EventScheduled time
| EventStopped

definition update_status_default :: update_status where
  "update_status_default = \<lparr>us_phase = Starting, us_last_attempt = None, us_last_successful_check = None, us_next_check = None,
     us_result = NeverChecked\<rparr>"

text \<open>The client's own state: the status, the events it offered, and the store it works on.\<close>

record client_state =
  cs_status :: update_status
  cs_events :: "update_event list"
  cs_disk :: update_disk

record check_turn =
  ct_stopping :: bool
  ct_attempt :: time
  ct_inputs :: check_inputs
  ct_completed :: time
  ct_stopping_after :: bool

definition emit :: "update_event \<Rightarrow> client_state \<Rightarrow> client_state" where
  "emit ev s = s\<lparr>cs_events := cs_events s @ [ev]\<rparr>"

definition mutate_status :: "(update_status \<Rightarrow> update_status) \<Rightarrow> client_state \<Rightarrow> client_state" where
  "mutate_status f s = s\<lparr>cs_status := f (cs_status s)\<rparr>"

text \<open>The answer says whether the worker goes on.\<close>

definition run_one_check :: "('r, 'a) client_env \<Rightarrow> validated_config \<Rightarrow> update_trigger \<Rightarrow> check_turn \<Rightarrow> client_state \<Rightarrow> bool \<times> client_state" where
  "run_one_check env c trigger t s =
     (if ct_stopping t then (False, s)
      else
        let s = mutate_status (\<lambda>v. v\<lparr>us_phase := DownloadingManifest, us_last_attempt := Some (ct_attempt t), us_next_check := None\<rparr>) s;
            s = emit (CheckStarted trigger (ct_attempt t)) s
        in (case perform_update env c (ct_inputs t) (cs_disk s) of
              (r, d, phases) \<Rightarrow>
                let s = s\<lparr>cs_disk := d\<rparr>;
                    s = foldl (\<lambda>s p. mutate_status (\<lambda>v. v\<lparr>us_phase := p\<rparr>) s) s phases
                in (case r of
                      Inr (AlreadyCurrent installed offered) \<Rightarrow>
                        (True, emit (EventCurrent installed offered (ct_completed t))
                           (mutate_status (\<lambda>v. v\<lparr>us_last_successful_check := Some (ct_completed t), us_result := ResultCurrent installed\<rparr>) s))
                    | Inr (InstalledUpdate active) \<Rightarrow>
                        (True, emit (EventInstalled (ap_sequence active) (ap_version active) (ct_completed t))
                           (mutate_status (\<lambda>v. v\<lparr>us_last_successful_check := Some (ct_completed t),
                              us_result := ResultInstalled (ap_sequence active) (ap_version active)\<rparr>) s))
                    | Inl err \<Rightarrow>
                        if err = Cancelled \<and> ct_stopping_after t then (False, s)
                        else (True, emit (EventFailed err (ct_completed t)) (mutate_status (\<lambda>v. v\<lparr>us_result := ResultFailed err\<rparr>) s)))))"

text \<open>What ends a sleep: a message, a closed channel, or the time.\<close>

datatype wake = WakeTrigger | WakeStop | WakeDisconnected | WakeTimeout

record worker_turn =
  wt_stopping :: bool
  wt_sample :: nat
  wt_now :: time
  wt_wake :: wake
  wt_stopping_after :: bool
  wt_check :: check_turn

definition finish_worker :: "client_state \<Rightarrow> client_state" where
  "finish_worker s = emit EventStopped (mutate_status (\<lambda>v. v\<lparr>us_phase := Stopped, us_next_check := None\<rparr>) s)"

text \<open>The loop over what happens; the Boolean says whether the worker has ended.\<close>

fun worker_loop :: "('r, 'a) client_env \<Rightarrow> validated_config \<Rightarrow> worker_turn list \<Rightarrow> client_state \<Rightarrow> bool \<times> client_state" where
  "worker_loop env c [] s = (False, s)"
| "worker_loop env c (t # turns) s =
     (if wt_stopping t then (True, finish_worker s)
      else
        let delay = delay_for_sample (cc_interval (vc_config c)) (cc_maximum_jitter (vc_config c)) (wt_sample t);
            next_check = (fst (wt_now t) + int delay, snd (wt_now t));
            s = mutate_status (\<lambda>v. v\<lparr>us_phase := Sleeping, us_next_check := Some next_check\<rparr>) s;
            s = emit (EventScheduled next_check) s
        in if wt_wake t = WakeStop \<or> wt_wake t = WakeDisconnected then (True, finish_worker s)
           else if wt_stopping_after t then (True, finish_worker s)
           else (case run_one_check env c (if wt_wake t = WakeTrigger then Manual else Scheduled) (wt_check t) s of
                   (True, s) \<Rightarrow> worker_loop env c turns s
                 | (False, s) \<Rightarrow> (True, finish_worker s)))"

definition update_worker :: "('r, 'a) client_env \<Rightarrow> validated_config \<Rightarrow> check_turn \<Rightarrow> worker_turn list \<Rightarrow> client_state \<Rightarrow> bool \<times> client_state" where
  "update_worker env c first turns s =
     (if cc_check_on_start (vc_config c)
      then (case run_one_check env c Startup first s of
              (True, s) \<Rightarrow> worker_loop env c turns s
            | (False, s) \<Rightarrow> (True, finish_worker s))
      else worker_loop env c turns s)"

datatype manual_trigger_result = Queued | AlreadyQueued | AlreadyRunning | TriggerStopped

text \<open>The control channel holds one message; \<open>listening\<close> says whether the worker still listens.\<close>

definition trigger :: "bool \<Rightarrow> update_status \<Rightarrow> bool \<Rightarrow> bool \<Rightarrow> manual_trigger_result" where
  "trigger stopping st queued listening =
     (if stopping then TriggerStopped
      else if us_phase st \<in> {DownloadingManifest, AuthenticatingManifest, DownloadingPayload, ValidatingPayload, Activating}
      then AlreadyRunning
      else if \<not> listening then TriggerStopped
      else if queued then AlreadyQueued
      else Queued)"

section \<open>What a check does\<close>

lemma read_body_bounded: "read_body maximum reads out = Inr bs \<Longrightarrow> length out \<le> maximum \<Longrightarrow> maximum < usize_max \<Longrightarrow> length bs \<le> maximum"
proof (induction reads arbitrary: out)
  case (Cons r reads)
  obtain received where r: "read_turn maximum r out = Inr received"
    "(if received = [] then Inr out else read_body maximum reads (out @ received)) = Inr bs"
    using Cons.prems(1) by (auto split: sum.splits)
  have "received = [] \<or> length out + length received \<le> maximum"
    using r(1) Cons.prems(3) by (auto simp: read_turn_def Let_def saturating_add_def split: http_read.splits if_splits)
  then show ?case using r(2) Cons.IH [of "out @ received"] Cons.prems(2,3) by (auto split: if_splits)
qed simp

lemma fetch_bounded_length: "fetch_bounded x maximum = Inr bs \<Longrightarrow> maximum < usize_max \<Longrightarrow> length bs \<le> maximum"
  using read_body_bounded [of maximum "hx_reads x" "[]" bs] by (auto simp: fetch_bounded_def split: option.splits if_splits)

text \<open>An activation that succeeds moves the pointer to its manifest; one that does not leaves it.\<close>

lemma staged:
  assumes "stage_and_activate env io maximum key e payload now d = (r, d')"
  shows "case r of Inr p \<Rightarrow> p = pointer_for (en_manifest e) \<and> is_signed env key e \<and>
      current_pointer d' = Holds (pointer_to_json env (pointer_for (en_manifest e))) | Inl _ \<Rightarrow> current_pointer d' = current_pointer d"
  using assms
proof (cases rule: stage_and_activate_cases)
  case (moved v d1 q installed)
  show ?thesis
    using moved(5) move_pointers_cases(3) [OF moved(4)] commit_cases(1) [OF moved(3)] verify_update_signed(1) [OF moved(2)]
    by (cases q) auto
qed auto

text \<open>The possible ends of the last phase.\<close>

lemma activate_and_load_cases:
  assumes "activate_and_load env ci e payload d = (r, d')"
  obtains (installed) "r = Inr (InstalledUpdate (pointer_for (en_manifest e)))" "is_signed (df_update (ce_definitions env)) (ce_key env) e"
      "current_pointer d' = Holds (pointer_to_json (df_update (ce_definitions env)) (pointer_for (en_manifest e)))"
      "\<exists>outcome v b t. definitions_load (ce_definitions env) (ce_machine env) d' (ci_now_load ci) (ce_key env) config_default = Inr outcome \<and>
         lo_source outcome = FromCurrent (mf_sequence (en_manifest e)) v b t"
    | (rejected) "r = Inl DefinitionsRejected"
      "current_pointer d' = Holds (pointer_to_json (df_update (ce_definitions env)) (pointer_for (en_manifest e)))"
      "\<forall>outcome v b t. definitions_load (ce_definitions env) (ce_machine env) d' (ci_now_load ci) (ce_key env) config_default = Inr outcome \<longrightarrow>
         lo_source outcome \<noteq> FromCurrent (mf_sequence (en_manifest e)) v b t"
    | (kept) "\<forall>p. r \<noteq> Inr (InstalledUpdate p)" "current_pointer d' = current_pointer (ci_others ci d)"
proof -
  let ?u = "df_update (ce_definitions env)"
  obtain q d1 where q: "stage_and_activate ?u (ci_io ci) MAX_DEFINITION_PAYLOAD_BYTES (ce_key env) e payload (ci_now_activate ci) (ci_others ci d) = (q, d1)"
    by fastforce
  note after = staged [OF q]
  show thesis
  proof (cases q)
    case (Inl err)
    have "d' = d1 \<and> (\<forall>p. r \<noteq> Inr (InstalledUpdate p))"
      using assms q Inl
      by (cases err) (auto simp: activate_and_load_def already_current_def Let_def split: if_splits sum.splits option.splits)
    then show thesis using kept after Inl by simp
  next
    case (Inr p)
    have p: "p = pointer_for (en_manifest e)" "ap_sequence p = mf_sequence (en_manifest e)" using after Inr by (simp_all add: pointer_for_def)
    show thesis
    proof (cases "definitions_load (ce_definitions env) (ce_machine env) d1 (ci_now_load ci) (ce_key env) config_default")
      case Inl': (Inl err)
      then have "r = Inl DefinitionsRejected" "d' = d1" using assms q Inr by (auto simp: activate_and_load_def Let_def)
      then show thesis using rejected after Inr Inl' by simp
    next
      case Inr': (Inr outcome)
      then have res: "r = (case lo_source outcome of FromCurrent sequence _ _ _ \<Rightarrow>
             if sequence = ap_sequence p then Inr (InstalledUpdate p) else Inl DefinitionsRejected | _ \<Rightarrow> Inl DefinitionsRejected)" "d' = d1"
        using assms q Inr by (auto simp: activate_and_load_def Let_def)
      show thesis
      proof (cases "\<exists>v b t. lo_source outcome = FromCurrent (mf_sequence (en_manifest e)) v b t")
        case True
        then show thesis using installed res after Inr Inr' p by auto
      next
        case False
        then have "r = Inl DefinitionsRejected" using res(1) p(2) by (cases "lo_source outcome") auto
        then show thesis using rejected res(2) after Inr Inr' False by auto
      qed
    qed
  qed
qed

lemma allowed_payload:
  assumes "payload_url urls c v = Inr u"
  shows "u_scheme u = ''https'' \<and> (\<exists>origin'. origin_from_url u = Inr origin' \<and> (origin' = vc_manifest_origin c \<or> origin' \<in> set (vc_allowed_payload_origins c)))"
  using assms
  by (auto simp: payload_url_def origin_from_url_def validate_https_url_def and_then_def split: sum.splits if_splits)

text \<open>How far a check came that reached the last phase.\<close>

lemma perform_update_cases:
  assumes "perform_update env c ci d = (r, d', phases)"
  obtains (early) "d' = d" "\<forall>p. r \<noteq> Inr (InstalledUpdate p)"
    | (late) bs e u installed payload definitions where
      "fetch_bounded (ci_manifest ci) (cc_maximum_envelope_bytes (vc_config c)) = Inr bs"
      "envelope_from_json (df_update (ce_definitions env)) bs = Inr e"
      "payload_url (ce_urls env) c (mf_payload_url (en_manifest e)) = Inr u"
      "read_pointer (df_update (ce_definitions env)) (current_pointer d) = Inr installed"
      "(case installed of None \<Rightarrow> 0 | Some p \<Rightarrow> ap_sequence p) < mf_sequence (en_manifest e)"
      "fetch_bounded (ci_payload ci) (mf_payload_size (en_manifest e)) = Inr payload"
      "length payload = mf_payload_size (en_manifest e)" "payload_from_bytes (ce_definitions env) payload = Inr definitions"
      "activate_and_load env ci e payload d = (r, d')"
proof -
  let ?u = "df_update (ce_definitions env)"
  show thesis
  proof (cases "\<exists>bs e u installed. fetch_bounded (ci_manifest ci) (cc_maximum_envelope_bytes (vc_config c)) = Inr bs \<and>
      envelope_from_json ?u bs = Inr e \<and> payload_url (ce_urls env) c (mf_payload_url (en_manifest e)) = Inr u \<and>
      read_pointer ?u (current_pointer d) = Inr installed \<and>
      classify_offered_sequence (mf_sequence (en_manifest e)) (case installed of None \<Rightarrow> 0 | Some p \<Rightarrow> ap_sequence p) = Inr Advance \<and>
      (\<exists>rest. fetch_and_activate env c ci e (case installed of None \<Rightarrow> 0 | Some p \<Rightarrow> ap_sequence p) d = (r, d', rest))")
    case False
    then have "d' = d \<and> (\<forall>p. r \<noteq> Inr (InstalledUpdate p))"
      using assms
      by (auto simp: perform_update_def already_current_def Let_def split: sum.splits sequence_disposition.splits prod.splits if_splits)
    then show thesis using early by simp
  next
    case True
    then obtain bs e u installed rest where reached: "fetch_bounded (ci_manifest ci) (cc_maximum_envelope_bytes (vc_config c)) = Inr bs"
        "envelope_from_json ?u bs = Inr e" "payload_url (ce_urls env) c (mf_payload_url (en_manifest e)) = Inr u"
        "read_pointer ?u (current_pointer d) = Inr installed"
        "classify_offered_sequence (mf_sequence (en_manifest e)) (case installed of None \<Rightarrow> 0 | Some p \<Rightarrow> ap_sequence p) = Inr Advance"
        "fetch_and_activate env c ci e (case installed of None \<Rightarrow> 0 | Some p \<Rightarrow> ap_sequence p) d = (r, d', rest)"
      by blast
    have newer: "(case installed of None \<Rightarrow> 0 | Some p \<Rightarrow> ap_sequence p) < mf_sequence (en_manifest e)"
      using reached(5) by (simp add: classify_offered_sequence_def split: if_splits)
    show thesis
    proof (cases "\<exists>payload v definitions. fetch_bounded (ci_payload ci) (mf_payload_size (en_manifest e)) = Inr payload \<and>
        verify_update ?u e payload (case installed of None \<Rightarrow> 0 | Some p \<Rightarrow> ap_sequence p) (ci_now_verify ci)
          (cc_maximum_payload_bytes (vc_config c)) (ce_key env) = Inr v \<and>
        payload_from_bytes (ce_definitions env) payload = Inr definitions \<and> activate_and_load env ci e payload d = (r, d')")
      case False
      then have "d' = d \<and> (\<forall>p. r \<noteq> Inr (InstalledUpdate p))"
        using reached(6) by (auto simp: fetch_and_activate_def Let_def split: sum.splits prod.splits if_splits)
      then show thesis using early by simp
    next
      case True
      then show thesis using late [OF reached(1-4) newer] verify_update_signed(4) by blast
    qed
  qed
qed


text \<open>
  (C38) A check that installs nothing, whether it finds nothing new, fails at any point or is stopped, leaves the current
  pointer as it was, unless the definitions it had already activated do not load: then, and only then, it answers that
  they were rejected, and the pointer stays on an update that is not the one in use.
\<close>

theorem failed_check_keeps_installed:
  assumes "perform_update env c ci d = (r, d', phases)" and "\<forall>p. r \<noteq> Inr (InstalledUpdate p)"
    and "\<And>d. current_pointer (ci_others ci d) = current_pointer d"
  shows "current_pointer d' = current_pointer d \<or>
    r = Inl DefinitionsRejected \<and>
    (\<exists>e :: envelope. current_pointer d' = Holds (pointer_to_json (df_update (ce_definitions env)) (pointer_for (en_manifest e))) \<and>
      (\<forall>outcome v b t. definitions_load (ce_definitions env) (ce_machine env) d' (ci_now_load ci) (ce_key env) config_default = Inr outcome \<longrightarrow>
         lo_source outcome \<noteq> FromCurrent (mf_sequence (en_manifest e)) v b t))"
  using assms(1)
proof (cases rule: perform_update_cases)
  case (late bs e u installed payload definitions)
  from late(9) show ?thesis
  proof (cases rule: activate_and_load_cases)
    case installed
    then show ?thesis using assms(2) by blast
  next
    case rejected
    then show ?thesis by blast
  next
    case kept
    then show ?thesis using assms(3) by simp
  qed
qed simp

section \<open>What the worker reports\<close>

text \<open>Every check that is started is followed by its one outcome, unless the client is being stopped.\<close>

definition is_outcome :: "update_event \<Rightarrow> bool" where
  "is_outcome ev = (case ev of EventCurrent _ _ _ \<Rightarrow> True | EventInstalled _ _ _ \<Rightarrow> True | EventFailed _ _ \<Rightarrow> True | _ \<Rightarrow> False)"

fun reported :: "bool \<Rightarrow> update_event list \<Rightarrow> bool" where
  "reported ended [] \<longleftrightarrow> \<not> ended"
| "reported ended (ev # rest) =
     (case ev of
        CheckStarted _ _ \<Rightarrow>
          (case rest of
             [] \<Rightarrow> False
           | ev' # rest' \<Rightarrow> (is_outcome ev' \<and> reported ended rest') \<or> (ended \<and> rest = [EventStopped]))
      | EventScheduled _ \<Rightarrow> reported ended rest
      | EventStopped \<Rightarrow> ended \<and> rest = []
      | _ \<Rightarrow> False)"

lemma check_events:
  assumes "run_one_check env c trg t s = (go, s')"
  shows "\<exists>evs. cs_events s' = cs_events s @ evs \<and>
    (if go then \<exists>a res. evs = [CheckStarted trg a, res] \<and> is_outcome res else evs = [] \<or> (\<exists>a. evs = [CheckStarted trg a]))"
proof (cases "ct_stopping t")
  case True
  then show ?thesis using assms by (simp add: run_one_check_def)
next
  case False
  have phases: "cs_events (foldl (\<lambda>s p. mutate_status (\<lambda>v. v\<lparr>us_phase := p\<rparr>) s) x ps) = cs_events x" for x :: client_state and ps
    by (induction ps arbitrary: x) (simp_all add: mutate_status_def)
  show ?thesis
    using assms False
    by (auto simp: run_one_check_def Let_def emit_def mutate_status_def is_outcome_def phases [unfolded mutate_status_def]
        split: prod.splits sum.splits check_outcome.splits if_splits)
qed

lemma worker_loop_events:
  "worker_loop env c turns s = (ended, s') \<Longrightarrow> \<exists>evs. cs_events s' = cs_events s @ evs \<and> reported ended evs"
proof (induction turns arbitrary: s)
  case (Cons t turns)
  define delay where "delay = delay_for_sample (cc_interval (vc_config c)) (cc_maximum_jitter (vc_config c)) (wt_sample t)"
  define next_check where "next_check = (fst (wt_now t) + int delay, snd (wt_now t))"
  define s1 where "s1 = emit (EventScheduled next_check) (mutate_status (\<lambda>v. v\<lparr>us_phase := Sleeping, us_next_check := Some next_check\<rparr>) s)"
  define trg where "trg = (if wt_wake t = WakeTrigger then Manual else Scheduled)"
  have s1: "cs_events s1 = cs_events s @ [EventScheduled next_check]" by (simp add: s1_def emit_def mutate_status_def)
  have stop: "cs_events (finish_worker x) = cs_events x @ [EventStopped]" for x
    by (simp add: finish_worker_def emit_def mutate_status_def)
  note step = Cons.prems [unfolded worker_loop.simps Let_def, folded delay_def, folded next_check_def, folded s1_def trg_def]
  consider "wt_stopping t" | "\<not> wt_stopping t" "wt_wake t = WakeStop \<or> wt_wake t = WakeDisconnected \<or> wt_stopping_after t"
    | "\<not> wt_stopping t" "\<not> (wt_wake t = WakeStop \<or> wt_wake t = WakeDisconnected)" "\<not> wt_stopping_after t" by blast
  then show ?case
  proof cases
    case 1
    then show ?thesis using step by (auto simp: stop)
  next
    case 2
    then have "ended" "s' = finish_worker s1" using step by (auto split: if_splits)
    then show ?thesis by (simp add: stop s1)
  next
    case 3
    obtain go s2 where go: "run_one_check env c trg (wt_check t) s1 = (go, s2)" by fastforce
    obtain evs where evs: "cs_events s2 = cs_events s1 @ evs"
        "if go then \<exists>a res. evs = [CheckStarted trg a, res] \<and> is_outcome res else evs = [] \<or> (\<exists>a. evs = [CheckStarted trg a])"
      using check_events [OF go] by blast
    show ?thesis
    proof (cases go)
      case True
      then have "worker_loop env c turns s2 = (ended, s')" using step 3 go by simp
      from Cons.IH [OF this] obtain more where "cs_events s' = cs_events s2 @ more" "reported ended more" by blast
      then show ?thesis using evs True s1 by auto
    next
      case False
      then have "ended" "s' = finish_worker s2" using step 3 go by simp_all
      then show ?thesis using evs False s1 by (auto simp: stop)
    qed
  qed
qed simp

text \<open>
  The client reports truthfully: over any run of its worker, each check that is started is followed by exactly one
  outcome before anything else is announced, except for the last one when it is stopped; the end is announced once, as
  the last event, and leaves the status stopped with no check planned.
\<close>

theorem checks_reported_once:
  assumes "update_worker env c first turns s = (ended, s')" and "cs_events s = []"
  shows "reported ended (cs_events s') \<and> (ended \<longrightarrow> us_phase (cs_status s') = Stopped \<and> us_next_check (cs_status s') = None)"
proof -
  have stop: "cs_events (finish_worker x) = cs_events x @ [EventStopped]" "us_phase (cs_status (finish_worker x)) = Stopped"
      "us_next_check (cs_status (finish_worker x)) = None" for x
    by (simp_all add: finish_worker_def emit_def mutate_status_def)
  have loop: "ended \<longrightarrow> us_phase (cs_status s') = Stopped \<and> us_next_check (cs_status s') = None"
    if "worker_loop env c turns x = (ended, s')" for x
    using that by (induction turns arbitrary: x) (auto simp: Let_def stop split: if_splits prod.splits bool.splits)
  show ?thesis
  proof (cases "cc_check_on_start (vc_config c)")
    case False
    then have run: "worker_loop env c turns s = (ended, s')" using assms(1) by (simp add: update_worker_def)
    then show ?thesis using worker_loop_events [OF run] loop [OF run] assms(2) by auto
  next
    case True
    obtain go s2 where go: "run_one_check env c Startup first s = (go, s2)" by fastforce
    obtain evs where evs: "cs_events s2 = evs"
        "if go then \<exists>a res. evs = [CheckStarted Startup a, res] \<and> is_outcome res else evs = [] \<or> (\<exists>a. evs = [CheckStarted Startup a])"
      using check_events [OF go] assms(2) by auto
    show ?thesis
    proof (cases go)
      case True': True
      then have run: "worker_loop env c turns s2 = (ended, s')" using assms(1) True go by (simp add: update_worker_def)
      obtain more where "cs_events s' = cs_events s2 @ more" "reported ended more" using worker_loop_events [OF run] by blast
      then show ?thesis using evs True' loop [OF run] by auto
    next
      case False
      then have "ended" "s' = finish_worker s2" using assms(1) True go by (simp_all add: update_worker_def)
      then show ?thesis using evs False by (auto simp: stop)
    qed
  qed
qed

text \<open>
  An update whose definitions do not load stays installed, and from the next check on the client answers that it is
  current: whatever it offered is compared with the pointer, not with what is in use.
\<close>

lemma rejected_update_reported_current:
  assumes "stage_and_activate (df_update (ce_definitions env)) io MAX_DEFINITION_PAYLOAD_BYTES (ce_key env) e payload now d = (Inr p, d1)"
    and "codec_for (df_update (ce_definitions env)) e" and "\<not> ci_stopping ci"
    and "fetch_bounded (ci_manifest ci) (cc_maximum_envelope_bytes (vc_config c)) = Inr (envelope_to_json (df_update (ce_definitions env)) e)"
    and "verify_manifest (df_update (ce_definitions env)) e (ci_now_authenticate ci) (cc_maximum_payload_bytes (vc_config c)) (ce_key env) = Inr ()"
    and "payload_url (ce_urls env) c (mf_payload_url (en_manifest e)) = Inr u"
  shows "perform_update env c ci d1 = (Inr (AlreadyCurrent (mf_sequence (en_manifest e)) (mf_sequence (en_manifest e))), d1, [AuthenticatingManifest])"
proof -
  let ?u = "df_update (ce_definitions env)"
  obtain installed v where v: "verify_update ?u e payload installed now MAX_DEFINITION_PAYLOAD_BYTES (ce_key env) = Inr v"
    using assms(1) by (auto simp: stage_and_activate_def Let_def split: if_splits sum.splits)
  have pointer: "read_pointer ?u (current_pointer d1) = Inr (Some (pointer_for (en_manifest e)))"
    using staged [OF assms(1)] pointer_for_parses [OF v assms(2)] by simp
  have "eq_ignore_case_bytes (map to_ascii_lowercase s) s" for s
    unfolding eq_ignore_case_bytes_def by (induction s) (auto simp: eq_ignore_ascii_case_def to_ascii_lowercase_idem)
  then have "current_metadata_matches (pointer_for (en_manifest e)) (en_manifest e)"
    by (simp add: current_metadata_matches_def pointer_for_def)
  moreover have "envelope_from_json ?u (envelope_to_json ?u e) = Inr e"
    using assms(2) by (simp add: codec_for_def envelope_from_json_def)
  moreover have "ap_sequence (pointer_for (en_manifest e)) = mf_sequence (en_manifest e)" by (simp add: pointer_for_def)
  ultimately show ?thesis
    using assms(3-6) pointer
    by (simp add: perform_update_def ensure_running_def authenticate_manifest_def classify_offered_sequence_def already_current_def Let_def)
qed

section \<open>An example\<close>

definition example_client_manifest :: manifest where
  "example_client_manifest = example_manifest\<lparr>mf_payload_url := bytes_of ''https://e/p''\<rparr>"

definition example_client_envelope :: envelope where
  "example_client_envelope = example_envelope\<lparr>en_manifest := example_client_manifest\<rparr>"

definition example_client_url :: client_url where
  "example_client_url = \<lparr>u_scheme = ''https'', u_has_host = True, u_has_username = False, u_has_password = False, u_has_fragment = False,
     cu_host = ''e'', cu_port_or_default = None, cu_path = ''/p'', cu_has_query = False\<rparr>"

definition example_client_definitions :: "unit definition_env" where
  "example_client_definitions = example_definition_env\<lparr>df_update := (df_update example_definition_env)
     \<lparr>envelope_of_json := \<lambda>_. Some example_client_envelope, parse_url := \<lambda>_. Some (parsed_url.truncate example_client_url)\<rparr>\<rparr>"

definition example_client_env :: "(unit, unit) client_env" where
  "example_client_env = \<lparr>ce_definitions = example_client_definitions, ce_machine = example_machine, ce_urls = (\<lambda>_. Some example_client_url),
     ce_key = []\<rparr>"

definition example_client_config :: validated_config where
  "example_client_config = \<lparr>vc_manifest_url = example_client_url, vc_manifest_origin = (''e'', 443), vc_allowed_payload_origins = [],
     vc_config = client_config_new (bytes_of ''https://e/m'') ''1''\<rparr>"

definition example_inputs :: check_inputs where
  "example_inputs = \<lparr>ci_stopping = False, ci_manifest = \<lparr>hx_before_body = None, hx_status = 200, hx_reads = [Received [1]]\<rparr>,
     ci_now_authenticate = (1500, 0), ci_payload = \<lparr>hx_before_body = None, hx_status = 200, hx_reads = [Received [7]]\<rparr>,
     ci_now_verify = (1500, 0), ci_stopping_before_activation = False, ci_others = (\<lambda>d. d), ci_io = all_io_ok,
     ci_now_activate = (1500, 0), ci_now_load = (1600, 0)\<rparr>"

lemma example_client_verified:
  "verify_manifest (df_update example_client_definitions) example_client_envelope (1500, 0) MAX_DEFINITION_PAYLOAD_BYTES [] = Inr ()"
  "installed < 3 \<Longrightarrow> verify_update (df_update example_client_definitions) example_client_envelope [7] installed (1500, 0) MAX_DEFINITION_PAYLOAD_BYTES [] =
     Inr \<lparr>vu_manifest = example_client_manifest, vu_payload_sha256 = replicate 32 0\<rparr>"
proof -
  obtain bs where sign: "signing_bytes example_client_manifest = Inr bs"
    using decode_zeros [of 32]
    by (simp add: signing_bytes_def example_client_manifest_def example_manifest_def append_length_prefixed_def u32_max_def
        UPDATE_PRODUCT_ID_def UPDATE_CHANNEL_def bytes_of_def)
  have version: "\<not> is_blank (bytes_of ''v3'')" by code_simp
  have "validate_manifest_shape (df_update example_client_definitions) example_client_manifest = Inr ()"
    using decode_zeros [of 32] version
    by (simp add: validate_manifest_shape_def example_client_manifest_def example_manifest_def UPDATE_SCHEMA_VERSION_def
        MAX_UPDATE_SEQUENCE_def u64_max_def example_client_definitions_def is_https_def time_le_def bytes_of_def example_client_url_def
        parsed_url.truncate_def)
  moreover have "verify_times example_client_manifest (1500, 0) MAX_DEFINITION_PAYLOAD_BYTES = Inr ()"
    by (simp add: verify_times_def example_client_manifest_def example_manifest_def checked_add_seconds_def CHRONO_MAX_SECONDS_def
        MAX_UPDATE_CLOCK_SKEW_def MAX_UPDATE_EXPIRY_HORIZON_def time_less_def time_le_def MAX_DEFINITION_PAYLOAD_BYTES_def)
  ultimately show ok: "verify_manifest (df_update example_client_definitions) example_client_envelope (1500, 0) MAX_DEFINITION_PAYLOAD_BYTES [] = Inr ()"
    using decode_zeros [of 64] sign
    by (simp add: verify_manifest_def example_client_envelope_def example_envelope_def example_client_definitions_def
        example_definition_env_def example_update_env_def)
  then show "verify_update (df_update example_client_definitions) example_client_envelope [7] installed (1500, 0) MAX_DEFINITION_PAYLOAD_BYTES [] =
     Inr \<lparr>vu_manifest = example_client_manifest, vu_payload_sha256 = replicate 32 0\<rparr>" if "installed < 3"
    using decode_zeros [of 32] that
    by (simp add: verify_update_def example_client_envelope_def)
      (simp add: example_client_manifest_def example_manifest_def example_client_definitions_def example_definition_env_def)
qed

lemma example_client_codec: "codec_for (df_update example_client_definitions) example_client_envelope"
  by (simp add: codec_for_def example_client_definitions_def example_definition_env_def example_update_env_def example_client_envelope_def
      MAX_ENVELOPE_BYTES_def example_client_manifest_def pointer_for_def)

lemma example_client_reads: "payload_from_bytes example_client_definitions [7] = Inr example_payload"
proof -
  have "\<not> starts_with [7] COMPACT_PAYLOAD_MAGIC" by code_simp
  then show ?thesis
    by (simp add: payload_from_bytes_def bundle_from_json_def example_client_definitions_def example_definition_env_def example_payload_def
        and_then_def example_bundle_valid MAX_DEFINITION_BUNDLE_BYTES_def)
qed

lemma example_client_builds: "\<exists>engine. build_authenticated_engine example_client_definitions example_machine example_payload config_default = Inr engine"
proof -
  have parts: "df_builtin_source example_client_definitions = df_builtin_source example_definition_env"
      "df_compiles example_client_definitions = df_compiles example_definition_env"
      "df_built example_client_definitions = df_built example_definition_env"
      "bundle_validate (df_update example_client_definitions) (pl_bundle example_payload) =
         bundle_validate (df_update example_definition_env) (pl_bundle example_payload)"
    by (simp_all add: example_client_definitions_def example_payload_def example_bundle_valid)
  have "build_authenticated_engine example_client_definitions example_machine example_payload config_default =
      build_authenticated_engine example_definition_env example_machine example_payload config_default"
    unfolding build_authenticated_engine_def Let_def parts ..
  then show ?thesis using example_builds by simp
qed

lemma example_client_staged:
  "\<exists>d. stage_and_activate (df_update example_client_definitions) all_io_ok MAX_DEFINITION_PAYLOAD_BYTES [] example_client_envelope [7] (1500, 0) fresh_disk =
     (Inr (pointer_for example_client_manifest), d)"
  using example_client_verified(2) [of 0]
  by (simp add: stage_and_activate_def all_io_ok_def installed_sequence_def fresh_disk_def read_pointer_def read_optional_bounded_def
      commit_immutable_version_def move_pointers_def Let_def)

lemma example_fetched:
  "m < usize_max \<Longrightarrow> m \<noteq> 0 \<Longrightarrow> fetch_bounded \<lparr>hx_before_body = None, hx_status = 200, hx_reads = [Received [b]]\<rparr> m = Inr [b]"
  by (simp add: fetch_bounded_def read_turn_def saturating_add_def Let_def usize_max_def HTTP_READ_CHUNK_BYTES_def)

lemma example_installs:
  "\<exists>d phases. perform_update example_client_env example_client_config example_inputs fresh_disk =
     (Inr (InstalledUpdate (pointer_for example_client_manifest)), d, phases)"
proof -
  let ?denv = example_client_definitions
  obtain d where d: "stage_and_activate (df_update ?denv) all_io_ok MAX_DEFINITION_PAYLOAD_BYTES [] example_client_envelope [7] (1500, 0) fresh_disk =
     (Inr (pointer_for example_client_manifest), d)" using example_client_staged by blast
  obtain engine where engine: "build_authenticated_engine ?denv example_machine example_payload config_default = Inr engine"
    using example_client_builds by blast
  have "\<forall>x. sha256_digest (df_update ?denv) x = sha256_digest (df_update ?denv) [7] \<longrightarrow> x = [7]"
    using example_collision_free by (simp add: example_client_definitions_def)
  from activated_loads [OF d example_client_codec this _ _ example_client_reads engine, of "(1600, 0)"]
  have loads: "definitions_load ?denv example_machine d (1600, 0) [] config_default = Inr \<lparr>lo_engine = engine,
      lo_source = source_of Current (pointer_for example_client_manifest) (bu_bundle_id (pl_bundle example_payload)), lo_issues = []\<rparr>"
    by (simp add: time_le_def MAX_UPDATE_CLOCK_SKEW_def CHRONO_MAX_SECONDS_def)
  have limits: "MAX_ENVELOPE_BYTES < usize_max" "MAX_ENVELOPE_BYTES \<noteq> 0" by (simp_all add: MAX_ENVELOPE_BYTES_def usize_max_def)
  have late: "activate_and_load example_client_env example_inputs example_client_envelope [7] fresh_disk =
      (Inr (InstalledUpdate (pointer_for example_client_manifest)), d)"
    using d loads by (simp add: activate_and_load_def example_client_env_def example_inputs_def Let_def source_of_def)
  have size: "mf_payload_size example_client_manifest = 1" "mf_sequence example_client_manifest = 3"
      "en_manifest example_client_envelope = example_client_manifest" "mf_payload_url example_client_manifest = bytes_of ''https://e/p''"
    by (simp_all add: example_client_envelope_def example_client_manifest_def example_manifest_def)
  have body: "fetch_bounded \<lparr>hx_before_body = None, hx_status = 200, hx_reads = [Received [7]]\<rparr> (Suc 0) = Inr [7]"
    using example_fetched [of 1 7] by (simp add: usize_max_def)
  have fetched: "fetch_and_activate example_client_env example_client_config example_inputs example_client_envelope 0 fresh_disk =
      (Inr (InstalledUpdate (pointer_for example_client_manifest)), d, [DownloadingPayload, ValidatingPayload, Activating])"
    using example_client_verified(2) [of 0] example_client_reads late
    by (simp add: fetch_and_activate_def example_client_env_def example_inputs_def example_client_config_def client_config_new_def
        size body usize_max_def ensure_running_def Let_def)
  have "split_authority (bytes_of ''https://e/p'') = Some (bytes_of ''https'', bytes_of ''e/p'')" by code_simp
  moreover have "eq_ignore_case_bytes (bytes_of ''https'') (bytes_of ''https'')" "lower ''e'' = ''e''"
      "bytes_of ''e/p'' \<noteq> []" "hd (bytes_of ''e/p'') \<notin> {byte_of CHR ''/'', byte_of CHR ''?'', byte_of CHR ''#''}"
      "bytes_of ''https://e/p'' \<noteq> []" "\<not> MAX_URL_BYTES < length (bytes_of ''https://e/p'')"
    by code_simp+
  ultimately have url: "payload_url (\<lambda>_. Some example_client_url) example_client_config (bytes_of ''https://e/p'') = Inr example_client_url"
    by (simp add: payload_url_def parse_https_url_def validate_https_url_def origin_from_url_def example_client_url_def and_then_def
        example_client_config_def)
  have parse: "envelope_from_json (df_update ?denv) [1] = Inr example_client_envelope"
    by (simp add: envelope_from_json_def example_client_definitions_def MAX_ENVELOPE_BYTES_def)
  have none: "read_pointer (df_update ?denv) (current_pointer fresh_disk) = Inr None"
    by (simp add: read_pointer_def read_optional_bounded_def fresh_disk_def)
  show ?thesis
    using fetched url parse none example_client_verified(1)
    by (simp add: perform_update_def ensure_running_def example_inputs_def example_client_config_def client_config_new_def
        example_fetched limits authenticate_manifest_def example_client_env_def size classify_offered_sequence_def Let_def)
qed


theorem failed_check_keeps_installed_witness:
  "current_pointer (fst (snd (perform_update example_client_env example_client_config (example_inputs\<lparr>ci_manifest := \<lparr>hx_before_body = Some DeadlineExceeded,
     hx_status = 0, hx_reads = []\<rparr>\<rparr>) fresh_disk))) = NoFile"
proof -
  let ?ci = "example_inputs\<lparr>ci_manifest := \<lparr>hx_before_body = Some DeadlineExceeded, hx_status = 0, hx_reads = []\<rparr>\<rparr>"
  have run: "perform_update example_client_env example_client_config ?ci fresh_disk = (Inl DeadlineExceeded, fresh_disk, [])"
    by (simp add: perform_update_def fetch_bounded_def ensure_running_def example_inputs_def)
  have "current_pointer (ci_others ?ci x) = current_pointer x" for x by (simp add: example_inputs_def)
  from failed_check_keeps_installed [OF run _ this] have "current_pointer (fst (snd (Inl DeadlineExceeded, fresh_disk, []))) = NoFile"
    by (simp add: fresh_disk_def)
  then show ?thesis unfolding run by simp
qed

definition example_turn :: check_turn where
  "example_turn = \<lparr>ct_stopping = False, ct_attempt = (1500, 0), ct_inputs = example_inputs, ct_completed = (1600, 0), ct_stopping_after = False\<rparr>"

theorem checks_reported_once_witness:
  "reported True (cs_events (snd (update_worker example_client_env (example_client_config\<lparr>vc_config := (vc_config example_client_config)\<lparr>cc_check_on_start := False\<rparr>\<rparr>)
     example_turn [\<lparr>wt_stopping = True, wt_sample = 0, wt_now = (0, 0), wt_wake = WakeStop, wt_stopping_after = True, wt_check = example_turn\<rparr>]
     \<lparr>cs_status = update_status_default, cs_events = [], cs_disk = fresh_disk\<rparr>)))"
proof -
  let ?c = "example_client_config\<lparr>vc_config := (vc_config example_client_config)\<lparr>cc_check_on_start := False\<rparr>\<rparr>"
  let ?t = "\<lparr>wt_stopping = True, wt_sample = 0, wt_now = (0, 0), wt_wake = WakeStop, wt_stopping_after = True, wt_check = example_turn\<rparr>"
  let ?s = "\<lparr>cs_status = update_status_default, cs_events = [], cs_disk = fresh_disk\<rparr>"
  have "update_worker example_client_env ?c example_turn [?t] ?s = (True, finish_worker ?s)" by (simp add: update_worker_def)
  from checks_reported_once [OF this] show ?thesis by (simp add: update_worker_def)
qed

end
