(* ===== verification/Scan_Manager.thy ===== *)
theory Scan_Manager
  imports Realtime Quarantine "HOL-Library.Multiset"
begin

text \<open>
  On-demand scans, \<^verbatim>\<open>src/scan_manager.rs\<close>: the enumerator that admits files to a bounded queue, the workers that scan
  them, quarantine what is convicted and count, cancellation, and the end of a scan. The threads interleave: the scan is
  a step relation whose states hold the queue, the files in the hands of workers and the shared progress. What the walk
  over a root yields, and what Windows answers for a file, are arguments of the steps.
\<close>

section \<open>Data\<close>

definition MAX_VISIBLE_FINDINGS :: nat where "MAX_VISIBLE_FINDINGS = 250"

datatype scan_kind = QuickScan | FullScan | CustomScan "bytes list"

definition display_name :: "scan_kind \<Rightarrow> string" where
  "display_name kind = (case kind of QuickScan \<Rightarrow> ''Quick scan'' | FullScan \<Rightarrow> ''Full scan'' | CustomScan _ \<Rightarrow> ''Custom scan'')"

datatype scan_phase = Enumerating | Scanning | Cancelling | Completed | ScanCancelled | Failed

record scan_finding =
  sf_path :: bytes
  sf_report :: detection_report
  sf_quarantine :: "qrecord option"
  sf_action_error :: bool

record scan_progress =
  sp_kind :: scan_kind
  sp_phase :: scan_phase
  sp_current_path :: "bytes option"
  sp_discovered_files :: nat
  sp_scanned_files :: nat
  sp_scanned_bytes :: nat
  sp_clean_files :: nat
  sp_suspicious_files :: nat
  sp_malicious_files :: nat
  sp_quarantined_files :: nat
  sp_errors :: nat
  sp_findings :: "scan_finding list"
  sp_failure :: bool

definition progress_new :: "scan_kind \<Rightarrow> scan_progress" where
  "progress_new kind = \<lparr>sp_kind = kind, sp_phase = Enumerating, sp_current_path = None, sp_discovered_files = 0, sp_scanned_files = 0,
     sp_scanned_bytes = 0, sp_clean_files = 0, sp_suspicious_files = 0, sp_malicious_files = 0, sp_quarantined_files = 0,
     sp_errors = 0, sp_findings = [], sp_failure = False\<rparr>"

definition phase_finished :: "scan_phase \<Rightarrow> bool" where
  "phase_finished ph \<longleftrightarrow> ph \<in> {Completed, ScanCancelled, Failed}"

definition is_finished :: "scan_progress \<Rightarrow> bool" where
  "is_finished p \<longleftrightarrow> phase_finished (sp_phase p)"

section \<open>Which files are scanned\<close>

definition path_file_name :: "bytes \<Rightarrow> bytes" where
  "path_file_name p = rev (takeWhile (\<lambda>b. b \<noteq> 0x2F \<and> b \<noteq> 0x5C) (rev p))"

text \<open>\<^verbatim>\<open>Path::extension\<close>: what follows the last dot of the file name, unless the dot is its first character.\<close>

definition path_extension :: "bytes \<Rightarrow> bytes option" where
  "path_extension p =
     (let name = path_file_name p; ext = rev (takeWhile (\<lambda>b. b \<noteq> 0x2E) (rev name)) in
      if length ext + 1 < length name then Some ext else None)"

definition ARCHIVE_EXTENSIONS :: "string list" where
  "ARCHIVE_EXTENSIONS = [''7z'', ''cab'', ''gz'', ''iso'', ''rar'', ''tar'', ''tgz'', ''xz'', ''zip'']"

definition is_archive_container :: "bytes \<Rightarrow> bool" where
  "is_archive_container p =
     (case path_extension p of None \<Rightarrow> False | Some e \<Rightarrow> map to_ascii_lowercase e \<in> set (map bytes_of ARCHIVE_EXTENSIONS))"

text \<open>\<^verbatim>\<open>\\?\C:\x\<close> back to \<^verbatim>\<open>C:\x\<close>.\<close>

definition strip_verbatim_prefix :: "bytes \<Rightarrow> bytes" where
  "strip_verbatim_prefix p =
     (case after_prefix (map (\<lambda>b. if b = 0x2F then 0x5C else b) (bytes_of ''//?/'')) p of
        Some rest \<Rightarrow> if get_at rest 1 = Some 0x3A then rest else p
      | None \<Rightarrow> p)"

text \<open>\<^verbatim>\<open>Path::join\<close> with a relative name: a separator is added unless there is one or the path is a bare drive.\<close>

definition join_path :: "bytes \<Rightarrow> string \<Rightarrow> bytes" where
  "join_path p name =
     (if p = [] \<or> last p \<in> {0x5C, 0x2F} \<or> length p = 2 \<and> last p = 0x3A then p @ bytes_of name else p @ 0x5C # bytes_of name)"

text \<open>The environment variables, the drives of the machine as a bit mask, and the type of each.\<close>

record machine_roots =
  mr_profile :: "bytes option"
  mr_program_data :: "bytes option"
  mr_temp :: "bytes option"
  mr_drives :: "32 word"
  mr_drive_type :: "bytes \<Rightarrow> nat"

definition START_MENU :: "string list" where
  "START_MENU = [''Microsoft'', ''Windows'', ''Start Menu'', ''Programs'']"

definition quick_scan_roots :: "machine_roots \<Rightarrow> bytes list" where
  "quick_scan_roots m =
     (case mr_profile m of
        None \<Rightarrow> []
      | Some p \<Rightarrow> [join_path p ''Desktop'', join_path p ''Downloads'', foldl join_path p [''AppData'', ''Local'', ''Temp''],
                   foldl join_path p ([''AppData'', ''Roaming''] @ START_MENU @ [''Startup''])]) @
     (case mr_program_data m of None \<Rightarrow> [] | Some p \<Rightarrow> [foldl join_path p (START_MENU @ [''StartUp''])]) @
     (case mr_temp m of None \<Rightarrow> [] | Some p \<Rightarrow> [p])"

definition DRIVE_NO_ROOT_DIR :: nat where "DRIVE_NO_ROOT_DIR = 1"
definition DRIVE_REMOTE :: nat where "DRIVE_REMOTE = 4"

definition full_scan_roots :: "machine_roots \<Rightarrow> bool \<Rightarrow> bytes list" where
  "full_scan_roots m include_network_drives =
     filter (\<lambda>root. let t = mr_drive_type m root in t \<noteq> DRIVE_NO_ROOT_DIR \<and> (include_network_drives \<or> t \<noteq> DRIVE_REMOTE))
       (map (\<lambda>i. [0x41 + of_nat i, 0x3A, 0x5C]) (filter (\<lambda>i. bit (mr_drives m) i) [0..<26]))"

text \<open>The roots of a kind, made canonical where that works, sorted (by bytes; the code compares component by component), without repetition.\<close>

definition scan_roots :: "(bytes \<Rightarrow> bytes option) \<Rightarrow> machine_roots \<Rightarrow> bool \<Rightarrow> scan_kind \<Rightarrow> bytes list" where
  "scan_roots canonical m include_network_drives kind =
     (let roots = (case kind of
            QuickScan \<Rightarrow> quick_scan_roots m
          | FullScan \<Rightarrow> full_scan_roots m include_network_drives
          | CustomScan paths \<Rightarrow> paths)
      in remdups_adj (sort (map strip_verbatim_prefix (List.map_filter canonical roots))))"

text \<open>An entry of the walk: a failure, something that is no file, or a file with what the system says of it.\<close>

record file_entry =
  fe_path :: bytes
  fe_in_store :: bool
  fe_length :: "nat option"

datatype walk_entry = WalkFailed | OtherEntry | FileEntry file_entry

record scan_settings =
  ss_paths :: path_env
  ss_settings :: settings

definition should_descend :: "scan_settings \<Rightarrow> bytes \<Rightarrow> bool \<Rightarrow> bool" where
  "should_descend s path in_store \<longleftrightarrow> \<not> is_excluded (ss_paths s) (ss_settings s) path \<and> \<not> in_store"

text \<open>
  What is below a root, as the walking crate documents it: an entry that is filtered out is neither yielded nor entered,
  a directory is yielded before its entries, and what cannot be read is yielded as a failure. A root that is itself a
  file is taken without the filter.
\<close>

datatype node = FileNode file_entry | OtherNode bytes bool | Unreadable | DirNode bytes bool "node list"

fun walk_entries :: "scan_settings \<Rightarrow> node \<Rightarrow> walk_entry list" where
  "walk_entries s (FileNode e) = (if should_descend s (fe_path e) (fe_in_store e) then [FileEntry e] else [])"
| "walk_entries s (OtherNode p in_store) = (if should_descend s p in_store then [OtherEntry] else [])"
| "walk_entries s Unreadable = [WalkFailed]"
| "walk_entries s (DirNode p in_store nodes) =
     (if should_descend s p in_store then OtherEntry # concat (map (walk_entries s) nodes) else [])"

fun root_entries :: "scan_settings \<Rightarrow> node \<Rightarrow> walk_entry list" where
  "root_entries s (FileNode e) = [FileEntry e]"
| "root_entries s n = walk_entries s n"

definition enumeration :: "scan_settings \<Rightarrow> node list \<Rightarrow> walk_entry list" where
  "enumeration s roots = concat (map (root_entries s) roots)"

definition passed_over :: "scan_settings \<Rightarrow> file_entry \<Rightarrow> bool" where
  "passed_over s e \<longleftrightarrow> is_excluded (ss_paths s) (ss_settings s) (fe_path e) \<or> fe_in_store e \<or>
     (\<not> scan_archives (ss_settings s) \<and> is_archive_container (fe_path e))"

datatype admission = Admit | PassOver | CountError

definition admission_of :: "scan_settings \<Rightarrow> file_entry \<Rightarrow> admission" where
  "admission_of s e =
     (if passed_over s e then PassOver
      else case fe_length e of
        None \<Rightarrow> CountError
      | Some n \<Rightarrow> if n \<le> min (max_file_size_mb (ss_settings s) * (1024 * 1024)) u64_max then Admit else PassOver)"

definition worker_total :: "settings \<Rightarrow> nat" where
  "worker_total s = max 1 (if low_resource_mode s then min (worker_count s) 2 else worker_count s)"

definition queue_limit :: "settings \<Rightarrow> nat" where
  "queue_limit s = worker_total s * 8"

section \<open>What a worker does with a file\<close>

text \<open>The engine on the path: the answers of the file system to it.\<close>

record ('r, 'a) scan_env =
  se_detection :: "('r, 'a) detection_env"
  se_engine :: "('r, 'a) detection_engine"
  se_quarantine :: quarantine_env
  se_scan_settings :: scan_settings

record file_answers =
  fa_regular :: "bool option"
  fa_opened :: "opened_file option"
  fa_quarantine :: quarantine_io
  fa_now :: nat

text \<open>What a threat is called, and the digest the quarantine must find again; without a digest it is withheld.\<close>

definition quarantine_threat :: "('r, 'a) scan_env \<Rightarrow> file_answers \<Rightarrow> detection_report \<Rightarrow> quarantine_state \<Rightarrow>
    (quarantine_error + qrecord) \<times> quarantine_state" where
  "quarantine_threat env fa r q =
     (case d_sha256 r of
        None \<Rightarrow> (Inl QIo, q)
      | Some hash \<Rightarrow>
          quarantine_inner (se_quarantine env) (fa_quarantine fa)
            (text_of (case d_threat_name r of None \<Rightarrow> ''Known.Malware'' | Some n \<Rightarrow> n)) (d_risk_score r) (bytes_of hash) (d_file_size r) None q)"

definition threat_event :: "nat \<Rightarrow> event_kind \<Rightarrow> string \<Rightarrow> bytes \<Rightarrow> string option \<Rightarrow> nat \<Rightarrow> security_event" where
  "threat_event now kind summary path threat score =
     (event_new now kind summary)\<lparr>ev_path := Some path, ev_threat_name := threat, ev_risk_score := Some score\<rparr>"

text \<open>The record, whether the action failed, whether the file is isolated, and the event, without its text of details.\<close>

record action_outcome =
  ao_record :: "qrecord option"
  ao_error :: bool
  ao_isolated :: bool
  ao_events :: "security_event list"

definition act_on :: "('r, 'a) scan_env \<Rightarrow> bytes \<Rightarrow> file_answers \<Rightarrow> detection_report \<Rightarrow> quarantine_state \<Rightarrow> action_outcome \<times> quarantine_state" where
  "act_on env path fa r q =
     (if should_quarantine r \<and> automatic_quarantine (ss_settings (se_scan_settings env))
      then (case quarantine_threat env fa r q of
              (Inr rec, q) \<Rightarrow>
                let isolated = (qr_state rec = Isolated) in
                (\<lparr>ao_record = Some rec, ao_error = (\<not> isolated), ao_isolated = isolated,
                  ao_events = [threat_event (fa_now fa) (if isolated then MovedToQuarantine else QuarantineFailed)
                    (if isolated then ''Threat moved to quarantine'' else ''Threat detected; original could not be removed'') path
                    (Some (case d_threat_name r of None \<Rightarrow> ''Known.Malware'' | Some n \<Rightarrow> n)) (d_risk_score r)]\<rparr>, q)
            | (Inl e, q) \<Rightarrow>
                (\<lparr>ao_record = None, ao_error = True, ao_isolated = False,
                  ao_events = [threat_event (fa_now fa) QuarantineFailed ''Threat detected; quarantine failed'' path (d_threat_name r) (d_risk_score r)]\<rparr>, q))
      else (\<lparr>ao_record = None, ao_error = False, ao_isolated = False, ao_events = []\<rparr>, q))"

definition count_verdict :: "detection_verdict \<Rightarrow> scan_progress \<Rightarrow> scan_progress" where
  "count_verdict v p =
     (case v of
        DClean \<Rightarrow> p\<lparr>sp_clean_files := sp_clean_files p + 1\<rparr>
      | DSuspicious \<Rightarrow> p\<lparr>sp_suspicious_files := sp_suspicious_files p + 1\<rparr>
      | DMalicious \<Rightarrow> p\<lparr>sp_malicious_files := sp_malicious_files p + 1\<rparr>
      | DError \<Rightarrow> p\<lparr>sp_errors := sp_errors p + 1\<rparr>)"

definition note_finding :: "scan_finding \<Rightarrow> scan_progress \<Rightarrow> scan_progress" where
  "note_finding f p =
     p\<lparr>sp_findings := (if length (sp_findings p) = MAX_VISIBLE_FINDINGS then tl (sp_findings p) else sp_findings p) @ [f]\<rparr>"

definition note_isolated :: "action_outcome \<Rightarrow> scan_progress \<Rightarrow> scan_progress" where
  "note_isolated ao p = (if ao_isolated ao then p\<lparr>sp_quarantined_files := sp_quarantined_files p + 1\<rparr> else p)"

definition finding_of :: "bytes \<Rightarrow> detection_report \<Rightarrow> action_outcome \<Rightarrow> scan_finding" where
  "finding_of path r ao = \<lparr>sf_path = path, sf_report = r, sf_quarantine = ao_record ao, sf_action_error = ao_error ao\<rparr>"

definition record_result :: "bytes \<Rightarrow> detection_report \<Rightarrow> action_outcome \<Rightarrow> scan_progress \<Rightarrow> scan_progress" where
  "record_result path r ao p =
     (let p = p\<lparr>sp_scanned_files := sp_scanned_files p + 1, sp_scanned_bytes := saturating_add u64_max (sp_scanned_bytes p) (d_file_size r)\<rparr>;
          p = count_verdict (d_verdict r) p
      in if d_verdict r \<noteq> DClean then note_finding (finding_of path r ao) p else p)"

section \<open>The scan\<close>

text \<open>
  Where the enumerator is: before the next entry, offering an admitted file to a full queue, having sent one it has not
  counted yet, or at its end. A file in the hands of a worker is taken, announced as the current one, scanned, or acted on.
\<close>

datatype enumerator = Walking "walk_entry list" | Offering bytes "walk_entry list" | Sent "walk_entry list" | EnumerationEnded

record processed =
  pr_path :: bytes
  pr_answers :: file_answers
  pr_report :: detection_report
  pr_outcome :: action_outcome

datatype hand = Taken bytes | Announced bytes | Reported bytes file_answers detection_report | Acted processed

fun hand_path :: "hand \<Rightarrow> bytes" where
  "hand_path (Taken path) = path"
| "hand_path (Announced path) = path"
| "hand_path (Reported path _ _) = path"
| "hand_path (Acted done) = pr_path done"

text \<open>\<open>sc_done\<close>, the files whose results were counted, and \<open>sc_walk_errors\<close> are history variables.\<close>

record scan_state =
  sc_progress :: scan_progress
  sc_cancelled :: bool
  sc_enumerator :: enumerator
  sc_queue :: "bytes list"
  sc_workers :: nat
  sc_hands :: "hand list"
  sc_breakers :: breakers
  sc_store :: quarantine_state
  sc_events :: "security_event list"
  sc_over :: bool
  sc_done :: "processed list"
  sc_walk_errors :: nat

definition finish_failed :: "scan_progress \<Rightarrow> scan_progress" where
  "finish_failed p = p\<lparr>sp_phase := Failed, sp_failure := True\<rparr>"

text \<open>The beginning of a scan: the event, and the failure when no root can be reached.\<close>

definition scan_start :: "scan_settings \<Rightarrow> scan_kind \<Rightarrow> nat \<Rightarrow> node list \<Rightarrow> breakers \<Rightarrow> quarantine_state \<Rightarrow> scan_state" where
  "scan_start s kind now roots st q =
     \<lparr>sc_progress = (if roots = [] then finish_failed (progress_new kind) else progress_new kind), sc_cancelled = False,
      sc_enumerator = (if roots = [] then EnumerationEnded else Walking (enumeration s roots)), sc_queue = [], sc_workers = (if roots = [] then 0 else worker_total (ss_settings s)),
      sc_hands = [], sc_breakers = st, sc_store = q, sc_events = [event_new now ScanStarted (display_name kind)], sc_over = (roots = []),
      sc_done = [], sc_walk_errors = 0\<rparr>"

definition count_walk_error :: "scan_state \<Rightarrow> scan_state" where
  "count_walk_error s =
     s\<lparr>sc_progress := (sc_progress s)\<lparr>sp_errors := sp_errors (sc_progress s) + 1\<rparr>, sc_walk_errors := sc_walk_errors s + 1\<rparr>"

definition consider_file :: "scan_settings \<Rightarrow> file_entry \<Rightarrow> walk_entry list \<Rightarrow> scan_state \<Rightarrow> scan_state" where
  "consider_file ss e later s =
     (case admission_of ss e of
        Admit \<Rightarrow> s\<lparr>sc_enumerator := Offering (fe_path e) later\<rparr>
      | PassOver \<Rightarrow> s\<lparr>sc_enumerator := Walking later\<rparr>
      | CountError \<Rightarrow> (count_walk_error s)\<lparr>sc_enumerator := Walking later\<rparr>)"

definition consider_entry :: "scan_settings \<Rightarrow> walk_entry \<Rightarrow> walk_entry list \<Rightarrow> scan_state \<Rightarrow> scan_state" where
  "consider_entry ss entry later s =
     (case entry of
        WalkFailed \<Rightarrow> (count_walk_error s)\<lparr>sc_enumerator := Walking later\<rparr>
      | OtherEntry \<Rightarrow> s\<lparr>sc_enumerator := Walking later\<rparr>
      | FileEntry e \<Rightarrow> consider_file ss e later s)"

definition cancel :: "scan_state \<Rightarrow> scan_state" where
  "cancel s = s\<lparr>sc_cancelled := True,
     sc_progress := (if is_finished (sc_progress s) then sc_progress s else (sc_progress s)\<lparr>sp_phase := Cancelling\<rparr>)\<rparr>"

text \<open>Dropping the job only raises the flag.\<close>

definition abandon :: "scan_state \<Rightarrow> scan_state" where
  "abandon s = s\<lparr>sc_cancelled := True\<rparr>"

definition announce :: "bytes \<Rightarrow> scan_progress \<Rightarrow> scan_progress" where
  "announce path p = p\<lparr>sp_phase := Scanning, sp_current_path := Some path\<rparr>"

definition scan_summary :: "scan_progress \<Rightarrow> string" where
  "scan_summary p = display_name (sp_kind p) @ '': '' @ show_nat (sp_scanned_files p) @ '' files, '' @ show_nat (sp_malicious_files p) @
     '' malicious, '' @ show_nat (sp_suspicious_files p) @ '' suspicious''"

definition finish_scan :: "nat \<Rightarrow> scan_state \<Rightarrow> scan_state" where
  "finish_scan now s =
     s\<lparr>sc_progress := (sc_progress s)\<lparr>sp_current_path := None, sp_phase := (if sc_cancelled s then ScanCancelled else Completed)\<rparr>,
       sc_events := sc_events s @ [event_new now ScanCompleted (scan_summary (sc_progress s))], sc_over := True\<rparr>"

text \<open>
  The threads interleave. The enumerator looks at the flag before each entry and before each attempt to send, a worker
  before it takes; since the flag may be raised after the look, sending and taking are possible in both cases. A panic
  inside the analysis becomes a report, so no worker is lost.
\<close>

inductive scan_step :: "('r, 'a) scan_env \<Rightarrow> scan_state \<Rightarrow> scan_state \<Rightarrow> bool" for env where
  considers: "sc_enumerator s = Walking (entry # later) \<Longrightarrow> \<not> sc_cancelled s \<Longrightarrow>
    scan_step env s (consider_entry (se_scan_settings env) entry later s)"
| sends: "sc_enumerator s = Offering path later \<Longrightarrow> length (sc_queue s) < queue_limit (ss_settings (se_scan_settings env)) \<Longrightarrow>
    scan_step env s (s\<lparr>sc_enumerator := Sent later, sc_queue := sc_queue s @ [path]\<rparr>)"
| discovers: "sc_enumerator s = Sent later \<Longrightarrow>
    scan_step env s (s\<lparr>sc_enumerator := Walking later,
      sc_progress := (sc_progress s)\<lparr>sp_discovered_files := sp_discovered_files (sc_progress s) + 1\<rparr>\<rparr>)"
| gives_up: "sc_enumerator s \<in> {Walking later, Offering path later} \<Longrightarrow> sc_cancelled s \<Longrightarrow>
    scan_step env s (s\<lparr>sc_enumerator := EnumerationEnded\<rparr>)"
| walked: "sc_enumerator s = Walking [] \<Longrightarrow> scan_step env s (s\<lparr>sc_enumerator := EnumerationEnded\<rparr>)"
| takes: "sc_queue s = path # q \<Longrightarrow> length (sc_hands s) < sc_workers s \<Longrightarrow>
    scan_step env s (s\<lparr>sc_queue := q, sc_hands := Taken path # sc_hands s\<rparr>)"
| announces: "sc_hands s = hs @ Taken path # hs' \<Longrightarrow>
    scan_step env s (s\<lparr>sc_progress := announce path (sc_progress s), sc_hands := hs @ Announced path # hs'\<rparr>)"
| scans: "sc_hands s = hs @ Announced path # hs' \<Longrightarrow>
    detection_scan_path (se_detection env) (se_engine env) (fa_regular fa) (fa_opened fa) (sc_breakers s) = (r, st) \<Longrightarrow>
    scan_step env s (s\<lparr>sc_breakers := st, sc_hands := hs @ Reported path fa r # hs'\<rparr>)"
| acts: "sc_hands s = hs @ Reported path fa r # hs' \<Longrightarrow> act_on env path fa r (sc_store s) = (ao, q) \<Longrightarrow>
    scan_step env s (s\<lparr>sc_store := q, sc_progress := note_isolated ao (sc_progress s), sc_events := sc_events s @ ao_events ao,
      sc_hands := hs @ Acted \<lparr>pr_path = path, pr_answers = fa, pr_report = r, pr_outcome = ao\<rparr> # hs'\<rparr>)"
| records: "sc_hands s = hs @ Acted done # hs' \<Longrightarrow>
    scan_step env s (s\<lparr>sc_progress := record_result (pr_path done) (pr_report done) (pr_outcome done) (sc_progress s),
      sc_hands := hs @ hs', sc_done := sc_done s @ [done]\<rparr>)"
| leaves: "length (sc_hands s) < sc_workers s \<Longrightarrow> sc_cancelled s \<or> sc_queue s = [] \<and> sc_enumerator s = EnumerationEnded \<Longrightarrow>
    scan_step env s (s\<lparr>sc_workers := sc_workers s - 1\<rparr>)"
| cancels: "scan_step env s (cancel s)"
| abandons: "scan_step env s (abandon s)"
| ends: "sc_enumerator s = EnumerationEnded \<Longrightarrow> sc_workers s = 0 \<Longrightarrow> \<not> sc_over s \<Longrightarrow> scan_step env s (finish_scan now s)"

inductive_cases scan_stepE: "scan_step env s s'"

definition scan_reaches :: "('r, 'a) scan_env \<Rightarrow> scan_kind \<Rightarrow> nat \<Rightarrow> node list \<Rightarrow> breakers \<Rightarrow> quarantine_state \<Rightarrow> scan_state \<Rightarrow> bool" where
  "scan_reaches env kind now roots st q s \<longleftrightarrow> (scan_step env)\<^sup>*\<^sup>* (scan_start (se_scan_settings env) kind now roots st q) s"

lemma reached_invariant:
  assumes "scan_reaches env kind now roots st q s" and "P (scan_start (se_scan_settings env) kind now roots st q)"
    and "\<And>s s'. scan_step env s s' \<Longrightarrow> P s \<Longrightarrow> P s'"
  shows "P s"
  using assms(1) unfolding scan_reaches_def by (induction rule: rtranclp_induct) (use assms(2,3) in blast)+

section \<open>A scan comes to its end\<close>

fun enumerator_left :: "enumerator \<Rightarrow> nat" where
  "enumerator_left (Walking later) = 10 * length later + 2"
| "enumerator_left (Offering _ later) = 10 * length later + 10"
| "enumerator_left (Sent later) = 10 * length later + 3"
| "enumerator_left EnumerationEnded = 0"

fun hand_left :: "hand \<Rightarrow> nat" where
  "hand_left (Taken _) = 5"
| "hand_left (Announced _) = 4"
| "hand_left (Reported _ _ _) = 3"
| "hand_left (Acted _) = 2"

text \<open>A bound on the steps that are left, cancelling apart.\<close>

definition steps_left :: "scan_state \<Rightarrow> nat" where
  "steps_left s = enumerator_left (sc_enumerator s) + 6 * length (sc_queue s) + sum_list (map hand_left (sc_hands s)) + sc_workers s +
     (if sc_over s then 0 else 1)"

lemma considered_fields [simp]:
  "sc_queue (consider_entry ss entry later s) = sc_queue s" "sc_hands (consider_entry ss entry later s) = sc_hands s"
  "sc_workers (consider_entry ss entry later s) = sc_workers s" "sc_over (consider_entry ss entry later s) = sc_over s"
  "sc_cancelled (consider_entry ss entry later s) = sc_cancelled s" "sc_done (consider_entry ss entry later s) = sc_done s"
  "sc_store (consider_entry ss entry later s) = sc_store s"
  "sp_phase (sc_progress (consider_entry ss entry later s)) = sp_phase (sc_progress s)"
  by (auto simp: consider_entry_def consider_file_def count_walk_error_def split: walk_entry.split admission.split)

lemma considered_left: "enumerator_left (sc_enumerator (consider_entry ss entry later s)) \<le> 10 * length later + 10"
  by (auto simp: consider_entry_def consider_file_def split: walk_entry.split admission.split)

lemma cancel_fields [simp]:
  "sc_enumerator (cancel s) = sc_enumerator s" "sc_queue (cancel s) = sc_queue s" "sc_hands (cancel s) = sc_hands s"
  "sc_workers (cancel s) = sc_workers s" "sc_over (cancel s) = sc_over s" "sc_cancelled (cancel s)" "sc_done (cancel s) = sc_done s"
  "sc_store (cancel s) = sc_store s" "sc_walk_errors (cancel s) = sc_walk_errors s"
  by (simp_all add: cancel_def)

lemma abandon_fields [simp]:
  "sc_enumerator (abandon s) = sc_enumerator s" "sc_queue (abandon s) = sc_queue s" "sc_hands (abandon s) = sc_hands s"
  "sc_workers (abandon s) = sc_workers s" "sc_over (abandon s) = sc_over s" "sc_cancelled (abandon s)" "sc_done (abandon s) = sc_done s"
  "sc_store (abandon s) = sc_store s" "sc_walk_errors (abandon s) = sc_walk_errors s" "sc_progress (abandon s) = sc_progress s"
  by (simp_all add: abandon_def)

lemma cancel_phase [simp]: "sp_phase (sc_progress (cancel s)) = (if is_finished (sc_progress s) then sp_phase (sc_progress s) else Cancelling)"
  by (simp add: cancel_def)

lemma finish_fields [simp]:
  "sc_enumerator (finish_scan now s) = sc_enumerator s" "sc_queue (finish_scan now s) = sc_queue s" "sc_hands (finish_scan now s) = sc_hands s"
  "sc_workers (finish_scan now s) = sc_workers s" "sc_over (finish_scan now s)" "sc_cancelled (finish_scan now s) = sc_cancelled s"
  "sc_done (finish_scan now s) = sc_done s" "sc_store (finish_scan now s) = sc_store s"
  "sc_walk_errors (finish_scan now s) = sc_walk_errors s"
  "sp_phase (sc_progress (finish_scan now s)) = (if sc_cancelled s then ScanCancelled else Completed)"
  by (simp_all add: finish_scan_def)

lemma step_decreases:
  assumes "scan_step env s s'"
  shows "s' \<in> {cancel s, abandon s} \<or> steps_left s' < steps_left s"
  using assms
proof (induction rule: scan_step.induct)
  case (considers s entry later)
  then show ?case using considered_left [of "se_scan_settings env" entry later s] by (simp add: steps_left_def)
qed (auto simp: steps_left_def)

text \<open>The shape of reachable states: when workers leave, and when the scan is over.\<close>

definition scan_shape :: "scan_settings \<Rightarrow> scan_state \<Rightarrow> bool" where
  "scan_shape ss s \<longleftrightarrow>
     length (sc_hands s) \<le> sc_workers s \<and> sc_workers s \<le> worker_total (ss_settings ss) \<and>
     length (sc_queue s) \<le> queue_limit (ss_settings ss) \<and>
     (sc_workers s < worker_total (ss_settings ss) \<longrightarrow>
        sc_queue s = [] \<and> sc_enumerator s = EnumerationEnded \<or> sc_cancelled s \<and> sp_phase (sc_progress s) \<noteq> Completed) \<and>
     (sc_over s \<longrightarrow> sc_enumerator s = EnumerationEnded \<and> sc_workers s = 0 \<and> is_finished (sc_progress s)) \<and>
     (is_finished (sc_progress s) \<longrightarrow> sc_over s)"

lemma worker_total_pos: "0 < worker_total s" by (simp add: worker_total_def)

lemma recorded_phase [simp]: "sp_phase (record_result path r ao p) = sp_phase p"
  by (simp add: record_result_def note_finding_def count_verdict_def Let_def split: detection_verdict.split)

lemma isolated_phase [simp]: "sp_phase (note_isolated ao p) = sp_phase p"
  by (simp add: note_isolated_def)

lemma shape_step:
  assumes "scan_step env s s'" and "scan_shape (se_scan_settings env) s"
  shows "scan_shape (se_scan_settings env) s'"
  using assms
proof (induction rule: scan_step.induct)
  case (considers s entry later)
  then show ?case by (auto simp: scan_shape_def is_finished_def)
next
  case (cancels s)
  then show ?case by (auto simp: scan_shape_def is_finished_def phase_finished_def)
next
  case (ends s now)
  then show ?case using worker_total_pos [of "ss_settings (se_scan_settings env)"]
    by (auto simp: scan_shape_def is_finished_def phase_finished_def)
qed (auto simp: scan_shape_def is_finished_def phase_finished_def announce_def)

lemma shape_reached: "scan_reaches env kind now roots st q s \<Longrightarrow> scan_shape (se_scan_settings env) s"
  by (erule reached_invariant) (simp add: scan_shape_def scan_start_def progress_new_def finish_failed_def is_finished_def phase_finished_def, blast intro: shape_step)

lemma hand_moves:
  assumes "sc_hands s = h # hs"
  obtains s' where "scan_step env s s'" "sc_hands s' \<noteq> sc_hands s"
proof (cases h)
  case (Taken path)
  with assms scan_step.announces [of s "[]" path hs env] that show ?thesis by fastforce
next
  case (Announced path)
  define fa :: file_answers where "fa = undefined"
  obtain r st' where "detection_scan_path (se_detection env) (se_engine env) (fa_regular fa) (fa_opened fa) (sc_breakers s) = (r, st')"
    by fastforce
  from scan_step.scans [OF _ this, of "[]" path hs] Announced assms that show ?thesis by simp
next
  case (Reported path fa r)
  obtain ao q where "act_on env path fa r (sc_store s) = (ao, q)" by fastforce
  from scan_step.acts [OF _ this, of "[]" hs] Reported assms that show ?thesis by simp
next
  case (Acted d)
  with assms scan_step.records [of s "[]" d hs env] that show ?thesis by fastforce
qed

lemma enumerator_moves:
  assumes "sc_enumerator s \<noteq> EnumerationEnded" and "sc_cancelled s \<or> length (sc_queue s) < queue_limit (ss_settings (se_scan_settings env))"
  obtains s' where "scan_step env s s'" "sc_enumerator s' \<noteq> sc_enumerator s"
proof (cases "sc_enumerator s")
  case (Walking l)
  show ?thesis
  proof (cases l)
    case Nil
    with Walking scan_step.walked [of s env] that show ?thesis by fastforce
  next
    case (Cons entry later)
    have "enumerator_left (sc_enumerator (consider_entry (se_scan_settings env) entry later s)) \<noteq> enumerator_left (sc_enumerator s)"
      using considered_left [of "se_scan_settings env" entry later s] Walking Cons by auto
    then have moved: "sc_enumerator (consider_entry (se_scan_settings env) entry later s) \<noteq> sc_enumerator s" by metis
    show ?thesis
    proof (cases "sc_cancelled s")
      case True
      with Walking scan_step.gives_up [of s l _ env] that show ?thesis by fastforce
    next
      case False
      with Walking Cons scan_step.considers [of s entry later env] moved that show ?thesis by simp
    qed
  qed
next
  case (Offering p l)
  with assms(2) scan_step.sends [of s p l env] scan_step.gives_up [of s l p env] that show ?thesis by fastforce
next
  case (Sent l)
  with scan_step.discovers [of s l env] that show ?thesis by fastforce
qed (use assms in simp)

lemma some_step:
  assumes "scan_shape (se_scan_settings env) s" and "\<not> sc_over s"
  shows "\<exists>s'. scan_step env s s' \<and> steps_left s' < steps_left s"
proof -
  have room: "0 < queue_limit (ss_settings (se_scan_settings env))" by (simp add: queue_limit_def worker_total_pos)
  have moved: "s' \<notin> {cancel s, abandon s}" if "sc_enumerator s' \<noteq> sc_enumerator s \<or> sc_workers s' \<noteq> sc_workers s \<or>
      sc_queue s' \<noteq> sc_queue s \<or> sc_hands s' \<noteq> sc_hands s \<or> sc_over s' \<noteq> sc_over s" for s' using that by auto
  consider (hand) h hs where "sc_hands s = h # hs" | (take) path rest where "sc_hands s = []" "sc_workers s \<noteq> 0" "sc_queue s = path # rest"
    | (leave) "sc_hands s = []" "sc_workers s \<noteq> 0" "sc_queue s = []" "sc_enumerator s = EnumerationEnded"
    | (enumerate) "sc_queue s = [] \<or> sc_cancelled s" "sc_enumerator s \<noteq> EnumerationEnded"
    | (over) "sc_workers s = 0" "sc_enumerator s = EnumerationEnded"
    using assms(1) worker_total_pos [of "ss_settings (se_scan_settings env)"]
    by (cases "sc_hands s"; cases "sc_queue s") (auto simp: scan_shape_def)
  then have "\<exists>s'. scan_step env s s' \<and> s' \<notin> {cancel s, abandon s}"
  proof cases
    case hand
    then show ?thesis using hand_moves moved by metis
  next
    case take
    with scan_step.takes [of s path rest env] moved [of "s\<lparr>sc_queue := rest, sc_hands := [Taken path]\<rparr>"] show ?thesis by auto
  next
    case leave
    with scan_step.leaves [of s env] moved [of "s\<lparr>sc_workers := sc_workers s - 1\<rparr>"] show ?thesis by fastforce
  next
    case enumerate
    then show ?thesis using enumerator_moves [of s env] room moved by (metis length_0_conv)
  next
    case over
    with assms(2) scan_step.ends [of s env] moved show ?thesis by (metis finish_fields(5))
  qed
  then show ?thesis using step_decreases by blast
qed

lemma cancel_left: "steps_left (cancel s) = steps_left s" "steps_left (abandon s) = steps_left s"
  by (simp_all add: steps_left_def)

text \<open>
  (C40) A scan comes to its end, cancelled or not: in every reachable state of an unfinished scan some thread can go on,
  and every step but a further request to cancel brings the end closer by the same measure, so that at most as many
  steps are left; whatever the interleaving, the enumerator and the workers never wait for each other.
\<close>

theorem scan_ends:
  assumes "scan_reaches env kind now roots st q s" and "\<not> sc_over s"
  shows "(\<exists>s'. scan_step env s s' \<and> steps_left s' < steps_left s) \<and>
    (\<forall>s'. scan_step env s s' \<longrightarrow> s' \<in> {cancel s, abandon s} \<or> steps_left s' < steps_left s) \<and>
    steps_left (cancel s) = steps_left s \<and> steps_left (abandon s) = steps_left s"
  using some_step [OF shape_reached [OF assms(1)] assms(2)] step_decreases cancel_left by blast

section \<open>Every file once\<close>

text \<open>What a walk yields: the files that are admitted, and the entries that are counted as errors.\<close>

fun entry_paths :: "scan_settings \<Rightarrow> walk_entry \<Rightarrow> bytes list" where
  "entry_paths ss (FileEntry e) = (if admission_of ss e = Admit then [fe_path e] else [])"
| "entry_paths ss _ = []"

definition admitted_paths :: "scan_settings \<Rightarrow> walk_entry list \<Rightarrow> bytes list" where
  "admitted_paths ss es = concat (map (entry_paths ss) es)"

fun entry_fails :: "scan_settings \<Rightarrow> walk_entry \<Rightarrow> bool" where
  "entry_fails ss WalkFailed = True"
| "entry_fails ss OtherEntry = False"
| "entry_fails ss (FileEntry e) = (admission_of ss e = CountError)"

definition failed_entries :: "scan_settings \<Rightarrow> walk_entry list \<Rightarrow> nat" where
  "failed_entries ss es = length (filter (entry_fails ss) es)"

fun still_ahead :: "enumerator \<Rightarrow> bytes list \<times> walk_entry list" where
  "still_ahead (Walking later) = ([], later)"
| "still_ahead (Offering path later) = ([path], later)"
| "still_ahead (Sent later) = ([], later)"
| "still_ahead EnumerationEnded = ([], [])"

definition ahead_paths :: "scan_settings \<Rightarrow> enumerator \<Rightarrow> bytes list" where
  "ahead_paths ss e = fst (still_ahead e) @ admitted_paths ss (snd (still_ahead e))"

lemma ahead_simps [simp]:
  "ahead_paths ss (Walking later) = admitted_paths ss later" "ahead_paths ss (Offering path later) = path # admitted_paths ss later"
  "ahead_paths ss (Sent later) = admitted_paths ss later" "ahead_paths ss EnumerationEnded = []"
  "admitted_paths ss [] = []" "admitted_paths ss (x # xs) = entry_paths ss x @ admitted_paths ss xs"
  "failed_entries ss [] = 0" "failed_entries ss (x # xs) = (if entry_fails ss x then 1 else 0) + failed_entries ss xs"
  by (simp_all add: ahead_paths_def admitted_paths_def failed_entries_def)

definition seen_paths :: "scan_state \<Rightarrow> bytes multiset" where
  "seen_paths s = mset (map pr_path (sc_done s)) + mset (map hand_path (sc_hands s)) + mset (sc_queue s)"

lemma considered_ahead [simp]:
  "ahead_paths ss (sc_enumerator (consider_entry ss entry later s)) = entry_paths ss entry @ admitted_paths ss later"
  "snd (still_ahead (sc_enumerator (consider_entry ss entry later s))) = later"
  "sc_walk_errors (consider_entry ss entry later s) = (if entry_fails ss entry then 1 else 0) + sc_walk_errors s"
  by (auto simp: consider_entry_def consider_file_def count_walk_error_def split: walk_entry.split admission.split)

text \<open>Nothing is lost and nothing is added, until a cancelled enumerator gives up.\<close>

definition scan_covers :: "scan_settings \<Rightarrow> walk_entry list \<Rightarrow> scan_state \<Rightarrow> bool" where
  "scan_covers ss es s \<longleftrightarrow>
     seen_paths s + mset (ahead_paths ss (sc_enumerator s)) \<subseteq># mset (admitted_paths ss es) \<and>
     (sc_cancelled s \<and> sp_phase (sc_progress s) \<noteq> Completed \<or>
      seen_paths s + mset (ahead_paths ss (sc_enumerator s)) = mset (admitted_paths ss es) \<and>
      sc_walk_errors s + failed_entries ss (snd (still_ahead (sc_enumerator s))) = failed_entries ss es)"

lemma covers_same:
  assumes "scan_covers ss es s" and "seen_paths s' + mset (ahead_paths ss (sc_enumerator s')) = seen_paths s + mset (ahead_paths ss (sc_enumerator s))"
    and "sc_walk_errors s' + failed_entries ss (snd (still_ahead (sc_enumerator s'))) =
         sc_walk_errors s + failed_entries ss (snd (still_ahead (sc_enumerator s)))"
    and "sc_cancelled s \<and> sp_phase (sc_progress s) \<noteq> Completed \<longrightarrow> sc_cancelled s' \<and> sp_phase (sc_progress s') \<noteq> Completed"
  shows "scan_covers ss es s'"
  using assms by (auto simp: scan_covers_def)

lemma covers_step:
  assumes "scan_step env s s'" and "scan_shape (se_scan_settings env) s" and "scan_covers (se_scan_settings env) es s"
  shows "scan_covers (se_scan_settings env) es s'"
  using assms
proof (induction rule: scan_step.induct)
  case (gives_up s later path)
  then have "sp_phase (sc_progress s) \<noteq> Completed" by (auto simp: scan_shape_def is_finished_def phase_finished_def)
  then show ?case using gives_up by (auto simp: scan_covers_def seen_paths_def intro: subset_mset.order_trans [rotated])
next
  case (considers s entry later)
  then show ?case by (intro covers_same [OF considers(4)]) (auto simp: seen_paths_def)
next
  case (cancels s)
  then show ?case by (intro covers_same [OF cancels(2)]) (auto simp: seen_paths_def is_finished_def phase_finished_def)
next
  case (ends s now)
  show ?case by (rule covers_same [OF ends(5)]) (use ends in \<open>auto simp: seen_paths_def\<close>)
next
  case (records s hs d hs')
  then show ?case by (intro covers_same [OF records(3)]) (auto simp: seen_paths_def)
qed (erule covers_same, (auto simp: seen_paths_def announce_def scan_shape_def is_finished_def phase_finished_def) [3])+

lemma covers_reached: "scan_reaches env kind now roots st q s \<Longrightarrow> scan_covers (se_scan_settings env) (enumeration (se_scan_settings env) roots) s"
proof -
  let ?es = "enumeration (se_scan_settings env) roots"
  assume reached: "scan_reaches env kind now roots st q s"
  have "scan_shape (se_scan_settings env) s \<and> scan_covers (se_scan_settings env) ?es s"
  proof (rule reached_invariant [OF reached])
    show "scan_shape (se_scan_settings env) (scan_start (se_scan_settings env) kind now roots st q) \<and>
        scan_covers (se_scan_settings env) ?es (scan_start (se_scan_settings env) kind now roots st q)"
      using shape_reached [of env kind now roots st q] scan_reaches_def [of env kind now roots st q]
      by (simp add: scan_covers_def scan_start_def seen_paths_def enumeration_def)
  qed (use shape_step covers_step in blast)
  then show ?thesis ..
qed

section \<open>The counters\<close>

definition with_verdict :: "detection_verdict \<Rightarrow> processed list \<Rightarrow> nat" where
  "with_verdict v ps = length (filter (\<lambda>d. d_verdict (pr_report d) = v) ps)"

fun acted_on :: "hand \<Rightarrow> processed list" where
  "acted_on (Acted d) = [d]"
| "acted_on _ = []"

text \<open>The files that were acted on, counted or not.\<close>

definition acted_files :: "scan_state \<Rightarrow> processed list" where
  "acted_files s = sc_done s @ concat (map acted_on (sc_hands s))"

definition last_items :: "nat \<Rightarrow> 'b list \<Rightarrow> 'b list" where
  "last_items n xs = drop (length xs - n) xs"

lemma last_items_snoc:
  "0 < n \<Longrightarrow> last_items n (xs @ [x]) = (if length (last_items n xs) = n then tl (last_items n xs) else last_items n xs) @ [x]"
  by (cases "n \<le> length xs") (auto simp: last_items_def Suc_diff_le drop_Suc tl_drop)

definition finding_of_processed :: "processed \<Rightarrow> scan_finding" where
  "finding_of_processed d = finding_of (pr_path d) (pr_report d) (pr_outcome d)"

definition findings_of :: "processed list \<Rightarrow> scan_finding list" where
  "findings_of ps = last_items MAX_VISIBLE_FINDINGS (map finding_of_processed (filter (\<lambda>d. d_verdict (pr_report d) \<noteq> DClean) ps))"

definition isolated_files :: "processed list \<Rightarrow> nat" where
  "isolated_files ps = length (filter (\<lambda>d. ao_isolated (pr_outcome d)) ps)"

fun being_sent :: "enumerator \<Rightarrow> nat" where
  "being_sent (Sent _) = 1"
| "being_sent _ = 0"

definition tallies :: "scan_state \<Rightarrow> bool" where
  "tallies s \<longleftrightarrow> (let p = sc_progress s in
     sp_discovered_files p + being_sent (sc_enumerator s) = length (sc_queue s) + length (sc_hands s) + length (sc_done s) \<and>
     sp_scanned_files p = length (sc_done s) \<and> sp_scanned_bytes p \<le> u64_max \<and>
     sp_clean_files p = with_verdict DClean (sc_done s) \<and> sp_suspicious_files p = with_verdict DSuspicious (sc_done s) \<and>
     sp_malicious_files p = with_verdict DMalicious (sc_done s) \<and>
     sp_errors p = with_verdict DError (sc_done s) + sc_walk_errors s \<and>
     sp_quarantined_files p = isolated_files (acted_files s) \<and>
     sp_findings p = findings_of (sc_done s))"

lemma acted_simps [simp]:
  "isolated_files [] = 0" "isolated_files (d # ps) = (if ao_isolated (pr_outcome d) then 1 else 0) + isolated_files ps"
  "isolated_files (ps @ qs) = isolated_files ps + isolated_files qs"
  "with_verdict v [] = 0" "with_verdict v (ps @ qs) = with_verdict v ps + with_verdict v qs"
  "with_verdict v [d] = (if d_verdict (pr_report d) = v then 1 else 0)"
  by (simp_all add: isolated_files_def with_verdict_def)

lemma findings_snoc:
  "findings_of (ps @ [d]) = (if d_verdict (pr_report d) = DClean then findings_of ps
     else (if length (findings_of ps) = MAX_VISIBLE_FINDINGS then tl (findings_of ps) else findings_of ps) @ [finding_of_processed d])"
proof -
  have "0 < MAX_VISIBLE_FINDINGS" by (simp add: MAX_VISIBLE_FINDINGS_def)
  then show ?thesis by (simp add: findings_of_def last_items_snoc)
qed

lemma recorded_counts:
  "sp_discovered_files (record_result path r ao p) = sp_discovered_files p" "sp_scanned_files (record_result path r ao p) = sp_scanned_files p + 1"
  "sp_scanned_bytes (record_result path r ao p) = saturating_add u64_max (sp_scanned_bytes p) (d_file_size r)"
  "sp_clean_files (record_result path r ao p) = sp_clean_files p + (if d_verdict r = DClean then 1 else 0)"
  "sp_suspicious_files (record_result path r ao p) = sp_suspicious_files p + (if d_verdict r = DSuspicious then 1 else 0)"
  "sp_malicious_files (record_result path r ao p) = sp_malicious_files p + (if d_verdict r = DMalicious then 1 else 0)"
  "sp_errors (record_result path r ao p) = sp_errors p + (if d_verdict r = DError then 1 else 0)"
  "sp_quarantined_files (record_result path r ao p) = sp_quarantined_files p"
  "sp_findings (record_result path r ao p) = (if d_verdict r = DClean then sp_findings p
     else (if length (sp_findings p) = MAX_VISIBLE_FINDINGS then tl (sp_findings p) else sp_findings p) @ [finding_of path r ao])"
  by (simp_all add: record_result_def note_finding_def count_verdict_def Let_def split: detection_verdict.split)

lemma considered_counts:
  "sp_errors (sc_progress (consider_entry ss e later s)) = (if entry_fails ss e then 1 else 0) + sp_errors (sc_progress s)"
  "sp_discovered_files (sc_progress (consider_entry ss e later s)) = sp_discovered_files (sc_progress s)"
  "sp_scanned_files (sc_progress (consider_entry ss e later s)) = sp_scanned_files (sc_progress s)"
  "sp_scanned_bytes (sc_progress (consider_entry ss e later s)) = sp_scanned_bytes (sc_progress s)"
  "sp_clean_files (sc_progress (consider_entry ss e later s)) = sp_clean_files (sc_progress s)"
  "sp_suspicious_files (sc_progress (consider_entry ss e later s)) = sp_suspicious_files (sc_progress s)"
  "sp_malicious_files (sc_progress (consider_entry ss e later s)) = sp_malicious_files (sc_progress s)"
  "sp_quarantined_files (sc_progress (consider_entry ss e later s)) = sp_quarantined_files (sc_progress s)"
  "sp_findings (sc_progress (consider_entry ss e later s)) = sp_findings (sc_progress s)"
  "being_sent (sc_enumerator (consider_entry ss e later s)) = 0"
  by (auto simp: consider_entry_def consider_file_def count_walk_error_def split: walk_entry.split admission.split)

lemma tallies_step:
  assumes "scan_step env s s'" and "tallies s"
  shows "tallies s'"
  using assms
proof (induction rule: scan_step.induct)
  case (considers s entry later)
  then show ?case by (simp add: tallies_def Let_def considered_counts acted_files_def)
next
  case (gives_up s later path)
  then show ?case by (auto simp: tallies_def Let_def acted_files_def)
next
  case (acts s hs path fa r hs' ao q)
  then show ?case by (simp add: tallies_def Let_def acted_files_def note_isolated_def)
next
  case (records s hs d hs')
  then show ?case by (simp add: tallies_def Let_def acted_files_def recorded_counts findings_snoc finding_of_processed_def saturating_add_le)
next
  case (cancels s)
  then show ?case by (simp add: tallies_def Let_def acted_files_def cancel_def)
next
  case (ends s now)
  then show ?case by (simp add: tallies_def Let_def acted_files_def finish_scan_def)
qed (simp_all add: tallies_def Let_def acted_files_def announce_def)

lemma tallies_reached: "scan_reaches env kind now roots st q s \<Longrightarrow> tallies s"
  by (erule reached_invariant) (simp add: tallies_def scan_start_def progress_new_def finish_failed_def acted_files_def findings_of_def last_items_def, blast intro: tallies_step)

text \<open>
  (C39) The progress that is shown is exact at every moment: the counters are the numbers of files that were reported so
  far with each verdict, the errors include the entries that could not be read, the isolated files are those whose
  original is gone, and the findings are the latest 250 that are not clean, in the order in which they were counted. The
  queue never exceeds eight files for a worker.
\<close>

theorem scan_counts_exact:
  assumes "scan_reaches env kind now roots st q s"
  shows "let p = sc_progress s in
    sp_scanned_files p = length (sc_done s) \<and> sp_clean_files p = with_verdict DClean (sc_done s) \<and>
    sp_suspicious_files p = with_verdict DSuspicious (sc_done s) \<and> sp_malicious_files p = with_verdict DMalicious (sc_done s) \<and>
    sp_errors p = with_verdict DError (sc_done s) + sc_walk_errors s \<and>
    sp_quarantined_files p = isolated_files (acted_files s) \<and> sp_findings p = findings_of (sc_done s) \<and>
    length (sp_findings p) \<le> 250 \<and> sp_scanned_bytes p \<le> u64_max \<and> sp_scanned_files p \<le> sp_discovered_files p + 1 \<and>
    length (sc_queue s) \<le> worker_total (ss_settings (se_scan_settings env)) * 8 \<and>
    length (sc_hands s) \<le> worker_total (ss_settings (se_scan_settings env))"
proof -
  have "being_sent (sc_enumerator s) \<le> 1" by (cases "sc_enumerator s") auto
  then show ?thesis
    using tallies_reached [OF assms] shape_reached [OF assms]
    by (auto simp: tallies_def scan_shape_def Let_def findings_of_def last_items_def MAX_VISIBLE_FINDINGS_def queue_limit_def)
qed

section \<open>What is reported and what is removed\<close>

definition report_on :: "('r, 'a) scan_env \<Rightarrow> file_answers \<Rightarrow> detection_report \<Rightarrow> bool" where
  "report_on env fa r \<longleftrightarrow>
     (\<exists>st. r = fst (detection_scan_path (se_detection env) (se_engine env) (fa_regular fa) (fa_opened fa) st))"

fun hand_reported :: "('r, 'a) scan_env \<Rightarrow> hand \<Rightarrow> bool" where
  "hand_reported env (Reported _ fa r) = report_on env fa r"
| "hand_reported env (Acted d) = report_on env (pr_answers d) (pr_report d)"
| "hand_reported env _ = True"

definition all_reported :: "('r, 'a) scan_env \<Rightarrow> scan_state \<Rightarrow> bool" where
  "all_reported env s \<longleftrightarrow> list_all (hand_reported env) (sc_hands s) \<and> list_all (\<lambda>d. report_on env (pr_answers d) (pr_report d)) (sc_done s)"

lemma all_reported_step:
  assumes "scan_step env s s'" and "all_reported env s"
  shows "all_reported env s'"
  using assms
proof (induction rule: scan_step.induct)
  case (scans s hs path hs' fa r st)
  have "report_on env fa r" unfolding report_on_def using scans(2) by (metis fst_conv)
  with scans show ?case by (simp add: all_reported_def)
qed (auto simp: all_reported_def)

lemma all_reported_reached: "scan_reaches env kind now roots st q s \<Longrightarrow> all_reported env s"
  by (erule reached_invariant) (simp add: all_reported_def scan_start_def, blast intro: all_reported_step)

lemma acted_reported:
  assumes "all_reported env s" and "d \<in> set (acted_files s)"
  shows "report_on env (pr_answers d) (pr_report d)"
proof (cases "d \<in> set (sc_done s)")
  case True
  then show ?thesis using assms(1) by (auto simp: all_reported_def list_all_iff)
next
  case False
  then obtain h where h: "h \<in> set (sc_hands s)" "d \<in> set (acted_on h)" using assms(2) by (auto simp: acted_files_def)
  from h(2) have "h = Acted d" by (cases h) auto
  then show ?thesis using assms(1) h(1) by (auto simp: all_reported_def list_all_iff)
qed

text \<open>What removing a file takes: a conviction, the setting, and the convicted content at the canonical place.\<close>

definition removes :: "('r, 'a) scan_env \<Rightarrow> processed \<Rightarrow> utext \<Rightarrow> bool" where
  "removes env d p \<longleftrightarrow> (let r = pr_report d; io = fa_quarantine (pr_answers d) in
     should_quarantine r \<and> automatic_quarantine (ss_settings (se_scan_settings env)) \<and>
     qi_canonical io = Some p \<and> \<not> qi_in_root io \<and>
     (\<exists>digest grants seen unread. d_sha256 r = Some digest \<and> qi_opened io = Some (True, d_file_size r, seen @ unread, grants) \<and>
        length seen = d_file_size r \<and> eq_ignore_case_bytes (qe_sha256_hex (se_quarantine env) seen) (bytes_of digest)))"

lemma act_on_removes:
  assumes "act_on env path fa r q = (ao, q')" and "q_files q' p \<noteq> q_files q p"
  shows "removes env \<lparr>pr_path = path, pr_answers = fa, pr_report = r, pr_outcome = ao\<rparr> p"
proof -
  have on: "should_quarantine r" "automatic_quarantine (ss_settings (se_scan_settings env))"
    using assms by (auto simp: act_on_def split: if_splits)
  obtain result where run: "quarantine_threat env fa r q = (result, q')"
    using assms(1) on by (auto simp: act_on_def Let_def split: prod.splits sum.splits)
  then obtain digest where digest: "d_sha256 r = Some digest" using assms(2) by (auto simp: quarantine_threat_def split: option.splits)
  have "quarantine_inner (se_quarantine env) (fa_quarantine fa)
      (text_of (case d_threat_name r of None \<Rightarrow> ''Known.Malware'' | Some n \<Rightarrow> n)) (d_risk_score r) (bytes_of digest) (d_file_size r) None q
    = (result, q')"
    using run digest by (simp add: quarantine_threat_def)
  from removal_checked [OF this assms(2)] on digest show ?thesis
    unfolding removes_def by (auto simp: Let_def)
qed

definition removals_justified :: "('r, 'a) scan_env \<Rightarrow> quarantine_state \<Rightarrow> scan_state \<Rightarrow> bool" where
  "removals_justified env q s \<longleftrightarrow> (\<forall>p. q_files (sc_store s) p = q_files q p \<or> (\<exists>d \<in> set (acted_files s). removes env d p))"

lemma removals_step:
  assumes "scan_step env s s'" and "removals_justified env q s"
  shows "removals_justified env q s'"
  using assms
proof (induction rule: scan_step.induct)
  case (acts s hs path fa r hs' ao q')
  let ?d = "\<lparr>pr_path = path, pr_answers = fa, pr_report = r, pr_outcome = ao\<rparr>"
  let ?s = "s\<lparr>sc_store := q', sc_progress := note_isolated ao (sc_progress s), sc_events := sc_events s @ ao_events ao,
      sc_hands := hs @ Acted ?d # hs'\<rparr>"
  have "q_files q' p = q_files q p \<or> (\<exists>d \<in> set (acted_files ?s). removes env d p)" for p
  proof (cases "q_files q' p = q_files (sc_store s) p")
    case True
    then show ?thesis using acts(1,3) by (auto simp: removals_justified_def acted_files_def)
  next
    case False
    then show ?thesis using act_on_removes [OF acts(2)] by (simp add: acted_files_def)
  qed
  then show ?case by (simp add: removals_justified_def)
next
  case (gives_up s later path)
  then show ?case by (auto simp: removals_justified_def acted_files_def)
qed (simp_all add: removals_justified_def acted_files_def ac_simps)

lemma removals_reached: "scan_reaches env kind now roots st q s \<Longrightarrow> removals_justified env q s"
  by (erule reached_invariant) (simp add: removals_justified_def scan_start_def, blast intro: removals_step)

lemma acted_admitted:
  assumes "scan_reaches env kind now roots st q s" and "d \<in> set (acted_files s)"
  shows "pr_path d \<in> set (admitted_paths (se_scan_settings env) (enumeration (se_scan_settings env) roots))"
proof -
  have acted: "d \<in> set (acted_on h) \<Longrightarrow> hand_path h = pr_path d" for h by (cases h) auto
  have "pr_path d \<in># seen_paths s" using assms(2) acted by (force simp: acted_files_def seen_paths_def)
  moreover have "seen_paths s \<subseteq># mset (admitted_paths (se_scan_settings env) (enumeration (se_scan_settings env) roots))"
    using covers_reached [OF assms(1)] unfolding scan_covers_def by (meson mset_subset_eq_add_left subset_mset.order_trans)
  ultimately show ?thesis by (metis mset_subset_eqD set_mset_mset)
qed

text \<open>A report that convicts comes from a file that was read whole and unchanged, and carries its digest.\<close>

lemma convicting_report:
  assumes "report_on env fa r" and "d_verdict r = DMalicious"
  obtains f content where "fa_opened fa = Some f" "stable_file f content"
    "d_sha256 r = Some (hex_sha256 (sha256 (de_engine (se_detection env)) content))"
proof -
  obtain st where r: "r = fst (detection_scan_path (se_detection env) (se_engine env) (fa_regular fa) (fa_opened fa) st)"
    using assms(1) by (auto simp: report_on_def)
  then obtain f where f: "fa_opened fa = Some f" "r = fst (analyze_open_file (se_detection env) (se_engine env) f st)"
    using assms(2) by (auto simp: detection_scan_path_def detection_error_def split: option.splits if_splits)
  then obtain content where "stable_file f content"
    using assms(2) unstable_file_error [of f "se_detection env" "se_engine env" st] by (fastforce simp: detection_error_def)
  with f open_file_sha256 [OF this, of "se_detection env" "se_engine env" st] that show ?thesis by simp
qed


text \<open>
  (C5) A scan that is shown as completed was complete: every file the enumeration admits, and no other, was scanned and
  reported, once for each time it occurs under the roots; the counts agree; each failure of the walk was counted; and
  each file whose content stayed unchanged and whose digest the engine knows was reported as malicious.
\<close>

theorem completed_scan_complete:
  assumes "scan_reaches env kind now roots st q s" and "sp_phase (sc_progress s) = Completed"
  shows "mset (map pr_path (sc_done s)) = mset (admitted_paths (se_scan_settings env) (enumeration (se_scan_settings env) roots)) \<and>
    sp_discovered_files (sc_progress s) = length (sc_done s) \<and> sp_scanned_files (sc_progress s) = length (sc_done s) \<and>
    sc_walk_errors s = failed_entries (se_scan_settings env) (enumeration (se_scan_settings env) roots) \<and>
    (\<forall>d \<in> set (sc_done s). report_on env (pr_answers d) (pr_report d) \<and>
       (\<forall>f content. fa_regular (pr_answers d) = Some True \<and> fa_opened (pr_answers d) = Some f \<and> stable_file f content \<and>
          db_lookup (signatures (static_engine (se_engine env))) (sha256 (de_engine (se_detection env)) content) \<noteq> None \<longrightarrow>
          d_verdict (pr_report d) = DMalicious))"
proof -
  note shape = shape_reached [OF assms(1)]
  then have over: "sc_enumerator s = EnumerationEnded" "sc_workers s = 0" "sc_hands s = []" "sc_queue s = []"
    using assms(2) worker_total_pos [of "ss_settings (se_scan_settings env)"]
    by (auto simp: scan_shape_def is_finished_def phase_finished_def)
  have known: "d_verdict r = DMalicious"
    if r: "report_on env fa r" and f: "fa_regular fa = Some True" "fa_opened fa = Some f" "stable_file f content"
      and k: "db_lookup (signatures (static_engine (se_engine env))) (sha256 (de_engine (se_detection env)) content) \<noteq> None"
    for fa r f content
  proof -
    obtain st where "r = fst (analyze_open_file (se_detection env) (se_engine env) f st)"
      using r f(1,2) by (auto simp: report_on_def detection_scan_path_def)
    with known_content_convicts [OF f(3), of "se_engine env" "se_detection env" st] k show ?thesis by (simp add: Let_def)
  qed
  have reported: "report_on env (pr_answers d) (pr_report d)" if "d \<in> set (sc_done s)" for d
    using acted_reported [OF all_reported_reached [OF assms(1)]] that by (simp add: acted_files_def)
  have "mset (map pr_path (sc_done s)) = mset (admitted_paths (se_scan_settings env) (enumeration (se_scan_settings env) roots))"
      "sc_walk_errors s = failed_entries (se_scan_settings env) (enumeration (se_scan_settings env) roots)"
    using covers_reached [OF assms(1)] over assms(2) by (auto simp: scan_covers_def seen_paths_def)
  moreover have "sp_discovered_files (sc_progress s) = length (sc_done s)" "sp_scanned_files (sc_progress s) = length (sc_done s)"
    using tallies_reached [OF assms(1)] over by (auto simp: tallies_def Let_def)
  ultimately show ?thesis using reported known by blast
qed

text \<open>
  A worker that takes a file after the scan was cancelled shows the scan as running again: the phase that
  \<^verbatim>\<open>cancel\<close> has set is overwritten.
\<close>

lemma cancelling_shown_as_scanning:
  assumes "sc_hands s = Taken path # hs" and "\<not> is_finished (sc_progress s)"
  shows "sp_phase (sc_progress (cancel s)) = Cancelling \<and>
    (\<exists>s'. scan_step env (cancel s) s' \<and> sc_cancelled s' \<and> sp_phase (sc_progress s') = Scanning)"
proof -
  have "scan_step env (cancel s) ((cancel s)\<lparr>sc_progress := announce path (sc_progress (cancel s)), sc_hands := [] @ Announced path # hs\<rparr>)"
    by (rule scan_step.announces) (simp add: assms(1))
  with assms(2) show ?thesis by (fastforce simp: announce_def)
qed

section \<open>Examples\<close>

text \<open>A scan of one file by one worker.\<close>

lemma one_file_acted:
  assumes "admission_of (se_scan_settings env) e = Admit" and "worker_total (ss_settings (se_scan_settings env)) = 1"
    and "detection_scan_path (se_detection env) (se_engine env) (fa_regular fa) (fa_opened fa) st = (r, st')"
    and "act_on env (fe_path e) fa r q = (ao, q')"
  obtains s where "scan_reaches env kind now [FileNode e] st q s" "sc_store s = q'" "sc_enumerator s = Walking []" "sc_queue s = []"
    "sc_hands s = [Acted \<lparr>pr_path = fe_path e, pr_answers = fa, pr_report = r, pr_outcome = ao\<rparr>]" "sc_workers s = 1" "sc_done s = []"
    "\<not> sc_cancelled s" "\<not> sc_over s"
proof -
  let ?ss = "se_scan_settings env"
  define s0 where "s0 = scan_start ?ss kind now [FileNode e] st q"
  define s1 where "s1 = consider_entry ?ss (FileEntry e) [] s0"
  define s2 where "s2 = s1\<lparr>sc_enumerator := Sent [], sc_queue := sc_queue s1 @ [fe_path e]\<rparr>"
  define s3 where "s3 = s2\<lparr>sc_enumerator := Walking [],
      sc_progress := (sc_progress s2)\<lparr>sp_discovered_files := sp_discovered_files (sc_progress s2) + 1\<rparr>\<rparr>"
  define s4 where "s4 = s3\<lparr>sc_queue := [], sc_hands := Taken (fe_path e) # sc_hands s3\<rparr>"
  define s5 where "s5 = s4\<lparr>sc_progress := announce (fe_path e) (sc_progress s4), sc_hands := [] @ Announced (fe_path e) # []\<rparr>"
  define s6 where "s6 = s5\<lparr>sc_breakers := st', sc_hands := [] @ Reported (fe_path e) fa r # []\<rparr>"
  define s7 where "s7 = s6\<lparr>sc_store := q', sc_progress := note_isolated ao (sc_progress s6), sc_events := sc_events s6 @ ao_events ao,
      sc_hands := [] @ Acted \<lparr>pr_path = fe_path e, pr_answers = fa, pr_report = r, pr_outcome = ao\<rparr> # []\<rparr>"
  have start: "sc_enumerator s0 = Walking [FileEntry e]" "sc_queue s0 = []" "sc_hands s0 = []" "sc_workers s0 = 1" "\<not> sc_cancelled s0" "\<not> sc_over s0"
      "sc_breakers s0 = st" "sc_store s0 = q" "sc_done s0 = []"
    using assms(2) by (simp_all add: s0_def scan_start_def enumeration_def)
  have considered: "s1 = s0\<lparr>sc_enumerator := Offering (fe_path e) []\<rparr>"
    using assms(1) by (simp add: s1_def consider_entry_def consider_file_def)
  have "scan_step env s0 s1" unfolding s1_def by (rule scan_step.considers) (use start in simp_all)
  moreover have "scan_step env s1 s2" unfolding s2_def
    by (rule scan_step.sends) (use start assms(2) in \<open>simp_all add: considered queue_limit_def\<close>)
  moreover have "scan_step env s2 s3" unfolding s3_def by (rule scan_step.discovers) (simp add: s2_def)
  moreover have "scan_step env s3 s4" unfolding s4_def
    by (rule scan_step.takes) (use start in \<open>simp_all add: s3_def s2_def considered\<close>)
  moreover have "scan_step env s4 s5" unfolding s5_def
    by (rule scan_step.announces) (use start in \<open>simp add: s4_def s3_def s2_def considered\<close>)
  moreover have "scan_step env s5 s6" unfolding s6_def
    by (rule scan_step.scans) (use start assms(3) in \<open>simp_all add: s5_def s4_def s3_def s2_def considered\<close>)
  moreover have "scan_step env s6 s7" unfolding s7_def
    by (rule scan_step.acts) (use start assms(4) in \<open>simp_all add: s6_def s5_def s4_def s3_def s2_def considered\<close>)
  ultimately have "scan_reaches env kind now [FileNode e] st q s7"
    unfolding scan_reaches_def s0_def [symmetric] by (meson converse_rtranclp_into_rtranclp rtranclp.rtrancl_refl)
  then show ?thesis
    by (rule that) (use start in \<open>simp_all add: s7_def s6_def s5_def s4_def s3_def s2_def considered\<close>)
qed

lemma one_file_completed:
  assumes "admission_of (se_scan_settings env) e = Admit" and "worker_total (ss_settings (se_scan_settings env)) = 1"
  obtains s where "scan_reaches env kind now [FileNode e] st q s" "sp_phase (sc_progress s) = Completed"
    "map pr_path (sc_done s) = [fe_path e]" "map pr_answers (sc_done s) = [fa]"
proof -
  obtain r st' where r: "detection_scan_path (se_detection env) (se_engine env) (fa_regular fa) (fa_opened fa) st = (r, st')" by fastforce
  obtain ao q' where ao: "act_on env (fe_path e) fa r q = (ao, q')" by fastforce
  define d where "d = \<lparr>pr_path = fe_path e, pr_answers = fa, pr_report = r, pr_outcome = ao\<rparr>"
  obtain s where s: "scan_reaches env kind now [FileNode e] st q s" "sc_enumerator s = Walking []" "sc_queue s = []"
      "sc_hands s = [] @ Acted d # []" "sc_workers s = 1" "sc_done s = []" "\<not> sc_cancelled s" "\<not> sc_over s"
    using one_file_acted [OF assms r ao] unfolding d_def append_Nil by metis
  define s1 where "s1 = s\<lparr>sc_progress := record_result (pr_path d) (pr_report d) (pr_outcome d) (sc_progress s),
      sc_hands := [] @ [], sc_done := sc_done s @ [d]\<rparr>"
  define s2 where "s2 = s1\<lparr>sc_enumerator := EnumerationEnded\<rparr>"
  define s3 where "s3 = s2\<lparr>sc_workers := sc_workers s2 - 1\<rparr>"
  have "scan_step env s s1" unfolding s1_def by (rule scan_step.records) (rule s(4))
  moreover have "scan_step env s1 s2" unfolding s2_def by (rule scan_step.walked) (simp add: s1_def s(2))
  moreover have "scan_step env s2 s3" unfolding s3_def by (rule scan_step.leaves) (simp_all add: s2_def s1_def s)
  moreover have "scan_step env s3 (finish_scan 0 s3)" by (rule scan_step.ends) (simp_all add: s3_def s2_def s1_def s)
  ultimately have "scan_reaches env kind now [FileNode e] st q (finish_scan 0 s3)"
    using s(1) unfolding scan_reaches_def by (meson rtranclp.rtrancl_into_rtrancl)
  then show ?thesis by (rule that) (simp_all add: s3_def s2_def s1_def s d_def)
qed

lemma open_file_size:
  assumes "stable_file f content" and "f_before f = Some before" "m_len before \<le> length content"
  shows "d_file_size (fst (analyze_open_file env e f st)) = length content"
proof -
  let ?sample = "take (max_read_bytes (config (static_engine e))) content"
  define digests where "digests = \<lparr>wf_sha256 = sha256 (de_engine env) content,
      wf_md5 = (if wants_file_md5 (native_index e) (m_len before) then Some (de_md5 env content) else None), wf_length = length content\<rparr>"
  have a: "wf_length digests = length content"
      "analyze_open_file env e f st = analyze_sample env e ?sample (m_len before) digests st"
    using assms(1,2)
    by (auto simp: digests_def stable_file_def analyze_open_file_def read_and_hash_def read_all_start split: option.splits)
  define report where "report = scan_sample_with_digest (de_engine env) (static_engine e) ?sample (length content) (wf_sha256 digests)"
  have size: "r_file_size report = length content"
    by (simp add: report_def scan_sample_with_digest_def analyze_internal_def Let_def case_prod_unfold)
  define m where "m = evaluate_native_index env e ?sample report (length content) (wf_md5 digests)"
  obtain c failed where c: "fst (gather_and_resolve env e Consult ?sample (length content) report m st) = record_rule_failure failed (resolve_cascade c)"
      "c_static c = report"
    using gather_and_resolve_cases [of env e Consult ?sample "length content" report m st] by metis
  have merged: "d_file_size (merge_inspection i r) = d_file_size r" for i r
    by (auto simp: merge_inspection_def apply_structure_def apply_finding_def Let_def split: option.split detection_verdict.split)
  have "d_file_size (record_rule_failure failed (resolve_cascade c)) = length content"
    using c(2) size by (simp add: record_rule_failure_def resolve_cascade_def Let_def split: prod.split)
  then show ?thesis
    using assms(3) a c(1)
    by (auto simp: analyze_sample_def max_absorb2 case_prod_unfold Let_def report_def [symmetric] m_def [symmetric]
        with_container_inspection_def merged split: option.split)
qed

definition all_aa :: string where "all_aa = replicate 64 (CHR ''a'')"

definition example_scan_env :: "(unit, unit) scan_env" where
  "example_scan_env = \<lparr>
     se_detection = example_env\<lparr>de_engine := (de_engine example_env)\<lparr>sha256 := \<lambda>_. replicate 32 0xAA\<rparr>\<rparr>,
     se_engine = example_engine\<lparr>shards := \<lparr>persistent = False,
       by_digest = [(all_aa, \<lparr>sh_sha256 = all_aa, sh_threat_name = ''X'', sh_learned_at = 0\<rparr>)], disk = []\<rparr>\<rparr>,
     se_quarantine = toy_env,
     se_scan_settings = \<lparr>ss_paths = \<lparr>canonicalize_with_missing_tail = id, query_dos_device = (\<lambda>_. None), to_lowercase = id\<rparr>,
       ss_settings = (settings_default 1)\<lparr>worker_count := 1\<rparr>\<rparr>\<rparr>"

definition example_file :: file_entry where
  "example_file = \<lparr>fe_path = bytes_of ''C:/bad'', fe_in_store = False, fe_length = Some 2\<rparr>"

definition example_answers :: file_answers where
  "example_answers = \<lparr>fa_regular = Some True, fa_opened = Some example_opened,
     fa_quarantine = example_io\<lparr>qi_opened := Some (True, 2, [7, 8], [])\<rparr>, fa_now = 0\<rparr>"

lemma example_all_aa: "hex_sha256 (replicate 32 0xAA) = all_aa" "bytes_of all_aa = replicate 64 97" "lower all_aa = all_aa"
proof -
  have "hex_char 10 = CHR ''a''" "lower_char (CHR ''a'') = CHR ''a''" "byte_of (CHR ''a'') = 97" by code_simp+
  moreover have "concat (map f (replicate n x)) = replicate (2 * n) c" if "f x = [c, c]" for f :: "byte \<Rightarrow> string" and n x c
    using that by (induction n) simp_all
  ultimately show "hex_sha256 (replicate 32 0xAA) = all_aa" "bytes_of all_aa = replicate 64 97" "lower all_aa = all_aa"
    by (simp_all add: hex_sha256_def all_aa_def bytes_of_def lower_def map_replicate)
qed

lemma example_admitted: "admission_of (se_scan_settings example_scan_env) example_file = Admit"
    "worker_total (ss_settings (se_scan_settings example_scan_env)) = 1"
  by (simp_all add: admission_of_def passed_over_def example_file_def example_scan_env_def settings_default_def is_excluded_def
      exclusion_keys_def keys_of_def worker_total_def u64_max_def)

lemma example_convicted:
  assumes "detection_scan_path (se_detection example_scan_env) (se_engine example_scan_env) (fa_regular example_answers)
    (fa_opened example_answers) st = (r, st')"
  shows "should_quarantine r" "d_sha256 r = Some all_aa" "d_file_size r = 2"
proof -
  have stable: "stable_file example_opened [7, 8]"
    by (simp add: stable_file_def example_opened_def example_meta_def file_changed_def)
  have r: "r = fst (analyze_open_file (se_detection example_scan_env) (se_engine example_scan_env) example_opened st)"
    using assms by (simp add: detection_scan_path_def example_answers_def)
  have known: "shards_lookup (shards (se_engine example_scan_env)) (hex_sha256 (sha256 (de_engine (se_detection example_scan_env)) [7, 8])) \<noteq> None"
    by (simp add: shards_lookup_def example_scan_env_def example_all_aa hm_get_def)
  show "should_quarantine r" using known_content_convicts [OF stable, of "se_engine example_scan_env" "se_detection example_scan_env" st] known r
    by (simp add: Let_def)
  show "d_sha256 r = Some all_aa" using open_file_sha256 [OF stable, of "se_detection example_scan_env" "se_engine example_scan_env" st] r
    by (simp add: example_scan_env_def example_all_aa)
  show "d_file_size r = 2"
    using open_file_size [OF stable, of example_meta "se_detection example_scan_env" "se_engine example_scan_env" st] r
    by (simp add: example_opened_def example_meta_def)
qed

lemma example_scan_removes:
  obtains s where "scan_reaches example_scan_env FullScan 0 [FileNode example_file] example_breakers example_store s"
    "q_files (sc_store s) (text_of ''C:/bad'') = None" "\<not> sc_over s" "length (acted_files s) = 1"
proof -
  obtain r st' where r: "detection_scan_path (se_detection example_scan_env) (se_engine example_scan_env) (fa_regular example_answers)
    (fa_opened example_answers) example_breakers = (r, st')" by fastforce
  obtain ao q' where ao: "act_on example_scan_env (fe_path example_file) example_answers r example_store = (ao, q')" by fastforce
  have removed: "q_files (snd (quarantine_inner toy_env (fa_quarantine example_answers) threat score (replicate 63 97 @ [97]) 2 None example_store))
      (text_of ''C:/bad'') = None" for threat score
    by (simp add: example_simps example_answers_def Let_def same_case_refl)
  have digest: "bytes_of all_aa = replicate 63 97 @ [97]"
    unfolding example_all_aa(2) replicate_append_same replicate_Suc [symmetric] by simp
  have "automatic_quarantine (ss_settings (se_scan_settings example_scan_env))" by (simp add: example_scan_env_def settings_default_def)
  moreover obtain result where "quarantine_threat example_scan_env example_answers r example_store = (result, q')"
    using ao by (cases "quarantine_threat example_scan_env example_answers r example_store")
      (use calculation example_convicted(1) [OF r] in \<open>auto simp: act_on_def Let_def split: sum.splits\<close>)
  moreover have "se_quarantine example_scan_env = toy_env" by (simp add: example_scan_env_def)
  ultimately have gone: "q_files q' (text_of ''C:/bad'') = None"
    using removed example_convicted [OF r] by (simp add: quarantine_threat_def digest) (metis snd_conv)
  obtain s where s: "scan_reaches example_scan_env FullScan 0 [FileNode example_file] example_breakers example_store s" "sc_store s = q'"
      "sc_hands s = [Acted \<lparr>pr_path = fe_path example_file, pr_answers = example_answers, pr_report = r, pr_outcome = ao\<rparr>]"
      "sc_done s = []" "\<not> sc_over s"
    by (rule one_file_acted [OF example_admitted r ao, of FullScan 0]) blast
  show ?thesis by (rule that [OF s(1)]) (use s gone in \<open>simp_all add: acted_files_def\<close>)
qed

theorem scan_ends_witness:
  "\<exists>s s'. scan_reaches example_scan_env FullScan 0 [FileNode example_file] example_breakers example_store s \<and>
     scan_step example_scan_env s s' \<and> steps_left s' < steps_left s"
  using example_scan_removes scan_ends by metis

theorem scan_counts_exact_witness:
  "\<exists>s. scan_reaches example_scan_env FullScan 0 [FileNode example_file] example_breakers example_store s \<and>
     sp_scanned_files (sc_progress s) = length (sc_done s) \<and> length (acted_files s) = 1"
  using example_scan_removes scan_counts_exact unfolding Let_def by metis


theorem completed_scan_complete_witness:
  "\<exists>s. scan_reaches example_scan_env FullScan 0 [FileNode example_file] example_breakers example_store s \<and>
     sp_scanned_files (sc_progress s) = 1 \<and> admitted_paths (se_scan_settings example_scan_env)
       (enumeration (se_scan_settings example_scan_env) [FileNode example_file]) = [fe_path example_file]"
proof -
  obtain s where s: "scan_reaches example_scan_env FullScan 0 [FileNode example_file] example_breakers example_store s"
    "sp_phase (sc_progress s) = Completed" "map pr_path (sc_done s) = [fe_path example_file]"
    using one_file_completed [OF example_admitted] by metis
  then have "length (sc_done s) = 1" by (metis length_map list.size(3,4) One_nat_def plus_1_eq_Suc add_0)
  with completed_scan_complete [OF s(1,2)] s(1) show ?thesis
    using example_admitted(1) by (auto simp: enumeration_def)
qed

end
